(* ===== verification/Prelude.thy ===== *)
theory Prelude
  imports Main "HOL-Library.Word"
begin

text \<open>
  Shared vocabulary of the development: machine-integer conventions, \<open>io::Result\<close>
  values, checked arithmetic, byte slices and the state-and-error computations that
  model functions taking \<open>&mut impl BlockDevice\<close>.

  \<^item> \<open>u64\<close>, \<open>u32\<close>, \<open>u16\<close> and \<open>usize\<close> values are natural numbers; every checked operation of the
    source is written with its bound (\<open>usize\<close> is 64 bits wide, so \<open>usize::try_from\<close> of
    a \<open>u64\<close> never fails), every unchecked one wraps modulo \<open>2 ^ 64\<close> as a release build does.
  \<^item> Bytes are \<open>8 word\<close>, checksums \<open>32 word\<close>.
  \<^item> An \<open>io::Error\<close> is its \<open>ErrorKind\<close>; the message text is dropped.
\<close>

unbundle bit_operations_syntax

named_theorems slice_simps \<open>reading and overwriting fixed-offset byte fields\<close>
named_theorems io_simps \<open>unfolding the computations over a device\<close>

section \<open>Integers\<close>

type_synonym byte = "8 word"
type_synonym u64 = nat

abbreviation U16_LIMIT :: nat where "U16_LIMIT \<equiv> 2 ^ 16"
abbreviation U32_LIMIT :: nat where "U32_LIMIT \<equiv> 2 ^ 32"
abbreviation U64_LIMIT :: nat where "U64_LIMIT \<equiv> 2 ^ 64"

definition checked_add :: "nat \<Rightarrow> nat \<Rightarrow> nat option" where
  "checked_add a b = (if a + b < U64_LIMIT then Some (a + b) else None)"

definition checked_mul :: "nat \<Rightarrow> nat \<Rightarrow> nat option" where
  "checked_mul a b = (if a * b < U64_LIMIT then Some (a * b) else None)"

definition checked_sub :: "nat \<Rightarrow> nat \<Rightarrow> nat option" where
  "checked_sub a b = (if b \<le> a then Some (a - b) else None)"

definition add64 :: "nat \<Rightarrow> nat \<Rightarrow> nat" where
  "add64 a b = (a + b) mod U64_LIMIT"

definition sub64 :: "nat \<Rightarrow> nat \<Rightarrow> nat" where
  "sub64 a b = (if b \<le> a then a - b else a + U64_LIMIT - b)"

section \<open>Results\<close>

datatype error_kind =
    InvalidInput | InvalidData | UnexpectedEof | WouldBlock | NotFound
  | PermissionDenied | OtherError

type_synonym 'a io_result = "error_kind + 'a"

definition res_bind :: "'e + 'a \<Rightarrow> ('a \<Rightarrow> 'e + 'b) \<Rightarrow> 'e + 'b" where
  "res_bind r f = (case r of Inl e \<Rightarrow> Inl e | Inr x \<Rightarrow> f x)"

definition ok_or :: "'e \<Rightarrow> 'a option \<Rightarrow> 'e + 'a" where
  "ok_or e r = (case r of None \<Rightarrow> Inl e | Some x \<Rightarrow> Inr x)"

definition map_err :: "('e \<Rightarrow> 'f) \<Rightarrow> 'e + 'a \<Rightarrow> 'f + 'a" where
  "map_err f r = (case r of Inl e \<Rightarrow> Inl (f e) | Inr x \<Rightarrow> Inr x)"

fun res_fold :: "('x \<Rightarrow> 's \<Rightarrow> 'e + 's) \<Rightarrow> 'x list \<Rightarrow> 's \<Rightarrow> 'e + 's" where
  "res_fold f [] s = Inr s"
| "res_fold f (x # xs) s = res_bind (f x s) (res_fold f xs)"

section \<open>Computations over a device\<close>

text \<open>
  A function of the source that takes \<open>&mut impl BlockDevice\<close> returns its result
  together with the device, on success and on failure alike: an early return with
  \<open>?\<close> keeps the writes issued before it.
\<close>

type_synonym ('d, 'a) dev_io = "'d \<Rightarrow> 'a io_result \<times> 'd"

definition io_return :: "'a \<Rightarrow> ('d, 'a) dev_io" where
  "io_return x d = (Inr x, d)"

definition io_fail :: "error_kind \<Rightarrow> ('d, 'a) dev_io" where
  "io_fail e d = (Inl e, d)"

definition io_lift :: "'a io_result \<Rightarrow> ('d, 'a) dev_io" where
  "io_lift r d = (r, d)"

definition io_bind :: "('d, 'a) dev_io \<Rightarrow> ('a \<Rightarrow> ('d, 'b) dev_io) \<Rightarrow> ('d, 'b) dev_io" where
  "io_bind m f d = (case m d of (Inl e, d') \<Rightarrow> (Inl e, d') | (Inr x, d') \<Rightarrow> f x d')"

definition io_seq :: "('d, 'a) dev_io \<Rightarrow> ('d, 'b) dev_io \<Rightarrow> ('d, 'b) dev_io" where
  "io_seq m n = io_bind m (\<lambda>_. n)"

definition io_when :: "bool \<Rightarrow> ('d, unit) dev_io \<Rightarrow> ('d, unit) dev_io" where
  "io_when c m = (if c then m else io_return ())"

fun io_for :: "'x list \<Rightarrow> ('x \<Rightarrow> ('d, unit) dev_io) \<Rightarrow> ('d, unit) dev_io" where
  "io_for [] f = io_return ()"
| "io_for (x # xs) f = io_seq (f x) (io_for xs f)"

fun io_map :: "'x list \<Rightarrow> ('x \<Rightarrow> ('d, 'a) dev_io) \<Rightarrow> ('d, 'a list) dev_io" where
  "io_map [] f = io_return []"
| "io_map (x # xs) f = io_bind (f x) (\<lambda>y. io_bind (io_map xs f) (\<lambda>ys. io_return (y # ys)))"

section \<open>Byte slices\<close>

text \<open>
  \<open>get_bytes off n bs\<close> is \<open>bs[off..off + n]\<close>; \<open>put_bytes off xs bs\<close> is the effect of
  \<open>bs[off..off + xs.len()].copy_from_slice(xs)\<close>.
\<close>

definition get_bytes :: "nat \<Rightarrow> nat \<Rightarrow> byte list \<Rightarrow> byte list" where
  "get_bytes off n bs = take n (drop off bs)"

definition put_bytes :: "nat \<Rightarrow> byte list \<Rightarrow> byte list \<Rightarrow> byte list" where
  "put_bytes off xs bs = take off bs @ xs @ drop (off + length xs) bs"

definition put_fields :: "(nat \<times> byte list) list \<Rightarrow> byte list \<Rightarrow> byte list" where
  "put_fields fs bs = fold (\<lambda>(off, xs). put_bytes off xs) fs bs"

definition zeroes :: "nat \<Rightarrow> byte list" where
  "zeroes n = replicate n 0"

definition all_zero :: "byte list \<Rightarrow> bool" where
  "all_zero bs = list_all (\<lambda>b. b = 0) bs"

section \<open>Lemmas: integers and results\<close>

lemma checked_add_Some [simp]: "checked_add a b = Some c \<longleftrightarrow> c = a + b \<and> a + b < U64_LIMIT"
  by (auto simp: checked_add_def)

lemma checked_add_None [simp]: "checked_add a b = None \<longleftrightarrow> U64_LIMIT \<le> a + b"
  by (auto simp: checked_add_def)

lemma checked_mul_Some [simp]: "checked_mul a b = Some c \<longleftrightarrow> c = a * b \<and> a * b < U64_LIMIT"
  by (auto simp: checked_mul_def)

lemma checked_mul_None [simp]: "checked_mul a b = None \<longleftrightarrow> U64_LIMIT \<le> a * b"
  by (auto simp: checked_mul_def)

lemma checked_sub_Some [simp]: "checked_sub a b = Some c \<longleftrightarrow> c = a - b \<and> b \<le> a"
  by (auto simp: checked_sub_def)

lemma checked_sub_None [simp]: "checked_sub a b = None \<longleftrightarrow> a < b"
  by (auto simp: checked_sub_def)

lemma add64_exact: "a + b < U64_LIMIT \<Longrightarrow> add64 a b = a + b"
  by (simp add: add64_def)

lemma sub64_exact: "b \<le> a \<Longrightarrow> sub64 a b = a - b"
  by (simp add: sub64_def)

lemma res_bind_simps [simp]:
  "res_bind (Inl e) f = Inl e"
  "res_bind (Inr x) f = f x"
  by (simp_all add: res_bind_def)

lemma res_bind_Inr: "res_bind r f = Inr y \<longleftrightarrow> (\<exists>x. r = Inr x \<and> f x = Inr y)"
  by (cases r) auto

lemma if_fail_Inr: "(if c then Inl e else r) = Inr x \<longleftrightarrow> \<not> c \<and> r = Inr x"
  by simp

lemma res_bind_Inr_elim:
  assumes "res_bind r f = Inr y"
  obtains x where "r = Inr x" and "f x = Inr y"
  using assms by (auto simp: res_bind_Inr)

lemma ok_or_simps [simp]:
  "ok_or e None = Inl e"
  "ok_or e (Some x) = Inr x"
  by (simp_all add: ok_or_def)

lemma ok_or_Inr [simp]: "ok_or e r = Inr x \<longleftrightarrow> r = Some x"
  by (cases r) auto

lemma ok_or_Inl [simp]: "ok_or e r = Inl e' \<longleftrightarrow> r = None \<and> e' = e"
  by (cases r) auto

lemma map_err_Inr [simp]: "map_err f r = Inr x \<longleftrightarrow> r = Inr x"
  by (cases r) (auto simp: map_err_def)

lemma res_fold_append:
  "res_fold f (xs @ ys) s = res_bind (res_fold f xs s) (res_fold f ys)"
  by (induction xs arbitrary: s) (auto simp: res_bind_def split: sum.splits)

lemma res_fold_invariant:
  assumes "res_fold f xs s = Inr s'" and "P s"
    and "\<And>x s s'. x \<in> set xs \<Longrightarrow> P s \<Longrightarrow> f x s = Inr s' \<Longrightarrow> P s'"
  shows "P s'"
  using assms
proof (induction xs arbitrary: s)
  case (Cons x xs)
  from Cons.prems(1) obtain t where "f x s = Inr t" and "res_fold f xs t = Inr s'"
    by (auto simp: res_bind_Inr)
  moreover from this Cons.prems(2,3) have "P t" by auto
  ultimately show ?case using Cons.IH Cons.prems(3) by (meson list.set_intros(2))
qed simp

section \<open>Lemmas: computations\<close>

declare io_return_def [io_simps] io_fail_def [io_simps] io_lift_def [io_simps]

lemma io_bind_Inr [io_simps]: "m d = (Inr x, d') \<Longrightarrow> io_bind m f d = f x d'"
  by (simp add: io_bind_def)

lemma io_bind_Inl [io_simps]: "m d = (Inl e, d') \<Longrightarrow> io_bind m f d = (Inl e, d')"
  by (simp add: io_bind_def)

lemma io_seq_Inr [io_simps]: "m d = (Inr x, d') \<Longrightarrow> io_seq m n d = n d'"
  by (simp add: io_seq_def io_bind_def)

lemma io_seq_Inl [io_simps]: "m d = (Inl e, d') \<Longrightarrow> io_seq m n d = (Inl e, d')"
  by (simp add: io_seq_def io_bind_def)

lemma io_bind_InrE:
  assumes "io_bind m f d = (Inr y, d')"
  obtains x d1 where "m d = (Inr x, d1)" and "f x d1 = (Inr y, d')"
  using assms by (auto simp: io_bind_def split: prod.splits sum.splits)

lemma io_seq_InrE:
  assumes "io_seq m n d = (Inr y, d')"
  obtains x d1 where "m d = (Inr x, d1)" and "n d1 = (Inr y, d')"
  using assms by (auto simp: io_seq_def elim: io_bind_InrE)

lemma io_bind_lift_Inr [simp]: "io_bind (io_lift (Inr x)) f = f x"
  by (rule ext) (simp add: io_bind_def io_lift_def)

lemma io_bind_lift_Inl [simp]: "io_bind (io_lift (Inl e)) f = io_lift (Inl e)"
  by (rule ext) (simp add: io_bind_def io_lift_def)

lemma io_bind_return [simp]: "io_bind (io_return x) f = f x"
  by (rule ext) (simp add: io_bind_def io_return_def)

lemma io_seq_return [simp]: "io_seq (io_return x) n = n"
  by (simp add: io_seq_def)

lemma io_bind_assoc: "io_bind (io_bind m f) g = io_bind m (\<lambda>x. io_bind (f x) g)"
  by (rule ext) (simp add: io_bind_def split: prod.splits sum.splits)

lemma io_for_append: "io_for (xs @ ys) f = io_seq (io_for xs f) (io_for ys f)"
  by (induction xs) (auto simp: io_seq_def io_bind_assoc)

section \<open>Lemmas: byte slices\<close>

lemma length_zeroes [simp]: "length (zeroes n) = n"
  by (simp add: zeroes_def)

lemma all_zero_zeroes [simp]: "all_zero (zeroes n)"
  by (simp add: zeroes_def all_zero_def list_all_iff)

lemma all_zero_eq: "all_zero bs \<longleftrightarrow> bs = zeroes (length bs)"
proof
  assume "bs = zeroes (length bs)"
  moreover have "all_zero (zeroes (length bs))" by (rule all_zero_zeroes)
  ultimately show "all_zero bs" by simp
qed (simp add: zeroes_def all_zero_def list_all_iff replicate_eqI)

lemma length_get_bytes [slice_simps]: "off + n \<le> length bs \<Longrightarrow> length (get_bytes off n bs) = n"
  by (simp add: get_bytes_def)

lemma length_put_bytes [slice_simps]:
  "off + length xs \<le> length bs \<Longrightarrow> length (put_bytes off xs bs) = length bs"
  by (simp add: put_bytes_def)

lemma get_put_same [slice_simps]:
  "off + length xs \<le> length bs \<Longrightarrow> n = length xs \<Longrightarrow> get_bytes off n (put_bytes off xs bs) = xs"
  by (simp add: get_bytes_def put_bytes_def)

lemma get_put_other [slice_simps]:
  assumes "off' + length xs \<le> length bs" and "off + n \<le> off' \<or> off' + length xs \<le> off"
  shows "get_bytes off n (put_bytes off' xs bs) = get_bytes off n bs"
proof (cases "off + n \<le> off'")
  case True
  then have off: "off - length (take off' bs) = 0" and "n \<le> off' - off"
    and len: "length (drop off (take off' bs)) = off' - off"
    using assms(1) by auto
  then have "take n (drop off (take off' bs @ xs @ drop (off' + length xs) bs))
      = take n (drop off (take off' bs))"
    by (simp only: drop_append take_append len) simp
  also have "\<dots> = take n (drop off bs)"
    using \<open>n \<le> off' - off\<close> by (simp add: drop_take)
  finally show ?thesis by (simp add: get_bytes_def put_bytes_def)
next
  case False
  with assms(2) have "off' + length xs \<le> off" by simp
  with assms(1) show ?thesis
    by (simp add: get_bytes_def put_bytes_def min_def)
qed

lemma get_zeroes [slice_simps]: "off + n \<le> k \<Longrightarrow> get_bytes off n (zeroes k) = zeroes n"
  by (simp add: get_bytes_def zeroes_def)

lemma put_put_same:
  "off + length xs \<le> length bs \<Longrightarrow> length ys = length xs \<Longrightarrow>
    put_bytes off ys (put_bytes off xs bs) = put_bytes off ys bs"
  by (simp add: put_bytes_def)

lemma put_get_same: "off + n \<le> length bs \<Longrightarrow> put_bytes off (get_bytes off n bs) bs = bs"
  by (simp add: put_bytes_def get_bytes_def) (metis add.commute append_take_drop_id drop_drop)

lemma drop_put_bytes [slice_simps]:
  "off + length xs \<le> length bs \<Longrightarrow> off + length xs \<le> k \<Longrightarrow> drop k (put_bytes off xs bs) = drop k bs"
  by (simp add: put_bytes_def)

lemma take_put_bytes [slice_simps]:
  "off + length xs \<le> k \<Longrightarrow> k \<le> length bs \<Longrightarrow> take k (put_bytes off xs bs) = put_bytes off xs (take k bs)"
proof -
  assume a: "off + length xs \<le> k" and "k \<le> length bs"
  then have "take k (take off bs @ xs @ drop (off + length xs) bs)
      = take off bs @ xs @ take (k - off - length xs) (drop (off + length xs) bs)"
    by (auto simp: min_absorb2)
  moreover have "drop (off + length xs) (take k bs) = take (k - off - length xs) (drop (off + length xs) bs)"
    by (simp add: drop_take)
  moreover from a have "take off (take k bs) = take off bs" by (simp add: min_def)
  ultimately show ?thesis by (simp add: put_bytes_def)
qed

lemma drop_zeroes [slice_simps]: "drop k (zeroes n) = zeroes (n - k)"
  by (simp add: zeroes_def)

lemma take_zeroes [slice_simps]: "take k (zeroes n) = zeroes (min k n)"
  by (simp add: zeroes_def)

lemma put_fields_simps [simp, slice_simps]:
  "put_fields [] bs = bs"
  "put_fields ((off, xs) # fs) bs = put_fields fs (put_bytes off xs bs)"
  by (simp_all add: put_fields_def)

lemma put_fields_append: "put_fields (fs @ gs) bs = put_fields gs (put_fields fs bs)"
  by (simp add: put_fields_def)

text \<open>Fields laid out without gaps from the start of a zeroed buffer.\<close>

fun contiguous :: "nat \<Rightarrow> (nat \<times> byte list) list \<Rightarrow> bool" where
  "contiguous off [] = True"
| "contiguous off ((o', xs) # fs) = (o' = off \<and> contiguous (off + length xs) fs)"

lemma put_fields_contiguous:
  assumes "contiguous (length pre) fs" and "length (concat (map snd fs)) \<le> n"
  shows "put_fields fs (pre @ zeroes n)
           = pre @ concat (map snd fs) @ zeroes (n - length (concat (map snd fs)))"
  using assms
proof (induction fs arbitrary: pre n)
  case (Cons f fs)
  obtain off xs where f: "f = (off, xs)" by fastforce
  from Cons.prems f have off: "off = length pre" by simp
  then have "put_bytes off xs (pre @ zeroes n) = (pre @ xs) @ zeroes (n - length xs)"
    by (simp add: put_bytes_def drop_zeroes)
  with Cons.IH [of "pre @ xs" "n - length xs"] Cons.prems f off show ?case by simp
qed simp

lemma get_bytes_drop: "drop off bs = get_bytes off n bs @ drop (off + n) bs"
  by (simp add: get_bytes_def) (metis add.commute append_take_drop_id drop_drop)

text \<open>Concatenation of chunks of equal size, as in a region made of blocks.\<close>

lemma length_concat_uniform:
  "\<forall>x \<in> set xs. length x = n \<Longrightarrow> length (concat xs) = length xs * n"
  by (induction xs) auto

lemma nth_concat_uniform:
  assumes "\<forall>x \<in> set xs. length x = n" and "k < length xs"
  shows "take n (drop (k * n) (concat xs)) = xs ! k"
  using assms
proof (induction xs arbitrary: k)
  case (Cons x xs)
  then show ?case by (cases k) simp_all
qed simp

lemma get_bytes_concat_uniform:
  assumes "\<forall>x \<in> set xs. length x = n" and "k < length xs" and "length pre = off"
  shows "get_bytes (off + k * n) n (pre @ concat xs) = xs ! k"
  using nth_concat_uniform [OF assms(1,2)] assms(3) by (simp add: get_bytes_def)

lemma concat_chunks:
  "length bs = k * n \<Longrightarrow> concat (map (\<lambda>i. get_bytes (i * n) n bs) [0..<k]) = bs"
proof (induction k arbitrary: bs)
  case (Suc k)
  have "concat (map (\<lambda>i. get_bytes (i * n) n bs) [0..<k]) = concat (map (\<lambda>i. get_bytes (i * n) n (take (k * n) bs)) [0..<k])"
  proof (intro arg_cong [where f = concat] map_cong refl)
    fix i assume "i \<in> set [0..<k]"
    then have "Suc i * n \<le> k * n" by (intro mult_le_mono1) auto
    then show "get_bytes (i * n) n bs = get_bytes (i * n) n (take (k * n) bs)"
      by (simp add: get_bytes_def drop_take min_def)
  qed
  also have "\<dots> = take (k * n) bs" using Suc by (intro Suc.IH) simp
  finally show ?case using Suc.prems by (simp add: get_bytes_def)
qed simp

section \<open>Decisions between reads\<close>

text \<open>
  An operation reads its tables, decides in pure code, and continues. The rules pull the decision
  out as one value: a computation in the sum type, then the continuation.
\<close>

lemma plan_bind: "io_bind (io_lift (res_bind r f)) K = io_bind (io_lift r) (\<lambda>x. io_bind (io_lift (f x)) K)"
  by (rule ext) (simp add: io_bind_def io_lift_def res_bind_def split: sum.splits)

lemma plan_Inl: "io_bind (io_lift (Inl e)) K = io_fail e"
  by (rule ext) (simp add: io_bind_def io_lift_def io_fail_def)

lemma plan_Inr: "io_bind (io_lift (Inr y)) K = K y"
  by (rule ext) (simp add: io_bind_def io_lift_def)

lemma plan_if: "io_bind (io_lift (if c then r else r')) K = (if c then io_bind (io_lift r) K else io_bind (io_lift r') K)"
  by simp

lemmas plan_simps = plan_bind plan_Inl plan_Inr plan_if

lemma io_bind_read: "m s = (Inr x, s) \<Longrightarrow> io_bind m K s = K x s"
  by (simp add: io_bind_def)

lemma io_lift_read: "m s = (Inr x, s) \<Longrightarrow> io_bind (io_lift r) (\<lambda>y. io_bind m (K y)) s = io_bind (io_lift r) (\<lambda>y. K y x) s"
  by (simp add: io_bind_def io_lift_def split: sum.splits)

lemma io_lift_cong: "(\<And>y. r = Inr y \<Longrightarrow> K y s = K' y s) \<Longrightarrow> io_bind (io_lift r) K s = io_bind (io_lift r) K' s"
  by (simp add: io_bind_def io_lift_def split: sum.splits)

section \<open>Searching and editing vectors\<close>

text \<open>\<open>Iterator::position\<close> and \<open>Vec::remove\<close> at an index in range.\<close>

fun position :: "('a \<Rightarrow> bool) \<Rightarrow> 'a list \<Rightarrow> nat option" where
  "position P [] = None"
| "position P (x # xs) = (if P x then Some 0 else map_option Suc (position P xs))"

definition remove_at :: "nat \<Rightarrow> 'a list \<Rightarrow> 'a list" where
  "remove_at k xs = take k xs @ drop (Suc k) xs"

lemma position_Some:
  "position P xs = Some k \<Longrightarrow> k < length xs \<and> P (xs ! k) \<and> (\<forall>j < k. \<not> P (xs ! j))"
proof (induction xs arbitrary: k)
  case (Cons x xs)
  show ?case
  proof (cases "P x")
    case False
    with Cons.prems obtain k' where "position P xs = Some k'" "k = Suc k'" by auto
    with Cons.IH [of k'] False show ?thesis by (auto simp: less_Suc_eq_0_disj)
  qed (use Cons.prems in auto)
qed simp

lemma position_None: "position P xs = None \<longleftrightarrow> (\<forall>x \<in> set xs. \<not> P x)"
  by (induction xs) auto

lemma list_of_one: "length xs = 1 \<Longrightarrow> xs = [xs ! 0]"
  by (cases xs) auto

lemma set_remove_at: "k < length xs \<Longrightarrow> set xs = insert (xs ! k) (set (remove_at k xs))"
  by (subst id_take_nth_drop [of k xs]) (auto simp: remove_at_def)

lemma set_update_remove: "k < length xs \<Longrightarrow> set (xs[k := y]) = insert y (set (remove_at k xs))"
  by (simp add: upd_conv_take_nth_drop remove_at_def)

lemma remove_at_map: "map f (remove_at k xs) = remove_at k (map f xs)"
  by (simp add: remove_at_def take_map drop_map)

lemma distinct_remove_at:
  assumes "k < length xs" and "distinct (map f xs)"
  shows "distinct (map f (remove_at k xs))" and "f (xs ! k) \<notin> f ` set (remove_at k xs)"
    and "set (remove_at k xs) = {x \<in> set xs. f x \<noteq> f (xs ! k)}"
proof -
  have xs: "xs = take k xs @ xs ! k # drop (Suc k) xs" by (rule id_take_nth_drop [OF assms(1)])
  have d: "distinct (map f (take k xs @ xs ! k # drop (Suc k) xs))" using assms(2) xs by simp
  then show "distinct (map f (remove_at k xs))" and n: "f (xs ! k) \<notin> f ` set (remove_at k xs)"
    by (auto simp: remove_at_def)
  show "set (remove_at k xs) = {x \<in> set xs. f x \<noteq> f (xs ! k)}"
  proof -
    have "f x \<noteq> f (xs ! k)" if "x \<in> set (remove_at k xs)" for x using n that by (metis imageI)
    then show ?thesis unfolding set_remove_at [OF assms(1)] by auto
  qed
qed

lemma length_filter_remove_at:
  assumes "k < length xs"
  shows "length (filter P xs) = (if P (xs ! k) then 1 else 0) + length (filter P (remove_at k xs))"
  by (subst id_take_nth_drop [OF assms]) (simp add: remove_at_def)

lemma count_one_remove_at:
  assumes "length (filter P xs) = 1" and "k < length xs" and "P (xs ! k)"
  shows "\<forall>x \<in> set (remove_at k xs). \<not> P x"
proof -
  have "length (filter P xs) = (if P (xs ! k) then 1 else 0) + length (filter P (remove_at k xs))"
    by (rule length_filter_remove_at [OF assms(2)])
  with assms(1,3) show ?thesis by (simp add: filter_empty_conv)
qed

lemma count_many_remove_at:
  assumes "2 \<le> length (filter P xs)" and "k < length xs"
  shows "\<exists>x \<in> set (remove_at k xs). P x"
proof -
  have "length (filter P (remove_at k xs)) \<noteq> 0"
    using assms(1) length_filter_remove_at [OF assms(2), of P] by (auto split: if_splits)
  then show ?thesis by (auto simp: filter_empty_conv)
qed

lemma upt_split:
  fixes a b c :: nat
  assumes "a \<le> b" and "b \<le> c"
  shows "[a..<c] = [a..<b] @ [b..<c]"
  using assms upt_add_eq_append [of a b "c - b"] by simp

lemma upt_split4:
  fixes a b c d e :: nat
  assumes "a \<le> b" and "b \<le> c" and "c \<le> d" and "d \<le> e"
  shows "[a..<e] = [a..<b] @ [b..<c] @ [c..<d] @ [d..<e]"
  using assms by (metis upt_split order.trans)

end
