(* ===== verification/Bytes.thy ===== *)
theory Bytes
  imports Prelude
begin

text \<open>
  The byte-level vocabulary of every on-disk codec: little-endian integers
  (\<open>to_le_bytes\<close>, \<open>from_le_bytes\<close>), the IEEE CRC-32 that each codec carries a copy of
  (plain, and with the four checksum bytes read as zero), and the UTF-8 check of
  \<open>str::from_utf8\<close>. The lemmas give the integer round trips and the error-detection
  power of the checksum that the codecs rely on.
\<close>

section \<open>Little-endian integers\<close>

fun le_bytes :: "nat \<Rightarrow> nat \<Rightarrow> byte list" where
  "le_bytes 0 n = []"
| "le_bytes (Suc k) n = word_of_nat n # le_bytes k (n div 256)"

fun from_le :: "byte list \<Rightarrow> nat" where
  "from_le [] = 0"
| "from_le (b # bs) = unat b + 256 * from_le bs"

text \<open>Byte-string literals \<open>*b"..."\<close>.\<close>

definition ascii :: "string \<Rightarrow> byte list" where
  "ascii s = map of_char s"

definition read_u16 :: "byte list \<Rightarrow> nat \<Rightarrow> nat" where
  "read_u16 bs off = from_le (get_bytes off 2 bs)"

definition read_u32 :: "byte list \<Rightarrow> nat \<Rightarrow> nat" where
  "read_u32 bs off = from_le (get_bytes off 4 bs)"

definition read_u64 :: "byte list \<Rightarrow> nat \<Rightarrow> nat" where
  "read_u64 bs off = from_le (get_bytes off 8 bs)"

section \<open>CRC-32\<close>

definition crc_step :: "32 word \<Rightarrow> 32 word" where
  "crc_step crc = drop_bit 1 crc XOR (0xedb88320 AND (0 - (crc AND 1)))"

definition crc_byte :: "32 word \<Rightarrow> byte \<Rightarrow> 32 word" where
  "crc_byte crc b = (crc_step ^^ 8) (crc XOR ucast b)"

definition crc32 :: "byte list \<Rightarrow> 32 word" where
  "crc32 bs = NOT (foldl crc_byte 0xffffffff bs)"

text \<open>
  \<open>record_crc\<close> of the codecs feeds zero for the four bytes of the checksum field
  itself, by index.
\<close>

definition crc32_skip :: "nat \<Rightarrow> byte list \<Rightarrow> 32 word" where
  "crc32_skip off bs =
     NOT (foldl (\<lambda>crc (i, b). crc_byte crc (if off \<le> i \<and> i < off + 4 then 0 else b))
            0xffffffff (zip [0..<length bs] bs))"

section \<open>UTF-8\<close>

definition in_range :: "nat \<Rightarrow> nat \<Rightarrow> byte \<Rightarrow> bool" where
  "in_range lo hi b \<longleftrightarrow> lo \<le> unat b \<and> unat b \<le> hi"

definition utf8_cont :: "byte \<Rightarrow> bool" where
  "utf8_cont b = in_range 0x80 0xBF b"

definition utf8_second3 :: "byte \<Rightarrow> byte \<Rightarrow> bool" where
  "utf8_second3 b0 b1 =
     (if unat b0 = 0xE0 then in_range 0xA0 0xBF b1
      else if unat b0 = 0xED then in_range 0x80 0x9F b1
      else utf8_cont b1)"

definition utf8_second4 :: "byte \<Rightarrow> byte \<Rightarrow> bool" where
  "utf8_second4 b0 b1 =
     (if unat b0 = 0xF0 then in_range 0x90 0xBF b1
      else if unat b0 = 0xF4 then in_range 0x80 0x8F b1
      else utf8_cont b1)"

fun utf8_valid :: "byte list \<Rightarrow> bool" where
  "utf8_valid [] = True"
| "utf8_valid (b0 # bs) =
     (if unat b0 < 0x80 then utf8_valid bs
      else case bs of [] \<Rightarrow> False | b1 # bs1 \<Rightarrow>
        if in_range 0xC2 0xDF b0 then utf8_cont b1 \<and> utf8_valid bs1
        else case bs1 of [] \<Rightarrow> False | b2 # bs2 \<Rightarrow>
          if in_range 0xE0 0xEF b0 then utf8_second3 b0 b1 \<and> utf8_cont b2 \<and> utf8_valid bs2
          else case bs2 of [] \<Rightarrow> False | b3 # bs3 \<Rightarrow>
            in_range 0xF0 0xF4 b0 \<and> utf8_second4 b0 b1 \<and> utf8_cont b2 \<and> utf8_cont b3
              \<and> utf8_valid bs3)"

section \<open>Lemmas: integers\<close>

lemma length_ascii [simp]: "length (ascii s) = length s"
  by (simp add: ascii_def)

lemma length_le_bytes [simp]: "length (le_bytes k n) = k"
  by (induction k arbitrary: n) auto

lemma unat_word_of_nat: "unat (word_of_nat n :: byte) = n mod 256"
  by (simp add: unat_of_nat)

lemma from_le_le_bytes: "n < 256 ^ k \<Longrightarrow> from_le (le_bytes k n) = n"
proof (induction k arbitrary: n)
  case (Suc k)
  then have "n div 256 < 256 ^ k" by (simp add: less_mult_imp_div_less mult.commute)
  then have "from_le (le_bytes k (n div 256)) = n div 256" by (rule Suc.IH)
  then show ?case by (simp add: unat_word_of_nat)
qed simp

lemma unat_byte_bound: "unat (b :: byte) < 256"
  using unsigned_less [where 'a = nat, of b] by simp

lemma unat_crc_bound: "unat (c :: 32 word) < U32_LIMIT"
  using unsigned_less [where 'a = nat, of c] by simp

lemma from_le_bound: "from_le bs < 256 ^ length bs"
proof (induction bs)
  case (Cons b bs)
  have "unat b < 256" by (rule unat_byte_bound)
  with Cons show ?case by simp
qed simp

lemma le_bytes_from_le: "le_bytes (length bs) (from_le bs) = bs"
proof (induction bs)
  case (Cons b bs)
  have b: "unat b < 256" by (rule unat_byte_bound)
  then have "(unat b + 256 * from_le bs) div 256 = from_le bs" by simp
  moreover have "(word_of_nat (unat b + 256 * from_le bs) :: byte) = b"
  proof (rule unsigned_word_eqI)
    show "unat (word_of_nat (unat b + 256 * from_le bs) :: byte) = unat b"
      using b by (simp only: unat_word_of_nat) simp
  qed
  ultimately show ?case using Cons by simp
qed simp

lemma from_le_zeroes [simp]: "from_le (zeroes n) = 0"
  by (induction n) (auto simp: zeroes_def)

lemma from_le_le_2 [simp]: "n < U16_LIMIT \<Longrightarrow> from_le (le_bytes 2 n) = n"
  by (rule from_le_le_bytes) simp

lemma from_le_le_4 [simp]: "n < U32_LIMIT \<Longrightarrow> from_le (le_bytes 4 n) = n"
  by (rule from_le_le_bytes) simp

lemma from_le_le_8 [simp]: "n < U64_LIMIT \<Longrightarrow> from_le (le_bytes 8 n) = n"
  by (rule from_le_le_bytes) simp

lemma from_le_unat_crc [simp]: "from_le (le_bytes 4 (unat (c :: 32 word))) = unat c"
  by (rule from_le_le_4 [OF unat_crc_bound])

lemma read_u16_bound: "read_u16 bs off < U16_LIMIT"
proof -
  have "(256 :: nat) ^ length (get_bytes off 2 bs) \<le> 256 ^ 2"
    by (rule power_increasing) (simp_all add: get_bytes_def)
  with from_le_bound [of "get_bytes off 2 bs"] show ?thesis
    unfolding read_u16_def by simp
qed

lemma read_u32_bound: "read_u32 bs off < U32_LIMIT"
proof -
  have "(256 :: nat) ^ length (get_bytes off 4 bs) \<le> 256 ^ 4"
    by (rule power_increasing) (simp_all add: get_bytes_def)
  with from_le_bound [of "get_bytes off 4 bs"] show ?thesis
    unfolding read_u32_def by simp
qed

lemma read_u64_bound: "read_u64 bs off < U64_LIMIT"
proof -
  have "(256 :: nat) ^ length (get_bytes off 8 bs) \<le> 256 ^ 8"
    by (rule power_increasing) (simp_all add: get_bytes_def)
  with from_le_bound [of "get_bytes off 8 bs"] show ?thesis
    unfolding read_u64_def by simp
qed

lemmas read_defs = read_u16_def read_u32_def read_u64_def

lemma from_le_append: "from_le (xs @ ys) = from_le xs + 256 ^ length xs * from_le ys"
  by (induction xs) (simp_all add: algebra_simps)

section \<open>Lemmas: checksum\<close>

lemma bit_crc_step:
  assumes "n < 32"
  shows "bit (crc_step x) n \<longleftrightarrow> (bit x (Suc n) \<noteq> (bit (0xedb88320 :: 32 word) n \<and> bit x 0))"
proof (cases "bit x 0")
  case True
  then have "x AND 1 = 1" by (simp add: and_one_eq bit_0 odd_iff_mod_2_eq_one)
  with True assms show ?thesis
    by (simp add: crc_step_def bit_xor_iff bit_and_iff bit_drop_bit_eq bit_minus_1_iff)
next
  case False
  then have "x AND 1 = 0" by (simp add: and_one_eq bit_0 even_iff_mod_2_eq_zero)
  with False show ?thesis
    by (simp add: crc_step_def bit_xor_iff bit_and_iff bit_drop_bit_eq)
qed

lemma inj_crc_step: "inj crc_step"
proof (rule injI)
  fix x y assume eq: "crc_step x = crc_step y"
  have top: "bit (crc_step z) 31 \<longleftrightarrow> bit z 0" for z
    using bit_imp_le_length [of z 32] by (auto simp: bit_crc_step bit_numeral_rec)
  from eq top [of x] top [of y] have bit0: "bit x 0 \<longleftrightarrow> bit y 0" by simp
  show "x = y"
  proof (rule bit_word_eqI)
    fix n assume "n < LENGTH(32)"
    then show "bit x n \<longleftrightarrow> bit y n"
    proof (cases n)
      case (Suc m)
      with \<open>n < LENGTH(32)\<close> have "m < 32" by simp
      from bit_crc_step [OF this, of x] bit_crc_step [OF this, of y] eq bit0 Suc
      show ?thesis by auto
    qed (use bit0 in simp)
  qed
qed

lemma xor_left_cancel: "(a :: 32 word) XOR b = a XOR c \<longleftrightarrow> b = c"
  by (metis xor.assoc xor.left_neutral xor_self_eq)

lemma xor_right_cancel: "(b :: 32 word) XOR a = c XOR a \<longleftrightarrow> b = c"
  by (metis xor.commute xor_left_cancel)

lemma crc_byte_inj_state: "crc_byte c b = crc_byte c' b \<longleftrightarrow> c = c'"
proof -
  have "inj (crc_step ^^ 8)" by (rule inj_fn [OF inj_crc_step])
  then show ?thesis by (simp only: crc_byte_def inj_eq xor_right_cancel)
qed

lemma crc_byte_inj_byte: "crc_byte c b = crc_byte c b' \<longleftrightarrow> b = b'"
proof -
  have "inj (crc_step ^^ 8)" by (rule inj_fn [OF inj_crc_step])
  moreover have "(ucast b :: 32 word) = ucast b' \<longleftrightarrow> b = b'"
  proof
    assume eq: "(ucast b :: 32 word) = ucast b'"
    show "b = b'"
    proof (rule bit_word_eqI)
      fix n assume "n < LENGTH(8)"
      then have "bit b n \<longleftrightarrow> bit (ucast b :: 32 word) n" and "bit b' n \<longleftrightarrow> bit (ucast b' :: 32 word) n"
        by (auto simp: bit_ucast_iff)
      with eq show "bit b n \<longleftrightarrow> bit b' n" by simp
    qed
  qed simp
  ultimately show ?thesis by (simp only: crc_byte_def inj_eq xor_left_cancel)
qed

lemma foldl_crc_byte_inj_state: "foldl crc_byte c bs = foldl crc_byte c' bs \<longleftrightarrow> c = c'"
  by (induction bs arbitrary: c c') (auto simp: crc_byte_inj_state)

text \<open>Any corruption confined to one byte changes the checksum.\<close>

lemma crc32_single_byte:
  assumes "b \<noteq> b'"
  shows "crc32 (xs @ b # ys) \<noteq> crc32 (xs @ b' # ys)"
proof
  assume "crc32 (xs @ b # ys) = crc32 (xs @ b' # ys)"
  then have "foldl crc_byte (crc_byte (foldl crc_byte 0xffffffff xs) b) ys
      = foldl crc_byte (crc_byte (foldl crc_byte 0xffffffff xs) b') ys"
    by (simp add: crc32_def)
  with assms show False by (simp add: foldl_crc_byte_inj_state crc_byte_inj_byte)
qed

lemma crc32_update_byte:
  assumes "i < length bs" and "b \<noteq> bs ! i"
  shows "crc32 (bs[i := b]) \<noteq> crc32 bs"
proof -
  have "bs[i := b] = take i bs @ b # drop (Suc i) bs"
    using assms(1) by (simp add: upd_conv_take_nth_drop)
  moreover have "bs = take i bs @ bs ! i # drop (Suc i) bs"
    using assms(1) by (rule id_take_nth_drop)
  ultimately show ?thesis using crc32_single_byte [OF assms(2)] by metis
qed

lemma foldl_index_map:
  "foldl (\<lambda>c (i, b). f c (g i b)) s (zip [n..<n + length bs] bs)
     = foldl f s (map (\<lambda>(i, b). g i b) (zip [n..<n + length bs] bs))"
  by (simp add: foldl_map case_prod_beta')

lemma crc32_skip_alt:
  assumes "off + 4 \<le> length bs"
  shows "crc32_skip off bs = crc32 (put_bytes off (zeroes 4) bs)"
proof -
  let ?g = "\<lambda>i b. if off \<le> i \<and> i < off + 4 then 0 else (b :: byte)"
  have "map (\<lambda>(i, b). ?g i b) (zip [0..<length bs] bs) = put_bytes off (zeroes 4) bs"
    (is "?l = ?r")
  proof (rule nth_equalityI)
    show "length ?l = length ?r" using assms by (simp add: slice_simps)
  next
    fix i assume "i < length ?l"
    then have "i < length bs" by simp
    then show "?l ! i = ?r ! i" using assms
      by (auto simp: put_bytes_def nth_append zeroes_def min_def)
  qed
  then show ?thesis
    using foldl_index_map [of crc_byte ?g "0xffffffff" 0 bs]
    by (simp add: crc32_skip_def crc32_def)
qed

lemma crc32_skip_put:
  assumes "off + 4 \<le> length bs" and "length cs = 4"
  shows "crc32_skip off (put_bytes off cs bs) = crc32_skip off bs"
  using assms by (simp add: crc32_skip_alt slice_simps put_put_same)

text \<open>A record whose checksum field at \<open>off\<close> holds the checksum of the rest.\<close>

definition crc_ok :: "nat \<Rightarrow> byte list \<Rightarrow> bool" where
  "crc_ok off bs \<longleftrightarrow> read_u32 bs off = unat (crc32_skip off bs)"

lemma crc_ok_put:
  assumes "off + 4 \<le> length bs"
  shows "crc_ok off (put_bytes off (le_bytes 4 (unat (crc32_skip off bs))) bs)"
  using assms by (simp add: crc_ok_def read_u32_def slice_simps crc32_skip_put)

lemma from_le_inj: "length bs = length cs \<Longrightarrow> from_le bs = from_le cs \<Longrightarrow> bs = cs"
  by (metis le_bytes_from_le)

lemma crc_ok_update_byte:
  assumes "crc_ok off bs" and "off + 4 \<le> length bs" and "i < length bs" and "b \<noteq> bs ! i"
  shows "\<not> crc_ok off (bs[i := b])"
proof (cases "off \<le> i \<and> i < off + 4")
  case True
  then have "put_bytes off (zeroes 4) (bs[i := b]) = put_bytes off (zeroes 4) bs"
    by (simp add: put_bytes_def)
  then have "crc32_skip off (bs[i := b]) = crc32_skip off bs"
    using assms(2) by (simp add: crc32_skip_alt)
  moreover have "get_bytes off 4 (bs[i := b]) \<noteq> get_bytes off 4 bs"
  proof
    assume "get_bytes off 4 (bs[i := b]) = get_bytes off 4 bs"
    then have "get_bytes off 4 (bs[i := b]) ! (i - off) = get_bytes off 4 bs ! (i - off)" by simp
    moreover obtain k where "i = off + k" and "k < 4" using True by (auto simp: nat_le_iff_add)
    ultimately show False using assms(2,4) by (simp add: get_bytes_def)
  qed
  then have "read_u32 (bs[i := b]) off \<noteq> read_u32 bs off"
    using from_le_inj [of "get_bytes off 4 (bs[i := b])" "get_bytes off 4 bs"] assms(2)
    by (auto simp: read_u32_def slice_simps)
  ultimately show ?thesis using assms(1) by (simp add: crc_ok_def)
next
  case False
  then have "put_bytes off (zeroes 4) (bs[i := b]) = (put_bytes off (zeroes 4) bs)[i := b]"
    using assms(2,3)
    by (auto simp: put_bytes_def list_update_append drop_update_swap take_update_swap
        not_le not_less min_absorb2 list_update_beyond)
  moreover have "b \<noteq> put_bytes off (zeroes 4) bs ! i"
    using False assms(2-4) by (auto simp: put_bytes_def nth_append not_le not_less)
  ultimately have "crc32_skip off (bs[i := b]) \<noteq> crc32_skip off bs"
    using assms(2,3) by (simp add: crc32_skip_alt crc32_update_byte slice_simps)
  moreover have "get_bytes off 4 (bs[i := b]) = get_bytes off 4 bs"
    using False by (auto simp: get_bytes_def drop_update_swap not_le not_less)
  ultimately show ?thesis using assms(1) by (auto simp: crc_ok_def read_u32_def dest: unsigned_word_eqI)
qed

lemma crc_ok_unique:
  assumes "crc_ok off bs" and "crc_ok off cs" and "off + 4 \<le> length bs" and "length cs = length bs"
    and eq: "put_bytes off (zeroes 4) bs = put_bytes off (zeroes 4) cs"
  shows "bs = cs"
proof -
  have "crc32_skip off bs = crc32_skip off cs"
    using assms(3,4) eq by (simp add: crc32_skip_alt)
  then have "from_le (get_bytes off 4 bs) = from_le (get_bytes off 4 cs)"
    using assms(1,2) by (simp add: crc_ok_def read_u32_def)
  then have "get_bytes off 4 bs = get_bytes off 4 cs"
    using assms(3,4) by (intro from_le_inj) (simp_all add: slice_simps)
  moreover have "bs = put_bytes off (get_bytes off 4 bs) (put_bytes off (zeroes 4) bs)"
    "cs = put_bytes off (get_bytes off 4 cs) (put_bytes off (zeroes 4) cs)"
    using assms(3,4) by (simp_all add: put_put_same put_get_same slice_simps)
  ultimately show ?thesis using eq by metis
qed

lemma le_bytes_read_u64:
  "off + 8 \<le> length bs \<Longrightarrow> le_bytes 8 (read_u64 bs off) = get_bytes off 8 bs"
  using le_bytes_from_le [of "get_bytes off 8 bs"] by (simp add: read_u64_def slice_simps)

lemma le_bytes_read_u32:
  "off + 4 \<le> length bs \<Longrightarrow> le_bytes 4 (read_u32 bs off) = get_bytes off 4 bs"
  using le_bytes_from_le [of "get_bytes off 4 bs"] by (simp add: read_u32_def slice_simps)

lemma le_bytes_read_u16:
  "off + 2 \<le> length bs \<Longrightarrow> le_bytes 2 (read_u16 bs off) = get_bytes off 2 bs"
  using le_bytes_from_le [of "get_bytes off 2 bs"] by (simp add: read_u16_def slice_simps)

text \<open>The published check value of the IEEE CRC-32 (the ASCII string 123456789).\<close>

lemma funpow_8: "(f ^^ 8) x = f (f (f (f (f (f (f (f x)))))))"
  by (simp add: eval_nat_numeral)

lemma crc32_check_value:
  "crc32 [0x31, 0x32, 0x33, 0x34, 0x35, 0x36, 0x37, 0x38, 0x39] = 0xcbf43926"
  unfolding crc32_def foldl.simps crc_byte_def funpow_8
  by (simp add: crc_step_def)

end
