(* ===== verification/Block_Device.thy ===== *)
theory Block_Device
  imports Bytes
begin

text \<open>
  The \<open>BlockDevice\<close> trait of \<open>block.rs\<close> and its file-backed implementation.

  The trait is a record of operations that every function generic in
  \<open>impl BlockDevice\<close> receives as its first argument. What callers may rely on is stated
  as locales: \<open>readable_device\<close> (successful reads return the current view), \<open>writable_device\<close>
  (a successful write changes exactly one block, a failed one at most that block, a flush
  nothing), \<open>reliable_reader\<close> and \<open>reliable_device\<close> (operations fail only outside the device,
  with \<open>UnexpectedEof\<close>, as every implementation of the trait reports it). \<open>FileBlockDevice\<close> is modelled over a file with a cursor and
  injected I/O errors and is an instance of the second locale, and of the third on files
  without pending errors.
\<close>

definition BLOCK_SIZE :: nat where
  "BLOCK_SIZE = 4096"

definition BLOCK_SIZE_U64 :: u64 where
  "BLOCK_SIZE_U64 = BLOCK_SIZE"

record 'd block_device =
  block_count :: "'d \<Rightarrow> u64"
  read_block :: "u64 \<Rightarrow> ('d, byte list) dev_io"
  write_block :: "u64 \<Rightarrow> byte list \<Rightarrow> ('d, unit) dev_io"
  flush :: "('d, unit) dev_io"

section \<open>The file-backed device\<close>

text \<open>
  \<open>std::fs::File\<close>: its bytes, the cursor, and one flag per coming operation that says
  whether that operation reports an I/O error (no flags: no more errors).
\<close>

record os_file =
  f_bytes :: "byte list"
  f_pos :: nat
  f_errors :: "bool list"

record file_block_device =
  fbd_file :: os_file
  fbd_blocks :: u64

definition next_error :: "os_file \<Rightarrow> bool \<times> os_file" where
  "next_error f = (case f_errors f of [] \<Rightarrow> (False, f) | e # es \<Rightarrow> (e, f\<lparr>f_errors := es\<rparr>))"

definition file_seek :: "nat \<Rightarrow> (os_file, unit) dev_io" where
  "file_seek off f =
     (let (e, f1) = next_error f
      in if e then (Inl OtherError, f1) else (Inr (), f1\<lparr>f_pos := off\<rparr>))"

definition file_read_exact :: "nat \<Rightarrow> (os_file, byte list) dev_io" where
  "file_read_exact n f =
     (let (e, f1) = next_error f
      in if e then (Inl OtherError, f1)
         else if length (f_bytes f1) < f_pos f1 + n
           then (Inl UnexpectedEof, f1\<lparr>f_pos := length (f_bytes f1)\<rparr>)
         else (Inr (get_bytes (f_pos f1) n (f_bytes f1)), f1\<lparr>f_pos := f_pos f1 + n\<rparr>))"

definition file_write_all :: "byte list \<Rightarrow> (os_file, unit) dev_io" where
  "file_write_all data f =
     (let (e, f1) = next_error f
      in if e then (Inl OtherError, f1)
         else (Inr (), f1\<lparr>f_bytes := put_bytes (f_pos f1) data (f_bytes f1),
                          f_pos := f_pos f1 + length data\<rparr>))"

definition file_sync_data :: "(os_file, unit) dev_io" where
  "file_sync_data f =
     (let (e, f1) = next_error f in if e then (Inl OtherError, f1) else (Inr (), f1))"

definition file_metadata_len :: "os_file \<Rightarrow> nat io_result \<times> os_file" where
  "file_metadata_len f =
     (let (e, f1) = next_error f
      in if e then (Inl OtherError, f1) else (Inr (length (f_bytes f1)), f1))"

definition file_set_len :: "nat \<Rightarrow> (os_file, unit) dev_io" where
  "file_set_len n f =
     (let (e, f1) = next_error f
      in if e then (Inl OtherError, f1)
         else (Inr (), f1\<lparr>f_bytes := take n (f_bytes f1) @ zeroes (n - length (f_bytes f1))\<rparr>))"

definition from_file :: "os_file \<Rightarrow> file_block_device io_result" where
  "from_file f =
     (case file_metadata_len f of
        (Inl e, _) \<Rightarrow> Inl e
      | (Inr len, f1) \<Rightarrow>
          if len mod BLOCK_SIZE_U64 \<noteq> 0 then Inl InvalidData
          else Inr \<lparr>fbd_file = f1, fbd_blocks = len div BLOCK_SIZE_U64\<rparr>)"

text \<open>
  \<open>FileBlockDevice::create\<close>; the argument is the file that
  \<open>OpenOptions::open\<close> returned, truncated (its \<open>Err\<close> is the caller's).
\<close>

definition create_file_device :: "os_file io_result \<Rightarrow> u64 \<Rightarrow> file_block_device io_result" where
  "create_file_device opened blocks =
     res_bind (ok_or InvalidInput (checked_mul blocks BLOCK_SIZE_U64)) (\<lambda>len.
     res_bind opened (\<lambda>f.
     case file_set_len len (f\<lparr>f_bytes := []\<rparr>) of
       (Inl e, _) \<Rightarrow> Inl e
     | (Inr _, f1) \<Rightarrow> from_file f1))"

definition open_file_device :: "os_file io_result \<Rightarrow> file_block_device io_result" where
  "open_file_device opened = res_bind opened from_file"

definition block_offset :: "file_block_device \<Rightarrow> u64 \<Rightarrow> nat io_result" where
  "block_offset d block =
     (if fbd_blocks d \<le> block then Inl UnexpectedEof
      else ok_or InvalidInput (checked_mul block BLOCK_SIZE_U64))"

definition on_file :: "(os_file, 'a) dev_io \<Rightarrow> (file_block_device, 'a) dev_io" where
  "on_file m d = (case m (fbd_file d) of (r, f) \<Rightarrow> (r, d\<lparr>fbd_file := f\<rparr>))"

definition file_read_block :: "u64 \<Rightarrow> (file_block_device, byte list) dev_io" where
  "file_read_block block d =
     io_bind (io_lift (block_offset d block)) (\<lambda>offset.
     io_seq (on_file (file_seek offset))
     (on_file (file_read_exact BLOCK_SIZE))) d"

definition file_write_block :: "u64 \<Rightarrow> byte list \<Rightarrow> (file_block_device, unit) dev_io" where
  "file_write_block block buf d =
     io_bind (io_lift (block_offset d block)) (\<lambda>offset.
     io_seq (on_file (file_seek offset))
     (on_file (file_write_all buf))) d"

definition file_flush :: "(file_block_device, unit) dev_io" where
  "file_flush = on_file file_sync_data"

definition file_device :: "file_block_device block_device" where
  "file_device =
     \<lparr>block_count = fbd_blocks, read_block = file_read_block,
      write_block = file_write_block, flush = file_flush\<rparr>"

text \<open>Calling \<open>device.block_count()\<close> inside a computation.\<close>

definition io_count :: "'d block_device \<Rightarrow> ('d, u64) dev_io" where
  "io_count D d = (Inr (block_count D d), d)"

section \<open>What clients of the trait rely on\<close>

locale readable_device =
  fixes D :: "'d block_device" and view :: "'d \<Rightarrow> u64 \<Rightarrow> byte list" and inv :: "'d \<Rightarrow> bool"
  assumes view_length: "inv d \<Longrightarrow> b < block_count D d \<Longrightarrow> length (view d b) = BLOCK_SIZE"
    and read_result: "inv d \<Longrightarrow> read_block D b d = (Inr bs, d') \<Longrightarrow>
          b < block_count D d \<and> bs = view d b"
    and read_frame: "inv d \<Longrightarrow> read_block D b d = (r, d') \<Longrightarrow>
          inv d' \<and> view d' = view d \<and> block_count D d' = block_count D d"
begin

lemma read_success:
  assumes "inv d" and "read_block D b d = (Inr bs, d')"
  shows "b < block_count D d" and "bs = view d b" and "length bs = BLOCK_SIZE"
    and "inv d'" and "view d' = view d" and "block_count D d' = block_count D d"
  using assms read_result read_frame view_length by blast+

lemma io_map_read_frame:
  "inv d \<Longrightarrow> io_map bs (read_block D) d = (r, d') \<Longrightarrow>
     inv d' \<and> view d' = view d \<and> block_count D d' = block_count D d"
proof (induction bs arbitrary: d r d')
  case (Cons b bs)
  obtain r1 d1 where r1: "read_block D b d = (r1, d1)" by fastforce
  note f1 = read_frame [OF Cons.prems(1) r1]
  show ?case
  proof (cases r1)
    case (Inr x)
    obtain r2 d2 where r2: "io_map bs (read_block D) d1 = (r2, d2)" by fastforce
    with Cons.IH f1 have "inv d2 \<and> view d2 = view d1 \<and> block_count D d2 = block_count D d1"
      by blast
    with Cons.prems(2) r1 r2 Inr f1 show ?thesis
      by (cases r2) (auto simp: io_simps)
  qed (use Cons.prems(2) r1 f1 in \<open>auto simp: io_simps\<close>)
qed (auto simp: io_simps)

lemma io_map_read_result:
  "inv d \<Longrightarrow> io_map bs (read_block D) d = (Inr xs, d') \<Longrightarrow>
     xs = map (view d) bs \<and> (\<forall>b \<in> set bs. b < block_count D d)"
proof (induction bs arbitrary: d xs d')
  case (Cons b bs)
  from Cons.prems(2) obtain x d1 ys d2 where
    r1: "read_block D b d = (Inr x, d1)" and r2: "io_map bs (read_block D) d1 = (Inr ys, d2)"
    and xs: "xs = x # ys"
    by (auto elim!: io_bind_InrE simp: io_simps)
  with read_success [OF Cons.prems(1) r1] Cons.IH [of d1 ys d2] show ?case by auto
qed (auto simp: io_simps)

end

locale writable_device = readable_device +
  assumes write_success: "inv d \<Longrightarrow> length bs = BLOCK_SIZE \<Longrightarrow> write_block D b bs d = (Inr u, d') \<Longrightarrow>
          b < block_count D d \<and> view d' = (view d)(b := bs)"
    and write_frame: "inv d \<Longrightarrow> length bs = BLOCK_SIZE \<Longrightarrow> write_block D b bs d = (r, d') \<Longrightarrow>
          inv d' \<and> block_count D d' = block_count D d \<and> (\<forall>c. c \<noteq> b \<longrightarrow> view d' c = view d c)"
    and flush_frame: "inv d \<Longrightarrow> flush D d = (r, d') \<Longrightarrow>
          inv d' \<and> view d' = view d \<and> block_count D d' = block_count D d"

locale reliable_reader = readable_device +
  assumes read_ok: "inv d \<Longrightarrow> b < block_count D d \<Longrightarrow> \<exists>d'. read_block D b d = (Inr (view d b), d')"
    and read_range: "inv d \<Longrightarrow> block_count D d \<le> b \<Longrightarrow> \<exists>d'. read_block D b d = (Inl UnexpectedEof, d')"

locale reliable_device = writable_device D view inv + reliable_reader D view inv
  for D :: "'d block_device" and view inv +
  assumes write_ok: "inv d \<Longrightarrow> length bs = BLOCK_SIZE \<Longrightarrow> b < block_count D d \<Longrightarrow>
          \<exists>d'. write_block D b bs d = (Inr (), d')"
    and write_range: "inv d \<Longrightarrow> length bs = BLOCK_SIZE \<Longrightarrow> block_count D d \<le> b \<Longrightarrow>
          \<exists>d'. write_block D b bs d = (Inl UnexpectedEof, d') \<and> view d' = view d"
    and flush_ok: "inv d \<Longrightarrow> \<exists>d'. flush D d = (Inr (), d')"
begin

lemma read_total:
  assumes "inv d" and "b < block_count D d"
  obtains d' where "read_block D b d = (Inr (view d b), d')" and "inv d'"
    and "view d' = view d" and "block_count D d' = block_count D d"
  using read_ok [OF assms] read_frame [OF assms(1)] by blast

lemma write_total:
  assumes "inv d" and "length bs = BLOCK_SIZE" and "b < block_count D d"
  obtains d' where "write_block D b bs d = (Inr (), d')" and "inv d'"
    and "view d' = (view d)(b := bs)" and "block_count D d' = block_count D d"
  using write_ok [OF assms] write_frame [OF assms(1,2)] write_success [OF assms(1,2)] by blast

lemma flush_total:
  assumes "inv d"
  obtains d' where "flush D d = (Inr (), d')" and "inv d'"
    and "view d' = view d" and "block_count D d' = block_count D d"
  using flush_ok [OF assms] flush_frame [OF assms] by blast

lemma io_map_read_total:
  assumes "inv d" and "\<forall>b \<in> set bs. b < block_count D d"
  obtains d' where "io_map bs (read_block D) d = (Inr (map (view d) bs), d')" and "inv d'"
    and "view d' = view d" and "block_count D d' = block_count D d"
proof -
  from assms have "\<exists>d'. io_map bs (read_block D) d = (Inr (map (view d) bs), d')"
  proof (induction bs arbitrary: d)
    case (Cons b bs)
    from Cons.prems obtain d1 where 1: "read_block D b d = (Inr (view d b), d1)" "inv d1"
      "view d1 = view d" "block_count D d1 = block_count D d"
      by (auto elim: read_total)
    with Cons.IH [of d1] Cons.prems obtain d2
      where 2: "io_map bs (read_block D) d1 = (Inr (map (view d) bs), d2)" by auto
    then show ?case by (simp add: 1 2 io_simps)
  qed (simp add: io_simps)
  with io_map_read_frame [OF assms(1)] that show thesis by blast
qed

text \<open>Writing a list of blocks in order.\<close>

lemma io_for_write_total:
  assumes "inv d" and "\<forall>(b, bs) \<in> set ws. b < block_count D d \<and> length bs = BLOCK_SIZE"
  obtains d' where "io_for ws (\<lambda>(b, bs). write_block D b bs) d = (Inr (), d')" and "inv d'"
    and "view d' = foldl (\<lambda>v (b, bs). v(b := bs)) (view d) ws"
    and "block_count D d' = block_count D d"
proof -
  from assms have "\<exists>d'. io_for ws (\<lambda>(b, bs). write_block D b bs) d = (Inr (), d') \<and> inv d' \<and>
      view d' = foldl (\<lambda>v (b, bs). v(b := bs)) (view d) ws \<and> block_count D d' = block_count D d"
  proof (induction ws arbitrary: d)
    case (Cons w ws)
    obtain b bs where w: "w = (b, bs)" by fastforce
    with Cons.prems obtain d1 where 1: "write_block D b bs d = (Inr (), d1)" "inv d1"
      "view d1 = (view d)(b := bs)" "block_count D d1 = block_count D d"
      by (auto elim: write_total)
    with Cons.IH [of d1] Cons.prems w show ?case by (auto simp: io_simps)
  qed (simp add: io_simps)
  with that show thesis by blast
qed

end

section \<open>The file device is an instance\<close>

definition file_view :: "file_block_device \<Rightarrow> u64 \<Rightarrow> byte list" where
  "file_view d b = get_bytes (b * BLOCK_SIZE) BLOCK_SIZE (f_bytes (fbd_file d))"

definition file_inv :: "file_block_device \<Rightarrow> bool" where
  "file_inv d \<longleftrightarrow> length (f_bytes (fbd_file d)) = fbd_blocks d * BLOCK_SIZE
     \<and> length (f_bytes (fbd_file d)) < U64_LIMIT"

definition file_reliable :: "file_block_device \<Rightarrow> bool" where
  "file_reliable d \<longleftrightarrow> file_inv d \<and> f_errors (fbd_file d) = []"

lemma BLOCK_SIZE_pos [simp]: "0 < BLOCK_SIZE"
  by (simp add: BLOCK_SIZE_def)

lemma next_error_bytes:
  "next_error f = (e, f') \<Longrightarrow> f_bytes f' = f_bytes f \<and> f_pos f' = f_pos f \<and>
     (f_errors f = [] \<longrightarrow> \<not> e \<and> f_errors f' = [])"
  by (auto simp: next_error_def split: list.splits)

lemma block_in_file:
  assumes "file_inv d" and "b < fbd_blocks d"
  shows "b * BLOCK_SIZE + BLOCK_SIZE \<le> length (f_bytes (fbd_file d))"
    and "b * BLOCK_SIZE < U64_LIMIT"
proof -
  have "Suc b * BLOCK_SIZE \<le> fbd_blocks d * BLOCK_SIZE"
    using assms(2) by (intro mult_le_mono1) simp
  with assms(1) show 1: "b * BLOCK_SIZE + BLOCK_SIZE \<le> length (f_bytes (fbd_file d))"
    by (simp add: file_inv_def)
  with assms(1) show "b * BLOCK_SIZE < U64_LIMIT" by (simp add: file_inv_def)
qed

lemma file_view_other:
  assumes "length bs = BLOCK_SIZE" and "b * BLOCK_SIZE + BLOCK_SIZE \<le> length fb" and "c \<noteq> b"
  shows "get_bytes (c * BLOCK_SIZE) BLOCK_SIZE (put_bytes (b * BLOCK_SIZE) bs fb)
           = get_bytes (c * BLOCK_SIZE) BLOCK_SIZE fb"
proof (rule get_put_other)
  have "Suc c * BLOCK_SIZE \<le> b * BLOCK_SIZE \<or> Suc b * BLOCK_SIZE \<le> c * BLOCK_SIZE"
    using assms(3) by (metis Suc_leI linorder_neqE_nat mult_le_mono1)
  then show "c * BLOCK_SIZE + BLOCK_SIZE \<le> b * BLOCK_SIZE \<or> b * BLOCK_SIZE + length bs \<le> c * BLOCK_SIZE"
    using assms(1) by auto
qed (use assms in simp)

lemmas file_op_defs =
  file_read_block_def file_write_block_def file_flush_def on_file_def
  file_seek_def file_read_exact_def file_write_all_def file_sync_data_def block_offset_def
  io_bind_def io_seq_def io_lift_def BLOCK_SIZE_U64_def checked_mul_def Let_def

lemma file_device_simps [simp]:
  "block_count file_device = fbd_blocks"
  "read_block file_device = file_read_block"
  "write_block file_device = file_write_block"
  "flush file_device = file_flush"
  by (simp_all add: file_device_def)

lemma file_read_block_bytes:
  assumes "file_read_block b d = (r, d')"
  shows "f_bytes (fbd_file d') = f_bytes (fbd_file d) \<and> fbd_blocks d' = fbd_blocks d"
  using assms
  by (auto simp: file_op_defs split: prod.splits if_splits dest!: next_error_bytes)

lemma file_read_block_Inr:
  assumes "file_read_block b d = (Inr bs, d')"
  shows "b < fbd_blocks d \<and> bs = file_view d b"
  using assms
  by (auto simp: file_op_defs file_view_def split: prod.splits if_splits dest!: next_error_bytes)

lemma file_write_block_Inr:
  assumes "file_write_block b bs d = (Inr u, d')"
  shows "b < fbd_blocks d \<and> fbd_blocks d' = fbd_blocks d \<and>
    f_bytes (fbd_file d') = put_bytes (b * BLOCK_SIZE) bs (f_bytes (fbd_file d))"
  using assms
  by (auto simp: file_op_defs split: prod.splits if_splits dest!: next_error_bytes)

lemma file_write_block_Inl:
  assumes "file_write_block b bs d = (Inl e, d')"
  shows "f_bytes (fbd_file d') = f_bytes (fbd_file d) \<and> fbd_blocks d' = fbd_blocks d"
  using assms
  by (auto simp: file_op_defs split: prod.splits if_splits dest!: next_error_bytes)

lemma file_flush_bytes:
  assumes "file_flush d = (r, d')"
  shows "f_bytes (fbd_file d') = f_bytes (fbd_file d) \<and> fbd_blocks d' = fbd_blocks d"
  using assms
  by (auto simp: file_op_defs split: prod.splits if_splits dest!: next_error_bytes)

lemma file_same_bytes:
  assumes "f_bytes (fbd_file d') = f_bytes (fbd_file d) \<and> fbd_blocks d' = fbd_blocks d" and "file_inv d"
  shows "file_inv d' \<and> file_view d' = file_view d \<and> fbd_blocks d' = fbd_blocks d"
  using assms by (simp add: file_inv_def file_view_def fun_eq_iff)

lemma file_write_view:
  assumes "file_inv d" and "length bs = BLOCK_SIZE" and "b < fbd_blocks d"
    and "fbd_blocks d' = fbd_blocks d"
    and "f_bytes (fbd_file d') = put_bytes (b * BLOCK_SIZE) bs (f_bytes (fbd_file d))"
  shows "file_view d' = (file_view d)(b := bs) \<and> file_inv d'"
  using assms block_in_file [OF assms(1,3)]
  by (auto simp: fun_eq_iff file_view_def file_view_other file_inv_def slice_simps)

interpretation file_dev: writable_device file_device file_view file_inv
proof (unfold_locales, goal_cases)
  case (1 d b)
  then show ?case using block_in_file [of d b] by (simp add: file_view_def slice_simps)
next
  case (2 d b bs d')
  then show ?case using file_read_block_Inr by simp
next
  case (3 d b r d')
  then show ?case using file_same_bytes [OF file_read_block_bytes] by simp
next
  case (4 d bs b u d')
  then show ?case using file_write_view [OF 4(1,2)] file_write_block_Inr by simp
next
  case (5 d bs b r d')
  show ?case
  proof (cases r)
    case (Inr u)
    with 5 have "b < fbd_blocks d \<and> fbd_blocks d' = fbd_blocks d \<and>
        f_bytes (fbd_file d') = put_bytes (b * BLOCK_SIZE) bs (f_bytes (fbd_file d))"
      by (intro file_write_block_Inr [of b bs d u]) simp
    with file_write_view [OF 5(1,2), of b d'] show ?thesis by simp
  next
    case (Inl e)
    with 5 show ?thesis using file_same_bytes [OF file_write_block_Inl] by simp
  qed
next
  case (6 d r d')
  then show ?case using file_same_bytes [OF file_flush_bytes] by simp
qed

lemma file_errors_step:
  assumes "f_errors (fbd_file d) = []"
  shows "file_read_block b d = (r, d1) \<Longrightarrow> f_errors (fbd_file d1) = []"
    and "file_write_block b bs d = (r', d2) \<Longrightarrow> f_errors (fbd_file d2) = []"
    and "file_flush d = (r'', d3) \<Longrightarrow> f_errors (fbd_file d3) = []"
  using assms by (auto simp: file_op_defs next_error_def split: if_splits)

lemma file_reliable_inv: "file_reliable d \<Longrightarrow> file_inv d"
  by (simp add: file_reliable_def)

interpretation file_ok: reliable_device file_device file_view file_reliable
proof (unfold_locales, goal_cases)
  case (1 d b)
  then show ?case using file_dev.view_length file_reliable_inv by blast
next
  case (2 d b bs d')
  then show ?case using file_dev.read_result file_reliable_inv by blast
next
  case (3 d b r d')
  then show ?case using file_dev.read_frame [of d b r d'] file_errors_step(1) [of d b r d']
    by (simp add: file_reliable_def)
next
  case (4 d bs b u d')
  then show ?case using file_dev.write_success file_reliable_inv by blast
next
  case (5 d bs b r d')
  then show ?case using file_dev.write_frame [of d bs b r d'] file_errors_step(2) [of d b bs r d']
    by (simp add: file_reliable_def)
next
  case (6 d r d')
  then show ?case using file_dev.flush_frame [of d r d'] file_errors_step(3) [of d r d']
    by (simp add: file_reliable_def)
next
  case (7 d b)
  then show ?case using block_in_file [of d b]
    by (auto simp: file_reliable_def file_op_defs file_view_def next_error_def)
next
  case (8 d b)
  then show ?case by (auto simp: file_reliable_def file_op_defs)
next
  case (9 d bs b)
  then show ?case using block_in_file [of d b]
    by (auto simp: file_reliable_def file_op_defs file_view_def next_error_def)
next
  case (10 d bs b)
  then show ?case by (auto simp: file_reliable_def file_op_defs)
next
  case (11 d)
  then show ?case by (auto simp: file_reliable_def file_op_defs next_error_def)
qed

lemma from_file_inv: "from_file f = Inr d \<Longrightarrow> length (f_bytes f) < U64_LIMIT \<Longrightarrow> file_inv d"
  by (auto simp: from_file_def file_metadata_len_def file_inv_def Let_def BLOCK_SIZE_U64_def
      minus_mod_eq_div_mult [symmetric] split: prod.splits if_splits dest!: next_error_bytes)

end
