(* ===== verification/Journal.thy ===== *)
theory Journal
  imports Block_Device
begin

text \<open>
  The logical journal of \<open>journal.rs\<close>: entries, the in-memory log with its single active
  transaction, crash prefixes, and replay into a home image.

  \<open>parse_log\<close> is the specification: it splits a log into its committed transactions and
  the transaction left open at the end. \<open>parse_log_iff\<close> ties it to the grammar
  \<open>(Begin Write* Commit)* (Begin Write* )?\<close>; replay (here), recovery planning and the
  journal region are related to it.
\<close>

type_synonym transaction_id = u64

datatype journal_entry =
    Begin transaction_id
  | Write transaction_id u64 "byte list"
  | Commit transaction_id

type_synonym block_write = "u64 \<times> byte list"
type_synonym home_image = "u64 \<rightharpoonup> byte list"

record journal_log =
  jl_entries :: "journal_entry list"
  jl_active :: "transaction_id option"
  jl_next_txid :: transaction_id

section \<open>Replay\<close>

definition apply_writes :: "home_image \<Rightarrow> block_write list \<Rightarrow> home_image" where
  "apply_writes home ws = foldl (\<lambda>h (block, data). h(block \<mapsto> data)) home ws"

fun replay_loop :: "journal_entry list \<Rightarrow> transaction_id option \<Rightarrow> block_write list \<Rightarrow> nat
    \<Rightarrow> (home_image, nat) dev_io" where
  "replay_loop [] active pending replayed home = (Inr replayed, home)"
| "replay_loop (Begin txid # es) active pending replayed home =
     (if active \<noteq> None then (Inl InvalidData, home)
      else replay_loop es (Some txid) [] replayed home)"
| "replay_loop (Write txid block data # es) active pending replayed home =
     (if active \<noteq> Some txid then (Inl InvalidData, home)
      else replay_loop es active (pending @ [(block, data)]) replayed home)"
| "replay_loop (Commit txid # es) active pending replayed home =
     (if active \<noteq> Some txid then (Inl InvalidData, home)
      else
        let home' = apply_writes home pending in
        case checked_add replayed 1 of
          None \<Rightarrow> (Inl InvalidData, home')
        | Some replayed' \<Rightarrow> replay_loop es None [] replayed' home')"

definition replay_into :: "journal_entry list \<Rightarrow> (home_image, nat) dev_io" where
  "replay_into entries = replay_loop entries None [] 0"

definition journal_validate :: "journal_entry list \<Rightarrow> unit io_result" where
  "journal_validate entries = res_bind (fst (replay_into entries Map.empty)) (\<lambda>_. Inr ())"

section \<open>The log\<close>

definition journal_log_new :: journal_log where
  "journal_log_new = \<lparr>jl_entries = [], jl_active = None, jl_next_txid = 0\<rparr>"

definition journal_begin :: "(journal_log, transaction_id) dev_io" where
  "journal_begin l =
     (if jl_active l \<noteq> None then (Inl WouldBlock, l)
      else
        let txid = jl_next_txid l in
        case checked_add (jl_next_txid l) 1 of
          None \<Rightarrow> (Inl OtherError, l)
        | Some next \<Rightarrow>
            (Inr txid, l\<lparr>jl_next_txid := next, jl_entries := jl_entries l @ [Begin txid],
                         jl_active := Some txid\<rparr>))"

definition require_active :: "journal_log \<Rightarrow> transaction_id \<Rightarrow> unit io_result" where
  "require_active l txid = (if jl_active l \<noteq> Some txid then Inl InvalidInput else Inr ())"

definition journal_write :: "transaction_id \<Rightarrow> u64 \<Rightarrow> byte list \<Rightarrow> (journal_log, unit) dev_io" where
  "journal_write txid block data l =
     (case require_active l txid of
        Inl e \<Rightarrow> (Inl e, l)
      | Inr _ \<Rightarrow> (Inr (), l\<lparr>jl_entries := jl_entries l @ [Write txid block data]\<rparr>))"

definition journal_commit :: "transaction_id \<Rightarrow> (journal_log, unit) dev_io" where
  "journal_commit txid l =
     (case require_active l txid of
        Inl e \<Rightarrow> (Inl e, l)
      | Inr _ \<Rightarrow> (Inr (), l\<lparr>jl_entries := jl_entries l @ [Commit txid], jl_active := None\<rparr>))"

definition crash_prefix :: "journal_log \<Rightarrow> nat \<Rightarrow> journal_entry list io_result" where
  "crash_prefix l durable_entries =
     (if durable_entries > length (jl_entries l) then Inl InvalidInput
      else Inr (take durable_entries (jl_entries l)))"

definition durable_image :: "journal_log \<Rightarrow> journal_entry list" where
  "durable_image l = jl_entries l"

section \<open>Specification: the transactions of a log\<close>

type_synonym txn = "transaction_id \<times> block_write list"

fun parse_log :: "journal_entry list \<Rightarrow> txn option \<Rightarrow> (txn list \<times> txn option) option" where
  "parse_log [] opn = Some ([], opn)"
| "parse_log (Begin t # es) None = parse_log es (Some (t, []))"
| "parse_log (Write t b d # es) (Some (t', ws)) =
     (if t = t' then parse_log es (Some (t', ws @ [(b, d)])) else None)"
| "parse_log (Commit t # es) (Some (t', ws)) =
     (if t = t' then map_option (\<lambda>(ts, opn). ((t', ws) # ts, opn)) (parse_log es None) else None)"
| "parse_log _ _ = None"

definition transactions :: "journal_entry list \<Rightarrow> txn list" where
  "transactions es = (case parse_log es None of None \<Rightarrow> [] | Some (ts, _) \<Rightarrow> ts)"

definition committed_writes :: "journal_entry list \<Rightarrow> block_write list" where
  "committed_writes es = concat (map snd (transactions es))"

definition well_formed_log :: "journal_entry list \<Rightarrow> bool" where
  "well_formed_log es \<longleftrightarrow> parse_log es None \<noteq> None"

fun is_Commit :: "journal_entry \<Rightarrow> bool" where
  "is_Commit (Commit _) = True"
| "is_Commit _ = False"

definition open_entries :: "txn option \<Rightarrow> journal_entry list" where
  "open_entries opn = (case opn of None \<Rightarrow> [] | Some (t, ws) \<Rightarrow> Begin t # map (\<lambda>(b, d). Write t b d) ws)"

definition txn_entries :: "txn \<Rightarrow> journal_entry list" where
  "txn_entries tx = open_entries (Some tx) @ [Commit (fst tx)]"

lemma apply_writes_simps [simp]:
  "apply_writes home [] = home"
  "apply_writes home ((b, d) # ws) = apply_writes (home(b \<mapsto> d)) ws"
  "apply_writes home (ws @ vs) = apply_writes (apply_writes home ws) vs"
  by (simp_all add: apply_writes_def)

lemma parse_log_writes:
  "parse_log (map (\<lambda>(b, d). Write t b d) ws @ es) (Some (t, vs)) = parse_log es (Some (t, vs @ ws))"
  by (induction ws arbitrary: vs) auto

lemma parse_log_open: "parse_log (open_entries opn @ es) None = parse_log es opn"
  by (cases opn) (auto simp: open_entries_def parse_log_writes)

lemma parse_log_txn: "parse_log (txn_entries tx @ es) None =
    map_option (\<lambda>(ts, opn). (tx # ts, opn)) (parse_log es None)"
  by (cases tx) (simp add: txn_entries_def parse_log_open)

lemma parse_log_unparse:
  "parse_log (concat (map txn_entries ts) @ open_entries opn) None = Some (ts, opn)"
proof (induction ts)
  case Nil
  show ?case using parse_log_open [of opn "[]"] by simp
qed (simp add: parse_log_txn)

lemma open_entries_snoc: "open_entries (Some (t, ws @ [(b, d)])) = open_entries (Some (t, ws)) @ [Write t b d]"
  by (simp add: open_entries_def)

lemma parse_log_sound:
  "parse_log es opn = Some (ts, opn') \<Longrightarrow>
     open_entries opn @ es = concat (map txn_entries ts) @ open_entries opn'"
proof (induction es opn arbitrary: ts rule: parse_log.induct)
  case (2 t es)
  then show ?case using 2(1) [of ts] by (simp add: open_entries_def)
next
  case (3 t b d es t' ws)
  then show ?case using 3(1) [of ts] by (simp add: open_entries_snoc split: if_splits)
next
  case (4 t es t' ws)
  then obtain ts' where t: "t = t'" and "parse_log es None = Some (ts', opn')" and ts: "ts = (t', ws) # ts'"
    by (auto split: if_splits)
  with 4(1) [of ts'] show ?case by (simp add: txn_entries_def open_entries_def)
qed (auto simp: open_entries_def)

lemma parse_log_iff:
  "parse_log es None = Some (ts, opn) \<longleftrightarrow> es = concat (map txn_entries ts) @ open_entries opn"
  using parse_log_sound [of es None ts opn] parse_log_unparse [of ts opn]
  by (auto simp: open_entries_def)

lemma parse_log_append:
  "parse_log (es @ fs) opn = (case parse_log es opn of None \<Rightarrow> None | Some (ts, opn') \<Rightarrow>
     map_option (\<lambda>(us, opn''). (ts @ us, opn'')) (parse_log fs opn'))"
  by (induction es opn rule: parse_log.induct)
    (auto split: option.splits prod.splits simp: option.map_ident map_option_case)

lemma parse_log_commits:
  "parse_log es opn = Some (ts, opn') \<Longrightarrow> length ts = length (filter is_Commit es)"
  by (induction es opn arbitrary: ts rule: parse_log.induct) (auto split: if_splits)

lemma parse_log_prefix:
  assumes "parse_log es opn = Some (ts, opn')"
  shows "\<exists>opn''. parse_log (take k es) opn
     = Some (take (length (filter is_Commit (take k es))) ts, opn'')"
proof -
  from assms have "parse_log (take k es @ drop k es) opn = Some (ts, opn')" by simp
  then obtain us vs opn'' where us: "parse_log (take k es) opn = Some (us, opn'')" and "ts = us @ vs"
    by (auto simp only: parse_log_append split: option.splits prod.splits)
  with parse_log_commits [OF us] show ?thesis by simp
qed

lemma length_transactions_le: "length (transactions es) \<le> length es"
  using parse_log_commits [of es None]
  by (auto simp: transactions_def split: option.splits prod.splits)

section \<open>Replay follows the specification\<close>

lemma replay_loop_ok:
  assumes "parse_log es opn = Some (ts, opn')" and "n + length ts < U64_LIMIT"
    and "active = map_option fst opn" and "\<And>t ws. opn = Some (t, ws) \<Longrightarrow> pending = ws"
  shows "replay_loop es active pending n home
           = (Inr (n + length ts), apply_writes home (concat (map snd ts)))"
  using assms
proof (induction es opn arbitrary: ts n active pending home rule: parse_log.induct)
  case (4 t es t' ws)
  then obtain us where us: "t = t'" "parse_log es None = Some (us, opn')" "ts = (t', ws) # us"
    by (auto split: if_splits)
  with 4(1) [of us "Suc n" None "[]"] 4(3-) show ?case by (simp add: checked_add_def)
qed (auto split: if_splits)

lemma replay_loop_bad:
  assumes "parse_log es opn = None" and "active = map_option fst opn"
    and "\<And>t ws. opn = Some (t, ws) \<Longrightarrow> pending = ws"
  shows "fst (replay_loop es active pending n home) = Inl InvalidData"
  using assms
proof (induction es opn arbitrary: n active pending home rule: parse_log.induct)
  case (4 t es t' ws)
  then show ?case using 4(1) [of None "[]"] by (auto split: if_splits option.splits simp: Let_def)
qed (auto split: if_splits)

lemma replay_into_ok:
  assumes "parse_log es None = Some (ts, opn)" and "length es < U64_LIMIT"
  shows "replay_into es home = (Inr (length ts), apply_writes home (concat (map snd ts)))"
proof -
  have "length ts < U64_LIMIT"
    using parse_log_commits [OF assms(1)] le_less_trans [OF length_filter_le assms(2)] by simp
  with replay_loop_ok [OF assms(1), of 0 None "[]" home] show ?thesis by (simp add: replay_into_def)
qed

lemma replay_into_bad: "parse_log es None = None \<Longrightarrow> fst (replay_into es home) = Inl InvalidData"
  using replay_loop_bad [of es None None "[]" 0 home] by (simp add: replay_into_def)

section \<open>Invariant of the log\<close>

inductive log_step :: "journal_log \<Rightarrow> journal_log \<Rightarrow> bool" where
  "journal_begin l = (r, l') \<Longrightarrow> log_step l l'"
| "journal_write txid block data l = (r', l') \<Longrightarrow> log_step l l'"
| "journal_commit txid l = (r', l') \<Longrightarrow> log_step l l'"

definition log_inv :: "journal_log \<Rightarrow> bool" where
  "log_inv l \<longleftrightarrow> (\<exists>ts opn. parse_log (jl_entries l) None = Some (ts, opn) \<and>
     jl_active l = map_option fst opn \<and>
     sorted_wrt (<) (map fst ts @ map fst (case opn of None \<Rightarrow> [] | Some tx \<Rightarrow> [tx])) \<and>
     (\<forall>t \<in> set (map fst ts @ map fst (case opn of None \<Rightarrow> [] | Some tx \<Rightarrow> [tx])). t < jl_next_txid l))"

lemma log_inv_new: "log_inv journal_log_new"
  by (simp add: log_inv_def journal_log_new_def)

lemma log_inv_active:
  assumes "log_inv l" and "jl_active l = Some t"
  obtains ts ws where "parse_log (jl_entries l) None = Some (ts, Some (t, ws))"
    and "sorted_wrt (<) (map fst ts @ [t])"
    and "\<forall>x \<in> set ts. fst x < jl_next_txid l" and "t < jl_next_txid l"
proof -
  from assms(1) obtain ts opn where p: "parse_log (jl_entries l) None = Some (ts, opn)"
    and a: "jl_active l = map_option fst opn"
    and "sorted_wrt (<) (map fst ts @ map fst (case opn of None \<Rightarrow> [] | Some tx \<Rightarrow> [tx]))"
    and "\<forall>t \<in> set (map fst ts @ map fst (case opn of None \<Rightarrow> [] | Some tx \<Rightarrow> [tx])). t < jl_next_txid l"
    by (auto simp only: log_inv_def)
  moreover from a assms(2) obtain ws where "opn = Some (t, ws)" by (cases opn) auto
  ultimately show thesis using that [of ts ws] by simp
qed

lemma log_inv_begin:
  assumes "log_inv l" and "journal_begin l = (r, l')"
  shows "log_inv l'"
proof (cases r)
  case (Inr t)
  with assms(2) have act: "jl_active l = None" and t: "t = jl_next_txid l"
    and l': "l' = l\<lparr>jl_next_txid := jl_next_txid l + 1, jl_entries := jl_entries l @ [Begin t], jl_active := Some t\<rparr>"
    by (auto simp: journal_begin_def Let_def split: if_splits option.splits)
  from assms(1) act obtain ts where "parse_log (jl_entries l) None = Some (ts, None)"
    and "sorted_wrt (<) (map fst ts)" and "\<forall>x \<in> set ts. fst x < jl_next_txid l"
    by (auto simp: log_inv_def)
  then show ?thesis
    by (auto simp: log_inv_def l' t parse_log_append sorted_wrt_append less_Suc_eq)
qed (use assms in \<open>auto simp: journal_begin_def Let_def split: if_splits option.splits\<close>)

lemma log_inv_write:
  assumes "log_inv l" and "journal_write txid block data l = (r, l')"
  shows "log_inv l'"
proof (cases r)
  case (Inr u)
  with assms(2) have act: "jl_active l = Some txid"
    and l': "l' = l\<lparr>jl_entries := jl_entries l @ [Write txid block data]\<rparr>"
    by (auto simp: journal_write_def require_active_def split: if_splits)
  from assms(1) act obtain ts ws where "parse_log (jl_entries l) None = Some (ts, Some (txid, ws))"
    and "sorted_wrt (<) (map fst ts @ [txid])"
    and "\<forall>x \<in> set ts. fst x < jl_next_txid l" and "txid < jl_next_txid l"
    by (rule log_inv_active)
  then show ?thesis by (auto simp: log_inv_def l' act parse_log_append)
qed (use assms in \<open>auto simp: journal_write_def require_active_def split: if_splits\<close>)

lemma log_inv_commit:
  assumes "log_inv l" and "journal_commit txid l = (r, l')"
  shows "log_inv l'"
proof (cases r)
  case (Inr u)
  with assms(2) have act: "jl_active l = Some txid"
    and l': "l' = l\<lparr>jl_entries := jl_entries l @ [Commit txid], jl_active := None\<rparr>"
    by (auto simp: journal_commit_def require_active_def split: if_splits)
  from assms(1) act obtain ts ws where "parse_log (jl_entries l) None = Some (ts, Some (txid, ws))"
    and "sorted_wrt (<) (map fst ts @ [txid])"
    and "\<forall>x \<in> set ts. fst x < jl_next_txid l" and "txid < jl_next_txid l"
    by (rule log_inv_active)
  then show ?thesis by (auto simp: log_inv_def l' parse_log_append)
qed (use assms in \<open>auto simp: journal_commit_def require_active_def split: if_splits\<close>)

lemma log_inv_step: "log_step l l' \<Longrightarrow> log_inv l \<Longrightarrow> log_inv l'"
  by (induction rule: log_step.induct) (auto dest: log_inv_begin log_inv_write log_inv_commit)

lemma log_inv_reachable: "log_step\<^sup>*\<^sup>* journal_log_new l \<Longrightarrow> log_inv l"
  by (induction rule: rtranclp_induct) (auto intro: log_inv_new log_inv_step)

end
