(* ===== verification/Format.thy ===== *)
theory Format
  imports Block_Device
begin

text \<open>
  The superblock of \<open>format.rs\<close>: geometry arithmetic, the constructors with their
  overflow checks, and the version-6 codec. \<open>geometry_ok\<close> states the layout every
  accepted superblock has; the lemmas show that the constructors establish it, that
  encoding and decoding are inverse on it, and that the five metadata regions are
  disjoint and inside the device.
\<close>

definition SUPERBLOCK_BLOCK :: u64 where "SUPERBLOCK_BLOCK = 0"
definition SUPERBLOCK_MAGIC :: "byte list" where "SUPERBLOCK_MAGIC = ascii ''FSLABFS'' @ [0]"
definition FORMAT_VERSION :: nat where "FORMAT_VERSION = 6"
definition FORMAT_BLOCK_SIZE :: nat where "FORMAT_BLOCK_SIZE = 4096"
definition DEFAULT_JOURNAL_BLOCKS :: u64 where "DEFAULT_JOURNAL_BLOCKS = 4"
definition DEFAULT_INODE_BLOCKS :: u64 where "DEFAULT_INODE_BLOCKS = 2"
definition DEFAULT_DIRECTORY_BLOCKS :: u64 where "DEFAULT_DIRECTORY_BLOCKS = 2"
definition ALLOCATION_IMAGE_HEADER_LEN :: u64 where "ALLOCATION_IMAGE_HEADER_LEN = 32"
definition SB_HEADER_LEN :: nat where "SB_HEADER_LEN = 88"

record superblock =
  sb_total_blocks :: u64
  sb_journal_start :: u64
  sb_journal_blocks :: u64
  sb_allocation_start :: u64
  sb_allocation_blocks :: u64
  sb_inode_start :: u64
  sb_inode_blocks :: u64
  sb_directory_start :: u64
  sb_directory_blocks :: u64

definition allocation_bitmap_bytes :: "u64 \<Rightarrow> u64 io_result" where
  "allocation_bitmap_bytes total_blocks =
     ok_or InvalidInput (map_option (\<lambda>rounded. rounded div 8) (checked_add total_blocks 7))"

definition required_allocation_blocks :: "u64 \<Rightarrow> u64 io_result" where
  "required_allocation_blocks total_blocks =
     res_bind (allocation_bitmap_bytes total_blocks) (\<lambda>bytes.
     res_bind (ok_or InvalidInput (checked_add ALLOCATION_IMAGE_HEADER_LEN bytes)) (\<lambda>image_bytes.
     ok_or InvalidInput
       (map_option (\<lambda>rounded. rounded div BLOCK_SIZE_U64)
         (checked_add image_bytes (BLOCK_SIZE_U64 - 1)))))"

definition with_all_metadata_blocks :: "u64 \<Rightarrow> u64 \<Rightarrow> u64 \<Rightarrow> u64 \<Rightarrow> superblock io_result" where
  "with_all_metadata_blocks total_blocks journal inode directory =
     (if journal = 0 then Inl InvalidInput
      else if inode = 0 then Inl InvalidInput
      else if directory = 0 then Inl InvalidInput
      else
        (let journal_start = SUPERBLOCK_BLOCK + 1 in
         res_bind (ok_or InvalidInput (checked_add journal_start journal)) (\<lambda>allocation_start.
         res_bind (required_allocation_blocks total_blocks) (\<lambda>allocation_blocks.
         res_bind (ok_or InvalidInput (checked_add allocation_start allocation_blocks)) (\<lambda>inode_start.
         res_bind (ok_or InvalidInput (checked_add inode_start inode)) (\<lambda>directory_start.
         res_bind (ok_or InvalidInput (checked_add directory_start directory)) (\<lambda>metadata_end.
         if total_blocks < metadata_end then Inl InvalidInput
         else Inr \<lparr>sb_total_blocks = total_blocks, sb_journal_start = journal_start,
                   sb_journal_blocks = journal, sb_allocation_start = allocation_start,
                   sb_allocation_blocks = allocation_blocks, sb_inode_start = inode_start,
                   sb_inode_blocks = inode, sb_directory_start = directory_start,
                   sb_directory_blocks = directory\<rparr>)))))))"

definition superblock_new :: "u64 \<Rightarrow> superblock io_result" where
  "superblock_new total_blocks =
     with_all_metadata_blocks total_blocks DEFAULT_JOURNAL_BLOCKS DEFAULT_INODE_BLOCKS DEFAULT_DIRECTORY_BLOCKS"

definition with_journal_blocks :: "u64 \<Rightarrow> u64 \<Rightarrow> superblock io_result" where
  "with_journal_blocks total_blocks journal =
     with_all_metadata_blocks total_blocks journal DEFAULT_INODE_BLOCKS DEFAULT_DIRECTORY_BLOCKS"

definition with_metadata_blocks :: "u64 \<Rightarrow> u64 \<Rightarrow> u64 \<Rightarrow> superblock io_result" where
  "with_metadata_blocks total_blocks journal inode =
     with_all_metadata_blocks total_blocks journal inode DEFAULT_DIRECTORY_BLOCKS"

text \<open>A \<open>Range<u64>\<close> is the list of its members in order; unchecked ends wrap.\<close>

definition journal_range :: "superblock \<Rightarrow> u64 list" where
  "journal_range sb = [sb_journal_start sb ..< add64 (sb_journal_start sb) (sb_journal_blocks sb)]"

definition allocation_range :: "superblock \<Rightarrow> u64 list" where
  "allocation_range sb =
     [sb_allocation_start sb ..< add64 (sb_allocation_start sb) (sb_allocation_blocks sb)]"

definition inode_range :: "superblock \<Rightarrow> u64 list" where
  "inode_range sb = [sb_inode_start sb ..< add64 (sb_inode_start sb) (sb_inode_blocks sb)]"

definition directory_range :: "superblock \<Rightarrow> u64 list" where
  "directory_range sb =
     [sb_directory_start sb ..< add64 (sb_directory_start sb) (sb_directory_blocks sb)]"

definition reserved_blocks :: "superblock \<Rightarrow> u64" where
  "reserved_blocks sb = add64 (sb_directory_start sb) (sb_directory_blocks sb)"

definition superblock_fields :: "superblock \<Rightarrow> (nat \<times> byte list) list" where
  "superblock_fields sb =
     [(0, SUPERBLOCK_MAGIC), (8, le_bytes 4 FORMAT_VERSION), (12, le_bytes 4 FORMAT_BLOCK_SIZE),
      (16, le_bytes 8 (sb_total_blocks sb)), (24, le_bytes 8 (sb_journal_start sb)),
      (32, le_bytes 8 (sb_journal_blocks sb)), (40, le_bytes 8 (sb_allocation_start sb)),
      (48, le_bytes 8 (sb_allocation_blocks sb)), (56, le_bytes 8 (sb_inode_start sb)),
      (64, le_bytes 8 (sb_inode_blocks sb)), (72, le_bytes 8 (sb_directory_start sb)),
      (80, le_bytes 8 (sb_directory_blocks sb))]"

definition superblock_encode :: "superblock \<Rightarrow> byte list" where
  "superblock_encode sb = put_fields (superblock_fields sb) (zeroes BLOCK_SIZE)"

definition superblock_decode :: "byte list \<Rightarrow> superblock io_result" where
  "superblock_decode block =
     (if get_bytes 0 8 block \<noteq> SUPERBLOCK_MAGIC then Inl InvalidData
      else if read_u32 block 8 \<noteq> FORMAT_VERSION then Inl InvalidData
      else if read_u32 block 12 \<noteq> FORMAT_BLOCK_SIZE \<or> read_u32 block 12 \<noteq> BLOCK_SIZE_U64
        then Inl InvalidData
      else
        (let total_blocks = read_u64 block 16; journal_start = read_u64 block 24;
             journal = read_u64 block 32; allocation_start = read_u64 block 40;
             allocation = read_u64 block 48; inode_start = read_u64 block 56;
             inode = read_u64 block 64; directory_start = read_u64 block 72;
             directory = read_u64 block 80 in
         if journal_start \<noteq> SUPERBLOCK_BLOCK + 1 \<or> journal = 0 then Inl InvalidData
         else if inode = 0 then Inl InvalidData
         else if directory = 0 then Inl InvalidData
         else
         res_bind (ok_or InvalidData (checked_add journal_start journal)) (\<lambda>expected_allocation_start.
         if allocation_start \<noteq> expected_allocation_start then Inl InvalidData else
         res_bind (map_err (\<lambda>_. InvalidData) (required_allocation_blocks total_blocks)) (\<lambda>expected_allocation_blocks.
         if allocation \<noteq> expected_allocation_blocks then Inl InvalidData else
         res_bind (ok_or InvalidData (checked_add allocation_start allocation)) (\<lambda>expected_inode_start.
         if inode_start \<noteq> expected_inode_start then Inl InvalidData else
         res_bind (ok_or InvalidData (checked_add inode_start inode)) (\<lambda>expected_directory_start.
         if directory_start \<noteq> expected_directory_start then Inl InvalidData else
         res_bind (ok_or InvalidData (checked_add directory_start directory)) (\<lambda>metadata_end.
         if total_blocks < metadata_end then Inl InvalidData
         else if \<not> all_zero (drop SB_HEADER_LEN block) then Inl InvalidData
         else Inr \<lparr>sb_total_blocks = total_blocks, sb_journal_start = journal_start,
                   sb_journal_blocks = journal, sb_allocation_start = allocation_start,
                   sb_allocation_blocks = allocation, sb_inode_start = inode_start,
                   sb_inode_blocks = inode, sb_directory_start = directory_start,
                   sb_directory_blocks = directory\<rparr>)))))))"

definition read_superblock :: "'d block_device \<Rightarrow> ('d, superblock) dev_io" where
  "read_superblock D =
     io_bind (read_block D SUPERBLOCK_BLOCK) (\<lambda>block.
     io_bind (io_lift (superblock_decode block)) (\<lambda>sb.
     io_bind (io_count D) (\<lambda>count.
     if sb_total_blocks sb \<noteq> count then io_fail InvalidData else io_return sb)))"

section \<open>Accepted geometry\<close>

definition geometry_ok :: "superblock \<Rightarrow> bool" where
  "geometry_ok sb \<longleftrightarrow>
     sb_journal_start sb = 1 \<and> 0 < sb_journal_blocks sb \<and>
     sb_allocation_start sb = sb_journal_start sb + sb_journal_blocks sb \<and>
     required_allocation_blocks (sb_total_blocks sb) = Inr (sb_allocation_blocks sb) \<and>
     sb_inode_start sb = sb_allocation_start sb + sb_allocation_blocks sb \<and> 0 < sb_inode_blocks sb \<and>
     sb_directory_start sb = sb_inode_start sb + sb_inode_blocks sb \<and> 0 < sb_directory_blocks sb \<and>
     sb_directory_start sb + sb_directory_blocks sb \<le> sb_total_blocks sb \<and>
     sb_total_blocks sb < U64_LIMIT"

lemma required_allocation_blocks_Inr:
  assumes "required_allocation_blocks total_blocks = Inr n"
  shows "n = (32 + (total_blocks + 7) div 8 + 4095) div 4096" and "0 < n"
    and "32 + (total_blocks + 7) div 8 \<le> n * BLOCK_SIZE"
  using assms
  by (auto simp: required_allocation_blocks_def allocation_bitmap_bytes_def res_bind_Inr
      BLOCK_SIZE_U64_def BLOCK_SIZE_def ALLOCATION_IMAGE_HEADER_LEN_def)

lemma geometry_okD:
  assumes "geometry_ok sb"
  shows "sb_journal_start sb = 1" "0 < sb_journal_blocks sb" "0 < sb_inode_blocks sb"
    "0 < sb_directory_blocks sb" "0 < sb_allocation_blocks sb"
    "sb_allocation_start sb = 1 + sb_journal_blocks sb"
    "sb_inode_start sb = sb_allocation_start sb + sb_allocation_blocks sb"
    "sb_directory_start sb = sb_inode_start sb + sb_inode_blocks sb"
    "sb_directory_start sb + sb_directory_blocks sb \<le> sb_total_blocks sb"
    "sb_total_blocks sb < U64_LIMIT"
  using assms required_allocation_blocks_Inr(2) by (auto simp: geometry_ok_def)

lemma geometry_ranges:
  assumes "geometry_ok sb"
  shows "journal_range sb = [1 ..< sb_allocation_start sb]"
    "allocation_range sb = [sb_allocation_start sb ..< sb_inode_start sb]"
    "inode_range sb = [sb_inode_start sb ..< sb_directory_start sb]"
    "directory_range sb = [sb_directory_start sb ..< reserved_blocks sb]"
    "reserved_blocks sb = sb_directory_start sb + sb_directory_blocks sb"
    "reserved_blocks sb \<le> sb_total_blocks sb"
  using geometry_okD [OF assms]
  by (auto simp: journal_range_def allocation_range_def inode_range_def directory_range_def
      reserved_blocks_def add64_exact)

lemma geometry_order:
  assumes "geometry_ok sb"
  shows "1 < sb_allocation_start sb" "sb_allocation_start sb < sb_inode_start sb"
    "sb_inode_start sb < sb_directory_start sb" "sb_directory_start sb < reserved_blocks sb"
    "reserved_blocks sb \<le> sb_total_blocks sb"
  using geometry_okD [OF assms] geometry_ranges [OF assms] by auto

lemma with_all_metadata_blocks_ok:
  assumes "with_all_metadata_blocks total_blocks j i dr = Inr sb" and "total_blocks < U64_LIMIT"
  shows "geometry_ok sb" and "sb_total_blocks sb = total_blocks" and "sb_journal_blocks sb = j"
    and "sb_inode_blocks sb = i" and "sb_directory_blocks sb = dr"
  using assms
  by (auto simp: with_all_metadata_blocks_def geometry_ok_def SUPERBLOCK_BLOCK_def Let_def res_bind_Inr
      split: if_splits)

section \<open>The codec\<close>

lemma length_magic [simp]: "length SUPERBLOCK_MAGIC = 8"
  by (simp add: SUPERBLOCK_MAGIC_def)

lemma superblock_encode_alt:
  "superblock_encode sb = concat (map snd (superblock_fields sb)) @ zeroes (BLOCK_SIZE - SB_HEADER_LEN)"
proof -
  have "contiguous (length ([] :: byte list)) (superblock_fields sb)"
    by (simp add: superblock_fields_def)
  moreover have "length (concat (map snd (superblock_fields sb))) = SB_HEADER_LEN"
    by (simp add: superblock_fields_def SB_HEADER_LEN_def)
  ultimately show ?thesis
    using put_fields_contiguous [of "[]" "superblock_fields sb" BLOCK_SIZE]
    by (simp add: superblock_encode_def BLOCK_SIZE_def SB_HEADER_LEN_def)
qed

lemma length_superblock_encode [simp]: "length (superblock_encode sb) = BLOCK_SIZE"
  unfolding superblock_encode_alt
  by (simp add: superblock_fields_def SB_HEADER_LEN_def BLOCK_SIZE_def)

lemma superblock_encode_get:
  "get_bytes 0 8 (superblock_encode sb) = SUPERBLOCK_MAGIC"
  "get_bytes 8 4 (superblock_encode sb) = le_bytes 4 FORMAT_VERSION"
  "get_bytes 12 4 (superblock_encode sb) = le_bytes 4 FORMAT_BLOCK_SIZE"
  "get_bytes 16 8 (superblock_encode sb) = le_bytes 8 (sb_total_blocks sb)"
  "get_bytes 24 8 (superblock_encode sb) = le_bytes 8 (sb_journal_start sb)"
  "get_bytes 32 8 (superblock_encode sb) = le_bytes 8 (sb_journal_blocks sb)"
  "get_bytes 40 8 (superblock_encode sb) = le_bytes 8 (sb_allocation_start sb)"
  "get_bytes 48 8 (superblock_encode sb) = le_bytes 8 (sb_allocation_blocks sb)"
  "get_bytes 56 8 (superblock_encode sb) = le_bytes 8 (sb_inode_start sb)"
  "get_bytes 64 8 (superblock_encode sb) = le_bytes 8 (sb_inode_blocks sb)"
  "get_bytes 72 8 (superblock_encode sb) = le_bytes 8 (sb_directory_start sb)"
  "get_bytes 80 8 (superblock_encode sb) = le_bytes 8 (sb_directory_blocks sb)"
  "drop SB_HEADER_LEN (superblock_encode sb) = zeroes (BLOCK_SIZE - SB_HEADER_LEN)"
  by (simp_all add: superblock_encode_alt superblock_fields_def get_bytes_def SB_HEADER_LEN_def)

lemma superblock_decode_encode:
  assumes "geometry_ok sb"
  shows "superblock_decode (superblock_encode sb) = Inr sb"
proof -
  note g = geometry_okD [OF assms]
  have "required_allocation_blocks (sb_total_blocks sb) = Inr (sb_allocation_blocks sb)"
    using assms by (simp add: geometry_ok_def)
  then show ?thesis using g
    by (simp add: superblock_decode_def superblock_encode_get read_defs Let_def checked_add_def
        map_err_def FORMAT_VERSION_def FORMAT_BLOCK_SIZE_def BLOCK_SIZE_U64_def BLOCK_SIZE_def
        SUPERBLOCK_BLOCK_def)
qed

lemma superblock_decode_geometry:
  assumes "superblock_decode block = Inr sb"
  shows "geometry_ok sb"
  using assms read_u64_bound [of block 16]
  by (auto simp: superblock_decode_def geometry_ok_def Let_def res_bind_Inr SUPERBLOCK_BLOCK_def
      split: if_splits)

lemma superblock_split:
  assumes "length block = BLOCK_SIZE"
  shows "block = get_bytes 0 8 block @ get_bytes 8 4 block @ get_bytes 12 4 block @
    get_bytes 16 8 block @ get_bytes 24 8 block @ get_bytes 32 8 block @ get_bytes 40 8 block @
    get_bytes 48 8 block @ get_bytes 56 8 block @ get_bytes 64 8 block @ get_bytes 72 8 block @
    get_bytes 80 8 block @ drop SB_HEADER_LEN block"
proof -
  have "block = drop 0 block" by simp
  also have "\<dots> = get_bytes 0 8 block @ drop 8 block" using get_bytes_drop [of 0 block 8] by simp
  also have "drop 8 block = get_bytes 8 4 block @ drop 12 block" using get_bytes_drop [of 8 block 4] by simp
  also have "drop 12 block = get_bytes 12 4 block @ drop 16 block" using get_bytes_drop [of 12 block 4] by simp
  also have "drop 16 block = get_bytes 16 8 block @ drop 24 block" using get_bytes_drop [of 16 block 8] by simp
  also have "drop 24 block = get_bytes 24 8 block @ drop 32 block" using get_bytes_drop [of 24 block 8] by simp
  also have "drop 32 block = get_bytes 32 8 block @ drop 40 block" using get_bytes_drop [of 32 block 8] by simp
  also have "drop 40 block = get_bytes 40 8 block @ drop 48 block" using get_bytes_drop [of 40 block 8] by simp
  also have "drop 48 block = get_bytes 48 8 block @ drop 56 block" using get_bytes_drop [of 48 block 8] by simp
  also have "drop 56 block = get_bytes 56 8 block @ drop 64 block" using get_bytes_drop [of 56 block 8] by simp
  also have "drop 64 block = get_bytes 64 8 block @ drop 72 block" using get_bytes_drop [of 64 block 8] by simp
  also have "drop 72 block = get_bytes 72 8 block @ drop 80 block" using get_bytes_drop [of 72 block 8] by simp
  also have "drop 80 block = get_bytes 80 8 block @ drop 88 block" using get_bytes_drop [of 80 block 8] by simp
  finally show ?thesis by (simp add: SB_HEADER_LEN_def)
qed

text \<open>Only the canonical encoding of a superblock is accepted.\<close>

lemma superblock_encode_decode:
  assumes "superblock_decode block = Inr sb" and "length block = BLOCK_SIZE"
  shows "superblock_encode sb = block"
proof -
  from assms(1) have
    head: "get_bytes 0 8 block = SUPERBLOCK_MAGIC" "read_u32 block 8 = FORMAT_VERSION"
      "read_u32 block 12 = FORMAT_BLOCK_SIZE" "all_zero (drop SB_HEADER_LEN block)"
    and sb: "sb = \<lparr>sb_total_blocks = read_u64 block 16, sb_journal_start = read_u64 block 24,
        sb_journal_blocks = read_u64 block 32, sb_allocation_start = read_u64 block 40,
        sb_allocation_blocks = read_u64 block 48, sb_inode_start = read_u64 block 56,
        sb_inode_blocks = read_u64 block 64, sb_directory_start = read_u64 block 72,
        sb_directory_blocks = read_u64 block 80\<rparr>"
    by (auto simp: superblock_decode_def Let_def res_bind_Inr split: if_splits)
  have v: "le_bytes 4 FORMAT_VERSION = get_bytes 8 4 block" "le_bytes 4 FORMAT_BLOCK_SIZE = get_bytes 12 4 block"
    using le_bytes_read_u32 [of 8 block] le_bytes_read_u32 [of 12 block] head assms(2)
    by (simp_all add: BLOCK_SIZE_def)
  have z: "drop SB_HEADER_LEN block = zeroes (BLOCK_SIZE - SB_HEADER_LEN)"
    using head(4) assms(2) by (simp add: all_zero_eq)
  show ?thesis
    unfolding superblock_encode_alt z [symmetric]
    by (rule trans [OF _ superblock_split [OF assms(2), symmetric]])
      (simp add: superblock_fields_def sb le_bytes_read_u64 assms(2) BLOCK_SIZE_def v head(1))
qed

end
