(* ===== verification/Journal_Codec.thy ===== *)
theory Journal_Codec
  imports Journal Format
begin

text \<open>
  The persistent journal records of \<open>journal_codec.rs\<close>: a 32-byte header per entry, one block
  of payload for a write, and a CRC over the record. The decoder is a loop over a cursor; it is
  total because every accepted record advances the cursor by at least the header.
\<close>

definition RECORD_MAGIC :: "byte list" where "RECORD_MAGIC = ascii ''JNL1''"
definition RECORD_VERSION :: nat where "RECORD_VERSION = 1"
definition HEADER_SIZE :: nat where "HEADER_SIZE = 32"
definition CHECKSUM_OFFSET :: nat where "CHECKSUM_OFFSET = 28"
definition KIND_BEGIN :: byte where "KIND_BEGIN = 1"
definition KIND_WRITE :: byte where "KIND_WRITE = 2"
definition KIND_COMMIT :: byte where "KIND_COMMIT = 3"

fun record_parts :: "journal_entry \<Rightarrow> byte \<times> transaction_id \<times> u64 \<times> byte list" where
  "record_parts (Begin txid) = (KIND_BEGIN, txid, 0, [])"
| "record_parts (Write txid block data) = (KIND_WRITE, txid, block, data)"
| "record_parts (Commit txid) = (KIND_COMMIT, txid, 0, [])"

definition encode_record :: "journal_entry \<Rightarrow> byte list io_result" where
  "encode_record entry =
     (let (kind, txid, block, payload) = record_parts entry in
      res_bind (ok_or InvalidInput (checked_add HEADER_SIZE (length payload))) (\<lambda>record_len.
      if \<not> record_len < U32_LIMIT then Inl InvalidInput else
      let encoded = RECORD_MAGIC @ le_bytes 2 RECORD_VERSION @ [kind] @ [0] @ le_bytes 4 record_len @
            le_bytes 8 txid @ le_bytes 8 block @ le_bytes 4 0 @ payload;
          checksum = crc32 encoded in
      Inr (put_bytes CHECKSUM_OFFSET (le_bytes 4 (unat checksum)) encoded)))"

definition encode_entries :: "journal_entry list \<Rightarrow> byte list io_result" where
  "encode_entries entries =
     res_fold (\<lambda>entry encoded. res_bind (encode_record entry) (\<lambda>record. Inr (encoded @ record))) entries []"

definition require_control_record :: "u64 \<Rightarrow> byte list \<Rightarrow> unit io_result" where
  "require_control_record block payload =
     (if block \<noteq> 0 then Inl InvalidData else if payload \<noteq> [] then Inl InvalidData else Inr ())"

definition decode_record :: "byte list \<Rightarrow> nat \<Rightarrow> (journal_entry \<times> nat) io_result" where
  "decode_record bytes cursor =
     (let remaining = length bytes - cursor in
      if remaining < HEADER_SIZE then Inl InvalidData else
      let header = get_bytes cursor HEADER_SIZE bytes in
      if get_bytes 0 4 header \<noteq> RECORD_MAGIC then Inl InvalidData
      else if read_u16 header 4 \<noteq> RECORD_VERSION then Inl InvalidData
      else
      let kind = header ! 6 in
      if header ! 7 \<noteq> 0 then Inl InvalidData else
      let record_len = read_u32 header 8 in
      if record_len < HEADER_SIZE then Inl InvalidData else
      res_bind (ok_or InvalidData (checked_add cursor record_len)) (\<lambda>end.
      if end > length bytes then Inl InvalidData else
      let txid = read_u64 header 12; block = read_u64 header 20; expected_checksum = read_u32 header 28;
          record = put_bytes CHECKSUM_OFFSET (zeroes 4) (get_bytes cursor (end - cursor) bytes) in
      if unat (crc32 record) \<noteq> expected_checksum then Inl InvalidData else
      let payload = get_bytes (cursor + HEADER_SIZE) (end - (cursor + HEADER_SIZE)) bytes in
      if kind = KIND_BEGIN then
        res_bind (require_control_record block payload) (\<lambda>_. Inr (Begin txid, end))
      else if kind = KIND_WRITE then
        (if length payload \<noteq> BLOCK_SIZE then Inl InvalidData else Inr (Write txid block payload, end))
      else if kind = KIND_COMMIT then
        res_bind (require_control_record block payload) (\<lambda>_. Inr (Commit txid, end))
      else Inl InvalidData))"

lemma decode_record_end:
  "decode_record bytes cursor = Inr (e, end) \<Longrightarrow> cursor + 32 \<le> end \<and> end \<le> length bytes"
  by (auto simp: decode_record_def Let_def res_bind_Inr HEADER_SIZE_def split: if_splits)

function decode_entries_from :: "byte list \<Rightarrow> nat \<Rightarrow> journal_entry list \<Rightarrow> journal_entry list io_result" where
  "decode_entries_from bytes cursor entries =
     (if cursor < length bytes then
        (case decode_record bytes cursor of
           Inl e \<Rightarrow> Inl e
         | Inr (entry, end) \<Rightarrow> decode_entries_from bytes end (entries @ [entry]))
      else Inr entries)"
  by pat_completeness auto
termination
  by (relation "measure (\<lambda>(bytes, cursor, entries). length bytes - cursor)")
    (auto dest!: decode_record_end)

declare decode_entries_from.simps [simp del]

definition decode_entries :: "byte list \<Rightarrow> journal_entry list io_result" where
  "decode_entries bytes = decode_entries_from bytes 0 []"

section \<open>Round trip\<close>

fun entry_ok :: "journal_entry \<Rightarrow> bool" where
  "entry_ok (Begin t) \<longleftrightarrow> t < U64_LIMIT"
| "entry_ok (Write t b d) \<longleftrightarrow> t < U64_LIMIT \<and> b < U64_LIMIT \<and> length d = BLOCK_SIZE"
| "entry_ok (Commit t) \<longleftrightarrow> t < U64_LIMIT"

fun entry_size :: "journal_entry \<Rightarrow> nat" where
  "entry_size (Write t b d) = 32 + BLOCK_SIZE"
| "entry_size _ = 32"

definition record_layout :: "journal_entry \<Rightarrow> byte list \<Rightarrow> byte list" where
  "record_layout e c =
     (let (kind, txid, block, payload) = record_parts e in
      RECORD_MAGIC @ le_bytes 2 RECORD_VERSION @ [kind] @ [0] @ le_bytes 4 (32 + length payload) @
      le_bytes 8 txid @ le_bytes 8 block @ c @ payload)"

lemma length_record_magic [simp]: "length RECORD_MAGIC = 4"
  by (simp add: RECORD_MAGIC_def)

lemma le_bytes_zero: "le_bytes k 0 = zeroes k"
  by (induction k) (simp_all add: zeroes_def)

lemma encode_record_layout:
  assumes "entry_ok e"
  shows "encode_record e = Inr (record_layout e (le_bytes 4 (unat (crc32 (record_layout e (zeroes 4))))))"
proof -
  obtain k t b p where parts: "record_parts e = (k, t, b, p)" by (cases e) auto
  with assms have "32 + length p < U32_LIMIT" by (cases e) (auto simp: BLOCK_SIZE_def)
  then show ?thesis
    by (simp add: encode_record_def record_layout_def parts HEADER_SIZE_def CHECKSUM_OFFSET_def checked_add_def
        Let_def put_bytes_def le_bytes_zero)
qed

lemma record_layout_length: "entry_ok e \<Longrightarrow> length c = 4 \<Longrightarrow> length (record_layout e c) = entry_size e"
  by (cases e) (simp_all add: record_layout_def)

lemma record_layout_get:
  assumes "length c = 4" and "record_parts e = (k, t, b, p)"
  shows "get_bytes 0 4 (record_layout e c @ post) = RECORD_MAGIC"
    "get_bytes 4 2 (record_layout e c @ post) = le_bytes 2 RECORD_VERSION"
    "(record_layout e c @ post) ! 6 = k" "(record_layout e c @ post) ! 7 = 0"
    "get_bytes 8 4 (record_layout e c @ post) = le_bytes 4 (32 + length p)"
    "get_bytes 12 8 (record_layout e c @ post) = le_bytes 8 t"
    "get_bytes 20 8 (record_layout e c @ post) = le_bytes 8 b"
    "get_bytes 28 4 (record_layout e c @ post) = c"
    "get_bytes 32 (length p) (record_layout e c @ post) = p"
  using assms by (simp_all add: record_layout_def get_bytes_def nth_append)

lemma record_layout_whole:
  assumes "length c = 4" and "record_parts e = (k, t, b, p)"
  shows "length (record_layout e c) = 32 + length p"
    and "put_bytes 28 (zeroes 4) (record_layout e c) = record_layout e (zeroes 4)"
  using assms by (simp_all add: record_layout_def put_bytes_def)

lemma get_bytes_shift: "get_bytes (length pre + k) n (pre @ bs) = get_bytes k n bs"
  by (simp add: get_bytes_def)

lemma get_bytes_inner: "k + n \<le> m \<Longrightarrow> get_bytes k n (get_bytes 0 m bs) = get_bytes k n bs"
  by (simp add: get_bytes_def drop_take min_def)

lemma nth_get_bytes: "k < m \<Longrightarrow> m \<le> length bs \<Longrightarrow> get_bytes 0 m bs ! k = bs ! k"
  by (simp add: get_bytes_def)

lemma decode_record_encode:
  assumes "encode_record e = Inr r" and "entry_ok e" and "length (pre @ r @ post) < U64_LIMIT"
  shows "decode_record (pre @ r @ post) (length pre) = Inr (e, length pre + length r)"
proof -
  obtain k t b p where parts: "record_parts e = (k, t, b, p)" by (cases e) auto
  define c where "c = le_bytes 4 (unat (crc32 (record_layout e (zeroes 4))))"
  from assms(1) have r: "r = record_layout e c" using encode_record_layout [OF assms(2)] by (simp add: c_def)
  have c: "length c = 4" by (simp add: c_def)
  note w = record_layout_whole [OF c parts]
  have len: "length r = 32 + length p" by (simp add: r w)
  have p: "32 + length p < U32_LIMIT" using assms(2) parts by (cases e) (auto simp: BLOCK_SIZE_def)
  note g = record_layout_get [OF c parts, of post]
  define h where "h = get_bytes (length pre) 32 (pre @ r @ post)"
  have h: "h = get_bytes 0 32 (record_layout e c @ post)"
    unfolding h_def using get_bytes_shift [of pre 0 32 "r @ post"] by (simp add: r)
  have tb: "t < U64_LIMIT" "b < U64_LIMIT" using assms(2) parts by (cases e; auto)+
  have fields: "get_bytes 0 4 h = RECORD_MAGIC" "read_u16 h 4 = RECORD_VERSION" "h ! 6 = k" "h ! 7 = 0"
    "read_u32 h 8 = 32 + length p" "read_u64 h 12 = t" "read_u64 h 20 = b"
    "read_u32 h 28 = unat (crc32 (record_layout e (zeroes 4)))"
    using p tb by (simp_all add: h read_defs get_bytes_inner nth_get_bytes g w RECORD_VERSION_def c_def [symmetric])
      (simp_all add: c_def)
  have rec: "get_bytes (length pre) (32 + length p) (pre @ r @ post) = r"
    using get_bytes_shift [of pre 0 "32 + length p" "r @ post"] len by (simp add: get_bytes_def)
  have pay: "get_bytes (length pre + 32) (length p) (pre @ r @ post) = p"
    using get_bytes_shift [of pre 32 "length p" "r @ post"] g(9) by (simp add: r)
  have put: "put_bytes 28 (zeroes 4) r = record_layout e (zeroes 4)" by (simp add: r w)
  have "decode_record (pre @ r @ post) (length pre) =
      (if k = KIND_BEGIN then res_bind (require_control_record b p) (\<lambda>_. Inr (Begin t, length pre + length r))
       else if k = KIND_WRITE then (if length p \<noteq> BLOCK_SIZE then Inl InvalidData else Inr (Write t b p, length pre + length r))
       else if k = KIND_COMMIT then res_bind (require_control_record b p) (\<lambda>_. Inr (Commit t, length pre + length r))
       else Inl InvalidData)"
    using assms(3) len
    by (simp add: decode_record_def HEADER_SIZE_def CHECKSUM_OFFSET_def h_def [symmetric] fields rec pay put
        checked_add_def Let_def)
  with parts assms(2) show ?thesis
    by (cases e) (auto simp: KIND_BEGIN_def KIND_WRITE_def KIND_COMMIT_def require_control_record_def)
qed

definition entries_bytes :: "journal_entry list \<Rightarrow> byte list" where
  "entries_bytes es = concat (map (\<lambda>e. record_layout e (le_bytes 4 (unat (crc32 (record_layout e (zeroes 4)))))) es)"

lemma encode_entries_ok:
  assumes "\<forall>e \<in> set es. entry_ok e"
  shows "encode_entries es = Inr (entries_bytes es)"
proof -
  have "res_fold (\<lambda>entry encoded. res_bind (encode_record entry) (\<lambda>record. Inr (encoded @ record))) es acc
      = Inr (acc @ entries_bytes es)" for acc
    using assms by (induction es arbitrary: acc) (simp_all add: encode_record_layout entries_bytes_def)
  from this [of "[]"] show ?thesis by (simp add: encode_entries_def)
qed

lemma length_entries_bytes:
  "\<forall>e \<in> set es. entry_ok e \<Longrightarrow> length (entries_bytes es) = sum_list (map entry_size es)"
  by (induction es) (simp_all add: entries_bytes_def record_layout_length)

lemma decode_entries_from_bytes:
  assumes "\<forall>e \<in> set es. entry_ok e" and "length (pre @ entries_bytes es) < U64_LIMIT"
  shows "decode_entries_from (pre @ entries_bytes es) (length pre) acc = Inr (acc @ es)"
  using assms
proof (induction es arbitrary: pre acc)
  case Nil
  then show ?case by (simp add: entries_bytes_def decode_entries_from.simps)
next
  case (Cons e es)
  then obtain r where r: "encode_record e = Inr r" and eb: "entries_bytes (e # es) = r @ entries_bytes es"
    by (simp add: encode_record_layout entries_bytes_def)
  have "decode_record (pre @ r @ entries_bytes es) (length pre) = Inr (e, length (pre @ r))"
    using decode_record_encode [OF r] Cons.prems eb by simp
  moreover have "0 < length r"
    using r encode_record_layout [of e] record_layout_length [of e] Cons.prems(1) by (cases e) auto
  ultimately show ?case
    using Cons.IH [of "pre @ r" "acc @ [e]"] Cons.prems eb
    by (subst decode_entries_from.simps) simp
qed

lemma decode_encode_entries:
  assumes "\<forall>e \<in> set es. entry_ok e" and "length (entries_bytes es) < U64_LIMIT"
  shows "decode_entries (entries_bytes es) = Inr es"
  using decode_entries_from_bytes [of es "[]" "[]"] assms by (simp add: decode_entries_def)

lemma decode_record_ok:
  assumes "decode_record bytes cursor = Inr (e, end)"
  shows "entry_ok e"
  using assms read_u64_bound
  by (auto simp: decode_record_def Let_def res_bind_Inr split: if_splits)

lemma decode_entries_from_ok:
  "decode_entries_from bytes cursor acc = Inr es \<Longrightarrow> \<forall>e \<in> set acc. entry_ok e \<Longrightarrow> \<forall>e \<in> set es. entry_ok e"
proof (induction bytes cursor acc rule: decode_entries_from.induct)
  case (1 bytes cursor acc)
  show ?case
  proof (cases "cursor < length bytes")
    case True
    with 1(2) obtain e en where d: "decode_record bytes cursor = Inr (e, en)"
      and "decode_entries_from bytes en (acc @ [e]) = Inr es"
      by (subst (asm) decode_entries_from.simps) (auto split: sum.splits)
    moreover have "\<forall>x \<in> set (acc @ [e]). entry_ok x" using 1(3) decode_record_ok [OF d] by simp
    ultimately show ?thesis using 1(1) [OF True d refl] by blast
  qed (use 1 in \<open>simp add: decode_entries_from.simps\<close>)
qed

lemma decode_entries_ok: "decode_entries bytes = Inr es \<Longrightarrow> \<forall>e \<in> set es. entry_ok e"
  using decode_entries_from_ok [of bytes 0 "[]" es] by (simp add: decode_entries_def)

lemma decode_entries_from_length:
  "decode_entries_from bytes cursor acc = Inr es \<Longrightarrow> cursor \<le> length bytes \<Longrightarrow>
     cursor + 32 * length es \<le> length bytes + 32 * length acc"
proof (induction bytes cursor acc rule: decode_entries_from.induct)
  case (1 bytes cursor acc)
  show ?case
  proof (cases "cursor < length bytes")
    case True
    with 1(2) obtain e en where d: "decode_record bytes cursor = Inr (e, en)"
      and "decode_entries_from bytes en (acc @ [e]) = Inr es"
      by (subst (asm) decode_entries_from.simps) (auto split: sum.splits)
    with 1(1) [OF True d refl] decode_record_end [OF d] show ?thesis by simp
  qed (use 1 in \<open>simp add: decode_entries_from.simps\<close>)
qed

lemma decode_entries_length: "decode_entries bytes = Inr es \<Longrightarrow> 32 * length es \<le> length bytes"
  using decode_entries_from_length [of bytes 0 "[]" es] by (simp add: decode_entries_def)

end
