(* ===== verification/Device_Sim.thy ===== *)
theory Device_Sim
  imports Block_Device
begin

text \<open>
  Reference devices and the simulation that reduces reasoning about an arbitrary device to
  reasoning about them.

  \<^item> \<open>mem_device n\<close>: \<open>n\<close> blocks in memory, the state is the block contents themselves.
  \<^item> \<open>trace_device n\<close>: the same, which also records the writes and flushes it receives. The
    states a crash can leave behind are read off the recorded trace: every write before the last
    flush is durable, and of the writes after it any subset (\<open>crash_disks\<close>). This is the
    repository's whole-block crash model.

  \<open>dev_sim\<close> relates a computation on a device to the same computation on another; its rules
  follow the structure of programs, so each operation of the source is shown to behave on every
  reliable device as it does in memory.
\<close>

named_theorems quiet_intros \<open>computations that leave the device unchanged\<close>

type_synonym disk = "u64 \<Rightarrow> byte list"

definition mem_device :: "u64 \<Rightarrow> disk block_device" where
  "mem_device n =
     \<lparr>block_count = \<lambda>_. n,
      read_block = \<lambda>b v. if b < n then (Inr (v b), v) else (Inl UnexpectedEof, v),
      write_block = \<lambda>b bs v. if b < n then (Inr (), v(b := bs)) else (Inl UnexpectedEof, v),
      flush = \<lambda>v. (Inr (), v)\<rparr>"

definition disk_ok :: "u64 \<Rightarrow> disk \<Rightarrow> bool" where
  "disk_ok n v \<longleftrightarrow> (\<forall>b < n. length (v b) = BLOCK_SIZE)"

datatype dev_event = WriteEv u64 "byte list" | FlushEv

definition trace_device :: "u64 \<Rightarrow> (disk \<times> dev_event list) block_device" where
  "trace_device n =
     \<lparr>block_count = \<lambda>_. n,
      read_block = \<lambda>b (v, tr). if b < n then (Inr (v b), v, tr) else (Inl UnexpectedEof, v, tr),
      write_block = \<lambda>b bs (v, tr). if b < n then (Inr (), v(b := bs), tr @ [WriteEv b bs])
                                   else (Inl UnexpectedEof, v, tr),
      flush = \<lambda>(v, tr). (Inr (), v, tr @ [FlushEv])\<rparr>"

section \<open>Crash states\<close>

definition write_all :: "disk \<Rightarrow> (u64 \<times> byte list) list \<Rightarrow> disk" where
  "write_all v ws = foldl (\<lambda>v (b, bs). v(b := bs)) v ws"

text \<open>The durable disk and the writes still pending after a trace.\<close>

fun run_trace :: "dev_event list \<Rightarrow> disk \<Rightarrow> (u64 \<times> byte list) list \<Rightarrow> disk \<times> (u64 \<times> byte list) list" where
  "run_trace [] v pending = (v, pending)"
| "run_trace (WriteEv b bs # tr) v pending = run_trace tr v (pending @ [(b, bs)])"
| "run_trace (FlushEv # tr) v pending = run_trace tr (write_all v pending) []"

definition settle :: "disk \<times> (u64 \<times> byte list) list \<Rightarrow> disk set" where
  "settle s = write_all (fst s) ` set (subseqs (snd s))"

definition crash_disks :: "disk \<Rightarrow> dev_event list \<Rightarrow> disk set" where
  "crash_disks v tr = (\<Union>k \<in> {..length tr}. settle (run_trace (take k tr) v []))"

lemma write_all_simps [simp]:
  "write_all v [] = v"
  "write_all v ((b, bs) # ws) = write_all (v(b := bs)) ws"
  "write_all v (ws @ us) = write_all (write_all v ws) us"
  by (simp_all add: write_all_def)

lemma run_trace_append:
  "run_trace (tr @ us) v p = (case run_trace tr v p of (v', p') \<Rightarrow> run_trace us v' p')"
  by (induction tr v p rule: run_trace.induct) auto

lemma crash_disks_empty: "crash_disks v [] = {v}"
  by (simp add: crash_disks_def settle_def)

lemma crash_disks_append:
  "crash_disks v (tr @ us) = crash_disks v tr \<union>
     (\<Union>k \<in> {..length us}. settle (run_trace (tr @ take k us) v []))"
proof -
  have "{..length (tr @ us)} = {..length tr} \<union> (\<lambda>k. length tr + k) ` {..length us}"
    using image_add_atLeastAtMost [of "length tr" 0 "length us"]
    by (auto simp flip: atLeast0AtMost)
  moreover have "take k (tr @ us) = take k tr" if "k \<le> length tr" for k
    using that by simp
  ultimately show ?thesis by (simp add: crash_disks_def)
qed

text \<open>After a flush the trace starts afresh from the disk it left.\<close>

lemma crash_disks_flush:
  "crash_disks v (tr @ FlushEv # us) =
     crash_disks v tr \<union> crash_disks (fst (run_trace (tr @ [FlushEv]) v [])) us"
proof -
  obtain w where w: "run_trace (tr @ [FlushEv]) v [] = (w, [])"
    by (cases "run_trace tr v []") (simp add: run_trace_append)
  have 1: "run_trace (tr @ FlushEv # vs) v [] = run_trace vs w []" for vs
    using run_trace_append [of "tr @ [FlushEv]" vs v "[]"] w by simp
  have "(\<Union>k \<in> {..length (FlushEv # us)}. settle (run_trace (tr @ take k (FlushEv # us)) v []))
      = settle (run_trace tr v []) \<union> (\<Union>k \<in> {..length us}. settle (run_trace (take k us) w []))"
    by (simp add: 1 atMost_Suc_eq_insert_0)
  moreover have "settle (run_trace tr v []) \<subseteq> crash_disks v tr"
    by (force simp: crash_disks_def)
  ultimately show ?thesis unfolding crash_disks_append w fst_conv crash_disks_def [of w] by blast
qed

lemma run_trace_writes:
  "run_trace (map (\<lambda>(b, bs). WriteEv b bs) ws) v p = (v, p @ ws)"
  by (induction ws arbitrary: p) auto

lemma crash_disks_writes:
  "crash_disks v (map (\<lambda>(b, bs). WriteEv b bs) ws) = write_all v ` {us. \<exists>k \<le> length ws. us \<in> set (subseqs (take k ws))}"
  by (auto simp: crash_disks_def settle_def run_trace_writes take_map)

lemma crash_disks_writes_subseq:
  assumes "w \<in> crash_disks v (map (\<lambda>(b, bs). WriteEv b bs) ws)"
  obtains us where "w = write_all v us" and "set us \<subseteq> set ws"
proof -
  from assms obtain us k where "w = write_all v us" and "us \<in> set (subseqs (take k ws))"
    by (auto simp: crash_disks_writes)
  moreover have "set ` set (subseqs xs) = Pow (set xs)" for xs :: "(nat \<times> byte list) list"
    by (rule subseqs_powset)
  ultimately have "set us \<subseteq> set (take k ws)" by blast
  with \<open>w = write_all v us\<close> show thesis by (intro that) (auto dest: in_set_takeD)
qed

lemma crash_disks_one: "crash_disks v [WriteEv b bs] = {v, v(b := bs)}"
  by (auto simp: crash_disks_def settle_def atMost_Suc)

lemma crash_disks_write_flush: "crash_disks v [WriteEv b bs, FlushEv] = {v, v(b := bs)}"
  using crash_disks_flush [of v "[WriteEv b bs]" "[]"] by (auto simp: crash_disks_one crash_disks_empty)

lemma crash_disks_write_flush_more:
  "crash_disks v (WriteEv b bs # FlushEv # us) = insert v (insert (v(b := bs)) (crash_disks (v(b := bs)) us))"
  using crash_disks_flush [of v "[WriteEv b bs]" us] by (simp add: crash_disks_one)

lemma crash_disks_writes_flush:
  "crash_disks v (map (\<lambda>(b, bs). WriteEv b bs) ws @ FlushEv # us)
     = crash_disks v (map (\<lambda>(b, bs). WriteEv b bs) ws) \<union> crash_disks (write_all v ws) us"
  by (simp add: crash_disks_flush run_trace_append run_trace_writes)

lemma write_all_cases: "write_all v us b = v b \<or> (b, write_all v us b) \<in> set us"
proof (induction us arbitrary: v)
  case (Cons u us)
  obtain c bs where u: "u = (c, bs)" by fastforce
  from Cons [of "v(c := bs)"] show ?case
  proof
    assume "write_all (v(c := bs)) us b = (v(c := bs)) b"
    then show ?thesis by (cases "b = c") (simp_all add: u)
  next
    assume "(b, write_all (v(c := bs)) us b) \<in> set us"
    then show ?thesis by (simp only: u write_all_simps list.set insert_iff simp_thms)
  qed
qed simp

lemma write_all_other: "b \<notin> fst ` set us \<Longrightarrow> write_all v us b = v b"
  using write_all_cases [of v us b] by force

text \<open>Every block of a crash state is old or was written in full by the trace.\<close>

lemma run_trace_blocks:
  assumes "run_trace tr v p = (w, q)"
  shows "(w b = v b \<or> (b, w b) \<in> set p \<or> WriteEv b (w b) \<in> set tr) \<and>
    (\<forall>(c, bs) \<in> set q. (c, bs) \<in> set p \<or> WriteEv c bs \<in> set tr)"
  using assms
proof (induction tr v p rule: run_trace.induct)
  case (3 tr v p)
  have "write_all v p b = v b \<or> (b, write_all v p b) \<in> set p" by (rule write_all_cases)
  with 3 show ?case by fastforce
qed fastforce+

lemma crash_disks_blocks:
  assumes "w \<in> crash_disks v tr"
  shows "w b = v b \<or> WriteEv b (w b) \<in> set tr"
proof -
  from assms obtain k us where us: "us \<in> set (subseqs (snd (run_trace (take k tr) v [])))"
    and w: "w = write_all (fst (run_trace (take k tr) v [])) us"
    by (auto simp: crash_disks_def settle_def)
  obtain x q where r: "run_trace (take k tr) v [] = (x, q)" by fastforce
  have sub: "set us \<subseteq> set q" using us r subseqs_powset [of q] by auto
  note f = run_trace_blocks [OF r, of b]
  from write_all_cases [of x us b] show ?thesis
  proof
    assume "write_all x us b = x b"
    with w r f show ?thesis by (auto dest: in_set_takeD)
  next
    assume "(b, write_all x us b) \<in> set us"
    with w r f sub show ?thesis by (auto dest!: in_set_takeD)
  qed
qed

lemma crash_disks_ok:
  assumes "w \<in> crash_disks v tr" and "disk_ok n v" and "\<forall>b bs. WriteEv b bs \<in> set tr \<longrightarrow> length bs = BLOCK_SIZE"
  shows "disk_ok n w"
  using assms(2,3) crash_disks_blocks [OF assms(1)] by (metis disk_ok_def)

section \<open>Simulation\<close>

definition dev_sim ::
    "('d \<Rightarrow> bool) \<Rightarrow> ('d \<Rightarrow> 's) \<Rightarrow> ('a \<Rightarrow> bool) \<Rightarrow> ('d, 'a) dev_io \<Rightarrow> ('s, 'a) dev_io \<Rightarrow> bool" where
  "dev_sim P abst Q m m' \<longleftrightarrow>
     (\<forall>d. P d \<longrightarrow> (case m d of (r, d') \<Rightarrow> m' (abst d) = (r, abst d') \<and> P d' \<and> (\<forall>x. r = Inr x \<longrightarrow> Q x)))"

lemma dev_simD:
  assumes "dev_sim P abst Q m m'" and "P d" and "m d = (r, d')"
  shows "m' (abst d) = (r, abst d')" and "P d'" and "r = Inr x \<Longrightarrow> Q x"
  using assms by (auto simp: dev_sim_def)

lemma dev_sim_run:
  assumes "dev_sim P abst Q m m'" and "P d" and "m' (abst d) = (r, s)"
  obtains d' where "m d = (r, d')" and "abst d' = s" and "P d'"
  using assms by (cases "m d") (auto simp: dev_sim_def)

lemma sim_bind:
  assumes "dev_sim P abst Q m m'" and "\<And>x. Q x \<Longrightarrow> dev_sim P abst R (f x) (f' x)"
  shows "dev_sim P abst R (io_bind m f) (io_bind m' f')"
  unfolding dev_sim_def
proof (intro allI impI)
  fix d assume "P d"
  obtain r d1 where m: "m d = (r, d1)" by fastforce
  note s = dev_simD [OF assms(1) \<open>P d\<close> m]
  show "case io_bind m f d of (r, d') \<Rightarrow>
      io_bind m' f' (abst d) = (r, abst d') \<and> P d' \<and> (\<forall>x. r = Inr x \<longrightarrow> R x)"
  proof (cases r)
    case (Inr x)
    obtain r2 d2 where f: "f x d1 = (r2, d2)" by fastforce
    with dev_simD [OF assms(2) s(2) f] s(1,3) m Inr show ?thesis by (simp add: io_bind_def)
  qed (use s(1,2) m in \<open>simp add: io_bind_def\<close>)
qed

lemma sim_seq:
  assumes "dev_sim P abst Q m m'" and "dev_sim P abst R n n'"
  shows "dev_sim P abst R (io_seq m n) (io_seq m' n')"
  unfolding io_seq_def using assms by (intro sim_bind)

lemma sim_return: "Q x \<Longrightarrow> dev_sim P abst Q (io_return x) (io_return x)"
  by (simp add: dev_sim_def io_return_def)

lemma sim_fail: "dev_sim P abst Q (io_fail e) (io_fail e)"
  by (simp add: dev_sim_def io_fail_def)

lemma sim_lift: "(\<And>x. r = Inr x \<Longrightarrow> Q x) \<Longrightarrow> dev_sim P abst Q (io_lift r) (io_lift r)"
  by (simp add: dev_sim_def io_lift_def)

lemma sim_if:
  "(c \<Longrightarrow> dev_sim P abst Q m m') \<Longrightarrow> (\<not> c \<Longrightarrow> dev_sim P abst Q n n') \<Longrightarrow>
     dev_sim P abst Q (if c then m else n) (if c then m' else n')"
  by simp

lemma sim_when:
  "(c \<Longrightarrow> dev_sim P abst (\<lambda>_. True) m m') \<Longrightarrow> dev_sim P abst (\<lambda>_. True) (io_when c m) (io_when c m')"
  by (simp add: io_when_def sim_return)

lemma sim_option:
  "(opt = None \<Longrightarrow> dev_sim P abst Q m m') \<Longrightarrow> (\<And>x. opt = Some x \<Longrightarrow> dev_sim P abst Q (f x) (f' x)) \<Longrightarrow>
     dev_sim P abst Q (case opt of None \<Rightarrow> m | Some x \<Rightarrow> f x) (case opt of None \<Rightarrow> m' | Some x \<Rightarrow> f' x)"
  by (cases opt) auto

lemma sim_prod:
  "(\<And>x y. p = (x, y) \<Longrightarrow> dev_sim P abst Q (f x y) (f' x y)) \<Longrightarrow>
     dev_sim P abst Q (case p of (x, y) \<Rightarrow> f x y) (case p of (x, y) \<Rightarrow> f' x y)"
  by (cases p) auto

lemma sim_for:
  "(\<And>x. x \<in> set xs \<Longrightarrow> dev_sim P abst (\<lambda>_. True) (f x) (f' x)) \<Longrightarrow>
     dev_sim P abst (\<lambda>_. True) (io_for xs f) (io_for xs f')"
  by (induction xs) (auto intro!: sim_return sim_seq)

lemma sim_map:
  "(\<And>x. x \<in> set xs \<Longrightarrow> dev_sim P abst Q (f x) (f' x)) \<Longrightarrow>
     dev_sim P abst (\<lambda>ys. length ys = length xs \<and> (\<forall>y \<in> set ys. Q y)) (io_map xs f) (io_map xs f')"
proof (induction xs)
  case (Cons x xs)
  then show ?case
    by (auto intro!: sim_bind [where Q = Q] sim_bind [where Q = "\<lambda>ys. length ys = length xs \<and> (\<forall>y \<in> set ys. Q y)"]
        sim_return)
qed (auto intro!: sim_return)

lemma sim_true: "dev_sim P abst Q m m' \<Longrightarrow> dev_sim P abst (\<lambda>_. True) m m'"
  by (auto simp: dev_sim_def split: prod.splits)

lemma sim_post: "dev_sim P abst Q m m' \<Longrightarrow> (\<And>x. Q x \<Longrightarrow> R x) \<Longrightarrow> dev_sim P abst R m m'"
  by (auto simp: dev_sim_def split: prod.splits)

lemma sim_bind_lift:
  "(\<And>x. r = Inr x \<Longrightarrow> dev_sim P abst R (f x) (f' x)) \<Longrightarrow>
     dev_sim P abst R (io_bind (io_lift r) f) (io_bind (io_lift r) f')"
  by (cases r) (auto simp: dev_sim_def io_lift_def)

lemma sim_bind_map:
  assumes "\<And>x. x \<in> set xs \<Longrightarrow> dev_sim P abst Q (g x) (g' x)"
    and "\<And>ys. length ys = length xs \<Longrightarrow> \<forall>y \<in> set ys. Q y \<Longrightarrow> dev_sim P abst R (f ys) (f' ys)"
  shows "dev_sim P abst R (io_bind (io_map xs g) f) (io_bind (io_map xs g') f')"
  using assms by (auto intro!: sim_bind sim_map)

text \<open>The rules in the order in which they apply, the most specific first.\<close>

lemmas sim_rules =
  sim_bind_lift sim_return sim_fail sim_lift sim_if sim_when sim_option sim_prod sim_for sim_seq

locale read_sim =
  fixes D :: "'d block_device" and E :: "'s block_device" and P :: "'d \<Rightarrow> bool" and abst :: "'d \<Rightarrow> 's" and n :: u64
  assumes sim_count: "dev_sim P abst (\<lambda>k. k = n) (io_count D) (io_count E)"
    and sim_read: "dev_sim P abst (\<lambda>bs. length bs = BLOCK_SIZE) (read_block D b) (read_block E b)"
begin

lemmas read_rules = sim_bind [OF sim_count] sim_bind [OF sim_read] sim_rules sim_read

end

locale device_sim = read_sim +
  assumes sim_write: "length bs = BLOCK_SIZE \<Longrightarrow> dev_sim P abst (\<lambda>_. True) (write_block D b bs) (write_block E b bs)"
    and sim_flush: "dev_sim P abst (\<lambda>_. True) (flush D) (flush E)"
begin

lemmas write_rules = read_rules sim_write sim_flush

end

text \<open>A reliable device behaves as the device in memory of the same size.\<close>

definition sized :: "'d block_device \<Rightarrow> ('d \<Rightarrow> bool) \<Rightarrow> u64 \<Rightarrow> 'd \<Rightarrow> bool" where
  "sized D good n d \<longleftrightarrow> good d \<and> block_count D d = n"

context reliable_reader
begin

lemma mem_count: "dev_sim (sized D inv n) view (\<lambda>k. k = n) (io_count D) (io_count (mem_device n))"
  by (auto simp: dev_sim_def io_count_def mem_device_def sized_def)

lemma mem_read:
  "dev_sim (sized D inv n) view (\<lambda>bs. length bs = BLOCK_SIZE) (read_block D b) (read_block (mem_device n) b)"
  unfolding dev_sim_def
proof (intro allI impI)
  fix d assume "sized D inv n d"
  then have d: "inv d" and n: "block_count D d = n" by (simp_all add: sized_def)
  obtain r d' where rd: "read_block D b d = (r, d')" by fastforce
  note f = read_frame [OF d rd]
  show "case read_block D b d of (r, d') \<Rightarrow> read_block (mem_device n) b (view d) = (r, view d') \<and>
      sized D inv n d' \<and> (\<forall>x. r = Inr x \<longrightarrow> length x = BLOCK_SIZE)"
  proof (cases "b < n")
    case True
    with read_ok [OF d, of b] n rd f view_length [OF d, of b] show ?thesis
      by (auto simp: mem_device_def sized_def)
  next
    case False
    with read_range [OF d, of b] n rd f show ?thesis by (auto simp: mem_device_def sized_def)
  qed
qed

end

sublocale reliable_reader \<subseteq> to_mem: read_sim D "mem_device n" "sized D inv n" view n for n
  by unfold_locales (rule mem_count mem_read)+

context reliable_device
begin

lemma mem_write:
  assumes "length bs = BLOCK_SIZE"
  shows "dev_sim (sized D inv n) view (\<lambda>_. True) (write_block D b bs) (write_block (mem_device n) b bs)"
  unfolding dev_sim_def
proof (intro allI impI)
  fix d assume "sized D inv n d"
  then have d: "inv d" and n: "block_count D d = n" by (simp_all add: sized_def)
  obtain r d' where wr: "write_block D b bs d = (r, d')" by fastforce
  note f = write_frame [OF d assms wr]
  show "case write_block D b bs d of (r, d') \<Rightarrow> write_block (mem_device n) b bs (view d) = (r, view d') \<and>
      sized D inv n d' \<and> (\<forall>x. r = Inr x \<longrightarrow> True)"
  proof (cases "b < n")
    case True
    with write_ok [OF d assms, of b] n wr f write_success [OF d assms, of b "()" d'] show ?thesis
      by (auto simp: mem_device_def sized_def)
  next
    case False
    with write_range [OF d assms, of b] n wr f show ?thesis by (auto simp: mem_device_def sized_def)
  qed
qed

lemma mem_flush: "dev_sim (sized D inv n) view (\<lambda>_. True) (flush D) (flush (mem_device n))"
  unfolding dev_sim_def
proof (intro allI impI)
  fix d assume "sized D inv n d"
  then have d: "inv d" and n: "block_count D d = n" by (simp_all add: sized_def)
  obtain r d' where fl: "flush D d = (r, d')" by fastforce
  with flush_ok [OF d] flush_frame [OF d fl] n show "case flush D d of (r, d') \<Rightarrow>
      flush (mem_device n) (view d) = (r, view d') \<and> sized D inv n d' \<and> (\<forall>x. r = Inr x \<longrightarrow> True)"
    by (auto simp: mem_device_def sized_def)
qed

end

sublocale reliable_device \<subseteq> to_mem: device_sim D "mem_device n" "sized D inv n" view n for n
  by unfold_locales (rule mem_write mem_flush | assumption)+

section \<open>The reference devices are reliable\<close>

lemma mem_device_simps [simp]:
  "block_count (mem_device n) v = n"
  "io_count (mem_device n) v = (Inr n, v)"
  "b < n \<Longrightarrow> read_block (mem_device n) b v = (Inr (v b), v)"
  "n \<le> b \<Longrightarrow> read_block (mem_device n) b v = (Inl UnexpectedEof, v)"
  "b < n \<Longrightarrow> write_block (mem_device n) b bs v = (Inr (), v(b := bs))"
  "n \<le> b \<Longrightarrow> write_block (mem_device n) b bs v = (Inl UnexpectedEof, v)"
  "flush (mem_device n) v = (Inr (), v)"
  by (simp_all add: mem_device_def io_count_def)

lemma trace_device_simps [simp]:
  "block_count (trace_device n) s = n"
  "io_count (trace_device n) s = (Inr n, s)"
  "b < n \<Longrightarrow> read_block (trace_device n) b (v, tr) = (Inr (v b), v, tr)"
  "n \<le> b \<Longrightarrow> read_block (trace_device n) b (v, tr) = (Inl UnexpectedEof, v, tr)"
  "b < n \<Longrightarrow> write_block (trace_device n) b bs (v, tr) = (Inr (), v(b := bs), tr @ [WriteEv b bs])"
  "n \<le> b \<Longrightarrow> write_block (trace_device n) b bs (v, tr) = (Inl UnexpectedEof, v, tr)"
  "flush (trace_device n) (v, tr) = (Inr (), v, tr @ [FlushEv])"
  by (simp_all add: trace_device_def io_count_def)

interpretation mem: reliable_device "mem_device n" "\<lambda>v. v" "disk_ok n"
  by unfold_locales (auto simp: mem_device_def disk_ok_def split: if_splits)

interpretation tracing: reliable_device "trace_device n" fst "\<lambda>s. disk_ok n (fst s)"
  by unfold_locales (auto simp: trace_device_def disk_ok_def split: if_splits prod.splits)

section \<open>Computations that only read\<close>

definition quiet :: "('d, 'a) dev_io \<Rightarrow> bool" where
  "quiet m \<longleftrightarrow> (\<forall>d. snd (m d) = d)"

lemma quietD: "quiet m \<Longrightarrow> m d = (r, d') \<Longrightarrow> d' = d"
  by (auto simp: quiet_def dest: spec [of _ d])

lemma quiet_eq: "quiet m \<Longrightarrow> m d = (fst (m d), d)"
  by (cases "m d") (auto dest: quietD)

lemma quiet_bind [quiet_intros]: "quiet m \<Longrightarrow> (\<And>x. quiet (f x)) \<Longrightarrow> quiet (io_bind m f)"
  unfolding quiet_def io_bind_def by (auto split: prod.splits sum.splits) (metis snd_conv)+

lemma quiet_seq [quiet_intros]: "quiet m \<Longrightarrow> quiet n \<Longrightarrow> quiet (io_seq m n)"
  unfolding io_seq_def by (intro quiet_bind)

lemma quiet_basic [quiet_intros]:
  "quiet (io_return x)" "quiet (io_fail e)" "quiet (io_lift r)" "quiet (io_count D)"
  by (simp_all add: quiet_def io_return_def io_fail_def io_lift_def io_count_def)

lemma quiet_cases [quiet_intros]:
  "quiet m \<Longrightarrow> quiet n \<Longrightarrow> quiet (if c then m else n)"
  "quiet m' \<Longrightarrow> (\<And>x. quiet (f x)) \<Longrightarrow> quiet (case opt of None \<Rightarrow> m' | Some x \<Rightarrow> f x)"
  "(\<And>x y. quiet (g x y)) \<Longrightarrow> quiet (case p of (x, y) \<Rightarrow> g x y)"
  by (simp_all split: option.splits prod.splits)

lemma quiet_map [quiet_intros]: "(\<And>x. quiet (f x)) \<Longrightarrow> quiet (io_map xs f)"
  by (induction xs) (auto intro!: quiet_intros)

lemma quiet_for [quiet_intros]: "(\<And>x. quiet (f x)) \<Longrightarrow> quiet (io_for xs f)"
  by (induction xs) (auto intro!: quiet_intros)

lemma quiet_read [quiet_intros]:
  "quiet (read_block (mem_device n) b)" "quiet (read_block (trace_device n) b)"
  by (auto simp: quiet_def mem_device_def trace_device_def)

end
