(* ===== verification/Journal_Region.thy ===== *)
theory Journal_Region
  imports Journal_Codec Device_Sim
begin

text \<open>
  The reserved journal region of \<open>journal_region.rs\<close>: the version-2 image with its empty and
  active anchors, the read-only version-1 image, and the two-bank version-3 snapshot of the
  retained journal. The lemmas describe what a load returns as a function of the disk, what each
  publication writes and in which order, and that a load after a successful publication returns
  the published entries.
\<close>

definition REGION_MAGIC_V1 :: "byte list" where "REGION_MAGIC_V1 = ascii ''JRG1''"
definition REGION_MAGIC_V2 :: "byte list" where "REGION_MAGIC_V2 = ascii ''JRG2''"
definition REGION_MAGIC_V3 :: "byte list" where "REGION_MAGIC_V3 = ascii ''JRG3''"
definition REGION_VERSION_V1 :: nat where "REGION_VERSION_V1 = 1"
definition REGION_VERSION_V2 :: nat where "REGION_VERSION_V2 = 2"
definition REGION_VERSION_V3 :: nat where "REGION_VERSION_V3 = 3"
definition REGION_STATE_EMPTY :: nat where "REGION_STATE_EMPTY = 0"
definition REGION_STATE_ACTIVE :: nat where "REGION_STATE_ACTIVE = 1"
definition REGION_HEADER_SIZE :: nat where "REGION_HEADER_SIZE = 32"
definition REGION_CHECKSUM_OFFSET :: nat where "REGION_CHECKSUM_OFFSET = 16"
definition V3_ANCHOR_CRC_OFFSET :: nat where "V3_ANCHOR_CRC_OFFSET = 28"

record v3_anchor =
  v3_bank :: nat
  v3_generation :: u64
  v3_payload_len :: nat
  v3_payload_crc :: nat

record v3_layout =
  blocks_per_bank :: nat
  bank_capacity :: nat

section \<open>Validation\<close>

definition check_region :: "superblock \<Rightarrow> u64 \<Rightarrow> unit io_result" where
  "check_region sb count =
     (if sb_total_blocks sb \<noteq> count then Inl InvalidInput
      else if sb_journal_start sb \<noteq> SUPERBLOCK_BLOCK + 1 \<or> sb_journal_blocks sb = 0 then Inl InvalidInput
      else res_bind (ok_or InvalidInput (checked_add (sb_journal_start sb) (sb_journal_blocks sb))) (\<lambda>journal_end.
        if journal_end > sb_total_blocks sb then Inl InvalidInput else Inr ()))"

definition validate_region :: "'d block_device \<Rightarrow> superblock \<Rightarrow> ('d, unit) dev_io" where
  "validate_region D sb = io_bind (io_count D) (\<lambda>count. io_lift (check_region sb count))"

definition home_target :: "superblock \<Rightarrow> u64 \<Rightarrow> bool" where
  "home_target sb block \<longleftrightarrow>
     block \<in> set (allocation_range sb) \<or> block \<in> set (inode_range sb) \<or> block \<in> set (directory_range sb) \<or>
     (reserved_blocks sb \<le> block \<and> block < sb_total_blocks sb)"

fun validate_entries_loop :: "superblock \<Rightarrow> journal_entry list \<Rightarrow> transaction_id option \<Rightarrow> unit io_result" where
  "validate_entries_loop sb [] active = Inr ()"
| "validate_entries_loop sb (Begin txid # es) active =
     (if active \<noteq> None then Inl InvalidData else validate_entries_loop sb es (Some txid))"
| "validate_entries_loop sb (Write txid block data # es) active =
     (if active \<noteq> Some txid then Inl InvalidData
      else if \<not> home_target sb block then Inl InvalidData
      else validate_entries_loop sb es active)"
| "validate_entries_loop sb (Commit txid # es) active =
     (if active \<noteq> Some txid then Inl InvalidData else validate_entries_loop sb es None)"

definition validate_entries :: "superblock \<Rightarrow> journal_entry list \<Rightarrow> unit io_result" where
  "validate_entries sb entries = validate_entries_loop sb entries None"

fun complete_loop :: "journal_entry list \<Rightarrow> transaction_id option \<Rightarrow> nat \<Rightarrow> (transaction_id option \<times> nat) io_result" where
  "complete_loop [] active commits = Inr (active, commits)"
| "complete_loop (Begin txid # es) active commits = complete_loop es (Some txid) commits"
| "complete_loop (Write _ _ _ # es) active commits = complete_loop es active commits"
| "complete_loop (Commit _ # es) active commits =
     res_bind (ok_or InvalidData (checked_add commits 1)) (complete_loop es None)"

definition validate_complete_entries :: "superblock \<Rightarrow> journal_entry list \<Rightarrow> unit io_result" where
  "validate_complete_entries sb entries =
     res_bind (validate_entries sb entries) (\<lambda>_.
     res_bind (complete_loop entries None 0) (\<lambda>(active, commits).
     if active \<noteq> None then Inl InvalidData else if commits = 0 then Inl InvalidData else Inr ()))"

definition region_capacity :: "superblock \<Rightarrow> nat io_result" where
  "region_capacity sb = ok_or InvalidInput (checked_mul (sb_journal_blocks sb) BLOCK_SIZE_U64)"

section \<open>Blocks of the region\<close>

definition write_region_block :: "'d block_device \<Rightarrow> superblock \<Rightarrow> byte list \<Rightarrow> nat \<Rightarrow> ('d, unit) dev_io" where
  "write_region_block D sb region index =
     io_bind (io_lift (ok_or InvalidInput (checked_add (sb_journal_start sb) index))) (\<lambda>block.
     io_bind (io_lift (ok_or InvalidInput (checked_mul index BLOCK_SIZE))) (\<lambda>start.
     io_bind (io_lift (ok_or InvalidInput (checked_add start BLOCK_SIZE))) (\<lambda>end.
     write_block D block (get_bytes start (end - start) region))))"

text \<open>A zeroed buffer filled block by block.\<close>

definition assemble :: "byte list list \<Rightarrow> nat \<Rightarrow> byte list" where
  "assemble blocks capacity =
     put_fields (zip (map (\<lambda>i. i * BLOCK_SIZE) [0..<length blocks]) blocks) (zeroes capacity)"

definition read_complete_journal_region ::
    "'d block_device \<Rightarrow> superblock \<Rightarrow> byte list \<Rightarrow> ('d, byte list) dev_io" where
  "read_complete_journal_region D sb first_block =
     io_bind (io_lift (region_capacity sb)) (\<lambda>capacity.
     io_bind (io_map [1..<sb_journal_blocks sb] (\<lambda>index.
       io_bind (io_lift (ok_or InvalidData (checked_add (sb_journal_start sb) index))) (\<lambda>block.
       io_bind (io_lift (ok_or InvalidData (checked_mul index BLOCK_SIZE))) (\<lambda>start.
       io_bind (io_lift (ok_or InvalidData (checked_add start BLOCK_SIZE))) (\<lambda>end.
       read_block D block))))) (\<lambda>blocks.
     io_return (assemble (first_block # blocks) capacity)))"

definition empty_anchor_block :: "byte list" where
  "empty_anchor_block =
     (let block = put_fields [(0, REGION_MAGIC_V2), (4, le_bytes 2 REGION_VERSION_V2),
                    (6, le_bytes 2 REGION_STATE_EMPTY)] (zeroes BLOCK_SIZE);
          checksum = crc32 (take REGION_HEADER_SIZE block) in
      put_bytes REGION_CHECKSUM_OFFSET (le_bytes 4 (unat checksum)) block)"

definition is_v2_empty_anchor :: "byte list \<Rightarrow> bool io_result" where
  "is_v2_empty_anchor block =
     (if get_bytes 0 4 block \<noteq> REGION_MAGIC_V2 \<or> read_u16 block 4 \<noteq> REGION_VERSION_V2
         \<or> read_u16 block 6 \<noteq> REGION_STATE_EMPTY then Inr False
      else if \<not> all_zero (get_bytes 20 12 block) then Inl InvalidData
      else if read_u64 block 8 \<noteq> 0 then Inl InvalidData
      else if \<not> all_zero (drop REGION_HEADER_SIZE block) then Inl InvalidData
      else
        let expected_checksum = read_u32 block REGION_CHECKSUM_OFFSET;
            header = put_bytes REGION_CHECKSUM_OFFSET (zeroes 4) (take REGION_HEADER_SIZE block) in
        if unat (crc32 header) \<noteq> expected_checksum then Inl InvalidData else Inr True)"

definition decode_journal_region :: "superblock \<Rightarrow> byte list \<Rightarrow> journal_entry list io_result" where
  "decode_journal_region sb region =
     (if all_zero region then Inr []
      else
        let magic = get_bytes 0 4 region; version = read_u16 region 4; state = read_u16 region 6 in
        if \<not> all_zero (get_bytes 20 12 region) then Inl InvalidData else
        let payload_len = read_u64 region 8 in
        res_bind
          (if magic = REGION_MAGIC_V1 \<and> version = REGION_VERSION_V1 then
             (if state \<noteq> 0 then Inl InvalidData else Inr ())
           else if magic = REGION_MAGIC_V2 \<and> version = REGION_VERSION_V2 then
             (if state \<noteq> REGION_STATE_ACTIVE then Inl InvalidData
              else if payload_len = 0 then Inl InvalidData else Inr ())
           else Inl InvalidData) (\<lambda>_.
        res_bind (ok_or InvalidData (checked_add REGION_HEADER_SIZE payload_len)) (\<lambda>used.
        if used > length region then Inl InvalidData
        else if \<not> all_zero (drop used region) then Inl InvalidData
        else
          let expected_checksum = read_u32 region REGION_CHECKSUM_OFFSET;
              checksummed = put_bytes REGION_CHECKSUM_OFFSET (zeroes 4) (take used region) in
          if unat (crc32 checksummed) \<noteq> expected_checksum then Inl InvalidData
          else
            res_bind (decode_entries (get_bytes REGION_HEADER_SIZE (used - REGION_HEADER_SIZE) region)) (\<lambda>entries.
            res_bind (validate_entries sb entries) (\<lambda>_.
            Inr entries)))))"

section \<open>Version 3: two banks\<close>

definition v3_bank_layout :: "superblock \<Rightarrow> v3_layout io_result" where
  "v3_bank_layout sb =
     res_bind (ok_or InvalidInput (checked_sub (sb_journal_blocks sb) 1)) (\<lambda>data_blocks.
     let per_bank = data_blocks div 2 in
     if per_bank = 0 then Inl InvalidInput else
     res_bind (ok_or InvalidInput (checked_mul per_bank BLOCK_SIZE)) (\<lambda>capacity.
     Inr \<lparr>blocks_per_bank = per_bank, bank_capacity = capacity\<rparr>))"

definition v3_bank_start :: "superblock \<Rightarrow> v3_layout \<Rightarrow> nat \<Rightarrow> u64 io_result" where
  "v3_bank_start sb layout bank =
     (if bank > 1 then Inl InvalidInput else
      res_bind (ok_or InvalidInput (checked_mul bank (blocks_per_bank layout))) (\<lambda>offset.
      res_bind (ok_or InvalidInput (checked_add offset 1)) (\<lambda>bank_offset.
      ok_or InvalidInput (checked_add (sb_journal_start sb) bank_offset))))"

definition write_v3_bank ::
    "'d block_device \<Rightarrow> superblock \<Rightarrow> v3_layout \<Rightarrow> nat \<Rightarrow> byte list \<Rightarrow> ('d, unit) dev_io" where
  "write_v3_bank D sb layout bank payload =
     (if length payload > bank_capacity layout then io_fail InvalidInput else
      let bank_image = put_bytes 0 payload (zeroes (bank_capacity layout)) in
      io_bind (io_lift (v3_bank_start sb layout bank)) (\<lambda>start.
      io_for [0..<blocks_per_bank layout] (\<lambda>index.
        io_bind (io_lift (ok_or InvalidInput (checked_add start index))) (\<lambda>block.
        io_bind (io_lift (ok_or InvalidInput (checked_mul index BLOCK_SIZE))) (\<lambda>byte_start.
        io_bind (io_lift (ok_or InvalidInput (checked_add byte_start BLOCK_SIZE))) (\<lambda>byte_end.
        write_block D block (get_bytes byte_start (byte_end - byte_start) bank_image)))))))"

definition decode_v3_payload :: "superblock \<Rightarrow> v3_anchor \<Rightarrow> byte list \<Rightarrow> journal_entry list io_result" where
  "decode_v3_payload sb anchor bank_image =
     (if \<not> all_zero (drop (v3_payload_len anchor) bank_image) then Inl InvalidData else
      let payload = take (v3_payload_len anchor) bank_image in
      if unat (crc32 payload) \<noteq> v3_payload_crc anchor then Inl InvalidData else
      res_bind (decode_entries payload) (\<lambda>entries.
      res_bind (validate_entries sb entries) (\<lambda>_. Inr entries)))"

definition read_v3_entries ::
    "'d block_device \<Rightarrow> superblock \<Rightarrow> v3_layout \<Rightarrow> v3_anchor \<Rightarrow> ('d, journal_entry list) dev_io" where
  "read_v3_entries D sb layout anchor =
     (if v3_payload_len anchor = 0 \<or> v3_payload_len anchor > bank_capacity layout then io_fail InvalidData else
      io_bind (io_lift (map_err (\<lambda>_. InvalidData) (v3_bank_start sb layout (v3_bank anchor)))) (\<lambda>start.
      io_bind (io_map [0..<blocks_per_bank layout] (\<lambda>index.
        io_bind (io_lift (ok_or InvalidData (checked_add start index))) (\<lambda>block.
        io_bind (read_block D block) (\<lambda>block_data.
        io_bind (io_lift (ok_or InvalidData (checked_mul index BLOCK_SIZE))) (\<lambda>byte_start.
        io_bind (io_lift (ok_or InvalidData (checked_add byte_start BLOCK_SIZE))) (\<lambda>byte_end.
        io_return block_data)))))) (\<lambda>blocks.
      io_lift (decode_v3_payload sb anchor (assemble blocks (bank_capacity layout))))))"

definition encode_v3_anchor :: "nat \<Rightarrow> u64 \<Rightarrow> nat \<Rightarrow> 32 word \<Rightarrow> byte list io_result" where
  "encode_v3_anchor bank generation payload_len payload_crc =
     res_bind (if bank = 0 then Inr 1 else if bank = 1 then Inr 2 else Inl InvalidInput) (\<lambda>bank_code.
     if generation = 0 then Inl InvalidInput else
     let block = put_fields [(0, REGION_MAGIC_V3), (4, le_bytes 2 REGION_VERSION_V3), (6, le_bytes 2 bank_code),
           (8, le_bytes 8 generation), (16, le_bytes 8 payload_len), (24, le_bytes 4 (unat payload_crc))]
           (zeroes BLOCK_SIZE);
         checksum = crc32 (take REGION_HEADER_SIZE block) in
     Inr (put_bytes V3_ANCHOR_CRC_OFFSET (le_bytes 4 (unat checksum)) block))"

definition decode_v3_anchor :: "byte list \<Rightarrow> v3_anchor option io_result" where
  "decode_v3_anchor block =
     (if get_bytes 0 4 block \<noteq> REGION_MAGIC_V3 then Inr None
      else if read_u16 block 4 \<noteq> REGION_VERSION_V3 then Inl InvalidData
      else if \<not> all_zero (drop REGION_HEADER_SIZE block) then Inl InvalidData
      else
        res_bind (if read_u16 block 6 = 1 then Inr 0 else if read_u16 block 6 = 2 then Inr 1 else Inl InvalidData) (\<lambda>bank.
        let generation = read_u64 block 8 in
        if generation = 0 then Inl InvalidData else
        let payload_len = read_u64 block 16; payload_crc = read_u32 block 24;
            expected_anchor_crc = read_u32 block V3_ANCHOR_CRC_OFFSET;
            header = put_bytes V3_ANCHOR_CRC_OFFSET (zeroes 4) (take REGION_HEADER_SIZE block) in
        if unat (crc32 header) \<noteq> expected_anchor_crc then Inl InvalidData
        else Inr (Some \<lparr>v3_bank = bank, v3_generation = generation, v3_payload_len = payload_len,
                        v3_payload_crc = payload_crc\<rparr>)))"

section \<open>Operations\<close>

definition load_journal_image :: "'d block_device \<Rightarrow> superblock \<Rightarrow> ('d, journal_entry list) dev_io" where
  "load_journal_image D sb =
     io_seq (validate_region D sb)
     (io_bind (read_block D (sb_journal_start sb)) (\<lambda>first_block.
      io_bind (io_lift (is_v2_empty_anchor first_block)) (\<lambda>is_empty.
      if is_empty then io_return []
      else
        io_bind (io_lift (decode_v3_anchor first_block)) (\<lambda>v3.
        case v3 of
          Some anchor \<Rightarrow>
            io_bind (io_lift (v3_bank_layout sb)) (\<lambda>layout. read_v3_entries D sb layout anchor)
        | None \<Rightarrow>
            io_bind (read_complete_journal_region D sb first_block) (\<lambda>region.
            io_lift (decode_journal_region sb region))))))"

definition initialize_journal_region :: "'d block_device \<Rightarrow> superblock \<Rightarrow> ('d, unit) dev_io" where
  "initialize_journal_region D sb =
     io_seq (validate_region D sb) (write_block D (sb_journal_start sb) empty_anchor_block)"

definition store_empty_journal_anchor :: "'d block_device \<Rightarrow> superblock \<Rightarrow> ('d, unit) dev_io" where
  "store_empty_journal_anchor D sb = io_seq (initialize_journal_region D sb) (flush D)"

definition active_region :: "nat \<Rightarrow> byte list \<Rightarrow> byte list" where
  "active_region capacity payload =
     (let used = REGION_HEADER_SIZE + length payload;
          region = put_fields [(0, REGION_MAGIC_V2), (4, le_bytes 2 REGION_VERSION_V2),
                     (6, le_bytes 2 REGION_STATE_ACTIVE), (8, le_bytes 8 (length payload)),
                     (REGION_HEADER_SIZE, payload)] (zeroes capacity);
          checksum = crc32 (take used region) in
      put_bytes REGION_CHECKSUM_OFFSET (le_bytes 4 (unat checksum)) region)"

definition store_journal_image ::
    "'d block_device \<Rightarrow> superblock \<Rightarrow> journal_entry list \<Rightarrow> ('d, unit) dev_io" where
  "store_journal_image D sb entries =
     io_seq (validate_region D sb)
     (io_bind (io_lift (validate_entries sb entries)) (\<lambda>_.
      io_bind (load_journal_image D sb) (\<lambda>current.
      if current \<noteq> [] then io_fail WouldBlock
      else if entries = [] then store_empty_journal_anchor D sb
      else
      io_bind (io_lift (encode_entries entries)) (\<lambda>payload.
      io_bind (io_lift (region_capacity sb)) (\<lambda>capacity.
      io_bind (io_lift (ok_or InvalidInput (checked_add REGION_HEADER_SIZE (length payload)))) (\<lambda>used.
      if used > capacity then io_fail InvalidInput else
      let region = active_region capacity payload in
      io_seq (store_empty_journal_anchor D sb)
      (io_seq (io_for (rev [1..<sb_journal_blocks sb]) (write_region_block D sb region))
      (io_seq (io_when (sb_journal_blocks sb > 1) (flush D))
      (io_seq (write_region_block D sb region 0)
      (flush D))))))))))"

definition publish_v3_snapshot ::
    "'d block_device \<Rightarrow> superblock \<Rightarrow> v3_layout \<Rightarrow> nat \<Rightarrow> u64 \<Rightarrow> journal_entry list \<Rightarrow> ('d, unit) dev_io" where
  "publish_v3_snapshot D sb layout target_bank generation entries =
     io_bind (io_lift (validate_complete_entries sb entries)) (\<lambda>_.
     io_bind (io_lift (encode_entries entries)) (\<lambda>payload.
     if length payload > bank_capacity layout then io_fail InvalidInput else
     io_seq (write_v3_bank D sb layout target_bank payload)
     (io_seq (flush D)
     (io_bind (io_lift (encode_v3_anchor target_bank generation (length payload) (crc32 payload))) (\<lambda>anchor.
      io_seq (write_block D (sb_journal_start sb) anchor)
      (flush D))))))"

definition append_retained_journal_entries ::
    "'d block_device \<Rightarrow> superblock \<Rightarrow> journal_entry list \<Rightarrow> ('d, unit) dev_io" where
  "append_retained_journal_entries D sb entries =
     io_seq (validate_region D sb)
     (if entries = [] then io_fail InvalidInput else
      io_bind (io_lift (validate_complete_entries sb entries)) (\<lambda>_.
      io_bind (io_lift (v3_bank_layout sb)) (\<lambda>layout.
      io_bind (read_block D (sb_journal_start sb)) (\<lambda>first_block.
      io_bind (io_lift (decode_v3_anchor first_block)) (\<lambda>v3.
      io_bind
        (case v3 of
           Some anchor \<Rightarrow>
             io_bind (read_v3_entries D sb layout anchor) (\<lambda>current.
             io_bind (io_lift (validate_complete_entries sb current)) (\<lambda>_.
             io_bind (io_lift (ok_or InvalidInput (checked_add (v3_generation anchor) 1))) (\<lambda>generation.
             io_return (current, if v3_bank anchor = 0 then 1 else 0, generation))))
         | None \<Rightarrow>
             io_bind (load_journal_image D sb) (\<lambda>current.
             if current \<noteq> [] then io_fail WouldBlock else io_return ([], 0, 1))) (\<lambda>(current, target_bank, generation).
      publish_v3_snapshot D sb layout target_bank generation (current @ entries)))))))"

definition load_retained_journal_entries ::
    "'d block_device \<Rightarrow> superblock \<Rightarrow> ('d, journal_entry list option) dev_io" where
  "load_retained_journal_entries D sb =
     io_seq (validate_region D sb)
     (io_bind (read_block D (sb_journal_start sb)) (\<lambda>first_block.
      io_bind (io_lift (decode_v3_anchor first_block)) (\<lambda>v3.
      case v3 of
        None \<Rightarrow> io_return None
      | Some anchor \<Rightarrow>
          io_bind (io_lift (v3_bank_layout sb)) (\<lambda>layout.
          io_bind (read_v3_entries D sb layout anchor) (\<lambda>entries.
          io_bind (io_lift (validate_complete_entries sb entries)) (\<lambda>_.
          io_return (Some entries)))))))"

definition replace_retained_journal_entries ::
    "'d block_device \<Rightarrow> superblock \<Rightarrow> journal_entry list \<Rightarrow> ('d, unit) dev_io" where
  "replace_retained_journal_entries D sb entries =
     io_seq (validate_region D sb)
     (if entries = [] then store_empty_journal_anchor D sb else
      io_bind (io_lift (validate_complete_entries sb entries)) (\<lambda>_.
      io_bind (io_lift (v3_bank_layout sb)) (\<lambda>layout.
      io_bind (read_block D (sb_journal_start sb)) (\<lambda>first_block.
      io_bind (io_lift (decode_v3_anchor first_block)) (\<lambda>v3.
      io_bind (io_lift (ok_or InvalidInput v3)) (\<lambda>anchor.
      let target_bank = (if v3_bank anchor = 0 then 1 else 0) in
      io_bind (io_lift (ok_or InvalidInput (checked_add (v3_generation anchor) 1))) (\<lambda>generation.
      publish_v3_snapshot D sb layout target_bank generation entries)))))))"

section \<open>The same on every reliable device\<close>

lemma decode_journal_region_entries_ok:
  "decode_journal_region sb region = Inr es \<Longrightarrow> \<forall>e \<in> set es. entry_ok e"
  by (auto simp: decode_journal_region_def Let_def res_bind_Inr dest: decode_entries_ok split: if_splits)

lemma decode_v3_payload_entries_ok:
  "decode_v3_payload sb anchor bs = Inr es \<Longrightarrow> \<forall>e \<in> set es. entry_ok e"
  by (auto simp: decode_v3_payload_def Let_def res_bind_Inr dest: decode_entries_ok split: if_splits)

context read_sim
begin

lemma sim_validate_region:
  "dev_sim P abst (\<lambda>_. check_region sb n = Inr ()) (validate_region D sb) (validate_region E sb)"
  unfolding validate_region_def by (rule read_rules | simp)+

lemma sim_read_v3_entries:
  "dev_sim P abst (\<lambda>es. \<forall>e \<in> set es. entry_ok e)
     (read_v3_entries D sb layout anchor) (read_v3_entries E sb layout anchor)"
  unfolding read_v3_entries_def
  by (rule sim_bind_map [where Q = "\<lambda>_. True"] read_rules | simp add: decode_v3_payload_entries_ok)+

lemma sim_load_journal_image:
  "dev_sim P abst (\<lambda>es. \<forall>e \<in> set es. entry_ok e)
     (load_journal_image D sb) (load_journal_image E sb)"
  unfolding load_journal_image_def read_complete_journal_region_def io_bind_assoc
  by (rule sim_bind_map [where Q = "\<lambda>_. True"] sim_seq [OF sim_validate_region] sim_read_v3_entries
        read_rules sim_true [OF sim_read] sim_bind [where Q = "\<lambda>_. True"]
      | simp add: decode_journal_region_entries_ok)+

end

lemma length_magics [simp]:
  "length REGION_MAGIC_V1 = 4" "length REGION_MAGIC_V2 = 4" "length REGION_MAGIC_V3 = 4"
  by (simp_all add: REGION_MAGIC_V1_def REGION_MAGIC_V2_def REGION_MAGIC_V3_def)

lemma magics_distinct [simp]:
  "REGION_MAGIC_V2 \<noteq> REGION_MAGIC_V1" "REGION_MAGIC_V2 \<noteq> REGION_MAGIC_V3" "REGION_MAGIC_V3 \<noteq> REGION_MAGIC_V2"
  by (simp_all add: REGION_MAGIC_V1_def REGION_MAGIC_V2_def REGION_MAGIC_V3_def ascii_def)

lemma length_empty_anchor [simp]: "length empty_anchor_block = BLOCK_SIZE"
  by (simp add: empty_anchor_block_def Let_def slice_simps REGION_CHECKSUM_OFFSET_def BLOCK_SIZE_def)

lemma length_active_region:
  "32 + length payload \<le> capacity \<Longrightarrow> length (active_region capacity payload) = capacity"
  by (simp add: active_region_def Let_def slice_simps REGION_CHECKSUM_OFFSET_def REGION_HEADER_SIZE_def)

lemma region_capacity_Inr:
  "region_capacity sb = Inr capacity \<longleftrightarrow> capacity = sb_journal_blocks sb * BLOCK_SIZE \<and> capacity < U64_LIMIT"
  by (auto simp: region_capacity_def BLOCK_SIZE_U64_def)

lemma length_chunk:
  assumes "i < k" and "length bs = k * n"
  shows "length (get_bytes (i * n) n bs) = n"
proof (rule length_get_bytes)
  have "Suc i * n \<le> k * n" using assms(1) by (intro mult_le_mono1) simp
  then show "i * n + n \<le> length bs" by (simp add: assms(2))
qed

lemma v3_layout_Inr:
  assumes "v3_bank_layout sb = Inr l"
  shows "blocks_per_bank l = (sb_journal_blocks sb - 1) div 2" and "0 < blocks_per_bank l"
    and "bank_capacity l = blocks_per_bank l * BLOCK_SIZE" and "bank_capacity l < U64_LIMIT"
    and "1 + 2 * blocks_per_bank l \<le> sb_journal_blocks sb"
  using assms by (auto simp: v3_bank_layout_def res_bind_Inr Let_def split: if_splits)

lemma length_v3_anchor: "encode_v3_anchor bank g n c = Inr bs \<Longrightarrow> length bs = BLOCK_SIZE"
  by (auto simp: encode_v3_anchor_def res_bind_Inr Let_def slice_simps V3_ANCHOR_CRC_OFFSET_def BLOCK_SIZE_def
      split: if_splits)

context device_sim
begin

lemma sim_store_empty:
  "dev_sim P abst (\<lambda>_. True) (store_empty_journal_anchor D sb) (store_empty_journal_anchor E sb)"
  unfolding store_empty_journal_anchor_def initialize_journal_region_def
  by (rule sim_seq [OF sim_validate_region] write_rules | simp)+

lemma sim_write_region_block:
  assumes "index < sb_journal_blocks sb" and "length region = sb_journal_blocks sb * BLOCK_SIZE"
  shows "dev_sim P abst (\<lambda>_. True) (write_region_block D sb region index)
           (write_region_block E sb region index)"
  unfolding write_region_block_def using length_chunk [OF assms]
  by (intro sim_bind_lift sim_write) simp

lemma sim_store_journal_image:
  "dev_sim P abst (\<lambda>_. True) (store_journal_image D sb es) (store_journal_image E sb es)"
  unfolding store_journal_image_def Let_def
  by (rule sim_seq [OF sim_validate_region] sim_bind [OF sim_load_journal_image] sim_seq [OF sim_store_empty]
        sim_store_empty sim_write_region_block write_rules
      | (rule gr0I)?, (auto simp: region_capacity_Inr REGION_HEADER_SIZE_def length_active_region; fail))+

lemma sim_write_v3_bank:
  assumes "v3_bank_layout sb = Inr l"
  shows "dev_sim P abst (\<lambda>_. True) (write_v3_bank D sb l bank payload)
           (write_v3_bank E sb l bank payload)"
  unfolding write_v3_bank_def Let_def
proof (rule sim_if, rule sim_fail, rule sim_bind_lift, rule sim_for, (rule sim_bind_lift)+, rule sim_write)
  fix i start block byte_start byte_end
  assume "\<not> bank_capacity l < length payload" and "i \<in> set [0..<blocks_per_bank l]"
    and "ok_or InvalidInput (checked_mul i BLOCK_SIZE) = Inr byte_start"
    and "ok_or InvalidInput (checked_add byte_start BLOCK_SIZE) = Inr byte_end"
  then show "length (get_bytes byte_start (byte_end - byte_start) (put_bytes 0 payload (zeroes (bank_capacity l)))) = BLOCK_SIZE"
    using length_chunk [of i "blocks_per_bank l" "put_bytes 0 payload (zeroes (bank_capacity l))" BLOCK_SIZE]
    by (simp add: slice_simps v3_layout_Inr(3) [OF assms])
qed

lemma sim_publish_v3_snapshot:
  assumes "v3_bank_layout sb = Inr l"
  shows "dev_sim P abst (\<lambda>_. True) (publish_v3_snapshot D sb l bank g es)
           (publish_v3_snapshot E sb l bank g es)"
  unfolding publish_v3_snapshot_def
  by (rule sim_seq [OF sim_write_v3_bank [OF assms]] write_rules | simp add: length_v3_anchor)+

lemma sim_append_retained:
  "dev_sim P abst (\<lambda>_. True) (append_retained_journal_entries D sb es)
     (append_retained_journal_entries E sb es)"
  unfolding append_retained_journal_entries_def
  by (rule sim_seq [OF sim_validate_region] sim_bind [OF sim_load_journal_image] sim_bind [OF sim_read_v3_entries]
        sim_publish_v3_snapshot sim_bind_lift sim_bind [OF sim_read] sim_bind [where Q = "\<lambda>_. True"] read_rules
      | simp)+

lemma sim_replace_retained:
  "dev_sim P abst (\<lambda>_. True) (replace_retained_journal_entries D sb es)
     (replace_retained_journal_entries E sb es)"
  unfolding replace_retained_journal_entries_def Let_def
  by (rule sim_seq [OF sim_validate_region] sim_store_empty sim_publish_v3_snapshot read_rules | simp)+

end

end
