(* ===== verification/Journal_Image.thy ===== *)
theory Journal_Image
  imports Journal_Region
begin

text \<open>
  What the journal region holds, as a function of the disk. \<open>load_disk\<close> is the value a load
  returns; it depends on the journal blocks only. The version-2 publication is described by the
  blocks it writes and their order, which is what crash safety rests on.
\<close>

section \<open>Loading\<close>

declare upt_Suc [simp del]

lemma check_region_Inr:
  "check_region sb n = Inr u \<longleftrightarrow> sb_total_blocks sb = n \<and> sb_journal_start sb = 1 \<and> 0 < sb_journal_blocks sb \<and>
     1 + sb_journal_blocks sb \<le> n \<and> 1 + sb_journal_blocks sb < U64_LIMIT"
  by (auto simp: check_region_def res_bind_Inr SUPERBLOCK_BLOCK_def split: if_splits)

lemma geometry_check_region: "geometry_ok sb \<Longrightarrow> check_region sb (sb_total_blocks sb) = Inr ()"
  using geometry_okD [of sb] by (simp add: check_region_Inr)

definition region_bytes :: "superblock \<Rightarrow> disk \<Rightarrow> byte list" where
  "region_bytes sb v = concat (map v [sb_journal_start sb ..< sb_journal_start sb + sb_journal_blocks sb])"

definition bank_bytes :: "superblock \<Rightarrow> v3_layout \<Rightarrow> nat \<Rightarrow> disk \<Rightarrow> byte list" where
  "bank_bytes sb l bank v =
     (let start = sb_journal_start sb + (bank * blocks_per_bank l + 1)
      in concat (map v [start ..< start + blocks_per_bank l]))"

definition load_disk :: "superblock \<Rightarrow> disk \<Rightarrow> journal_entry list io_result" where
  "load_disk sb v =
     (let first = v (sb_journal_start sb) in
      res_bind (is_v2_empty_anchor first) (\<lambda>is_empty.
      if is_empty then Inr [] else
      res_bind (decode_v3_anchor first) (\<lambda>v3.
      case v3 of
        None \<Rightarrow> res_bind (region_capacity sb) (\<lambda>_. decode_journal_region sb (region_bytes sb v))
      | Some a \<Rightarrow> res_bind (v3_bank_layout sb) (\<lambda>l.
          if v3_payload_len a = 0 \<or> v3_payload_len a > bank_capacity l then Inl InvalidData
          else decode_v3_payload sb a (bank_bytes sb l (v3_bank a) v)))))"

lemma assemble_concat:
  assumes "\<forall>b \<in> set blocks. length b = BLOCK_SIZE"
  shows "assemble blocks (length blocks * BLOCK_SIZE) = concat blocks"
proof -
  let ?fs = "\<lambda>k. zip (map (\<lambda>i. i * BLOCK_SIZE) [k..<k + length blocks]) blocks"
  have c: "contiguous (k * BLOCK_SIZE) (?fs k)" for k
    using assms
  proof (induction blocks arbitrary: k)
    case (Cons b bs)
    then have "contiguous (Suc k * BLOCK_SIZE) (zip (map (\<lambda>i. i * BLOCK_SIZE) [Suc k..<Suc k + length bs]) bs)"
      by (intro Cons.IH) simp
    moreover have "[k..<k + length (b # bs)] = k # [Suc k..<Suc k + length bs]"
      by (simp add: upt_conv_Cons)
    ultimately show ?case using Cons.prems by (simp add: add.commute)
  qed simp
  have "map snd (?fs 0) = blocks" by simp
  with put_fields_contiguous [of "[]" "?fs 0" "length blocks * BLOCK_SIZE"] c [of 0]
  show ?thesis using length_concat_uniform [OF assms] by (simp add: assemble_def zeroes_def)
qed

lemma io_map_pure:
  "(\<And>x. x \<in> set xs \<Longrightarrow> g x v = (Inr (h x), v)) \<Longrightarrow> io_map xs g v = (Inr (map h xs), v)"
  by (induction xs) (simp_all add: io_simps)

lemma map_shift_upt: "map (\<lambda>i. f (s + i)) [a..<b] = map f [s + a..<s + b]" for s :: nat
  by (rule nth_equalityI) (simp_all add: add.assoc)

lemma read_complete_mem:
  assumes "check_region sb n = Inr ()" and "disk_ok n v"
  shows "read_complete_journal_region (mem_device n) sb (v (sb_journal_start sb)) v
           = (res_bind (region_capacity sb) (\<lambda>_. Inr (region_bytes sb v)), v)"
proof (cases "region_capacity sb")
  case (Inr capacity)
  let ?jb = "sb_journal_blocks sb"
  from assms(1) have r: "sb_total_blocks sb = n" "sb_journal_start sb = 1" "0 < ?jb" "1 + ?jb \<le> n" "1 + ?jb < U64_LIMIT"
    by (simp_all add: check_region_Inr)
  from Inr have cap: "capacity = ?jb * BLOCK_SIZE" "capacity < U64_LIMIT" by (simp_all add: region_capacity_Inr)
  have "io_map [1..<?jb] (\<lambda>index.
       io_bind (io_lift (ok_or InvalidData (checked_add (sb_journal_start sb) index))) (\<lambda>block.
       io_bind (io_lift (ok_or InvalidData (checked_mul index BLOCK_SIZE))) (\<lambda>start.
       io_bind (io_lift (ok_or InvalidData (checked_add start BLOCK_SIZE))) (\<lambda>end.
       read_block (mem_device n) block)))) v = (Inr (map (\<lambda>i. v (1 + i)) [1..<?jb]), v)"
  proof (rule io_map_pure)
    fix i assume i: "i \<in> set [1..<?jb]"
    then have "Suc i * BLOCK_SIZE \<le> ?jb * BLOCK_SIZE" by (intro mult_le_mono1) auto
    then have "i * BLOCK_SIZE + BLOCK_SIZE < U64_LIMIT" using cap by simp
    with i r show "io_bind (io_lift (ok_or InvalidData (checked_add (sb_journal_start sb) i))) (\<lambda>block.
       io_bind (io_lift (ok_or InvalidData (checked_mul i BLOCK_SIZE))) (\<lambda>start.
       io_bind (io_lift (ok_or InvalidData (checked_add start BLOCK_SIZE))) (\<lambda>end.
       read_block (mem_device n) block))) v = (Inr (v (1 + i)), v)"
      by (simp add: checked_add_def checked_mul_def)
  qed
  moreover have "assemble (v 1 # map (\<lambda>i. v (1 + i)) [1..<?jb]) capacity = region_bytes sb v"
  proof -
    have "v 1 # map (\<lambda>i. v (1 + i)) [1..<?jb] = map v [1..<1 + ?jb]"
      unfolding map_shift_upt [of v 1 1] using r(3) by (simp add: upt_conv_Cons)
    moreover have "\<forall>b \<in> set (map v [1..<1 + ?jb]). length b = BLOCK_SIZE"
      using assms(2) r(4) by (auto simp: disk_ok_def)
    ultimately show ?thesis
      using assemble_concat [of "map v [1..<1 + ?jb]"] by (simp add: cap region_bytes_def r(2))
  qed
  ultimately show ?thesis by (simp add: read_complete_journal_region_def Inr r(2) io_simps)
qed (simp add: read_complete_journal_region_def io_simps)

lemma v3_bank_start_Inr:
  assumes "check_region sb n = Inr ()" and "v3_bank_layout sb = Inr l" and "bank \<le> 1"
  shows "v3_bank_start sb l bank = Inr (1 + (bank * blocks_per_bank l + 1))"
    and "1 + (bank * blocks_per_bank l + 1) + blocks_per_bank l \<le> 1 + sb_journal_blocks sb"
proof -
  have "bank = 0 \<or> bank = 1" using assms(3) by auto
  then have "bank * blocks_per_bank l + blocks_per_bank l \<le> 2 * blocks_per_bank l" by auto
  then show "1 + (bank * blocks_per_bank l + 1) + blocks_per_bank l \<le> 1 + sb_journal_blocks sb"
    using v3_layout_Inr(5) [OF assms(2)] by linarith
  with assms(1,3) show "v3_bank_start sb l bank = Inr (1 + (bank * blocks_per_bank l + 1))"
    by (simp add: v3_bank_start_def check_region_Inr checked_add_def checked_mul_def)
qed

lemma read_v3_mem:
  assumes "check_region sb n = Inr ()" and "disk_ok n v" and l: "v3_bank_layout sb = Inr l" and "v3_bank a \<le> 1"
  shows "read_v3_entries (mem_device n) sb l a v =
     (if v3_payload_len a = 0 \<or> v3_payload_len a > bank_capacity l then Inl InvalidData
      else decode_v3_payload sb a (bank_bytes sb l (v3_bank a) v), v)"
proof -
  let ?s = "1 + (v3_bank a * blocks_per_bank l + 1)" and ?k = "blocks_per_bank l"
  note st = v3_bank_start_Inr [OF assms(1) l assms(4)]
  note ly = v3_layout_Inr [OF l]
  from assms(1) have r: "sb_journal_start sb = 1" "1 + sb_journal_blocks sb \<le> n" "1 + sb_journal_blocks sb < U64_LIMIT"
    by (simp_all add: check_region_Inr)
  have m: "io_map [0..<?k] (\<lambda>index.
        io_bind (io_lift (ok_or InvalidData (checked_add ?s index))) (\<lambda>block.
        io_bind (read_block (mem_device n) block) (\<lambda>block_data.
        io_bind (io_lift (ok_or InvalidData (checked_mul index BLOCK_SIZE))) (\<lambda>byte_start.
        io_bind (io_lift (ok_or InvalidData (checked_add byte_start BLOCK_SIZE))) (\<lambda>byte_end.
        io_return block_data))))) v = (Inr (map (\<lambda>i. v (?s + i)) [0..<?k]), v)"
  proof (rule io_map_pure)
    fix i assume i: "i \<in> set [0..<?k]"
    then have "Suc i * BLOCK_SIZE \<le> ?k * BLOCK_SIZE" by (intro mult_le_mono1) auto
    then have "i * BLOCK_SIZE + BLOCK_SIZE < U64_LIMIT" using ly(3,4) by simp
    with i r st(2) show "io_bind (io_lift (ok_or InvalidData (checked_add ?s i))) (\<lambda>block.
        io_bind (read_block (mem_device n) block) (\<lambda>block_data.
        io_bind (io_lift (ok_or InvalidData (checked_mul i BLOCK_SIZE))) (\<lambda>byte_start.
        io_bind (io_lift (ok_or InvalidData (checked_add byte_start BLOCK_SIZE))) (\<lambda>byte_end.
        io_return block_data)))) v = (Inr (v (?s + i)), v)"
      by (simp add: checked_add_def checked_mul_def io_simps)
  qed
  have mv: "map (\<lambda>i. v (?s + i)) [0..<?k] = map v [?s..<?s + ?k]"
    using map_shift_upt [of v ?s 0 ?k] by simp
  moreover have "\<forall>b \<in> set (map v [?s..<?s + ?k]). length b = BLOCK_SIZE"
    using assms(2) r(2) st(2) by (auto simp: disk_ok_def)
  ultimately have "assemble (map (\<lambda>i. v (?s + i)) [0..<?k]) (bank_capacity l) = bank_bytes sb l (v3_bank a) v"
    using assemble_concat [of "map v [?s..<?s + ?k]"] by (simp add: bank_bytes_def r(1) ly(3))
  with m st(1) show ?thesis by (simp add: read_v3_entries_def io_simps map_err_def)
qed

lemma decode_v3_anchor_bank: "decode_v3_anchor block = Inr (Some a) \<Longrightarrow> v3_bank a \<le> 1"
  by (auto simp: decode_v3_anchor_def res_bind_Inr Let_def split: if_splits)

lemma load_mem:
  assumes "check_region sb n = Inr ()" and "disk_ok n v"
  shows "load_journal_image (mem_device n) sb v = (load_disk sb v, v)"
proof -
  have vr: "validate_region (mem_device n) sb v = (Inr (), v)"
    using assms(1) by (simp add: validate_region_def io_simps)
  have rd: "read_block (mem_device n) (sb_journal_start sb) v = (Inr (v (sb_journal_start sb)), v)"
    using assms(1) by (simp add: check_region_Inr)
  let ?f = "v (sb_journal_start sb)"
  show ?thesis
  proof (cases "is_v2_empty_anchor ?f")
    case (Inr e)
    show ?thesis
    proof (cases "decode_v3_anchor ?f")
      case (Inr v3)
      show ?thesis
      proof (cases v3)
        case None
        with Inr \<open>is_v2_empty_anchor ?f = Inr e\<close> read_complete_mem [OF assms] show ?thesis
          by (cases "region_capacity sb") (simp_all add: load_journal_image_def load_disk_def vr rd io_simps)
      next
        case (Some a)
        with Inr have "v3_bank a \<le> 1" using decode_v3_anchor_bank by blast
        with Inr Some \<open>is_v2_empty_anchor ?f = Inr e\<close> read_v3_mem [OF assms] show ?thesis
          by (cases "v3_bank_layout sb") (simp_all add: load_journal_image_def load_disk_def vr rd io_simps)
      qed
    qed (use Inr in \<open>simp add: load_journal_image_def load_disk_def vr rd io_simps\<close>)
  qed (simp add: load_journal_image_def load_disk_def vr rd io_simps)
qed

lemma load_disk_cong:
  assumes "check_region sb n = Inr ()" and "\<And>b. b \<in> {1..<1 + sb_journal_blocks sb} \<Longrightarrow> v b = w b"
  shows "load_disk sb v = load_disk sb w"
proof -
  from assms(1) have s: "sb_journal_start sb = 1" "0 < sb_journal_blocks sb" by (simp_all add: check_region_Inr)
  with assms(2) [of 1] have f: "v (sb_journal_start sb) = w (sb_journal_start sb)" by simp
  have "region_bytes sb v = region_bytes sb w"
    unfolding region_bytes_def s using assms(2) by (intro arg_cong [where f = concat] map_cong) auto
  moreover have "bank_bytes sb l bank v = bank_bytes sb l bank w"
    if "v3_bank_layout sb = Inr l" and "bank \<le> 1" for l bank
    unfolding bank_bytes_def Let_def s using v3_bank_start_Inr(2) [OF assms(1) that] assms(2)
    by (intro arg_cong [where f = concat] map_cong) auto
  ultimately show ?thesis
    unfolding load_disk_def f Let_def
    by (auto simp: res_bind_def split: sum.splits option.splits dest!: decode_v3_anchor_bank)
qed

lemma load_disk_entries_ok: "load_disk sb v = Inr es \<Longrightarrow> \<forall>e \<in> set es. entry_ok e"
  using decode_journal_region_entries_ok decode_v3_payload_entries_ok
  by (fastforce simp: load_disk_def Let_def res_bind_Inr split: if_splits option.splits)

lemma load_disk_valid: "load_disk sb v = Inr es \<Longrightarrow> validate_entries sb es = Inr ()"
  by (auto simp: load_disk_def decode_journal_region_def decode_v3_payload_def validate_entries_def
      Let_def res_bind_Inr split: if_splits option.splits)

section \<open>Version-2 anchors and images\<close>

definition v2_layout :: "nat \<Rightarrow> byte list \<Rightarrow> byte list \<Rightarrow> nat \<Rightarrow> byte list" where
  "v2_layout state payload c pad =
     REGION_MAGIC_V2 @ le_bytes 2 REGION_VERSION_V2 @ le_bytes 2 state @ le_bytes 8 (length payload) @ c @
     zeroes 12 @ payload @ zeroes pad"

lemma zeroes_append [simp]: "zeroes a @ zeroes b = zeroes (a + b)"
  by (simp add: zeroes_def replicate_add)

lemma zeroes_append' : "zeroes a @ zeroes b @ xs = zeroes (a + b) @ xs"
  by (simp add: zeroes_def replicate_add)

lemma v2_layout_get:
  assumes "length c = 4"
  shows "get_bytes 0 4 (v2_layout st p c pad) = REGION_MAGIC_V2"
    "get_bytes 4 2 (v2_layout st p c pad) = le_bytes 2 REGION_VERSION_V2"
    "get_bytes 6 2 (v2_layout st p c pad) = le_bytes 2 st"
    "get_bytes 8 8 (v2_layout st p c pad) = le_bytes 8 (length p)"
    "get_bytes 16 4 (v2_layout st p c pad) = c"
    "get_bytes 20 12 (v2_layout st p c pad) = zeroes 12"
    "get_bytes 32 (length p) (v2_layout st p c pad) = p"
    "drop (32 + length p) (v2_layout st p c pad) = zeroes pad"
    "take (32 + length p) (v2_layout st p c pad) = v2_layout st p c 0"
    "length (v2_layout st p c pad) = 32 + length p + pad"
    "put_bytes 16 (zeroes 4) (v2_layout st p c pad) = v2_layout st p (zeroes 4) pad"
    "length d = 4 \<Longrightarrow> put_bytes 16 d (v2_layout st p c pad) = v2_layout st p d pad"
  using assms by (simp_all add: v2_layout_def get_bytes_def put_bytes_def zeroes_def)

lemma v2_layout_header:
  assumes "length c = 4"
  shows "take 32 (v2_layout st [] c pad) = v2_layout st [] c 0" "drop 32 (v2_layout st [] c pad) = zeroes pad"
  using v2_layout_get(8,9) [OF assms, of "[]"] by simp_all

definition v2_sealed :: "nat \<Rightarrow> byte list \<Rightarrow> nat \<Rightarrow> byte list" where
  "v2_sealed state payload pad =
     v2_layout state payload (le_bytes 4 (unat (crc32 (v2_layout state payload (zeroes 4) 0)))) pad"

lemma empty_anchor_layout: "empty_anchor_block = v2_sealed REGION_STATE_EMPTY [] (BLOCK_SIZE - 32)"
proof -
  have u: "put_fields [(0, REGION_MAGIC_V2), (4, le_bytes 2 REGION_VERSION_V2), (6, le_bytes 2 REGION_STATE_EMPTY)]
      (zeroes BLOCK_SIZE) = v2_layout REGION_STATE_EMPTY [] (zeroes 4) (BLOCK_SIZE - 32)"
    using put_fields_contiguous [of "[]" "[(0, REGION_MAGIC_V2), (4, le_bytes 2 REGION_VERSION_V2),
      (6, le_bytes 2 REGION_STATE_EMPTY)]" BLOCK_SIZE]
    by (simp add: v2_layout_def BLOCK_SIZE_def le_bytes_zero zeroes_append' del: put_fields_simps)
  show ?thesis
    unfolding empty_anchor_block_def Let_def u REGION_HEADER_SIZE_def REGION_CHECKSUM_OFFSET_def
    by (simp add: v2_sealed_def v2_layout_get(12) v2_layout_header)
qed

lemma active_region_layout:
  assumes "32 + length payload \<le> capacity"
  shows "active_region capacity payload = v2_sealed REGION_STATE_ACTIVE payload (capacity - 32 - length payload)"
proof -
  let ?fs = "[(0 :: nat, REGION_MAGIC_V2), (4, le_bytes 2 REGION_VERSION_V2), (6, le_bytes 2 REGION_STATE_ACTIVE),
      (8, le_bytes 8 (length payload))]"
  have "put_fields ?fs ([] @ zeroes capacity) = concat (map snd ?fs) @ zeroes (capacity - 16)"
    using assms by (subst put_fields_contiguous) simp_all
  also have "zeroes (capacity - 16) = zeroes 16 @ zeroes (capacity - 32)" using assms by simp
  finally have h: "put_fields ?fs (zeroes capacity) = (concat (map snd ?fs) @ zeroes 16) @ zeroes (capacity - 32)"
    by simp
  have "put_fields (?fs @ [(32, payload)]) (zeroes capacity) = put_fields [(32, payload)] (put_fields ?fs (zeroes capacity))"
    by (rule put_fields_append)
  also have "\<dots> = (concat (map snd ?fs) @ zeroes 16) @ payload @ zeroes (capacity - 32 - length payload)"
    unfolding h using assms by (simp add: put_bytes_def zeroes_def)
  also have "\<dots> = v2_layout REGION_STATE_ACTIVE payload (zeroes 4) (capacity - 32 - length payload)"
    by (simp add: v2_layout_def zeroes_append')
  finally have u: "put_fields [(0, REGION_MAGIC_V2), (4, le_bytes 2 REGION_VERSION_V2), (6, le_bytes 2 REGION_STATE_ACTIVE),
      (8, le_bytes 8 (length payload)), (32, payload)] (zeroes capacity)
      = v2_layout REGION_STATE_ACTIVE payload (zeroes 4) (capacity - 32 - length payload)"
    by (simp only: append_Cons append_Nil)
  show ?thesis
    unfolding active_region_def Let_def REGION_HEADER_SIZE_def REGION_CHECKSUM_OFFSET_def u
    by (simp add: v2_sealed_def v2_layout_get)
qed

lemma is_empty_anchor [simp]: "is_v2_empty_anchor empty_anchor_block = Inr True"
  by (simp add: empty_anchor_layout is_v2_empty_anchor_def v2_sealed_def read_defs v2_layout_get v2_layout_header
      Let_def REGION_HEADER_SIZE_def REGION_CHECKSUM_OFFSET_def REGION_VERSION_V2_def REGION_STATE_EMPTY_def)

lemma load_disk_empty: "v (sb_journal_start sb) = empty_anchor_block \<Longrightarrow> load_disk sb v = Inr []"
  by (simp add: load_disk_def)

lemma decode_active_region:
  assumes "32 + length (entries_bytes es) \<le> capacity" and "capacity < U64_LIMIT" and "es \<noteq> []"
    and ok: "\<forall>e \<in> set es. entry_ok e" and "validate_entries sb es = Inr ()"
  shows "decode_journal_region sb (active_region capacity (entries_bytes es)) = Inr es"
proof -
  let ?p = "entries_bytes es"
  let ?c = "le_bytes 4 (unat (crc32 (v2_layout REGION_STATE_ACTIVE ?p (zeroes 4) 0)))"
  have nz: "\<not> all_zero (active_region capacity ?p)"
  proof
    assume "all_zero (active_region capacity ?p)"
    then have "all_zero (get_bytes 0 4 (active_region capacity ?p))"
      by (auto simp: all_zero_def list_all_iff get_bytes_def dest: in_set_takeD)
    then show False
      using assms(1) by (simp add: active_region_layout v2_sealed_def v2_layout_get REGION_MAGIC_V2_def ascii_def all_zero_def)
  qed
  have pos: "0 < length ?p"
    using assms(3) ok record_layout_length by (cases es; cases "hd es") (auto simp: entries_bytes_def)
  have lay: "active_region capacity ?p = v2_layout REGION_STATE_ACTIVE ?p ?c (capacity - 32 - length ?p)"
    using assms(1) by (simp add: active_region_layout v2_sealed_def)
  have dec: "decode_entries ?p = Inr es"
    using assms(1,2) ok by (intro decode_encode_entries) simp_all
  show ?thesis
    using nz pos assms(1,2,5) dec
    by (simp add: decode_journal_region_def lay v2_layout_get read_defs Let_def checked_add_def
        REGION_HEADER_SIZE_def REGION_CHECKSUM_OFFSET_def REGION_VERSION_V1_def REGION_VERSION_V2_def REGION_STATE_ACTIVE_def)
qed

section \<open>Publication\<close>

definition chunk :: "byte list \<Rightarrow> nat \<Rightarrow> byte list" where
  "chunk region index = get_bytes (index * BLOCK_SIZE) BLOCK_SIZE region"

definition region_writes :: "byte list \<Rightarrow> nat list \<Rightarrow> (u64 \<times> byte list) list" where
  "region_writes region is = map (\<lambda>i. (1 + i, chunk region i)) is"

abbreviation write_events :: "(u64 \<times> byte list) list \<Rightarrow> dev_event list" where
  "write_events ws \<equiv> map (\<lambda>(b, bs). WriteEv b bs) ws"

definition store_events :: "superblock \<Rightarrow> byte list \<Rightarrow> dev_event list" where
  "store_events sb region =
     [WriteEv 1 empty_anchor_block, FlushEv] @
     write_events (region_writes region (rev [1..<sb_journal_blocks sb])) @
     (if sb_journal_blocks sb > 1 then [FlushEv] else []) @ [WriteEv 1 (chunk region 0), FlushEv]"

definition published :: "superblock \<Rightarrow> byte list \<Rightarrow> disk \<Rightarrow> disk" where
  "published sb region v = (\<lambda>b. if 1 \<le> b \<and> b < 1 + sb_journal_blocks sb then chunk region (b - 1) else v b)"

lemma write_all_region:
  "write_all v (region_writes region is) = (\<lambda>b. if 1 \<le> b \<and> b - 1 \<in> set is then chunk region (b - 1) else v b)"
  by (induction "is" arbitrary: v) (auto simp: region_writes_def fun_eq_iff)

lemma published_write_all:
  assumes "0 < sb_journal_blocks sb"
  shows "(write_all (v(1 := x)) (region_writes region (rev [1..<sb_journal_blocks sb])))(1 := chunk region 0)
     = published sb region v"
  using assms unfolding write_all_region published_def by (auto simp: fun_eq_iff)

lemma io_for_trace:
  "(\<And>x v tr. x \<in> set xs \<Longrightarrow> f x (v, tr) = (Inr (), v(g x := h x), tr @ [WriteEv (g x) (h x)])) \<Longrightarrow>
     io_for xs f (v, tr) = (Inr (), write_all v (map (\<lambda>x. (g x, h x)) xs), tr @ write_events (map (\<lambda>x. (g x, h x)) xs))"
  by (induction xs arbitrary: v tr) (simp_all add: io_simps)

lemma write_journal_blocks_trace:
  assumes "check_region sb n = Inr ()" and "region_capacity sb = Inr capacity" and "i < sb_journal_blocks sb"
  shows "write_region_block (trace_device n) sb region i (v, tr)
     = (Inr (), v(1 + i := chunk region i), tr @ [WriteEv (1 + i) (chunk region i)])"
proof -
  have "Suc i * BLOCK_SIZE \<le> sb_journal_blocks sb * BLOCK_SIZE" using assms(3) by (intro mult_le_mono1) simp
  then have "i * BLOCK_SIZE + BLOCK_SIZE < U64_LIMIT" using assms(2) by (simp add: region_capacity_Inr)
  with assms(1,3) show ?thesis
    by (simp add: write_region_block_def check_region_Inr checked_add_def checked_mul_def chunk_def)
qed

lemma store_empty_trace:
  assumes "check_region sb n = Inr ()"
  shows "store_empty_journal_anchor (trace_device n) sb (v, tr)
     = (Inr (), v(1 := empty_anchor_block), tr @ [WriteEv 1 empty_anchor_block, FlushEv])"
  using assms
  by (simp add: store_empty_journal_anchor_def initialize_journal_region_def validate_region_def io_simps check_region_Inr)

lemma quiet_load: "quiet (load_journal_image (trace_device n) sb)"
  unfolding load_journal_image_def validate_region_def read_v3_entries_def read_complete_journal_region_def
  by (intro quiet_intros)

lemma sized_simps [simp]:
  "sized (trace_device n) (\<lambda>s. disk_ok n (fst s)) n s \<longleftrightarrow> disk_ok n (fst s)"
  by (simp_all add: sized_def)

lemma load_trace:
  assumes "check_region sb n = Inr ()" and "disk_ok n v"
  shows "load_journal_image (trace_device n) sb (v, tr) = (load_disk sb v, v, tr)"
proof -
  from tracing.to_mem.sim_load_journal_image [of n n sb] load_mem [OF assms] assms(2) obtain s
    where "load_journal_image (trace_device n) sb (v, tr) = (load_disk sb v, s)"
    by (auto elim!: dev_sim_run [where d = "(v, tr)"])
  with quietD [OF quiet_load this] show ?thesis by simp
qed

text \<open>Every branch of \<open>store_journal_image\<close>, on the tracing device.\<close>

definition store_outcome :: "superblock \<Rightarrow> journal_entry list \<Rightarrow> disk \<Rightarrow> unit io_result \<times> disk \<times> dev_event list" where
  "store_outcome sb es v =
     (case validate_entries sb es of Inl e \<Rightarrow> (Inl e, v, [])
      | Inr _ \<Rightarrow> case load_disk sb v of Inl e \<Rightarrow> (Inl e, v, [])
      | Inr current \<Rightarrow>
          if current \<noteq> [] then (Inl WouldBlock, v, [])
          else if es = [] then (Inr (), v(1 := empty_anchor_block), [WriteEv 1 empty_anchor_block, FlushEv])
          else case encode_entries es of Inl e \<Rightarrow> (Inl e, v, [])
      | Inr payload \<Rightarrow>
          case region_capacity sb of Inl e \<Rightarrow> (Inl e, v, [])
      | Inr capacity \<Rightarrow>
          if 32 + length payload > capacity then (Inl InvalidInput, v, [])
          else (Inr (), published sb (active_region capacity payload) v,
                store_events sb (active_region capacity payload)))"

lemma store_trace:
  assumes "check_region sb n = Inr ()" and "disk_ok n v"
  shows "store_journal_image (trace_device n) sb es (v, tr)
     = (case store_outcome sb es v of (r, w, evs) \<Rightarrow> (r, w, tr @ evs))"
proof -
  have vr: "validate_region (trace_device n) sb (v, tr) = (Inr (), v, tr)"
    using assms(1) by (simp add: validate_region_def io_simps)
  have pub: "io_seq (store_empty_journal_anchor (trace_device n) sb)
      (io_seq (io_for (rev [1..<sb_journal_blocks sb]) (write_region_block (trace_device n) sb region))
      (io_seq (io_when (sb_journal_blocks sb > 1) (flush (trace_device n)))
      (io_seq (write_region_block (trace_device n) sb region 0) (flush (trace_device n))))) (v, tr)
      = (Inr (), published sb region v, tr @ store_events sb region)"
    if cap: "region_capacity sb = Inr capacity" for capacity region
  proof -
    have jb: "0 < sb_journal_blocks sb" using assms(1) by (simp add: check_region_Inr)
    have "io_for (rev [1..<sb_journal_blocks sb]) (write_region_block (trace_device n) sb region) (w, us)
        = (Inr (), write_all w (region_writes region (rev [1..<sb_journal_blocks sb])),
           us @ write_events (region_writes region (rev [1..<sb_journal_blocks sb])))" for w us
      unfolding region_writes_def
      by (rule io_for_trace) (use write_journal_blocks_trace [OF assms(1) cap] in auto)
    then show ?thesis
      using published_write_all [OF jb, of v empty_anchor_block region] write_journal_blocks_trace [OF assms(1) cap jb]
      by (cases "1 < sb_journal_blocks sb")
        (simp_all add: store_empty_trace [OF assms(1)] io_simps io_when_def store_events_def)
  qed
  have fin: "io_bind (io_lift (ok_or InvalidInput (checked_add 32 (length payload)))) (\<lambda>used.
      if used > capacity then io_fail InvalidInput else
      let region = active_region capacity payload in
      io_seq (store_empty_journal_anchor (trace_device n) sb)
      (io_seq (io_for (rev [1..<sb_journal_blocks sb]) (write_region_block (trace_device n) sb region))
      (io_seq (io_when (sb_journal_blocks sb > 1) (flush (trace_device n)))
      (io_seq (write_region_block (trace_device n) sb region 0) (flush (trace_device n)))))) (v, tr)
      = (if 32 + length payload > capacity then (Inl InvalidInput, v, tr)
         else (Inr (), published sb (active_region capacity payload) v, tr @ store_events sb (active_region capacity payload)))"
    if cap: "region_capacity sb = Inr capacity" for capacity payload
    using cap pub [OF cap]
    by (cases "32 + length payload < U64_LIMIT") (simp_all add: checked_add_def region_capacity_Inr Let_def io_simps)
  show ?thesis
    unfolding store_outcome_def
    by (simp add: store_journal_image_def vr load_trace [OF assms] io_simps store_empty_trace [OF assms(1)]
        REGION_HEADER_SIZE_def fin split: sum.splits)
qed

lemma published_other: "b = 0 \<or> 1 + sb_journal_blocks sb \<le> b \<Longrightarrow> published sb region v b = v b"
  by (auto simp: published_def)

lemma region_bytes_published:
  assumes "sb_journal_start sb = 1" and "length region = sb_journal_blocks sb * BLOCK_SIZE"
  shows "region_bytes sb (published sb region v) = region"
proof -
  have "map (published sb region v) [1..<1 + sb_journal_blocks sb]
      = map (\<lambda>i. published sb region v (1 + i)) [0..<sb_journal_blocks sb]"
    using map_shift_upt [of "published sb region v" 1 0 "sb_journal_blocks sb"] by simp
  also have "\<dots> = map (\<lambda>i. get_bytes (i * BLOCK_SIZE) BLOCK_SIZE region) [0..<sb_journal_blocks sb]"
    by (auto simp: published_def chunk_def)
  finally show ?thesis using concat_chunks [OF assms(2)] by (simp add: region_bytes_def assms(1))
qed

lemma load_published:
  assumes c: "check_region sb n = Inr ()" and cap: "region_capacity sb = Inr capacity"
    and fit: "32 + length (entries_bytes es) \<le> capacity" and "es \<noteq> []"
    and "\<forall>e \<in> set es. entry_ok e" and "validate_entries sb es = Inr ()"
  shows "load_disk sb (published sb (active_region capacity (entries_bytes es)) v) = Inr es"
proof -
  let ?r = "active_region capacity (entries_bytes es)" and ?p = "entries_bytes es"
  let ?c = "le_bytes 4 (unat (crc32 (v2_layout REGION_STATE_ACTIVE ?p (zeroes 4) 0)))"
  from c have s: "sb_journal_start sb = 1" "0 < sb_journal_blocks sb" by (simp_all add: check_region_Inr)
  have r: "?r = v2_layout REGION_STATE_ACTIVE ?p ?c (capacity - 32 - length ?p)"
    using fit by (simp add: active_region_layout v2_sealed_def)
  have first: "published sb ?r v 1 = get_bytes 0 BLOCK_SIZE ?r"
    using s by (simp add: published_def chunk_def)
  have g: "get_bytes 0 4 (get_bytes 0 BLOCK_SIZE ?r) = REGION_MAGIC_V2"
    "read_u16 (get_bytes 0 BLOCK_SIZE ?r) 6 = REGION_STATE_ACTIVE"
    by (simp_all add: read_u16_def get_bytes_inner BLOCK_SIZE_def r v2_layout_get REGION_STATE_ACTIVE_def)
  have "is_v2_empty_anchor (published sb ?r v 1) = Inr False" and "decode_v3_anchor (published sb ?r v 1) = Inr None"
    unfolding first
    by (simp_all add: is_v2_empty_anchor_def decode_v3_anchor_def g REGION_STATE_EMPTY_def REGION_STATE_ACTIVE_def)
  moreover have "region_bytes sb (published sb ?r v) = ?r"
    using region_bytes_published [OF s(1)] fit cap by (simp add: length_active_region region_capacity_Inr)
  moreover have "decode_journal_region sb ?r = Inr es"
    using assms(3-6) cap by (intro decode_active_region) (simp_all add: region_capacity_Inr)
  ultimately show ?thesis using cap by (simp add: load_disk_def s(1))
qed

text \<open>Every crash during a publication leaves the old empty journal or the complete new one.\<close>

lemma store_events_crash:
  assumes c: "check_region sb n = Inr ()" and empty: "load_disk sb v = Inr []"
    and w: "w \<in> crash_disks v (store_events sb region)"
  shows "(\<forall>b. b = 0 \<or> 1 + sb_journal_blocks sb \<le> b \<longrightarrow> w b = v b) \<and>
    (load_disk sb w = Inr [] \<or> w = published sb region v)"
proof -
  from c have s: "sb_journal_start sb = 1" "0 < sb_journal_blocks sb" by (simp_all add: check_region_Inr)
  let ?v1 = "v(1 := empty_anchor_block)" and ?ws = "region_writes region (rev [1..<sb_journal_blocks sb])"
  let ?v2 = "write_all ?v1 ?ws"
  have fin: "?v2(1 := chunk region 0) = published sb region v" by (rule published_write_all [OF s(2)])
  have v2: "?v2 1 = empty_anchor_block" by (simp add: write_all_region)
  have out: "b \<notin> fst ` set ?ws" if "b = 0 \<or> 1 + sb_journal_blocks sb \<le> b" for b
    using that by (auto simp: region_writes_def)
  have "w = v \<or> w = ?v1 \<or> w \<in> crash_disks ?v1 (write_events ?ws) \<or> w = ?v2 \<or> w = ?v2(1 := chunk region 0)"
  proof (cases "1 < sb_journal_blocks sb")
    case True
    with w show ?thesis
      by (auto simp: store_events_def crash_disks_write_flush_more crash_disks_writes_flush crash_disks_empty)
  next
    case False
    with w show ?thesis
      by (auto simp: store_events_def crash_disks_write_flush_more crash_disks_empty region_writes_def)
  qed
  then consider "w = v" | "w = ?v1" | "w \<in> crash_disks ?v1 (write_events ?ws)" | "w = ?v2" | "w = published sb region v"
    using fin by blast
  then show ?thesis
  proof cases
    case 3
    then obtain us where us: "w = write_all ?v1 us" "set us \<subseteq> set ?ws" by (rule crash_disks_writes_subseq)
    have "w b = ?v1 b" if "b \<notin> fst ` set ?ws" for b
      unfolding us(1) using us(2) that by (intro write_all_other) auto
    moreover have "1 \<notin> fst ` set ?ws" by (auto simp: region_writes_def)
    ultimately show ?thesis using out s by (auto intro!: load_disk_empty)
  qed (use empty v2 s out write_all_other [of _ ?ws ?v1] in
      \<open>auto simp: load_disk_empty published_other\<close>)
qed

section \<open>Loaded logs are well formed\<close>

fun entry_home :: "superblock \<Rightarrow> journal_entry \<Rightarrow> bool" where
  "entry_home sb (Write _ b _) = home_target sb b"
| "entry_home sb _ = True"

lemma validate_entries_loop_iff:
  "validate_entries_loop sb es (map_option fst opn) =
     (if parse_log es opn \<noteq> None \<and> list_all (entry_home sb) es then Inr () else Inl InvalidData)"
  by (induction es opn rule: parse_log.induct) auto

lemma validate_entries_Inr:
  "validate_entries sb es = Inr () \<longleftrightarrow> well_formed_log es \<and> list_all (entry_home sb) es"
  using validate_entries_loop_iff [of sb es None] by (simp add: validate_entries_def well_formed_log_def)

lemma committed_writes_entries:
  assumes "well_formed_log es" and "(b, d) \<in> set (committed_writes es)"
  shows "\<exists>t. Write t b d \<in> set es"
proof -
  from assms(1) obtain ts opn where p: "parse_log es None = Some (ts, opn)" by (auto simp: well_formed_log_def)
  with assms(2) obtain t ws where tx: "(t, ws) \<in> set ts" "(b, d) \<in> set ws"
    by (auto simp: committed_writes_def transactions_def)
  then have "Write t b d \<in> set (txn_entries (t, ws))" by (force simp: txn_entries_def open_entries_def)
  moreover have "set (txn_entries (t, ws)) \<subseteq> set es"
    using p tx(1) by (auto simp: parse_log_iff)
  ultimately show ?thesis by blast
qed

lemma committed_writes_ok:
  assumes "load_disk sb v = Inr es" and "(b, d) \<in> set (committed_writes es)"
  shows "home_target sb b" and "length d = BLOCK_SIZE"
proof -
  have "validate_entries sb es = Inr ()" by (rule load_disk_valid [OF assms(1)])
  moreover from this committed_writes_entries [OF _ assms(2)] obtain t where "Write t b d \<in> set es"
    by (auto simp: validate_entries_Inr)
  ultimately show "home_target sb b" and "length d = BLOCK_SIZE"
    using load_disk_entries_ok [OF assms(1)] by (auto simp: validate_entries_Inr list_all_iff dest!: bspec)
qed

lemma home_target_range:
  assumes "geometry_ok sb" and "home_target sb b"
  shows "sb_allocation_start sb \<le> b" and "b < sb_total_blocks sb" and "1 + sb_journal_blocks sb \<le> b"
  using assms(2) geometry_ranges [OF assms(1)] geometry_order [OF assms(1)] geometry_okD(6) [OF assms(1)]
  by (auto simp: home_target_def)

lemma decode_journal_region_length:
  "decode_journal_region sb region = Inr es \<Longrightarrow> 32 * length es \<le> length region"
  by (auto simp: decode_journal_region_def Let_def res_bind_Inr get_bytes_def split: if_splits
      dest!: decode_entries_length)

lemma load_disk_length:
  assumes "check_region sb n = Inr ()" and "disk_ok n v" and "load_disk sb v = Inr es"
  shows "length es < U64_LIMIT"
proof -
  let ?jb = "sb_journal_blocks sb"
  from assms(1) have r: "sb_journal_start sb = 1" "1 + ?jb \<le> n" by (simp_all add: check_region_Inr)
  have "\<forall>b \<in> set (map v [1..<1 + ?jb]). length b = BLOCK_SIZE" using assms(2) r(2) by (auto simp: disk_ok_def)
  from length_concat_uniform [OF this] have len: "length (region_bytes sb v) = ?jb * BLOCK_SIZE"
    by (simp add: region_bytes_def r(1))
  from assms(3) consider "es = []"
    | capacity where "region_capacity sb = Inr capacity" "decode_journal_region sb (region_bytes sb v) = Inr es"
    | l a where "v3_bank_layout sb = Inr l" "v3_payload_len a \<le> bank_capacity l"
        "decode_v3_payload sb a (bank_bytes sb l (v3_bank a) v) = Inr es"
    by (auto simp: load_disk_def Let_def res_bind_Inr not_less split: if_splits option.splits)
  then show ?thesis
  proof cases
    case (2 capacity)
    with decode_journal_region_length [OF 2(2)] len show ?thesis by (simp add: region_capacity_Inr)
  next
    case (3 l a)
    from 3(3) have "32 * length es \<le> v3_payload_len a"
      by (auto simp: decode_v3_payload_def Let_def res_bind_Inr split: if_splits dest!: decode_entries_length)
    with 3(2) v3_layout_Inr(4) [OF 3(1)] show ?thesis by simp
  qed simp
qed

end
