(* ===== verification/Recovery.thy ===== *)
theory Recovery
  imports Journal_Image
begin

text \<open>
  Recovery and checkpointing: \<open>recovery.rs\<close> and the unchecked part of \<open>journal_checkpoint.rs\<close>.
  Recovery is described as a function of the disk (\<open>recovered\<close>); the crash lemmas show that every
  state a crash during recovery or publication leaves behind leads recovery to the same result.
\<close>

record recovery_report =
  committed_transactions :: nat
  home_writes :: nat

record recovery_plan =
  plan_writes :: "block_write list"
  plan_report :: recovery_report

fun plan_loop :: "journal_entry list \<Rightarrow> transaction_id option \<Rightarrow> block_write list \<Rightarrow> block_write list \<Rightarrow> nat
    \<Rightarrow> recovery_plan io_result" where
  "plan_loop [] active pending writes committed =
     Inr \<lparr>plan_writes = writes,
          plan_report = \<lparr>committed_transactions = committed, home_writes = length writes\<rparr>\<rparr>"
| "plan_loop (Begin txid # es) active pending writes committed =
     (if active \<noteq> None then Inl InvalidData else plan_loop es (Some txid) [] writes committed)"
| "plan_loop (Write txid block data # es) active pending writes committed =
     (if active \<noteq> Some txid then Inl InvalidData
      else plan_loop es active (pending @ [(block, data)]) writes committed)"
| "plan_loop (Commit txid # es) active pending writes committed =
     (if active \<noteq> Some txid then Inl InvalidData
      else
        let writes = writes @ pending in
        case checked_add committed 1 of
          None \<Rightarrow> Inl InvalidData
        | Some committed \<Rightarrow> plan_loop es None [] writes committed)"

definition plan_recovery :: "journal_entry list \<Rightarrow> recovery_plan io_result" where
  "plan_recovery entries = plan_loop entries None [] [] 0"

definition apply_plan :: "'d block_device \<Rightarrow> recovery_plan \<Rightarrow> ('d, recovery_report) dev_io" where
  "apply_plan D plan =
     io_seq (io_for (plan_writes plan) (\<lambda>(block, data). write_block D block data))
     (let report = plan_report plan in
      io_seq (io_when (home_writes report \<noteq> 0) (flush D))
      (io_return report))"

definition recover_journal :: "'d block_device \<Rightarrow> superblock \<Rightarrow> ('d, recovery_report) dev_io" where
  "recover_journal D sb =
     io_bind (load_journal_image D sb) (\<lambda>entries.
     io_bind (io_lift (plan_recovery entries)) (\<lambda>plan.
     apply_plan D plan))"

definition checkpoint_journal :: "'d block_device \<Rightarrow> superblock \<Rightarrow> ('d, bool) dev_io" where
  "checkpoint_journal D sb =
     io_bind (load_journal_image D sb) (\<lambda>entries.
     if entries = [] then io_return False
     else io_seq (store_empty_journal_anchor D sb) (io_return True))"

definition recover_journal_and_checkpoint :: "'d block_device \<Rightarrow> superblock \<Rightarrow> ('d, recovery_report) dev_io" where
  "recover_journal_and_checkpoint D sb =
     io_bind (recover_journal D sb) (\<lambda>report.
     io_bind (checkpoint_journal D sb) (\<lambda>_.
     io_return report))"

fun prefix_split_loop :: "journal_entry list \<Rightarrow> nat \<Rightarrow> nat \<Rightarrow> transaction_id option \<Rightarrow> nat \<Rightarrow> nat \<Rightarrow> nat io_result" where
  "prefix_split_loop [] index total_len active committed max_transactions =
     (if active \<noteq> None then Inl InvalidData else if committed = 0 then Inl InvalidData else Inr total_len)"
| "prefix_split_loop (Begin txid # es) index total_len active committed max_transactions =
     (if active \<noteq> None then Inl InvalidData
      else prefix_split_loop es (index + 1) total_len (Some txid) committed max_transactions)"
| "prefix_split_loop (Write txid _ _ # es) index total_len active committed max_transactions =
     (if active \<noteq> Some txid then Inl InvalidData
      else prefix_split_loop es (index + 1) total_len active committed max_transactions)"
| "prefix_split_loop (Commit txid # es) index total_len active committed max_transactions =
     (if active \<noteq> Some txid then Inl InvalidData
      else case checked_add committed 1 of
        None \<Rightarrow> Inl InvalidData
      | Some committed \<Rightarrow>
          if committed = max_transactions then Inr (index + 1)
          else prefix_split_loop es (index + 1) total_len None committed max_transactions)"

definition retained_prefix_split :: "journal_entry list \<Rightarrow> nat \<Rightarrow> nat io_result" where
  "retained_prefix_split entries max_transactions =
     prefix_split_loop entries 0 (length entries) None 0 max_transactions"

section \<open>Planning follows the log specification\<close>

lemma plan_loop_ok:
  assumes "parse_log es opn = Some (ts, opn')" and "n + length ts < U64_LIMIT"
    and "active = map_option fst opn" and "\<And>t ws. opn = Some (t, ws) \<Longrightarrow> pending = ws"
  shows "plan_loop es active pending writes n = Inr \<lparr>plan_writes = writes @ concat (map snd ts),
     plan_report = \<lparr>committed_transactions = n + length ts, home_writes = length (writes @ concat (map snd ts))\<rparr>\<rparr>"
  using assms
proof (induction es opn arbitrary: ts n active pending writes rule: parse_log.induct)
  case (4 t es t' ws)
  then obtain us where us: "t = t'" "parse_log es None = Some (us, opn')" "ts = (t', ws) # us"
    by (auto split: if_splits)
  with 4(1) [of us "Suc n" None "[]" "writes @ ws"] 4(3-) show ?case by (simp add: checked_add_def)
qed (auto split: if_splits)

lemma plan_recovery_ok:
  assumes "well_formed_log es" and "length es < U64_LIMIT"
  shows "plan_recovery es = Inr \<lparr>plan_writes = committed_writes es,
     plan_report = \<lparr>committed_transactions = length (transactions es), home_writes = length (committed_writes es)\<rparr>\<rparr>"
proof -
  from assms(1) obtain ts opn where p: "parse_log es None = Some (ts, opn)" by (auto simp: well_formed_log_def)
  have "length ts < U64_LIMIT"
    using parse_log_commits [OF p] le_less_trans [OF length_filter_le assms(2)] by simp
  with plan_loop_ok [OF p, of 0 None "[]" "[]"] p show ?thesis
    by (simp add: plan_recovery_def committed_writes_def transactions_def)
qed

section \<open>The same on every reliable device\<close>

lemma plan_loop_data:
  assumes "plan_loop es active pending writes k = Inr plan" and "\<forall>e \<in> set es. entry_ok e"
    and "\<forall>(b, d) \<in> set pending \<union> set writes. length d = BLOCK_SIZE"
  shows "\<forall>(b, d) \<in> set (plan_writes plan). length d = BLOCK_SIZE"
  using assms
  by (induction es active pending writes k rule: plan_loop.induct) (auto simp: Let_def split: if_splits option.splits)

lemma plan_recovery_data:
  "plan_recovery es = Inr plan \<Longrightarrow> \<forall>e \<in> set es. entry_ok e \<Longrightarrow> \<forall>(b, d) \<in> set (plan_writes plan). length d = BLOCK_SIZE"
  using plan_loop_data [of es None "[]" "[]" 0 plan] by (simp add: plan_recovery_def)

context device_sim
begin

lemma sim_apply_plan:
  assumes "\<forall>(b, d) \<in> set (plan_writes plan). length d = BLOCK_SIZE"
  shows "dev_sim P abst (\<lambda>_. True) (apply_plan D plan) (apply_plan E plan)"
  unfolding apply_plan_def Let_def using assms
  by (intro sim_seq [where Q = "\<lambda>_. True"] sim_for sim_when sim_return sim_flush sim_prod sim_write) auto

lemma sim_recover_journal:
  "dev_sim P abst (\<lambda>_. True) (recover_journal D sb) (recover_journal E sb)"
  unfolding recover_journal_def
  by (rule sim_bind [OF sim_load_journal_image] sim_bind_lift sim_apply_plan plan_recovery_data | assumption)+

lemma sim_checkpoint_journal:
  "dev_sim P abst (\<lambda>_. True) (checkpoint_journal D sb) (checkpoint_journal E sb)"
  unfolding checkpoint_journal_def
  by (rule sim_bind [OF sim_load_journal_image] sim_if sim_seq [OF sim_store_empty] sim_return | simp)+

lemma sim_recover_journal_and_checkpoint:
  "dev_sim P abst (\<lambda>_. True) (recover_journal_and_checkpoint D sb) (recover_journal_and_checkpoint E sb)"
  unfolding recover_journal_and_checkpoint_def
  by (rule sim_bind [OF sim_recover_journal] sim_bind [OF sim_checkpoint_journal] sim_return | simp)+

end

section \<open>Recovery as a function of the disk\<close>

definition plan_events :: "block_write list \<Rightarrow> dev_event list" where
  "plan_events ws = write_events ws @ (if ws = [] then [] else [FlushEv])"

definition recovered :: "journal_entry list \<Rightarrow> disk \<Rightarrow> disk" where
  "recovered es v = (if es = [] then v else (write_all v (committed_writes es))(1 := empty_anchor_block))"

definition recovery_events :: "journal_entry list \<Rightarrow> dev_event list" where
  "recovery_events es =
     (if es = [] then [] else plan_events (committed_writes es) @ [WriteEv 1 empty_anchor_block, FlushEv])"

definition report_of :: "journal_entry list \<Rightarrow> recovery_report" where
  "report_of es = \<lparr>committed_transactions = length (transactions es), home_writes = length (committed_writes es)\<rparr>"

lemma apply_plan_trace:
  assumes "\<forall>(b, bs) \<in> set ws. b < n"
  shows "apply_plan (trace_device n) \<lparr>plan_writes = ws, plan_report = \<lparr>committed_transactions = k, home_writes = length ws\<rparr>\<rparr> (v, tr)
     = (Inr \<lparr>committed_transactions = k, home_writes = length ws\<rparr>, write_all v ws, tr @ plan_events ws)"
proof -
  have "io_for ws (\<lambda>(b, bs). write_block (trace_device n) b bs) (v, tr)
      = (Inr (), write_all v (map (\<lambda>x. (fst x, snd x)) ws), tr @ write_events (map (\<lambda>x. (fst x, snd x)) ws))"
    using assms by (intro io_for_trace) auto
  then show ?thesis by (simp add: apply_plan_def Let_def io_simps io_when_def plan_events_def)
qed

lemma write_all_home:
  assumes "geometry_ok sb" and "load_disk sb v = Inr es" and "b < 1 + sb_journal_blocks sb"
  shows "b \<notin> fst ` set (committed_writes es)"
  using home_target_range(3) [OF assms(1) committed_writes_ok(1) [OF assms(2)]] assms(3) by fastforce

lemma load_write_all_home:
  assumes "geometry_ok sb" and "load_disk sb v = Inr es" and "\<forall>b. b \<notin> fst ` set (committed_writes es) \<longrightarrow> w b = v b"
  shows "load_disk sb w = Inr es"
proof -
  have "load_disk sb w = load_disk sb v"
    using assms(3) write_all_home [OF assms(1,2)]
    by (intro load_disk_cong [OF geometry_check_region [OF assms(1)]]) auto
  with assms(2) show ?thesis by simp
qed

lemma disk_ok_write_all: "disk_ok n v \<Longrightarrow> \<forall>(b, bs) \<in> set ws. length bs = BLOCK_SIZE \<Longrightarrow> disk_ok n (write_all v ws)"
proof (unfold disk_ok_def, intro allI impI)
  fix b assume v: "\<forall>b < n. length (v b) = BLOCK_SIZE" and ws: "\<forall>(b, bs) \<in> set ws. length bs = BLOCK_SIZE" and "b < n"
  from write_all_cases [of v ws b] show "length (write_all v ws b) = BLOCK_SIZE"
    using v ws \<open>b < n\<close> by auto
qed

lemma recover_journal_trace:
  assumes g: "geometry_ok sb" and n: "n = sb_total_blocks sb" and v: "disk_ok n v" and l: "load_disk sb v = Inr es"
  shows "recover_journal (trace_device n) sb (v, tr)
     = (Inr (report_of es), write_all v (committed_writes es), tr @ plan_events (committed_writes es))"
proof -
  have c: "check_region sb n = Inr ()" using geometry_check_region [OF g] n by simp
  have "well_formed_log es" using load_disk_valid [OF l] by (simp add: validate_entries_Inr)
  with load_disk_length [OF c v l] have p: "plan_recovery es = Inr \<lparr>plan_writes = committed_writes es,
      plan_report = \<lparr>committed_transactions = length (transactions es), home_writes = length (committed_writes es)\<rparr>\<rparr>"
    by (intro plan_recovery_ok)
  have "\<forall>(b, bs) \<in> set (committed_writes es). b < n"
    using home_target_range(2) [OF g committed_writes_ok(1) [OF l]] n by auto
  with load_trace [OF c v] l p apply_plan_trace show ?thesis
    by (simp add: recover_journal_def io_simps report_of_def)
qed

lemma disk_ok_recovered:
  assumes "disk_ok n v" and "load_disk sb v = Inr es"
  shows "disk_ok n (write_all v (committed_writes es))" and "disk_ok n (recovered es v)"
proof -
  show 1: "disk_ok n (write_all v (committed_writes es))"
    using assms committed_writes_ok(2) [OF assms(2)] by (intro disk_ok_write_all) auto
  show "disk_ok n (recovered es v)"
    using 1 assms(1) by (auto simp: recovered_def disk_ok_def)
qed

lemma recover_trace:
  assumes g: "geometry_ok sb" and n: "n = sb_total_blocks sb" and v: "disk_ok n v" and l: "load_disk sb v = Inr es"
  shows "recover_journal_and_checkpoint (trace_device n) sb (v, tr)
     = (Inr (report_of es), recovered es v, tr @ recovery_events es)"
proof -
  let ?w = "write_all v (committed_writes es)"
  have c: "check_region sb n = Inr ()" using geometry_check_region [OF g] n by simp
  have "load_disk sb ?w = Inr es"
    by (rule load_write_all_home [OF g l]) (simp add: write_all_other)
  with load_trace [OF c disk_ok_recovered(1) [OF v l]] have "load_journal_image (trace_device n) sb (?w, tr') = (Inr es, ?w, tr')" for tr'
    by simp
  moreover have "committed_writes [] = []" by (simp add: committed_writes_def transactions_def)
  ultimately show ?thesis
    by (cases "es = []") (simp_all add: recover_journal_and_checkpoint_def recover_journal_trace [OF assms] io_bind_assoc checkpoint_journal_def io_simps
        store_empty_trace [OF c] recovered_def recovery_events_def plan_events_def)
qed

lemma load_recovered:
  assumes "geometry_ok sb" and "load_disk sb v = Inr es"
  shows "load_disk sb (recovered es v) = Inr []"
  using assms geometry_okD(1) [OF assms(1)] by (simp add: recovered_def load_disk_empty)

section \<open>Crashes during recovery\<close>

lemma write_all_absorb:
  assumes "\<forall>b. b \<notin> fst ` set ws \<longrightarrow> w b = v b"
  shows "write_all w ws = write_all v ws"
proof (rule ext)
  fix b
  have "w b = v b \<or> b \<in> fst ` set ws \<Longrightarrow> write_all w ws b = write_all v ws b" for w v
  proof (induction ws arbitrary: w v)
    case (Cons u us)
    obtain c bs where u: "u = (c, bs)" by fastforce
    have "(w(c := bs)) b = (v(c := bs)) b \<or> b \<in> fst ` set us" using Cons.prems by (auto simp: u)
    then show ?case unfolding u write_all_simps by (rule Cons.IH)
  qed simp
  with assms show "write_all w ws b = write_all v ws b" by blast
qed

lemma recovery_crash:
  assumes g: "geometry_ok sb" and l: "load_disk sb v = Inr es" and w: "w \<in> crash_disks v (recovery_events es)"
  shows "\<exists>fs. load_disk sb w = Inr fs \<and> recovered fs w = recovered es v"
proof (cases "es = []")
  case True
  with w l show ?thesis by (simp add: recovery_events_def crash_disks_empty recovered_def)
next
  case False
  let ?ws = "committed_writes es"
  have mid: ?thesis if "\<forall>b. b \<notin> fst ` set ?ws \<longrightarrow> w b = v b"
    using that False load_write_all_home [OF g l that] write_all_absorb [OF that]
    by (intro exI [of _ es]) (simp add: recovered_def)
  have "w \<in> crash_disks v (write_events ?ws) \<or> w = write_all v ?ws \<or> w = recovered es v"
    using w False
    by (cases "?ws = []")
      (auto simp: recovery_events_def plan_events_def crash_disks_writes_flush crash_disks_write_flush recovered_def)
  then show ?thesis
  proof (elim disjE)
    assume "w \<in> crash_disks v (write_events ?ws)"
    then obtain us where "w = write_all v us" and "set us \<subseteq> set ?ws" by (rule crash_disks_writes_subseq)
    then show ?thesis by (intro mid) (auto intro!: write_all_other)
  next
    assume "w = write_all v ?ws"
    then show ?thesis by (intro mid) (auto intro!: write_all_other)
  next
    assume "w = recovered es v"
    then show ?thesis using load_recovered [OF g l] by (intro exI [of _ "[]"]) (simp add: recovered_def)
  qed
qed

text \<open>Recovery on a device in memory, from a loadable disk.\<close>

lemma recover_mem:
  assumes "geometry_ok sb" and "n = sb_total_blocks sb" and "disk_ok n v" and "load_disk sb v = Inr es"
  shows "recover_journal_and_checkpoint (mem_device n) sb v = (Inr (report_of es), recovered es v)"
  using dev_simD(1) [OF tracing.to_mem.sim_recover_journal_and_checkpoint [of n n] _ recover_trace [OF assms, of "[]"]]
    assms(3) by simp

end
