(* ===== verification/Crash_Safety.thy ===== *)
theory Crash_Safety
  imports Recovery
begin

text \<open>
  The commit protocol of the journaled operations: publish the transaction in the journal region,
  replay it home, checkpoint. The lemmas quantify over every crash point and every subset of the
  writes not yet flushed; in each such state recovery succeeds, and afterwards all home blocks are
  the old ones or all are the new ones.
\<close>

definition publish_and_checkpoint ::
    "'d block_device \<Rightarrow> superblock \<Rightarrow> journal_entry list \<Rightarrow> ('d, recovery_report) dev_io" where
  "publish_and_checkpoint D sb entries =
     io_seq (store_journal_image D sb entries) (recover_journal_and_checkpoint D sb)"

text \<open>Blocks outside the journal region.\<close>

definition same_home :: "superblock \<Rightarrow> disk \<Rightarrow> disk \<Rightarrow> bool" where
  "same_home sb w v \<longleftrightarrow> (\<forall>b. b = 0 \<or> 1 + sb_journal_blocks sb \<le> b \<longrightarrow> w b = v b)"

lemma run_store_events:
  assumes "0 < sb_journal_blocks sb"
  shows "run_trace (store_events sb region) v [] = (published sb region v, [])"
proof (cases "1 < sb_journal_blocks sb")
  case True
  with published_write_all [OF assms, of v empty_anchor_block region] show ?thesis
    by (simp add: store_events_def run_trace_append run_trace_writes)
next
  case False
  with published_write_all [OF assms, of v empty_anchor_block region] show ?thesis
    by (simp add: store_events_def run_trace_append region_writes_def)
qed

lemma store_events_flush: "\<exists>evs. store_events sb region = evs @ [FlushEv]"
  by (simp add: store_events_def)

lemma crash_disks_then:
  assumes "run_trace evs v [] = (x, [])" and "evs = evs' @ [FlushEv]"
  shows "crash_disks v (evs @ us) \<subseteq> crash_disks v evs \<union> crash_disks x us"
proof -
  have "crash_disks v (evs @ us) = crash_disks v evs' \<union> crash_disks x us"
    using crash_disks_flush [of v evs' us] assms by simp
  moreover have "crash_disks v evs' \<subseteq> crash_disks v evs"
    using crash_disks_append [of v evs' "[FlushEv]"] assms(2) by simp
  ultimately show ?thesis by blast
qed

lemma store_events_data:
  assumes "length region = sb_journal_blocks sb * BLOCK_SIZE" and "0 < sb_journal_blocks sb"
    and "WriteEv b bs \<in> set (store_events sb region)"
  shows "length bs = BLOCK_SIZE"
  using assms length_chunk [OF _ assms(1)] length_chunk [OF assms(2,1)]
  by (auto simp: store_events_def region_writes_def chunk_def split: if_splits)

lemma recovery_events_data:
  assumes "load_disk sb v = Inr es" and "WriteEv b bs \<in> set (recovery_events es)"
  shows "length bs = BLOCK_SIZE"
  using assms committed_writes_ok(2) [OF assms(1)]
  by (auto simp: recovery_events_def plan_events_def split: if_splits)

text \<open>A successful publication, and what it leaves on the disk.\<close>

lemma store_outcome_Inr:
  assumes c: "check_region sb n = Inr ()" and v: "disk_ok n v" and "store_outcome sb es v = (Inr u, x, evs)"
    and ok: "\<forall>e \<in> set es. entry_ok e"
  shows "load_disk sb v = Inr []" and "load_disk sb x = Inr es" and "disk_ok n x" and "same_home sb x v"
    and "run_trace evs v [] = (x, [])" and "\<exists>evs'. evs = evs' @ [FlushEv]"
    and "\<And>b bs. WriteEv b bs \<in> set evs \<Longrightarrow> length bs = BLOCK_SIZE"
    and "w \<in> crash_disks v evs \<Longrightarrow> same_home sb w v \<and> (load_disk sb w = Inr [] \<or> w = x)"
proof -
  from c have s: "sb_journal_start sb = 1" "0 < sb_journal_blocks sb" by (simp_all add: check_region_Inr)
  from assms(3) have valid: "validate_entries sb es = Inr ()" and empty: "load_disk sb v = Inr []"
    by (auto simp: store_outcome_def split: sum.splits if_splits)
  show "load_disk sb v = Inr []" by (rule empty)
  consider (empty) "es = []" "x = v(1 := empty_anchor_block)" "evs = [WriteEv 1 empty_anchor_block, FlushEv]"
    | (active) capacity where "es \<noteq> []" "region_capacity sb = Inr capacity"
        "32 + length (entries_bytes es) \<le> capacity"
        "x = published sb (active_region capacity (entries_bytes es)) v"
        "evs = store_events sb (active_region capacity (entries_bytes es))"
    using assms(3) encode_entries_ok [OF ok] valid empty
    by (auto simp: store_outcome_def not_less split: sum.splits if_splits)
  then have "load_disk sb x = Inr es \<and> disk_ok n x \<and> same_home sb x v \<and> run_trace evs v [] = (x, []) \<and>
      (\<exists>evs'. evs = evs' @ [FlushEv]) \<and> (\<forall>b bs. WriteEv b bs \<in> set evs \<longrightarrow> length bs = BLOCK_SIZE) \<and>
      (w \<in> crash_disks v evs \<longrightarrow> same_home sb w v \<and> (load_disk sb w = Inr [] \<or> w = x))"
  proof cases
    case empty
    with s v \<open>load_disk sb v = Inr []\<close> show ?thesis
      by (auto simp: load_disk_empty disk_ok_def same_home_def crash_disks_write_flush)
  next
    case (active capacity)
    have len: "length (active_region capacity (entries_bytes es)) = sb_journal_blocks sb * BLOCK_SIZE"
      using active(2,3) by (simp add: length_active_region region_capacity_Inr)
    have "length (chunk (active_region capacity (entries_bytes es)) i) = BLOCK_SIZE" if "i < sb_journal_blocks sb" for i
      unfolding chunk_def by (rule length_chunk [OF that len])
    then have "disk_ok n x" using v by (auto simp: active(4) disk_ok_def published_def)
    moreover have "load_disk sb x = Inr es"
      unfolding active(4) by (rule load_published [OF c active(2,3,1) ok valid])
    ultimately show ?thesis
      using run_store_events [OF s(2)] store_events_flush store_events_data [OF len s(2)]
        store_events_crash [OF c empty] active(4,5) published_other
      by (auto simp: same_home_def)
  qed
  then show "load_disk sb x = Inr es" "disk_ok n x" "same_home sb x v" "run_trace evs v [] = (x, [])"
    "\<exists>evs'. evs = evs' @ [FlushEv]" "\<And>b bs. WriteEv b bs \<in> set evs \<Longrightarrow> length bs = BLOCK_SIZE"
    "w \<in> crash_disks v evs \<Longrightarrow> same_home sb w v \<and> (load_disk sb w = Inr [] \<or> w = x)"
    by blast+
qed

lemma publish_trace:
  assumes g: "geometry_ok sb" and n: "n = sb_total_blocks sb" and v: "disk_ok n v" and ok: "\<forall>e \<in> set es. entry_ok e"
  shows "publish_and_checkpoint (trace_device n) sb es (v, tr) =
    (case store_outcome sb es v of
       (Inl e, x, evs) \<Rightarrow> (Inl e, x, tr @ evs)
     | (Inr _, x, evs) \<Rightarrow> (Inr (report_of es), recovered es x, tr @ evs @ recovery_events es))"
proof -
  have c: "check_region sb n = Inr ()" using geometry_check_region [OF g] n by simp
  obtain r x evs where o: "store_outcome sb es v = (r, x, evs)" by (cases "store_outcome sb es v") auto
  show ?thesis
  proof (cases r)
    case (Inr u)
    with o have o': "store_outcome sb es v = (Inr u, x, evs)" by simp
    from recover_trace [OF g n store_outcome_Inr(3,2) [OF c v o' ok]] show ?thesis
      by (simp add: publish_and_checkpoint_def store_trace [OF c v] o' io_simps)
  qed (simp add: publish_and_checkpoint_def store_trace [OF c v] o io_simps)
qed

lemma store_outcome_Inl: "store_outcome sb es v = (Inl e, x, evs) \<Longrightarrow> x = v \<and> evs = []"
  by (auto simp: store_outcome_def split: sum.splits if_splits)

lemma publish_crash:
  assumes g: "geometry_ok sb" and n: "n = sb_total_blocks sb" and v: "disk_ok n v" and ok: "\<forall>e \<in> set es. entry_ok e"
    and run: "publish_and_checkpoint (trace_device n) sb es (v, []) = (Inr rep, v', tr)" and w: "w \<in> crash_disks v tr"
  shows "disk_ok n w" and "\<exists>fs. load_disk sb w = Inr fs \<and> (same_home sb (recovered fs w) v \<or> recovered fs w = v')"
proof -
  have c: "check_region sb n = Inr ()" using geometry_check_region [OF g] n by simp
  from run obtain u x evs where o: "store_outcome sb es v = (Inr u, x, evs)"
    and v': "v' = recovered es x" and tr: "tr = evs @ recovery_events es"
    unfolding publish_trace [OF g n v ok] by (auto split: sum.splits prod.splits)
  note s = store_outcome_Inr [OF c v o ok]
  obtain evs' where evs': "evs = evs' @ [FlushEv]" using s(6) by blast
  show "disk_ok n w"
    using crash_disks_ok [OF w v] s(7) recovery_events_data [OF s(2)] by (auto simp: tr)
  from w crash_disks_then [OF s(5) evs'] have "w \<in> crash_disks v evs \<or> w \<in> crash_disks x (recovery_events es)"
    by (auto simp: tr)
  then show "\<exists>fs. load_disk sb w = Inr fs \<and> (same_home sb (recovered fs w) v \<or> recovered fs w = v')"
  proof
    assume "w \<in> crash_disks v evs"
    from s(8) [OF this] s(2) v' show ?thesis by (auto simp: recovered_def)
  next
    assume "w \<in> crash_disks x (recovery_events es)"
    from recovery_crash [OF g s(2) this] v' show ?thesis by auto
  qed
qed

end
