(* ===== verification/BTree_Map.thy ===== *)
theory BTree_Map
  imports Main
begin

text \<open>
  \<open>std::collections::BTreeMap\<close> and \<open>BTreeSet\<close> as the source uses them: the entries in
  ascending key order. Iteration is the list itself, so the order in which the source
  visits entries is the order of the model. The locale \<open>ordered_map\<close> states what clients
  use of the collection, and the list operations are its instance.
\<close>

type_synonym ('k, 'v) btree_map = "('k \<times> 'v) list"

abbreviation bt_get :: "('k, 'v) btree_map \<Rightarrow> 'k \<Rightarrow> 'v option" where
  "bt_get \<equiv> map_of"

fun bt_insert :: "'k :: linorder \<Rightarrow> 'v \<Rightarrow> ('k, 'v) btree_map \<Rightarrow> ('k, 'v) btree_map" where
  "bt_insert k v [] = [(k, v)]"
| "bt_insert k v ((k', v') # m) =
     (if k < k' then (k, v) # (k', v') # m
      else if k = k' then (k, v) # m
      else (k', v') # bt_insert k v m)"

definition bt_remove :: "'k \<Rightarrow> ('k, 'v) btree_map \<Rightarrow> ('k, 'v) btree_map" where
  "bt_remove k m = filter (\<lambda>e. fst e \<noteq> k) m"

definition bt_inv :: "('k :: linorder, 'v) btree_map \<Rightarrow> bool" where
  "bt_inv m \<longleftrightarrow> sorted_wrt (<) (map fst m)"

definition bt_of_list :: "('k :: linorder \<times> 'v) list \<Rightarrow> ('k, 'v) btree_map" where
  "bt_of_list xs = fold (\<lambda>(k, v). bt_insert k v) xs []"

text \<open>\<open>BTreeSet::insert\<close> reports whether the element is new.\<close>

definition bt_set_insert :: "'k :: linorder \<Rightarrow> 'k list \<Rightarrow> bool \<times> 'k list" where
  "bt_set_insert k s = (if k \<in> set s then (False, s) else (True, insort k s))"

section \<open>What clients use of a map\<close>

locale ordered_map =
  fixes lookup :: "'m \<Rightarrow> 'k :: linorder \<Rightarrow> 'v option" and insert_entry :: "'k \<Rightarrow> 'v \<Rightarrow> 'm \<Rightarrow> 'm"
    and remove_entry :: "'k \<Rightarrow> 'm \<Rightarrow> 'm" and entries_of :: "'m \<Rightarrow> ('k \<times> 'v) list" and minv :: "'m \<Rightarrow> bool"
  assumes lookup_insert: "minv m \<Longrightarrow> lookup (insert_entry k v m) = (lookup m)(k \<mapsto> v)"
    and lookup_remove: "minv m \<Longrightarrow> lookup (remove_entry k m) = (lookup m)(k := None)"
    and insert_inv: "minv m \<Longrightarrow> minv (insert_entry k v m)"
    and remove_inv: "minv m \<Longrightarrow> minv (remove_entry k m)"
    and entries_lookup: "minv m \<Longrightarrow> (k, v) \<in> set (entries_of m) \<longleftrightarrow> lookup m k = Some v"
    and entries_sorted: "minv m \<Longrightarrow> sorted_wrt (<) (map fst (entries_of m))"
begin

lemma entries_insert_new:
  assumes "minv m" and "lookup m k = None"
  shows "set (entries_of (insert_entry k v m)) = Set.insert (k, v) (set (entries_of m))"
proof -
  have "(k', v') \<in> set (entries_of (insert_entry k v m)) \<longleftrightarrow>
      (k', v') \<in> Set.insert (k, v) (set (entries_of m))" for k' v'
    using assms by (auto simp: entries_lookup insert_inv lookup_insert)
  then show ?thesis by auto
qed

lemma entries_remove:
  assumes "minv m"
  shows "set (entries_of (remove_entry k m)) = {e \<in> set (entries_of m). fst e \<noteq> k}"
proof -
  have "(k', v') \<in> set (entries_of (remove_entry k m)) \<longleftrightarrow>
      (k', v') \<in> {e \<in> set (entries_of m). fst e \<noteq> k}" for k' v'
    using assms by (auto simp: entries_lookup remove_inv lookup_remove)
  then show ?thesis by auto
qed

end

section \<open>The sorted list is an instance\<close>

lemma bt_inv_simps [simp]:
  "bt_inv []"
  "bt_inv ((k, v) # m) \<longleftrightarrow> (\<forall>x \<in> set m. k < fst x) \<and> bt_inv m"
  by (auto simp: bt_inv_def)

lemma bt_inv_distinct: "bt_inv m \<Longrightarrow> distinct (map fst m)"
  by (auto simp: bt_inv_def dest: strict_sorted_imp_sorted simp: strict_sorted_iff)

lemma map_of_above: "\<forall>x \<in> set m. k < fst x \<Longrightarrow> map_of m (k :: 'k :: linorder) = None"
  by (auto simp: map_of_eq_None_iff)

lemma set_bt_insert: "fst ` set (bt_insert k v m) = Set.insert k (fst ` set m)"
  by (induction k v m rule: bt_insert.induct) auto

lemma bt_insert_inv: "bt_inv m \<Longrightarrow> bt_inv (bt_insert k v m)"
proof (induction k v m rule: bt_insert.induct)
  case (2 k v k' v' m)
  have "\<forall>x \<in> set (bt_insert k v m). k' < fst x" if "k' < k"
    using set_bt_insert [of k v m] that 2(2) by (metis (no_types, lifting) bt_inv_simps(2) image_iff insertE)
  with 2 show ?case by auto
qed simp

lemma bt_get_insert: "bt_get (bt_insert k v m) = (bt_get m)(k \<mapsto> v)"
  by (induction k v m rule: bt_insert.induct) (auto simp: fun_eq_iff)

lemma bt_remove_inv: "bt_inv m \<Longrightarrow> bt_inv (bt_remove k m)"
  by (simp add: bt_inv_def bt_remove_def sorted_wrt_filter sorted_wrt_map)

lemma bt_get_remove: "bt_get (bt_remove k m) = (bt_get m)(k := None)"
  by (induction m) (auto simp: bt_remove_def)

interpretation bt: ordered_map map_of bt_insert bt_remove "\<lambda>m. m" bt_inv
proof (unfold_locales, goal_cases)
  case (5 m k v)
  then show ?case by (simp add: bt_inv_distinct)
next
  case (6 m)
  then show ?case by (simp add: bt_inv_def)
qed (simp_all add: bt_get_insert bt_get_remove bt_insert_inv bt_remove_inv)

lemma bt_of_list_inv: "bt_inv (bt_of_list xs)"
proof -
  have "bt_inv m \<Longrightarrow> bt_inv (fold (\<lambda>(k, v). bt_insert k v) xs m)" for m
    by (induction xs arbitrary: m) (auto simp: bt_insert_inv)
  then show ?thesis by (simp add: bt_of_list_def)
qed

lemma bt_get_of_list: "bt_get (bt_of_list xs) = foldl (\<lambda>h (k, v). h(k \<mapsto> v)) Map.empty xs"
proof -
  have "bt_inv m \<Longrightarrow> bt_get (fold (\<lambda>(k, v). bt_insert k v) xs m) = foldl (\<lambda>h (k, v). h(k \<mapsto> v)) (bt_get m) xs" for m
    by (induction xs arbitrary: m) (auto simp: bt_insert_inv bt_get_insert)
  then show ?thesis by (simp add: bt_of_list_def)
qed

lemma bt_set_insert_iff: "bt_set_insert k s = (b, s') \<Longrightarrow> (b \<longleftrightarrow> k \<notin> set s) \<and> set s' = Set.insert k (set s)"
  by (auto simp: bt_set_insert_def set_insort_key split: if_splits)

section \<open>Maps collected from a list\<close>

lemma bt_of_list_keys: "fst ` set (bt_of_list xs) = fst ` set xs"
proof -
  have "fst ` set (fold (\<lambda>(k, v). bt_insert k v) xs m) = fst ` set xs \<union> fst ` set m" for m
    by (induction xs arbitrary: m) (simp_all add: set_bt_insert case_prod_beta)
  then show ?thesis by (simp add: bt_of_list_def)
qed

lemma bt_of_list_length: "length (bt_of_list xs) = card (fst ` set xs)"
  using bt_inv_distinct [OF bt_of_list_inv, of xs] bt_of_list_keys [of xs]
  by (metis distinct_card length_map set_map)

lemma bt_of_list_length_iff: "length (bt_of_list xs) = length xs \<longleftrightarrow> distinct (map fst xs)"
  by (metis bt_of_list_length card_distinct distinct_card length_map set_map)

lemma bt_get_of_list_distinct:
  assumes "distinct (map fst xs)"
  shows "bt_get (bt_of_list xs) = map_of xs"
  using assms
proof (induction xs rule: rev_induct)
  case (snoc x xs)
  obtain k v where x: "x = (k, v)" by fastforce
  have "bt_of_list (xs @ [(k, v)]) = bt_insert k v (bt_of_list xs)" by (simp add: bt_of_list_def)
  with snoc x show ?case by (auto simp: fun_eq_iff bt_get_insert map_add_def dest: map_of_SomeD split: option.splits) force
qed (simp add: bt_of_list_def)

lemma set_bt_of_list:
  assumes "distinct (map fst xs)"
  shows "set (bt_of_list xs) = set xs"
proof -
  have "(k, v) \<in> set (bt_of_list xs) \<longleftrightarrow> (k, v) \<in> set xs" for k v
    using bt.entries_lookup [OF bt_of_list_inv, of k v xs] bt_get_of_list_distinct [OF assms] assms by simp
  then show ?thesis by auto
qed

end
