(* ===== verification/Metadata_Region.thy ===== *)
theory Metadata_Region
  imports Journal_Image
begin

text \<open>
  The code that \<open>allocation_disk.rs\<close>, \<open>inode_table.rs\<close> and \<open>directory_table.rs\<close> share word for
  word: reading and writing a reserved region as one image (tail blocks before the
  header-bearing first block), and the checksummed table of self-delimiting records. The three
  components instantiate these definitions.

  The locale \<open>record_codec\<close> states what a table needs from its record codec; the table round
  trip and the detection of damage are proved in it once.
\<close>

section \<open>Region images\<close>

definition region_len :: "u64 \<Rightarrow> nat io_result" where
  "region_len blocks = ok_or InvalidInput (checked_mul blocks BLOCK_SIZE)"

definition read_region :: "'d block_device \<Rightarrow> error_kind \<Rightarrow> u64 list \<Rightarrow> u64 \<Rightarrow> ('d, byte list) dev_io" where
  "read_region D overflow rng blocks =
     io_bind (io_lift (region_len blocks)) (\<lambda>capacity.
     io_bind (io_map (enumerate 0 rng) (\<lambda>(index, block).
       io_bind (io_lift (ok_or overflow (checked_mul index BLOCK_SIZE))) (\<lambda>start.
       read_block D block))) (\<lambda>data.
     io_return (assemble data capacity)))"

definition write_image_block :: "'d block_device \<Rightarrow> u64 \<Rightarrow> byte list \<Rightarrow> nat \<Rightarrow> ('d, unit) dev_io" where
  "write_image_block D block img index =
     io_bind (io_lift (ok_or InvalidInput (checked_mul index BLOCK_SIZE))) (\<lambda>start.
     write_block D block (get_bytes start BLOCK_SIZE img))"

definition write_region :: "'d block_device \<Rightarrow> u64 list \<Rightarrow> u64 \<Rightarrow> byte list \<Rightarrow> ('d, unit) dev_io" where
  "write_region D rng blocks img =
     io_bind (io_lift (region_len blocks)) (\<lambda>capacity.
     if length img \<noteq> capacity then io_fail InvalidInput else
     io_seq (io_for (rev [1..<length rng]) (\<lambda>index. write_image_block D (rng ! index) img index))
     (case rng of [] \<Rightarrow> io_return () | first # _ \<Rightarrow> write_image_block D first img 0))"

section \<open>Record tables\<close>

definition TABLE_HEADER_LEN :: nat where "TABLE_HEADER_LEN = 32"
definition TABLE_CHECKSUM_OFFSET :: nat where "TABLE_CHECKSUM_OFFSET = 28"
definition RECORD_HEADER_LEN :: nat where "RECORD_HEADER_LEN = 40"

fun encode_records :: "('r \<Rightarrow> byte list io_result) \<Rightarrow> ('r \<Rightarrow> 'k) \<Rightarrow> 'r list \<Rightarrow> 'k list \<Rightarrow> byte list \<Rightarrow> byte list io_result" where
  "encode_records enc key [] seen payload = Inr payload"
| "encode_records enc key (r # rs) seen payload =
     (if key r \<in> set seen then Inl InvalidInput
      else res_bind (enc r) (\<lambda>record. encode_records enc key rs (key r # seen) (payload @ record)))"

definition table_fields :: "byte list \<Rightarrow> nat \<Rightarrow> nat \<Rightarrow> byte list \<Rightarrow> (nat \<times> byte list) list" where
  "table_fields magic version count payload =
     [(0, magic), (8, le_bytes 4 version), (12, le_bytes 4 0), (16, le_bytes 8 (length payload)),
      (24, le_bytes 4 count), (TABLE_HEADER_LEN, payload)]"

definition encode_table :: "byte list \<Rightarrow> nat \<Rightarrow> ('r \<Rightarrow> byte list io_result) \<Rightarrow> ('r \<Rightarrow> 'k) \<Rightarrow> u64 \<Rightarrow> 'r list \<Rightarrow> byte list io_result" where
  "encode_table magic version enc key blocks rs =
     res_bind (encode_records enc key rs [] []) (\<lambda>payload.
     res_bind (region_len blocks) (\<lambda>capacity.
     res_bind (ok_or InvalidInput (checked_add TABLE_HEADER_LEN (length payload))) (\<lambda>used.
     if used > capacity then Inl InvalidInput
     else if \<not> length rs < U32_LIMIT then Inl InvalidInput
     else
       let img = put_fields (table_fields magic version (length rs) payload) (zeroes capacity);
           checksum = crc32_skip TABLE_CHECKSUM_OFFSET (take used img) in
       Inr (put_bytes TABLE_CHECKSUM_OFFSET (le_bytes 4 (unat checksum)) img))))"

definition next_record :: "byte list \<Rightarrow> nat \<Rightarrow> nat io_result" where
  "next_record payload offset =
     (let remaining = drop offset payload in
      if length remaining < RECORD_HEADER_LEN then Inl UnexpectedEof else
      let total_len = read_u32 remaining 8 in
      if total_len < RECORD_HEADER_LEN then Inl InvalidData else
      res_bind (ok_or InvalidData (checked_add offset total_len)) (\<lambda>end.
      if end > length payload then Inl UnexpectedEof else Inr end))"

lemma next_record_end: "next_record payload offset = Inr end \<Longrightarrow> offset < end \<and> end \<le> length payload"
  by (auto simp: next_record_def RECORD_HEADER_LEN_def Let_def res_bind_Inr split: if_splits)

function decode_records :: "(byte list \<Rightarrow> 'r io_result) \<Rightarrow> ('r \<Rightarrow> 'k) \<Rightarrow> byte list \<Rightarrow> nat \<Rightarrow> 'k list \<Rightarrow> 'r list \<Rightarrow> 'r list io_result" where
  "decode_records dec key payload offset seen rs =
     (if offset < length payload then
        (case next_record payload offset of
           Inl e \<Rightarrow> Inl e
         | Inr end \<Rightarrow>
             (case dec (get_bytes offset (end - offset) payload) of
                Inl e \<Rightarrow> Inl e
              | Inr r \<Rightarrow>
                  if key r \<in> set seen then Inl InvalidData
                  else decode_records dec key payload end (key r # seen) (rs @ [r])))
      else Inr rs)"
  by pat_completeness auto
termination
  by (relation "measure (\<lambda>(dec, key, payload, offset, seen, rs). length payload - offset)")
    (auto dest!: next_record_end)

declare decode_records.simps [simp del]

definition decode_table :: "byte list \<Rightarrow> nat \<Rightarrow> (byte list \<Rightarrow> 'r io_result) \<Rightarrow> ('r \<Rightarrow> 'k) \<Rightarrow> byte list \<Rightarrow> 'r list io_result" where
  "decode_table magic version dec key img =
     (if length img < TABLE_HEADER_LEN then Inl InvalidData
      else if get_bytes 0 8 img \<noteq> magic then Inl InvalidData
      else if read_u32 img 8 \<noteq> version then Inl InvalidData
      else if read_u32 img 12 \<noteq> 0 then Inl InvalidData
      else
        let payload_len = read_u64 img 16; record_count = read_u32 img 24 in
        res_bind (ok_or InvalidData (checked_add TABLE_HEADER_LEN payload_len)) (\<lambda>used.
        if used > length img then Inl InvalidData
        else if \<not> all_zero (drop used img) then Inl InvalidData
        else
          let stored_checksum = read_u32 img TABLE_CHECKSUM_OFFSET;
              checksummed = put_bytes TABLE_CHECKSUM_OFFSET (zeroes 4) (take used img) in
          if unat (crc32_skip TABLE_CHECKSUM_OFFSET checksummed) \<noteq> stored_checksum then Inl InvalidData
          else
            let payload = get_bytes TABLE_HEADER_LEN (used - TABLE_HEADER_LEN) img in
            res_bind (decode_records dec key payload 0 [] []) (\<lambda>rs.
            if length rs \<noteq> record_count then Inl InvalidData else Inr rs)))"

section \<open>Images on a device\<close>

definition image_put :: "u64 list \<Rightarrow> byte list \<Rightarrow> disk \<Rightarrow> disk" where
  "image_put rng img v = (\<lambda>b. if b \<in> set rng then chunk img (b - hd rng) else v b)"

definition image_get :: "u64 list \<Rightarrow> disk \<Rightarrow> byte list" where
  "image_get rng v = concat (map v rng)"

lemma read_region_mem:
  assumes "region_len (length rng) = Inr capacity" and "\<forall>b \<in> set rng. b < n" and "disk_ok n v"
  shows "read_region (mem_device n) err rng (length rng) v = (Inr (image_get rng v), v)"
proof -
  have cap: "capacity = length rng * BLOCK_SIZE" "capacity < U64_LIMIT"
    using assms(1) by (auto simp: region_len_def)
  have "io_map (enumerate 0 rng) (\<lambda>(index, block).
       io_bind (io_lift (ok_or err (checked_mul index BLOCK_SIZE))) (\<lambda>start. read_block (mem_device n) block)) v
      = (Inr (map (\<lambda>p. v (snd p)) (enumerate 0 rng)), v)"
  proof (rule io_map_pure)
    fix p assume p: "p \<in> set (enumerate 0 rng)"
    obtain i b where ib: "p = (i, b)" by fastforce
    with p have "i < length rng" "b \<in> set rng" by (auto simp: in_set_enumerate_eq)
    then have "i * BLOCK_SIZE < U64_LIMIT"
      using cap by (metis less_trans mult_less_mono1 BLOCK_SIZE_pos)
    with \<open>b \<in> set rng\<close> assms(2) show "(case p of (index, block) \<Rightarrow>
       io_bind (io_lift (ok_or err (checked_mul index BLOCK_SIZE))) (\<lambda>start. read_block (mem_device n) block)) v
       = (Inr (v (snd p)), v)"
      by (simp add: ib checked_mul_def)
  qed
  moreover have "map (\<lambda>p. v (snd p)) (enumerate 0 rng) = map v rng"
    by (rule nth_equalityI) (simp_all add: nth_enumerate_eq)
  moreover have "assemble (map v rng) capacity = concat (map v rng)"
    using assemble_concat [of "map v rng"] assms(2,3) cap by (auto simp: disk_ok_def)
  ultimately show ?thesis
    by (simp add: read_region_def assms(1) io_simps image_get_def)
qed

lemma image_get_put:
  assumes "length img = length rng * BLOCK_SIZE" and "rng = [s..<e]"
  shows "image_get rng (image_put rng img v) = img"
proof -
  have "map (image_put rng img v) [s..<e] = map (\<lambda>i. image_put rng img v (s + i)) [0..<e - s]"
    using map_shift_upt [of "image_put rng img v" s 0 "e - s"] by (cases "s \<le> e") simp_all
  also have "\<dots> = map (\<lambda>i. get_bytes (i * BLOCK_SIZE) BLOCK_SIZE img) [0..<e - s]"
    by (auto simp: image_put_def chunk_def assms(2))
  finally show ?thesis
    using concat_chunks [of img "e - s" BLOCK_SIZE] assms by (simp add: image_get_def)
qed

definition image_events :: "u64 list \<Rightarrow> byte list \<Rightarrow> (u64 \<times> byte list) list" where
  "image_events rng img = map (\<lambda>i. (rng ! i, chunk img i)) (rev [1..<length rng] @ [0])"

lemma write_image_block_trace:
  assumes "region_len (length rng) = Inr capacity" and "rng ! i < n" and "i < length rng"
  shows "write_image_block (trace_device n) (rng ! i) img i (v, tr)
     = (Inr (), v(rng ! i := chunk img i), tr @ [WriteEv (rng ! i) (chunk img i)])"
proof -
  have "i * BLOCK_SIZE < U64_LIMIT"
    using assms(1,3) by (auto simp: region_len_def) (metis less_trans mult_less_mono1 BLOCK_SIZE_pos)
  with assms(2) show ?thesis by (simp add: write_image_block_def checked_mul_def chunk_def)
qed

lemma write_region_trace:
  assumes cap: "region_len (length rng) = Inr (length img)" and n: "\<forall>b \<in> set rng. b < n" and "rng \<noteq> []"
  shows "write_region (trace_device n) rng (length rng) img (v, tr)
     = (Inr (), write_all v (image_events rng img), tr @ write_events (image_events rng img))"
proof -
  let ?is = "rev [1..<length rng]"
  have "io_for ?is (\<lambda>index. write_image_block (trace_device n) (rng ! index) img index) (v, tr)
      = (Inr (), write_all v (map (\<lambda>i. (rng ! i, chunk img i)) ?is), tr @ write_events (map (\<lambda>i. (rng ! i, chunk img i)) ?is))"
    by (rule io_for_trace) (use write_image_block_trace [OF cap] n in auto)
  moreover have "write_image_block (trace_device n) (hd rng) img 0 (w, us)
      = (Inr (), w(rng ! 0 := chunk img 0), us @ [WriteEv (rng ! 0) (chunk img 0)])" for w us
    using write_image_block_trace [OF cap, of 0 n img w us] n \<open>rng \<noteq> []\<close> by (simp add: hd_conv_nth)
  ultimately show ?thesis
    using cap \<open>rng \<noteq> []\<close> by (cases rng) (simp_all add: write_region_def io_simps image_events_def)
qed

lemma write_all_image:
  assumes "rng = [s..<e]" and "rng \<noteq> []"
  shows "write_all v (image_events rng img) = image_put rng img v"
proof -
  have w: "write_all v (map (\<lambda>i. (rng ! i, c i)) is) b = (if s \<le> b \<and> b - s \<in> set is then c (b - s) else v b)"
    if "set is \<subseteq> {..<length rng}" for "is" c b
    using that
  proof (induction "is" arbitrary: v)
    case (Cons i "is")
    then have "rng ! i = s + i" using assms(1) by (simp add: less_diff_conv)
    moreover have "write_all (v(s + i := c i)) (map (\<lambda>i. (rng ! i, c i)) is) b
        = (if s \<le> b \<and> b - s \<in> set is then c (b - s) else (v(s + i := c i)) b)"
      by (rule Cons.IH) (use Cons.prems in simp)
    ultimately have "write_all v (map (\<lambda>i. (rng ! i, c i)) (i # is)) b
        = (if s \<le> b \<and> b - s \<in> set is then c (b - s) else (v(s + i := c i)) b)"
      by (simp only: list.map write_all_simps)
    also have "\<dots> = (if s \<le> b \<and> b - s \<in> set (i # is) then c (b - s) else v b)"
      by (cases "b = s + i") auto
    finally show ?case .
  qed simp
  have idx: "set (rev [1..<length rng] @ [0]) = {..<length rng}" using assms(2) by (auto simp: neq0_conv)
  show ?thesis
  proof (rule ext)
    fix b
    have "write_all v (image_events rng img) b = (if s \<le> b \<and> b - s < length rng then chunk img (b - s) else v b)"
      using w [of "rev [1..<length rng] @ [0]" "chunk img" b] idx by (simp only: image_events_def lessThan_iff order_refl)
    then show "write_all v (image_events rng img) b = image_put rng img v b"
      using assms by (auto simp: image_put_def)
  qed
qed

section \<open>Table layout\<close>

definition table_layout :: "byte list \<Rightarrow> nat \<Rightarrow> nat \<Rightarrow> byte list \<Rightarrow> byte list \<Rightarrow> nat \<Rightarrow> byte list" where
  "table_layout magic version count payload c pad =
     magic @ le_bytes 4 version @ zeroes 4 @ le_bytes 8 (length payload) @ le_bytes 4 count @ c @ payload @ zeroes pad"

lemma table_layout_get:
  assumes "length c = 4" and "length magic = 8"
  shows "get_bytes 0 8 (table_layout magic ver k p c pad) = magic"
    "get_bytes 8 4 (table_layout magic ver k p c pad) = le_bytes 4 ver"
    "get_bytes 12 4 (table_layout magic ver k p c pad) = zeroes 4"
    "get_bytes 16 8 (table_layout magic ver k p c pad) = le_bytes 8 (length p)"
    "get_bytes 24 4 (table_layout magic ver k p c pad) = le_bytes 4 k"
    "get_bytes 28 4 (table_layout magic ver k p c pad) = c"
    "get_bytes 32 (length p) (table_layout magic ver k p c pad) = p"
    "drop (32 + length p) (table_layout magic ver k p c pad) = zeroes pad"
    "take (32 + length p) (table_layout magic ver k p c pad) = table_layout magic ver k p c 0"
    "length (table_layout magic ver k p c pad) = 32 + length p + pad"
    "length d = 4 \<Longrightarrow> put_bytes 28 d (table_layout magic ver k p c pad) = table_layout magic ver k p d pad"
  using assms by (simp_all add: table_layout_def get_bytes_def put_bytes_def zeroes_def)

lemma table_unsealed:
  assumes "length magic = 8" and "32 + length payload \<le> capacity"
  shows "put_fields (table_fields magic ver k payload) (zeroes capacity)
     = table_layout magic ver k payload (zeroes 4) (capacity - 32 - length payload)"
proof -
  let ?fs = "[(0 :: nat, magic), (8, le_bytes 4 ver), (12, le_bytes 4 0), (16, le_bytes 8 (length payload)), (24, le_bytes 4 k)]"
  have "put_fields ?fs ([] @ zeroes capacity) = concat (map snd ?fs) @ zeroes (capacity - 28)"
    using assms by (subst put_fields_contiguous) simp_all
  also have "zeroes (capacity - 28) = zeroes 4 @ zeroes (capacity - 32)" using assms by simp
  finally have h: "put_fields ?fs (zeroes capacity) = (concat (map snd ?fs) @ zeroes 4) @ zeroes (capacity - 32)"
    by simp
  have "put_fields (table_fields magic ver k payload) (zeroes capacity) = put_fields [(32, payload)] (put_fields ?fs (zeroes capacity))"
    using put_fields_append [of ?fs "[(32, payload)]" "zeroes capacity"]
    by (simp only: table_fields_def TABLE_HEADER_LEN_def append_Cons append_Nil)
  also have "\<dots> = (concat (map snd ?fs) @ zeroes 4) @ payload @ zeroes (capacity - 32 - length payload)"
    unfolding h using assms by (simp add: put_bytes_def zeroes_def)
  finally show ?thesis by (simp add: table_layout_def le_bytes_zero)
qed

lemma encode_table_Inr:
  assumes "encode_table magic ver enc key blocks rs = Inr img" and "length magic = 8"
  obtains payload c where "encode_records enc key rs [] [] = Inr payload" and "length rs < U32_LIMIT"
    and "32 + length payload \<le> blocks * BLOCK_SIZE" and "blocks * BLOCK_SIZE < U64_LIMIT" and "length c = 4"
    and "img = table_layout magic ver (length rs) payload c (blocks * BLOCK_SIZE - 32 - length payload)"
    and "crc_ok 28 (take (32 + length payload) img)"
proof -
  from assms(1) obtain payload where
    p: "encode_records enc key rs [] [] = Inr payload" "length rs < U32_LIMIT"
      "32 + length payload \<le> blocks * BLOCK_SIZE" "blocks * BLOCK_SIZE < U64_LIMIT"
    and img0: "img = put_bytes 28 (le_bytes 4 (unat (crc32_skip 28 (take (32 + length payload)
          (put_fields (table_fields magic ver (length rs) payload) (zeroes (blocks * BLOCK_SIZE)))))))
          (put_fields (table_fields magic ver (length rs) payload) (zeroes (blocks * BLOCK_SIZE)))"
    by (auto simp: encode_table_def res_bind_Inr Let_def region_len_def TABLE_HEADER_LEN_def TABLE_CHECKSUM_OFFSET_def
        split: if_splits)
  let ?u = "\<lambda>c pad. table_layout magic ver (length rs) payload c pad" and ?pad = "blocks * BLOCK_SIZE - 32 - length payload"
  let ?c = "le_bytes 4 (unat (crc32_skip 28 (?u (zeroes 4) 0)))"
  note lz = table_layout_get [OF length_zeroes assms(2)] and lc = table_layout_get [OF length_le_bytes assms(2)]
  have img: "img = ?u ?c ?pad"
    unfolding img0 table_unsealed [OF assms(2) p(3)] lz(9) by (rule lz(11)) simp
  have "take (32 + length payload) img = ?u ?c 0" unfolding img by (rule lc(9))
  moreover have "?u ?c 0 = put_bytes 28 ?c (?u (zeroes 4) 0)" by (rule lz(11) [symmetric]) simp
  moreover have "crc_ok 28 (put_bytes 28 ?c (?u (zeroes 4) 0))" by (rule crc_ok_put) (simp add: lz(10))
  ultimately have "crc_ok 28 (take (32 + length payload) img)" by simp
  then show thesis by (intro that [OF p length_le_bytes img])
qed

section \<open>What a table needs from its record codec\<close>

locale record_codec =
  fixes enc :: "'r \<Rightarrow> byte list io_result" and dec :: "byte list \<Rightarrow> 'r io_result" and key :: "'r \<Rightarrow> 'k"
    and norm :: "'r \<Rightarrow> 'r" and ok :: "'r \<Rightarrow> bool"
  assumes dec_enc: "ok r \<Longrightarrow> enc r = Inr bs \<Longrightarrow> dec bs = Inr (norm r)"
    and enc_frame: "enc r = Inr bs \<Longrightarrow> 40 \<le> length bs \<and> read_u32 bs 8 = length bs"
    and key_norm: "key (norm r) = key r"
begin

lemma encode_records_Inr:
  "encode_records enc key rs seen out = Inr out' \<Longrightarrow>
     (\<exists>bss. list_all2 (\<lambda>r bs. enc r = Inr bs) rs bss \<and> out' = out @ concat bss) \<and>
     distinct (map key rs) \<and> set (map key rs) \<inter> set seen = {}"
proof (induction rs arbitrary: seen out)
  case (Cons r rs)
  then obtain bs where bs: "enc r = Inr bs" "key r \<notin> set seen"
    "encode_records enc key rs (key r # seen) (out @ bs) = Inr out'"
    by (auto simp: res_bind_Inr split: if_splits)
  from Cons.IH [OF bs(3)] obtain bss where "list_all2 (\<lambda>r bs. enc r = Inr bs) rs bss" "out' = (out @ bs) @ concat bss"
    and "distinct (map key rs)" "set (map key rs) \<inter> set (key r # seen) = {}" by auto
  with bs show ?case by (auto intro!: exI [of _ "bs # bss"])
qed simp

lemma next_record_enc:
  assumes "enc r = Inr bs" and "length (pre @ bs @ post) < U64_LIMIT"
  shows "next_record (pre @ bs @ post) (length pre) = Inr (length pre + length bs)"
proof -
  note f = enc_frame [OF assms(1)]
  have "read_u32 (bs @ post) 8 = read_u32 bs 8" using f by (simp add: read_u32_def get_bytes_def)
  with f assms(2) show ?thesis
    by (simp add: next_record_def Let_def RECORD_HEADER_LEN_def checked_add_def)
qed

lemma decode_records_enc:
  assumes "list_all2 (\<lambda>r bs. enc r = Inr bs) rs bss" and "\<forall>r \<in> set rs. ok r" and "distinct (map key rs)"
    and "set (map key rs) \<inter> set seen = {}" and "length (pre @ concat bss) < U64_LIMIT"
  shows "decode_records dec key (pre @ concat bss) (length pre) seen acc = Inr (acc @ map norm rs)"
  using assms
proof (induction rs bss arbitrary: pre seen acc rule: list_all2_induct)
  case (Cons r rs bs bss)
  have nxt: "next_record (pre @ bs @ concat bss) (length pre) = Inr (length (pre @ bs))"
    using next_record_enc [OF Cons.hyps(1)] Cons.prems(4) by simp
  have d: "dec bs = Inr (norm r)" using dec_enc [OF _ Cons.hyps(1)] Cons.prems(1) by simp
  have g: "get_bytes (length pre) (length (pre @ bs) - length pre) (pre @ bs @ concat bss) = bs"
    by (simp add: get_bytes_def)
  have "0 < length bs" using enc_frame [OF Cons.hyps(1)] by linarith
  then have "decode_records dec key (pre @ concat (bs # bss)) (length pre) seen acc
      = decode_records dec key ((pre @ bs) @ concat bss) (length (pre @ bs)) (key r # seen) (acc @ [norm r])"
    using nxt d g Cons.prems(3) by (subst decode_records.simps) (simp add: key_norm)
  also have "\<dots> = Inr ((acc @ [norm r]) @ map norm rs)"
    using Cons.prems by (intro Cons.IH) auto
  finally show ?case by simp
qed (simp add: decode_records.simps)

lemma decode_encode_table:
  assumes "encode_table magic ver enc key blocks rs = Inr img" and "length magic = 8" and "ver < U32_LIMIT"
    and "\<forall>r \<in> set rs. ok r"
  shows "decode_table magic ver dec key img = Inr (map norm rs)"
proof -
  from assms(1,2) obtain payload c where p: "encode_records enc key rs [] [] = Inr payload" "length rs < U32_LIMIT"
    and cap: "32 + length payload \<le> blocks * BLOCK_SIZE" "blocks * BLOCK_SIZE < U64_LIMIT" and c: "length c = 4"
    and img: "img = table_layout magic ver (length rs) payload c (blocks * BLOCK_SIZE - 32 - length payload)"
    and crc: "crc_ok 28 (take (32 + length payload) img)"
    by (rule encode_table_Inr)
  note g = table_layout_get [OF c assms(2)]
  from encode_records_Inr [OF p(1)] obtain bss where "list_all2 (\<lambda>r bs. enc r = Inr bs) rs bss"
    "payload = concat bss" "distinct (map key rs)" by auto
  with decode_records_enc [of rs bss "[]" "[]" "[]"] assms(4) cap
  have dec: "decode_records dec key payload 0 [] [] = Inr (map norm rs)" by simp
  have "unat (crc32_skip 28 (put_bytes 28 (zeroes 4) (take (32 + length payload) img))) = read_u32 img 28"
    using crc crc32_skip_put [of 28 "take (32 + length payload) img" "zeroes 4"]
    by (simp add: crc_ok_def read_u32_def) (simp add: img g)
  with dec p(2) cap assms(3) show ?thesis
    by (simp add: decode_table_def TABLE_HEADER_LEN_def TABLE_CHECKSUM_OFFSET_def img g read_defs Let_def checked_add_def)
qed

lemma decode_records_Inr:
  "decode_records dec key payload offset seen acc = Inr rs \<Longrightarrow>
     \<exists>us. rs = acc @ us \<and> distinct (map key us) \<and> set (map key us) \<inter> set seen = {} \<and> (\<forall>r \<in> set us. \<exists>bs. dec bs = Inr r)"
proof (induction dec key payload offset seen acc rule: decode_records.induct)
  case (1 dec key payload offset seen acc)
  show ?case
  proof (cases "offset < length payload")
    case True
    with 1(2) obtain en r where n: "next_record payload offset = Inr en"
      and d: "dec (get_bytes offset (en - offset) payload) = Inr r" and k: "key r \<notin> set seen"
      and rest: "decode_records dec key payload en (key r # seen) (acc @ [r]) = Inr rs"
      by (subst (asm) decode_records.simps) (auto split: sum.splits if_splits)
    from 1(1) [OF True n d k rest] obtain us where "rs = (acc @ [r]) @ us" "distinct (map key us)"
      "set (map key us) \<inter> set (key r # seen) = {}" "\<forall>r \<in> set us. \<exists>bs. dec bs = Inr r" by auto
    with d k show ?thesis by (intro exI [of _ "r # us"]) auto
  qed (use 1 in \<open>simp add: decode_records.simps\<close>)
qed

lemma decode_table_Inr:
  assumes "decode_table magic ver dec key img = Inr rs"
  shows "distinct (map key rs)" and "r \<in> set rs \<Longrightarrow> \<exists>bs. dec bs = Inr r"
proof -
  from assms obtain payload where "decode_records dec key payload 0 [] [] = Inr rs"
    by (auto simp: decode_table_def Let_def res_bind_Inr split: if_splits)
  from decode_records_Inr [OF this] show "distinct (map key rs)" and "r \<in> set rs \<Longrightarrow> \<exists>bs. dec bs = Inr r" by auto
qed

end

text \<open>A table image with one damaged byte outside the payload-length field is refused.\<close>

lemma decode_table_crc:
  assumes "decode_table magic ver dec key img = Inr rs"
  shows "crc_ok 28 (take (32 + read_u64 img 16) img)" and "32 + read_u64 img 16 \<le> length img"
    and "all_zero (drop (32 + read_u64 img 16) img)"
proof -
  from assms show len: "32 + read_u64 img 16 \<le> length img" and "all_zero (drop (32 + read_u64 img 16) img)"
    by (auto simp: decode_table_def TABLE_HEADER_LEN_def Let_def res_bind_Inr split: if_splits)
  from assms have "unat (crc32_skip 28 (put_bytes 28 (zeroes 4) (take (32 + read_u64 img 16) img))) = read_u32 img 28"
    by (auto simp: decode_table_def TABLE_HEADER_LEN_def TABLE_CHECKSUM_OFFSET_def Let_def res_bind_Inr split: if_splits)
  with len show "crc_ok 28 (take (32 + read_u64 img 16) img)"
    by (simp add: crc_ok_def crc32_skip_put read_u32_def get_bytes_def drop_take min_def)
qed

text \<open>A table whose records encode, have distinct keys and leave room for the header can be written.\<close>

lemma encode_records_total:
  assumes "\<forall>r \<in> set rs. \<exists>bs. enc r = Inr bs \<and> length bs \<le> m" and "distinct (map key rs)" and "set (map key rs) \<inter> set seen = {}"
  shows "\<exists>payload. encode_records enc key rs seen out = Inr payload \<and> length payload \<le> length out + length rs * m"
  using assms
proof (induction rs arbitrary: seen out)
  case (Cons r rs)
  then obtain bs where bs: "enc r = Inr bs" "length bs \<le> m" by auto
  have "set (map key rs) \<inter> set (key r # seen) = {}" "distinct (map key rs)" "\<forall>r \<in> set rs. \<exists>bs. enc r = Inr bs \<and> length bs \<le> m"
    using Cons.prems by auto
  from Cons.IH [OF this(3,2,1), of "out @ bs"] obtain payload where
    "encode_records enc key rs (key r # seen) (out @ bs) = Inr payload" "length payload \<le> length (out @ bs) + length rs * m" by blast
  with bs Cons.prems show ?case by auto
qed simp

lemma encode_table_total:
  assumes "\<forall>r \<in> set rs. \<exists>bs. enc r = Inr bs \<and> length bs \<le> m" and "distinct (map key rs)"
    and "region_len blocks = Inr (blocks * BLOCK_SIZE)" and "32 + length rs * m \<le> blocks * BLOCK_SIZE" and "length rs < U32_LIMIT"
  shows "\<exists>img. encode_table magic ver enc key blocks rs = Inr img"
proof -
  obtain payload where p: "encode_records enc key rs [] [] = Inr payload" "length payload \<le> length rs * m"
    using encode_records_total [OF assms(1,2), of "[]" "[]"] by auto
  have "blocks * BLOCK_SIZE < U64_LIMIT" using assms(3) by (auto simp: region_len_def split: if_splits)
  with p assms(3,4,5) show ?thesis by (simp add: encode_table_def TABLE_HEADER_LEN_def checked_add_def Let_def)
qed

lemma decode_table_corrupt:
  assumes "decode_table magic ver dec key img = Inr rs" and "k < length img" and "b \<noteq> img ! k"
    and "k < 16 \<or> 24 \<le> k"
  shows "\<exists>e. decode_table magic ver dec key (img[k := b]) = Inl e"
proof (cases "decode_table magic ver dec key (img[k := b])")
  case (Inr rs')
  note d = decode_table_crc [OF assms(1)] and d' = decode_table_crc [OF Inr]
  let ?u = "32 + read_u64 img 16"
  have "get_bytes 16 8 (img[k := b]) = get_bytes 16 8 img"
    using assms(4) by (auto simp: get_bytes_def drop_update_swap not_le not_less)
  then have same: "read_u64 (img[k := b]) 16 = read_u64 img 16" by (simp add: read_u64_def)
  have False
  proof (cases "k < ?u")
    case True
    then have "take ?u (img[k := b]) = (take ?u img)[k := b]" by (simp add: take_update_swap)
    moreover have "k < length (take ?u img)" "b \<noteq> take ?u img ! k" using True assms(2,3) by simp_all
    ultimately show False
      using crc_ok_update_byte [OF d(1) _ _ , of k b] d'(1) d(2) by (simp add: same)
  next
    case False
    then have "drop ?u (img[k := b]) = (drop ?u img)[k - ?u := b]" by (simp add: drop_update_swap)
    then have "drop ?u (img[k := b]) ! (k - ?u) = b" using False assms(2) by simp
    moreover have "drop ?u img ! (k - ?u) = img ! k" using False assms(2) by simp
    moreover have "x = 0" if "x \<in> set (drop ?u img) \<or> x \<in> set (drop ?u (img[k := b]))" for x
      using that d(3) d'(3) by (auto simp: all_zero_def list_all_iff same)
    moreover have "k - ?u < length (drop ?u img)" using False assms(2) by simp
    ultimately show False using assms(3) by (metis length_drop length_list_update nth_mem)
  qed
  then show ?thesis ..
qed simp

section \<open>The same on every reliable device\<close>

context read_sim
begin

lemma sim_read_region:
  "dev_sim P abst (\<lambda>_. True) (read_region D err rng blocks) (read_region E err rng blocks)"
  unfolding read_region_def
  by (rule sim_bind_map [where Q = "\<lambda>_. True"] sim_true [OF sim_read] read_rules | simp)+

end

context device_sim
begin

lemma sim_write_image_block:
  assumes "i * BLOCK_SIZE + BLOCK_SIZE \<le> length img"
  shows "dev_sim P abst (\<lambda>_. True) (write_image_block D b img i) (write_image_block E b img i)"
  unfolding write_image_block_def using assms
  by (intro sim_bind_lift sim_write) (auto simp: length_get_bytes)

lemma sim_write_region:
  assumes "length rng \<le> blocks"
  shows "dev_sim P abst (\<lambda>_. True) (write_region D rng blocks img) (write_region E rng blocks img)"
proof (cases "region_len blocks")
  case (Inr capacity)
  have fit: "i * BLOCK_SIZE + BLOCK_SIZE \<le> length img" if "length img = capacity" and "i < length rng" for i
  proof -
    have "Suc i * BLOCK_SIZE \<le> blocks * BLOCK_SIZE" using that assms by (intro mult_le_mono1) simp
    then show ?thesis using Inr that(1) by (auto simp: region_len_def)
  qed
  have first: "dev_sim P abst (\<lambda>_. True) (case rng of [] \<Rightarrow> io_return () | first # x \<Rightarrow> write_image_block D first img 0)
      (case rng of [] \<Rightarrow> io_return () | first # x \<Rightarrow> write_image_block E first img 0)" if "length img = capacity"
    using fit [OF that, of 0] by (cases rng) (auto intro!: sim_return sim_write_image_block)
  show ?thesis
    unfolding write_region_def Inr io_bind_lift_Inr
    by (rule sim_if, rule sim_fail, rule sim_seq, rule sim_for, rule sim_write_image_block)
      (use fit first in auto)
qed (simp add: write_region_def dev_sim_def io_lift_def)

end

section \<open>Geometry of the regions\<close>

definition addressable :: "superblock \<Rightarrow> bool" where
  "addressable sb \<longleftrightarrow> geometry_ok sb \<and> sb_total_blocks sb * BLOCK_SIZE < U64_LIMIT"

lemma addressable_geometry: "addressable sb \<Longrightarrow> geometry_ok sb"
  by (simp add: addressable_def)

lemma addressable_region_len:
  assumes "addressable sb" and "k \<le> sb_total_blocks sb"
  shows "region_len k = Inr (k * BLOCK_SIZE)" and "k * BLOCK_SIZE < U64_LIMIT"
proof -
  have "k * BLOCK_SIZE \<le> sb_total_blocks sb * BLOCK_SIZE" using assms(2) by (rule mult_le_mono1)
  moreover have "sb_total_blocks sb * BLOCK_SIZE < U64_LIMIT" using assms(1) by (simp add: addressable_def)
  ultimately show "k * BLOCK_SIZE < U64_LIMIT" by (rule le_less_trans)
  then show "region_len k = Inr (k * BLOCK_SIZE)" by (simp add: region_len_def checked_mul_def)
qed

lemma length_wrapped_range: "length [s..<add64 s k] \<le> k"
  by (simp add: add64_def)

end
