(* ===== verification/Allocation.thy ===== *)
theory Allocation
  imports Block_Device
begin

text \<open>
  \<open>BlockAllocator\<close> of \<open>allocation.rs\<close>: the deterministic first-fit allocator over a
  vector of flags with a reserved metadata prefix and a cached count.

  The abstract contract is a set of owned data blocks (\<open>block_pool\<close>): allocation adds
  the lowest run of free blocks, release removes one block, and both keep the
  invariant. The clients of the allocator use only that contract.
\<close>

datatype allocation_error =
    InvalidLayout u64 u64
  | AddressSpaceTooLarge u64
  | OutOfRange u64 u64
  | ReservedBlock u64
  | AlreadyFree u64
  | InvalidRunLength u64
  | Exhausted

datatype allocation_invariant_error =
    AllocatedCountMismatch u64 u64
  | AccountingOverflow
  | AccountingMismatch u64 u64 u64 u64

record block_allocator =
  al_total_blocks :: u64
  al_reserved_blocks :: u64
  al_allocated :: "bool list"
  al_allocated_blocks :: u64

definition allocator_new :: "u64 \<Rightarrow> u64 \<Rightarrow> allocation_error + block_allocator" where
  "allocator_new total_blocks reserved =
     (if total_blocks < reserved then Inl (InvalidLayout total_blocks reserved)
      else Inr \<lparr>al_total_blocks = total_blocks, al_reserved_blocks = reserved,
                al_allocated = replicate total_blocks False, al_allocated_blocks = 0\<rparr>)"

definition free_blocks :: "block_allocator \<Rightarrow> u64" where
  "free_blocks a = sub64 (sub64 (al_total_blocks a) (al_reserved_blocks a)) (al_allocated_blocks a)"

text \<open>\<open>xs.windows(n).position(|run| run.iter().all(|x| !x))\<close>\<close>

fun window_position :: "nat \<Rightarrow> bool list \<Rightarrow> nat option" where
  "window_position n [] = (if n = 0 then Some 0 else None)"
| "window_position n (x # xs) =
     (if length (x # xs) < n then None
      else if list_all Not (take n (x # xs)) then Some 0
      else map_option Suc (window_position n xs))"

definition fill_true :: "nat \<Rightarrow> nat \<Rightarrow> bool list \<Rightarrow> bool list" where
  "fill_true lo hi xs = take lo xs @ replicate (hi - lo) True @ drop hi xs"

definition allocate_contiguous ::
    "u64 \<Rightarrow> block_allocator \<Rightarrow> allocation_error + (u64 \<times> block_allocator)" where
  "allocate_contiguous n a =
     (if n = 0 then Inl (InvalidRunLength n)
      else
        (let start = al_reserved_blocks a in
         if length (al_allocated a) - start < n then Inl Exhausted
         else case window_position n (drop start (al_allocated a)) of
           None \<Rightarrow> Inl Exhausted
         | Some relative_start \<Rightarrow>
             (let absolute_start = start + relative_start in
              Inr (absolute_start,
                a\<lparr>al_allocated := fill_true absolute_start (absolute_start + n) (al_allocated a),
                  al_allocated_blocks := add64 (al_allocated_blocks a) n\<rparr>))))"

definition allocate :: "block_allocator \<Rightarrow> allocation_error + (u64 \<times> block_allocator)" where
  "allocate a = allocate_contiguous 1 a"

definition ensure_in_range :: "block_allocator \<Rightarrow> u64 \<Rightarrow> allocation_error + unit" where
  "ensure_in_range a block =
     (if al_total_blocks a \<le> block then Inl (OutOfRange block (al_total_blocks a)) else Inr ())"

definition data_index :: "block_allocator \<Rightarrow> u64 \<Rightarrow> allocation_error + nat" where
  "data_index a block =
     res_bind (ensure_in_range a block) (\<lambda>_.
     if block < al_reserved_blocks a then Inl (ReservedBlock block) else Inr block)"

definition free_block :: "u64 \<Rightarrow> block_allocator \<Rightarrow> allocation_error + block_allocator" where
  "free_block block a =
     res_bind (data_index a block) (\<lambda>index.
     if \<not> al_allocated a ! index then Inl (AlreadyFree block)
     else Inr (a\<lparr>al_allocated := (al_allocated a)[index := False],
                 al_allocated_blocks := sub64 (al_allocated_blocks a) 1\<rparr>))"

definition is_owned :: "block_allocator \<Rightarrow> u64 \<Rightarrow> allocation_error + bool" where
  "is_owned a block =
     res_bind (ensure_in_range a block) (\<lambda>_.
     if block < al_reserved_blocks a then Inr True else Inr (al_allocated a ! block))"

definition allocator_validate :: "block_allocator \<Rightarrow> allocation_invariant_error + unit" where
  "allocator_validate a =
     (let observed = length (filter id (drop (al_reserved_blocks a) (al_allocated a))) in
      if observed \<noteq> al_allocated_blocks a
        then Inl (AllocatedCountMismatch (al_allocated_blocks a) observed)
      else
        res_bind (ok_or AccountingOverflow
          (Option.bind (checked_add (al_reserved_blocks a) (al_allocated_blocks a))
            (\<lambda>v. checked_add v (free_blocks a)))) (\<lambda>accounted.
        if accounted \<noteq> al_total_blocks a
          then Inl (AccountingMismatch (al_total_blocks a) (al_reserved_blocks a)
                      (al_allocated_blocks a) (free_blocks a))
        else Inr ()))"

section \<open>Invariant and abstraction\<close>

definition allocator_inv :: "block_allocator \<Rightarrow> bool" where
  "allocator_inv a \<longleftrightarrow>
     al_total_blocks a < U64_LIMIT \<and> al_reserved_blocks a \<le> al_total_blocks a \<and>
     length (al_allocated a) = al_total_blocks a \<and>
     list_all Not (take (al_reserved_blocks a) (al_allocated a)) \<and>
     al_allocated_blocks a = length (filter id (drop (al_reserved_blocks a) (al_allocated a)))"

definition owned_blocks :: "block_allocator \<Rightarrow> u64 set" where
  "owned_blocks a =
     {b. al_reserved_blocks a \<le> b \<and> b < al_total_blocks a \<and> al_allocated a ! b}"

definition data_blocks :: "block_allocator \<Rightarrow> u64 set" where
  "data_blocks a = {al_reserved_blocks a ..< al_total_blocks a}"

text \<open>
  The contract of a pool of data blocks, as the transaction code uses it: \<open>run\<close> hands
  out the lowest free run, \<open>release\<close> takes one block back.
\<close>

locale block_pool =
  fixes run :: "nat \<Rightarrow> 'a \<Rightarrow> 'e + (u64 \<times> 'a)"
    and release :: "u64 \<Rightarrow> 'a \<Rightarrow> 'e + 'a"
    and owned :: "'a \<Rightarrow> u64 set" and space :: "'a \<Rightarrow> u64 set" and ok :: "'a \<Rightarrow> bool"
  assumes owned_in_space: "ok a \<Longrightarrow> owned a \<subseteq> space a"
    and finite_space: "ok a \<Longrightarrow> finite (space a)"
    and run_success: "ok a \<Longrightarrow> run n a = Inr (s, a') \<Longrightarrow>
          ok a' \<and> space a' = space a \<and> {s..<s + n} \<subseteq> space a - owned a \<and>
          owned a' = owned a \<union> {s..<s + n} \<and> 0 < n"
    and run_first: "ok a \<Longrightarrow> run n a = Inr (s, a') \<Longrightarrow> t < s \<Longrightarrow> \<not> {t..<t + n} \<subseteq> space a - owned a"
    and run_failure: "ok a \<Longrightarrow> 0 < n \<Longrightarrow> run n a = Inl e \<Longrightarrow> \<not> {t..<t + n} \<subseteq> space a - owned a"
    and release_success: "ok a \<Longrightarrow> release b a = Inr a' \<Longrightarrow>
          ok a' \<and> space a' = space a \<and> b \<in> owned a \<and> owned a' = owned a - {b}"
    and release_failure: "ok a \<Longrightarrow> release b a = Inl e \<Longrightarrow> b \<notin> owned a"
begin

lemma release_owned:
  assumes "ok a" and "b \<in> owned a"
  obtains a' where "release b a = Inr a'" and "ok a'" and "space a' = space a"
    and "owned a' = owned a - {b}"
  using release_success release_failure assms by (cases "release b a") blast+

lemma run_one_exists:
  assumes "ok a" and "owned a \<noteq> space a"
  obtains s a' where "run 1 a = Inr (s, a')"
proof (cases "run 1 a")
  case (Inl e)
  from assms owned_in_space obtain t where "t \<in> space a - owned a" by blast
  then have "{t..<t + 1} \<subseteq> space a - owned a" by auto
  moreover from run_failure [OF assms(1) _ Inl, of t] have "\<not> {t..<t + 1} \<subseteq> space a - owned a"
    by simp
  ultimately show ?thesis by contradiction
next
  case (Inr p)
  then show ?thesis using that by (cases p) simp
qed

text \<open>Allocating single blocks until none is free, as the on-disk loader does.\<close>

lemma fill_pool:
  assumes "ok a" and "owned a = {}" and "n \<le> card (space a)"
  shows "\<exists>a'. res_fold (\<lambda>_ a. res_bind (run 1 a) (\<lambda>(s, a'). Inr a')) [0..<n] a = Inr a' \<and> ok a' \<and>
     space a' = space a \<and> card (owned a') = n"
  using assms(3)
proof (induction n)
  case 0
  with assms show ?case by simp
next
  case (Suc n)
  let ?f = "\<lambda>_ a. res_bind (run 1 a) (\<lambda>(s, a'). Inr a')"
  from Suc obtain a1 where a1: "res_fold ?f [0..<n] a = Inr a1" "ok a1" "space a1 = space a"
    "card (owned a1) = n" by auto
  with Suc.prems have "owned a1 \<noteq> space a1" by auto
  with a1(2) obtain s a2 where r: "run 1 a1 = Inr (s, a2)" by (rule run_one_exists)
  note r' = run_success [OF a1(2) r]
  then have "s \<notin> owned a1" by auto
  moreover have "finite (owned a1)"
    using owned_in_space finite_space a1(2) finite_subset by blast
  moreover from r' have "owned a2 = insert s (owned a1)" by auto
  ultimately have "card (owned a2) = Suc n" using a1(4) by simp
  moreover have "res_fold ?f [0..<Suc n] a = Inr a2"
    using a1(1) r by (simp add: res_fold_append del: One_nat_def)
  ultimately show ?case using r' a1 by auto
qed

end

section \<open>Lemmas\<close>

lemma window_position_Some:
  assumes "window_position n xs = Some i"
  shows "i + n \<le> length xs \<and> list_all Not (take n (drop i xs)) \<and>
    (\<forall>j < i. \<not> list_all Not (take n (drop j xs)))"
  using assms
proof (induction n xs arbitrary: i rule: window_position.induct)
  case (2 n x xs)
  show ?case
  proof (cases "list_all Not (take n (x # xs))")
    case True
    with 2 show ?thesis by (auto split: if_splits)
  next
    case False
    with 2 obtain k where k: "window_position n xs = Some k" "i = Suc k"
      and n: "n \<le> length (x # xs)"
      by (auto split: if_splits)
    have "\<not> list_all Not (take n (drop j (x # xs)))" if "j < i" for j
      using that 2(1)[of k] k n False by (cases j) auto
    with 2(1)[of k] k n False show ?thesis by simp
  qed
qed (auto split: if_splits)

lemma window_position_None:
  assumes "window_position n xs = None" and "i + n \<le> length xs"
  shows "\<not> list_all Not (take n (drop i xs))"
  using assms
proof (induction n xs arbitrary: i rule: window_position.induct)
  case (2 n x xs)
  then show ?case by (cases i) (auto split: if_splits)
qed (auto split: if_splits)

lemma count_true_fill:
  assumes "hi \<le> length xs" and "lo \<le> hi" and "list_all Not (take (hi - lo) (drop lo xs))" and "r \<le> lo"
  shows "length (filter id (drop r (fill_true lo hi xs))) = length (filter id (drop r xs)) + (hi - lo)"
proof -
  let ?a = "drop r (take lo xs)" and ?b = "take (hi - lo) (drop lo xs)" and ?c = "drop hi xs"
  have bc: "?b @ ?c = drop lo xs"
    using append_take_drop_id [of "hi - lo" "drop lo xs"] assms(2) by simp
  have "drop r (take lo xs @ drop lo xs) = ?a @ drop lo xs"
    using assms by (simp only: drop_append) simp
  then have 1: "drop r xs = ?a @ ?b @ ?c" by (simp add: bc)
  have "filter id ?b = []" using assms(3) by (auto simp: filter_empty_conv list_all_iff)
  then have "length (filter id (drop r xs)) = length (filter id ?a) + length (filter id ?c)"
    by (simp add: 1)
  moreover have "drop r (fill_true lo hi xs) = ?a @ replicate (hi - lo) True @ ?c"
    using assms by (simp add: fill_true_def min_def)
  ultimately show ?thesis by (simp add: filter_replicate)
qed

lemma nth_fill_true:
  assumes "lo \<le> hi" and "hi \<le> length xs" and "b < length xs"
  shows "fill_true lo hi xs ! b = (xs ! b \<or> (lo \<le> b \<and> b < hi))"
  using assms by (auto simp: fill_true_def nth_append min_def)

lemma length_fill_true: "lo \<le> hi \<Longrightarrow> hi \<le> length xs \<Longrightarrow> length (fill_true lo hi xs) = length xs"
  by (simp add: fill_true_def)

lemma take_fill_true: "r \<le> lo \<Longrightarrow> lo \<le> hi \<Longrightarrow> hi \<le> length xs \<Longrightarrow> take r (fill_true lo hi xs) = take r xs"
  by (simp add: fill_true_def min_def)

lemma window_free_iff:
  assumes "i + n \<le> length xs"
  shows "list_all Not (take n (drop i xs)) \<longleftrightarrow> (\<forall>b. i \<le> b \<and> b < i + n \<longrightarrow> \<not> xs ! b)"
  using assms by (auto simp: list_all_length) (metis le_add_diff_inverse less_diff_conv2 add.commute
      add_less_cancel_left)

text \<open>A run of data blocks is free exactly when its flags are all clear.\<close>

lemma run_free_iff:
  assumes "allocator_inv a" and "al_reserved_blocks a + i + n \<le> al_total_blocks a"
  shows "{al_reserved_blocks a + i ..< al_reserved_blocks a + i + n} \<subseteq> data_blocks a - owned_blocks a \<longleftrightarrow>
    list_all Not (take n (drop i (drop (al_reserved_blocks a) (al_allocated a))))"
proof -
  have len: "al_reserved_blocks a + i + n \<le> length (al_allocated a)"
    using assms by (simp add: allocator_inv_def)
  have "list_all Not (take n (drop i (drop (al_reserved_blocks a) (al_allocated a))))
    \<longleftrightarrow> (\<forall>b. al_reserved_blocks a + i \<le> b \<and> b < al_reserved_blocks a + i + n \<longrightarrow> \<not> al_allocated a ! b)"
    using window_free_iff [OF len] by (simp add: add.commute)
  with assms(2) show ?thesis
    by (auto simp: data_blocks_def owned_blocks_def subset_iff)
qed

lemma allocate_contiguous_Inr:
  assumes "allocator_inv a" and "allocate_contiguous n a = Inr (s, a')"
  shows "0 < n" and "al_reserved_blocks a \<le> s" and "s + n \<le> al_total_blocks a"
    and "list_all Not (take n (drop s (al_allocated a)))"
    and "a' = a\<lparr>al_allocated := fill_true s (s + n) (al_allocated a),
                al_allocated_blocks := al_allocated_blocks a + n\<rparr>"
    and "t < s \<Longrightarrow> \<not> {t..<t + n} \<subseteq> data_blocks a - owned_blocks a"
proof -
  let ?r = "al_reserved_blocks a"
  from assms(2) obtain i where i: "window_position n (drop ?r (al_allocated a)) = Some i" "s = ?r + i"
    and n: "0 < n" and a': "a' = a\<lparr>al_allocated := fill_true s (s + n) (al_allocated a),
                al_allocated_blocks := add64 (al_allocated_blocks a) n\<rparr>"
    by (auto simp: allocate_contiguous_def Let_def split: if_splits option.splits)
  note w = window_position_Some [OF i(1)]
  from assms(1) w i n show s: "s + n \<le> al_total_blocks a"
    by (auto simp: allocator_inv_def)
  from w i show free: "list_all Not (take n (drop s (al_allocated a)))"
    by (simp add: add.commute)
  show "0 < n" by (rule n)
  show "?r \<le> s" using i by simp
  have "length (filter id (drop ?r (fill_true s (s + n) (al_allocated a))))
      = al_allocated_blocks a + n"
    using count_true_fill [of "s + n" "al_allocated a" s ?r] assms(1) s free i
    by (simp add: allocator_inv_def)
  moreover have "length (filter id (drop ?r (fill_true s (s + n) (al_allocated a)))) \<le> al_total_blocks a"
    using assms(1) s
    by (intro order_trans [OF length_filter_le]) (simp add: allocator_inv_def length_fill_true)
  ultimately have "al_allocated_blocks a + n < U64_LIMIT"
    using assms(1) by (simp add: allocator_inv_def)
  with a' show "a' = a\<lparr>al_allocated := fill_true s (s + n) (al_allocated a),
                al_allocated_blocks := al_allocated_blocks a + n\<rparr>"
    by (simp add: add64_exact)
  show "\<not> {t..<t + n} \<subseteq> data_blocks a - owned_blocks a" if "t < s"
  proof
    assume sub: "{t..<t + n} \<subseteq> data_blocks a - owned_blocks a"
    moreover have "t \<in> {t..<t + n}" using n by simp
    ultimately have "t \<in> data_blocks a" by blast
    then obtain j where j: "t = ?r + j" by (auto simp: data_blocks_def nat_le_iff_add)
    with that i have "j < i" by simp
    from run_free_iff [OF assms(1), of j n] sub j that s
    have "list_all Not (take n (drop j (drop ?r (al_allocated a))))" by simp
    with w \<open>j < i\<close> show False by blast
  qed
qed

lemma allocate_contiguous_Inl:
  assumes "allocator_inv a" and "allocate_contiguous n a = Inl e" and "0 < n"
  shows "e = Exhausted" and "\<not> {t..<t + n} \<subseteq> data_blocks a - owned_blocks a"
proof -
  show "e = Exhausted"
    using assms by (auto simp: allocate_contiguous_def Let_def split: if_splits option.splits)
  show "\<not> {t..<t + n} \<subseteq> data_blocks a - owned_blocks a"
  proof
    assume sub: "{t..<t + n} \<subseteq> data_blocks a - owned_blocks a"
    have "t \<in> {t..<t + n}" and "t + n - 1 \<in> {t..<t + n}" using assms(3) by auto
    with sub have "t \<in> data_blocks a" and "t + n - 1 \<in> data_blocks a" by blast+
    then have "al_reserved_blocks a \<le> t" and tn: "t + n \<le> al_total_blocks a"
      by (auto simp: data_blocks_def)
    then obtain j where j: "t = al_reserved_blocks a + j" by (auto simp: nat_le_iff_add)
    from run_free_iff [OF assms(1), of j n] sub j tn
    have "list_all Not (take n (drop j (drop (al_reserved_blocks a) (al_allocated a))))" by simp
    moreover from assms j tn have "window_position n (drop (al_reserved_blocks a) (al_allocated a)) = None"
      by (auto simp: allocate_contiguous_def allocator_inv_def Let_def split: if_splits option.splits)
    moreover have "j + n \<le> length (drop (al_reserved_blocks a) (al_allocated a))"
      using assms(1) j tn by (auto simp: allocator_inv_def)
    ultimately show False
      using window_position_None [of n "drop (al_reserved_blocks a) (al_allocated a)" j] by blast
  qed
qed

lemma allocate_contiguous_step:
  assumes "allocator_inv a" and "allocate_contiguous n a = Inr (s, a')"
  shows "allocator_inv a' \<and> data_blocks a' = data_blocks a \<and>
    {s..<s + n} \<subseteq> data_blocks a - owned_blocks a \<and> owned_blocks a' = owned_blocks a \<union> {s..<s + n} \<and> 0 < n"
proof -
  note r = allocate_contiguous_Inr [OF assms]
  have len: "s + n \<le> length (al_allocated a)" using assms(1) r(3) by (simp add: allocator_inv_def)
  have "allocator_inv a'"
    using assms(1) r(2,3,4) len count_true_fill [of "s + n" "al_allocated a" s "al_reserved_blocks a"]
    by (simp add: allocator_inv_def r(5) length_fill_true take_fill_true)
  moreover obtain i where "s = al_reserved_blocks a + i" using r(2) by (auto simp: nat_le_iff_add)
  with run_free_iff [OF assms(1), of i n] r(3,4)
  have "{s..<s + n} \<subseteq> data_blocks a - owned_blocks a" by (simp add: add.commute)
  moreover have "owned_blocks a' = owned_blocks a \<union> {s..<s + n}"
    using r(2,3) assms(1) len by (auto simp: owned_blocks_def r(5) nth_fill_true allocator_inv_def)
  moreover have "data_blocks a' = data_blocks a" by (simp add: data_blocks_def r(5))
  ultimately show ?thesis using r(1) by simp
qed

lemma count_true_clear:
  "xs ! i \<Longrightarrow> i < length xs \<Longrightarrow> Suc (length (filter id (xs[i := False]))) = length (filter id xs)"
  by (induction xs arbitrary: i) (auto simp: nth_Cons split: nat.splits)

lemma free_block_step:
  assumes "allocator_inv a" and "free_block b a = Inr a'"
  shows "allocator_inv a' \<and> data_blocks a' = data_blocks a \<and> b \<in> owned_blocks a \<and>
    owned_blocks a' = owned_blocks a - {b}"
proof -
  let ?r = "al_reserved_blocks a"
  from assms(2) have b: "?r \<le> b" "b < al_total_blocks a" "al_allocated a ! b"
    and a': "a' = a\<lparr>al_allocated := (al_allocated a)[b := False],
                    al_allocated_blocks := sub64 (al_allocated_blocks a) 1\<rparr>"
    by (auto simp: free_block_def data_index_def ensure_in_range_def split: if_splits)
  from assms(1) b have "drop ?r (al_allocated a) ! (b - ?r)" "b - ?r < length (drop ?r (al_allocated a))"
    by (auto simp: allocator_inv_def)
  from count_true_clear [OF this]
  have c: "Suc (length (filter id ((drop ?r (al_allocated a))[b - ?r := False])))
      = al_allocated_blocks a" using assms(1) by (simp add: allocator_inv_def)
  moreover have "drop ?r ((al_allocated a)[b := False]) = (drop ?r (al_allocated a))[b - ?r := False]"
    using b by (simp add: drop_update_swap)
  moreover from c have "sub64 (al_allocated_blocks a) 1 = al_allocated_blocks a - 1"
    by (intro sub64_exact) simp
  ultimately have "allocator_inv a'"
    using assms(1) b by (simp add: allocator_inv_def a')
  moreover have "owned_blocks a' = owned_blocks a - {b}"
    using assms(1) b by (auto simp: owned_blocks_def a' nth_list_update allocator_inv_def)
  moreover have "b \<in> owned_blocks a" using b by (simp add: owned_blocks_def)
  ultimately show ?thesis by (simp add: data_blocks_def a')
qed

lemma free_block_Inl:
  assumes "free_block b a = Inl e"
  shows "b \<notin> owned_blocks a"
    and "e = (if al_total_blocks a \<le> b then OutOfRange b (al_total_blocks a)
              else if b < al_reserved_blocks a then ReservedBlock b else AlreadyFree b)"
  using assms
  by (auto simp: free_block_def data_index_def ensure_in_range_def owned_blocks_def split: if_splits)

interpretation pool: block_pool allocate_contiguous free_block owned_blocks data_blocks allocator_inv
proof (unfold_locales, goal_cases)
  case (1 a)
  then show ?case by (auto simp: owned_blocks_def data_blocks_def)
next
  case (2 a)
  then show ?case by (simp add: data_blocks_def)
next
  case (3 a n s a')
  then show ?case by (rule allocate_contiguous_step)
next
  case (4 a n s a' t)
  then show ?case by (rule allocate_contiguous_Inr(6))
next
  case (5 a n e t)
  then show ?case using allocate_contiguous_Inl(2) by blast
next
  case (6 a b a')
  then show ?case by (rule free_block_step)
next
  case (7 a b e)
  then show ?case using free_block_Inl(1) by blast
qed

lemma is_owned_in_range:
  "b < al_total_blocks a \<Longrightarrow> is_owned a b = Inr (b < al_reserved_blocks a \<or> b \<in> owned_blocks a)"
  by (auto simp: is_owned_def ensure_in_range_def owned_blocks_def)

lemma is_owned_Inr:
  assumes "is_owned a b = Inr r"
  shows "b < al_total_blocks a" and "r \<longleftrightarrow> b < al_reserved_blocks a \<or> b \<in> owned_blocks a"
  using assms by (auto simp: is_owned_def ensure_in_range_def owned_blocks_def split: if_splits)

lemma allocator_new_inv:
  assumes "allocator_new total_blocks reserved = Inr a" and "total_blocks < U64_LIMIT"
  shows "allocator_inv a" and "owned_blocks a = {}" and "al_total_blocks a = total_blocks"
    and "al_reserved_blocks a = reserved"
  using assms
  by (auto simp: allocator_new_def allocator_inv_def owned_blocks_def list_all_iff
      dest: in_set_takeD split: if_splits)

lemma allocated_blocks_card:
  assumes "allocator_inv a"
  shows "al_allocated_blocks a = card (owned_blocks a)"
proof -
  let ?r = "al_reserved_blocks a" and ?xs = "drop (al_reserved_blocks a) (al_allocated a)"
  have "owned_blocks a = (\<lambda>i. i + ?r) ` {i. i < length ?xs \<and> ?xs ! i}"
    (is "_ = ?f ` ?S")
  proof (rule set_eqI)
    fix b
    show "b \<in> owned_blocks a \<longleftrightarrow> b \<in> ?f ` ?S"
    proof
      assume "b \<in> owned_blocks a"
      with assms have "b - ?r \<in> ?S" and "b = ?f (b - ?r)"
        by (auto simp: owned_blocks_def allocator_inv_def)
      then show "b \<in> ?f ` ?S" by blast
    next
      assume "b \<in> ?f ` ?S"
      with assms show "b \<in> owned_blocks a"
        by (auto simp: owned_blocks_def allocator_inv_def add.commute)
    qed
  qed
  moreover have "card (?f ` ?S) = card ?S" by (rule card_image) simp
  ultimately show ?thesis
    using assms by (simp add: allocator_inv_def length_filter_conv_card)
qed

lemma allocator_validate_ok:
  assumes "allocator_inv a"
  shows "allocator_validate a = Inr ()"
    and "al_reserved_blocks a + al_allocated_blocks a + free_blocks a = al_total_blocks a"
proof -
  have "al_allocated_blocks a \<le> al_total_blocks a - al_reserved_blocks a"
    using assms length_filter_le [of id "drop (al_reserved_blocks a) (al_allocated a)"]
    by (simp add: allocator_inv_def)
  then have "free_blocks a = al_total_blocks a - al_reserved_blocks a - al_allocated_blocks a"
    using assms by (simp add: free_blocks_def sub64_exact allocator_inv_def)
  moreover have "al_reserved_blocks a \<le> al_total_blocks a" using assms by (simp add: allocator_inv_def)
  ultimately show "al_reserved_blocks a + al_allocated_blocks a + free_blocks a = al_total_blocks a"
    using \<open>al_allocated_blocks a \<le> _\<close> by linarith
  with assms show "allocator_validate a = Inr ()"
    by (auto simp: allocator_validate_def allocator_inv_def Let_def checked_add_def)
qed

section \<open>Histories of an allocator\<close>

inductive alloc_step :: "block_allocator \<Rightarrow> block_allocator \<Rightarrow> bool" where
  step_run: "allocate_contiguous n a = Inr (s, a') \<Longrightarrow> alloc_step a a'"
| step_free: "free_block b a = Inr a' \<Longrightarrow> alloc_step a a'"

inductive_simps alloc_step_iff: "alloc_step a a'"

lemma alloc_step_inv: "alloc_step a a' \<Longrightarrow> allocator_inv a \<Longrightarrow> allocator_inv a'"
  by (auto simp: alloc_step_iff dest: allocate_contiguous_step free_block_step)

lemma alloc_reachable_inv: "alloc_step\<^sup>*\<^sup>* a a' \<Longrightarrow> allocator_inv a \<Longrightarrow> allocator_inv a'"
  by (induction rule: rtranclp_induct) (auto intro: alloc_step_inv)

end
