(* ===== verification/Allocation_Disk.thy ===== *)
theory Allocation_Disk
  imports Metadata_Region Allocation
begin

unbundle bit_operations_syntax

text \<open>
  The durable allocation bitmap of \<open>allocation_disk.rs\<close>: one bit per block of the device, only
  data blocks set, behind a header with the CRC of the bitmap. Loading rebuilds the in-memory
  allocator by allocating every data block and releasing the clear ones; the lemmas show that
  it rebuilds exactly the allocator that was stored.
\<close>

definition ALLOCATION_IMAGE_MAGIC :: "byte list" where "ALLOCATION_IMAGE_MAGIC = ascii ''FSLALOC'' @ [0]"
definition ALLOCATION_IMAGE_VERSION :: nat where "ALLOCATION_IMAGE_VERSION = 1"
definition ALLOCATION_HEADER_LEN :: nat where "ALLOCATION_HEADER_LEN = 32"
definition ALLOCATION_CHECKSUM_OFFSET :: nat where "ALLOCATION_CHECKSUM_OFFSET = 24"

definition alloc_validate_geometry :: "'d block_device \<Rightarrow> superblock \<Rightarrow> ('d, unit) dev_io" where
  "alloc_validate_geometry D sb =
     io_bind (io_count D) (\<lambda>count.
     if count \<noteq> sb_total_blocks sb then io_fail InvalidInput else io_return ())"

definition bitmap_len :: "superblock \<Rightarrow> nat io_result" where
  "bitmap_len sb = allocation_bitmap_bytes (sb_total_blocks sb)"

definition bit_is_set :: "byte list \<Rightarrow> u64 \<Rightarrow> bool io_result" where
  "bit_is_set bitmap block =
     (let byte_index = block div 8; bit_index = block mod 8 in
      if length bitmap \<le> byte_index then Inl InvalidData
      else Inr ((bitmap ! byte_index) AND push_bit bit_index 1 \<noteq> 0))"

definition set_bitmap_bit :: "byte list \<Rightarrow> u64 \<Rightarrow> byte list io_result" where
  "set_bitmap_bit bitmap block =
     (let byte_index = block div 8; bit_index = block mod 8 in
      if length bitmap \<le> byte_index then Inl InvalidInput
      else Inr (bitmap[byte_index := (bitmap ! byte_index) OR push_bit bit_index 1]))"

definition require_clear_bits :: "byte list \<Rightarrow> u64 list \<Rightarrow> unit io_result" where
  "require_clear_bits bitmap blocks =
     res_fold (\<lambda>block _. res_bind (bit_is_set bitmap block) (\<lambda>owned.
       if owned then Inl InvalidData else Inr ())) blocks ()"

definition validate_bitmap_bits :: "byte list \<Rightarrow> superblock \<Rightarrow> unit io_result" where
  "validate_bitmap_bits bitmap sb =
     res_bind (require_clear_bits bitmap [0..<reserved_blocks sb]) (\<lambda>_.
     res_bind (ok_or InvalidData (checked_mul (length bitmap) 8)) (\<lambda>bit_capacity.
     require_clear_bits bitmap [sb_total_blocks sb..<bit_capacity]))"

definition allocation_fields :: "byte list \<Rightarrow> (nat \<times> byte list) list" where
  "allocation_fields bitmap =
     [(0, ALLOCATION_IMAGE_MAGIC), (8, le_bytes 4 ALLOCATION_IMAGE_VERSION), (12, le_bytes 4 0),
      (16, le_bytes 8 (length bitmap)), (24, le_bytes 4 (unat (crc32 bitmap))), (28, le_bytes 4 0),
      (ALLOCATION_HEADER_LEN, bitmap)]"

definition alloc_encode_image :: "superblock \<Rightarrow> byte list \<Rightarrow> byte list io_result" where
  "alloc_encode_image sb bitmap =
     res_bind (bitmap_len sb) (\<lambda>expected.
     if length bitmap \<noteq> expected then Inl InvalidInput else
     res_bind (validate_bitmap_bits bitmap sb) (\<lambda>_.
     res_bind (region_len (sb_allocation_blocks sb)) (\<lambda>capacity.
     res_bind (ok_or InvalidInput (checked_add ALLOCATION_HEADER_LEN (length bitmap))) (\<lambda>payload_end.
     if payload_end > capacity \<or> ALLOCATION_HEADER_LEN \<noteq> ALLOCATION_IMAGE_HEADER_LEN then Inl InvalidInput
     else Inr (put_fields (allocation_fields bitmap) (zeroes capacity))))))"

definition alloc_decode_image :: "byte list \<Rightarrow> superblock \<Rightarrow> byte list io_result" where
  "alloc_decode_image img sb =
     res_bind (region_len (sb_allocation_blocks sb)) (\<lambda>capacity.
     if length img \<noteq> capacity \<or> length img < ALLOCATION_HEADER_LEN then Inl InvalidData
     else if get_bytes 0 8 img \<noteq> ALLOCATION_IMAGE_MAGIC then Inl InvalidData
     else if read_u32 img 8 \<noteq> ALLOCATION_IMAGE_VERSION then Inl InvalidData
     else if read_u32 img 12 \<noteq> 0 \<or> read_u32 img 28 \<noteq> 0 then Inl InvalidData
     else
       let encoded_bytes = read_u64 img 16 in
       res_bind (allocation_bitmap_bytes (sb_total_blocks sb)) (\<lambda>expected_bytes.
       if encoded_bytes \<noteq> expected_bytes then Inl InvalidData else
       res_bind (ok_or InvalidData (checked_add ALLOCATION_HEADER_LEN encoded_bytes)) (\<lambda>payload_end.
       if payload_end > length img then Inl InvalidData else
       let bitmap = get_bytes ALLOCATION_HEADER_LEN (payload_end - ALLOCATION_HEADER_LEN) img in
       if read_u32 img ALLOCATION_CHECKSUM_OFFSET \<noteq> unat (crc32 bitmap) then Inl InvalidData
       else if \<not> all_zero (drop payload_end img) then Inl InvalidData
       else res_bind (validate_bitmap_bits bitmap sb) (\<lambda>_. Inr bitmap))))"

definition alloc_read_region :: "'d block_device \<Rightarrow> superblock \<Rightarrow> ('d, byte list) dev_io" where
  "alloc_read_region D sb = read_region D InvalidInput (allocation_range sb) (sb_allocation_blocks sb)"

definition alloc_write_region :: "'d block_device \<Rightarrow> superblock \<Rightarrow> byte list \<Rightarrow> ('d, unit) dev_io" where
  "alloc_write_region D sb img = write_region D (allocation_range sb) (sb_allocation_blocks sb) img"

definition allocator_from_bitmap :: "superblock \<Rightarrow> byte list \<Rightarrow> block_allocator io_result" where
  "allocator_from_bitmap sb bitmap =
     res_bind (map_err (\<lambda>_. InvalidData) (allocator_new (sb_total_blocks sb) (reserved_blocks sb))) (\<lambda>fresh.
     let data = sub64 (sb_total_blocks sb) (reserved_blocks sb) in
     res_bind (res_fold (\<lambda>_ a. res_bind (map_err (\<lambda>_. InvalidData) (allocate a)) (\<lambda>(_, a'). Inr a'))
       [0..<data] fresh) (\<lambda>full.
     res_bind (res_fold (\<lambda>block a. res_bind (bit_is_set bitmap block) (\<lambda>owned.
         if \<not> owned then map_err (\<lambda>_. InvalidData) (free_block block a) else Inr a))
       [reserved_blocks sb..<sb_total_blocks sb] full) (\<lambda>allocator.
     res_bind (map_err (\<lambda>_. InvalidData) (allocator_validate allocator)) (\<lambda>_.
     Inr allocator))))"

definition load_allocator :: "'d block_device \<Rightarrow> superblock \<Rightarrow> ('d, block_allocator) dev_io" where
  "load_allocator D sb =
     io_seq (alloc_validate_geometry D sb)
     (io_bind (alloc_read_region D sb) (\<lambda>img.
      io_bind (io_lift (alloc_decode_image img sb)) (\<lambda>bitmap.
      io_lift (allocator_from_bitmap sb bitmap))))"

definition allocator_image :: "superblock \<Rightarrow> block_allocator \<Rightarrow> byte list io_result" where
  "allocator_image sb a =
     (if al_total_blocks a \<noteq> sb_total_blocks sb \<or> al_reserved_blocks a \<noteq> reserved_blocks sb then Inl InvalidInput
      else
      res_bind (map_err (\<lambda>_. InvalidInput) (allocator_validate a)) (\<lambda>_.
      res_bind (bitmap_len sb) (\<lambda>len.
      res_bind (res_fold (\<lambda>block bitmap. res_bind (map_err (\<lambda>_. InvalidInput) (is_owned a block)) (\<lambda>owned.
          if owned then set_bitmap_bit bitmap block else Inr bitmap))
        [reserved_blocks sb..<sb_total_blocks sb] (zeroes len)) (\<lambda>bitmap.
      alloc_encode_image sb bitmap))))"

definition store_allocator :: "'d block_device \<Rightarrow> superblock \<Rightarrow> block_allocator \<Rightarrow> ('d, unit) dev_io" where
  "store_allocator D sb a =
     io_seq (alloc_validate_geometry D sb)
     (io_bind (io_lift (allocator_image sb a)) (\<lambda>img.
      io_seq (alloc_write_region D sb img)
      (flush D)))"

definition initialize_allocation_region :: "'d block_device \<Rightarrow> superblock \<Rightarrow> ('d, unit) dev_io" where
  "initialize_allocation_region D sb =
     io_seq (alloc_validate_geometry D sb)
     (io_bind (io_lift (bitmap_len sb)) (\<lambda>len.
      io_bind (io_lift (alloc_encode_image sb (zeroes len))) (\<lambda>img.
      alloc_write_region D sb img)))"

section \<open>The bitmap as a set of blocks\<close>

definition bitmap_set :: "byte list \<Rightarrow> u64 set" where
  "bitmap_set bm = {b. b < 8 * length bm \<and> bit (bm ! (b div 8)) (b mod 8)}"

lemma bit_is_set_in_range:
  assumes "b < 8 * length bm"
  shows "bit_is_set bm b = Inr (b \<in> bitmap_set bm)"
proof -
  have "b div 8 < length bm" using assms by (simp add: less_mult_imp_div_less mult.commute)
  with assms show ?thesis
    by (simp add: bit_is_set_def Let_def bitmap_set_def bit_iff_and_push_bit_not_eq_0)
qed

lemma set_bitmap_bit_ok:
  assumes "b < 8 * length bm"
  shows "\<exists>bm'. set_bitmap_bit bm b = Inr bm' \<and> length bm' = length bm \<and> bitmap_set bm' = insert b (bitmap_set bm)"
proof -
  let ?bm' = "bm[b div 8 := (bm ! (b div 8)) OR push_bit (b mod 8) 1]"
  have i: "b div 8 < length bm" using assms by (simp add: less_mult_imp_div_less mult.commute)
  have "c \<in> bitmap_set ?bm' \<longleftrightarrow> c \<in> insert b (bitmap_set bm)" for c
  proof (cases "c div 8 = b div 8")
    case True
    moreover have "c = b \<longleftrightarrow> c mod 8 = b mod 8" using True by (metis div_mult_mod_eq)
    ultimately show ?thesis
      using i assms by (auto simp: bitmap_set_def bit_simps)
  next
    case False
    then show ?thesis by (auto simp: bitmap_set_def)
  qed
  with i show ?thesis by (auto simp: set_bitmap_bit_def Let_def)
qed

lemma bitmap_set_zeroes [simp]: "bitmap_set (zeroes n) = {}"
  by (auto simp: bitmap_set_def zeroes_def less_mult_imp_div_less mult.commute)

lemma require_clear_bits_iff:
  assumes "set blocks \<subseteq> {..<8 * length bm}"
  shows "require_clear_bits bm blocks = (if set blocks \<inter> bitmap_set bm = {} then Inr () else Inl InvalidData)"
  using assms
proof (induction blocks)
  case (Cons b bs)
  then show ?case
    by (auto simp: require_clear_bits_def bit_is_set_in_range)
qed (simp add: require_clear_bits_def)

lemma bitmap_len_ok:
  assumes "geometry_ok sb"
  shows "bitmap_len sb = Inr ((sb_total_blocks sb + 7) div 8)" and "sb_total_blocks sb + 7 < U64_LIMIT"
  using assms
  by (auto simp: geometry_ok_def required_allocation_blocks_def bitmap_len_def allocation_bitmap_bytes_def res_bind_Inr)

lemma bitmap_capacity: "n \<le> 8 * ((n + 7) div 8)" "8 * ((n + 7) div 8) \<le> n + 7" for n :: nat
  by auto

text \<open>A bitmap of the right length passes validation exactly when it marks data blocks only.\<close>

lemma validate_bitmap_bits_iff:
  assumes "geometry_ok sb" and "length bm = (sb_total_blocks sb + 7) div 8"
  shows "validate_bitmap_bits bm sb =
     (if bitmap_set bm \<subseteq> {reserved_blocks sb..<sb_total_blocks sb} then Inr () else Inl InvalidData)"
proof -
  have cap: "checked_mul (length bm) 8 = Some (8 * length bm)"
    using bitmap_len_ok(2) [OF assms(1)] bitmap_capacity(2) [of "sb_total_blocks sb"] assms(2)
    by (simp add: mult.commute)
  have r: "reserved_blocks sb \<le> 8 * length bm"
    using geometry_order(5) [OF assms(1)] bitmap_capacity(1) [of "sb_total_blocks sb"] assms(2) by simp
  have "bitmap_set bm \<subseteq> {..<8 * length bm}" by (auto simp: bitmap_set_def)
  then have "bitmap_set bm \<subseteq> {reserved_blocks sb..<sb_total_blocks sb} \<longleftrightarrow>
      {0..<reserved_blocks sb} \<inter> bitmap_set bm = {} \<and> {sb_total_blocks sb..<8 * length bm} \<inter> bitmap_set bm = {}"
    by (auto simp: disjoint_iff subset_iff not_less not_le)
  with r show ?thesis
    by (auto simp: validate_bitmap_bits_def cap require_clear_bits_iff subset_iff)
qed


section \<open>The image\<close>

lemma length_allocation_magic [simp]: "length ALLOCATION_IMAGE_MAGIC = 8"
  by (simp add: ALLOCATION_IMAGE_MAGIC_def)

definition alloc_layout :: "byte list \<Rightarrow> nat \<Rightarrow> byte list" where
  "alloc_layout bm pad =
     ALLOCATION_IMAGE_MAGIC @ le_bytes 4 ALLOCATION_IMAGE_VERSION @ zeroes 4 @ le_bytes 8 (length bm) @
     le_bytes 4 (unat (crc32 bm)) @ zeroes 4 @ bm @ zeroes pad"

lemma alloc_layout_get:
  "get_bytes 0 8 (alloc_layout bm pad) = ALLOCATION_IMAGE_MAGIC"
  "get_bytes 8 4 (alloc_layout bm pad) = le_bytes 4 ALLOCATION_IMAGE_VERSION"
  "get_bytes 12 4 (alloc_layout bm pad) = zeroes 4"
  "get_bytes 16 8 (alloc_layout bm pad) = le_bytes 8 (length bm)"
  "get_bytes 24 4 (alloc_layout bm pad) = le_bytes 4 (unat (crc32 bm))"
  "get_bytes 28 4 (alloc_layout bm pad) = zeroes 4"
  "get_bytes 32 (length bm) (alloc_layout bm pad) = bm"
  "drop (32 + length bm) (alloc_layout bm pad) = zeroes pad"
  "length (alloc_layout bm pad) = 32 + length bm + pad"
  by (simp_all add: alloc_layout_def get_bytes_def zeroes_def)

lemma alloc_fields_layout:
  assumes "32 + length bm \<le> capacity"
  shows "put_fields (allocation_fields bm) (zeroes capacity) = alloc_layout bm (capacity - 32 - length bm)"
proof -
  have "put_fields (allocation_fields bm) ([] @ zeroes capacity)
      = [] @ concat (map snd (allocation_fields bm)) @ zeroes (capacity - length (concat (map snd (allocation_fields bm))))"
    using assms by (intro put_fields_contiguous) (simp_all add: allocation_fields_def ALLOCATION_HEADER_LEN_def)
  then show ?thesis
    by (simp add: allocation_fields_def alloc_layout_def le_bytes_zero)
qed

lemma alloc_encode_image_Inr:
  assumes "alloc_encode_image sb bm = Inr img"
  shows "bitmap_len sb = Inr (length bm)" and "validate_bitmap_bits bm sb = Inr ()"
    and "region_len (sb_allocation_blocks sb) = Inr (length img)" and "32 + length bm \<le> length img"
    and "img = alloc_layout bm (length img - 32 - length bm)"
proof -
  from assms obtain capacity where c: "bitmap_len sb = Inr (length bm)" "validate_bitmap_bits bm sb = Inr ()"
    "region_len (sb_allocation_blocks sb) = Inr capacity" "32 + length bm \<le> capacity"
    "img = put_fields (allocation_fields bm) (zeroes capacity)"
    by (auto simp: alloc_encode_image_def res_bind_Inr ALLOCATION_HEADER_LEN_def split: if_splits)
  moreover have "img = alloc_layout bm (capacity - 32 - length bm)"
    using c(4,5) by (simp add: alloc_fields_layout)
  moreover from this c(4) have "length img = capacity" by (simp add: alloc_layout_get)
  ultimately show "bitmap_len sb = Inr (length bm)" and "validate_bitmap_bits bm sb = Inr ()"
    and "region_len (sb_allocation_blocks sb) = Inr (length img)" and "32 + length bm \<le> length img"
    and "img = alloc_layout bm (length img - 32 - length bm)" by simp_all
qed

lemma alloc_decode_encode_image:
  assumes "alloc_encode_image sb bm = Inr img"
  shows "alloc_decode_image img sb = Inr bm"
proof -
  note e = alloc_encode_image_Inr [OF assms]
  obtain pad where img: "img = alloc_layout bm pad" using e(5) ..
  have len: "length img < U64_LIMIT" using e(3) by (auto simp: region_len_def)
  have "allocation_bitmap_bytes (sb_total_blocks sb) = Inr (length bm)" using e(1) by (simp add: bitmap_len_def)
  with e(2,3,4) len show ?thesis
    by (simp add: alloc_decode_image_def img alloc_layout_get read_defs ALLOCATION_HEADER_LEN_def
        ALLOCATION_CHECKSUM_OFFSET_def ALLOCATION_IMAGE_VERSION_def checked_add_def)
qed

lemma alloc_decode_image_Inr:
  assumes "alloc_decode_image img sb = Inr bm"
  shows "validate_bitmap_bits bm sb = Inr ()" and "bitmap_len sb = Inr (length bm)"
    and "read_u32 img 24 = unat (crc32 bm)" and "bm = get_bytes 32 (length bm) img"
    and "all_zero (drop (32 + length bm) img)" and "read_u64 img 16 = length bm"
    and "get_bytes 0 8 img = ALLOCATION_IMAGE_MAGIC" and "read_u32 img 8 = ALLOCATION_IMAGE_VERSION"
    and "read_u32 img 12 = 0" and "read_u32 img 28 = 0" and "32 + length bm \<le> length img"
proof -
  from assms obtain n where n: "allocation_bitmap_bytes (sb_total_blocks sb) = Inr n" "read_u64 img 16 = n"
    "32 + n \<le> length img" and bm: "bm = get_bytes 32 n img" and "validate_bitmap_bits bm sb = Inr ()"
    "read_u32 img 24 = unat (crc32 bm)" "all_zero (drop (32 + n) img)"
    "get_bytes 0 8 img = ALLOCATION_IMAGE_MAGIC" "read_u32 img 8 = ALLOCATION_IMAGE_VERSION"
    "read_u32 img 12 = 0" "read_u32 img 28 = 0"
    by (auto simp: alloc_decode_image_def Let_def res_bind_Inr ALLOCATION_HEADER_LEN_def
        ALLOCATION_CHECKSUM_OFFSET_def split: if_splits)
  moreover have "length bm = n" using n(3) by (simp add: bm length_get_bytes)
  ultimately show "validate_bitmap_bits bm sb = Inr ()" and "bitmap_len sb = Inr (length bm)"
    and "read_u32 img 24 = unat (crc32 bm)" and "bm = get_bytes 32 (length bm) img"
    and "all_zero (drop (32 + length bm) img)" and "read_u64 img 16 = length bm"
    and "get_bytes 0 8 img = ALLOCATION_IMAGE_MAGIC" and "read_u32 img 8 = ALLOCATION_IMAGE_VERSION"
    and "read_u32 img 12 = 0" and "read_u32 img 28 = 0" and "32 + length bm \<le> length img"
    by (simp_all add: bitmap_len_def)
qed

text \<open>Only the canonical image of a bitmap is accepted.\<close>

lemma alloc_decode_image_canonical:
  assumes "alloc_decode_image img sb = Inr bm"
  shows "img = alloc_layout bm (length img - 32 - length bm)"
proof -
  note d = alloc_decode_image_Inr [OF assms]
  have "img = drop 0 img" by simp
  also have "\<dots> = get_bytes 0 8 img @ drop 8 img" using get_bytes_drop [of 0 img 8] by simp
  also have "drop 8 img = get_bytes 8 4 img @ drop 12 img" using get_bytes_drop [of 8 img 4] by simp
  also have "drop 12 img = get_bytes 12 4 img @ drop 16 img" using get_bytes_drop [of 12 img 4] by simp
  also have "drop 16 img = get_bytes 16 8 img @ drop 24 img" using get_bytes_drop [of 16 img 8] by simp
  also have "drop 24 img = get_bytes 24 4 img @ drop 28 img" using get_bytes_drop [of 24 img 4] by simp
  also have "drop 28 img = get_bytes 28 4 img @ drop 32 img" using get_bytes_drop [of 28 img 4] by simp
  also have "drop 32 img = get_bytes 32 (length bm) img @ drop (32 + length bm) img" by (rule get_bytes_drop)
  finally have split: "img = get_bytes 0 8 img @ get_bytes 8 4 img @ get_bytes 12 4 img @ get_bytes 16 8 img @
      get_bytes 24 4 img @ get_bytes 28 4 img @ bm @ drop (32 + length bm) img" using d(4) by simp
  have f: "get_bytes 8 4 img = le_bytes 4 ALLOCATION_IMAGE_VERSION" "get_bytes 12 4 img = le_bytes 4 0"
    "get_bytes 16 8 img = le_bytes 8 (length bm)" "get_bytes 24 4 img = le_bytes 4 (unat (crc32 bm))"
    "get_bytes 28 4 img = le_bytes 4 0"
    using le_bytes_read_u32 [of 8 img] le_bytes_read_u32 [of 12 img] le_bytes_read_u64 [of 16 img]
      le_bytes_read_u32 [of 24 img] le_bytes_read_u32 [of 28 img] d(3,6,8,9,10,11) by simp_all
  have "drop (32 + length bm) img = zeroes (length img - 32 - length bm)"
    using d(5) by (simp add: all_zero_eq)
  with split f d(7) show ?thesis by (simp add: alloc_layout_def le_bytes_zero)
qed

lemma crc32_word_inj: "le_bytes 4 (unat (a :: 32 word)) = le_bytes 4 (unat b) \<longleftrightarrow> a = b"
  by (metis from_le_unat_crc word_unat_eq_iff)

text \<open>A single damaged byte anywhere in the image is detected.\<close>

lemma alloc_decode_image_corrupt:
  assumes "alloc_decode_image img sb = Inr bm" and "k < length img" and "b \<noteq> img ! k"
  shows "\<exists>e. alloc_decode_image (img[k := b]) sb = Inl e"
proof (cases "alloc_decode_image (img[k := b]) sb")
  case (Inr bm')
  note d = alloc_decode_image_Inr [OF assms(1)] and d' = alloc_decode_image_Inr [OF Inr]
  note c = alloc_decode_image_canonical [OF assms(1)] and c' = alloc_decode_image_canonical [OF Inr]
  have len: "length bm' = length bm" using d(2) d'(2) by simp
  have "bm' = bm"
  proof (cases "k < 32 \<or> 32 + length bm \<le> k")
    case True
    then have "get_bytes 32 (length bm) (img[k := b]) = get_bytes 32 (length bm) img"
      by (auto simp: get_bytes_def drop_update_swap not_less)
    then show ?thesis using d(4) d'(4) len by simp
  next
    case False
    then have "24 \<le> k" and "4 \<le> k - 24" by auto
    then have "read_u32 (img[k := b]) 24 = read_u32 img 24"
      by (simp add: read_u32_def get_bytes_def drop_update_swap)
    then have same: "crc32 bm' = crc32 bm" using d(3) d'(3) by (simp add: word_unat_eq_iff)
    have "bm' = bm[k - 32 := b]"
      using d(4) d'(4) len False by (simp add: get_bytes_def drop_update_swap take_update_swap)
    moreover have "bm ! (k - 32) = img ! k" 
    proof -
      have "bm ! (k - 32) = get_bytes 32 (length bm) img ! (k - 32)" using d(4) by simp
      moreover have "k - 32 < length bm" and "32 + (k - 32) = k" using False by auto
      ultimately show ?thesis using d(11) by (simp add: get_bytes_def)
    qed
    ultimately show ?thesis
      using crc32_update_byte [of "k - 32" bm b] same False assms(3)
      by (metis add_diff_inverse_nat nat_add_left_cancel_less not_le)
  qed
  with c c' len have "img[k := b] = img" by simp
  with assms(2,3) have False by (metis nth_list_update_eq)
  then show ?thesis ..
qed simp


section \<open>Rebuilding the allocator\<close>

lemma res_fold_mono:
  assumes "res_fold f xs s = Inr s'" and "\<And>x s t. x \<in> set xs \<Longrightarrow> f x s = Inr t \<Longrightarrow> g x s = Inr t"
  shows "res_fold g xs s = Inr s'"
  using assms by (induction xs arbitrary: s) (auto simp: res_bind_Inr)

context block_pool
begin

lemma release_where:
  assumes "ok a" and "set bs \<subseteq> owned a" and "distinct bs"
  shows "\<exists>a'. res_fold (\<lambda>b a. if keep b then Inr a else release b a) bs a = Inr a' \<and> ok a' \<and>
     space a' = space a \<and> owned a' = owned a - {b \<in> set bs. \<not> keep b}"
  using assms
proof (induction bs arbitrary: a)
  case (Cons b bs)
  show ?case
  proof (cases "keep b")
    case True
    with Cons.IH [of a] Cons.prems obtain a' where "res_fold (\<lambda>b a. if keep b then Inr a else release b a) bs a = Inr a'"
      "ok a'" "space a' = space a" "owned a' = owned a - {b \<in> set bs. \<not> keep b}" by auto
    with True show ?thesis by (auto intro!: exI [of _ a'])
  next
    case False
    from Cons.prems have "b \<in> owned a" by simp
    with Cons.prems(1) obtain a1 where a1: "release b a = Inr a1" "ok a1" "space a1 = space a" "owned a1 = owned a - {b}"
      by (rule release_owned)
    with Cons.IH [of a1] Cons.prems obtain a' where "res_fold (\<lambda>b a. if keep b then Inr a else release b a) bs a1 = Inr a'"
      "ok a'" "space a' = space a" "owned a' = owned a - {b} - {b \<in> set bs. \<not> keep b}" by auto
    with False a1(1) show ?thesis by (auto intro!: exI [of _ a'])
  qed
qed simp

end

lemma allocate_frame:
  "allocate_contiguous n a = Inr (s, a') \<Longrightarrow>
     al_total_blocks a' = al_total_blocks a \<and> al_reserved_blocks a' = al_reserved_blocks a"
  by (auto simp: allocate_contiguous_def Let_def split: if_splits option.splits)

lemma free_block_frame:
  "free_block b a = Inr a' \<Longrightarrow> al_total_blocks a' = al_total_blocks a \<and> al_reserved_blocks a' = al_reserved_blocks a"
  by (auto simp: free_block_def res_bind_Inr split: if_splits)

lemma allocator_eqI:
  assumes "allocator_inv a" and "allocator_inv a'" and "al_total_blocks a = al_total_blocks a'"
    and "al_reserved_blocks a = al_reserved_blocks a'" and "owned_blocks a = owned_blocks a'"
  shows "a = a'"
proof -
  have flag: "al_allocated c ! b \<longleftrightarrow> b \<in> owned_blocks c" if "allocator_inv c" and "b < al_total_blocks c" for c b
  proof (cases "b < al_reserved_blocks c")
    case True
    then have "b < length (take (al_reserved_blocks c) (al_allocated c))" using that by (simp add: allocator_inv_def)
    then have "\<not> take (al_reserved_blocks c) (al_allocated c) ! b"
      using that(1) by (simp add: allocator_inv_def list_all_length)
    with True show ?thesis by (simp add: owned_blocks_def)
  next
    case False
    with that show ?thesis by (simp add: owned_blocks_def)
  qed
  have "al_allocated a = al_allocated a'"
    by (rule nth_equalityI) (use assms flag in \<open>auto simp: allocator_inv_def\<close>)
  moreover from this have "al_allocated_blocks a = al_allocated_blocks a'"
    using assms by (simp add: allocator_inv_def)
  ultimately show ?thesis using assms by simp
qed


text \<open>Any bitmap that marks data blocks only is rebuilt as the allocator owning those blocks.\<close>

lemma allocator_from_bitmap_ok:
  assumes g: "geometry_ok sb" and len: "length bm = (sb_total_blocks sb + 7) div 8"
    and bits: "bitmap_set bm \<subseteq> {reserved_blocks sb..<sb_total_blocks sb}"
  obtains a where "allocator_from_bitmap sb bm = Inr a" and "allocator_inv a" and "owned_blocks a = bitmap_set bm"
    and "al_total_blocks a = sb_total_blocks sb" and "al_reserved_blocks a = reserved_blocks sb"
proof -
  let ?t = "sb_total_blocks sb" and ?r = "reserved_blocks sb"
  let ?take = "\<lambda>_ a. res_bind (allocate_contiguous 1 a) (\<lambda>(s, a'). Inr a')"
  let ?drop = "\<lambda>b a. if b \<in> bitmap_set bm then Inr a else free_block b a"
  have r: "?r \<le> ?t" "?t < U64_LIMIT" using geometry_order(5) geometry_okD(10) g by auto
  then obtain fresh where fresh: "allocator_new ?t ?r = Inr fresh" by (auto simp: allocator_new_def)
  note n = allocator_new_inv [OF fresh r(2)]
  have sp: "data_blocks fresh = {?r..<?t}" by (simp add: data_blocks_def n(3,4))
  from pool.fill_pool [OF n(1,2), of "?t - ?r"] sp obtain full where
    full: "res_fold ?take [0..<?t - ?r] fresh = Inr full" "allocator_inv full" "data_blocks full = {?r..<?t}"
      "card (owned_blocks full) = ?t - ?r" by auto
  have owned: "owned_blocks full = {?r..<?t}"
    using pool.owned_in_space [OF full(2)] full(3,4) by (intro card_subset_eq) auto
  with pool.release_where [OF full(2), of "[?r..<?t]" "\<lambda>b. b \<in> bitmap_set bm"] obtain a where
    a: "res_fold ?drop [?r..<?t] full = Inr a" "allocator_inv a" "owned_blocks a = {?r..<?t} - {b. ?r \<le> b \<and> b < ?t \<and> b \<notin> bitmap_set bm}"
    by auto
  have frame: "al_total_blocks full = ?t \<and> al_reserved_blocks full = ?r"
    by (rule res_fold_invariant [OF full(1)]) (use n allocate_frame in \<open>auto simp: res_bind_Inr\<close>)
  have geo: "al_total_blocks a = ?t \<and> al_reserved_blocks a = ?r"
    by (rule res_fold_invariant [OF a(1)]) (use frame free_block_frame in \<open>auto split: if_splits\<close>)
  have f1: "res_fold (\<lambda>_ a. res_bind (map_err (\<lambda>_. InvalidData) (allocate a)) (\<lambda>(_, a'). Inr a')) [0..<?t - ?r] fresh = Inr full"
    by (rule res_fold_mono [OF full(1)]) (auto simp: allocate_def res_bind_Inr)
  have f2: "res_fold (\<lambda>block a. res_bind (bit_is_set bm block) (\<lambda>owned.
         if \<not> owned then map_err (\<lambda>_. InvalidData) (free_block block a) else Inr a)) [?r..<?t] full = Inr a"
    by (rule res_fold_mono [OF a(1)])
      (use len bitmap_capacity(1) [of ?t] in \<open>auto simp: bit_is_set_in_range split: if_splits\<close>)
  have "allocator_from_bitmap sb bm = Inr a"
    using fresh f1 f2 allocator_validate_ok(1) [OF a(2)] r(1)
    by (simp add: allocator_from_bitmap_def map_err_def sub64_exact)
  moreover have "owned_blocks a = bitmap_set bm" using a(3) bits by auto
  ultimately show thesis using that a(2) geo by blast
qed


text \<open>The bitmap that \<open>store_allocator\<close> builds marks exactly the owned data blocks.\<close>

lemma mark_owned:
  assumes "al_total_blocks a \<le> 8 * length bm" and "set bs \<subseteq> {al_reserved_blocks a..<al_total_blocks a}"
  shows "\<exists>bm'. res_fold (\<lambda>block bitmap. res_bind (map_err (\<lambda>_. InvalidInput) (is_owned a block)) (\<lambda>owned.
          if owned then set_bitmap_bit bitmap block else Inr bitmap)) bs bm = Inr bm' \<and>
     length bm' = length bm \<and> bitmap_set bm' = bitmap_set bm \<union> (set bs \<inter> owned_blocks a)"
  using assms
proof (induction bs arbitrary: bm)
  case (Cons b bs)
  then have b: "is_owned a b = Inr (b \<in> owned_blocks a)" "b < 8 * length bm"
    by (auto simp: is_owned_in_range)
  show ?case
  proof (cases "b \<in> owned_blocks a")
    case True
    from set_bitmap_bit_ok [OF b(2)] obtain bm1 where
      1: "set_bitmap_bit bm b = Inr bm1" "length bm1 = length bm" "bitmap_set bm1 = insert b (bitmap_set bm)" by blast
    with Cons.IH [of bm1] Cons.prems b True show ?thesis by (auto simp: map_err_def)
  next
    case False
    with Cons.IH [of bm] Cons.prems b show ?thesis by (auto simp: map_err_def)
  qed
qed simp

lemma allocator_image_bitmap:
  assumes "geometry_ok sb" and "allocator_inv a" and "allocator_image sb a = Inr img"
  obtains bm where "alloc_encode_image sb bm = Inr img" and "bitmap_set bm = owned_blocks a"
    and "length bm = (sb_total_blocks sb + 7) div 8"
    and "al_total_blocks a = sb_total_blocks sb" and "al_reserved_blocks a = reserved_blocks sb"
proof -
  let ?z = "zeroes ((sb_total_blocks sb + 7) div 8)"
  from assms(3) have geo: "al_total_blocks a = sb_total_blocks sb" "al_reserved_blocks a = reserved_blocks sb"
    by (auto simp: allocator_image_def split: if_splits)
  have "al_total_blocks a \<le> 8 * length ?z" using geo(1) bitmap_capacity(1) [of "sb_total_blocks sb"] by simp
  from mark_owned [OF this, of "[reserved_blocks sb..<sb_total_blocks sb]"] geo assms(3) bitmap_len_ok(1) [OF assms(1)]
  obtain bm where bm: "alloc_encode_image sb bm = Inr img" "length bm = (sb_total_blocks sb + 7) div 8"
    "bitmap_set bm = {reserved_blocks sb..<sb_total_blocks sb} \<inter> owned_blocks a"
    by (auto simp: allocator_image_def res_bind_Inr split: if_splits)
  moreover have "owned_blocks a \<subseteq> {reserved_blocks sb..<sb_total_blocks sb}"
    using pool.owned_in_space [OF assms(2)] geo by (simp add: data_blocks_def)
  ultimately show thesis using that [of bm] geo by auto
qed

definition allocator_from_image :: "superblock \<Rightarrow> byte list \<Rightarrow> block_allocator io_result" where
  "allocator_from_image sb img = res_bind (alloc_decode_image img sb) (allocator_from_bitmap sb)"

lemma allocator_image_round_trip:
  assumes "geometry_ok sb" and "allocator_inv a" and "allocator_image sb a = Inr img"
  shows "allocator_from_image sb img = Inr a"
proof -
  from allocator_image_bitmap [OF assms] obtain bm where
    bm: "alloc_encode_image sb bm = Inr img" "bitmap_set bm = owned_blocks a" "length bm = (sb_total_blocks sb + 7) div 8"
      "al_total_blocks a = sb_total_blocks sb" "al_reserved_blocks a = reserved_blocks sb" .
  have "bitmap_set bm \<subseteq> {reserved_blocks sb..<sb_total_blocks sb}"
    using pool.owned_in_space [OF assms(2)] bm by (simp add: data_blocks_def)
  with assms(1) bm(3) obtain a' where a': "allocator_from_bitmap sb bm = Inr a'" "allocator_inv a'" "owned_blocks a' = bitmap_set bm"
    "al_total_blocks a' = sb_total_blocks sb" "al_reserved_blocks a' = reserved_blocks sb"
    by (rule allocator_from_bitmap_ok)
  have "a' = a" by (rule allocator_eqI) (use a' bm assms(2) in simp_all)
  with a'(1) alloc_decode_encode_image [OF bm(1)] show ?thesis by (simp add: allocator_from_image_def)
qed

text \<open>An accepted image always rebuilds a well-formed allocator; the rebuilding loops cannot fail.\<close>

lemma allocator_from_image_Inr:
  assumes "geometry_ok sb" and "alloc_decode_image img sb = Inr bm"
  obtains a where "allocator_from_image sb img = Inr a" and "allocator_inv a" and "owned_blocks a = bitmap_set bm"
    and "al_total_blocks a = sb_total_blocks sb" and "al_reserved_blocks a = reserved_blocks sb"
proof -
  note d = alloc_decode_image_Inr [OF assms(2)]
  have len: "length bm = (sb_total_blocks sb + 7) div 8" using d(2) bitmap_len_ok(1) [OF assms(1)] by simp
  with d(1) validate_bitmap_bits_iff [OF assms(1) len] have "bitmap_set bm \<subseteq> {reserved_blocks sb..<sb_total_blocks sb}"
    by (auto split: if_splits)
  from allocator_from_bitmap_ok [OF assms(1) len this] assms(2) that show thesis
    by (metis allocator_from_image_def res_bind_simps(2))
qed

text \<open>Every allocator of matching geometry has an image: storing cannot fail for lack of room.\<close>

lemma allocator_image_total:
  assumes "addressable sb" and "allocator_inv a" and "al_total_blocks a = sb_total_blocks sb"
    and "al_reserved_blocks a = reserved_blocks sb"
  shows "\<exists>img. allocator_image sb a = Inr img"
proof -
  note g = addressable_geometry [OF assms(1)]
  let ?z = "zeroes ((sb_total_blocks sb + 7) div 8)"
  have "al_total_blocks a \<le> 8 * length ?z" using assms(3) bitmap_capacity(1) [of "sb_total_blocks sb"] by simp
  from mark_owned [OF this, of "[reserved_blocks sb..<sb_total_blocks sb]"] assms(3,4) obtain bm where
    bm: "res_fold (\<lambda>block bitmap. res_bind (map_err (\<lambda>_. InvalidInput) (is_owned a block)) (\<lambda>owned.
          if owned then set_bitmap_bit bitmap block else Inr bitmap)) [reserved_blocks sb..<sb_total_blocks sb] ?z = Inr bm"
    "length bm = (sb_total_blocks sb + 7) div 8" "bitmap_set bm \<subseteq> {reserved_blocks sb..<sb_total_blocks sb}" by auto
  have "required_allocation_blocks (sb_total_blocks sb) = Inr (sb_allocation_blocks sb)"
    using g by (simp add: geometry_ok_def)
  from required_allocation_blocks_Inr(3) [OF this]
  have fit: "32 + length bm \<le> sb_allocation_blocks sb * BLOCK_SIZE" using bm(2) by simp
  have cap: "region_len (sb_allocation_blocks sb) = Inr (sb_allocation_blocks sb * BLOCK_SIZE)"
    "sb_allocation_blocks sb * BLOCK_SIZE < U64_LIMIT"
    using addressable_region_len [OF assms(1), of "sb_allocation_blocks sb"] geometry_okD [OF g] by auto
  have "checked_add 32 (length bm) = Some (32 + length bm)"
    using le_less_trans [OF fit cap(2)] by (simp only: checked_add_Some simp_thms)
  with cap fit bm(2,3) validate_bitmap_bits_iff [OF g bm(2)] bitmap_len_ok(1) [OF g]
  have "\<exists>img. alloc_encode_image sb bm = Inr img"
    by (simp add: alloc_encode_image_def ALLOCATION_HEADER_LEN_def ALLOCATION_IMAGE_HEADER_LEN_def del: checked_add_Some)
  then show ?thesis
    using assms(3,4) allocator_validate_ok(1) [OF assms(2)] bitmap_len_ok(1) [OF g] bm(1)
    by (simp add: allocator_image_def map_err_def)
qed


section \<open>The bitmap on the disk\<close>

definition load_allocator_disk :: "superblock \<Rightarrow> disk \<Rightarrow> block_allocator io_result" where
  "load_allocator_disk sb v = allocator_from_image sb (image_get (allocation_range sb) v)"

lemma allocation_range_geometry:
  assumes "geometry_ok sb"
  shows "allocation_range sb = [sb_allocation_start sb..<sb_inode_start sb]" "allocation_range sb \<noteq> []"
    "length (allocation_range sb) = sb_allocation_blocks sb" "b \<in> set (allocation_range sb) \<Longrightarrow> b < sb_total_blocks sb"
  using geometry_ranges [OF assms] geometry_order [OF assms] geometry_okD(7) [OF assms] by auto

lemma alloc_validate_ok:
  "block_count D d = sb_total_blocks sb \<Longrightarrow> alloc_validate_geometry D sb d = (Inr (), d)"
  by (simp add: alloc_validate_geometry_def io_count_def io_simps)

lemma load_allocator_disk_Inr:
  assumes "geometry_ok sb" and "load_allocator_disk sb v = Inr a"
  shows "allocator_inv a" and "al_total_blocks a = sb_total_blocks sb" and "al_reserved_blocks a = reserved_blocks sb"
    and "owned_blocks a \<subseteq> {reserved_blocks sb..<sb_total_blocks sb}"
proof -
  from assms(2) obtain bm where "alloc_decode_image (image_get (allocation_range sb) v) sb = Inr bm"
    by (auto simp: load_allocator_disk_def allocator_from_image_def res_bind_Inr)
  with assms(1) obtain a' where "allocator_from_image sb (image_get (allocation_range sb) v) = Inr a'" and a': "allocator_inv a'"
    "al_total_blocks a' = sb_total_blocks sb" "al_reserved_blocks a' = reserved_blocks sb"
    by (rule allocator_from_image_Inr)
  with assms(2) have "a' = a" by (simp add: load_allocator_disk_def)
  with a' pool.owned_in_space [of a] show "allocator_inv a" and "al_total_blocks a = sb_total_blocks sb"
    and "al_reserved_blocks a = reserved_blocks sb" and "owned_blocks a \<subseteq> {reserved_blocks sb..<sb_total_blocks sb}"
    by (simp_all add: data_blocks_def)
qed

lemma load_allocator_mem:
  assumes a: "addressable sb" and "n = sb_total_blocks sb" and "disk_ok n v"
  shows "load_allocator (mem_device n) sb v = (load_allocator_disk sb v, v)"
proof -
  note g = addressable_geometry [OF a] and r = allocation_range_geometry [OF addressable_geometry [OF a]]
  have "region_len (length (allocation_range sb)) = Inr (sb_allocation_blocks sb * BLOCK_SIZE)"
    using addressable_region_len [OF a] r(3) geometry_okD [OF g] by simp
  from read_region_mem [OF this, of n v InvalidInput] assms r(3,4)
  have "alloc_read_region (mem_device n) sb v = (Inr (image_get (allocation_range sb) v), v)"
    by (simp add: alloc_read_region_def)
  then show ?thesis
    using alloc_validate_ok [of "mem_device n" v sb] assms(2)
    by (cases "alloc_decode_image (image_get (allocation_range sb) v) sb")
      (simp_all add: load_allocator_def io_simps load_allocator_disk_def allocator_from_image_def)
qed

lemma length_allocator_image:
  assumes "alloc_encode_image sb bm = Inr img"
  shows "length img = sb_allocation_blocks sb * BLOCK_SIZE"
  using alloc_encode_image_Inr(3) [OF assms] by (simp add: region_len_def)

lemma write_allocator_image_trace:
  assumes a: "addressable sb" and "n = sb_total_blocks sb" and "alloc_encode_image sb bm = Inr img"
  shows "alloc_write_region (trace_device n) sb img (v, tr)
     = (Inr (), image_put (allocation_range sb) img v, tr @ write_events (image_events (allocation_range sb) img))"
proof -
  note g = addressable_geometry [OF a] and r = allocation_range_geometry [OF addressable_geometry [OF a]]
  have "region_len (length (allocation_range sb)) = Inr (length img)"
    using alloc_encode_image_Inr(3) [OF assms(3)] r(3) by simp
  from write_region_trace [OF this, of n v tr] r(2-4) assms(2) write_all_image [OF r(1,2)]
  show ?thesis by (simp add: alloc_write_region_def)
qed

lemma allocator_image_encoded:
  assumes "allocator_image sb a = Inr img"
  obtains bm where "alloc_encode_image sb bm = Inr img"
  using assms by (auto simp: allocator_image_def res_bind_Inr split: if_splits)

lemma store_allocator_trace:
  assumes a: "addressable sb" and "n = sb_total_blocks sb"
  shows "store_allocator (trace_device n) sb al (v, tr) =
     (case allocator_image sb al of Inl e \<Rightarrow> (Inl e, v, tr)
      | Inr img \<Rightarrow> (Inr (), image_put (allocation_range sb) img v,
                    tr @ write_events (image_events (allocation_range sb) img) @ [FlushEv]))"
proof (cases "allocator_image sb al")
  case (Inr img)
  then obtain bm where "alloc_encode_image sb bm = Inr img" by (rule allocator_image_encoded)
  from write_allocator_image_trace [OF a assms(2) this]
    alloc_validate_ok [of "trace_device n" "(v, tr)" sb] assms(2) Inr
  show ?thesis by (simp add: store_allocator_def io_simps)
qed (use alloc_validate_ok [of "trace_device n" "(v, tr)" sb] assms(2) in \<open>simp add: store_allocator_def io_simps\<close>)

lemma load_store_allocator_disk:
  assumes "addressable sb" and "allocator_inv a" and "allocator_image sb a = Inr img"
  shows "load_allocator_disk sb (image_put (allocation_range sb) img v) = Inr a"
proof -
  note r = allocation_range_geometry [OF addressable_geometry [OF assms(1)]]
  from assms(3) obtain bm where "alloc_encode_image sb bm = Inr img" by (rule allocator_image_encoded)
  then have "length img = length (allocation_range sb) * BLOCK_SIZE" using length_allocator_image r(3) by simp
  then have "image_get (allocation_range sb) (image_put (allocation_range sb) img v) = img"
    by (rule image_get_put [OF _ r(1)])
  with allocator_image_round_trip [OF addressable_geometry [OF assms(1)] assms(2,3)]
  show ?thesis by (simp add: load_allocator_disk_def)
qed

context read_sim
begin

lemma sim_load_allocator:
  "dev_sim P abst (\<lambda>_. True) (load_allocator D sb) (load_allocator E sb)"
  unfolding load_allocator_def alloc_validate_geometry_def alloc_read_region_def
  by (rule sim_seq [where Q = "\<lambda>_. True"] sim_bind [OF sim_read_region] read_rules | (simp; fail))+

end

context device_sim
begin

lemma sim_store_allocator:
  "dev_sim P abst (\<lambda>_. True) (store_allocator D sb a) (store_allocator E sb a)"
  unfolding store_allocator_def alloc_validate_geometry_def alloc_write_region_def
  by (rule sim_seq [where Q = "\<lambda>_. True"] sim_write_region write_rules
      | (simp add: length_wrapped_range [simplified] allocation_range_def; fail))+

end

end
