(* ===== verification/Inode_Codec.thy ===== *)
theory Inode_Codec
  imports Format
begin

text \<open>
  The durable inode of \<open>inode_codec.rs\<close>: the persisted value with its EOF rules, block-range
  replacement, and the checksummed version-3 record. \<open>inode_ok\<close> is the value invariant; the
  lemmas show that every constructor and mutation establishes it, that encoding and decoding
  are inverse on it, and that a record with one damaged byte is refused.
\<close>

datatype inode_kind = File | Directory | Symlink

record persisted_inode =
  pi_id :: u64
  pi_kind :: inode_kind
  pi_blocks :: "u64 list"
  pi_byte_len :: u64

definition INODE_RECORD_MAGIC :: "byte list" where "INODE_RECORD_MAGIC = ascii ''INO1''"
definition INODE_RECORD_VERSION :: nat where "INODE_RECORD_VERSION = 3"
definition INODE_RECORD_HEADER_LEN :: nat where "INODE_RECORD_HEADER_LEN = 40"
definition INODE_CRC_OFFSET :: nat where "INODE_CRC_OFFSET = 32"

fun kind_code :: "inode_kind \<Rightarrow> nat" where
  "kind_code File = 1"
| "kind_code Directory = 2"
| "kind_code Symlink = 3"

text \<open>The \<open>&'static str\<close> errors of the private helpers are all mapped by their callers: \<open>()\<close>.\<close>

definition block_capacity :: "u64 list \<Rightarrow> unit + u64" where
  "block_capacity blocks = ok_or () (checked_mul (length blocks) BLOCK_SIZE_U64)"

definition default_byte_len :: "inode_kind \<Rightarrow> u64 list \<Rightarrow> unit + u64" where
  "default_byte_len kind blocks = (if kind = File then block_capacity blocks else Inr 0)"

fun has_equal_neighbours :: "'a list \<Rightarrow> bool" where
  "has_equal_neighbours (x # y # xs) = (x = y \<or> has_equal_neighbours (y # xs))"
| "has_equal_neighbours _ = False"

definition validate_inode_fields ::
    "u64 \<Rightarrow> inode_kind \<Rightarrow> u64 list \<Rightarrow> u64 \<Rightarrow> bool \<Rightarrow> unit + u64" where
  "validate_inode_fields ino kind blocks byte_len allow_full_capacity_sentinel =
     (if ino = 0 then Inl ()
      else if has_equal_neighbours (sort blocks) then Inl ()
      else if kind \<noteq> File then (if byte_len \<noteq> 0 then Inl () else Inr 0)
      else res_bind (block_capacity blocks) (\<lambda>capacity.
        if blocks = [] then (if byte_len \<noteq> 0 then Inl () else Inr 0)
        else
          let canonical = (if byte_len = 0 \<and> allow_full_capacity_sentinel then capacity else byte_len) in
          if canonical = 0 \<or> canonical > capacity then Inl ()
          else if canonical \<le> sub64 capacity BLOCK_SIZE_U64 then Inl ()
          else Inr canonical))"

definition invalid_input :: "unit + 'a \<Rightarrow> 'a io_result" where
  "invalid_input = map_err (\<lambda>_. InvalidInput)"

definition persisted_inode_new :: "u64 \<Rightarrow> inode_kind \<Rightarrow> u64 list \<Rightarrow> persisted_inode io_result" where
  "persisted_inode_new ino kind blocks =
     res_bind (invalid_input (default_byte_len kind blocks)) (\<lambda>byte_len.
     res_bind (invalid_input (validate_inode_fields ino kind blocks byte_len False)) (\<lambda>_.
     Inr \<lparr>pi_id = ino, pi_kind = kind, pi_blocks = blocks, pi_byte_len = byte_len\<rparr>))"

definition new_file_with_size :: "u64 \<Rightarrow> u64 list \<Rightarrow> u64 \<Rightarrow> persisted_inode io_result" where
  "new_file_with_size ino blocks byte_len =
     res_bind (invalid_input (validate_inode_fields ino File blocks byte_len False)) (\<lambda>_.
     Inr \<lparr>pi_id = ino, pi_kind = File, pi_blocks = blocks, pi_byte_len = byte_len\<rparr>)"

definition canonical_byte_len :: "persisted_inode \<Rightarrow> u64 io_result" where
  "canonical_byte_len i =
     invalid_input (validate_inode_fields (pi_id i) (pi_kind i) (pi_blocks i) (pi_byte_len i) True)"

definition validate_for_persistence :: "persisted_inode \<Rightarrow> unit io_result" where
  "validate_for_persistence i = res_bind (canonical_byte_len i) (\<lambda>_. Inr ())"

text \<open>\<open>PartialEq for PersistedInode\<close>.\<close>

definition persisted_inode_eq :: "persisted_inode \<Rightarrow> persisted_inode \<Rightarrow> bool" where
  "persisted_inode_eq i j \<longleftrightarrow>
     pi_id i = pi_id j \<and> pi_kind i = pi_kind j \<and> pi_blocks i = pi_blocks j \<and>
     (case (canonical_byte_len i, canonical_byte_len j) of
        (Inr m, Inr n) \<Rightarrow> m = n | (Inl _, Inl _) \<Rightarrow> True | _ \<Rightarrow> False)"

definition replace_block_range ::
    "nat \<Rightarrow> nat \<Rightarrow> u64 list \<Rightarrow> (persisted_inode, u64 list) dev_io" where
  "replace_block_range lo hi replacements i =
     (if lo > hi \<or> hi > length (pi_blocks i) then (Inl InvalidInput, i)
      else
      io_bind (io_lift (canonical_byte_len i)) (\<lambda>current_byte_len.
      io_bind (io_lift (invalid_input (block_capacity (pi_blocks i)))) (\<lambda>current_capacity.
      io_bind (io_lift (ok_or InvalidInput (checked_sub current_capacity current_byte_len))) (\<lambda>tail_slack.
      let displaced = take (hi - lo) (drop lo (pi_blocks i));
          candidate = take lo (pi_blocks i) @ replacements @ drop hi (pi_blocks i) in
      io_bind (io_lift
        (if pi_kind i = File then
           (if candidate = [] then Inr 0
            else res_bind (invalid_input (block_capacity candidate)) (\<lambda>capacity.
                   ok_or InvalidInput (checked_sub capacity tail_slack)))
         else Inr 0)) (\<lambda>candidate_byte_len.
      io_bind (io_lift (invalid_input
        (validate_inode_fields (pi_id i) (pi_kind i) candidate candidate_byte_len False))) (\<lambda>_.
      \<lambda>i. (Inr displaced, i\<lparr>pi_blocks := candidate, pi_byte_len := candidate_byte_len\<rparr>)))))) i)"

definition set_file_byte_len :: "u64 \<Rightarrow> (persisted_inode, unit) dev_io" where
  "set_file_byte_len byte_len i =
     (if pi_kind i \<noteq> File then (Inl InvalidInput, i)
      else
      io_bind (io_lift (invalid_input
        (validate_inode_fields (pi_id i) (pi_kind i) (pi_blocks i) byte_len False))) (\<lambda>_.
      \<lambda>i. (Inr (), i\<lparr>pi_byte_len := byte_len\<rparr>)) i)"

section \<open>The record\<close>

definition inode_record_fields :: "persisted_inode \<Rightarrow> nat \<Rightarrow> nat \<Rightarrow> u64 \<Rightarrow> (nat \<times> byte list) list" where
  "inode_record_fields i total_len count byte_len =
     [(0, INODE_RECORD_MAGIC), (4, le_bytes 2 INODE_RECORD_VERSION), (6, le_bytes 2 (kind_code (pi_kind i))),
      (8, le_bytes 4 total_len), (12, le_bytes 8 (pi_id i)), (20, le_bytes 4 count),
      (24, le_bytes 8 byte_len)]"

definition block_fields :: "nat \<Rightarrow> u64 list \<Rightarrow> (nat \<times> byte list) list" where
  "block_fields off blocks = map (\<lambda>(index, block). (off + index * 8, le_bytes 8 block)) (enumerate 0 blocks)"

definition encode_inode :: "persisted_inode \<Rightarrow> byte list io_result" where
  "encode_inode i =
     res_bind (canonical_byte_len i) (\<lambda>byte_len.
     let count = length (pi_blocks i) in
     if \<not> count < U32_LIMIT then Inl InvalidInput else
     res_bind (ok_or InvalidInput (checked_mul (length (pi_blocks i)) 8)) (\<lambda>payload_len.
     res_bind (ok_or InvalidInput (checked_add INODE_RECORD_HEADER_LEN payload_len)) (\<lambda>total_len.
     if \<not> total_len < U32_LIMIT then Inl InvalidInput else
     let bytes = put_fields (inode_record_fields i total_len count byte_len) (zeroes total_len);
         bytes = put_fields (block_fields INODE_RECORD_HEADER_LEN (pi_blocks i)) bytes;
         crc = crc32_skip INODE_CRC_OFFSET bytes in
     Inr (put_bytes INODE_CRC_OFFSET (le_bytes 4 (unat crc)) bytes))))"

definition kind_of_code :: "nat \<Rightarrow> inode_kind io_result" where
  "kind_of_code c =
     (if c = 1 then Inr File else if c = 2 then Inr Directory
      else if c = 3 then Inr Symlink else Inl InvalidData)"

definition decode_inode :: "byte list \<Rightarrow> persisted_inode io_result" where
  "decode_inode bytes =
     (if length bytes < INODE_RECORD_HEADER_LEN then Inl UnexpectedEof
      else if get_bytes 0 4 bytes \<noteq> INODE_RECORD_MAGIC then Inl InvalidData
      else if read_u16 bytes 4 \<noteq> INODE_RECORD_VERSION then Inl InvalidData
      else if \<not> all_zero (get_bytes 36 4 bytes) then Inl InvalidData
      else
        let total_len = read_u32 bytes 8; count = read_u32 bytes 20 in
        res_bind (ok_or InvalidData (checked_mul count 8)) (\<lambda>payload_len.
        res_bind (ok_or InvalidData (checked_add INODE_RECORD_HEADER_LEN payload_len)) (\<lambda>expected_len.
        if total_len \<noteq> expected_len then Inl InvalidData
        else if length bytes < total_len then Inl UnexpectedEof
        else if length bytes \<noteq> total_len then Inl InvalidData
        else if read_u32 bytes INODE_CRC_OFFSET \<noteq> unat (crc32_skip INODE_CRC_OFFSET bytes)
          then Inl InvalidData
        else
          let ino = read_u64 bytes 12 in
          res_bind (kind_of_code (read_u16 bytes 6)) (\<lambda>kind.
          let byte_len = read_u64 bytes 24;
              blocks = map (\<lambda>index. read_u64 bytes (INODE_RECORD_HEADER_LEN + index * 8)) [0..<count] in
          res_bind (map_err (\<lambda>_. InvalidData) (validate_inode_fields ino kind blocks byte_len False)) (\<lambda>_.
          Inr \<lparr>pi_id = ino, pi_kind = kind, pi_blocks = blocks, pi_byte_len = byte_len\<rparr>)))))"

section \<open>Value invariant\<close>

definition inode_ok :: "persisted_inode \<Rightarrow> bool" where
  "inode_ok i \<longleftrightarrow> pi_id i \<noteq> 0 \<and> distinct (pi_blocks i) \<and>
     (if pi_kind i = File \<and> pi_blocks i \<noteq> []
      then pi_byte_len i \<le> length (pi_blocks i) * BLOCK_SIZE \<and>
           (length (pi_blocks i) - 1) * BLOCK_SIZE < pi_byte_len i
      else pi_byte_len i = 0) \<and>
     (pi_kind i = File \<longrightarrow> length (pi_blocks i) * BLOCK_SIZE < U64_LIMIT)"

lemma has_equal_neighbours_sorted:
  "sorted (xs :: 'a :: linorder list) \<Longrightarrow> has_equal_neighbours xs \<longleftrightarrow> \<not> distinct xs"
  by (induction xs rule: has_equal_neighbours.induct) (auto simp: antisym)

lemma duplicate_blocks_iff [simp]: "has_equal_neighbours (sort blocks) \<longleftrightarrow> \<not> distinct (blocks :: u64 list)"
  by (simp add: has_equal_neighbours_sorted)

lemma capacity_minus_block:
  "blocks \<noteq> [] \<Longrightarrow> sub64 (length blocks * BLOCK_SIZE) BLOCK_SIZE = (length blocks - 1) * BLOCK_SIZE"
  by (cases blocks) (simp_all add: sub64_def)

lemma validate_inode_fields_ok:
  "validate_inode_fields ino kind blocks byte_len False = Inr n \<longleftrightarrow>
     n = byte_len \<and> inode_ok \<lparr>pi_id = ino, pi_kind = kind, pi_blocks = blocks, pi_byte_len = byte_len\<rparr>"
  by (auto simp: validate_inode_fields_def inode_ok_def block_capacity_def res_bind_Inr Let_def
      BLOCK_SIZE_U64_def capacity_minus_block split: if_splits)

lemma invalid_input_Inr [simp]: "invalid_input r = Inr x \<longleftrightarrow> r = Inr x"
  by (simp add: invalid_input_def)

lemma invalid_input_Inl [simp]: "invalid_input r = Inl e \<longleftrightarrow> (\<exists>u. r = Inl u) \<and> e = InvalidInput"
  by (cases r) (auto simp: invalid_input_def map_err_def)

lemma canonical_byte_len_ok:
  assumes "inode_ok i"
  shows "canonical_byte_len i = Inr (pi_byte_len i)"
  using assms
  by (auto simp: canonical_byte_len_def validate_inode_fields_def inode_ok_def block_capacity_def
      res_bind_Inr Let_def BLOCK_SIZE_U64_def capacity_minus_block split: if_splits)

lemma canonical_byte_len_Inr:
  assumes "canonical_byte_len i = Inr n"
  shows "inode_ok (i\<lparr>pi_byte_len := n\<rparr>)" and "n = pi_byte_len i \<or> pi_byte_len i = 0"
  using assms
  by (auto simp: canonical_byte_len_def validate_inode_fields_def inode_ok_def block_capacity_def
      res_bind_Inr Let_def BLOCK_SIZE_U64_def capacity_minus_block split: if_splits)

section \<open>Record round trips\<close>

definition inode_typed :: "persisted_inode \<Rightarrow> bool" where
  "inode_typed i \<longleftrightarrow> pi_id i < U64_LIMIT \<and> pi_byte_len i < U64_LIMIT \<and> (\<forall>b \<in> set (pi_blocks i). b < U64_LIMIT)"

definition inode_header :: "persisted_inode \<Rightarrow> u64 \<Rightarrow> byte list" where
  "inode_header i byte_len =
     concat (map snd (inode_record_fields i (40 + length (pi_blocks i) * 8) (length (pi_blocks i)) byte_len))"

definition le_words :: "u64 list \<Rightarrow> byte list" where
  "le_words blocks = concat (map (le_bytes 8) blocks)"

lemma block_fields_layout:
  "contiguous off (block_fields off blocks)"
  "concat (map snd (block_fields off blocks)) = le_words blocks"
proof -
  have "contiguous (off + k * 8) (map (\<lambda>(index, block). (off + index * 8, le_bytes 8 block)) (enumerate k blocks))" for k
  proof (induction blocks arbitrary: k)
    case (Cons b bs)
    show ?case using Cons.IH [of "Suc k"] by (simp add: add.commute add.left_commute)
  qed simp
  from this [of 0] show "contiguous off (block_fields off blocks)" by (simp add: block_fields_def)
  show "concat (map snd (block_fields off blocks)) = le_words blocks"
    by (simp add: block_fields_def le_words_def comp_def case_prod_beta' flip: map_map [unfolded comp_def])
qed

lemma length_le_words [simp]: "length (le_words blocks) = length blocks * 8"
  unfolding le_words_def by (subst length_concat_uniform [where n = 8]) auto

lemma length_inode_magic [simp]: "length INODE_RECORD_MAGIC = 4"
  by (simp add: INODE_RECORD_MAGIC_def)

lemma length_inode_header [simp]: "length (inode_header i n) = 32"
  by (simp add: inode_header_def inode_record_fields_def)

lemma inode_record_unsealed:
  "put_fields (block_fields INODE_RECORD_HEADER_LEN (pi_blocks i))
     (put_fields (inode_record_fields i (40 + length (pi_blocks i) * 8) (length (pi_blocks i)) n)
       (zeroes (40 + length (pi_blocks i) * 8)))
   = inode_header i n @ zeroes 4 @ zeroes 4 @ le_words (pi_blocks i)"
proof -
  let ?fs = "inode_record_fields i (40 + length (pi_blocks i) * 8) (length (pi_blocks i)) n"
  have "contiguous (length ([] :: byte list)) ?fs" by (simp add: inode_record_fields_def)
  then have "put_fields ?fs ([] @ zeroes (40 + length (pi_blocks i) * 8))
      = inode_header i n @ zeroes (8 + length (pi_blocks i) * 8)"
    using put_fields_contiguous [of "[]" ?fs "40 + length (pi_blocks i) * 8"] length_inode_header [of i n]
    by (simp add: inode_header_def)
  also have "\<dots> = (inode_header i n @ zeroes 4 @ zeroes 4) @ zeroes (length (pi_blocks i) * 8)"
    by (simp add: zeroes_def flip: replicate_add)
  finally show ?thesis
    using put_fields_contiguous [of "inode_header i n @ zeroes 4 @ zeroes 4"
        "block_fields INODE_RECORD_HEADER_LEN (pi_blocks i)" "length (pi_blocks i) * 8"]
    by (simp add: block_fields_layout INODE_RECORD_HEADER_LEN_def zeroes_def)
qed

lemma encode_inode_Inr:
  assumes "encode_inode i = Inr bs"
  obtains n c where "canonical_byte_len i = Inr n" and "40 + length (pi_blocks i) * 8 < U32_LIMIT"
    and "length c = 4" and "bs = inode_header i n @ c @ zeroes 4 @ le_words (pi_blocks i)"
    and "crc_ok INODE_CRC_OFFSET bs"
proof -
  from assms obtain n where n: "canonical_byte_len i = Inr n" and l: "40 + length (pi_blocks i) * 8 < U32_LIMIT"
    and bs: "bs = put_bytes INODE_CRC_OFFSET (le_bytes 4 (unat (crc32_skip INODE_CRC_OFFSET
          (inode_header i n @ zeroes 4 @ zeroes 4 @ le_words (pi_blocks i)))))
          (inode_header i n @ zeroes 4 @ zeroes 4 @ le_words (pi_blocks i))"
    by (auto simp: encode_inode_def res_bind_Inr Let_def INODE_RECORD_HEADER_LEN_def
        inode_record_unsealed [unfolded INODE_RECORD_HEADER_LEN_def] split: if_splits)
  have "crc_ok INODE_CRC_OFFSET bs"
    unfolding bs by (rule crc_ok_put) (simp add: INODE_CRC_OFFSET_def)
  moreover have "bs = inode_header i n @ le_bytes 4 (unat (crc32_skip INODE_CRC_OFFSET
          (inode_header i n @ zeroes 4 @ zeroes 4 @ le_words (pi_blocks i)))) @ zeroes 4 @ le_words (pi_blocks i)"
    unfolding bs by (simp add: put_bytes_def INODE_CRC_OFFSET_def)
  ultimately show thesis by (intro that [OF n l length_le_bytes])
qed

lemma encode_inode_total:
  assumes "canonical_byte_len i = Inr n" and "40 + length (pi_blocks i) * 8 < U32_LIMIT"
  shows "\<exists>bs. encode_inode i = Inr bs"
  using assms
  by (simp add: encode_inode_def Let_def INODE_RECORD_HEADER_LEN_def checked_mul_def checked_add_def)

lemma read_le_words:
  assumes "length pre = off" and "\<forall>b \<in> set blocks. b < U64_LIMIT"
  shows "map (\<lambda>index. read_u64 (pre @ le_words blocks) (off + index * 8)) [0..<length blocks] = blocks"
proof (rule nth_equalityI)
  fix k assume "k < length (map (\<lambda>index. read_u64 (pre @ le_words blocks) (off + index * 8)) [0..<length blocks])"
  then have k: "k < length blocks" by simp
  then have "get_bytes (off + k * 8) 8 (pre @ le_words blocks) = le_bytes 8 (blocks ! k)"
    unfolding le_words_def using get_bytes_concat_uniform [of "map (le_bytes 8) blocks" 8 k pre off] assms(1)
    by simp
  with assms(2) k show "map (\<lambda>index. read_u64 (pre @ le_words blocks) (off + index * 8)) [0..<length blocks] ! k = blocks ! k"
    by (simp add: read_u64_def)
qed simp

lemma kind_of_code_code [simp]: "kind_of_code (kind_code k) = Inr k"
  by (cases k) (simp_all add: kind_of_code_def)

lemma from_le_kind_code [simp]: "from_le (le_bytes 2 (kind_code k)) = kind_code k"
  by (cases k) simp_all

lemma inode_header_get:
  assumes "length c = 4" and "bs = inode_header i n @ c @ zeroes 4 @ le_words (pi_blocks i)"
  shows "get_bytes 0 4 bs = INODE_RECORD_MAGIC"
    "get_bytes 4 2 bs = le_bytes 2 INODE_RECORD_VERSION" "get_bytes 6 2 bs = le_bytes 2 (kind_code (pi_kind i))"
    "get_bytes 8 4 bs = le_bytes 4 (40 + length (pi_blocks i) * 8)" "get_bytes 12 8 bs = le_bytes 8 (pi_id i)"
    "get_bytes 20 4 bs = le_bytes 4 (length (pi_blocks i))" "get_bytes 24 8 bs = le_bytes 8 n"
    "get_bytes 36 4 bs = zeroes 4" "length bs = 40 + length (pi_blocks i) * 8"
  using assms(1) by (simp_all add: assms(2) inode_header_def inode_record_fields_def get_bytes_def)

lemma decode_encode_inode:
  assumes "encode_inode i = Inr bs" and "inode_typed i"
  shows "\<exists>n. canonical_byte_len i = Inr n \<and> decode_inode bs = Inr (i\<lparr>pi_byte_len := n\<rparr>)"
proof -
  from assms(1) obtain n c where n: "canonical_byte_len i = Inr n" and l: "40 + length (pi_blocks i) * 8 < U32_LIMIT"
    and c: "length c = 4" and bs: "bs = inode_header i n @ c @ zeroes 4 @ le_words (pi_blocks i)"
    and crc: "crc_ok INODE_CRC_OFFSET bs"
    by (rule encode_inode_Inr)
  note ok = canonical_byte_len_Inr [OF n]
  then have nb: "n < U64_LIMIT" by (auto simp: inode_ok_def split: if_splits)
  have blocks: "map (\<lambda>index. read_u64 bs (40 + index * 8)) [0..<length (pi_blocks i)] = pi_blocks i"
    using read_le_words [of "inode_header i n @ c @ zeroes 4" 40 "pi_blocks i"] assms(2) c
    by (simp add: bs inode_typed_def)
  have v: "validate_inode_fields (pi_id i) (pi_kind i) (pi_blocks i) n False = Inr n"
    unfolding validate_inode_fields_ok using ok(1) by (simp add: inode_ok_def split: if_splits)
  note g = inode_header_get [OF c bs]
  have "decode_inode bs = Inr \<lparr>pi_id = pi_id i, pi_kind = pi_kind i, pi_blocks = pi_blocks i, pi_byte_len = n\<rparr>"
    using l nb assms(2) crc v blocks
    by (simp add: decode_inode_def Let_def g read_defs INODE_RECORD_HEADER_LEN_def checked_mul_def checked_add_def
        crc_ok_def inode_typed_def map_err_def INODE_RECORD_VERSION_def)
  with n show ?thesis by simp
qed

lemma decode_inode_Inr:
  assumes "decode_inode bs = Inr i"
  shows "inode_ok i" and "inode_typed i" and "crc_ok INODE_CRC_OFFSET bs"
    and "length bs = 40 + length (pi_blocks i) * 8" and "length bs < U32_LIMIT"
  using assms read_u64_bound read_u32_bound [of bs 8]
  by (auto simp: decode_inode_def Let_def res_bind_Inr validate_inode_fields_ok inode_typed_def crc_ok_def
      INODE_RECORD_HEADER_LEN_def split: if_splits)

lemma decode_inode_corrupt:
  assumes "decode_inode bs = Inr i" and "k < length bs" and "b \<noteq> bs ! k"
  shows "\<exists>e. decode_inode (bs[k := b]) = Inl e"
proof (cases "decode_inode (bs[k := b])")
  case (Inr j)
  have "INODE_CRC_OFFSET + 4 \<le> length bs"
    using decode_inode_Inr(4) [OF assms(1)] by (simp add: INODE_CRC_OFFSET_def)
  with crc_ok_update_byte [OF decode_inode_Inr(3) [OF assms(1)] _ assms(2,3)] decode_inode_Inr(3) [OF Inr]
  show ?thesis by simp
qed simp

lemma le_words_read:
  assumes "length bs = off + c * 8"
  shows "le_words (map (\<lambda>index. read_u64 bs (off + index * 8)) [0..<c]) = drop off bs"
proof -
  have "map (\<lambda>index. le_bytes 8 (read_u64 bs (off + index * 8))) [0..<c]
      = map (\<lambda>index. get_bytes (index * 8) 8 (drop off bs)) [0..<c]"
  proof (intro map_cong refl)
    fix k assume "k \<in> set [0..<c]"
    then have "off + k * 8 + 8 \<le> length bs" using assms by auto
    then show "le_bytes 8 (read_u64 bs (off + k * 8)) = get_bytes (k * 8) 8 (drop off bs)"
      by (simp add: le_bytes_read_u64 get_bytes_def add.commute)
  qed
  then have "le_words (map (\<lambda>index. read_u64 bs (off + index * 8)) [0..<c])
      = concat (map (\<lambda>index. get_bytes (index * 8) 8 (drop off bs)) [0..<c])"
    by (simp only: le_words_def map_map comp_def)
  with concat_chunks [of "drop off bs" c 8] assms show ?thesis by simp
qed

lemma kind_of_code_Inr: "kind_of_code c = Inr k \<Longrightarrow> c = kind_code k"
  by (auto simp: kind_of_code_def split: if_splits)

lemma decode_inode_layout:
  assumes "decode_inode bs = Inr i"
  shows "bs = inode_header i (pi_byte_len i) @ get_bytes 32 4 bs @ zeroes 4 @ le_words (pi_blocks i)"
proof -
  from assms have len: "40 + read_u32 bs 20 * 8 = length bs"
    and h: "get_bytes 0 4 bs = INODE_RECORD_MAGIC" "read_u16 bs 4 = INODE_RECORD_VERSION"
      "all_zero (get_bytes 36 4 bs)" "read_u32 bs 8 = length bs" "read_u16 bs 6 = kind_code (pi_kind i)"
    and i: "pi_id i = read_u64 bs 12" "pi_byte_len i = read_u64 bs 24"
      "pi_blocks i = map (\<lambda>index. read_u64 bs (40 + index * 8)) [0..<read_u32 bs 20]"
    by (auto simp: decode_inode_def Let_def res_bind_Inr INODE_RECORD_HEADER_LEN_def
        dest!: kind_of_code_Inr split: if_splits)
  have z: "get_bytes 36 4 bs = zeroes 4"
    using h(3) len unfolding all_zero_eq by (simp add: slice_simps)
  have w: "le_words (pi_blocks i) = drop 40 bs"
    unfolding i(3) by (rule le_words_read) (simp add: len)
  have "bs = get_bytes 0 4 bs @ drop 4 bs" using get_bytes_drop [of 0 bs 4] by simp
  also have "drop 4 bs = get_bytes 4 2 bs @ drop 6 bs" using get_bytes_drop [of 4 bs 2] by simp
  also have "drop 6 bs = get_bytes 6 2 bs @ drop 8 bs" using get_bytes_drop [of 6 bs 2] by simp
  also have "drop 8 bs = get_bytes 8 4 bs @ drop 12 bs" using get_bytes_drop [of 8 bs 4] by simp
  also have "drop 12 bs = get_bytes 12 8 bs @ drop 20 bs" using get_bytes_drop [of 12 bs 8] by simp
  also have "drop 20 bs = get_bytes 20 4 bs @ drop 24 bs" using get_bytes_drop [of 20 bs 4] by simp
  also have "drop 24 bs = get_bytes 24 8 bs @ drop 32 bs" using get_bytes_drop [of 24 bs 8] by simp
  also have "drop 32 bs = get_bytes 32 4 bs @ drop 36 bs" using get_bytes_drop [of 32 bs 4] by simp
  also have "drop 36 bs = zeroes 4 @ le_words (pi_blocks i)" using get_bytes_drop [of 36 bs 4] z w by simp
  finally have split: "bs = get_bytes 0 4 bs @ get_bytes 4 2 bs @ get_bytes 6 2 bs @ get_bytes 8 4 bs @
      get_bytes 12 8 bs @ get_bytes 20 4 bs @ get_bytes 24 8 bs @ get_bytes 32 4 bs @ zeroes 4 @
      le_words (pi_blocks i)" .
  have hdr: "inode_header i (pi_byte_len i) = get_bytes 0 4 bs @ get_bytes 4 2 bs @ get_bytes 6 2 bs @
      get_bytes 8 4 bs @ get_bytes 12 8 bs @ get_bytes 20 4 bs @ get_bytes 24 8 bs"
  proof -
    have "length (pi_blocks i) = read_u32 bs 20" by (simp add: i(3))
    moreover have "40 + length (pi_blocks i) * 8 = read_u32 bs 8" by (simp add: i(3) len h(4))
    ultimately show ?thesis using len
      by (simp only: inode_header_def inode_record_fields_def i(1,2) list.map snd_conv concat.simps
          h(1) h(2) [symmetric] h(5) [symmetric] le_bytes_read_u64 le_bytes_read_u32 le_bytes_read_u16
          append_Nil2 append_assoc)
  qed
  show ?thesis unfolding hdr append_assoc by (rule split)
qed

lemma encode_decode_inode:
  assumes "decode_inode bs = Inr i"
  shows "encode_inode i = Inr bs"
proof -
  note d = decode_inode_Inr [OF assms]
  have n: "canonical_byte_len i = Inr (pi_byte_len i)" by (rule canonical_byte_len_ok [OF d(1)])
  with encode_inode_total [OF n] d(4,5) obtain cs where cs: "encode_inode i = Inr cs" by auto
  from cs n obtain c where c: "length c = 4" and "crc_ok INODE_CRC_OFFSET cs"
    and l: "cs = inode_header i (pi_byte_len i) @ c @ zeroes 4 @ le_words (pi_blocks i)"
    by (auto elim: encode_inode_Inr)
  moreover have "put_bytes INODE_CRC_OFFSET (zeroes 4) cs = put_bytes INODE_CRC_OFFSET (zeroes 4) bs"
  proof -
    have "put_bytes 32 (zeroes 4) (inode_header i (pi_byte_len i) @ x @ zeroes 4 @ le_words (pi_blocks i))
        = inode_header i (pi_byte_len i) @ zeroes 4 @ zeroes 4 @ le_words (pi_blocks i)" if "length x = 4" for x
      using that by (simp add: put_bytes_def)
    from this [of c] this [of "get_bytes 32 4 bs"] c d(4) decode_inode_layout [OF assms] show ?thesis
      by (simp add: l INODE_CRC_OFFSET_def slice_simps)
  qed
  ultimately have "cs = bs"
    using crc_ok_unique [of INODE_CRC_OFFSET cs bs] d(3,4) by (simp add: INODE_CRC_OFFSET_def)
  with cs show ?thesis by simp
qed

section \<open>Mutations\<close>

lemma replace_block_range_Inr:
  assumes "replace_block_range lo hi rs i = (Inr displaced, i')"
  shows "lo \<le> hi \<and> hi \<le> length (pi_blocks i) \<and> inode_ok i' \<and> pi_id i' = pi_id i \<and> pi_kind i' = pi_kind i \<and>
    pi_blocks i' = take lo (pi_blocks i) @ rs @ drop hi (pi_blocks i) \<and>
    displaced = take (hi - lo) (drop lo (pi_blocks i))"
  using assms
  by (auto simp: replace_block_range_def io_lift_def Let_def validate_inode_fields_ok inode_ok_def
      elim!: io_bind_InrE split: if_splits)

lemma replace_block_range_slack:
  assumes "replace_block_range lo hi rs i = (Inr displaced, i')" and "inode_ok i" and "pi_kind i = File"
    and "pi_blocks i' \<noteq> []"
  shows "length (pi_blocks i') * BLOCK_SIZE - pi_byte_len i' = length (pi_blocks i) * BLOCK_SIZE - pi_byte_len i"
  using assms
  by (auto simp: replace_block_range_def io_lift_def Let_def validate_inode_fields_ok canonical_byte_len_ok
      block_capacity_def BLOCK_SIZE_U64_def res_bind_Inr elim!: io_bind_InrE split: if_splits)

lemma replace_block_range_Inl:
  "replace_block_range lo hi rs i = (Inl e, i') \<Longrightarrow> i' = i \<and> e = InvalidInput"
  by (auto simp: replace_block_range_def io_lift_def io_bind_def Let_def canonical_byte_len_def res_bind_def
      split: if_splits sum.splits prod.splits)

lemma set_file_byte_len_Inr:
  "set_file_byte_len n i = (Inr u, i') \<Longrightarrow> inode_ok i' \<and> i' = i\<lparr>pi_byte_len := n\<rparr>"
  by (auto simp: set_file_byte_len_def io_lift_def validate_inode_fields_ok inode_ok_def
      elim!: io_bind_InrE split: if_splits)

lemma inode_new_ok:
  "persisted_inode_new ino kind blocks = Inr i \<Longrightarrow> inode_ok i"
  "new_file_with_size ino blocks n = Inr i \<Longrightarrow> inode_ok i"
  by (auto simp: persisted_inode_new_def new_file_with_size_def res_bind_Inr validate_inode_fields_ok)

end
