(* ===== verification/Inode_Table.thy ===== *)
theory Inode_Table
  imports Metadata_Region Inode_Codec
begin

text \<open>
  The persistent inode table of \<open>inode_table.rs\<close>: one checksummed table of inode records in the
  inode region. A load after a store returns the stored inodes with their canonical EOF.
\<close>

definition INODE_TABLE_MAGIC :: "byte list" where "INODE_TABLE_MAGIC = ascii ''FSLINOD'' @ [0]"
definition INODE_TABLE_VERSION :: nat where "INODE_TABLE_VERSION = 1"

definition inode_validate_geometry :: "'d block_device \<Rightarrow> superblock \<Rightarrow> ('d, unit) dev_io" where
  "inode_validate_geometry D sb =
     io_bind (io_count D) (\<lambda>count.
     if count \<noteq> sb_total_blocks sb then io_fail InvalidInput
     else if sb_inode_blocks sb = 0 \<or> add64 (sb_inode_start sb) (sb_inode_blocks sb) > sb_total_blocks sb
       then io_fail InvalidInput
     else io_return ())"

definition inode_encode_image :: "superblock \<Rightarrow> persisted_inode list \<Rightarrow> byte list io_result" where
  "inode_encode_image sb inodes =
     encode_table INODE_TABLE_MAGIC INODE_TABLE_VERSION encode_inode pi_id (sb_inode_blocks sb) inodes"

definition inode_decode_image :: "byte list \<Rightarrow> persisted_inode list io_result" where
  "inode_decode_image img = decode_table INODE_TABLE_MAGIC INODE_TABLE_VERSION decode_inode pi_id img"

definition inode_read_region :: "'d block_device \<Rightarrow> superblock \<Rightarrow> ('d, byte list) dev_io" where
  "inode_read_region D sb = read_region D InvalidData (inode_range sb) (sb_inode_blocks sb)"

definition inode_write_region :: "'d block_device \<Rightarrow> superblock \<Rightarrow> byte list \<Rightarrow> ('d, unit) dev_io" where
  "inode_write_region D sb img = write_region D (inode_range sb) (sb_inode_blocks sb) img"

definition load_inode_table :: "'d block_device \<Rightarrow> superblock \<Rightarrow> ('d, persisted_inode list) dev_io" where
  "load_inode_table D sb =
     io_seq (inode_validate_geometry D sb)
     (io_bind (inode_read_region D sb) (\<lambda>img.
      io_lift (inode_decode_image img)))"

definition store_inode_table :: "'d block_device \<Rightarrow> superblock \<Rightarrow> persisted_inode list \<Rightarrow> ('d, unit) dev_io" where
  "store_inode_table D sb inodes =
     io_seq (inode_validate_geometry D sb)
     (io_bind (io_lift (inode_encode_image sb inodes)) (\<lambda>img.
      io_seq (inode_write_region D sb img)
      (flush D)))"

definition initialize_inode_table_region :: "'d block_device \<Rightarrow> superblock \<Rightarrow> ('d, unit) dev_io" where
  "initialize_inode_table_region D sb =
     io_seq (inode_validate_geometry D sb)
     (io_bind (io_lift (inode_encode_image sb [])) (\<lambda>img.
      inode_write_region D sb img))"

section \<open>The inode codec as a record codec\<close>

definition canonical_inode :: "persisted_inode \<Rightarrow> persisted_inode" where
  "canonical_inode i = (case canonical_byte_len i of Inl _ \<Rightarrow> i | Inr n \<Rightarrow> i\<lparr>pi_byte_len := n\<rparr>)"

lemma canonical_inode_ok [simp]: "inode_ok i \<Longrightarrow> canonical_inode i = i"
  by (simp add: canonical_inode_def canonical_byte_len_ok)

interpretation inodes: record_codec encode_inode decode_inode pi_id canonical_inode inode_typed
proof (unfold_locales, goal_cases)
  case (1 r bs)
  then show ?case using decode_encode_inode [of r bs] by (auto simp: canonical_inode_def)
next
  case (2 r bs)
  then obtain n c where "40 + length (pi_blocks r) * 8 < U32_LIMIT" and c: "length c = 4"
    and bs: "bs = inode_header r n @ c @ zeroes 4 @ le_words (pi_blocks r)"
    by (rule encode_inode_Inr)
  with inode_header_get(4,9) [OF c bs] show ?case by (simp add: read_u32_def)
next
  case (3 r)
  then show ?case by (simp add: canonical_inode_def split: sum.splits)
qed

lemma length_inode_table_magic [simp]: "length INODE_TABLE_MAGIC = 8"
  by (simp add: INODE_TABLE_MAGIC_def)

lemma inode_decode_encode_image:
  assumes "inode_encode_image sb inodes = Inr img" and "\<forall>i \<in> set inodes. inode_typed i"
  shows "inode_decode_image img = Inr (map canonical_inode inodes)"
  using inodes.decode_encode_table [OF assms(1) [unfolded inode_encode_image_def] _ _ assms(2)]
  by (simp add: inode_decode_image_def INODE_TABLE_VERSION_def)

lemma inode_decode_image_Inr:
  assumes "inode_decode_image img = Inr inodes"
  shows "distinct (map pi_id inodes)" and "\<forall>i \<in> set inodes. inode_ok i \<and> inode_typed i"
  using inodes.decode_table_Inr [OF assms [unfolded inode_decode_image_def]] decode_inode_Inr by blast+

lemma length_inode_image:
  "inode_encode_image sb inodes = Inr img \<Longrightarrow> length img = sb_inode_blocks sb * BLOCK_SIZE"
  unfolding inode_encode_image_def
  by (erule encode_table_Inr) (simp_all add: table_layout_get)

section \<open>The table on the disk\<close>

definition load_inodes_disk :: "superblock \<Rightarrow> disk \<Rightarrow> persisted_inode list io_result" where
  "load_inodes_disk sb v = inode_decode_image (image_get (inode_range sb) v)"

lemma inode_range_geometry:
  assumes "geometry_ok sb"
  shows "inode_range sb = [sb_inode_start sb..<sb_directory_start sb]" "inode_range sb \<noteq> []"
    "length (inode_range sb) = sb_inode_blocks sb" "b \<in> set (inode_range sb) \<Longrightarrow> b < sb_total_blocks sb"
  using geometry_ranges [OF assms] geometry_order [OF assms] geometry_okD(8) [OF assms] by auto

lemma inode_validate_ok:
  assumes "geometry_ok sb" and "block_count D d = sb_total_blocks sb"
  shows "inode_validate_geometry D sb d = (Inr (), d)"
  using assms geometry_okD [OF assms(1)]
  by (simp add: inode_validate_geometry_def io_count_def io_simps add64_exact)

lemma load_inode_table_mem:
  assumes a: "addressable sb" and "n = sb_total_blocks sb" and "disk_ok n v"
  shows "load_inode_table (mem_device n) sb v = (load_inodes_disk sb v, v)"
proof -
  note g = addressable_geometry [OF a] and r = inode_range_geometry [OF addressable_geometry [OF a]]
  have "region_len (length (inode_range sb)) = Inr (sb_inode_blocks sb * BLOCK_SIZE)"
    using addressable_region_len [OF a] r(3) geometry_okD [OF g] by simp
  from read_region_mem [OF this, of n v InvalidData] assms r(3,4)
  have "inode_read_region (mem_device n) sb v = (Inr (image_get (inode_range sb) v), v)"
    by (simp add: inode_read_region_def)
  then show ?thesis
    using inode_validate_ok [OF g, of "mem_device n" v] assms(2)
    by (simp add: load_inode_table_def io_simps load_inodes_disk_def)
qed

lemma write_inode_image_trace:
  assumes a: "addressable sb" and "n = sb_total_blocks sb" and "inode_encode_image sb inodes = Inr img"
  shows "inode_write_region (trace_device n) sb img (v, tr)
     = (Inr (), image_put (inode_range sb) img v, tr @ write_events (image_events (inode_range sb) img))"
proof -
  note g = addressable_geometry [OF a] and r = inode_range_geometry [OF addressable_geometry [OF a]]
  have "region_len (length (inode_range sb)) = Inr (length img)"
    using addressable_region_len [OF a] r(3) geometry_okD [OF g] length_inode_image [OF assms(3)] by simp
  from write_region_trace [OF this, of n v tr] r(2-4) assms(2) write_all_image [OF r(1,2)]
  show ?thesis by (simp add: inode_write_region_def)
qed

lemma store_inode_table_trace:
  assumes a: "addressable sb" and "n = sb_total_blocks sb"
  shows "store_inode_table (trace_device n) sb inodes (v, tr) =
     (case inode_encode_image sb inodes of Inl e \<Rightarrow> (Inl e, v, tr)
      | Inr img \<Rightarrow> (Inr (), image_put (inode_range sb) img v,
                    tr @ write_events (image_events (inode_range sb) img) @ [FlushEv]))"
  using inode_validate_ok [OF addressable_geometry [OF a], of "trace_device n" "(v, tr)"] assms(2)
    write_inode_image_trace [OF a assms(2)]
  by (simp add: store_inode_table_def io_simps split: sum.splits)

context read_sim
begin

lemma sim_load_inode_table:
  "dev_sim P abst (\<lambda>is. \<forall>i \<in> set is. inode_ok i \<and> inode_typed i) (load_inode_table D sb) (load_inode_table E sb)"
  unfolding load_inode_table_def inode_validate_geometry_def inode_read_region_def
  by (rule sim_seq [where Q = "\<lambda>_. True"] sim_bind [OF sim_read_region] read_rules
      | (simp; fail) | (use inode_decode_image_Inr in blast))+

end

context device_sim
begin

lemma sim_store_inode_table:
  "dev_sim P abst (\<lambda>_. True) (store_inode_table D sb is) (store_inode_table E sb is)"
  unfolding store_inode_table_def inode_validate_geometry_def inode_write_region_def
  by (rule sim_seq [where Q = "\<lambda>_. True"] sim_write_region write_rules
      | (simp add: length_wrapped_range [simplified] inode_range_def; fail))+

end

lemma load_store_inodes_disk:
  assumes "addressable sb" and "inode_encode_image sb inodes = Inr img" and "\<forall>i \<in> set inodes. inode_typed i"
  shows "load_inodes_disk sb (image_put (inode_range sb) img v) = Inr (map canonical_inode inodes)"
proof -
  note r = inode_range_geometry [OF addressable_geometry [OF assms(1)]]
  have "image_get (inode_range sb) (image_put (inode_range sb) img v) = img"
    using length_inode_image [OF assms(2)] r(3) by (intro image_get_put [OF _ r(1)]) simp
  with inode_decode_encode_image [OF assms(2,3)] show ?thesis by (simp add: load_inodes_disk_def)
qed

end
