(* ===== verification/Directory_Codec.thy ===== *)
theory Directory_Codec
  imports Format
begin

text \<open>
  The durable directory entry of \<open>directory_codec.rs\<close>. A Rust \<open>String\<close> is the byte list of
  its UTF-8 encoding; that it is valid UTF-8 is the type's invariant and part of
  \<open>dirent_ok\<close>. The lemmas give both round trips and the rejection of damaged records.
\<close>

record directory_entry =
  de_parent :: u64
  de_target :: u64
  de_name :: "byte list"

definition DIRECTORY_ENTRY_MAGIC :: "byte list" where "DIRECTORY_ENTRY_MAGIC = ascii ''DNT1''"
definition DIRECTORY_ENTRY_VERSION :: nat where "DIRECTORY_ENTRY_VERSION = 1"
definition DIRECTORY_ENTRY_HEADER_LEN :: nat where "DIRECTORY_ENTRY_HEADER_LEN = 40"
definition DIRECTORY_NAME_MAX_BYTES :: nat where "DIRECTORY_NAME_MAX_BYTES = 255"
definition DIRENT_CRC_OFFSET :: nat where "DIRENT_CRC_OFFSET = 32"

definition validate_name :: "byte list \<Rightarrow> error_kind \<Rightarrow> unit io_result" where
  "validate_name name kind =
     (if name = [] \<or> name = ascii ''.'' \<or> name = ascii ''..'' \<or> 0x2F \<in> set name \<or> 0 \<in> set name
         \<or> length name > DIRECTORY_NAME_MAX_BYTES
      then Inl kind else Inr ())"

definition dirent_fields :: "directory_entry \<Rightarrow> nat \<Rightarrow> (nat \<times> byte list) list" where
  "dirent_fields e total_len =
     [(0, DIRECTORY_ENTRY_MAGIC), (4, le_bytes 2 DIRECTORY_ENTRY_VERSION), (8, le_bytes 4 total_len),
      (12, le_bytes 2 (length (de_name e))), (16, le_bytes 8 (de_parent e)), (24, le_bytes 8 (de_target e)),
      (DIRECTORY_ENTRY_HEADER_LEN, de_name e)]"

definition encode_directory_entry :: "directory_entry \<Rightarrow> byte list io_result" where
  "encode_directory_entry e =
     (if de_parent e = 0 \<or> de_target e = 0 then Inl InvalidInput
      else
      res_bind (validate_name (de_name e) InvalidInput) (\<lambda>_.
      if \<not> length (de_name e) < U16_LIMIT then Inl InvalidInput else
      res_bind (ok_or InvalidInput (checked_add DIRECTORY_ENTRY_HEADER_LEN (length (de_name e)))) (\<lambda>total_len.
      if \<not> total_len < U32_LIMIT then Inl InvalidInput else
      let bytes = put_fields (dirent_fields e total_len) (zeroes total_len);
          crc = crc32_skip DIRENT_CRC_OFFSET bytes in
      Inr (put_bytes DIRENT_CRC_OFFSET (le_bytes 4 (unat crc)) bytes))))"

definition decode_directory_entry :: "byte list \<Rightarrow> directory_entry io_result" where
  "decode_directory_entry bytes =
     (if length bytes < DIRECTORY_ENTRY_HEADER_LEN then Inl UnexpectedEof
      else if get_bytes 0 4 bytes \<noteq> DIRECTORY_ENTRY_MAGIC then Inl InvalidData
      else if read_u16 bytes 4 \<noteq> DIRECTORY_ENTRY_VERSION then Inl InvalidData
      else if read_u16 bytes 6 \<noteq> 0 \<or> read_u16 bytes 14 \<noteq> 0 \<or> read_u32 bytes 36 \<noteq> 0 then Inl InvalidData
      else
        let total_len = read_u32 bytes 8; name_len = read_u16 bytes 12 in
        res_bind (ok_or InvalidData (checked_add DIRECTORY_ENTRY_HEADER_LEN name_len)) (\<lambda>expected_len.
        if total_len \<noteq> expected_len then Inl InvalidData
        else if length bytes < total_len then Inl UnexpectedEof
        else if length bytes \<noteq> total_len then Inl InvalidData
        else if read_u32 bytes DIRENT_CRC_OFFSET \<noteq> unat (crc32_skip DIRENT_CRC_OFFSET bytes)
          then Inl InvalidData
        else
          let parent = read_u64 bytes 16; target = read_u64 bytes 24 in
          if parent = 0 \<or> target = 0 then Inl InvalidData
          else
            let name = drop DIRECTORY_ENTRY_HEADER_LEN bytes in
            if \<not> utf8_valid name then Inl InvalidData
            else res_bind (validate_name name InvalidData) (\<lambda>_.
              Inr \<lparr>de_parent = parent, de_target = target, de_name = name\<rparr>)))"

section \<open>Value invariant\<close>

definition name_ok :: "byte list \<Rightarrow> bool" where
  "name_ok name \<longleftrightarrow> validate_name name InvalidInput = Inr ()"

definition dirent_ok :: "directory_entry \<Rightarrow> bool" where
  "dirent_ok e \<longleftrightarrow> de_parent e \<noteq> 0 \<and> de_target e \<noteq> 0 \<and> name_ok (de_name e) \<and> utf8_valid (de_name e) \<and>
     de_parent e < U64_LIMIT \<and> de_target e < U64_LIMIT"

text \<open>What the Rust types guarantee of an entry: a \<open>String\<close> is UTF-8, the inode numbers are \<open>u64\<close>.\<close>

definition dirent_typed :: "directory_entry \<Rightarrow> bool" where
  "dirent_typed e \<longleftrightarrow> utf8_valid (de_name e) \<and> de_parent e < U64_LIMIT \<and> de_target e < U64_LIMIT"

lemma dirent_ok_typed: "dirent_ok e \<Longrightarrow> dirent_typed e"
  by (simp add: dirent_ok_def dirent_typed_def)

lemma validate_name_Inr [simp]: "validate_name name k = Inr u \<longleftrightarrow> name_ok name"
  by (auto simp: validate_name_def name_ok_def)

lemma validate_name_ok: "name_ok name \<Longrightarrow> validate_name name k = Inr ()"
  by simp

lemma name_ok_length: "name_ok name \<Longrightarrow> 0 < length name \<and> length name \<le> 255"
  by (auto simp: name_ok_def validate_name_def DIRECTORY_NAME_MAX_BYTES_def split: if_splits)

lemma length_dirent_magic [simp]: "length DIRECTORY_ENTRY_MAGIC = 4"
  by (simp add: DIRECTORY_ENTRY_MAGIC_def)

section \<open>Record round trips\<close>

definition dirent_layout :: "directory_entry \<Rightarrow> byte list \<Rightarrow> byte list" where
  "dirent_layout e c =
     DIRECTORY_ENTRY_MAGIC @ le_bytes 2 DIRECTORY_ENTRY_VERSION @ zeroes 2 @
     le_bytes 4 (40 + length (de_name e)) @ le_bytes 2 (length (de_name e)) @ zeroes 2 @
     le_bytes 8 (de_parent e) @ le_bytes 8 (de_target e) @ c @ zeroes 4 @ de_name e"

lemma zeroes_split: "a \<le> n \<Longrightarrow> zeroes n = zeroes a @ zeroes (n - a)"
  by (simp add: zeroes_def flip: replicate_add)

lemma dirent_unsealed:
  "put_fields (dirent_fields e (40 + length (de_name e))) (zeroes (40 + length (de_name e)))
     = dirent_layout e (zeroes 4)"
proof -
  let ?fs = "[(0, DIRECTORY_ENTRY_MAGIC), (4, le_bytes 2 DIRECTORY_ENTRY_VERSION), (6, zeroes 2),
      (8, le_bytes 4 (40 + length (de_name e))), (12, le_bytes 2 (length (de_name e))), (14, zeroes 2),
      (16, le_bytes 8 (de_parent e)), (24, le_bytes 8 (de_target e)), (32, zeroes 4), (36, zeroes 4),
      (40, de_name e)]"
  have z: "put_bytes off (zeroes k) bs = bs"
    if "get_bytes off k bs = zeroes k" and "off + k \<le> length bs" for off k bs
    using put_get_same [of off k bs] that by simp
  have "put_fields ?fs (zeroes (40 + length (de_name e)))
      = put_fields (dirent_fields e (40 + length (de_name e))) (zeroes (40 + length (de_name e)))"
    by (simp add: dirent_fields_def DIRECTORY_ENTRY_HEADER_LEN_def z slice_simps)
  moreover have "put_fields ?fs ([] @ zeroes (40 + length (de_name e))) = dirent_layout e (zeroes 4)"
    by (subst put_fields_contiguous) (simp_all add: dirent_layout_def zeroes_def)
  ultimately show ?thesis by simp
qed

lemma dirent_layout_get:
  assumes "length c = 4"
  shows "get_bytes 0 4 (dirent_layout e c) = DIRECTORY_ENTRY_MAGIC"
    "get_bytes 4 2 (dirent_layout e c) = le_bytes 2 DIRECTORY_ENTRY_VERSION"
    "get_bytes 6 2 (dirent_layout e c) = zeroes 2"
    "get_bytes 8 4 (dirent_layout e c) = le_bytes 4 (40 + length (de_name e))"
    "get_bytes 12 2 (dirent_layout e c) = le_bytes 2 (length (de_name e))"
    "get_bytes 14 2 (dirent_layout e c) = zeroes 2"
    "get_bytes 16 8 (dirent_layout e c) = le_bytes 8 (de_parent e)"
    "get_bytes 24 8 (dirent_layout e c) = le_bytes 8 (de_target e)"
    "get_bytes 32 4 (dirent_layout e c) = c"
    "get_bytes 36 4 (dirent_layout e c) = zeroes 4"
    "drop 40 (dirent_layout e c) = de_name e"
    "length (dirent_layout e c) = 40 + length (de_name e)"
    "put_bytes 32 (zeroes 4) (dirent_layout e c) = dirent_layout e (zeroes 4)"
  using assms by (simp_all add: dirent_layout_def get_bytes_def put_bytes_def)

lemma encode_directory_entry_Inr:
  assumes "encode_directory_entry e = Inr bs"
  obtains c where "length c = 4" and "bs = dirent_layout e c" and "crc_ok DIRENT_CRC_OFFSET bs"
    and "de_parent e \<noteq> 0" and "de_target e \<noteq> 0" and "name_ok (de_name e)"
proof -
  let ?u = "dirent_layout e (zeroes 4)"
  from assms have e: "de_parent e \<noteq> 0" "de_target e \<noteq> 0" "name_ok (de_name e)"
    and bs: "bs = put_bytes DIRENT_CRC_OFFSET (le_bytes 4 (unat (crc32_skip DIRENT_CRC_OFFSET ?u))) ?u"
    by (auto simp: encode_directory_entry_def res_bind_Inr Let_def DIRECTORY_ENTRY_HEADER_LEN_def dirent_unsealed
        split: if_splits)
  have "crc_ok DIRENT_CRC_OFFSET bs"
    unfolding bs by (rule crc_ok_put) (simp add: DIRENT_CRC_OFFSET_def dirent_layout_get)
  moreover have "bs = dirent_layout e (le_bytes 4 (unat (crc32_skip DIRENT_CRC_OFFSET ?u)))"
    unfolding bs by (simp add: put_bytes_def DIRENT_CRC_OFFSET_def dirent_layout_def)
  ultimately show thesis using e by (intro that [OF length_le_bytes])
qed

lemma encode_directory_entry_ok: "encode_directory_entry e = Inr bs \<Longrightarrow> dirent_typed e \<Longrightarrow> dirent_ok e"
  by (auto simp: dirent_ok_def dirent_typed_def elim: encode_directory_entry_Inr)

lemma encode_directory_entry_total:
  assumes "dirent_ok e"
  shows "\<exists>bs. encode_directory_entry e = Inr bs"
  using assms name_ok_length [of "de_name e"]
  by (simp add: encode_directory_entry_def dirent_ok_def DIRECTORY_ENTRY_HEADER_LEN_def Let_def
      checked_add_def validate_name_ok del: validate_name_Inr)

lemma decode_encode_directory_entry:
  assumes "encode_directory_entry e = Inr bs" and "dirent_ok e"
  shows "decode_directory_entry bs = Inr e"
proof -
  from assms(1) obtain c where c: "length c = 4" and bs: "bs = dirent_layout e c"
    and crc: "crc_ok DIRENT_CRC_OFFSET bs"
    by (rule encode_directory_entry_Inr)
  show ?thesis
    using assms(2) crc name_ok_length [of "de_name e"]
    by (simp add: decode_directory_entry_def bs dirent_layout_get [OF c] read_defs Let_def dirent_ok_def
        DIRECTORY_ENTRY_HEADER_LEN_def DIRECTORY_ENTRY_VERSION_def checked_add_def crc_ok_def
        validate_name_ok del: validate_name_Inr)
qed

lemma decode_directory_entry_Inr:
  assumes "decode_directory_entry bs = Inr e"
  shows "dirent_ok e" and "crc_ok DIRENT_CRC_OFFSET bs" and "length bs = 40 + length (de_name e)"
  using assms read_u64_bound
  by (auto simp: decode_directory_entry_def Let_def res_bind_Inr dirent_ok_def crc_ok_def
      DIRECTORY_ENTRY_HEADER_LEN_def split: if_splits)

lemma decode_directory_entry_corrupt:
  assumes "decode_directory_entry bs = Inr e" and "k < length bs" and "b \<noteq> bs ! k"
  shows "\<exists>err. decode_directory_entry (bs[k := b]) = Inl err"
proof (cases "decode_directory_entry (bs[k := b])")
  case (Inr j)
  have "DIRENT_CRC_OFFSET + 4 \<le> length bs"
    using decode_directory_entry_Inr(3) [OF assms(1)] by (simp add: DIRENT_CRC_OFFSET_def)
  with crc_ok_update_byte [OF decode_directory_entry_Inr(2) [OF assms(1)] _ assms(2,3)]
    decode_directory_entry_Inr(2) [OF Inr]
  show ?thesis by simp
qed simp

lemma le_zero: "le_bytes k 0 = zeroes k"
  by (induction k) (simp_all add: zeroes_def)

lemma decode_directory_entry_layout:
  assumes "decode_directory_entry bs = Inr e"
  shows "bs = dirent_layout e (get_bytes 32 4 bs)"
proof -
  from assms have len: "40 + read_u16 bs 12 = length bs"
    and h: "get_bytes 0 4 bs = DIRECTORY_ENTRY_MAGIC" "read_u16 bs 4 = DIRECTORY_ENTRY_VERSION"
      "read_u16 bs 6 = 0" "read_u16 bs 14 = 0" "read_u32 bs 36 = 0" "read_u32 bs 8 = length bs"
    and e: "de_parent e = read_u64 bs 16" "de_target e = read_u64 bs 24" "de_name e = drop 40 bs"
    by (auto simp: decode_directory_entry_def Let_def res_bind_Inr DIRECTORY_ENTRY_HEADER_LEN_def split: if_splits)
  have z: "get_bytes 6 2 bs = zeroes 2" "get_bytes 14 2 bs = zeroes 2" "get_bytes 36 4 bs = zeroes 4"
    using le_bytes_read_u16 [of 6 bs] le_bytes_read_u16 [of 14 bs] le_bytes_read_u32 [of 36 bs] h len
    by (simp_all add: le_zero)
  have "bs = get_bytes 0 4 bs @ drop 4 bs" using get_bytes_drop [of 0 bs 4] by simp
  also have "drop 4 bs = get_bytes 4 2 bs @ drop 6 bs" using get_bytes_drop [of 4 bs 2] by simp
  also have "drop 6 bs = get_bytes 6 2 bs @ drop 8 bs" using get_bytes_drop [of 6 bs 2] by simp
  also have "drop 8 bs = get_bytes 8 4 bs @ drop 12 bs" using get_bytes_drop [of 8 bs 4] by simp
  also have "drop 12 bs = get_bytes 12 2 bs @ drop 14 bs" using get_bytes_drop [of 12 bs 2] by simp
  also have "drop 14 bs = get_bytes 14 2 bs @ drop 16 bs" using get_bytes_drop [of 14 bs 2] by simp
  also have "drop 16 bs = get_bytes 16 8 bs @ drop 24 bs" using get_bytes_drop [of 16 bs 8] by simp
  also have "drop 24 bs = get_bytes 24 8 bs @ drop 32 bs" using get_bytes_drop [of 24 bs 8] by simp
  also have "drop 32 bs = get_bytes 32 4 bs @ drop 36 bs" using get_bytes_drop [of 32 bs 4] by simp
  also have "drop 36 bs = get_bytes 36 4 bs @ drop 40 bs" using get_bytes_drop [of 36 bs 4] by simp
  finally have split: "bs = get_bytes 0 4 bs @ get_bytes 4 2 bs @ get_bytes 6 2 bs @ get_bytes 8 4 bs @
      get_bytes 12 2 bs @ get_bytes 14 2 bs @ get_bytes 16 8 bs @ get_bytes 24 8 bs @ get_bytes 32 4 bs @
      get_bytes 36 4 bs @ drop 40 bs" .
  have "le_bytes 2 (length (de_name e)) = get_bytes 12 2 bs"
    "le_bytes 4 (40 + length (de_name e)) = get_bytes 8 4 bs"
    "le_bytes 2 DIRECTORY_ENTRY_VERSION = get_bytes 4 2 bs"
    "le_bytes 8 (de_parent e) = get_bytes 16 8 bs" "le_bytes 8 (de_target e) = get_bytes 24 8 bs"
    using len h(6) le_bytes_read_u16 [of 12 bs] le_bytes_read_u16 [of 4 bs] le_bytes_read_u32 [of 8 bs]
    by (simp_all add: e h(2) le_bytes_read_u64 flip: len)
  with split z h(1) e(3) show ?thesis by (simp only: dirent_layout_def)
qed

lemma encode_decode_directory_entry:
  assumes "decode_directory_entry bs = Inr e"
  shows "encode_directory_entry e = Inr bs"
proof -
  note d = decode_directory_entry_Inr [OF assms]
  from encode_directory_entry_total [OF d(1)] obtain cs where cs: "encode_directory_entry e = Inr cs" by auto
  then obtain c where c: "length c = 4" "cs = dirent_layout e c" and "crc_ok DIRENT_CRC_OFFSET cs"
    by (rule encode_directory_entry_Inr)
  moreover have "put_bytes DIRENT_CRC_OFFSET (zeroes 4) cs = put_bytes DIRENT_CRC_OFFSET (zeroes 4) bs"
    using dirent_layout_get(13) [OF c(1), of e] dirent_layout_get(13) [of "get_bytes 32 4 bs" e]
      decode_directory_entry_layout [OF assms] d(3) c(2)
    by (simp add: DIRENT_CRC_OFFSET_def slice_simps)
  ultimately have "cs = bs"
    using crc_ok_unique [of DIRENT_CRC_OFFSET cs bs] d(2,3) dirent_layout_get(12) [OF c(1), of e]
    by (simp add: DIRENT_CRC_OFFSET_def)
  with cs show ?thesis by simp
qed

end
