(* ===== verification/Directory_Table.thy ===== *)
theory Directory_Table
  imports Metadata_Region Directory_Codec
begin

text \<open>
  The persistent directory table of \<open>directory_table.rs\<close>: one checksummed table of directory
  entries, unique by parent and name. A load after a store returns the stored entries.
\<close>

definition DIRECTORY_TABLE_MAGIC :: "byte list" where "DIRECTORY_TABLE_MAGIC = ascii ''FSLDIR'' @ [0, 0]"
definition DIRECTORY_TABLE_VERSION :: nat where "DIRECTORY_TABLE_VERSION = 1"

definition dirent_key :: "directory_entry \<Rightarrow> u64 \<times> byte list" where
  "dirent_key e = (de_parent e, de_name e)"

definition directory_validate_geometry :: "'d block_device \<Rightarrow> superblock \<Rightarrow> ('d, unit) dev_io" where
  "directory_validate_geometry D sb =
     io_bind (io_count D) (\<lambda>count.
     if count \<noteq> sb_total_blocks sb then io_fail InvalidInput
     else if sb_directory_blocks sb = 0 \<or> add64 (sb_directory_start sb) (sb_directory_blocks sb) > sb_total_blocks sb
       then io_fail InvalidInput
     else io_return ())"

definition directory_encode_image :: "superblock \<Rightarrow> directory_entry list \<Rightarrow> byte list io_result" where
  "directory_encode_image sb entries =
     encode_table DIRECTORY_TABLE_MAGIC DIRECTORY_TABLE_VERSION encode_directory_entry dirent_key
       (sb_directory_blocks sb) entries"

definition directory_decode_image :: "byte list \<Rightarrow> directory_entry list io_result" where
  "directory_decode_image img =
     decode_table DIRECTORY_TABLE_MAGIC DIRECTORY_TABLE_VERSION decode_directory_entry dirent_key img"

definition directory_read_region :: "'d block_device \<Rightarrow> superblock \<Rightarrow> ('d, byte list) dev_io" where
  "directory_read_region D sb = read_region D InvalidData (directory_range sb) (sb_directory_blocks sb)"

definition directory_write_region :: "'d block_device \<Rightarrow> superblock \<Rightarrow> byte list \<Rightarrow> ('d, unit) dev_io" where
  "directory_write_region D sb img = write_region D (directory_range sb) (sb_directory_blocks sb) img"

definition load_directory_table :: "'d block_device \<Rightarrow> superblock \<Rightarrow> ('d, directory_entry list) dev_io" where
  "load_directory_table D sb =
     io_seq (directory_validate_geometry D sb)
     (io_bind (directory_read_region D sb) (\<lambda>img.
      io_lift (directory_decode_image img)))"

definition store_directory_table :: "'d block_device \<Rightarrow> superblock \<Rightarrow> directory_entry list \<Rightarrow> ('d, unit) dev_io" where
  "store_directory_table D sb entries =
     io_seq (directory_validate_geometry D sb)
     (io_bind (io_lift (directory_encode_image sb entries)) (\<lambda>img.
      io_seq (directory_write_region D sb img)
      (flush D)))"

definition initialize_directory_table_region :: "'d block_device \<Rightarrow> superblock \<Rightarrow> ('d, unit) dev_io" where
  "initialize_directory_table_region D sb =
     io_seq (directory_validate_geometry D sb)
     (io_bind (io_lift (directory_encode_image sb [])) (\<lambda>img.
      directory_write_region D sb img))"

section \<open>The entry codec as a record codec\<close>

interpretation dirents: record_codec encode_directory_entry decode_directory_entry dirent_key "\<lambda>e. e" dirent_typed
proof (unfold_locales, goal_cases)
  case (1 r bs)
  then show ?case using decode_encode_directory_entry encode_directory_entry_ok by blast
next
  case (2 r bs)
  then obtain c where c: "length c = 4" and bs: "bs = dirent_layout r c" and "name_ok (de_name r)"
    by (rule encode_directory_entry_Inr)
  with dirent_layout_get(4,12) [OF c, of r] name_ok_length [of "de_name r"] show ?case by (simp add: read_u32_def)
qed simp

lemma length_directory_table_magic [simp]: "length DIRECTORY_TABLE_MAGIC = 8"
  by (simp add: DIRECTORY_TABLE_MAGIC_def)

lemma directory_decode_encode_image:
  assumes "directory_encode_image sb entries = Inr img" and "\<forall>e \<in> set entries. dirent_typed e"
  shows "directory_decode_image img = Inr entries"
  using dirents.decode_encode_table [OF assms(1) [unfolded directory_encode_image_def] _ _ assms(2)]
  by (simp add: directory_decode_image_def DIRECTORY_TABLE_VERSION_def)

lemma directory_decode_image_Inr:
  assumes "directory_decode_image img = Inr entries"
  shows "distinct (map dirent_key entries)" and "\<forall>e \<in> set entries. dirent_ok e"
  using dirents.decode_table_Inr [OF assms [unfolded directory_decode_image_def]] decode_directory_entry_Inr by blast+

lemma length_directory_image:
  "directory_encode_image sb entries = Inr img \<Longrightarrow> length img = sb_directory_blocks sb * BLOCK_SIZE"
  unfolding directory_encode_image_def
  by (erule encode_table_Inr) (simp_all add: table_layout_get)

section \<open>The table on the disk\<close>

definition load_entries_disk :: "superblock \<Rightarrow> disk \<Rightarrow> directory_entry list io_result" where
  "load_entries_disk sb v = directory_decode_image (image_get (directory_range sb) v)"

lemma directory_range_geometry:
  assumes "geometry_ok sb"
  shows "directory_range sb = [sb_directory_start sb..<reserved_blocks sb]" "directory_range sb \<noteq> []"
    "length (directory_range sb) = sb_directory_blocks sb" "b \<in> set (directory_range sb) \<Longrightarrow> b < sb_total_blocks sb"
  using geometry_ranges [OF assms] geometry_order [OF assms] by auto

lemma directory_validate_ok:
  assumes "geometry_ok sb" and "block_count D d = sb_total_blocks sb"
  shows "directory_validate_geometry D sb d = (Inr (), d)"
  using assms geometry_okD [OF assms(1)]
  by (simp add: directory_validate_geometry_def io_count_def io_simps add64_exact)

lemma load_directory_table_mem:
  assumes a: "addressable sb" and "n = sb_total_blocks sb" and "disk_ok n v"
  shows "load_directory_table (mem_device n) sb v = (load_entries_disk sb v, v)"
proof -
  note g = addressable_geometry [OF a] and r = directory_range_geometry [OF addressable_geometry [OF a]]
  have "region_len (length (directory_range sb)) = Inr (sb_directory_blocks sb * BLOCK_SIZE)"
    using addressable_region_len [OF a] r(3) geometry_okD [OF g] by simp
  from read_region_mem [OF this, of n v InvalidData] assms r(3,4)
  have "directory_read_region (mem_device n) sb v = (Inr (image_get (directory_range sb) v), v)"
    by (simp add: directory_read_region_def)
  then show ?thesis
    using directory_validate_ok [OF g, of "mem_device n" v] assms(2)
    by (simp add: load_directory_table_def io_simps load_entries_disk_def)
qed

lemma write_directory_image_trace:
  assumes a: "addressable sb" and "n = sb_total_blocks sb" and "directory_encode_image sb entries = Inr img"
  shows "directory_write_region (trace_device n) sb img (v, tr)
     = (Inr (), image_put (directory_range sb) img v, tr @ write_events (image_events (directory_range sb) img))"
proof -
  note g = addressable_geometry [OF a] and r = directory_range_geometry [OF addressable_geometry [OF a]]
  have "region_len (length (directory_range sb)) = Inr (length img)"
    using addressable_region_len [OF a] r(3) geometry_okD [OF g] length_directory_image [OF assms(3)] by simp
  from write_region_trace [OF this, of n v tr] r(2-4) assms(2) write_all_image [OF r(1,2)]
  show ?thesis by (simp add: directory_write_region_def)
qed

lemma store_directory_table_trace:
  assumes a: "addressable sb" and "n = sb_total_blocks sb"
  shows "store_directory_table (trace_device n) sb entries (v, tr) =
     (case directory_encode_image sb entries of Inl e \<Rightarrow> (Inl e, v, tr)
      | Inr img \<Rightarrow> (Inr (), image_put (directory_range sb) img v,
                    tr @ write_events (image_events (directory_range sb) img) @ [FlushEv]))"
  using directory_validate_ok [OF addressable_geometry [OF a], of "trace_device n" "(v, tr)"] assms(2)
    write_directory_image_trace [OF a assms(2)]
  by (simp add: store_directory_table_def io_simps split: sum.splits)

context read_sim
begin

lemma sim_load_directory_table:
  "dev_sim P abst (\<lambda>es. \<forall>e \<in> set es. dirent_ok e) (load_directory_table D sb) (load_directory_table E sb)"
  unfolding load_directory_table_def directory_validate_geometry_def directory_read_region_def
  by (rule sim_seq [where Q = "\<lambda>_. True"] sim_bind [OF sim_read_region] read_rules
      | (simp; fail) | (use directory_decode_image_Inr in blast))+

end

context device_sim
begin

lemma sim_store_directory_table:
  "dev_sim P abst (\<lambda>_. True) (store_directory_table D sb es) (store_directory_table E sb es)"
  unfolding store_directory_table_def directory_validate_geometry_def directory_write_region_def
  by (rule sim_seq [where Q = "\<lambda>_. True"] sim_write_region write_rules
      | (simp add: length_wrapped_range [simplified] directory_range_def; fail))+

end

lemma load_store_entries_disk:
  assumes "addressable sb" and "directory_encode_image sb entries = Inr img" and "\<forall>e \<in> set entries. dirent_typed e"
  shows "load_entries_disk sb (image_put (directory_range sb) img v) = Inr entries"
proof -
  note r = directory_range_geometry [OF addressable_geometry [OF assms(1)]]
  have "image_get (directory_range sb) (image_put (directory_range sb) img v) = img"
    using length_directory_image [OF assms(2)] r(3) by (intro image_get_put [OF _ r(1)]) simp
  with directory_decode_encode_image [OF assms(2,3)] show ?thesis by (simp add: load_entries_disk_def)
qed

end
