(* ===== verification/Transaction_Image.thy ===== *)
theory Transaction_Image
  imports Crash_Safety BTree_Map Allocation_Disk Inode_Table Directory_Table
begin

text \<open>
  \<open>transaction_image.rs\<close>: the in-memory device on which every transaction first renders the
  metadata images it wants, and the comparison that keeps only the home blocks that change. The
  capture device is related to the tracing device, so what a store renders is read off the writes
  it issues. The second half is the commit sequence the transaction modules share.
\<close>

record capture_device =
  cap_block_count :: u64
  cap_blocks :: "(u64, byte list) btree_map"

definition capture_new :: "u64 \<Rightarrow> capture_device" where
  "capture_new count = \<lparr>cap_block_count = count, cap_blocks = []\<rparr>"

definition take_rendered_block :: "u64 \<Rightarrow> capture_device \<Rightarrow> (byte list \<times> capture_device) io_result" where
  "take_rendered_block block cap =
     res_bind (ok_or InvalidData (bt_get (cap_blocks cap) block)) (\<lambda>data.
     Inr (data, cap\<lparr>cap_blocks := bt_remove block (cap_blocks cap)\<rparr>))"

fun collect_changed_range ::
    "'d block_device \<Rightarrow> u64 list \<Rightarrow> capture_device \<Rightarrow> block_write list \<Rightarrow> ('d, capture_device \<times> block_write list) dev_io" where
  "collect_changed_range D [] cap changed = io_return (cap, changed)"
| "collect_changed_range D (block # rng) cap changed =
     io_bind (io_lift (take_rendered_block block cap)) (\<lambda>(desired, cap').
     io_bind (read_block D block) (\<lambda>current.
     collect_changed_range D rng cap'
       (if current \<noteq> desired then changed @ [(block, desired)] else changed)))"

definition ensure_empty :: "capture_device \<Rightarrow> unit io_result" where
  "ensure_empty cap = (if cap_blocks cap = [] then Inr () else Inl InvalidData)"

definition capture_ops :: "capture_device block_device" where
  "capture_ops =
     \<lparr>block_count = cap_block_count,
      read_block = \<lambda>block cap.
        if cap_block_count cap \<le> block then (Inl UnexpectedEof, cap)
        else (Inr (case bt_get (cap_blocks cap) block of Some data \<Rightarrow> data | None \<Rightarrow> zeroes BLOCK_SIZE), cap),
      write_block = \<lambda>block data cap.
        if cap_block_count cap \<le> block then (Inl UnexpectedEof, cap)
        else (Inr (), cap\<lparr>cap_blocks := bt_insert block data (cap_blocks cap)\<rparr>),
      flush = \<lambda>cap. (Inr (), cap)\<rparr>"

text \<open>Stores run on a fresh capture device, which the caller then inspects.\<close>

definition render :: "u64 \<Rightarrow> (capture_device, unit) dev_io \<Rightarrow> capture_device io_result" where
  "render count stores = (case stores (capture_new count) of (r, cap) \<Rightarrow> res_bind r (\<lambda>_. Inr cap))"

section \<open>The commit sequence of the transaction modules\<close>

definition log_changed :: "block_write list \<Rightarrow> (journal_log, unit) dev_io" where
  "log_changed changed =
     io_bind journal_begin (\<lambda>txid.
     io_seq (io_for changed (\<lambda>(block, data). journal_write txid block data))
     (journal_commit txid))"

definition transaction_entries :: "block_write list \<Rightarrow> journal_entry list io_result" where
  "transaction_entries changed =
     (case log_changed changed journal_log_new of (r, log) \<Rightarrow> res_bind r (\<lambda>_. Inr (jl_entries log)))"

definition publish_and_recover ::
    "('d block_device \<Rightarrow> superblock \<Rightarrow> ('d, recovery_report) dev_io) \<Rightarrow>
     'd block_device \<Rightarrow> superblock \<Rightarrow> block_write list \<Rightarrow> ('d, recovery_report) dev_io" where
  "publish_and_recover recover D sb changed =
     io_bind (io_lift (transaction_entries changed)) (\<lambda>entries.
     io_seq (store_journal_image D sb entries)
     (io_bind (recover D sb) (\<lambda>report.
      if committed_transactions report \<noteq> 1 \<or> home_writes report \<noteq> length changed then io_fail InvalidData
      else io_return report)))"

definition commit_changed ::
    "('d block_device \<Rightarrow> superblock \<Rightarrow> ('d, recovery_report) dev_io) \<Rightarrow>
     'd block_device \<Rightarrow> superblock \<Rightarrow> block_write list \<Rightarrow> ('d, recovery_report) dev_io" where
  "commit_changed recover D sb changed =
     (if changed = [] then io_return \<lparr>committed_transactions = 0, home_writes = 0\<rparr>
      else publish_and_recover recover D sb changed)"

section \<open>The capture device holds exactly what was written to it\<close>

fun event_writes :: "dev_event list \<Rightarrow> block_write list" where
  "event_writes [] = []"
| "event_writes (WriteEv b bs # tr) = (b, bs) # event_writes tr"
| "event_writes (FlushEv # tr) = event_writes tr"

lemma event_writes_append [simp]: "event_writes (tr @ us) = event_writes tr @ event_writes us"
  by (induction tr rule: event_writes.induct) auto

lemma event_writes_write_events [simp]: "event_writes (write_events ws) = ws"
  by (induction ws) auto

definition captured :: "u64 \<Rightarrow> dev_event list \<Rightarrow> capture_device" where
  "captured n tr = \<lparr>cap_block_count = n, cap_blocks = bt_of_list (event_writes tr)\<rparr>"

definition zero_disk :: disk where
  "zero_disk = (\<lambda>_. zeroes BLOCK_SIZE)"

definition capture_rel :: "disk \<times> dev_event list \<Rightarrow> bool" where
  "capture_rel s \<longleftrightarrow> fst s = write_all zero_disk (event_writes (snd s)) \<and>
     (\<forall>(b, bs) \<in> set (event_writes (snd s)). length bs = BLOCK_SIZE)"

lemma bt_of_list_snoc: "bt_of_list (ws @ [(b, bs)]) = bt_insert b bs (bt_of_list ws)"
  by (simp add: bt_of_list_def)

lemma bt_get_written: "bt_get (bt_of_list ws) b = (if b \<in> fst ` set ws then Some (write_all v ws b) else None)"
proof (induction ws rule: rev_induct)
  case (snoc w ws)
  obtain c bs where w: "w = (c, bs)" by fastforce
  have g: "bt_get (bt_of_list (ws @ [w])) = (bt_get (bt_of_list ws))(c \<mapsto> bs)"
    unfolding w bt_of_list_snoc by (rule bt_get_insert)
  show ?case using snoc by (simp add: g) (auto simp: w)
qed (simp add: bt_of_list_def)

interpretation capture: device_sim "trace_device n" capture_ops capture_rel "\<lambda>s. captured n (snd s)" n
proof (unfold_locales, goal_cases)
  case 1
  then show ?case by (simp add: dev_sim_def io_count_def capture_ops_def captured_def trace_device_def)
next
  case (2 b)
  have "length (write_all zero_disk ws b) = BLOCK_SIZE" if "\<forall>(b, bs) \<in> set ws. length bs = BLOCK_SIZE" for ws
    using that write_all_cases [of zero_disk ws b] by (auto simp: zero_disk_def)
  then show ?case
    using bt_get_written [of _ b zero_disk] write_all_other [of b _ zero_disk]
    by (auto simp: dev_sim_def trace_device_def capture_ops_def captured_def capture_rel_def zero_disk_def split: option.splits)
next
  case (3 bs b)
  then show ?case
    by (auto simp: dev_sim_def trace_device_def capture_ops_def captured_def capture_rel_def bt_of_list_snoc)
next
  case 4
  then show ?case
    by (auto simp: dev_sim_def trace_device_def capture_ops_def captured_def capture_rel_def)
qed

lemma render_trace:
  assumes "dev_sim capture_rel (\<lambda>s. captured n (snd s)) Q (stores_t :: (disk \<times> dev_event list, unit) dev_io) stores"
    and "stores_t (zero_disk, []) = (r, v, tr)"
  shows "render n stores = res_bind r (\<lambda>_. Inr (captured n tr))"
proof -
  have "capture_rel (zero_disk, [])" by (simp add: capture_rel_def)
  from dev_simD(1) [OF assms(1) this assms(2)] have "stores (capture_new n) = (r, captured n tr)"
    by (simp add: captured_def capture_new_def bt_of_list_def)
  then show ?thesis by (simp add: render_def)
qed

section \<open>Comparing with the home blocks\<close>

definition changes :: "disk \<Rightarrow> disk \<Rightarrow> u64 list \<Rightarrow> block_write list" where
  "changes v t rng = map (\<lambda>b. (b, t b)) (filter (\<lambda>b. v b \<noteq> t b) rng)"

lemma changes_simps [simp]:
  "changes v t [] = []"
  "changes v t (b # rng) = (if v b \<noteq> t b then (b, t b) # changes v t rng else changes v t rng)"
  "changes v t (rng @ rng') = changes v t rng @ changes v t rng'"
  by (simp_all add: changes_def)

lemma set_changes: "(b, d) \<in> set (changes v t rng) \<longleftrightarrow> b \<in> set rng \<and> v b \<noteq> t b \<and> d = t b"
  by (auto simp: changes_def)

lemma write_all_changes:
  "write_all v (changes v t rng) = (\<lambda>b. if b \<in> set rng then t b else v b)"
proof -
  have w: "write_all u (changes v t rng) b = (if b \<in> set rng \<and> v b \<noteq> t b then t b else u b)" for u b
  proof (induction rng arbitrary: u)
    case (Cons c rng)
    show ?case
    proof (cases "v c = t c")
      case True
      with Cons [of u] show ?thesis by auto
    next
      case False
      have "write_all u (changes v t (c # rng)) b = write_all (u(c := t c)) (changes v t rng) b" using False by simp
      also have "\<dots> = (if b \<in> set rng \<and> v b \<noteq> t b then t b else (u(c := t c)) b)" by (rule Cons.IH)
      finally show ?thesis using False by simp
    qed
  qed simp
  show ?thesis by (rule ext) (simp add: w)
qed

lemma collect_append:
  "collect_changed_range D (rng @ rng') cap changed =
     io_bind (collect_changed_range D rng cap changed) (\<lambda>(cap', changed'). collect_changed_range D rng' cap' changed')"
  by (induction D rng cap changed rule: collect_changed_range.induct) (simp_all add: io_bind_assoc case_prod_beta')

lemma collect_trace:
  assumes "\<forall>b \<in> set rng. b < n \<and> bt_get (cap_blocks cap) b = Some (t b)" and "distinct rng"
  shows "collect_changed_range (trace_device n) rng cap changed (v, tr) =
     (Inr (cap\<lparr>cap_blocks := filter (\<lambda>e. fst e \<notin> set rng) (cap_blocks cap)\<rparr>, changed @ changes v t rng), v, tr)"
  using assms
proof (induction rng arbitrary: cap changed)
  case (Cons b rng)
  let ?cap = "cap\<lparr>cap_blocks := bt_remove b (cap_blocks cap)\<rparr>"
  have "\<forall>c \<in> set rng. c < n \<and> bt_get (cap_blocks ?cap) c = Some (t c)"
    using Cons.prems by (auto simp: bt_get_remove)
  note ih = Cons.IH [OF this]
  have "filter (\<lambda>e. fst e \<notin> set rng) (bt_remove b (cap_blocks cap)) = filter (\<lambda>e. fst e \<notin> set (b # rng)) (cap_blocks cap)"
    by (auto simp: bt_remove_def intro: filter_cong)
  with Cons.prems ih show ?case
    by (simp add: take_rendered_block_def io_simps)
qed (simp add: io_simps)

lemma captured_blocks [simp]: "cap_blocks (captured n tr) = bt_of_list (event_writes tr)"
  by (simp add: captured_def)

lemma captured_keys: "e \<in> set (bt_of_list (ws :: block_write list)) \<Longrightarrow> fst e \<in> fst ` set ws"
  using bt_get_written [of ws "fst e" zero_disk] bt.entries_lookup [OF bt_of_list_inv, of "fst e" "snd e" ws]
  by (simp split: if_splits)

lemma captured_filter_empty:
  assumes "fst ` set (event_writes tr) \<subseteq> set rng"
  shows "filter (\<lambda>e. fst e \<notin> set rng) (cap_blocks (captured n tr)) = []"
proof -
  have "fst e \<in> set rng" if "e \<in> set (bt_of_list (event_writes tr))" for e
    using captured_keys [OF that] assms by (rule rev_subsetD)
  then show ?thesis by (simp add: filter_empty_conv)
qed

text \<open>
  Collecting the ranges that were rendered, and nothing else, succeeds and yields the blocks
  whose rendered contents differ from the device's.
\<close>

lemma collect_captured:
  assumes "set rng = fst ` set (event_writes tr')" and "distinct rng" and "\<forall>b \<in> set rng. b < n"
  obtains cap where "collect_changed_range (trace_device n) rng (captured n tr') [] (v, tr) =
     (Inr (cap, changes v (write_all zero_disk (event_writes tr')) rng), v, tr)" and "ensure_empty cap = Inr ()"
proof -
  have "\<forall>b \<in> set rng. b < n \<and> bt_get (cap_blocks (captured n tr')) b = Some (write_all zero_disk (event_writes tr') b)"
    using assms bt_get_written [of "event_writes tr'" _ zero_disk] by (auto simp: captured_def)
  note c = collect_trace [OF this assms(2), of "[]" v tr]
  have "filter (\<lambda>e. fst e \<notin> set rng) (cap_blocks (captured n tr')) = []"
    using assms(1) by (intro captured_filter_empty) simp
  then have "ensure_empty (captured n tr'\<lparr>cap_blocks := filter (\<lambda>e. fst e \<notin> set rng) (cap_blocks (captured n tr'))\<rparr>) = Inr ()"
    unfolding ensure_empty_def by simp
  then show thesis by (rule that [OF c [unfolded append_Nil]])
qed

section \<open>The logged transaction\<close>

lemma log_writes:
  assumes "jl_active l = Some t"
  shows "io_for ws (\<lambda>(b, d). journal_write t b d) l
     = (Inr (), l\<lparr>jl_entries := jl_entries l @ map (\<lambda>(b, d). Write t b d) ws\<rparr>)"
  using assms
proof (induction ws arbitrary: l)
  case (Cons w ws)
  obtain b d where w: "w = (b, d)" by fastforce
  with Cons show ?case by (simp add: journal_write_def require_active_def io_simps)
qed (simp add: io_simps)

lemma transaction_entries_eq: "transaction_entries changed = Inr (txn_entries (0, changed))"
proof -
  let ?l = "\<lparr>jl_entries = [Begin 0], jl_active = Some 0, jl_next_txid = 1\<rparr>"
  have "journal_begin journal_log_new = (Inr 0, ?l)"
    by (simp add: journal_begin_def journal_log_new_def checked_add_def)
  moreover have "io_for changed (\<lambda>(b, d). journal_write 0 b d) ?l
      = (Inr (), ?l\<lparr>jl_entries := Begin 0 # map (\<lambda>(b, d). Write 0 b d) changed\<rparr>)"
    using log_writes [of ?l 0 changed] by simp
  ultimately show ?thesis
    by (simp add: transaction_entries_def log_changed_def io_simps journal_commit_def require_active_def
        txn_entries_def open_entries_def)
qed

lemma transaction_facts:
  shows "transactions (txn_entries (0, ws)) = [(0, ws)]" and "committed_writes (txn_entries (0, ws)) = ws"
    and "report_of (txn_entries (0, ws)) = \<lparr>committed_transactions = 1, home_writes = length ws\<rparr>"
    and "txn_entries (0, ws) \<noteq> []"
proof -
  have "parse_log (txn_entries (0, ws)) None = Some ([(0, ws)], None)"
    using parse_log_writes [of 0 ws "[Commit 0]" "[]"] by (simp add: txn_entries_def open_entries_def)
  then show "transactions (txn_entries (0, ws)) = [(0, ws)]" by (simp add: transactions_def)
  then show "committed_writes (txn_entries (0, ws)) = ws" by (simp add: committed_writes_def)
  with \<open>transactions _ = _\<close> show "report_of (txn_entries (0, ws)) = \<lparr>committed_transactions = 1, home_writes = length ws\<rparr>"
    by (simp add: report_of_def)
  show "txn_entries (0, ws) \<noteq> []" by (simp add: txn_entries_def)
qed

lemma transaction_entries_ok:
  "\<forall>(b, d) \<in> set ws. b < U64_LIMIT \<and> length d = BLOCK_SIZE \<Longrightarrow> \<forall>e \<in> set (txn_entries (0, ws)). entry_ok e"
  by (auto simp: txn_entries_def open_entries_def)


section \<open>Effect and crash safety of the commit sequence\<close>

lemma publish_and_recover_checkpoint:
  "publish_and_recover recover_journal_and_checkpoint D sb ws =
     io_bind (publish_and_checkpoint D sb (txn_entries (0, ws))) (\<lambda>report.
       if committed_transactions report \<noteq> 1 \<or> home_writes report \<noteq> length ws then io_fail InvalidData
       else io_return report)"
  by (simp add: publish_and_recover_def transaction_entries_eq publish_and_checkpoint_def io_seq_def io_bind_assoc)

definition commit_outcome ::
    "superblock \<Rightarrow> block_write list \<Rightarrow> (journal_entry list \<Rightarrow> disk \<Rightarrow> disk) \<Rightarrow> (journal_entry list \<Rightarrow> dev_event list) \<Rightarrow>
     disk \<Rightarrow> recovery_report io_result \<times> disk \<times> dev_event list" where
  "commit_outcome sb ws settled evs_of v =
     (let es = txn_entries (0, ws) in
      if ws = [] then (Inr \<lparr>committed_transactions = 0, home_writes = 0\<rparr>, v, [])
      else case store_outcome sb es v of
        (Inl e, x, evs) \<Rightarrow> (Inl e, x, evs)
      | (Inr _, x, evs) \<Rightarrow> (Inr (report_of es), settled es x, evs @ evs_of es))"

definition replayed :: "journal_entry list \<Rightarrow> disk \<Rightarrow> disk" where
  "replayed es v = write_all v (committed_writes es)"

definition replay_events :: "journal_entry list \<Rightarrow> dev_event list" where
  "replay_events es = plan_events (committed_writes es)"

text \<open>The same without the shortcut for an empty list of writes.\<close>

definition publish_outcome ::
    "superblock \<Rightarrow> block_write list \<Rightarrow> (journal_entry list \<Rightarrow> disk \<Rightarrow> disk) \<Rightarrow> (journal_entry list \<Rightarrow> dev_event list) \<Rightarrow>
     disk \<Rightarrow> recovery_report io_result \<times> disk \<times> dev_event list" where
  "publish_outcome sb ws settled evs_of v =
     (let es = txn_entries (0, ws) in
      case store_outcome sb es v of
        (Inl e, x, evs) \<Rightarrow> (Inl e, x, evs)
      | (Inr _, x, evs) \<Rightarrow> (Inr (report_of es), settled es x, evs @ evs_of es))"

lemma commit_publish_outcome: "ws \<noteq> [] \<Longrightarrow> commit_outcome sb ws settled evs_of v = publish_outcome sb ws settled evs_of v"
  by (simp add: commit_outcome_def publish_outcome_def Let_def)

lemma publish_outcome_Inl:
  assumes "publish_outcome sb ws settled evs_of v = (Inl e, x, evs)"
  shows "x = v \<and> evs = []"
proof -
  from assms have "store_outcome sb (txn_entries (0, ws)) v = (Inl e, x, evs)"
    by (auto simp: publish_outcome_def Let_def split: sum.splits prod.splits)
  then show ?thesis by (auto simp: store_outcome_def Let_def split: sum.splits if_splits)
qed

lemma publish_checkpoint_trace:
  assumes "geometry_ok sb" and "n = sb_total_blocks sb" and "disk_ok n v"
    and "\<forall>(b, d) \<in> set ws. b < U64_LIMIT \<and> length d = BLOCK_SIZE"
    and "publish_outcome sb ws recovered recovery_events v = (r, x, evs)"
  shows "publish_and_recover recover_journal_and_checkpoint (trace_device n) sb ws (v, tr) = (r, x, tr @ evs)"
proof -
  note p = publish_trace [OF assms(1-3) transaction_entries_ok [OF assms(4)], of tr]
  obtain q y fs where o: "store_outcome sb (txn_entries (0, ws)) v = (q, y, fs)" by (cases "store_outcome sb (txn_entries (0, ws)) v") auto
  show ?thesis
    using assms(5) p o
    by (cases q) (auto simp: publish_and_recover_checkpoint publish_outcome_def Let_def io_simps transaction_facts split: if_splits)
qed

lemma commit_checkpoint_trace:
  assumes "geometry_ok sb" and "n = sb_total_blocks sb" and "disk_ok n v"
    and "\<forall>(b, d) \<in> set ws. b < U64_LIMIT \<and> length d = BLOCK_SIZE"
    and "commit_outcome sb ws recovered recovery_events v = (r, x, evs)"
  shows "commit_changed recover_journal_and_checkpoint (trace_device n) sb ws (v, tr) = (r, x, tr @ evs)"
proof (cases "ws = []")
  case True
  with assms(5) show ?thesis by (simp add: commit_changed_def commit_outcome_def io_simps)
next
  case False
  with publish_checkpoint_trace [OF assms(1-4)] assms(5) show ?thesis by (simp add: commit_changed_def commit_publish_outcome)
qed

lemma commit_replay_trace:
  assumes "geometry_ok sb" and "n = sb_total_blocks sb" and "disk_ok n v"
    and "\<forall>(b, d) \<in> set ws. b < U64_LIMIT \<and> length d = BLOCK_SIZE"
    and "commit_outcome sb ws replayed replay_events v = (r, x, evs)"
  shows "commit_changed recover_journal (trace_device n) sb ws (v, tr) = (r, x, tr @ evs)"
proof -
  have c: "check_region sb n = Inr ()" using geometry_check_region [OF assms(1)] assms(2) by simp
  note ok = transaction_entries_ok [OF assms(4)]
  obtain q y fs where o: "store_outcome sb (txn_entries (0, ws)) v = (q, y, fs)" by (cases "store_outcome sb (txn_entries (0, ws)) v") auto
  show ?thesis
  proof (cases q)
    case (Inr u)
    note s = store_outcome_Inr [OF c assms(3) o [unfolded Inr] ok]
    from recover_journal_trace [OF assms(1,2) s(3,2)] assms(5) o Inr show ?thesis
      by (auto simp: commit_changed_def publish_and_recover_def transaction_entries_eq commit_outcome_def Let_def io_simps
          store_trace [OF c assms(3)] replayed_def replay_events_def transaction_facts split: if_splits)
  qed (use assms(5) o in \<open>auto simp: commit_changed_def publish_and_recover_def transaction_entries_eq commit_outcome_def
      Let_def io_simps store_trace [OF c assms(3)] split: if_splits\<close>)
qed

lemma same_home_write_all:
  assumes "same_home sb x v"
  shows "same_home sb (write_all x ws) (write_all v ws)"
proof -
  have w: "x b = v b \<Longrightarrow> write_all x ws b = write_all v ws b" for x v b
  proof (induction ws arbitrary: x v)
    case (Cons u us)
    obtain c bs where u: "u = (c, bs)" by fastforce
    have "(x(c := bs)) b = (v(c := bs)) b" using Cons.prems by simp
    then show ?case unfolding u write_all_simps by (rule Cons.IH)
  qed simp
  show ?thesis unfolding same_home_def
  proof (intro allI impI)
    fix b assume "b = 0 \<or> 1 + sb_journal_blocks sb \<le> b"
    with assms have "x b = v b" unfolding same_home_def by blast
    then show "write_all x ws b = write_all v ws b" by (rule w)
  qed
qed

lemma same_home_refl [simp]: "same_home sb v v"
  by (simp add: same_home_def)

lemma same_home_recovered:
  assumes "same_home sb x v" and "0 < sb_journal_blocks sb"
  shows "same_home sb (recovered (txn_entries (0, ws)) x) (write_all v ws)"
  using same_home_write_all [OF assms(1), of ws] assms(2)
  by (auto simp: recovered_def transaction_facts same_home_def)

text \<open>
  Whatever a crash during the commit leaves behind, recovery loads it and ends with all home
  blocks as before or all home blocks as the transaction wants them.
\<close>

lemma crash_disks_prefix: "crash_disks v tr \<subseteq> crash_disks v (tr @ us)"
  by (simp add: crash_disks_append)

lemma commit_crash_checkpoint:
  assumes g: "geometry_ok sb" and n: "n = sb_total_blocks sb" and v: "disk_ok n v"
    and data: "\<forall>(b, d) \<in> set ws. b < U64_LIMIT \<and> length d = BLOCK_SIZE"
    and out: "commit_outcome sb ws recovered recovery_events v = (Inr rep, x, evs)" and w: "w \<in> crash_disks v evs"
    and empty: "load_disk sb v = Inr []"
  shows "disk_ok n w" and "\<exists>fs. load_disk sb w = Inr fs \<and>
     (same_home sb (recovered fs w) v \<or> same_home sb (recovered fs w) (write_all v ws))"
proof -
  have "disk_ok n w \<and> (\<exists>fs. load_disk sb w = Inr fs \<and>
     (same_home sb (recovered fs w) v \<or> same_home sb (recovered fs w) (write_all v ws)))"
  proof (cases "ws = []")
    case True
    with out have "evs = []" by (simp add: commit_outcome_def)
    with w have "w = v" by (simp add: crash_disks_empty)
    with v empty show ?thesis by (auto simp: recovered_def)
  next
    case False
    have c: "check_region sb n = Inr ()" using geometry_check_region [OF g] n by simp
    note ok = transaction_entries_ok [OF data]
    from out False obtain u y fs where o: "store_outcome sb (txn_entries (0, ws)) v = (Inr u, y, fs)"
      and x: "x = recovered (txn_entries (0, ws)) y" "evs = fs @ recovery_events (txn_entries (0, ws))"
      by (auto simp: commit_outcome_def Let_def split: sum.splits prod.splits)
    have run: "publish_and_checkpoint (trace_device n) sb (txn_entries (0, ws)) (v, [])
        = (Inr (report_of (txn_entries (0, ws))), x, evs)"
      using publish_trace [OF g n v ok, of "[]"] o x by simp
    have "same_home sb x (write_all v ws)"
      using same_home_recovered [OF store_outcome_Inr(4) [OF c v o ok] geometry_okD(2) [OF g]] x(1) by simp
    with publish_crash [OF g n v ok run w] show ?thesis by auto
  qed
  then show "disk_ok n w" and "\<exists>fs. load_disk sb w = Inr fs \<and>
     (same_home sb (recovered fs w) v \<or> same_home sb (recovered fs w) (write_all v ws))" by auto
qed

lemma commit_outcome_replay:
  assumes "commit_outcome sb ws replayed replay_events v = (Inr rep, x, evs)"
  obtains x' us where "commit_outcome sb ws recovered recovery_events v = (Inr rep, x', evs @ us)"
proof -
  have "recovery_events (txn_entries (0, ws)) = replay_events (txn_entries (0, ws)) @ [WriteEv 1 empty_anchor_block, FlushEv]"
    by (simp add: recovery_events_def replay_events_def transaction_facts)
  with assms that show thesis
    by (auto simp: commit_outcome_def Let_def split: if_splits sum.splits prod.splits)
qed

section \<open>When a transaction fits\<close>

definition journal_fits :: "superblock \<Rightarrow> nat \<Rightarrow> bool" where
  "journal_fits sb k \<longleftrightarrow> 96 + k * (32 + BLOCK_SIZE) \<le> sb_journal_blocks sb * BLOCK_SIZE"

lemma length_transaction:
  assumes "\<forall>(b, d) \<in> set ws. b < U64_LIMIT \<and> length d = BLOCK_SIZE"
  shows "length (entries_bytes (txn_entries (0, ws))) = 64 + length ws * (32 + BLOCK_SIZE)"
proof -
  have "sum_list (map entry_size (map (\<lambda>(b, d). Write 0 b d) ws)) = length ws * (32 + BLOCK_SIZE)"
    using assms by (induction ws) auto
  then show ?thesis
    using length_entries_bytes [OF transaction_entries_ok [OF assms]] by (simp add: txn_entries_def open_entries_def)
qed

lemma validate_transaction:
  "validate_entries sb (txn_entries (0, ws)) = (if \<forall>(b, d) \<in> set ws. home_target sb b then Inr () else Inl InvalidData)"
proof -
  have "parse_log (txn_entries (0, ws)) None \<noteq> None"
    using parse_log_writes [of 0 ws "[Commit 0]" "[]"] by (simp add: txn_entries_def open_entries_def)
  moreover have "list_all (entry_home sb) (txn_entries (0, ws)) \<longleftrightarrow> (\<forall>(b, d) \<in> set ws. home_target sb b)"
    by (auto simp: txn_entries_def open_entries_def list_all_iff)
  ultimately show ?thesis
    using validate_entries_loop_iff [of sb "txn_entries (0, ws)" None] by (auto simp: validate_entries_def)
qed

text \<open>Publication succeeds exactly when the journal is empty and large enough.\<close>

lemma store_outcome_transaction:
  assumes "addressable sb" and "load_disk sb v = Inr es" and "\<forall>(b, d) \<in> set ws. home_target sb b \<and> length d = BLOCK_SIZE"
  shows "es \<noteq> [] \<Longrightarrow> store_outcome sb (txn_entries (0, ws)) v = (Inl WouldBlock, v, [])"
    and "es = [] \<Longrightarrow> \<not> journal_fits sb (length ws) \<Longrightarrow> store_outcome sb (txn_entries (0, ws)) v = (Inl InvalidInput, v, [])"
    and "es = [] \<Longrightarrow> journal_fits sb (length ws) \<Longrightarrow> \<exists>x evs. store_outcome sb (txn_entries (0, ws)) v = (Inr (), x, evs)"
proof -
  note g = addressable_geometry [OF assms(1)]
  have data: "\<forall>(b, d) \<in> set ws. b < U64_LIMIT \<and> length d = BLOCK_SIZE"
    using assms(3) home_target_range(2) [OF g] geometry_okD(10) [OF g] by fastforce
  have cap: "region_capacity sb = Inr (sb_journal_blocks sb * BLOCK_SIZE)"
    using addressable_region_len(2) [OF assms(1), of "sb_journal_blocks sb"] geometry_okD [OF g]
    by (simp add: region_capacity_Inr)
  have valid: "validate_entries sb (txn_entries (0, ws)) = Inr ()"
    using assms(3) by (auto simp: validate_transaction)
  note s = store_outcome_def assms(2) valid cap encode_entries_ok [OF transaction_entries_ok [OF data]]
    length_transaction [OF data] journal_fits_def transaction_facts
  show "es \<noteq> [] \<Longrightarrow> store_outcome sb (txn_entries (0, ws)) v = (Inl WouldBlock, v, [])" by (simp add: s)
  show "es = [] \<Longrightarrow> \<not> journal_fits sb (length ws) \<Longrightarrow> store_outcome sb (txn_entries (0, ws)) v = (Inl InvalidInput, v, [])"
    by (simp add: s)
  show "es = [] \<Longrightarrow> journal_fits sb (length ws) \<Longrightarrow> \<exists>x evs. store_outcome sb (txn_entries (0, ws)) v = (Inr (), x, evs)"
    by (simp add: s)
qed

section \<open>The same on every reliable device\<close>

context read_sim
begin

lemma sim_collect:
  "dev_sim P abst (\<lambda>_. True) (collect_changed_range D rng cap changed) (collect_changed_range E rng cap changed)"
proof (induction rng arbitrary: cap changed)
  case (Cons b rng)
  show ?case unfolding collect_changed_range.simps
    by (rule sim_bind_lift sim_prod sim_bind [OF sim_read] Cons.IH)+
qed (simp add: sim_return)

end

context device_sim
begin

lemma sim_publish_and_recover:
  assumes "dev_sim P abst (\<lambda>_. True) (recover D sb) (recover' E sb)"
  shows "dev_sim P abst (\<lambda>_. True) (publish_and_recover recover D sb ws) (publish_and_recover recover' E sb ws)"
  unfolding publish_and_recover_def
  by (rule sim_bind_lift sim_seq [OF sim_store_journal_image] sim_bind [OF assms] sim_if sim_fail sim_return | simp)+

lemma sim_commit_changed:
  assumes "dev_sim P abst (\<lambda>_. True) (recover D sb) (recover' E sb)"
  shows "dev_sim P abst (\<lambda>_. True) (commit_changed recover D sb ws) (commit_changed recover' E sb ws)"
  unfolding commit_changed_def
  by (rule sim_if, rule sim_return, rule TrueI, rule sim_publish_and_recover, rule assms)

end

end
