(* ===== verification/Metadata_Tx.thy ===== *)
theory Metadata_Tx
  imports Transaction_Image
begin

text \<open>
  The transaction modules that persist whole metadata snapshots through the journal:
  \<open>allocation_tx.rs\<close>, \<open>inode_tx.rs\<close>, \<open>directory_tx.rs\<close>, \<open>metadata_tx.rs\<close> and \<open>create_tx.rs\<close>.
  Each renders the images it wants on a capture device, keeps the home blocks that change, and
  commits them in one transaction. The lemmas describe the effect on the disk, every early
  failure, and what a crash at any point leads to after recovery.
\<close>

definition store_inode_table_journaled ::
    "'d block_device \<Rightarrow> superblock \<Rightarrow> persisted_inode list \<Rightarrow> ('d, recovery_report) dev_io" where
  "store_inode_table_journaled D sb inodes =
     io_bind (io_count D) (\<lambda>count.
     if count \<noteq> sb_total_blocks sb then io_fail InvalidInput else
     io_bind (io_lift (render (sb_total_blocks sb) (store_inode_table capture_ops sb inodes))) (\<lambda>capture.
     io_bind (collect_changed_range D (inode_range sb) capture []) (\<lambda>(capture, changed).
     io_bind (io_lift (ensure_empty capture)) (\<lambda>_.
     commit_changed recover_journal D sb changed))))"

definition store_directory_table_journaled ::
    "'d block_device \<Rightarrow> superblock \<Rightarrow> directory_entry list \<Rightarrow> ('d, recovery_report) dev_io" where
  "store_directory_table_journaled D sb entries =
     io_bind (io_count D) (\<lambda>count.
     if count \<noteq> sb_total_blocks sb then io_fail InvalidInput else
     io_bind (io_lift (render (sb_total_blocks sb) (store_directory_table capture_ops sb entries))) (\<lambda>capture.
     io_bind (collect_changed_range D (directory_range sb) capture []) (\<lambda>(capture, changed).
     io_bind (io_lift (ensure_empty capture)) (\<lambda>_.
     commit_changed recover_journal D sb changed))))"

definition store_inode_directory_tables_journaled ::
    "'d block_device \<Rightarrow> superblock \<Rightarrow> persisted_inode list \<Rightarrow> directory_entry list \<Rightarrow> ('d, recovery_report) dev_io" where
  "store_inode_directory_tables_journaled D sb inodes entries =
     io_bind (io_count D) (\<lambda>count.
     if count \<noteq> sb_total_blocks sb then io_fail InvalidInput else
     io_bind (io_lift (render (sb_total_blocks sb)
       (io_seq (store_inode_table capture_ops sb inodes)
       (store_directory_table capture_ops sb entries)))) (\<lambda>capture.
     io_bind (collect_changed_range D (inode_range sb) capture []) (\<lambda>(capture, changed).
     io_bind (collect_changed_range D (directory_range sb) capture changed) (\<lambda>(capture, changed).
     io_bind (io_lift (ensure_empty capture)) (\<lambda>_.
     commit_changed recover_journal D sb changed)))))"

definition store_create_metadata_journaled ::
    "'d block_device \<Rightarrow> superblock \<Rightarrow> block_allocator \<Rightarrow> persisted_inode list \<Rightarrow> directory_entry list
     \<Rightarrow> ('d, recovery_report) dev_io" where
  "store_create_metadata_journaled D sb allocator inodes entries =
     io_bind (io_count D) (\<lambda>count.
     if count \<noteq> sb_total_blocks sb then io_fail InvalidInput else
     io_bind (io_lift (render (sb_total_blocks sb)
       (io_seq (store_allocator capture_ops sb allocator)
       (io_seq (store_inode_table capture_ops sb inodes)
       (store_directory_table capture_ops sb entries))))) (\<lambda>capture.
     io_bind (collect_changed_range D (allocation_range sb) capture []) (\<lambda>(capture, changed).
     io_bind (collect_changed_range D (inode_range sb) capture changed) (\<lambda>(capture, changed).
     io_bind (collect_changed_range D (directory_range sb) capture changed) (\<lambda>(capture, changed).
     io_bind (io_lift (ensure_empty capture)) (\<lambda>_.
     commit_changed recover_journal_and_checkpoint D sb changed))))))"

text \<open>The allocator transaction logs every block of the region, changed or not.\<close>

fun take_rendered_range :: "u64 list \<Rightarrow> capture_device \<Rightarrow> block_write list \<Rightarrow> (capture_device \<times> block_write list) io_result" where
  "take_rendered_range [] cap ws = Inr (cap, ws)"
| "take_rendered_range (block # rng) cap ws =
     res_bind (take_rendered_block block cap) (\<lambda>(data, cap').
     take_rendered_range rng cap' (ws @ [(block, data)]))"

definition store_allocator_journaled ::
    "'d block_device \<Rightarrow> superblock \<Rightarrow> block_allocator \<Rightarrow> ('d, recovery_report) dev_io" where
  "store_allocator_journaled D sb allocator =
     io_bind (io_count D) (\<lambda>count.
     if count \<noteq> sb_total_blocks sb then io_fail InvalidInput else
     io_bind (io_lift (render (sb_total_blocks sb) (store_allocator capture_ops sb allocator))) (\<lambda>capture.
     io_bind (io_lift (take_rendered_range (allocation_range sb) capture [])) (\<lambda>(capture, ws).
     io_bind (io_lift (ensure_empty capture)) (\<lambda>_.
     io_bind (io_lift (transaction_entries ws)) (\<lambda>entries.
     io_seq (store_journal_image D sb entries)
     (io_bind (recover_journal D sb) (\<lambda>report.
      if committed_transactions report \<noteq> 1 \<or> home_writes report \<noteq> sb_allocation_blocks sb then io_fail InvalidData
      else io_return report)))))))"

section \<open>Loads on the tracing device\<close>

lemma quiet_read_region: "quiet (read_region (trace_device n) err rng k)"
  unfolding read_region_def by (intro quiet_intros)

lemma read_trace:
  assumes "dev_sim (sized (trace_device n) (\<lambda>s. disk_ok n (fst s)) n) fst Q m m'" and "quiet m" and "disk_ok n v" and "m' v = (r, v)"
  shows "m (v, tr) = (r, v, tr)"
proof -
  from assms(1,3,4) obtain s where "m (v, tr) = (r, s)" by (auto elim!: dev_sim_run [where d = "(v, tr)"])
  with quietD [OF assms(2) this] show ?thesis by simp
qed

lemma loads_trace:
  assumes "addressable sb" and "n = sb_total_blocks sb" and "disk_ok n v"
  shows "load_allocator (trace_device n) sb (v, tr) = (load_allocator_disk sb v, v, tr)"
    and "load_inode_table (trace_device n) sb (v, tr) = (load_inodes_disk sb v, v, tr)"
    and "load_directory_table (trace_device n) sb (v, tr) = (load_entries_disk sb v, v, tr)"
proof -
  have "quiet (load_allocator (trace_device n) sb)" "quiet (load_inode_table (trace_device n) sb)"
    "quiet (load_directory_table (trace_device n) sb)"
    unfolding load_allocator_def alloc_validate_geometry_def alloc_read_region_def load_inode_table_def
      inode_validate_geometry_def inode_read_region_def load_directory_table_def directory_validate_geometry_def directory_read_region_def
    by (intro quiet_intros quiet_read_region)+
  then show "load_allocator (trace_device n) sb (v, tr) = (load_allocator_disk sb v, v, tr)"
    and "load_inode_table (trace_device n) sb (v, tr) = (load_inodes_disk sb v, v, tr)"
    and "load_directory_table (trace_device n) sb (v, tr) = (load_entries_disk sb v, v, tr)"
    using read_trace [OF tracing.to_mem.sim_load_allocator _ assms(3) load_allocator_mem [OF assms]]
      read_trace [OF tracing.to_mem.sim_load_inode_table _ assms(3) load_inode_table_mem [OF assms]]
      read_trace [OF tracing.to_mem.sim_load_directory_table _ assms(3) load_directory_table_mem [OF assms]] by blast+
qed

section \<open>Several images at once\<close>

type_synonym region_image = "u64 list \<times> byte list"

definition interval :: "u64 list \<Rightarrow> bool" where
  "interval rng \<longleftrightarrow> rng \<noteq> [] \<and> (\<exists>s e. rng = [s..<e])"

definition put_images :: "region_image list \<Rightarrow> disk \<Rightarrow> disk" where
  "put_images ps v = foldl (\<lambda>v (rng, img). image_put rng img v) v ps"

definition images_writes :: "region_image list \<Rightarrow> block_write list" where
  "images_writes ps = concat (map (\<lambda>(rng, img). image_events rng img) ps)"

lemma put_images_simps [simp]:
  "put_images [] v = v"
  "put_images ((rng, img) # ps) v = put_images ps (image_put rng img v)"
  by (simp_all add: put_images_def)

lemma images_writes_simps [simp]:
  "images_writes [] = []"
  "images_writes ((rng, img) # ps) = image_events rng img @ images_writes ps"
  by (simp_all add: images_writes_def)

lemma image_events_blocks: "rng \<noteq> [] \<Longrightarrow> fst ` set (image_events rng img) = set rng"
proof -
  assume ne: "rng \<noteq> []"
  have "fst ` set (image_events rng img) = (\<lambda>i. rng ! i) ` set (rev [1..<length rng] @ [0])"
    by (simp add: image_events_def image_comp comp_def)
  also have "set (rev [1..<length rng] @ [0]) = {..<length rng}" using ne by (auto simp: neq0_conv)
  finally show ?thesis by (auto simp: set_conv_nth)
qed

lemma write_all_images:
  assumes "\<forall>p \<in> set ps. interval (fst p)"
  shows "write_all v (images_writes ps) = put_images ps v" and "fst ` set (images_writes ps) = set (concat (map fst ps))"
proof -
  show "write_all v (images_writes ps) = put_images ps v" using assms
  proof (induction ps arbitrary: v)
    case (Cons p ps)
    obtain rng img where p: "p = (rng, img)" by fastforce
    with Cons.prems obtain s e where "rng = [s..<e]" "rng \<noteq> []" by (auto simp: interval_def)
    then have "write_all v (image_events rng img) = image_put rng img v" by (rule write_all_image)
    with Cons p show ?case by simp
  qed simp
  show "fst ` set (images_writes ps) = set (concat (map fst ps))" using assms
  proof (induction ps)
    case (Cons p ps)
    obtain rng img where p: "p = (rng, img)" by fastforce
    with Cons.prems have "rng \<noteq> []" by (simp add: interval_def)
    with Cons p show ?case by (simp add: image_Un image_events_blocks)
  qed simp
qed

lemma put_images_other: "b \<notin> set (concat (map fst ps)) \<Longrightarrow> put_images ps v b = v b"
  by (induction ps arbitrary: v) (auto simp: image_put_def)

lemma put_images_base: "b \<in> set (concat (map fst ps)) \<Longrightarrow> put_images ps v b = put_images ps w b"
proof (induction ps arbitrary: v w)
  case (Cons p ps)
  obtain rng img where p: "p = (rng, img)" by fastforce
  show ?case
  proof (cases "b \<in> set (concat (map fst ps))")
    case True
    then show ?thesis unfolding p put_images_simps by (rule Cons.IH)
  next
    case False
    with Cons.prems p show ?thesis by (simp add: put_images_other image_put_def)
  qed
qed simp

definition image_changes :: "region_image list \<Rightarrow> disk \<Rightarrow> block_write list" where
  "image_changes ps v = changes v (put_images ps v) (concat (map fst ps))"

lemma write_all_image_changes: "write_all v (image_changes ps v) = put_images ps v"
  unfolding image_changes_def write_all_changes by (rule ext) (simp add: put_images_other)

lemma image_changes_in:
  "(b, d) \<in> set (image_changes ps v) \<Longrightarrow> b \<in> set (concat (map fst ps)) \<and> d = put_images ps v b"
  by (simp add: image_changes_def set_changes)

text \<open>Images whose sizes match their regions write whole blocks.\<close>

lemma put_images_length:
  assumes "\<forall>(rng, img) \<in> set ps. interval rng \<and> length img = length rng * BLOCK_SIZE"
    and "b \<in> set (concat (map fst ps))"
  shows "length (put_images ps v b) = BLOCK_SIZE"
  using assms
proof (induction ps arbitrary: v)
  case (Cons p ps)
  obtain rng img where p: "p = (rng, img)" by fastforce
  show ?case
  proof (cases "b \<in> set (concat (map fst ps))")
    case True
    then show ?thesis unfolding p put_images_simps using Cons by auto
  next
    case False
    with Cons.prems(2) p have b: "b \<in> set rng" by simp
    from Cons.prems(1) p obtain s e where r: "rng = [s..<e]" "length img = length rng * BLOCK_SIZE" "rng \<noteq> []"
      by (auto simp: interval_def)
    have "hd rng = s" using r(1,3) by simp
    with b r(1) have "b - hd rng < length rng" by auto
    from length_chunk [OF this r(2)] False b p show ?thesis by (simp add: put_images_other image_put_def chunk_def)
  qed
qed simp

text \<open>Rendering, collecting and committing, in one step for every module.\<close>

lemma journaled_commit:
  assumes "n = sb_total_blocks sb" and "render n stores = Inr (captured n evs)" and "event_writes evs = images_writes ps"
    and ps: "\<forall>p \<in> set ps. interval (fst p)" and "distinct (concat (map fst ps))" and "\<forall>b \<in> set (concat (map fst ps)). b < n"
  shows "io_bind (io_lift (render n stores)) (\<lambda>capture.
     io_bind (collect_changed_range (trace_device n) (concat (map fst ps)) capture []) (\<lambda>(capture, changed).
     io_bind (io_lift (ensure_empty capture)) (\<lambda>_. K changed))) (v, tr)
   = K (image_changes ps v) (v, tr)"
proof -
  have "set (concat (map fst ps)) = fst ` set (event_writes evs)"
    using write_all_images(2) [OF ps] assms(3) by simp
  from collect_captured [OF this assms(5,6), of v tr] obtain cap where
    c: "collect_changed_range (trace_device n) (concat (map fst ps)) (captured n evs) [] (v, tr) =
      (Inr (cap, changes v (write_all zero_disk (event_writes evs)) (concat (map fst ps))), v, tr)" "ensure_empty cap = Inr ()" .
  have "changes v (write_all zero_disk (event_writes evs)) (concat (map fst ps)) = image_changes ps v"
    unfolding image_changes_def changes_def
    using put_images_base [of _ ps zero_disk v] assms(3) write_all_images(1) [OF ps]
    by (intro map_cong filter_cong) auto
  with c assms(2) show ?thesis by (simp add: io_simps)
qed


section \<open>The regions of the metadata\<close>

lemma region_intervals:
  assumes "geometry_ok sb"
  shows "interval (allocation_range sb)" "interval (inode_range sb)" "interval (directory_range sb)"
  using allocation_range_geometry(1,2) [OF assms] inode_range_geometry(1,2) [OF assms] directory_range_geometry(1,2) [OF assms]
  unfolding interval_def by blast+

lemma regions_distinct:
  assumes "geometry_ok sb"
  shows "distinct (allocation_range sb @ inode_range sb @ directory_range sb)"
    and "b \<in> set (allocation_range sb @ inode_range sb @ directory_range sb) \<Longrightarrow> home_target sb b \<and> b < sb_total_blocks sb"
    and "b \<in> set (allocation_range sb @ inode_range sb @ directory_range sb) \<Longrightarrow> 1 + sb_journal_blocks sb \<le> b"
  using geometry_ranges [OF assms] geometry_order [OF assms] geometry_okD(6) [OF assms]
  by (auto simp: home_target_def)

text \<open>The snapshot a transaction stores: which images, and the order in which encoding fails.\<close>

definition create_images :: "superblock \<Rightarrow> block_allocator \<Rightarrow> persisted_inode list \<Rightarrow> directory_entry list \<Rightarrow> region_image list io_result" where
  "create_images sb a inodes entries =
     res_bind (allocator_image sb a) (\<lambda>A.
     res_bind (inode_encode_image sb inodes) (\<lambda>I.
     res_bind (directory_encode_image sb entries) (\<lambda>E.
     Inr [(allocation_range sb, A), (inode_range sb, I), (directory_range sb, E)])))"

definition table_images :: "superblock \<Rightarrow> persisted_inode list \<Rightarrow> directory_entry list \<Rightarrow> region_image list io_result" where
  "table_images sb inodes entries =
     res_bind (inode_encode_image sb inodes) (\<lambda>I.
     res_bind (directory_encode_image sb entries) (\<lambda>E.
     Inr [(inode_range sb, I), (directory_range sb, E)]))"

text \<open>Images for distinct metadata regions, each of its region's size.\<close>

definition snapshot :: "superblock \<Rightarrow> region_image list \<Rightarrow> bool" where
  "snapshot sb ps \<longleftrightarrow> distinct (concat (map fst ps)) \<and>
     set (concat (map fst ps)) \<subseteq> set (allocation_range sb @ inode_range sb @ directory_range sb) \<and>
     (\<forall>(rng, img) \<in> set ps. interval rng \<and> length img = length rng * BLOCK_SIZE)"

lemma snapshotI:
  assumes "geometry_ok sb"
  shows "allocator_image sb a = Inr A \<Longrightarrow> inode_encode_image sb is = Inr I \<Longrightarrow> directory_encode_image sb es = Inr E \<Longrightarrow>
      snapshot sb [(allocation_range sb, A), (inode_range sb, I), (directory_range sb, E)]"
    "inode_encode_image sb is = Inr I \<Longrightarrow> directory_encode_image sb es = Inr E \<Longrightarrow>
      snapshot sb [(inode_range sb, I), (directory_range sb, E)]"
    "inode_encode_image sb is = Inr I \<Longrightarrow> snapshot sb [(inode_range sb, I)]"
    "directory_encode_image sb es = Inr E \<Longrightarrow> snapshot sb [(directory_range sb, E)]"
  using regions_distinct(1) [OF assms] region_intervals [OF assms] length_inode_image [of sb "is" I] length_directory_image [of sb es E]
    allocation_range_geometry(3) [OF assms] inode_range_geometry(3) [OF assms] directory_range_geometry(3) [OF assms]
  by (auto simp: snapshot_def elim!: allocator_image_encoded dest: length_allocator_image)

lemma snapshot_intervals: "snapshot sb ps \<Longrightarrow> \<forall>p \<in> set ps. interval (fst p)"
  by (auto simp: snapshot_def)

lemma snapshot_changes:
  assumes "geometry_ok sb" and "snapshot sb ps"
  shows "\<forall>(b, d) \<in> set (image_changes ps v). b < U64_LIMIT \<and> length d = BLOCK_SIZE"
    and "\<forall>(b, d) \<in> set (image_changes ps v). home_target sb b \<and> length d = BLOCK_SIZE"
proof -
  have "home_target sb b \<and> b < U64_LIMIT \<and> length d = BLOCK_SIZE" if "(b, d) \<in> set (image_changes ps v)" for b d
  proof -
    from image_changes_in [OF that] have b: "b \<in> set (concat (map fst ps))" and d: "d = put_images ps v b" by auto
    have "b \<in> set (allocation_range sb @ inode_range sb @ directory_range sb)"
      using b assms(2) by (auto simp: snapshot_def)
    with regions_distinct(2) [OF assms(1) this] geometry_okD(10) [OF assms(1)]
    have "home_target sb b" and "b < U64_LIMIT" by auto
    moreover have "length d = BLOCK_SIZE"
      unfolding d using assms(2) b by (intro put_images_length) (auto simp: snapshot_def)
    ultimately show ?thesis by simp
  qed
  then show "\<forall>(b, d) \<in> set (image_changes ps v). b < U64_LIMIT \<and> length d = BLOCK_SIZE"
    and "\<forall>(b, d) \<in> set (image_changes ps v). home_target sb b \<and> length d = BLOCK_SIZE" by auto
qed

section \<open>What each transaction does on the tracing device\<close>

lemma render_eq:
  assumes "dev_sim capture_rel (\<lambda>s. captured n (snd s)) Q (stores_t :: (disk \<times> dev_event list, unit) dev_io) stores"
  shows "render n stores = res_bind (fst (stores_t (zero_disk, []))) (\<lambda>_. Inr (captured n (snd (snd (stores_t (zero_disk, []))))))"
  by (rule render_trace [OF assms]) (simp add: prod_eq_iff)

text \<open>A sequence of stores renders the given images, or fails with the given error.\<close>

definition renders :: "u64 \<Rightarrow> (capture_device, unit) dev_io \<Rightarrow> region_image list io_result \<Rightarrow> bool" where
  "renders n stores r =
     (case r of Inl e \<Rightarrow> render n stores = Inl e
      | Inr ps \<Rightarrow> \<exists>evs. render n stores = Inr (captured n evs) \<and> event_writes evs = images_writes ps)"

lemma renders_captured:
  "event_writes evs = ws \<Longrightarrow> \<exists>evs'. captured n evs = captured n evs' \<and> event_writes evs' = ws"
  by blast

lemma renders_allocator:
  assumes "addressable sb" and "n = sb_total_blocks sb"
  shows "renders n (store_allocator capture_ops sb a) (map_sum id (\<lambda>A. [(allocation_range sb, A)]) (allocator_image sb a))"
  using store_allocator_trace [OF assms, of a zero_disk "[]"]
  by (cases "allocator_image sb a") (auto simp: renders_def simp: renders_captured render_eq [OF capture.sim_store_allocator])

lemma renders_inodes:
  assumes "addressable sb" and "n = sb_total_blocks sb"
  shows "renders n (store_inode_table capture_ops sb inodes) (map_sum id (\<lambda>I. [(inode_range sb, I)]) (inode_encode_image sb inodes))"
  using store_inode_table_trace [OF assms, of inodes zero_disk "[]"]
  by (cases "inode_encode_image sb inodes") (auto simp: renders_def simp: renders_captured render_eq [OF capture.sim_store_inode_table])

lemma renders_directory:
  assumes "addressable sb" and "n = sb_total_blocks sb"
  shows "renders n (store_directory_table capture_ops sb entries) (map_sum id (\<lambda>E. [(directory_range sb, E)]) (directory_encode_image sb entries))"
  using store_directory_table_trace [OF assms, of entries zero_disk "[]"]
  by (cases "directory_encode_image sb entries") (auto simp: renders_def simp: renders_captured render_eq [OF capture.sim_store_directory_table])

lemma renders_create:
  assumes "addressable sb" and "n = sb_total_blocks sb"
  shows "renders n (io_seq (store_allocator capture_ops sb a) (io_seq (store_inode_table capture_ops sb inodes)
     (store_directory_table capture_ops sb entries))) (create_images sb a inodes entries)"
proof -
  note tr = store_allocator_trace [OF assms] store_inode_table_trace [OF assms] store_directory_table_trace [OF assms]
  note sim = sim_seq [OF capture.sim_store_allocator sim_seq [OF capture.sim_store_inode_table capture.sim_store_directory_table]]
  show ?thesis
    by (cases "allocator_image sb a"; cases "inode_encode_image sb inodes"; cases "directory_encode_image sb entries")
      (auto simp: renders_def renders_captured render_eq [OF sim] create_images_def tr io_simps)
qed

lemma renders_tables:
  assumes "addressable sb" and "n = sb_total_blocks sb"
  shows "renders n (io_seq (store_inode_table capture_ops sb inodes) (store_directory_table capture_ops sb entries))
     (table_images sb inodes entries)"
proof -
  note tr = store_inode_table_trace [OF assms] store_directory_table_trace [OF assms]
  note sim = sim_seq [OF capture.sim_store_inode_table capture.sim_store_directory_table]
  show ?thesis
    by (cases "inode_encode_image sb inodes"; cases "directory_encode_image sb entries")
      (auto simp: renders_def renders_captured render_eq [OF sim] table_images_def tr io_simps)
qed

text \<open>The result of a snapshot transaction, from the images it renders.\<close>

definition snapshot_outcome ::
    "superblock \<Rightarrow> (journal_entry list \<Rightarrow> disk \<Rightarrow> disk) \<Rightarrow> (journal_entry list \<Rightarrow> dev_event list) \<Rightarrow>
     region_image list io_result \<Rightarrow> disk \<Rightarrow> recovery_report io_result \<times> disk \<times> dev_event list" where
  "snapshot_outcome sb settled evs_of images v =
     (case images of Inl e \<Rightarrow> (Inl e, v, [])
      | Inr ps \<Rightarrow> commit_outcome sb (image_changes ps v) settled evs_of v)"

lemma snapshot_commit:
  assumes a: "addressable sb" and n: "n = sb_total_blocks sb" and v: "disk_ok n v"
    and images: "\<And>ps. images = Inr ps \<Longrightarrow> snapshot sb ps \<and> concat (map fst ps) = rng" and "renders n stores images"
    and recover: "\<And>ws r x evs. \<forall>(b, d) \<in> set ws. b < U64_LIMIT \<and> length d = BLOCK_SIZE \<Longrightarrow>
      commit_outcome sb ws settled evs_of v = (r, x, evs) \<Longrightarrow>
      commit_changed recover (trace_device n) sb ws (v, tr) = (r, x, tr @ evs)"
    and out: "snapshot_outcome sb settled evs_of images v = (r, x, evs)"
  shows "io_bind (io_count (trace_device n)) (\<lambda>count.
     if count \<noteq> sb_total_blocks sb then io_fail InvalidInput else
     io_bind (io_lift (render (sb_total_blocks sb) stores)) (\<lambda>capture.
     io_bind (collect_changed_range (trace_device n) rng capture []) (\<lambda>(capture, changed).
     io_bind (io_lift (ensure_empty capture)) (\<lambda>_. commit_changed recover (trace_device n) sb changed)))) (v, tr)
   = (r, x, tr @ evs)"
proof (cases images)
  case (Inl e)
  with assms(5) out n show ?thesis by (simp add: renders_def snapshot_outcome_def io_simps)
next
  case (Inr ps)
  note g = addressable_geometry [OF a]
  from images [OF Inr] have ps: "snapshot sb ps" and rng: "concat (map fst ps) = rng" by auto
  from Inr assms(5) obtain fs where fs: "render n stores = Inr (captured n fs)" "event_writes fs = images_writes ps"
    by (auto simp: renders_def)
  have b: "\<forall>b \<in> set (concat (map fst ps)). b < n"
    using ps regions_distinct(2) [OF g] n by (auto simp: snapshot_def)
  have d: "distinct (concat (map fst ps))" using ps by (simp add: snapshot_def)
  note c = journaled_commit [OF n fs snapshot_intervals [OF ps] d b, where K = "commit_changed recover (trace_device n) sb" and v = v and tr = tr]
  from out Inr have "commit_outcome sb (image_changes ps v) settled evs_of v = (r, x, evs)"
    by (simp add: snapshot_outcome_def)
  from recover [OF snapshot_changes(1) [OF g ps] this] c n rng show ?thesis by (simp add: io_simps)
qed

lemma store_create_trace:
  assumes a: "addressable sb" and n: "n = sb_total_blocks sb" and v: "disk_ok n v"
    and out: "snapshot_outcome sb recovered recovery_events (create_images sb al inodes entries) v = (r, x, evs)"
  shows "store_create_metadata_journaled (trace_device n) sb al inodes entries (v, tr) = (r, x, tr @ evs)"
proof -
  note g = addressable_geometry [OF a]
  have "snapshot sb ps \<and> concat (map fst ps) = allocation_range sb @ inode_range sb @ directory_range sb"
    if "create_images sb al inodes entries = Inr ps" for ps
    using that snapshotI(1) [OF g] by (auto simp: create_images_def res_bind_Inr)
  note c = snapshot_commit [OF a n v this renders_create [OF a n] commit_checkpoint_trace [OF g n v] out]
  show ?thesis
    unfolding store_create_metadata_journaled_def case_prod_beta' by (rule c [unfolded collect_append io_bind_assoc case_prod_beta'])
qed

lemma store_tables_trace:
  assumes a: "addressable sb" and n: "n = sb_total_blocks sb" and v: "disk_ok n v"
    and out: "snapshot_outcome sb replayed replay_events (table_images sb inodes entries) v = (r, x, evs)"
  shows "store_inode_directory_tables_journaled (trace_device n) sb inodes entries (v, tr) = (r, x, tr @ evs)"
proof -
  note g = addressable_geometry [OF a]
  have "snapshot sb ps \<and> concat (map fst ps) = inode_range sb @ directory_range sb"
    if "table_images sb inodes entries = Inr ps" for ps
    using that snapshotI(2) [OF g] by (auto simp: table_images_def res_bind_Inr)
  note c = snapshot_commit [OF a n v this renders_tables [OF a n] commit_replay_trace [OF g n v] out]
  show ?thesis
    unfolding store_inode_directory_tables_journaled_def case_prod_beta' by (rule c [unfolded collect_append io_bind_assoc case_prod_beta'])
qed

lemma store_inodes_journaled_trace:
  assumes a: "addressable sb" and n: "n = sb_total_blocks sb" and v: "disk_ok n v"
    and out: "snapshot_outcome sb replayed replay_events
      (map_sum id (\<lambda>I. [(inode_range sb, I)]) (inode_encode_image sb inodes)) v = (r, x, evs)"
  shows "store_inode_table_journaled (trace_device n) sb inodes (v, tr) = (r, x, tr @ evs)"
proof -
  note g = addressable_geometry [OF a]
  have "snapshot sb ps \<and> concat (map fst ps) = inode_range sb"
    if "map_sum id (\<lambda>I. [(inode_range sb, I)]) (inode_encode_image sb inodes) = Inr ps" for ps
    using that snapshotI(3) [OF g] by (cases "inode_encode_image sb inodes") auto
  note c = snapshot_commit [OF a n v this renders_inodes [OF a n] commit_replay_trace [OF g n v] out]
  show ?thesis unfolding store_inode_table_journaled_def by (rule c)
qed

lemma store_directory_journaled_trace:
  assumes a: "addressable sb" and n: "n = sb_total_blocks sb" and v: "disk_ok n v"
    and out: "snapshot_outcome sb replayed replay_events
      (map_sum id (\<lambda>E. [(directory_range sb, E)]) (directory_encode_image sb entries)) v = (r, x, evs)"
  shows "store_directory_table_journaled (trace_device n) sb entries (v, tr) = (r, x, tr @ evs)"
proof -
  note g = addressable_geometry [OF a]
  have "snapshot sb ps \<and> concat (map fst ps) = directory_range sb"
    if "map_sum id (\<lambda>E. [(directory_range sb, E)]) (directory_encode_image sb entries) = Inr ps" for ps
    using that snapshotI(4) [OF g] by (cases "directory_encode_image sb entries") auto
  note c = snapshot_commit [OF a n v this renders_directory [OF a n] commit_replay_trace [OF g n v] out]
  show ?thesis unfolding store_directory_table_journaled_def by (rule c)
qed


section \<open>What a snapshot transaction leaves on the disk\<close>

lemma image_get_cong: "\<forall>b \<in> set rng. w b = v b \<Longrightarrow> image_get rng w = image_get rng v"
  unfolding image_get_def by (intro arg_cong [where f = concat] map_cong) auto

lemma same_home_loads:
  assumes "geometry_ok sb" and "same_home sb w v"
  shows "load_allocator_disk sb w = load_allocator_disk sb v" and "load_inodes_disk sb w = load_inodes_disk sb v"
    and "load_entries_disk sb w = load_entries_disk sb v"
proof -
  have "w b = v b" if "b \<in> set (allocation_range sb @ inode_range sb @ directory_range sb)" for b
    using regions_distinct(3) [OF assms(1) that] assms(2) unfolding same_home_def by blast
  then have "image_get (allocation_range sb) w = image_get (allocation_range sb) v"
    "image_get (inode_range sb) w = image_get (inode_range sb) v"
    "image_get (directory_range sb) w = image_get (directory_range sb) v" by (auto intro!: image_get_cong)
  then show "load_allocator_disk sb w = load_allocator_disk sb v" and "load_inodes_disk sb w = load_inodes_disk sb v"
    and "load_entries_disk sb w = load_entries_disk sb v"
    by (simp_all add: load_allocator_disk_def load_inodes_disk_def load_entries_disk_def)
qed

lemma put_images_get:
  assumes "snapshot sb ps" and "(rng, img) \<in> set ps"
  shows "image_get rng (put_images ps v) = img"
  using assms
proof (induction ps arbitrary: v)
  case (Cons p ps)
  obtain rng' img' where p: "p = (rng', img')" by fastforce
  from Cons.prems(1) p have tail: "snapshot sb ps" and dis: "set rng' \<inter> set (concat (map fst ps)) = {}"
    and rng': "interval rng'" "length img' = length rng' * BLOCK_SIZE" by (auto simp: snapshot_def)
  show ?case
  proof (cases "(rng, img) \<in> set ps")
    case True
    then show ?thesis unfolding p put_images_simps by (rule Cons.IH [OF tail])
  next
    case False
    with Cons.prems(2) p have e: "rng = rng'" "img = img'" by auto
    have "image_get rng (put_images (p # ps) v) = image_get rng (image_put rng' img' v)"
    proof (rule image_get_cong, rule ballI)
      fix b assume "b \<in> set rng"
      then have "b \<notin> set (concat (map fst ps))" using dis e(1) by blast
      then show "put_images (p # ps) v b = image_put rng' img' v b" unfolding p put_images_simps by (rule put_images_other)
    qed
    also have "\<dots> = img" using rng' e image_get_put by (auto simp: interval_def)
    finally show ?thesis .
  qed
qed simp

lemma put_images_load_other:
  "set rng \<inter> set (concat (map fst ps)) = {} \<Longrightarrow> image_get rng (put_images ps v) = image_get rng v"
  by (intro image_get_cong) (auto intro!: put_images_other)

lemma create_images_load:
  assumes "addressable sb" and "create_images sb a inodes entries = Inr ps" and "allocator_inv a"
    and "\<forall>i \<in> set inodes. inode_typed i" and "\<forall>e \<in> set entries. dirent_typed e"
  shows "load_allocator_disk sb (put_images ps v) = Inr a"
    and "load_inodes_disk sb (put_images ps v) = Inr (map canonical_inode inodes)"
    and "load_entries_disk sb (put_images ps v) = Inr entries"
proof -
  note g = addressable_geometry [OF assms(1)]
  from assms(2) obtain A I E where img: "allocator_image sb a = Inr A" "inode_encode_image sb inodes = Inr I"
    "directory_encode_image sb entries = Inr E" and ps: "ps = [(allocation_range sb, A), (inode_range sb, I), (directory_range sb, E)]"
    by (auto simp: create_images_def res_bind_Inr)
  have s: "snapshot sb ps" unfolding ps by (rule snapshotI(1) [OF g img])
  have "image_get (allocation_range sb) (put_images ps v) = A" "image_get (inode_range sb) (put_images ps v) = I"
    "image_get (directory_range sb) (put_images ps v) = E"
    by (rule put_images_get [OF s], simp add: ps)+
  then show "load_allocator_disk sb (put_images ps v) = Inr a"
    and "load_inodes_disk sb (put_images ps v) = Inr (map canonical_inode inodes)"
    and "load_entries_disk sb (put_images ps v) = Inr entries"
    using allocator_image_round_trip [OF g assms(3) img(1)] inode_decode_encode_image [OF img(2) assms(4)]
      directory_decode_encode_image [OF img(3) assms(5)]
    by (simp_all add: load_allocator_disk_def load_inodes_disk_def load_entries_disk_def)
qed

text \<open>A transaction that fails has not touched the device.\<close>

lemma snapshot_outcome_Inl:
  "snapshot_outcome sb settled evs_of images v = (Inl e, x, evs) \<Longrightarrow> x = v \<and> evs = []"
  by (auto simp: snapshot_outcome_def commit_outcome_def Let_def dest!: store_outcome_Inl
      split: sum.splits if_splits prod.splits)

lemma snapshot_crash:
  assumes a: "addressable sb" and n: "n = sb_total_blocks sb" and v: "disk_ok n v" and ps: "snapshot sb ps"
    and empty: "load_disk sb v = Inr []"
    and out: "snapshot_outcome sb recovered recovery_events (Inr ps) v = (Inr rep, x, evs)" and w: "w \<in> crash_disks v evs"
  shows "disk_ok n w" and "\<exists>fs. load_disk sb w = Inr fs \<and>
     (same_home sb (recovered fs w) v \<or> same_home sb (recovered fs w) (put_images ps v))"
proof -
  from out have o: "commit_outcome sb (image_changes ps v) recovered recovery_events v = (Inr rep, x, evs)"
    by (simp add: snapshot_outcome_def)
  note c = commit_crash_checkpoint [OF addressable_geometry [OF a] n v snapshot_changes(1) [OF addressable_geometry [OF a] ps] o w empty]
  show "disk_ok n w" by (rule c(1))
  show "\<exists>fs. load_disk sb w = Inr fs \<and> (same_home sb (recovered fs w) v \<or> same_home sb (recovered fs w) (put_images ps v))"
    using c(2) by (simp add: write_all_image_changes)
qed

lemma snapshot_crash_replay:
  assumes a: "addressable sb" and n: "n = sb_total_blocks sb" and v: "disk_ok n v" and ps: "snapshot sb ps"
    and empty: "load_disk sb v = Inr []"
    and out: "snapshot_outcome sb replayed replay_events (Inr ps) v = (Inr rep, x, evs)" and w: "w \<in> crash_disks v evs"
  shows "disk_ok n w" and "\<exists>fs. load_disk sb w = Inr fs \<and>
     (same_home sb (recovered fs w) v \<or> same_home sb (recovered fs w) (put_images ps v))"
proof -
  from out obtain x' us where o: "commit_outcome sb (image_changes ps v) recovered recovery_events v = (Inr rep, x', evs @ us)"
    by (auto simp: snapshot_outcome_def elim: commit_outcome_replay)
  have w': "w \<in> crash_disks v (evs @ us)" using w crash_disks_prefix by blast
  note c = commit_crash_checkpoint [OF addressable_geometry [OF a] n v snapshot_changes(1) [OF addressable_geometry [OF a] ps] o w' empty]
  show "disk_ok n w" by (rule c(1))
  show "\<exists>fs. load_disk sb w = Inr fs \<and> (same_home sb (recovered fs w) v \<or> same_home sb (recovered fs w) (put_images ps v))"
    using c(2) by (simp add: write_all_image_changes)
qed

text \<open>The disk a successful transaction leaves holds the wanted images at home.\<close>

lemma snapshot_success:
  assumes a: "addressable sb" and n: "n = sb_total_blocks sb" and v: "disk_ok n v" and ps: "snapshot sb ps"
    and out: "snapshot_outcome sb settled evs_of (Inr ps) v = (Inr rep, x, evs)"
    and settled: "settled = recovered \<or> settled = replayed"
  shows "same_home sb x (put_images ps v)"
proof (cases "image_changes ps v = []")
  case True
  with out have "x = v" by (simp add: snapshot_outcome_def commit_outcome_def)
  moreover have "v = put_images ps v" using write_all_image_changes [of v ps] True by simp
  ultimately show ?thesis by simp
next
  case False
  note g = addressable_geometry [OF a]
  have c: "check_region sb n = Inr ()" using geometry_check_region [OF g] n by simp
  note ok = transaction_entries_ok [OF snapshot_changes(1) [OF g ps, of v]]
  from out False obtain u y fs where o: "store_outcome sb (txn_entries (0, image_changes ps v)) v = (Inr u, y, fs)"
    and x: "x = settled (txn_entries (0, image_changes ps v)) y"
    by (auto simp: snapshot_outcome_def commit_outcome_def Let_def split: sum.splits prod.splits)
  have h: "same_home sb y v" by (rule store_outcome_Inr(4) [OF c v o ok])
  from settled show ?thesis
    using same_home_recovered [OF h geometry_okD(2) [OF g], of "image_changes ps v"] same_home_write_all [OF h, of "image_changes ps v"]
    by (auto simp: x replayed_def transaction_facts write_all_image_changes)
qed


section \<open>The allocator transaction\<close>

lemma take_rendered_range_ok:
  assumes "\<forall>b \<in> set rng. bt_get (cap_blocks cap) b = Some (t b)" and "distinct rng"
  shows "take_rendered_range rng cap ws =
     Inr (cap\<lparr>cap_blocks := filter (\<lambda>e. fst e \<notin> set rng) (cap_blocks cap)\<rparr>, ws @ map (\<lambda>b. (b, t b)) rng)"
  using assms
proof (induction rng arbitrary: cap ws)
  case (Cons b rng)
  let ?cap = "cap\<lparr>cap_blocks := bt_remove b (cap_blocks cap)\<rparr>"
  have "\<forall>c \<in> set rng. bt_get (cap_blocks ?cap) c = Some (t c)"
    using Cons.prems by (auto simp: bt_get_remove)
  note ih = Cons.IH [OF this]
  have "filter (\<lambda>e. fst e \<notin> set rng) (bt_remove b (cap_blocks cap)) = filter (\<lambda>e. fst e \<notin> set (b # rng)) (cap_blocks cap)"
    by (auto simp: bt_remove_def intro: filter_cong)
  with Cons.prems ih show ?case by (simp add: take_rendered_block_def)
qed simp

definition allocator_writes :: "superblock \<Rightarrow> byte list \<Rightarrow> block_write list" where
  "allocator_writes sb A = map (\<lambda>b. (b, image_put (allocation_range sb) A zero_disk b)) (allocation_range sb)"

lemma write_all_map: "write_all v (map (\<lambda>b. (b, t b)) rng) = (\<lambda>b. if b \<in> set rng then t b else v b)"
proof -
  have "write_all v (map (\<lambda>b. (b, t b)) rng) b = (if b \<in> set rng then t b else v b)" for b
  proof (induction rng arbitrary: v)
    case (Cons c rng)
    have "write_all v (map (\<lambda>b. (b, t b)) (c # rng)) b = write_all (v(c := t c)) (map (\<lambda>b. (b, t b)) rng) b" by simp
    also have "\<dots> = (if b \<in> set rng then t b else (v(c := t c)) b)" by (rule Cons.IH)
    finally show ?case by simp
  qed simp
  then show ?thesis by (rule ext)
qed

lemma write_all_allocator: "write_all v (allocator_writes sb A) = image_put (allocation_range sb) A v"
  unfolding allocator_writes_def write_all_map by (rule ext) (simp add: image_put_def)

lemma store_allocator_journaled_trace:
  assumes a: "addressable sb" and n: "n = sb_total_blocks sb" and v: "disk_ok n v"
    and out: "(case allocator_image sb al of Inl e \<Rightarrow> (Inl e, v, [])
      | Inr A \<Rightarrow> commit_outcome sb (allocator_writes sb A) replayed replay_events v) = (r, x, evs)"
  shows "store_allocator_journaled (trace_device n) sb al (v, tr) = (r, x, tr @ evs)"
proof (cases "allocator_image sb al")
  case (Inl e)
  with renders_allocator [OF a n, of al] out n show ?thesis
    by (simp add: store_allocator_journaled_def renders_def io_simps)
next
  case (Inr A)
  note g = addressable_geometry [OF a]
  note r = allocation_range_geometry [OF g]
  from Inr renders_allocator [OF a n, of al] obtain fs where
    fs: "render n (store_allocator capture_ops sb al) = Inr (captured n fs)" "event_writes fs = image_events (allocation_range sb) A"
    by (auto simp: renders_def)
  have blocks: "fst ` set (event_writes fs) = set (allocation_range sb)" using fs(2) image_events_blocks [OF r(2)] by simp
  have "\<forall>b \<in> set (allocation_range sb). bt_get (cap_blocks (captured n fs)) b = Some (image_put (allocation_range sb) A zero_disk b)"
    using bt_get_written [of "event_writes fs" _ zero_disk] blocks fs(2) write_all_image [OF r(1,2)] by simp
  from take_rendered_range_ok [OF this, of "[]"] r(1)
  have take: "take_rendered_range (allocation_range sb) (captured n fs) [] =
      Inr (captured n fs\<lparr>cap_blocks := filter (\<lambda>e. fst e \<notin> set (allocation_range sb)) (cap_blocks (captured n fs))\<rparr>, allocator_writes sb A)"
    by (simp add: allocator_writes_def)
  have "filter (\<lambda>e. fst e \<notin> set (allocation_range sb)) (cap_blocks (captured n fs)) = []"
    using blocks by (intro captured_filter_empty) simp
  then have empty: "ensure_empty (captured n fs\<lparr>cap_blocks := filter (\<lambda>e. fst e \<notin> set (allocation_range sb)) (cap_blocks (captured n fs))\<rparr>) = Inr ()"
    unfolding ensure_empty_def by simp
  have len: "length (allocator_writes sb A) = sb_allocation_blocks sb" "allocator_writes sb A \<noteq> []"
    using r(2,3) by (simp_all add: allocator_writes_def)
  from snapshotI(1) [OF g] obtain bm where "alloc_encode_image sb bm = Inr A" using Inr by (metis allocator_image_encoded)
  then have "snapshot sb [(allocation_range sb, A)]"
    using length_allocator_image r(3) regions_distinct(1) [OF g] region_intervals(1) [OF g] by (auto simp: snapshot_def)
  then have data: "\<forall>(b, d) \<in> set (allocator_writes sb A). b < U64_LIMIT \<and> length d = BLOCK_SIZE"
    using put_images_length [of "[(allocation_range sb, A)]" _ zero_disk] r(4) geometry_okD(10) [OF g]
    by (fastforce simp: allocator_writes_def snapshot_def)
  from out Inr have o: "commit_outcome sb (allocator_writes sb A) replayed replay_events v = (r, x, evs)" by simp
  from commit_replay_trace [OF g n v data o, of tr] len have
    "publish_and_recover recover_journal (trace_device n) sb (allocator_writes sb A) (v, tr) = (r, x, tr @ evs)"
    by (simp add: commit_changed_def)
  then show ?thesis
    using fs(1) take empty n len(1)
    by (simp add: store_allocator_journaled_def publish_and_recover_def io_simps)
qed

section \<open>The same on every reliable device\<close>

context device_sim
begin

lemmas tx_rules = sim_bind [OF sim_count] sim_if sim_fail sim_bind_lift sim_bind [OF sim_collect] sim_prod
  sim_commit_changed sim_recover_journal sim_recover_journal_and_checkpoint

lemma sim_store_create_metadata_journaled:
  "dev_sim P abst (\<lambda>_. True) (store_create_metadata_journaled D sb a is es) (store_create_metadata_journaled E sb a is es)"
  unfolding store_create_metadata_journaled_def by (rule tx_rules)+

lemma sim_store_inode_directory_tables_journaled:
  "dev_sim P abst (\<lambda>_. True) (store_inode_directory_tables_journaled D sb is es) (store_inode_directory_tables_journaled E sb is es)"
  unfolding store_inode_directory_tables_journaled_def by (rule tx_rules)+

lemma sim_store_inode_table_journaled:
  "dev_sim P abst (\<lambda>_. True) (store_inode_table_journaled D sb is) (store_inode_table_journaled E sb is)"
  unfolding store_inode_table_journaled_def by (rule tx_rules)+

lemma sim_store_directory_table_journaled:
  "dev_sim P abst (\<lambda>_. True) (store_directory_table_journaled D sb es) (store_directory_table_journaled E sb es)"
  unfolding store_directory_table_journaled_def by (rule tx_rules)+

lemma sim_store_allocator_journaled:
  "dev_sim P abst (\<lambda>_. True) (store_allocator_journaled D sb a) (store_allocator_journaled E sb a)"
  unfolding store_allocator_journaled_def
  by (rule tx_rules sim_seq [OF sim_store_journal_image] sim_bind [OF sim_recover_journal] sim_return TrueI)+

end

end
