(* ===== verification/Format_Device.thy ===== *)
theory Format_Device
  imports Metadata_Tx
begin

text \<open>
  Creating a filesystem: \<open>format_device\<close> of \<open>format.rs\<close>, the explicit geometries of
  \<open>format_geometry.rs\<close> and the capacity planners of \<open>format_capacity.rs\<close>. A formatted device
  reads back as an empty filesystem, whatever it held before; a planned capacity is enough for
  the records it was asked for.
\<close>

definition format_with :: "'d block_device \<Rightarrow> superblock \<Rightarrow> ('d, superblock) dev_io" where
  "format_with D sb =
     io_seq (initialize_journal_region D sb)
     (io_seq (initialize_allocation_region D sb)
     (io_seq (initialize_inode_table_region D sb)
     (io_seq (initialize_directory_table_region D sb)
     (io_seq (write_block D SUPERBLOCK_BLOCK (superblock_encode sb))
     (io_seq (flush D)
     (io_return sb))))))"

definition format_device :: "'d block_device \<Rightarrow> ('d, superblock) dev_io" where
  "format_device D =
     io_bind (io_count D) (\<lambda>count.
     io_bind (io_lift (superblock_new count)) (\<lambda>sb.
     format_with D sb))"

definition format_device_with_metadata_blocks :: "'d block_device \<Rightarrow> u64 \<Rightarrow> u64 \<Rightarrow> u64 \<Rightarrow> ('d, superblock) dev_io" where
  "format_device_with_metadata_blocks D journal inode directory =
     io_bind (io_count D) (\<lambda>count.
     io_bind (io_lift (with_all_metadata_blocks count journal inode directory)) (\<lambda>sb.
     format_with D sb))"

definition format_device_with_journal_blocks :: "'d block_device \<Rightarrow> u64 \<Rightarrow> ('d, superblock) dev_io" where
  "format_device_with_journal_blocks D journal =
     io_bind (io_count D) (\<lambda>count.
     io_bind (io_lift (with_journal_blocks count journal)) (\<lambda>defaults.
     format_device_with_metadata_blocks D journal (sb_inode_blocks defaults) (sb_directory_blocks defaults)))"

definition blocks_for_bytes :: "nat \<Rightarrow> u64 io_result" where
  "blocks_for_bytes bytes =
     res_bind (ok_or InvalidInput (checked_add bytes (BLOCK_SIZE - 1))) (\<lambda>rounded. Inr (rounded div BLOCK_SIZE))"

definition inode_capacity_blocks :: "nat \<Rightarrow> u64 io_result" where
  "inode_capacity_blocks inode_capacity =
     (if inode_capacity = 0 then Inl InvalidInput
      else res_bind (ok_or InvalidInput (Option.bind (checked_mul inode_capacity RECORD_HEADER_LEN)
          (\<lambda>bytes. checked_add bytes TABLE_HEADER_LEN))) blocks_for_bytes)"

definition format_device_for_blockless_inode_capacity :: "'d block_device \<Rightarrow> u64 \<Rightarrow> nat \<Rightarrow> ('d, superblock) dev_io" where
  "format_device_for_blockless_inode_capacity D journal inode_capacity =
     io_bind (io_lift (inode_capacity_blocks inode_capacity)) (\<lambda>inode_blocks.
     format_device_with_metadata_blocks D journal inode_blocks DEFAULT_DIRECTORY_BLOCKS)"

definition directory_capacity_blocks :: "nat \<Rightarrow> nat \<Rightarrow> u64 io_result" where
  "directory_capacity_blocks entry_capacity max_name_bytes =
     (if entry_capacity = 0 then Inl InvalidInput
      else if max_name_bytes = 0 \<or> max_name_bytes > DIRECTORY_NAME_MAX_BYTES then Inl InvalidInput
      else
      res_bind (ok_or InvalidInput (checked_add DIRECTORY_ENTRY_HEADER_LEN max_name_bytes)) (\<lambda>record_bytes.
      res_bind (ok_or InvalidInput (Option.bind (checked_mul entry_capacity record_bytes)
          (\<lambda>bytes. checked_add bytes TABLE_HEADER_LEN))) blocks_for_bytes))"

definition format_device_for_directory_capacity :: "'d block_device \<Rightarrow> u64 \<Rightarrow> nat \<Rightarrow> nat \<Rightarrow> ('d, superblock) dev_io" where
  "format_device_for_directory_capacity D journal entry_capacity max_name_bytes =
     io_bind (io_lift (directory_capacity_blocks entry_capacity max_name_bytes)) (\<lambda>directory_blocks.
     format_device_with_metadata_blocks D journal DEFAULT_INODE_BLOCKS directory_blocks)"

section \<open>The images of an empty filesystem\<close>

lemma empty_bitmap_image:
  assumes "addressable sb"
  obtains A where "alloc_encode_image sb (zeroes ((sb_total_blocks sb + 7) div 8)) = Inr A"
proof -
  note g = addressable_geometry [OF assms]
  let ?z = "zeroes ((sb_total_blocks sb + 7) div 8)"
  have "required_allocation_blocks (sb_total_blocks sb) = Inr (sb_allocation_blocks sb)"
    using g by (simp add: geometry_ok_def)
  from required_allocation_blocks_Inr(3) [OF this]
  have fit: "32 + length ?z \<le> sb_allocation_blocks sb * BLOCK_SIZE" by simp
  have cap: "region_len (sb_allocation_blocks sb) = Inr (sb_allocation_blocks sb * BLOCK_SIZE)"
    "sb_allocation_blocks sb * BLOCK_SIZE < U64_LIMIT"
    using addressable_region_len [OF assms, of "sb_allocation_blocks sb"] geometry_okD [OF g] by auto
  have add: "checked_add 32 (length ?z) = Some (32 + length ?z)"
    using le_less_trans [OF fit cap(2)] by (simp only: checked_add_Some simp_thms)
  have "validate_bitmap_bits ?z sb = Inr ()" using validate_bitmap_bits_iff [OF g, of ?z] by simp
  with cap fit add bitmap_len_ok(1) [OF g] show thesis
    by (intro that [of "put_fields (allocation_fields ?z) (zeroes (sb_allocation_blocks sb * BLOCK_SIZE))"])
      (simp add: alloc_encode_image_def ALLOCATION_HEADER_LEN_def ALLOCATION_IMAGE_HEADER_LEN_def del: checked_add_Some)
qed

lemma empty_table_image:
  assumes "region_len blocks = Inr (blocks * BLOCK_SIZE)" and "0 < blocks"
  shows "\<exists>img. encode_table magic ver enc key blocks [] = Inr img"
proof -
  have "32 \<le> blocks * BLOCK_SIZE" using assms(2) by (cases blocks) (simp_all add: BLOCK_SIZE_def)
  then show ?thesis
    by (simp add: encode_table_def assms(1) TABLE_HEADER_LEN_def checked_add_def Let_def)
qed

definition empty_allocator :: "superblock \<Rightarrow> block_allocator" where
  "empty_allocator sb = \<lparr>al_total_blocks = sb_total_blocks sb, al_reserved_blocks = reserved_blocks sb,
     al_allocated = replicate (sb_total_blocks sb) False, al_allocated_blocks = 0\<rparr>"

lemma empty_allocator_inv:
  assumes "geometry_ok sb"
  shows "allocator_inv (empty_allocator sb)" and "owned_blocks (empty_allocator sb) = {}"
    and "allocator_new (sb_total_blocks sb) (reserved_blocks sb) = Inr (empty_allocator sb)"
proof -
  show n: "allocator_new (sb_total_blocks sb) (reserved_blocks sb) = Inr (empty_allocator sb)"
    using geometry_order(5) [OF assms] by (simp add: allocator_new_def empty_allocator_def)
  show "allocator_inv (empty_allocator sb)" and "owned_blocks (empty_allocator sb) = {}"
    using allocator_new_inv [OF n] geometry_okD(10) [OF assms] by auto
qed

lemma empty_bitmap_load:
  assumes "geometry_ok sb" and "alloc_encode_image sb (zeroes ((sb_total_blocks sb + 7) div 8)) = Inr A"
  shows "allocator_from_image sb A = Inr (empty_allocator sb)"
proof -
  obtain a where a: "allocator_from_bitmap sb (zeroes ((sb_total_blocks sb + 7) div 8)) = Inr a" "allocator_inv a"
    "owned_blocks a = {}" "al_total_blocks a = sb_total_blocks sb" "al_reserved_blocks a = reserved_blocks sb"
    by (rule allocator_from_bitmap_ok [OF assms(1), of "zeroes ((sb_total_blocks sb + 7) div 8)"]) auto
  have "a = empty_allocator sb"
    by (rule allocator_eqI) (use a empty_allocator_inv [OF assms(1)] in \<open>simp_all add: empty_allocator_def\<close>)
  with a(1) alloc_decode_encode_image [OF assms(2)] show ?thesis by (simp add: allocator_from_image_def)
qed

section \<open>Formatting\<close>

text \<open>What a disk holds when it is a freshly formatted filesystem.\<close>

definition fresh_filesystem :: "superblock \<Rightarrow> disk \<Rightarrow> bool" where
  "fresh_filesystem sb v \<longleftrightarrow> v 0 = superblock_encode sb \<and> load_disk sb v = Inr [] \<and>
     load_allocator_disk sb v = Inr (empty_allocator sb) \<and> load_inodes_disk sb v = Inr [] \<and> load_entries_disk sb v = Inr []"

lemma format_with_trace:
  assumes a: "addressable sb" and n: "n = sb_total_blocks sb"
  obtains w ws where "\<And>v tr. format_with (trace_device n) sb (v, tr)
      = (Inr sb, w v, tr @ write_events ws @ [WriteEv 0 (superblock_encode sb), FlushEv])"
    and "\<And>v. fresh_filesystem sb (w v)" and "\<And>v. disk_ok n v \<Longrightarrow> disk_ok n (w v)"
    and "\<And>v b. reserved_blocks sb \<le> b \<Longrightarrow> w v b = v b"
proof -
  note g = addressable_geometry [OF a]
  have c: "check_region sb n = Inr ()" using geometry_check_region [OF g] n by simp
  have rl: "region_len k = Inr (k * BLOCK_SIZE)" if "k \<le> sb_total_blocks sb" for k
    using addressable_region_len(1) [OF a that] .
  obtain A where A: "alloc_encode_image sb (zeroes ((sb_total_blocks sb + 7) div 8)) = Inr A"
    using empty_bitmap_image [OF a] .
  obtain I where I: "inode_encode_image sb [] = Inr I"
    using empty_table_image [OF rl, of "sb_inode_blocks sb" INODE_TABLE_MAGIC INODE_TABLE_VERSION encode_inode pi_id]
      geometry_okD [OF g] by (auto simp: inode_encode_image_def)
  obtain E where E: "directory_encode_image sb [] = Inr E"
    using empty_table_image [OF rl, of "sb_directory_blocks sb" DIRECTORY_TABLE_MAGIC DIRECTORY_TABLE_VERSION
        encode_directory_entry dirent_key] geometry_okD [OF g] by (auto simp: directory_encode_image_def)
  let ?ps = "[(allocation_range sb, A), (inode_range sb, I), (directory_range sb, E)]"
  let ?w = "\<lambda>v. (put_images ?ps (v(1 := empty_anchor_block)))(0 := superblock_encode sb)"
  let ?ws = "(1, empty_anchor_block) # images_writes ?ps"
  have s: "snapshot sb ?ps"
    using regions_distinct(1) [OF g] region_intervals [OF g] length_inode_image [OF I] length_directory_image [OF E]
      length_allocator_image [OF A] allocation_range_geometry(3) [OF g] inode_range_geometry(3) [OF g] directory_range_geometry(3) [OF g]
    by (auto simp: snapshot_def)
  have low: "b \<notin> set (concat (map fst ?ps))" if "b < 1 + sb_journal_blocks sb \<or> reserved_blocks sb \<le> b" for b
    using that geometry_ranges [OF g] geometry_order [OF g] geometry_okD(6) [OF g] by auto
  have get: "image_get rng (?w v) = img" if "(rng, img) \<in> set ?ps" for rng img v
  proof -
    have "0 \<notin> set rng" using that low [of 0] by auto
    then have "image_get rng (?w v) = image_get rng (put_images ?ps (v(1 := empty_anchor_block)))"
      by (intro image_get_cong) auto
    then show ?thesis using put_images_get [OF s that] by simp
  qed
  have "image_get (allocation_range sb) (?w v) = A" "image_get (inode_range sb) (?w v) = I"
    "image_get (directory_range sb) (?w v) = E" for v by (rule get, simp)+
  moreover have "?w v 1 = empty_anchor_block" for v
    using put_images_other [OF low [of 1], of "v(1 := empty_anchor_block)"] geometry_okD(2) [OF g] by simp
  ultimately have fresh: "fresh_filesystem sb (?w v)" for v
    using empty_bitmap_load [OF g A] inode_decode_encode_image [OF I] directory_decode_encode_image [OF E]
      load_disk_empty [of "?w v" sb] geometry_okD(1) [OF g]
    by (simp add: fresh_filesystem_def load_allocator_disk_def load_inodes_disk_def load_entries_disk_def)
  have run: "format_with (trace_device n) sb (v, tr)
      = (Inr sb, ?w v, tr @ write_events ?ws @ [WriteEv 0 (superblock_encode sb), FlushEv])" for v tr
    using c n A I E alloc_validate_ok [of "trace_device n" _ sb] inode_validate_ok [OF g, of "trace_device n"]
      directory_validate_ok [OF g, of "trace_device n"] bitmap_len_ok(1) [OF g] geometry_okD(10) [OF g]
      write_allocator_image_trace [OF a n A] write_inode_image_trace [OF a n I] write_directory_image_trace [OF a n E]
    by (simp add: format_with_def initialize_journal_region_def validate_region_def check_region_Inr
        initialize_allocation_region_def initialize_inode_table_region_def initialize_directory_table_region_def
        io_simps SUPERBLOCK_BLOCK_def)
  have len: "disk_ok n (?w v)" if "disk_ok n v" for v
  proof (unfold disk_ok_def, intro allI impI)
    fix b assume "b < n"
    then show "length (?w v b) = BLOCK_SIZE"
      using that put_images_length [of ?ps b] s put_images_other [of b ?ps "v(1 := empty_anchor_block)"]
      by (cases "b \<in> set (concat (map fst ?ps))") (auto simp: disk_ok_def snapshot_def)
  qed
  have out: "?w v b = v b" if "reserved_blocks sb \<le> b" for v b
    using put_images_other [OF low, of b "v(1 := empty_anchor_block)"] that geometry_order [OF g] by simp
  show thesis by (rule that [OF run fresh len out])
qed

section \<open>Capacity planning\<close>

lemma blocks_for_bytes_Inr:
  assumes "blocks_for_bytes bytes = Inr k"
  shows "bytes \<le> k * BLOCK_SIZE" and "k * BLOCK_SIZE < bytes + BLOCK_SIZE"
proof -
  from assms have k: "k = (bytes + 4095) div 4096" by (auto simp: blocks_for_bytes_def res_bind_Inr BLOCK_SIZE_def)
  show "bytes \<le> k * BLOCK_SIZE" and "k * BLOCK_SIZE < bytes + BLOCK_SIZE" unfolding k BLOCK_SIZE_def by simp_all
qed

lemma inode_capacity_Inr:
  "inode_capacity_blocks k = Inr blocks \<Longrightarrow> 32 + k * 40 \<le> blocks * BLOCK_SIZE"
  by (auto simp: inode_capacity_blocks_def res_bind_Inr RECORD_HEADER_LEN_def TABLE_HEADER_LEN_def
      dest!: blocks_for_bytes_Inr(1) split: if_splits Option.bind_splits)

lemma directory_capacity_Inr:
  "directory_capacity_blocks k m = Inr blocks \<Longrightarrow> 32 + k * (40 + m) \<le> blocks * BLOCK_SIZE"
  by (auto simp: directory_capacity_blocks_def res_bind_Inr DIRECTORY_ENTRY_HEADER_LEN_def TABLE_HEADER_LEN_def
      dest!: blocks_for_bytes_Inr(1) split: if_splits Option.bind_splits)

section \<open>The same on every reliable device\<close>

context device_sim
begin

lemma sim_format_with: "dev_sim P abst (\<lambda>_. True) (format_with D sb) (format_with E sb)"
  unfolding format_with_def initialize_journal_region_def initialize_allocation_region_def initialize_inode_table_region_def
    initialize_directory_table_region_def alloc_validate_geometry_def inode_validate_geometry_def directory_validate_geometry_def
    alloc_write_region_def inode_write_region_def directory_write_region_def
  by (rule sim_seq [where Q = "\<lambda>_. True"] sim_validate_region sim_write_region write_rules
      | (simp add: length_wrapped_range [simplified] allocation_range_def inode_range_def directory_range_def; fail))+

lemma sim_format_device: "dev_sim P abst (\<lambda>_. True) (format_device D) (format_device E)"
  unfolding format_device_def by (rule sim_bind [OF sim_count] sim_bind_lift sim_format_with)+

lemma sim_format_device_with_metadata_blocks:
  "dev_sim P abst (\<lambda>_. True) (format_device_with_metadata_blocks D j i k) (format_device_with_metadata_blocks E j i k)"
  unfolding format_device_with_metadata_blocks_def by (rule sim_bind [OF sim_count] sim_bind_lift sim_format_with)+

end

end
