(* ===== verification/Symlink.thy ===== *)
theory Symlink
  imports Metadata_Tx
begin

text \<open>
  Symbolic links, \<open>symlink.rs\<close>: the one-block and the multi-block target payloads, reading and
  validating a link, and the transaction that creates one. The payload codec is exact: a target
  that can be encoded is read back unchanged.
\<close>

definition SYMLINK_V1_MAGIC :: "byte list" where "SYMLINK_V1_MAGIC = ascii ''SYM1''"
definition SYMLINK_V1_VERSION :: nat where "SYMLINK_V1_VERSION = 1"
definition SYMLINK_V1_HEADER_LEN :: nat where "SYMLINK_V1_HEADER_LEN = 12"
definition SYMLINK_V1_CRC_OFFSET :: nat where "SYMLINK_V1_CRC_OFFSET = 8"
definition SYMLINK_V1_MAX_TARGET_LEN :: nat where "SYMLINK_V1_MAX_TARGET_LEN = BLOCK_SIZE - SYMLINK_V1_HEADER_LEN"
definition SYMLINK_V2_MAGIC :: "byte list" where "SYMLINK_V2_MAGIC = ascii ''SYM2''"
definition SYMLINK_V2_VERSION :: nat where "SYMLINK_V2_VERSION = 1"
definition SYMLINK_V2_HEADER_LEN :: nat where "SYMLINK_V2_HEADER_LEN = 16"
definition SYMLINK_V2_LEN_OFFSET :: nat where "SYMLINK_V2_LEN_OFFSET = 8"
definition SYMLINK_V2_CRC_OFFSET :: nat where "SYMLINK_V2_CRC_OFFSET = 12"
definition MAX_SYMLINK_TARGET_BLOCKS :: nat where "MAX_SYMLINK_TARGET_BLOCKS = 8"
definition MAX_SYMLINK_TARGET_LEN :: nat where
  "MAX_SYMLINK_TARGET_LEN = MAX_SYMLINK_TARGET_BLOCKS * BLOCK_SIZE - SYMLINK_V2_HEADER_LEN"

section \<open>The payload\<close>

definition div_ceil :: "nat \<Rightarrow> nat \<Rightarrow> nat" where
  "div_ceil a b = (a + b - 1) div b"

definition decode_utf8 :: "byte list \<Rightarrow> byte list io_result" where
  "decode_utf8 bs = (if utf8_valid bs then Inr bs else Inl InvalidData)"

definition encode_v1_target :: "byte list \<Rightarrow> byte list io_result" where
  "encode_v1_target target =
     (if \<not> length target < U16_LIMIT then Inl InvalidInput else
      let img = put_fields [(0, SYMLINK_V1_MAGIC), (4, le_bytes 2 SYMLINK_V1_VERSION), (6, le_bytes 2 (length target)),
                  (SYMLINK_V1_HEADER_LEN, target)] (zeroes BLOCK_SIZE);
          crc = crc32_skip SYMLINK_V1_CRC_OFFSET img in
      Inr (put_bytes SYMLINK_V1_CRC_OFFSET (le_bytes 4 (unat crc)) img))"

definition encode_target_blocks :: "byte list \<Rightarrow> byte list list io_result" where
  "encode_target_blocks target =
     (if target = [] then Inl InvalidInput
      else if length target \<le> SYMLINK_V1_MAX_TARGET_LEN then res_bind (encode_v1_target target) (\<lambda>img. Inr [img])
      else if length target > MAX_SYMLINK_TARGET_LEN then Inl InvalidInput
      else if \<not> length target < U32_LIMIT then Inl InvalidInput
      else
      res_bind (ok_or InvalidInput (checked_add SYMLINK_V2_HEADER_LEN (length target))) (\<lambda>encoded_len.
      let block_count = div_ceil encoded_len BLOCK_SIZE in
      if block_count > MAX_SYMLINK_TARGET_BLOCKS then Inl InvalidInput
      else
        let bytes = put_fields [(0, SYMLINK_V2_MAGIC), (4, le_bytes 2 SYMLINK_V2_VERSION),
                      (SYMLINK_V2_LEN_OFFSET, le_bytes 4 (length target)), (SYMLINK_V2_HEADER_LEN, target),
                      (SYMLINK_V2_CRC_OFFSET, le_bytes 4 (unat (crc32 target)))] (zeroes (block_count * BLOCK_SIZE)) in
        Inr (map (\<lambda>i. get_bytes (i * BLOCK_SIZE) BLOCK_SIZE bytes) [0..<block_count])))"

definition decode_v1_target :: "byte list \<Rightarrow> byte list io_result" where
  "decode_v1_target img =
     (if get_bytes 0 4 img \<noteq> SYMLINK_V1_MAGIC then Inl InvalidData
      else if read_u16 img 4 \<noteq> SYMLINK_V1_VERSION then Inl InvalidData
      else
        let len = read_u16 img 6 in
        if len = 0 \<or> len > SYMLINK_V1_MAX_TARGET_LEN then Inl InvalidData
        else if read_u32 img 8 \<noteq> unat (crc32_skip SYMLINK_V1_CRC_OFFSET img) then Inl InvalidData
        else if \<not> all_zero (drop (SYMLINK_V1_HEADER_LEN + len) img) then Inl InvalidData
        else decode_utf8 (get_bytes SYMLINK_V1_HEADER_LEN len img))"

definition decode_v2_target :: "byte list list \<Rightarrow> byte list io_result" where
  "decode_v2_target images =
     (let first = hd images in
      if read_u16 first 4 \<noteq> SYMLINK_V2_VERSION then Inl InvalidData
      else if \<not> all_zero (get_bytes 6 2 first) then Inl InvalidData
      else
        let len = read_u32 first 8 in
        if len \<le> SYMLINK_V1_MAX_TARGET_LEN \<or> len > MAX_SYMLINK_TARGET_LEN then Inl InvalidData
        else
        res_bind (ok_or InvalidData (checked_add SYMLINK_V2_HEADER_LEN len)) (\<lambda>encoded_len.
        if div_ceil encoded_len BLOCK_SIZE \<noteq> length images then Inl InvalidData
        else
          let bytes = concat images in
          if \<not> all_zero (drop encoded_len bytes) then Inl InvalidData
          else
            let target = get_bytes SYMLINK_V2_HEADER_LEN (encoded_len - SYMLINK_V2_HEADER_LEN) bytes in
            if read_u32 first 12 \<noteq> unat (crc32 target) then Inl InvalidData
            else decode_utf8 target))"

definition decode_target_images :: "byte list list \<Rightarrow> byte list io_result" where
  "decode_target_images images =
     (if get_bytes 0 4 (hd images) = SYMLINK_V1_MAGIC then
        (if length images \<noteq> 1 then Inl InvalidData else decode_v1_target (hd images))
      else if get_bytes 0 4 (hd images) = SYMLINK_V2_MAGIC then decode_v2_target images
      else Inl InvalidData)"

section \<open>Reading\<close>

definition read_symlink_inode :: "'d block_device \<Rightarrow> persisted_inode \<Rightarrow> ('d, byte list) dev_io" where
  "read_symlink_inode D inode =
     (if pi_blocks inode = [] then io_fail InvalidData
      else if length (pi_blocks inode) > MAX_SYMLINK_TARGET_BLOCKS then io_fail InvalidData
      else
      io_bind (io_map (pi_blocks inode) (\<lambda>block. read_block D block)) (\<lambda>images.
      io_lift (decode_target_images images)))"

definition find_inode :: "persisted_inode list \<Rightarrow> u64 \<Rightarrow> persisted_inode option" where
  "find_inode inodes ino = find (\<lambda>inode. pi_id inode = ino) inodes"

definition read_symlink :: "'d block_device \<Rightarrow> superblock \<Rightarrow> u64 \<Rightarrow> ('d, byte list) dev_io" where
  "read_symlink D sb ino =
     io_bind (load_inode_table D sb) (\<lambda>inodes.
     io_bind (io_lift (ok_or InvalidInput (find_inode inodes ino))) (\<lambda>inode.
     if pi_kind inode \<noteq> Symlink then io_fail InvalidInput
     else read_symlink_inode D inode))"

definition validate_symlink_inode :: "'d block_device \<Rightarrow> persisted_inode \<Rightarrow> ('d, unit) dev_io" where
  "validate_symlink_inode D inode =
     (if pi_kind inode \<noteq> Symlink then io_return ()
      else io_bind (read_symlink_inode D inode) (\<lambda>_. io_return ()))"

section \<open>Creating a link\<close>

definition validate_destination :: "persisted_inode list \<Rightarrow> directory_entry list \<Rightarrow> u64 \<Rightarrow> byte list \<Rightarrow> unit io_result" where
  "validate_destination inodes entries parent name =
     res_bind (ok_or InvalidInput (find_inode inodes parent)) (\<lambda>parent_inode.
     if pi_kind parent_inode \<noteq> Directory then Inl InvalidInput
     else if list_ex (\<lambda>e. de_parent e = parent \<and> de_name e = name) entries then Inl InvalidInput
     else Inr ())"

definition next_inode_id :: "persisted_inode list \<Rightarrow> u64 io_result" where
  "next_inode_id inodes = ok_or InvalidInput (checked_add (foldr max (map pi_id inodes) 0) 1)"

definition collect_metadata_changes ::
    "'d block_device \<Rightarrow> superblock \<Rightarrow> block_allocator \<Rightarrow> persisted_inode list \<Rightarrow> directory_entry list \<Rightarrow> ('d, block_write list) dev_io" where
  "collect_metadata_changes D sb allocator inodes entries =
     io_bind (io_lift (render (sb_total_blocks sb)
       (io_seq (store_allocator capture_ops sb allocator)
       (io_seq (store_inode_table capture_ops sb inodes)
       (store_directory_table capture_ops sb entries))))) (\<lambda>capture.
     io_bind (collect_changed_range D (allocation_range sb) capture []) (\<lambda>(capture, changed).
     io_bind (collect_changed_range D (inode_range sb) capture changed) (\<lambda>(capture, changed).
     io_bind (collect_changed_range D (directory_range sb) capture changed) (\<lambda>(capture, changed).
     io_bind (io_lift (ensure_empty capture)) (\<lambda>_.
     io_return changed)))))"

fun allocate_blocks :: "nat \<Rightarrow> block_allocator \<Rightarrow> (u64 list \<times> block_allocator) io_result" where
  "allocate_blocks 0 a = Inr ([], a)"
| "allocate_blocks (Suc n) a =
     res_bind (map_err (\<lambda>_. InvalidInput) (allocate a)) (\<lambda>(block, a').
     res_bind (allocate_blocks n a') (\<lambda>(blocks, a'').
     Inr (block # blocks, a'')))"

definition create_symlink_journaled ::
    "'d block_device \<Rightarrow> superblock \<Rightarrow> u64 \<Rightarrow> byte list \<Rightarrow> byte list \<Rightarrow> ('d, u64 \<times> recovery_report) dev_io" where
  "create_symlink_journaled D sb parent name target =
     io_bind (io_lift (encode_target_blocks target)) (\<lambda>target_images.
     io_bind (load_allocator D sb) (\<lambda>allocator.
     io_bind (load_inode_table D sb) (\<lambda>inodes.
     io_bind (load_directory_table D sb) (\<lambda>entries.
     io_bind (io_lift (validate_destination inodes entries parent name)) (\<lambda>_.
     io_bind (io_lift (next_inode_id inodes)) (\<lambda>ino.
     io_bind (io_lift (allocate_blocks (length target_images) allocator)) (\<lambda>(blocks, allocator').
     io_bind (io_lift (persisted_inode_new ino Symlink blocks)) (\<lambda>inode.
     io_bind (collect_metadata_changes D sb allocator' (inodes @ [inode])
       (entries @ [\<lparr>de_parent = parent, de_target = ino, de_name = name\<rparr>])) (\<lambda>metadata.
     let changed = metadata @ zip blocks target_images in
     io_bind (publish_and_recover recover_journal_and_checkpoint D sb changed) (\<lambda>report.
     io_return (ino, report)))))))))))"

section \<open>The payload round trip\<close>

lemma length_symlink_magics [simp]: "length SYMLINK_V1_MAGIC = 4" "length SYMLINK_V2_MAGIC = 4"
  "SYMLINK_V1_MAGIC \<noteq> SYMLINK_V2_MAGIC" "SYMLINK_V2_MAGIC \<noteq> SYMLINK_V1_MAGIC"
  by (simp_all add: SYMLINK_V1_MAGIC_def SYMLINK_V2_MAGIC_def ascii_def)

definition v1_layout :: "byte list \<Rightarrow> byte list \<Rightarrow> byte list" where
  "v1_layout target c = SYMLINK_V1_MAGIC @ le_bytes 2 1 @ le_bytes 2 (length target) @ c @ target @ zeroes (BLOCK_SIZE - 12 - length target)"

lemma v1_layout_get:
  assumes "length c = 4" and "length target \<le> BLOCK_SIZE - 12"
  shows "get_bytes 0 4 (v1_layout target c) = SYMLINK_V1_MAGIC" "get_bytes 4 2 (v1_layout target c) = le_bytes 2 1"
    "get_bytes 6 2 (v1_layout target c) = le_bytes 2 (length target)" "get_bytes 8 4 (v1_layout target c) = c"
    "get_bytes 12 (length target) (v1_layout target c) = target"
    "drop (12 + length target) (v1_layout target c) = zeroes (BLOCK_SIZE - 12 - length target)"
    "length (v1_layout target c) = BLOCK_SIZE"
    "length d = 4 \<Longrightarrow> put_bytes 8 d (v1_layout target c) = v1_layout target d"
  using assms by (simp_all add: v1_layout_def get_bytes_def put_bytes_def zeroes_def BLOCK_SIZE_def)

lemma v1_unsealed:
  assumes "length target \<le> BLOCK_SIZE - 12"
  shows "put_fields [(0, SYMLINK_V1_MAGIC), (4, le_bytes 2 1), (6, le_bytes 2 (length target)), (12, target)] (zeroes BLOCK_SIZE)
     = v1_layout target (zeroes 4)"
proof -
  have "put_fields [(0, SYMLINK_V1_MAGIC), (4, le_bytes 2 1), (6, le_bytes 2 (length target))] ([] @ zeroes BLOCK_SIZE)
      = SYMLINK_V1_MAGIC @ le_bytes 2 1 @ le_bytes 2 (length target) @ zeroes (BLOCK_SIZE - 8)"
    by (subst put_fields_contiguous) (simp_all add: BLOCK_SIZE_def)
  then have h: "put_bytes 6 (le_bytes 2 (length target)) (put_bytes 4 (le_bytes 2 1) (put_bytes 0 SYMLINK_V1_MAGIC (zeroes BLOCK_SIZE)))
      = (SYMLINK_V1_MAGIC @ le_bytes 2 1 @ le_bytes 2 (length target) @ zeroes 4) @ zeroes (BLOCK_SIZE - 12)"
    by (simp add: BLOCK_SIZE_def)
  show ?thesis
    unfolding put_fields_simps h using assms
    by (simp add: put_bytes_def v1_layout_def) (simp add: zeroes_def)
qed

lemma v1_round_trip:
  assumes "target \<noteq> []" and "length target \<le> SYMLINK_V1_MAX_TARGET_LEN" and "utf8_valid target"
    and "encode_v1_target target = Inr img"
  shows "decode_v1_target img = Inr target" and "length img = BLOCK_SIZE" and "get_bytes 0 4 img = SYMLINK_V1_MAGIC"
proof -
  have len: "length target \<le> BLOCK_SIZE - 12" and u16: "length target < U16_LIMIT"
    using assms(2) by (simp_all add: SYMLINK_V1_MAX_TARGET_LEN_def SYMLINK_V1_HEADER_LEN_def BLOCK_SIZE_def)
  let ?c = "le_bytes 4 (unat (crc32_skip 8 (v1_layout target (zeroes 4))))"
  note z = v1_layout_get [OF length_zeroes len] and c = v1_layout_get [OF length_le_bytes len]
  have img: "img = v1_layout target ?c"
    using assms(4) u16 v1_unsealed [OF len] z(8) [OF length_le_bytes]
    by (simp add: encode_v1_target_def SYMLINK_V1_VERSION_def SYMLINK_V1_HEADER_LEN_def SYMLINK_V1_CRC_OFFSET_def Let_def)
  have "v1_layout target ?c = put_bytes 8 ?c (v1_layout target (zeroes 4))" by (rule z(8) [symmetric]) simp
  then have "crc32_skip 8 (v1_layout target ?c) = crc32_skip 8 (v1_layout target (zeroes 4))"
    using z(7) by (simp add: crc32_skip_put BLOCK_SIZE_def)
  with c assms(1,3) u16 len show "decode_v1_target img = Inr target"
    unfolding img
    by (simp add: decode_v1_target_def read_defs SYMLINK_V1_VERSION_def SYMLINK_V1_HEADER_LEN_def
        SYMLINK_V1_CRC_OFFSET_def SYMLINK_V1_MAX_TARGET_LEN_def Let_def decode_utf8_def)
  show "length img = BLOCK_SIZE" and "get_bytes 0 4 img = SYMLINK_V1_MAGIC" unfolding img using c by simp_all
qed


definition symlink_v2_layout :: "byte list \<Rightarrow> nat \<Rightarrow> byte list" where
  "symlink_v2_layout target sz =
     SYMLINK_V2_MAGIC @ le_bytes 2 1 @ zeroes 2 @ le_bytes 4 (length target) @ le_bytes 4 (unat (crc32 target)) @ target @
     zeroes (sz - 16 - length target)"

lemma symlink_v2_layout_get:
  assumes "16 + length target \<le> sz"
  shows "get_bytes 0 4 (symlink_v2_layout target sz) = SYMLINK_V2_MAGIC"
    "get_bytes 4 2 (symlink_v2_layout target sz) = le_bytes 2 1"
    "get_bytes 6 2 (symlink_v2_layout target sz) = zeroes 2"
    "get_bytes 8 4 (symlink_v2_layout target sz) = le_bytes 4 (length target)"
    "get_bytes 12 4 (symlink_v2_layout target sz) = le_bytes 4 (unat (crc32 target))"
    "get_bytes 16 (length target) (symlink_v2_layout target sz) = target"
    "drop (16 + length target) (symlink_v2_layout target sz) = zeroes (sz - 16 - length target)"
    "length (symlink_v2_layout target sz) = sz"
  using assms by (simp_all add: symlink_v2_layout_def get_bytes_def zeroes_def)

lemma symlink_v2_fields:
  assumes "16 + length target \<le> sz"
  shows "put_fields [(0, SYMLINK_V2_MAGIC), (4, le_bytes 2 1), (8, le_bytes 4 (length target)), (16, target),
      (12, le_bytes 4 (unat (crc32 target)))] (zeroes sz) = symlink_v2_layout target sz"
proof -
  let ?h = "[(0, SYMLINK_V2_MAGIC), (4, le_bytes 2 1), (6, zeroes 2), (8, le_bytes 4 (length target)), (12, zeroes 4), (16, target)]"
  let ?x = "SYMLINK_V2_MAGIC @ le_bytes 2 1 @ zeroes 2 @ le_bytes 4 (length target) @ zeroes 4 @ target @ zeroes (sz - 16 - length target)"
  let ?f = "[(0, SYMLINK_V2_MAGIC), (4, le_bytes 2 1), (8, le_bytes 4 (length target)), (16, target)]"
  have "put_fields ?h ([] @ zeroes sz) = ?x" using assms by (subst put_fields_contiguous) simp_all
  moreover have "put_fields ?h (zeroes sz) = put_fields ?f (zeroes sz)"
    using assms by (simp add: put_bytes_def zeroes_def min_def) linarith
  ultimately have "put_fields ?f (zeroes sz) = ?x" by simp
  then have "put_fields (?f @ [(12, le_bytes 4 (unat (crc32 target)))]) (zeroes sz) = put_bytes 12 (le_bytes 4 (unat (crc32 target))) ?x"
    by (simp only: put_fields_append put_fields_simps)
  also have "\<dots> = symlink_v2_layout target sz" by (simp add: put_bytes_def symlink_v2_layout_def)
  finally show ?thesis by (simp only: append.simps)
qed

lemma div_ceil_bounds:
  assumes "0 < a"
  shows "a \<le> div_ceil a BLOCK_SIZE * BLOCK_SIZE" and "0 < div_ceil a BLOCK_SIZE"
  using assms by (simp_all add: div_ceil_def BLOCK_SIZE_def div_greater_zero_iff)

lemma get_bytes_prefix: "off + k \<le> n \<Longrightarrow> get_bytes off k (get_bytes 0 n bs) = get_bytes off k bs"
  by (simp add: get_bytes_def drop_take min_def)

lemma encode_v2_Inr:
  assumes "encode_target_blocks target = Inr images" and "\<not> length target \<le> SYMLINK_V1_MAX_TARGET_LEN"
    and "k = div_ceil (16 + length target) BLOCK_SIZE"
  shows "length target \<le> MAX_SYMLINK_TARGET_LEN" and "length target < U32_LIMIT" and "16 + length target < U64_LIMIT"
    and "k \<le> MAX_SYMLINK_TARGET_BLOCKS"
    and "images = map (\<lambda>i. get_bytes (i * BLOCK_SIZE) BLOCK_SIZE (symlink_v2_layout target (k * BLOCK_SIZE))) [0..<k]"
proof -
  have "16 + length target \<le> k * BLOCK_SIZE" unfolding assms(3) by (rule div_ceil_bounds) simp
  note f = symlink_v2_fields [OF this]
  note d = encode_target_blocks_def res_bind_Inr Let_def SYMLINK_V2_HEADER_LEN_def SYMLINK_V2_VERSION_def
    SYMLINK_V2_LEN_OFFSET_def SYMLINK_V2_CRC_OFFSET_def assms(3) [symmetric]
  have n: "target \<noteq> []" using assms(2) by auto
  from assms(1,2) n show len: "length target \<le> MAX_SYMLINK_TARGET_LEN" by (simp add: d split: if_splits)
  from assms(1,2) n len show u32: "length target < U32_LIMIT" by (simp add: d split: if_splits)
  then have u64: "checked_add 16 (length target) = Some (16 + length target)" by (simp add: checked_add_def)
  from u32 show "16 + length target < U64_LIMIT" by simp
  from assms(1,2) n len u32 u64 show "k \<le> MAX_SYMLINK_TARGET_BLOCKS"
    and "images = map (\<lambda>i. get_bytes (i * BLOCK_SIZE) BLOCK_SIZE (symlink_v2_layout target (k * BLOCK_SIZE))) [0..<k]"
    unfolding f [symmetric] by (simp_all add: d del: put_fields_simps checked_add_Some split: if_splits)
qed

lemma v2_round_trip:
  assumes "encode_target_blocks target = Inr images" and "\<not> length target \<le> SYMLINK_V1_MAX_TARGET_LEN" and "utf8_valid target"
  shows "decode_v2_target images = Inr target" and "\<forall>img \<in> set images. length img = BLOCK_SIZE" and "images \<noteq> []"
    and "length images \<le> MAX_SYMLINK_TARGET_BLOCKS" and "get_bytes 0 4 (hd images) = SYMLINK_V2_MAGIC"
proof -
  define k where "k = div_ceil (16 + length target) BLOCK_SIZE"
  let ?bs = "symlink_v2_layout target (k * BLOCK_SIZE)"
  note e = encode_v2_Inr [OF assms(1,2) k_def]
  have fit: "16 + length target \<le> k * BLOCK_SIZE" and pos: "0 < k" unfolding k_def by (rule div_ceil_bounds, simp)+
  note l = symlink_v2_layout_get [OF fit]
  have all: "concat images = ?bs" unfolding e(5) by (rule concat_chunks) (simp add: l(8))
  have first: "hd images = get_bytes 0 BLOCK_SIZE ?bs" using pos by (simp add: e(5) upt_conv_Cons)
  have h: "get_bytes off j (hd images) = get_bytes off j ?bs" if "off + j \<le> 16" for off j
    unfolding first by (rule get_bytes_prefix) (use that in \<open>simp add: BLOCK_SIZE_def\<close>)
  have r: "read_u16 (hd images) 4 = 1" "read_u32 (hd images) 8 = length target" "read_u32 (hd images) 12 = unat (crc32 target)"
    "get_bytes 6 2 (hd images) = zeroes 2"
    using h [of 4 2] h [of 8 4] h [of 12 4] h [of 6 2] l e(2) by (simp_all add: read_u16_def read_u32_def)
  have n: "length images = k" by (simp add: e(5))
  show "decode_v2_target images = Inr target"
    using r assms(2,3) e(1,3) l(6,7) all n
    by (simp add: decode_v2_target_def SYMLINK_V2_VERSION_def SYMLINK_V2_HEADER_LEN_def Let_def checked_add_def
        k_def [symmetric] decode_utf8_def)
  show "\<forall>img \<in> set images. length img = BLOCK_SIZE"
    using length_chunk [of _ k ?bs] l(8) by (auto simp: e(5))
  show "images \<noteq> []" and "length images \<le> MAX_SYMLINK_TARGET_BLOCKS" using n pos e(4) by auto
  show "get_bytes 0 4 (hd images) = SYMLINK_V2_MAGIC" using h [of 0 4] l(1) by simp
qed

text \<open>Every target that can be encoded is read back from its blocks.\<close>

lemma symlink_round_trip:
  assumes "encode_target_blocks target = Inr images" and "utf8_valid target"
  shows "decode_target_images images = Inr target" and "\<forall>img \<in> set images. length img = BLOCK_SIZE"
    and "images \<noteq> []" and "length images \<le> MAX_SYMLINK_TARGET_BLOCKS"
proof -
  have "decode_target_images images = Inr target \<and> (\<forall>img \<in> set images. length img = BLOCK_SIZE) \<and>
      images \<noteq> [] \<and> length images \<le> MAX_SYMLINK_TARGET_BLOCKS"
  proof (cases "length target \<le> SYMLINK_V1_MAX_TARGET_LEN")
    case True
    from assms(1) True obtain img where img: "encode_v1_target target = Inr img" "images = [img]" and "target \<noteq> []"
      by (auto simp: encode_target_blocks_def res_bind_Inr split: if_splits)
    from v1_round_trip [OF this(3) True assms(2) img(1)] show ?thesis
      by (simp add: decode_target_images_def img(2) MAX_SYMLINK_TARGET_BLOCKS_def)
  next
    case False
    from v2_round_trip [OF assms(1) False assms(2)] show ?thesis by (simp add: decode_target_images_def)
  qed
  then show "decode_target_images images = Inr target" and "\<forall>img \<in> set images. length img = BLOCK_SIZE"
    and "images \<noteq> []" and "length images \<le> MAX_SYMLINK_TARGET_BLOCKS" by auto
qed


section \<open>Creating a link on the tracing device\<close>

lemma collect_metadata_trace:
  assumes a: "addressable sb" and n: "n = sb_total_blocks sb"
  shows "collect_metadata_changes (trace_device n) sb al inodes entries (v, tr) =
     (case create_images sb al inodes entries of Inl e \<Rightarrow> (Inl e, v, tr) | Inr ps \<Rightarrow> (Inr (image_changes ps v), v, tr))"
proof (cases "create_images sb al inodes entries")
  case (Inl e)
  with renders_create [OF a n, of al inodes entries] n show ?thesis
    by (simp add: collect_metadata_changes_def renders_def io_simps)
next
  case (Inr ps)
  note g = addressable_geometry [OF a]
  from Inr have ps: "snapshot sb ps" "concat (map fst ps) = allocation_range sb @ inode_range sb @ directory_range sb"
    using snapshotI(1) [OF g] by (auto simp: create_images_def res_bind_Inr)
  from Inr renders_create [OF a n, of al inodes entries] obtain evs where
    evs: "render n (io_seq (store_allocator capture_ops sb al) (io_seq (store_inode_table capture_ops sb inodes)
       (store_directory_table capture_ops sb entries))) = Inr (captured n evs)" "event_writes evs = images_writes ps"
    by (auto simp: renders_def)
  have b: "\<forall>b \<in> set (concat (map fst ps)). b < n"
    using ps regions_distinct(2) [OF g] n by simp
  have d: "distinct (concat (map fst ps))" using ps by (simp add: snapshot_def)
  note c = journaled_commit [OF n evs snapshot_intervals [OF ps(1)] d b, where K = io_return and v = v and tr = tr]
  show ?thesis
    using c [unfolded ps(2) collect_append io_bind_assoc case_prod_beta'] Inr n
    by (simp add: collect_metadata_changes_def case_prod_beta' io_return_def)
qed

lemma allocate_blocks_ok:
  assumes "allocator_inv a" and "allocate_blocks n a = Inr (bs, a')"
  shows "allocator_inv a' \<and> data_blocks a' = data_blocks a \<and> length bs = n \<and> distinct bs \<and>
     set bs \<subseteq> data_blocks a - owned_blocks a \<and> owned_blocks a' = owned_blocks a \<union> set bs \<and>
     al_total_blocks a' = al_total_blocks a \<and> al_reserved_blocks a' = al_reserved_blocks a"
  using assms
proof (induction n arbitrary: a bs)
  case (Suc n)
  then obtain b a1 cs where s: "allocate a = Inr (b, a1)" "allocate_blocks n a1 = Inr (cs, a')" "bs = b # cs"
    by (auto simp: res_bind_Inr)
  from allocate_contiguous_step [OF Suc.prems(1) s(1) [unfolded allocate_def]] allocate_frame [OF s(1) [unfolded allocate_def]]
  have 1: "allocator_inv a1" "data_blocks a1 = data_blocks a" "b \<in> data_blocks a - owned_blocks a"
    "owned_blocks a1 = insert b (owned_blocks a)" "al_total_blocks a1 = al_total_blocks a" "al_reserved_blocks a1 = al_reserved_blocks a"
    by auto
  from Suc.IH [OF 1(1) s(2)] 1 show ?case by (auto simp: s(3))
qed simp

lemma next_inode_id_fresh:
  assumes "next_inode_id inodes = Inr ino"
  shows "ino \<noteq> 0" and "ino \<notin> pi_id ` set inodes" and "ino < U64_LIMIT"
proof -
  have m: "k \<le> foldr max ks 0" if "k \<in> set ks" for k and ks :: "nat list" using that by (induction ks) auto
  from assms have i: "ino = foldr max (map pi_id inodes) 0 + 1" "ino < U64_LIMIT" by (auto simp: next_inode_id_def)
  show "ino \<noteq> 0" and "ino < U64_LIMIT" using i by auto
  show "ino \<notin> pi_id ` set inodes" using m [of ino "map pi_id inodes"] i(1) by auto
qed

lemma find_inode_append:
  "ino \<notin> pi_id ` set inodes \<Longrightarrow> pi_id inode = ino \<Longrightarrow> find_inode (inodes @ [inode]) ino = Some inode"
  by (induction inodes) (auto simp: find_inode_def)

lemma io_map_read_mem: "\<forall>b \<in> set bs. b < n \<Longrightarrow> io_map bs (\<lambda>b. read_block (mem_device n) b) v = (Inr (map v bs), v)"
  by (rule io_map_pure) simp

definition read_target_disk :: "persisted_inode \<Rightarrow> disk \<Rightarrow> byte list io_result" where
  "read_target_disk inode v =
     (if pi_blocks inode = [] \<or> length (pi_blocks inode) > MAX_SYMLINK_TARGET_BLOCKS then Inl InvalidData
      else decode_target_images (map v (pi_blocks inode)))"

lemma read_symlink_inode_mem:
  "\<forall>b \<in> set (pi_blocks inode). b < n \<Longrightarrow> read_symlink_inode (mem_device n) inode v = (read_target_disk inode v, v)"
  by (auto simp: read_symlink_inode_def read_target_disk_def io_map_read_mem io_simps)


lemma write_all_zip:
  assumes "distinct bs" and "length imgs = length bs"
  shows "map (write_all v (zip bs imgs)) bs = imgs" and "b \<notin> set bs \<Longrightarrow> write_all v (zip bs imgs) b = v b"
proof -
  show "b \<notin> set bs \<Longrightarrow> write_all v (zip bs imgs) b = v b"
    by (rule write_all_other) (auto dest: set_zip_leftD)
  show "map (write_all v (zip bs imgs)) bs = imgs" using assms
  proof (induction bs arbitrary: imgs v)
    case (Cons b bs)
    then obtain img imgs' where i: "imgs = img # imgs'" by (cases imgs) auto
    have "write_all (v(b := img)) (zip bs imgs') b = (v(b := img)) b"
      using Cons.prems(1) by (intro write_all_other) (auto dest: set_zip_leftD)
    moreover have "map (write_all (v(b := img)) (zip bs imgs')) bs = imgs'"
      by (rule Cons.IH) (use Cons.prems i in simp_all)
    ultimately show ?case unfolding i zip_Cons_Cons write_all_simps list.map by simp
  qed simp
qed

lemma persisted_inode_new_fields:
  "persisted_inode_new ino k bs = Inr i \<Longrightarrow> pi_id i = ino \<and> pi_kind i = k \<and> pi_blocks i = bs"
  by (auto simp: persisted_inode_new_def res_bind_Inr)

text \<open>
  What the committed writes of a creation put on the disk: the new metadata, and a link inode
  whose blocks decode to the target.
\<close>

lemma symlink_written:
  assumes a: "addressable sb" and al: "load_allocator_disk sb v = Inr al" and inodes: "load_inodes_disk sb v = Inr inodes"
    and entries: "load_entries_disk sb v = Inr entries" and enc: "encode_target_blocks target = Inr images"
    and alloc: "allocate_blocks (length images) al = Inr (bs, al')" and new: "persisted_inode_new ino Symlink bs = Inr inode"
    and nid: "next_inode_id inodes = Inr ino"
    and ps: "create_images sb al' (inodes @ [inode]) (entries @ [e]) = Inr ps" and e: "dirent_typed e" and utf8: "utf8_valid target"
    and w: "w = write_all v (image_changes ps v @ zip bs images)"
  shows "load_allocator_disk sb w = Inr al'" and "load_inodes_disk sb w = Inr (inodes @ [inode])"
    and "load_entries_disk sb w = Inr (entries @ [e])" and "read_target_disk inode w = Inr target"
    and "set bs \<subseteq> {reserved_blocks sb..<sb_total_blocks sb}" and "length images = length bs" and "distinct bs"
proof -
  note g = addressable_geometry [OF a] and la = load_allocator_disk_Inr [OF addressable_geometry [OF a] al]
  from allocate_blocks_ok [OF la(1) alloc] have al': "allocator_inv al'" "length bs = length images" "distinct bs"
    "set bs \<subseteq> data_blocks al" by auto
  show bs: "set bs \<subseteq> {reserved_blocks sb..<sb_total_blocks sb}" using al'(4) la(2,3) by (simp add: data_blocks_def)
  show "length images = length bs" and "distinct bs" using al' by simp_all
  have old: "\<forall>i \<in> set inodes. inode_ok i \<and> inode_typed i" "\<forall>x \<in> set entries. dirent_typed x"
    using inode_decode_image_Inr(2) directory_decode_image_Inr(2) dirent_ok_typed inodes entries
    unfolding load_inodes_disk_def load_entries_disk_def by blast+
  note f = persisted_inode_new_fields [OF new]
  have inode: "inode_ok inode" "inode_typed inode"
  proof -
    show ok: "inode_ok inode" using inode_new_ok(1) [OF new] .
    have "pi_byte_len inode = 0" using ok f by (simp add: inode_ok_def)
    moreover have "\<forall>b \<in> set bs. b < U64_LIMIT" using bs geometry_okD(10) [OF g] by fastforce
    ultimately show "inode_typed inode" using f next_inode_id_fresh(3) [OF nid] by (simp add: inode_typed_def)
  qed
  have w': "w = write_all (put_images ps v) (zip bs images)" unfolding w by (simp add: write_all_image_changes)
  have same: "w b = put_images ps v b" if "b < reserved_blocks sb" for b
    unfolding w' using that bs al'(2,3) by (intro write_all_zip(2)) auto
  have "set (allocation_range sb @ inode_range sb @ directory_range sb) \<subseteq> {..<reserved_blocks sb}"
    using geometry_ranges [OF g] geometry_order [OF g] by auto
  with same have "image_get (allocation_range sb) w = image_get (allocation_range sb) (put_images ps v)"
    "image_get (inode_range sb) w = image_get (inode_range sb) (put_images ps v)"
    "image_get (directory_range sb) w = image_get (directory_range sb) (put_images ps v)"
    by (auto intro!: image_get_cong)
  moreover have "\<forall>i \<in> set (inodes @ [inode]). inode_typed i" "\<forall>x \<in> set (entries @ [e]). dirent_typed x"
    using old inode e by auto
  note create_images_load [OF a ps al'(1) this, of v]
  moreover have "map canonical_inode (inodes @ [inode]) = inodes @ [inode]"
    using old inode by (simp add: map_idI)
  ultimately show "load_allocator_disk sb w = Inr al'" and "load_inodes_disk sb w = Inr (inodes @ [inode])"
    and "load_entries_disk sb w = Inr (entries @ [e])"
    by (simp_all add: load_allocator_disk_def load_inodes_disk_def load_entries_disk_def)
  note r = symlink_round_trip [OF enc utf8]
  have "map w bs = images" unfolding w' using al'(2,3) by (intro write_all_zip(1)) simp_all
  then show "read_target_disk inode w = Inr target"
    using r al'(2) f by (auto simp: read_target_disk_def)
qed

lemma create_symlink_run:
  assumes a: "addressable sb" and n: "n = sb_total_blocks sb" and v: "disk_ok n v" and empty: "load_disk sb v = Inr []"
    and utf8: "utf8_valid target" "utf8_valid name" and parent: "parent < U64_LIMIT"
    and run: "create_symlink_journaled (trace_device n) sb parent name target (v, []) = (Inr (ino, rep), x, tr)"
  obtains al inodes entries al' inode ws where
    "load_allocator_disk sb v = Inr al" "load_inodes_disk sb v = Inr inodes" "load_entries_disk sb v = Inr entries"
    "validate_destination inodes entries parent name = Inr ()" "ino \<notin> pi_id ` set inodes"
    "pi_id inode = ino" "pi_kind inode = Symlink" "set (pi_blocks inode) \<subseteq> {reserved_blocks sb..<sb_total_blocks sb}"
    "load_allocator_disk sb (write_all v ws) = Inr al'" "load_inodes_disk sb (write_all v ws) = Inr (inodes @ [inode])"
    "load_entries_disk sb (write_all v ws) = Inr (entries @ [\<lparr>de_parent = parent, de_target = ino, de_name = name\<rparr>])"
    "read_target_disk inode (write_all v ws) = Inr target"
    "owned_blocks al' = owned_blocks al \<union> set (pi_blocks inode)" "set (pi_blocks inode) \<inter> owned_blocks al = {}"
    "\<forall>(b, d) \<in> set ws. b < U64_LIMIT \<and> length d = BLOCK_SIZE"
    "commit_outcome sb ws recovered recovery_events v = (Inr rep, x, tr)"
proof -
  note g = addressable_geometry [OF a] and l = loads_trace [OF a n v]
  let ?e = "\<lparr>de_parent = parent, de_target = ino, de_name = name\<rparr>"
  from run obtain images al inodes entries bs al' inode ps where
    enc: "encode_target_blocks target = Inr images" and ld: "load_allocator_disk sb v = Inr al" "load_inodes_disk sb v = Inr inodes"
      "load_entries_disk sb v = Inr entries"
    and dst: "validate_destination inodes entries parent name = Inr ()" and nid: "next_inode_id inodes = Inr ino"
    and alloc: "allocate_blocks (length images) al = Inr (bs, al')" and new: "persisted_inode_new ino Symlink bs = Inr inode"
    and ps: "create_images sb al' (inodes @ [inode]) (entries @ [?e]) = Inr ps"
    and pub: "publish_and_recover recover_journal_and_checkpoint (trace_device n) sb (image_changes ps v @ zip bs images) (v, []) = (Inr rep, x, tr)"
    by (auto simp: create_symlink_journaled_def l collect_metadata_trace [OF a n] io_lift_def Let_def io_return_def
        elim!: io_bind_InrE split: sum.splits prod.splits)
  let ?ws = "image_changes ps v @ zip bs images"
  have e: "dirent_typed ?e" using utf8 parent next_inode_id_fresh(3) [OF nid] by (simp add: dirent_typed_def)
  note w = symlink_written [OF a ld enc alloc new nid ps e utf8(1) refl]
  note f = persisted_inode_new_fields [OF new] and al' = allocate_blocks_ok [OF load_allocator_disk_Inr(1) [OF g ld(1)] alloc]
  have sn: "snapshot sb ps" using ps snapshotI(1) [OF g] by (auto simp: create_images_def res_bind_Inr)
  have data: "\<forall>(b, d) \<in> set ?ws. b < U64_LIMIT \<and> length d = BLOCK_SIZE"
    using snapshot_changes(1) [OF g sn, of v] w(5) geometry_okD(10) [OF g] symlink_round_trip(2) [OF enc utf8(1)]
    by (fastforce dest: set_zip_leftD set_zip_rightD)
  have ne: "?ws \<noteq> []" using symlink_round_trip(3) [OF enc utf8(1)] w(6) by auto
  obtain r y evs where o: "commit_outcome sb ?ws recovered recovery_events v = (r, y, evs)" by (cases "commit_outcome sb ?ws recovered recovery_events v") auto
  from commit_checkpoint_trace [OF g n v data o, of "[]"] ne pub have "(r, y, evs) = (Inr rep, x, tr)"
    unfolding commit_changed_def by (simp only: if_False append_Nil)
  with o have out: "commit_outcome sb ?ws recovered recovery_events v = (Inr rep, x, tr)" by simp
  show thesis
    by (rule that [of al inodes entries inode ?ws al'])
      (use ld dst next_inode_id_fresh(2) [OF nid] f w(1-5) al' data out in auto)
qed

section \<open>The same on every reliable device\<close>

context read_sim
begin

lemma sim_read_symlink_inode:
  "dev_sim P abst (\<lambda>_. True) (read_symlink_inode D i) (read_symlink_inode E i)"
  unfolding read_symlink_inode_def
  by (rule sim_if sim_fail sim_bind_map [where Q = "\<lambda>_. True"] sim_true [OF sim_read] sim_lift TrueI)+

lemma sim_read_symlink: "dev_sim P abst (\<lambda>_. True) (read_symlink D sb ino) (read_symlink E sb ino)"
  unfolding read_symlink_def
  by (rule sim_bind [OF sim_load_inode_table] sim_bind_lift sim_if sim_fail sim_read_symlink_inode)+

lemma sim_validate_symlink_inode:
  "dev_sim P abst (\<lambda>_. True) (validate_symlink_inode D i) (validate_symlink_inode E i)"
  unfolding validate_symlink_inode_def
  by (rule sim_if sim_return sim_bind [OF sim_read_symlink_inode] TrueI)+

lemma sim_collect_metadata_changes:
  "dev_sim P abst (\<lambda>_. True) (collect_metadata_changes D sb a is es) (collect_metadata_changes E sb a is es)"
  unfolding collect_metadata_changes_def
  by (rule sim_bind_lift sim_bind [OF sim_collect] sim_prod sim_return TrueI)+

end

context device_sim
begin

lemma sim_create_symlink_journaled:
  "dev_sim P abst (\<lambda>_. True) (create_symlink_journaled D sb p nm t) (create_symlink_journaled E sb p nm t)"
  unfolding create_symlink_journaled_def Let_def
  by (rule sim_bind_lift sim_bind [OF sim_load_allocator] sim_bind [OF sim_load_inode_table] sim_bind [OF sim_load_directory_table]
      sim_bind [OF sim_collect_metadata_changes] sim_bind [OF sim_publish_and_recover] sim_recover_journal_and_checkpoint
      sim_prod sim_return TrueI)+

end

end
