(* ===== verification/Namespace_Graph.thy ===== *)
theory Namespace_Graph
  imports BTree_Map Directory_Codec Inode_Codec
begin

text \<open>
  The two graph searches over directory entries that \<open>fsck.rs\<close> and \<open>rename_tx.rs\<close> contain: the
  three-colour depth-first search for directory cycles and the stack-driven search for reachable
  inodes. Both are total; the first accepts exactly the acyclic graphs, the second computes
  exactly the reachable set.
\<close>

type_synonym adjacency = "(u64, u64 list) btree_map"

definition children :: "adjacency \<Rightarrow> u64 \<Rightarrow> u64 list" where
  "children adj inode = (case bt_get adj inode of None \<Rightarrow> [] | Some targets \<Rightarrow> targets)"

text \<open>\<open>adjacency.entry(parent).or_default().push(target)\<close>\<close>

definition push_child :: "u64 \<Rightarrow> u64 \<Rightarrow> adjacency \<Rightarrow> adjacency" where
  "push_child parent target adj = bt_insert parent (children adj parent @ [target]) adj"

lemma children_push: "children (push_child p t adj) = (children adj)(p := children adj p @ [t])"
  by (rule ext) (simp add: push_child_def children_def [of "bt_insert _ _ _"] bt_get_insert, simp add: children_def)

section \<open>Reachability\<close>

function reach_loop :: "adjacency \<Rightarrow> u64 list \<Rightarrow> u64 list \<Rightarrow> u64 list" where
  "reach_loop adj pending reachable =
     (if pending = [] then reachable
      else
        let inode = last pending; rest = butlast pending in
        if inode \<in> set reachable then reach_loop adj rest reachable
        else reach_loop adj (rest @ children adj inode) (snd (bt_set_insert inode reachable)))"
  by pat_completeness auto

lemma children_key: "children adj inode \<noteq> [] \<Longrightarrow> inode \<in> fst ` set adj"
  by (auto simp: children_def split: option.splits) (metis fst_conv image_eqI map_of_SomeD)

lemma set_bt_set_insert: "set (snd (bt_set_insert k s)) = insert k (set s)"
  by (simp add: bt_set_insert_def set_insort_key insert_absorb)

termination reach_loop
proof (relation "inv_image (finite_psubset <*lex*> less_than) (\<lambda>(adj, pending, reachable). (fst ` set adj - set reachable, length pending))",
    goal_cases)
  case 1
  then show ?case by (auto intro!: wf_inv_image wf_lex_prod wf_finite_psubset)
next
  case (2 adj pending reachable inode rest)
  then show ?case by simp
next
  case (3 adj pending reachable inode rest)
  then show ?case
    by (cases "children adj inode = []") (auto simp: finite_psubset_def set_bt_set_insert dest!: children_key)
qed

declare reach_loop.simps [simp del]

definition edges :: "adjacency \<Rightarrow> (u64 \<times> u64) set" where
  "edges adj = {(p, t). t \<in> set (children adj p)}"

lemma reach_loop_steps [simp]:
  "reach_loop adj [] reachable = reachable"
  "i \<in> set reachable \<Longrightarrow> reach_loop adj (rest @ [i]) reachable = reach_loop adj rest reachable"
  "i \<notin> set reachable \<Longrightarrow> reach_loop adj (rest @ [i]) reachable
     = reach_loop adj (rest @ children adj i) (snd (bt_set_insert i reachable))"
  by (simp_all add: reach_loop.simps [of adj "rest @ [i]"] reach_loop.simps [of adj "[]"])

lemma reach_loop_induct [case_names finish skip visit]:
  assumes "\<And>reachable. P [] reachable"
    and "\<And>rest i reachable. i \<in> set reachable \<Longrightarrow> P rest reachable \<Longrightarrow> P (rest @ [i]) reachable"
    and "\<And>rest i reachable. i \<notin> set reachable \<Longrightarrow> P (rest @ children adj i) (snd (bt_set_insert i reachable)) \<Longrightarrow>
      P (rest @ [i]) reachable"
  shows "P pending reachable"
proof -
  have "adj' = adj \<Longrightarrow> P pending reachable" for adj'
  proof (induction adj' pending reachable rule: reach_loop.induct)
    case (1 adj' pending reachable)
    show ?case
    proof (cases pending rule: rev_cases)
      case (snoc rest i)
      with 1 assms(2,3) show ?thesis by (cases "i \<in> set reachable") simp_all
    qed (simp add: assms(1))
  qed
  then show ?thesis by simp
qed

lemma reach_loop_sound:
  "set (reach_loop adj pending reachable) \<subseteq> (edges adj)\<^sup>* `` set pending \<union> set reachable"
proof (induction pending reachable rule: reach_loop_induct [of _ adj])
  case (visit rest i reachable)
  have "(edges adj)\<^sup>* `` set (children adj i) \<subseteq> (edges adj)\<^sup>* `` {i}"
    by (auto simp: edges_def intro: converse_rtrancl_into_rtrancl)
  then have "(edges adj)\<^sup>* `` (set rest \<union> set (children adj i)) \<union> {i} \<subseteq> (edges adj)\<^sup>* `` set (rest @ [i])"
    by (auto simp: Image_Un)
  with visit show ?case by (simp add: set_bt_set_insert) blast
qed auto

lemma reach_loop_mono: "set reachable \<union> set pending \<subseteq> set (reach_loop adj pending reachable)"
  by (induction pending reachable rule: reach_loop_induct [of _ adj]) (auto simp: set_bt_set_insert)

lemma reach_loop_closed:
  assumes "edges adj `` set reachable \<subseteq> set reachable \<union> set pending"
  shows "edges adj `` set (reach_loop adj pending reachable) \<subseteq> set (reach_loop adj pending reachable)"
  using assms
proof (induction pending reachable rule: reach_loop_induct [of _ adj])
  case (visit rest i reachable)
  have "edges adj `` set (snd (bt_set_insert i reachable)) \<subseteq> set (snd (bt_set_insert i reachable)) \<union> set (rest @ children adj i)"
    using visit.prems by (auto simp: set_bt_set_insert edges_def)
  from visit.IH [OF this] visit.hyps show ?case by simp
next
  case (skip rest i reachable)
  then have "edges adj `` set reachable \<subseteq> set reachable \<union> set rest" by auto
  from skip.IH [OF this] skip.hyps show ?case by simp
qed simp

lemma reach_loop_eq: "set (reach_loop adj pending []) = (edges adj)\<^sup>* `` set pending"
proof
  show "set (reach_loop adj pending []) \<subseteq> (edges adj)\<^sup>* `` set pending" using reach_loop_sound [of adj pending "[]"] by simp
  have c: "edges adj `` set (reach_loop adj pending []) \<subseteq> set (reach_loop adj pending [])" by (rule reach_loop_closed) simp
  have "y \<in> set (reach_loop adj pending [])" if "x \<in> set pending" and "(x, y) \<in> (edges adj)\<^sup>*" for x y
    using that(2)
  proof induction
    case base
    show ?case using reach_loop_mono [of "[]" pending adj] that(1) by auto
  next
    case (step y z)
    then show ?case using c by blast
  qed
  then show "(edges adj)\<^sup>* `` set pending \<subseteq> set (reach_loop adj pending [])" by blast
qed


section \<open>Directory cycles\<close>

text \<open>
  Colours: 1 while an inode is on the search path, 2 once its subtree is finished. The search
  visits the directory children of a list of targets, threading the colours.
\<close>

type_synonym colours = "(u64, nat) btree_map"

definition marked :: "colours \<Rightarrow> u64 set" where
  "marked states = {i. bt_get states i = Some 1 \<or> bt_get states i = Some 2}"

function audit_targets ::
    "(u64, inode_kind) btree_map \<Rightarrow> adjacency \<Rightarrow> u64 list \<Rightarrow> colours \<Rightarrow> colours io_result" where
  "audit_targets kinds adj [] states = Inr states"
| "audit_targets kinds adj (target # targets) states =
     (if bt_get kinds target \<noteq> Some Directory then audit_targets kinds adj targets states
      else if bt_get states target = Some 1 then Inl InvalidData
      else if bt_get states target = Some 2 then audit_targets kinds adj targets states
      else (case audit_targets kinds adj (children adj target) (bt_insert target 1 states) of
              Inl e \<Rightarrow> Inl e
            | Inr states' \<Rightarrow> audit_targets kinds adj targets (bt_insert target 2 states')))"
  by pat_completeness auto

lemma marked_insert [simp]:
  "marked (bt_insert t 1 st) = insert t (marked st)" "marked (bt_insert t (Suc 0) st) = insert t (marked st)"
  "marked (bt_insert t 2 st) = insert t (marked st)"
  by (auto simp: marked_def bt_get_insert)

lemma audit_targets_dom_mono:
  assumes "audit_targets_dom (kinds, adj, ts, st)" and "audit_targets kinds adj ts st = Inr st'"
  shows "marked st \<subseteq> marked st'"
  using assms
proof (induction kinds adj ts st arbitrary: st' rule: audit_targets.pinduct)
  case (2 kinds adj t ts st)
  show ?case
  proof (cases "bt_get kinds t \<noteq> Some Directory \<or> bt_get st t = Some 1 \<or> bt_get st t = Some 2")
    case True
    with 2 show ?thesis by (auto simp: audit_targets.psimps split: if_splits)
  next
    case False
    then obtain s1 where s1: "audit_targets kinds adj (children adj t) (bt_insert t 1 st) = Inr s1"
      "audit_targets kinds adj ts (bt_insert t 2 s1) = Inr st'"
      using 2(1,6) by (auto simp: audit_targets.psimps split: sum.splits)
    have "marked (bt_insert t 1 st) \<subseteq> marked s1" by (rule 2(4)) (use False s1 in auto)
    moreover have "marked (bt_insert t 2 s1) \<subseteq> marked st'" by (rule 2(5)) (use False s1 in auto)
    ultimately show ?thesis by auto
  qed
qed (simp add: audit_targets.psimps)

definition unmarked :: "(u64, inode_kind) btree_map \<Rightarrow> colours \<Rightarrow> u64 set" where
  "unmarked kinds st = {i \<in> fst ` set kinds. bt_get kinds i = Some Directory} - marked st"

lemma finite_unmarked [simp]: "finite (unmarked kinds st)"
  by (simp add: unmarked_def)

lemma unmarked_member: "bt_get kinds t = Some k \<Longrightarrow> t \<in> fst ` set kinds"
  by (metis map_of_SomeD fst_conv image_eqI)

termination audit_targets
proof (relation "inv_image (finite_psubset <*lex*> less_than) (\<lambda>(kinds, adj, ts, st). (unmarked kinds st, length ts))", goal_cases)
  case 1
  then show ?case by (auto intro!: wf_inv_image wf_lex_prod wf_finite_psubset)
next
  case (4 kinds adj t ts st)
  then have "t \<in> unmarked kinds st" by (auto simp: unmarked_def marked_def unmarked_member)
  then show ?case by (auto simp: finite_psubset_def unmarked_def)
next
  case (5 kinds adj t ts st s1)
  then have "t \<in> unmarked kinds st" by (auto simp: unmarked_def marked_def unmarked_member)
  moreover have "marked (bt_insert t 1 st) \<subseteq> marked s1" by (rule audit_targets_dom_mono [OF 5(5,4)])
  ultimately show ?case by (auto simp: finite_psubset_def unmarked_def)
qed simp_all


declare audit_targets.simps(2) [simp del]

definition audit_directory_cycle ::
    "(u64, inode_kind) btree_map \<Rightarrow> adjacency \<Rightarrow> u64 \<Rightarrow> colours \<Rightarrow> colours io_result" where
  "audit_directory_cycle kinds adj inode states =
     (if bt_get states inode = Some 1 then Inl InvalidData
      else if bt_get states inode = Some 2 then Inr states
      else
        res_bind (audit_targets kinds adj (children adj inode) (bt_insert inode 1 states)) (\<lambda>states'.
        Inr (bt_insert inode 2 states')))"

text \<open>The loop over targets calls the search for each directory among them.\<close>

lemma audit_targets_Cons:
  "audit_targets kinds adj (t # ts) st =
     (if bt_get kinds t = Some Directory then res_bind (audit_directory_cycle kinds adj t st) (audit_targets kinds adj ts)
      else audit_targets kinds adj ts st)"
  by (auto simp: audit_targets.simps(2) audit_directory_cycle_def split: sum.splits)

definition dir_edges :: "(u64, inode_kind) btree_map \<Rightarrow> adjacency \<Rightarrow> (u64 \<times> u64) set" where
  "dir_edges kinds adj = {(p, t). t \<in> set (children adj p) \<and> bt_get kinds t = Some Directory}"

definition gray :: "colours \<Rightarrow> u64 set" where "gray st = {i. bt_get st i = Some 1}"
definition black :: "colours \<Rightarrow> u64 set" where "black st = {i. bt_get st i = Some 2}"

lemma colour_insert [simp]:
  "gray (bt_insert t 1 st) = insert t (gray st)" "gray (bt_insert t (Suc 0) st) = insert t (gray st)"
  "gray (bt_insert t 2 st) = gray st - {t}"
  "black (bt_insert t 1 st) = black st - {t}" "black (bt_insert t (Suc 0) st) = black st - {t}"
  "black (bt_insert t 2 st) = insert t (black st)"
  by (auto simp: gray_def black_def bt_get_insert)

lemma gray_black_disjoint: "gray st \<inter> black st = {}"
  by (auto simp: gray_def black_def)

lemma gray_iff: "i \<in> gray st \<longleftrightarrow> bt_get st i = Some 1" and black_iff: "i \<in> black st \<longleftrightarrow> bt_get st i = Some 2"
  by (simp_all add: gray_def black_def)

lemma closed_trancl:
  assumes "E `` B \<subseteq> B" and "(b, c) \<in> E\<^sup>+" and "b \<in> B"
  shows "c \<in> B"
  using assms(2,1,3) by (induction rule: trancl_induct) auto

definition finished :: "(u64 \<times> u64) set \<Rightarrow> colours \<Rightarrow> bool" where
  "finished E st \<longleftrightarrow> E `` black st \<subseteq> black st \<and> (\<forall>b \<in> black st. (b, b) \<notin> E\<^sup>+)"

lemma audit_targets_sound:
  assumes "audit_targets kinds adj ts st = Inr st'" and "finished (dir_edges kinds adj) st"
  shows "gray st' = gray st \<and> black st \<subseteq> black st' \<and> finished (dir_edges kinds adj) st' \<and>
     {t \<in> set ts. bt_get kinds t = Some Directory} \<subseteq> black st'"
  using assms
proof (induction kinds adj ts st arbitrary: st' rule: audit_targets.induct)
  case (2 kinds adj t ts st)
  let ?E = "dir_edges kinds adj"
  consider (skip) "bt_get kinds t \<noteq> Some Directory" "audit_targets kinds adj ts st = Inr st'"
    | (old) "bt_get kinds t = Some Directory" "t \<in> black st" "audit_targets kinds adj ts st = Inr st'"
    | (new) s1 where "bt_get kinds t = Some Directory" "t \<notin> gray st" "t \<notin> black st"
        "audit_targets kinds adj (children adj t) (bt_insert t 1 st) = Inr s1" "audit_targets kinds adj ts (bt_insert t 2 s1) = Inr st'"
    using 2(5) by (auto simp: audit_targets.simps(2) gray_iff black_iff split: if_splits sum.splits)
  then show ?case
  proof cases
    case skip
    with 2(1) 2(6) show ?thesis by auto
  next
    case old
    with 2(2) 2(6) show ?thesis by (auto simp: black_iff)
  next
    case (new s1)
    have 1: "finished ?E (bt_insert t 1 st)" using 2(6) new by (simp add: finished_def)
    have s1: "gray s1 = insert t (gray st)" "black st \<subseteq> black s1" "finished ?E s1"
      "{c \<in> set (children adj t). bt_get kinds c = Some Directory} \<subseteq> black s1"
      using 2(3) [OF _ _ _ new(4) 1] new by (auto simp: gray_iff black_iff)
    have t: "t \<notin> black s1" using s1(1) gray_black_disjoint by blast
    have out: "?E `` {t} \<subseteq> black s1" using s1(4) by (auto simp: dir_edges_def)
    have "(t, t) \<notin> ?E\<^sup>+"
    proof
      assume "(t, t) \<in> ?E\<^sup>+"
      then obtain c where "(t, c) \<in> ?E" "c = t \<or> (c, t) \<in> ?E\<^sup>+" by (metis converse_tranclE)
      with out t s1(3) closed_trancl [of ?E "black s1" c t] show False by (auto simp: finished_def)
    qed
    then have "finished ?E (bt_insert t 2 s1)" using s1(3) out by (auto simp: finished_def)
    from 2(4) [OF _ _ _ new(4,5) this] new s1 show ?thesis by (auto simp: gray_iff black_iff)
  qed
qed simp

lemma audit_targets_gray:
  "audit_targets kinds adj ts st = Inr st' \<Longrightarrow> gray st' = gray st"
proof (induction kinds adj ts st arbitrary: st' rule: audit_targets.induct)
  case (2 kinds adj t ts st)
  have t: "t \<notin> gray st" if "bt_get st t \<noteq> Some 1" using that by (simp add: gray_iff)
  show ?case
  proof (cases "bt_get kinds t \<noteq> Some Directory \<or> bt_get st t = Some 1 \<or> bt_get st t = Some 2")
    case True
    with 2 show ?thesis by (auto simp: audit_targets.simps(2) split: if_splits)
  next
    case False
    with 2(5) obtain s1 where s1: "audit_targets kinds adj (children adj t) (bt_insert t 1 st) = Inr s1"
      "audit_targets kinds adj ts (bt_insert t 2 s1) = Inr st'" by (auto simp: audit_targets.simps(2) split: sum.splits)
    have "gray s1 = gray (bt_insert t 1 st)" by (rule 2(3)) (use False s1 in auto)
    moreover have "gray st' = gray (bt_insert t 2 s1)" by (rule 2(4)) (use False s1 in auto)
    ultimately show ?thesis using t False by auto
  qed
qed simp

lemma audit_targets_complete:
  assumes "audit_targets kinds adj ts st = Inl e"
    and "\<forall>t \<in> set ts. bt_get kinds t = Some Directory \<longrightarrow> (cur, t) \<in> dir_edges kinds adj"
    and "\<forall>g \<in> gray st. (g, cur) \<in> (dir_edges kinds adj)\<^sup>*"
  shows "e = InvalidData \<and> (\<exists>x. (x, x) \<in> (dir_edges kinds adj)\<^sup>+)"
  using assms
proof (induction kinds adj ts st arbitrary: cur rule: audit_targets.induct)
  case (2 kinds adj t ts st)
  let ?E = "dir_edges kinds adj"
  consider (skip) "bt_get kinds t \<noteq> Some Directory" "audit_targets kinds adj ts st = Inl e"
    | (cycle) "bt_get kinds t = Some Directory" "t \<in> gray st" "e = InvalidData"
    | (old) "bt_get kinds t = Some Directory" "t \<in> black st" "audit_targets kinds adj ts st = Inl e"
    | (inner) "bt_get kinds t = Some Directory" "t \<notin> gray st" "t \<notin> black st"
        "audit_targets kinds adj (children adj t) (bt_insert t 1 st) = Inl e"
    | (later) s1 where "bt_get kinds t = Some Directory" "t \<notin> gray st" "t \<notin> black st"
        "audit_targets kinds adj (children adj t) (bt_insert t 1 st) = Inr s1" "audit_targets kinds adj ts (bt_insert t 2 s1) = Inl e"
    using 2(5) by (auto simp: audit_targets.simps(2) gray_iff black_iff split: if_splits sum.splits)
  then show ?case
  proof cases
    case skip
    with 2(1) 2(6,7) show ?thesis by auto
  next
    case cycle
    with 2(6,7) have "(cur, t) \<in> ?E" "(t, cur) \<in> ?E\<^sup>*" by auto
    then have "(t, t) \<in> ?E\<^sup>+" by (rule rtrancl_into_trancl1 [rotated])
    with cycle show ?thesis by blast
  next
    case old
    with 2(2) 2(6,7) show ?thesis by (auto simp: black_iff)
  next
    case inner
    have "(cur, t) \<in> ?E" using 2(6) inner by simp
    then have "\<forall>g \<in> gray (bt_insert t 1 st). (g, t) \<in> ?E\<^sup>*"
      using 2(7) by (auto intro: rtrancl_into_rtrancl)
    moreover have "\<forall>c \<in> set (children adj t). bt_get kinds c = Some Directory \<longrightarrow> (t, c) \<in> ?E" by (simp add: dir_edges_def)
    ultimately show ?thesis using 2(3) [OF _ _ _ inner(4)] inner by (auto simp: gray_iff black_iff)
  next
    case (later s1)
    have "gray (bt_insert t 2 s1) = gray st" using audit_targets_gray [OF later(4)] later(2) by auto
    with 2(4) [OF _ _ _ later(4,5)] later 2(6,7) show ?thesis by (auto simp: gray_iff black_iff)
  qed
qed simp

text \<open>Run over every directory from no colours, the search succeeds exactly on acyclic graphs.\<close>

lemma audit_all_acyclic:
  assumes "\<forall>t \<in> set dirs. bt_get kinds t = Some Directory"
    and "\<And>p t. (p, t) \<in> dir_edges kinds adj \<Longrightarrow> p \<in> set dirs"
  shows "(\<exists>st. res_fold (audit_directory_cycle kinds adj) dirs [] = Inr st) \<longleftrightarrow> acyclic (dir_edges kinds adj)"
    and "res_fold (audit_directory_cycle kinds adj) dirs [] = Inl e \<Longrightarrow> e = InvalidData"
proof -
  have eq: "res_fold (audit_directory_cycle kinds adj) dirs st = audit_targets kinds adj dirs st" for st
    using assms(1) by (induction dirs arbitrary: st) (auto simp: audit_targets_Cons res_bind_def split: sum.splits)
  have ok: "acyclic (dir_edges kinds adj)" if "audit_targets kinds adj dirs [] = Inr st" for st
  proof -
    have "finished (dir_edges kinds adj) []" by (simp add: finished_def black_def)
    from audit_targets_sound [OF that this] assms(1) have f: "finished (dir_edges kinds adj) st" "set dirs \<subseteq> black st" by auto
    show ?thesis unfolding acyclic_def
    proof (intro allI notI)
      fix x assume x: "(x, x) \<in> (dir_edges kinds adj)\<^sup>+"
      then obtain y where "(x, y) \<in> dir_edges kinds adj" by (metis tranclD)
      then have "x \<in> black st" using assms(2) f(2) by blast
      with f(1) x show False by (simp add: finished_def)
    qed
  qed
  have bad: "e = InvalidData \<and> \<not> acyclic (dir_edges kinds adj)" if "audit_targets kinds adj ts st = Inl e" "gray st = {}"
    "\<forall>t \<in> set ts. bt_get kinds t = Some Directory" for ts st e
    using that
  proof (induction ts arbitrary: st)
    case (Cons t ts)
    then consider "audit_directory_cycle kinds adj t st = Inl e"
      | s1 where "audit_directory_cycle kinds adj t st = Inr s1" "audit_targets kinds adj ts s1 = Inl e"
      by (auto simp: audit_targets_Cons res_bind_def split: sum.splits)
    then show ?case
    proof cases
      case 1
      then have "audit_targets kinds adj (children adj t) (bt_insert t 1 st) = Inl e"
        using Cons.prems(2) by (auto simp: audit_directory_cycle_def res_bind_def gray_iff split: if_splits sum.splits)
      from audit_targets_complete [OF this, of t] Cons.prems(2) show ?thesis by (auto simp: dir_edges_def acyclic_def)
    next
      case (2 s1)
      have "gray s1 = {}" using 2(1) Cons.prems(2) audit_targets_gray
        by (fastforce simp: audit_directory_cycle_def res_bind_Inr split: if_splits)
      with Cons.IH [OF 2(2)] Cons.prems(3) show ?thesis by simp
    qed
  qed simp
  have g0: "gray [] = {}" by (auto simp: gray_iff)
  show "(\<exists>st. res_fold (audit_directory_cycle kinds adj) dirs [] = Inr st) \<longleftrightarrow> acyclic (dir_edges kinds adj)"
    unfolding eq using ok bad [OF _ g0 assms(1)] by (cases "audit_targets kinds adj dirs []") auto
  show "res_fold (audit_directory_cycle kinds adj) dirs [] = Inl e \<Longrightarrow> e = InvalidData"
    unfolding eq using bad [OF _ g0 assms(1)] by auto
qed

end
