(* ===== verification/Fsck.thy ===== *)
theory Fsck
  imports Symlink Namespace_Graph
begin

text \<open>
  The consistency check of \<open>fsck.rs\<close>. Each audit is characterised by the condition it decides:
  exclusive and exact block ownership, a rooted acyclic namespace, a well-formed journal. The
  check as a whole succeeds exactly on the consistent disks, and it never writes.
\<close>

definition ROOT_INODE_ID :: u64 where "ROOT_INODE_ID = 1"

record fsck_report =
  fr_total_blocks :: u64
  fr_reserved_blocks :: u64
  fr_data_blocks :: u64
  fr_allocated_blocks :: u64
  fr_free_blocks :: u64
  fr_inode_records :: nat
  fr_referenced_blocks :: nat
  fr_directory_entries :: nat
  fr_journal_entries :: nat
  fr_journal_writes :: nat
  fr_committed_transactions :: nat
  fr_pending_transaction :: "transaction_id option"

section \<open>Ownership\<close>

record ownership_audit =
  oa_referenced_blocks :: nat
  oa_orphaned_allocations :: "u64 list"

definition claim_block ::
    "superblock \<Rightarrow> block_allocator \<Rightarrow> u64 \<times> u64 \<Rightarrow> (u64, u64) btree_map \<times> nat \<Rightarrow> ((u64, u64) btree_map \<times> nat) io_result" where
  "claim_block sb a ref st =
     (case ref of (ino, block) \<Rightarrow> case st of (owners, referenced) \<Rightarrow>
      if block < reserved_blocks sb \<or> sb_total_blocks sb \<le> block then Inl InvalidData
      else
      res_bind (map_err (\<lambda>_. InvalidData) (is_owned a block)) (\<lambda>allocated.
      if \<not> allocated then Inl InvalidData
      else if bt_get owners block \<noteq> None then Inl InvalidData
      else
      res_bind (ok_or InvalidData (checked_add referenced 1)) (\<lambda>referenced'.
      Inr (bt_insert block ino owners, referenced'))))"

text \<open>The nested loops over inodes and their blocks visit these pairs in order.\<close>

definition block_refs :: "persisted_inode list \<Rightarrow> (u64 \<times> u64) list" where
  "block_refs inodes = concat (map (\<lambda>inode. map (\<lambda>block. (pi_id inode, block)) (pi_blocks inode)) inodes)"

definition scan_inode_ownership ::
    "superblock \<Rightarrow> block_allocator \<Rightarrow> persisted_inode list \<Rightarrow> ownership_audit io_result" where
  "scan_inode_ownership sb a inodes =
     res_bind (res_fold (claim_block sb a) (block_refs inodes) ([], 0)) (\<lambda>(owners, referenced).
     res_bind (res_fold (\<lambda>block orphaned.
         res_bind (map_err (\<lambda>_. InvalidData) (is_owned a block)) (\<lambda>allocated.
         Inr (if allocated \<and> bt_get owners block = None then orphaned @ [block] else orphaned)))
       [reserved_blocks sb..<sb_total_blocks sb] []) (\<lambda>orphaned.
     Inr \<lparr>oa_referenced_blocks = referenced, oa_orphaned_allocations = orphaned\<rparr>))"

definition audit_inode_ownership :: "superblock \<Rightarrow> block_allocator \<Rightarrow> persisted_inode list \<Rightarrow> nat io_result" where
  "audit_inode_ownership sb a inodes =
     res_bind (scan_inode_ownership sb a inodes) (\<lambda>ownership.
     if oa_orphaned_allocations ownership \<noteq> [] then Inl InvalidData
     else Inr (oa_referenced_blocks ownership))"

section \<open>Namespace\<close>

definition inode_kinds :: "persisted_inode list \<Rightarrow> (u64, inode_kind) btree_map" where
  "inode_kinds inodes = bt_of_list (map (\<lambda>inode. (pi_id inode, pi_kind inode)) inodes)"

definition link_entry :: "(u64, inode_kind) btree_map \<Rightarrow> directory_entry \<Rightarrow> adjacency \<Rightarrow> adjacency io_result" where
  "link_entry kinds entry adj =
     res_bind (ok_or InvalidData (bt_get kinds (de_parent entry))) (\<lambda>parent_kind.
     if parent_kind \<noteq> Directory then Inl InvalidData
     else if bt_get kinds (de_target entry) = None then Inl InvalidData
     else Inr (push_child (de_parent entry) (de_target entry) adj))"

definition scan_namespace :: "persisted_inode list \<Rightarrow> directory_entry list \<Rightarrow> u64 list io_result" where
  "scan_namespace inodes entries =
     (let kinds = inode_kinds inodes in
      res_bind (res_fold (link_entry kinds) entries []) (\<lambda>adj.
      if inodes = [] then Inr []
      else
      res_bind (ok_or InvalidData (bt_get kinds ROOT_INODE_ID)) (\<lambda>root_kind.
      if root_kind \<noteq> Directory then Inl InvalidData
      else
      res_bind (res_fold (audit_directory_cycle kinds adj)
        (map pi_id (filter (\<lambda>inode. pi_kind inode = Directory) inodes)) []) (\<lambda>_.
      let reachable = reach_loop adj [ROOT_INODE_ID] [] in
      Inr (sort (map pi_id (filter (\<lambda>inode. pi_id inode \<notin> set reachable) inodes)))))))"

definition audit_namespace :: "persisted_inode list \<Rightarrow> directory_entry list \<Rightarrow> unit io_result" where
  "audit_namespace inodes entries =
     res_bind (scan_namespace inodes entries) (\<lambda>unreachable.
     if unreachable \<noteq> [] then Inl InvalidData else Inr ())"

definition validate_namespace_snapshot :: "persisted_inode list \<Rightarrow> directory_entry list \<Rightarrow> unit io_result" where
  "validate_namespace_snapshot inodes entries = audit_namespace inodes entries"

section \<open>Journal\<close>

fun audit_journal_loop ::
    "superblock \<Rightarrow> journal_entry list \<Rightarrow> transaction_id option \<Rightarrow> nat \<Rightarrow> nat \<Rightarrow> (transaction_id option \<times> nat \<times> nat) io_result" where
  "audit_journal_loop sb [] active writes committed = Inr (active, writes, committed)"
| "audit_journal_loop sb (Begin txid # es) active writes committed =
     (if active \<noteq> None then Inl InvalidData else audit_journal_loop sb es (Some txid) writes committed)"
| "audit_journal_loop sb (Write txid block _ # es) active writes committed =
     (if active \<noteq> Some txid then Inl InvalidData
      else
        let allocation_home = block \<in> set (allocation_range sb);
            inode_home = block \<in> set (inode_range sb);
            directory_home = block \<in> set (directory_range sb);
            data_home = reserved_blocks sb \<le> block \<and> block < sb_total_blocks sb in
        if \<not> allocation_home \<and> \<not> inode_home \<and> \<not> directory_home \<and> \<not> data_home then Inl InvalidData
        else res_bind (ok_or InvalidData (checked_add writes 1)) (\<lambda>writes'.
          audit_journal_loop sb es active writes' committed))"
| "audit_journal_loop sb (Commit txid # es) active writes committed =
     (if active \<noteq> Some txid then Inl InvalidData
      else res_bind (ok_or InvalidData (checked_add committed 1)) (\<lambda>committed'.
        audit_journal_loop sb es None writes committed'))"

definition audit_journal ::
    "superblock \<Rightarrow> journal_entry list \<Rightarrow> u64 \<Rightarrow> u64 \<Rightarrow> nat \<Rightarrow> nat \<Rightarrow> nat \<Rightarrow> fsck_report io_result" where
  "audit_journal sb entries allocated free inode_records referenced directory_entries =
     res_bind (ok_or InvalidData (checked_sub (sb_total_blocks sb) (reserved_blocks sb))) (\<lambda>data.
     res_bind (ok_or InvalidData (checked_add allocated free)) (\<lambda>accounted.
     if accounted \<noteq> data then Inl InvalidData
     else
     res_bind (audit_journal_loop sb entries None 0 0) (\<lambda>(active, writes, committed).
     Inr \<lparr>fr_total_blocks = sb_total_blocks sb, fr_reserved_blocks = reserved_blocks sb, fr_data_blocks = data,
          fr_allocated_blocks = allocated, fr_free_blocks = free, fr_inode_records = inode_records,
          fr_referenced_blocks = referenced, fr_directory_entries = directory_entries,
          fr_journal_entries = length entries, fr_journal_writes = writes,
          fr_committed_transactions = committed, fr_pending_transaction = active\<rparr>)))"

section \<open>The check\<close>

definition audit_inode_payloads :: "'d block_device \<Rightarrow> persisted_inode list \<Rightarrow> ('d, unit) dev_io" where
  "audit_inode_payloads D inodes = io_for inodes (\<lambda>inode. validate_symlink_inode D inode)"

definition finish_device_audit ::
    "'d block_device \<Rightarrow> superblock \<Rightarrow> block_allocator \<Rightarrow> persisted_inode list \<Rightarrow> nat \<Rightarrow> ('d, fsck_report) dev_io" where
  "finish_device_audit D sb a inodes referenced =
     io_seq (audit_inode_payloads D inodes)
     (io_bind (load_directory_table D sb) (\<lambda>entries.
      io_bind (io_lift (audit_namespace inodes entries)) (\<lambda>_.
      io_bind (load_journal_image D sb) (\<lambda>journal.
      io_lift (audit_journal sb journal (al_allocated_blocks a) (free_blocks a) (length inodes) referenced (length entries))))))"

definition check_device :: "'d block_device \<Rightarrow> ('d, fsck_report) dev_io" where
  "check_device D =
     io_bind (read_superblock D) (\<lambda>sb.
     io_bind (load_allocator D sb) (\<lambda>a.
     io_bind (load_inode_table D sb) (\<lambda>inodes.
     io_bind (io_lift (audit_inode_ownership sb a inodes)) (\<lambda>referenced.
     finish_device_audit D sb a inodes referenced))))"

definition check_device_allowing_orphaned_allocations :: "'d block_device \<Rightarrow> ('d, fsck_report \<times> u64 list) dev_io" where
  "check_device_allowing_orphaned_allocations D =
     io_bind (read_superblock D) (\<lambda>sb.
     io_bind (load_allocator D sb) (\<lambda>a.
     io_bind (load_inode_table D sb) (\<lambda>inodes.
     io_bind (io_lift (scan_inode_ownership sb a inodes)) (\<lambda>ownership.
     io_bind (finish_device_audit D sb a inodes (oa_referenced_blocks ownership)) (\<lambda>report.
     io_return (report, oa_orphaned_allocations ownership))))))"

definition check_device_allowing_unreachable_inodes :: "'d block_device \<Rightarrow> ('d, fsck_report \<times> u64 list) dev_io" where
  "check_device_allowing_unreachable_inodes D =
     io_bind (read_superblock D) (\<lambda>sb.
     io_bind (load_allocator D sb) (\<lambda>a.
     io_bind (load_inode_table D sb) (\<lambda>inodes.
     io_bind (io_lift (audit_inode_ownership sb a inodes)) (\<lambda>referenced.
     io_seq (audit_inode_payloads D inodes)
     (io_bind (load_directory_table D sb) (\<lambda>entries.
      io_bind (io_lift (scan_namespace inodes entries)) (\<lambda>unreachable.
      io_bind (load_journal_image D sb) (\<lambda>journal.
      io_bind (io_lift (audit_journal sb journal (al_allocated_blocks a) (free_blocks a) (length inodes) referenced (length entries))) (\<lambda>report.
      io_return (report, unreachable))))))))))"

section \<open>What the audits decide\<close>

definition owned_refs :: "persisted_inode list \<Rightarrow> u64 list" where
  "owned_refs inodes = concat (map pi_blocks inodes)"

text \<open>Every block an inode names is an allocated data block, and no block is named twice.\<close>

definition refs_ok :: "superblock \<Rightarrow> block_allocator \<Rightarrow> persisted_inode list \<Rightarrow> bool" where
  "refs_ok sb a inodes \<longleftrightarrow> set (owned_refs inodes) \<subseteq> owned_blocks a \<and> distinct (owned_refs inodes)"

lemma snd_block_refs: "map snd (block_refs inodes) = owned_refs inodes"
  by (simp add: block_refs_def owned_refs_def map_concat comp_def)

text \<open>The reference count cannot overflow: it counts distinct blocks of the device.\<close>

lemma claim_blocks:
  assumes inv: "allocator_inv a" and geo: "al_total_blocks a = sb_total_blocks sb" "al_reserved_blocks a = reserved_blocks sb"
    and "k = card (dom (bt_get owners))" and "dom (bt_get owners) \<subseteq> owned_blocks a"
  shows "(\<exists>owners'. res_fold (claim_block sb a) refs (owners, k) = Inr (owners', k + length refs) \<and>
       dom (bt_get owners') = dom (bt_get owners) \<union> snd ` set refs) \<and>
     set (map snd refs) \<subseteq> owned_blocks a \<and> distinct (map snd refs) \<and> dom (bt_get owners) \<inter> snd ` set refs = {} \<or>
     res_fold (claim_block sb a) refs (owners, k) = Inl InvalidData \<and>
     \<not> (set (map snd refs) \<subseteq> owned_blocks a \<and> distinct (map snd refs) \<and> dom (bt_get owners) \<inter> snd ` set refs = {})"
  using assms(4,5)
proof (induction refs arbitrary: owners k)
  case (Cons r refs)
  obtain ino b where r: "r = (ino, b)" by fastforce
  have fin: "finite (dom (bt_get owners))" by (rule finite_dom_map_of)
  have dom': "dom (bt_get (bt_insert b ino owners)) = insert b (dom (bt_get owners))" by (simp add: bt_get_insert)
  have bound: "Suc k < U64_LIMIT" if "b \<in> owned_blocks a" "b \<notin> dom (bt_get owners)"
  proof -
    have "owned_blocks a \<subseteq> {0..<al_total_blocks a}" "al_total_blocks a < U64_LIMIT"
      using inv by (auto simp: owned_blocks_def allocator_inv_def)
    moreover have "card (insert b (dom (bt_get owners))) \<le> card {0..<al_total_blocks a}"
      using that Cons.prems calculation(1) by (intro card_mono) auto
    ultimately show ?thesis using that Cons.prems(1) fin by simp
  qed
  have step: "claim_block sb a r (owners, k) =
      (if b \<in> owned_blocks a \<and> b \<notin> dom (bt_get owners) then Inr (bt_insert b ino owners, Suc k) else Inl InvalidData)"
    using bound geo
    by (auto simp: claim_block_def r is_owned_in_range owned_blocks_def map_err_def checked_add_def domIff)
  show ?case
  proof (cases "b \<in> owned_blocks a \<and> b \<notin> dom (bt_get owners)")
    case True
    have "Suc k = card (dom (bt_get (bt_insert b ino owners)))" "dom (bt_get (bt_insert b ino owners)) \<subseteq> owned_blocks a"
      unfolding dom' using True Cons.prems fin by auto
    from Cons.IH [OF this] True step dom' show ?thesis by (auto simp: r)
  next
    case False
    with step show ?thesis by (auto simp: r)
  qed
qed simp

definition orphans :: "superblock \<Rightarrow> block_allocator \<Rightarrow> persisted_inode list \<Rightarrow> u64 list" where
  "orphans sb a inodes = filter (\<lambda>b. b \<in> owned_blocks a \<and> b \<notin> set (owned_refs inodes)) [reserved_blocks sb..<sb_total_blocks sb]"

lemma scan_inode_ownership_eq:
  assumes inv: "allocator_inv a" and geo: "al_total_blocks a = sb_total_blocks sb" "al_reserved_blocks a = reserved_blocks sb"
  shows "scan_inode_ownership sb a inodes =
     (if refs_ok sb a inodes
      then Inr \<lparr>oa_referenced_blocks = length (owned_refs inodes), oa_orphaned_allocations = orphans sb a inodes\<rparr>
      else Inl InvalidData)"
proof -
  have refs: "length (block_refs inodes) = length (owned_refs inodes)" "snd ` set (block_refs inodes) = set (owned_refs inodes)"
    using snd_block_refs [of inodes] by (metis length_map, metis image_set)
  have orphan: "res_fold (\<lambda>block orphaned. res_bind (map_err (\<lambda>_. InvalidData) (is_owned a block)) (\<lambda>allocated.
         Inr (if allocated \<and> bt_get owners block = None then orphaned @ [block] else orphaned))) bs acc
      = Inr (acc @ filter (\<lambda>b. b \<in> owned_blocks a \<and> b \<notin> dom (bt_get owners)) bs)"
    if "set bs \<subseteq> {reserved_blocks sb..<sb_total_blocks sb}" for bs owners acc
    using that
  proof (induction bs arbitrary: acc)
    case (Cons b bs)
    then have "is_owned a b = Inr (b \<in> owned_blocks a)" using geo by (auto simp: is_owned_in_range)
    with Cons show ?case by (simp add: map_err_def domIff)
  qed simp
  from claim_blocks [OF inv geo, of 0 "[]" "block_refs inodes"] refs snd_block_refs [of inodes]
  consider (ok) owners' where "res_fold (claim_block sb a) (block_refs inodes) ([], 0) = Inr (owners', length (owned_refs inodes))"
      "dom (bt_get owners') = set (owned_refs inodes)" "refs_ok sb a inodes"
    | (bad) "res_fold (claim_block sb a) (block_refs inodes) ([], 0) = Inl InvalidData" "\<not> refs_ok sb a inodes"
    by (auto simp: refs_ok_def)
  then show ?thesis
  proof cases
    case ok
    with orphan [of "[reserved_blocks sb..<sb_total_blocks sb]" owners' "[]"] show ?thesis
      by (simp add: scan_inode_ownership_def orphans_def)
  qed (simp add: scan_inode_ownership_def)
qed

text \<open>The allocator owns exactly the blocks the inodes name, each once.\<close>

definition ownership_ok :: "superblock \<Rightarrow> block_allocator \<Rightarrow> persisted_inode list \<Rightarrow> bool" where
  "ownership_ok sb a inodes \<longleftrightarrow> owned_blocks a = set (owned_refs inodes) \<and> distinct (owned_refs inodes)"

lemma orphans_empty:
  assumes "owned_blocks a \<subseteq> {reserved_blocks sb..<sb_total_blocks sb}"
  shows "orphans sb a inodes = [] \<longleftrightarrow> owned_blocks a \<subseteq> set (owned_refs inodes)"
  using assms by (auto simp: orphans_def filter_empty_conv)

lemma audit_inode_ownership_eq:
  assumes "allocator_inv a" and geo: "al_total_blocks a = sb_total_blocks sb" "al_reserved_blocks a = reserved_blocks sb"
  shows "audit_inode_ownership sb a inodes =
     (if ownership_ok sb a inodes then Inr (length (owned_refs inodes)) else Inl InvalidData)"
proof -
  have "owned_blocks a \<subseteq> {reserved_blocks sb..<sb_total_blocks sb}"
    using pool.owned_in_space [OF assms(1)] geo by (simp add: data_blocks_def)
  from orphans_empty [OF this, of inodes] show ?thesis
    by (auto simp: audit_inode_ownership_def scan_inode_ownership_eq [OF assms] ownership_ok_def refs_ok_def)
qed

section \<open>The namespace\<close>

definition is_dir :: "persisted_inode list \<Rightarrow> u64 \<Rightarrow> bool" where
  "is_dir inodes ino \<longleftrightarrow> (\<exists>i \<in> set inodes. pi_id i = ino \<and> pi_kind i = Directory)"

definition links :: "directory_entry list \<Rightarrow> (u64 \<times> u64) set" where
  "links entries = (\<lambda>e. (de_parent e, de_target e)) ` set entries"

definition dir_links :: "persisted_inode list \<Rightarrow> directory_entry list \<Rightarrow> (u64 \<times> u64) set" where
  "dir_links inodes entries = {(p, t) \<in> links entries. is_dir inodes t}"

definition entries_ok :: "persisted_inode list \<Rightarrow> directory_entry list \<Rightarrow> bool" where
  "entries_ok inodes entries \<longleftrightarrow> (\<forall>e \<in> set entries. is_dir inodes (de_parent e) \<and> de_target e \<in> pi_id ` set inodes)"

definition tree_ok :: "persisted_inode list \<Rightarrow> directory_entry list \<Rightarrow> bool" where
  "tree_ok inodes entries \<longleftrightarrow> entries_ok inodes entries \<and>
     (inodes \<noteq> [] \<longrightarrow> is_dir inodes ROOT_INODE_ID \<and> acyclic (dir_links inodes entries))"

definition namespace_ok :: "persisted_inode list \<Rightarrow> directory_entry list \<Rightarrow> bool" where
  "namespace_ok inodes entries \<longleftrightarrow> tree_ok inodes entries \<and>
     (\<forall>i \<in> set inodes. (ROOT_INODE_ID, pi_id i) \<in> (links entries)\<^sup>*)"

lemma kinds_lookup:
  assumes "distinct (map pi_id inodes)"
  shows "bt_get (inode_kinds inodes) ino = Some k \<longleftrightarrow> (\<exists>i \<in> set inodes. pi_id i = ino \<and> pi_kind i = k)"
    and "bt_get (inode_kinds inodes) ino = None \<longleftrightarrow> ino \<notin> pi_id ` set inodes"
proof -
  let ?m = "map (\<lambda>inode. (pi_id inode, pi_kind inode)) inodes"
  have d: "distinct (map fst ?m)" using assms by (simp add: comp_def)
  then have e: "bt_get (inode_kinds inodes) = map_of ?m" unfolding inode_kinds_def by (rule bt_get_of_list_distinct)
  show "bt_get (inode_kinds inodes) ino = Some k \<longleftrightarrow> (\<exists>i \<in> set inodes. pi_id i = ino \<and> pi_kind i = k)"
    unfolding e using d by (subst map_of_eq_Some_iff) auto
  show "bt_get (inode_kinds inodes) ino = None \<longleftrightarrow> ino \<notin> pi_id ` set inodes"
    unfolding e by (auto simp: map_of_eq_None_iff image_comp)
qed

lemma link_entries:
  assumes "distinct (map pi_id inodes)"
  shows "res_fold (link_entry (inode_kinds inodes)) entries adj =
     (if entries_ok inodes entries then Inr (fold (\<lambda>e. push_child (de_parent e) (de_target e)) entries adj) else Inl InvalidData)"
proof (induction entries arbitrary: adj)
  case (Cons e entries)
  have "link_entry (inode_kinds inodes) e adj =
      (if is_dir inodes (de_parent e) \<and> de_target e \<in> pi_id ` set inodes then Inr (push_child (de_parent e) (de_target e) adj) else Inl InvalidData)"
    using kinds_lookup [OF assms, of "de_parent e"] kinds_lookup(2) [OF assms, of "de_target e"]
    by (cases "bt_get (inode_kinds inodes) (de_parent e)") (auto simp: link_entry_def is_dir_def)
  with Cons show ?case by (auto simp: entries_ok_def)
qed (simp add: entries_ok_def)

lemma edges_fold: "edges (fold (\<lambda>e. push_child (de_parent e) (de_target e)) entries adj) = edges adj \<union> links entries"
  by (induction entries arbitrary: adj) (auto simp: links_def edges_def children_push split: if_splits)

lemma scan_namespace_eq:
  assumes d: "distinct (map pi_id inodes)"
  shows "scan_namespace inodes entries =
     (if tree_ok inodes entries
      then Inr (sort (map pi_id (filter (\<lambda>i. (ROOT_INODE_ID, pi_id i) \<notin> (links entries)\<^sup>*) inodes)))
      else Inl InvalidData)"
proof (cases "entries_ok inodes entries \<and> inodes \<noteq> []")
  case False
  then show ?thesis by (auto simp: scan_namespace_def Let_def link_entries [OF d] tree_ok_def)
next
  case ok: True
  let ?kinds = "inode_kinds inodes" and ?adj = "fold (\<lambda>e. push_child (de_parent e) (de_target e)) entries []"
  let ?dirs = "map pi_id (filter (\<lambda>i. pi_kind i = Directory) inodes)"
  have kd: "bt_get ?kinds t = Some Directory \<longleftrightarrow> is_dir inodes t" for t
    using kinds_lookup(1) [OF d, of t Directory] by (simp add: is_dir_def)
  have "edges [] = {}" by (simp add: edges_def children_def)
  then have e: "edges ?adj = links entries" using edges_fold [of entries "[]"] by simp
  then have de: "dir_edges ?kinds ?adj = dir_links inodes entries"
    by (auto simp: dir_edges_def edges_def kd dir_links_def)
  have dirs: "set ?dirs = {t. is_dir inodes t}" by (auto simp: is_dir_def)
  have src: "p \<in> set ?dirs" if "(p, t) \<in> dir_edges ?kinds ?adj" for p t
    using that ok unfolding de dirs by (auto simp: dir_links_def links_def entries_ok_def)
  have all: "\<forall>t \<in> set ?dirs. bt_get ?kinds t = Some Directory" unfolding dirs kd by simp
  have au: "(\<exists>st. res_fold (audit_directory_cycle ?kinds ?adj) ?dirs [] = Inr st) \<longleftrightarrow> acyclic (dir_links inodes entries)"
    using audit_all_acyclic(1) [OF all, of ?adj] src unfolding de by blast
  have r: "set (reach_loop ?adj [ROOT_INODE_ID] []) = (links entries)\<^sup>* `` {ROOT_INODE_ID}"
    using reach_loop_eq [of ?adj "[ROOT_INODE_ID]"] e by simp
  have root: "bt_get ?kinds ROOT_INODE_ID = Some Directory \<longleftrightarrow> is_dir inodes ROOT_INODE_ID" by (rule kd)
  show ?thesis
  proof (cases "res_fold (audit_directory_cycle ?kinds ?adj) ?dirs []")
    case (Inl x)
    then have "\<not> acyclic (dir_links inodes entries)" "x = InvalidData"
      using au audit_all_acyclic(2) [OF all src Inl] by auto
    with Inl ok root show ?thesis
      by (cases "bt_get ?kinds ROOT_INODE_ID") (auto simp: scan_namespace_def Let_def link_entries [OF d] tree_ok_def)
  next
    case (Inr st)
    then have "acyclic (dir_links inodes entries)" using au by auto
    with Inr ok root r show ?thesis
      by (cases "bt_get ?kinds ROOT_INODE_ID") (auto simp: scan_namespace_def Let_def link_entries [OF d] tree_ok_def)
  qed
qed

lemma audit_namespace_eq:
  assumes "distinct (map pi_id inodes)"
  shows "audit_namespace inodes entries = (if namespace_ok inodes entries then Inr () else Inl InvalidData)"
proof -
  have "sort (map pi_id (filter (\<lambda>i. (ROOT_INODE_ID, pi_id i) \<notin> (links entries)\<^sup>*) inodes)) = [] \<longleftrightarrow>
      (\<forall>i \<in> set inodes. (ROOT_INODE_ID, pi_id i) \<in> (links entries)\<^sup>*)"
    by (metis (no_types, lifting) filter_empty_conv list.map_disc_iff set_empty set_sort)
  then show ?thesis by (simp add: audit_namespace_def scan_namespace_eq [OF assms] namespace_ok_def)
qed


section \<open>The check as a function of the disk\<close>

lemma audit_journal_loop_ok:
  assumes "parse_log es opn = Some (ts, opn')" and "list_all (entry_home sb) es" and "active = map_option fst opn"
    and "w + length es < U64_LIMIT" and "c + length es < U64_LIMIT"
  shows "\<exists>k. audit_journal_loop sb es active w c = Inr (map_option fst opn', k, c + length ts)"
  using assms
proof (induction es opn arbitrary: ts active w c rule: parse_log.induct)
  case (3 t b d es t' ws)
  then have "t = t'" and "parse_log es (Some (t', ws @ [(b, d)])) = Some (ts, opn')" by (auto split: if_splits)
  with 3(1) [of ts active "Suc w" c] 3(3-) show ?case by (auto simp: home_target_def checked_add_def Let_def)
next
  case (4 t es t' ws)
  then obtain us where us: "t = t'" "parse_log es None = Some (us, opn')" "ts = (t', ws) # us"
    by (auto split: if_splits)
  with 4(1) [of us None w "Suc c"] 4(3-) show ?case by (auto simp: checked_add_def)
qed (auto split: if_splits)

text \<open>The journal audit cannot fail on what the loaders return.\<close>

lemma audit_journal_ok:
  assumes g: "geometry_ok sb" and a: "allocator_inv a" "al_total_blocks a = sb_total_blocks sb" "al_reserved_blocks a = reserved_blocks sb"
    and "well_formed_log es" and "list_all (entry_home sb) es" and "length es < U64_LIMIT"
  obtains rep where "audit_journal sb es (al_allocated_blocks a) (free_blocks a) ni nr nd = Inr rep"
    and "fr_committed_transactions rep = length (transactions es)" and "fr_allocated_blocks rep = card (owned_blocks a)"
    and "fr_data_blocks rep = fr_allocated_blocks rep + fr_free_blocks rep" and "fr_inode_records rep = ni"
    and "fr_referenced_blocks rep = nr" and "fr_directory_entries rep = nd"
proof -
  from assms(5) obtain ts opn where p: "parse_log es None = Some (ts, opn)" by (auto simp: well_formed_log_def)
  from audit_journal_loop_ok [OF p assms(6), of None 0 0] assms(7) obtain k where
    l: "audit_journal_loop sb es None 0 0 = Inr (map_option fst opn, k, length ts)" by auto
  have acc: "al_allocated_blocks a + free_blocks a = sb_total_blocks sb - reserved_blocks sb"
    using allocator_validate_ok(2) [OF a(1)] a(2,3) by simp
  moreover have "sb_total_blocks sb - reserved_blocks sb < U64_LIMIT" using geometry_okD(10) [OF g] by simp
  ultimately have r: "audit_journal sb es (al_allocated_blocks a) (free_blocks a) ni nr nd = Inr
      \<lparr>fr_total_blocks = sb_total_blocks sb, fr_reserved_blocks = reserved_blocks sb,
       fr_data_blocks = sb_total_blocks sb - reserved_blocks sb, fr_allocated_blocks = al_allocated_blocks a,
       fr_free_blocks = free_blocks a, fr_inode_records = ni, fr_referenced_blocks = nr, fr_directory_entries = nd,
       fr_journal_entries = length es, fr_journal_writes = k, fr_committed_transactions = length ts,
       fr_pending_transaction = map_option fst opn\<rparr>"
    using l geometry_order(5) [OF g] by (simp add: audit_journal_def checked_sub_def checked_add_def)
  show thesis by (rule that [OF r]) (use acc p allocated_blocks_card [OF a(1)] in \<open>simp_all add: transactions_def\<close>)
qed

definition payload_disk :: "disk \<Rightarrow> persisted_inode list \<Rightarrow> unit io_result" where
  "payload_disk v inodes =
     res_fold (\<lambda>i _. if pi_kind i \<noteq> Symlink then Inr () else res_bind (read_target_disk i v) (\<lambda>_. Inr ())) inodes ()"

definition payloads_ok :: "disk \<Rightarrow> persisted_inode list \<Rightarrow> bool" where
  "payloads_ok v inodes \<longleftrightarrow> (\<forall>i \<in> set inodes. pi_kind i = Symlink \<longrightarrow> (\<exists>t. read_target_disk i v = Inr t))"

lemma payload_disk_iff: "payload_disk v inodes = Inr () \<longleftrightarrow> payloads_ok v inodes"
proof -
  have "res_fold (\<lambda>i _. if pi_kind i \<noteq> Symlink then Inr () else res_bind (read_target_disk i v) (\<lambda>_. Inr ())) inodes () = Inr ()
      \<longleftrightarrow> payloads_ok v inodes"
    by (induction inodes) (auto simp: payloads_ok_def res_bind_Inr)
  then show ?thesis by (simp add: payload_disk_def)
qed

lemma audit_payloads_mem:
  assumes "set (owned_refs inodes) \<subseteq> {..<n}"
  shows "audit_inode_payloads (mem_device n) inodes v = (payload_disk v inodes, v)"
  using assms
proof (induction inodes)
  case (Cons i inodes)
  have r: "read_symlink_inode (mem_device n) i v = (read_target_disk i v, v)"
    by (rule read_symlink_inode_mem) (use Cons.prems in \<open>auto simp: owned_refs_def\<close>)
  have i: "validate_symlink_inode (mem_device n) i v
      = (if pi_kind i \<noteq> Symlink then Inr () else res_bind (read_target_disk i v) (\<lambda>_. Inr ()), v)"
    by (cases "read_target_disk i v") (simp_all add: validate_symlink_inode_def io_simps r)
  have "audit_inode_payloads (mem_device n) inodes v = (payload_disk v inodes, v)"
    using Cons by (auto simp: owned_refs_def)
  then show ?case
    by (cases "read_target_disk i v") (auto simp: audit_inode_payloads_def payload_disk_def io_simps i)
qed (simp add: audit_inode_payloads_def payload_disk_def io_simps)

definition check_disk :: "u64 \<Rightarrow> disk \<Rightarrow> fsck_report io_result" where
  "check_disk n v =
     res_bind (superblock_decode (v 0)) (\<lambda>sb.
     if sb_total_blocks sb \<noteq> n then Inl InvalidData else
     res_bind (load_allocator_disk sb v) (\<lambda>a.
     res_bind (load_inodes_disk sb v) (\<lambda>inodes.
     res_bind (audit_inode_ownership sb a inodes) (\<lambda>referenced.
     res_bind (payload_disk v inodes) (\<lambda>_.
     res_bind (load_entries_disk sb v) (\<lambda>entries.
     res_bind (audit_namespace inodes entries) (\<lambda>_.
     res_bind (load_disk sb v) (\<lambda>journal.
     audit_journal sb journal (al_allocated_blocks a) (free_blocks a) (length inodes) referenced (length entries)))))))))"

lemma superblock_addressable:
  assumes "superblock_decode bs = Inr sb" and "sb_total_blocks sb = n" and "n * BLOCK_SIZE < U64_LIMIT"
  shows "addressable sb"
  using superblock_decode_geometry [OF assms(1)] assms(2,3) by (simp add: addressable_def)

lemma check_device_mem:
  assumes "disk_ok n v" and "0 < n" and "n * BLOCK_SIZE < U64_LIMIT"
  shows "check_device (mem_device n) v = (check_disk n v, v)"
proof (cases "superblock_decode (v 0)")
  case (Inl e)
  with assms(2) show ?thesis by (simp add: check_device_def read_superblock_def SUPERBLOCK_BLOCK_def io_simps check_disk_def)
next
  case (Inr sb)
  show ?thesis
  proof (cases "sb_total_blocks sb = n")
    case False
    with Inr assms(2) show ?thesis
      by (simp add: check_device_def read_superblock_def SUPERBLOCK_BLOCK_def io_simps check_disk_def)
  next
    case n: True
    note a = superblock_addressable [OF Inr n assms(3)]
    note g = addressable_geometry [OF a]
    have c: "check_region sb n = Inr ()" using geometry_check_region [OF g] n by simp
    note m = load_allocator_mem [OF a n [symmetric] assms(1)] load_inode_table_mem [OF a n [symmetric] assms(1)]
      load_directory_table_mem [OF a n [symmetric] assms(1)] load_mem [OF c assms(1)]
    have sb: "read_superblock (mem_device n) v = (Inr sb, v)"
      using Inr n assms(2) by (simp add: read_superblock_def SUPERBLOCK_BLOCK_def io_simps)
    have p: "audit_inode_payloads (mem_device n) inodes v = (payload_disk v inodes, v)"
      if "load_allocator_disk sb v = Inr al" "audit_inode_ownership sb al inodes = Inr k" for al inodes k
    proof (rule audit_payloads_mem)
      note l = load_allocator_disk_Inr [OF g that(1)]
      have "ownership_ok sb al inodes"
        using that(2) by (simp add: audit_inode_ownership_eq [OF l(1-3)] split: if_splits)
      then show "set (owned_refs inodes) \<subseteq> {..<n}" using l(4) n by (auto simp: ownership_ok_def)
    qed
    show ?thesis
      using p
      by (cases "load_allocator_disk sb v"; cases "load_inodes_disk sb v")
        (auto simp: check_device_def finish_device_audit_def check_disk_def sb m io_simps Inr n res_bind_def
          io_bind_def io_seq_def io_lift_def split: sum.splits prod.splits)
  qed
qed

text \<open>The on-disk consistency the check is meant to establish, free of any algorithm.\<close>

definition holds_tables ::
    "superblock \<Rightarrow> disk \<Rightarrow> block_allocator \<Rightarrow> persisted_inode list \<Rightarrow> directory_entry list \<Rightarrow> bool" where
  "holds_tables sb v a inodes entries \<longleftrightarrow>
     load_allocator_disk sb v = Inr a \<and> load_inodes_disk sb v = Inr inodes \<and> load_entries_disk sb v = Inr entries"

definition tables_ok ::
    "superblock \<Rightarrow> disk \<Rightarrow> block_allocator \<Rightarrow> persisted_inode list \<Rightarrow> directory_entry list \<Rightarrow> bool" where
  "tables_ok sb v a inodes entries \<longleftrightarrow>
     holds_tables sb v a inodes entries \<and> ownership_ok sb a inodes \<and> payloads_ok v inodes \<and> namespace_ok inodes entries"

definition consistent :: "u64 \<Rightarrow> disk \<Rightarrow> bool" where
  "consistent n v \<longleftrightarrow> (\<exists>sb a inodes entries journal. superblock_decode (v 0) = Inr sb \<and> sb_total_blocks sb = n \<and>
     tables_ok sb v a inodes entries \<and> load_disk sb v = Inr journal)"

lemma load_inodes_distinct: "load_inodes_disk sb v = Inr inodes \<Longrightarrow> distinct (map pi_id inodes)"
  using inode_decode_image_Inr(1) by (auto simp: load_inodes_disk_def)

lemma check_disk_iff:
  assumes ok: "disk_ok n v" and n: "n * BLOCK_SIZE < U64_LIMIT"
  shows "(\<exists>rep. check_disk n v = Inr rep) \<longleftrightarrow> consistent n v"
proof -
  have step: "(\<exists>rep. check_disk n v = Inr rep) \<longleftrightarrow> tables_ok sb v a inodes entries"
    if l: "superblock_decode (v 0) = Inr sb" "sb_total_blocks sb = n" "holds_tables sb v a inodes entries"
      "load_disk sb v = Inr journal" for sb a inodes entries journal
  proof -
    note g = superblock_decode_geometry [OF l(1)]
    note al = load_allocator_disk_Inr [OF g, of v a]
    have a: "allocator_inv a" "al_total_blocks a = sb_total_blocks sb" "al_reserved_blocks a = reserved_blocks sb"
      using l(3) al by (auto simp: holds_tables_def)
    have d: "distinct (map pi_id inodes)" using l(3) load_inodes_distinct by (auto simp: holds_tables_def)
    have c: "check_region sb n = Inr ()" using geometry_check_region [OF g] l(2) by simp
    have w: "well_formed_log journal" "list_all (entry_home sb) journal" "length journal < U64_LIMIT"
      using load_disk_valid [OF l(4)] load_disk_length [OF c ok l(4)] by (simp_all add: validate_entries_Inr)
    obtain rep where r: "audit_journal sb journal (al_allocated_blocks a) (free_blocks a) (length inodes)
        (length (owned_refs inodes)) (length entries) = Inr rep"
      using audit_journal_ok [OF g a w] by blast
    show ?thesis
      using l r payload_disk_iff [of v inodes]
      by (auto simp: check_disk_def res_bind_Inr audit_inode_ownership_eq [OF a] audit_namespace_eq [OF d]
          holds_tables_def tables_ok_def split: if_splits)
  qed
  have "(\<exists>rep. check_disk n v = Inr rep) \<Longrightarrow> \<exists>sb a inodes entries journal. superblock_decode (v 0) = Inr sb
      \<and> sb_total_blocks sb = n \<and> holds_tables sb v a inodes entries \<and> load_disk sb v = Inr journal"
    by (auto simp: check_disk_def res_bind_Inr holds_tables_def split: if_splits)
  with step show ?thesis unfolding consistent_def by (metis tables_ok_def)
qed

section \<open>The same on every reliable device\<close>

context read_sim
begin

lemma sim_read_superblock: "dev_sim P abst (\<lambda>_. True) (read_superblock D) (read_superblock E)"
  unfolding read_superblock_def
  by (rule sim_bind [OF sim_count] sim_bind [OF sim_read] sim_bind_lift sim_if sim_fail sim_return sim_lift TrueI)+

lemma sim_finish_device_audit:
  "dev_sim P abst (\<lambda>_. True) (finish_device_audit D sb a is k) (finish_device_audit E sb a is k)"
  unfolding finish_device_audit_def audit_inode_payloads_def
  by (rule sim_seq [OF sim_for] sim_validate_symlink_inode sim_bind [OF sim_load_directory_table] sim_bind [OF sim_load_journal_image]
      sim_bind_lift sim_lift TrueI)+

lemma sim_check_device: "dev_sim P abst (\<lambda>_. True) (check_device D) (check_device E)"
  unfolding check_device_def
  by (rule sim_bind [OF sim_read_superblock] sim_bind [OF sim_load_allocator] sim_bind [OF sim_load_inode_table]
      sim_bind_lift sim_finish_device_audit)+

end

end
