(* ===== verification/Filesystem_State.thy ===== *)
theory Filesystem_State
  imports Metadata_Tx Format_Device Fsck
begin

text \<open>
  The state of a whole filesystem, and what a transaction does to it. \<open>fs_ok\<close> is the invariant
  every mutating operation is meant to keep: the superblock decodes, the three tables load, and
  the audits of \<open>fsck.rs\<close> accept them. \<open>lands\<close> is the contract of a transaction, on the run and
  on every crash of it: the home blocks end as one wanted disk, a crash recovers to the old home
  blocks or to the wanted ones, and nothing in between.
\<close>

section \<open>Landing a transaction\<close>

text \<open>Recovery of \<open>w\<close> succeeds and leaves the home blocks of \<open>v\<close>.\<close>

definition recovers :: "superblock \<Rightarrow> disk \<Rightarrow> disk \<Rightarrow> bool" where
  "recovers sb w v \<longleftrightarrow> disk_ok (sb_total_blocks sb) w \<and> (\<exists>fs. load_disk sb w = Inr fs \<and> same_home sb (recovered fs w) v)"

definition lands :: "superblock \<Rightarrow> disk \<Rightarrow> disk \<Rightarrow> disk \<Rightarrow> dev_event list \<Rightarrow> bool" where
  "lands sb v v' x evs \<longleftrightarrow> recovers sb x v' \<and> same_home sb x v' \<and> run_trace evs v [] = (x, []) \<and>
     (evs = [] \<or> (\<exists>evs'. evs = evs' @ [FlushEv])) \<and> (\<forall>w \<in> crash_disks v evs. recovers sb w v \<or> recovers sb w v')"

lemma landsD:
  assumes "lands sb v v' x evs"
  shows "recovers sb x v'" and "same_home sb x v'" and "disk_ok (sb_total_blocks sb) x"
    and "\<And>w. w \<in> crash_disks v evs \<Longrightarrow> recovers sb w v \<or> recovers sb w v'"
  using assms by (auto simp: lands_def recovers_def)

lemma lands_data:
  assumes "geometry_ok sb" and "lands sb v v' x evs" and "reserved_blocks sb \<le> b"
  shows "x b = v' b"
proof -
  have "1 + sb_journal_blocks sb \<le> b" using assms(3) geometry_order [OF assms(1)] geometry_okD(6) [OF assms(1)] by simp
  then show ?thesis using landsD(2) [OF assms(2)] by (simp add: same_home_def)
qed

lemma same_home_trans: "same_home sb x y \<Longrightarrow> same_home sb y z \<Longrightarrow> same_home sb x z"
  by (simp add: same_home_def)

lemma same_home_sym: "same_home sb x y \<Longrightarrow> same_home sb y x"
  by (simp add: same_home_def)

lemma recovers_same: "recovers sb w v \<Longrightarrow> same_home sb v v' \<Longrightarrow> recovers sb w v'"
  using same_home_trans by (auto simp: recovers_def)

lemma lands_refl: "recovers sb v v \<Longrightarrow> lands sb v v v []"
  by (simp add: lands_def crash_disks_empty)

lemma recovers_empty: "disk_ok (sb_total_blocks sb) v \<Longrightarrow> load_disk sb v = Inr [] \<Longrightarrow> recovers sb v v"
  by (simp add: recovers_def recovered_def)

text \<open>The journal of \<open>w\<close> is loadable exactly as recovery loads it.\<close>

lemma recovers_run:
  assumes g: "geometry_ok sb" and "recovers sb w v"
  obtains fs where "load_disk sb w = Inr fs" and "same_home sb (recovered fs w) v"
    and "recover_journal_and_checkpoint (mem_device (sb_total_blocks sb)) sb w = (Inr (report_of fs), recovered fs w)"
  using assms(2) recover_mem [OF g refl] by (auto simp: recovers_def)

lemma replay_prefix_crash:
  assumes "geometry_ok sb" and "load_disk sb y = Inr es" and "es \<noteq> []"
    and "w \<in> crash_disks y (replay_events es)"
  shows "\<exists>fs. load_disk sb w = Inr fs \<and> recovered fs w = recovered es y"
proof (rule recovery_crash [OF assms(1,2)])
  have "recovery_events es = replay_events es @ [WriteEv 1 empty_anchor_block, FlushEv]"
    using assms(3) by (simp add: recovery_events_def replay_events_def)
  with assms(4) crash_disks_prefix show "w \<in> crash_disks y (recovery_events es)" by auto
qed

lemma run_plan_events: "run_trace (plan_events ws) y [] = (write_all y ws, [])"
  by (simp add: plan_events_def run_trace_append run_trace_writes)

text \<open>Both forms of the commit sequence land the disk they want.\<close>

lemma lands_publish:
  assumes g: "geometry_ok sb" and q: "recovers sb v v"
    and data: "\<forall>(b, d) \<in> set ws. b < U64_LIMIT \<and> length d = BLOCK_SIZE"
    and out: "publish_outcome sb ws settled evs_of v = (Inr rep, x, evs)"
    and how: "settled = recovered \<and> evs_of = recovery_events \<or> settled = replayed \<and> evs_of = replay_events \<and> ws \<noteq> []"
  shows "lands sb v (write_all v ws) x evs"
proof -
  let ?es = "txn_entries (0, ws)" and ?n = "sb_total_blocks sb"
  have v: "disk_ok ?n v" using q by (simp add: recovers_def)
  have c: "check_region sb ?n = Inr ()" using geometry_check_region [OF g] .
  note ok = transaction_entries_ok [OF data]
  from out obtain u y fs where o: "store_outcome sb ?es v = (Inr u, y, fs)"
    and x: "x = settled ?es y" "evs = fs @ evs_of ?es"
    by (auto simp: publish_outcome_def Let_def split: sum.splits prod.splits)
  note s = store_outcome_Inr [OF c v o ok]
  have ne: "?es \<noteq> []" by (simp add: txn_entries_def)
  have cw: "committed_writes ?es = ws" by (simp add: transaction_facts)
  have home: "same_home sb (recovered ?es y) (write_all v ws)"
    using same_home_recovered [OF s(4) geometry_okD(2) [OF g]] .
  have yok: "disk_ok ?n y" by (rule s(3))
  have rec_y: "recovers sb w (write_all v ws)" if "disk_ok ?n w" "\<exists>gs. load_disk sb w = Inr gs \<and> recovered gs w = recovered ?es y" for w
    using that home by (auto simp: recovers_def)
  obtain fs' where fs': "fs = fs' @ [FlushEv]" using s(6) by blast
  have evs: "recovery_events ?es = plan_events ws @ [WriteEv 1 empty_anchor_block, FlushEv]" "replay_events ?es = plan_events ws"
    using ne by (simp_all add: recovery_events_def replay_events_def cw)
  have tail: "run_trace (evs_of ?es) y [] = (x, []) \<and> (\<exists>evs'. evs_of ?es = evs' @ [FlushEv])"
    using how by (auto simp: x(1) evs run_trace_append run_plan_events recovered_def replayed_def cw ne plan_events_def run_trace_writes)
  have xx: "same_home sb x (write_all v ws)"
    using how home same_home_write_all [OF s(4), of ws] by (auto simp: x(1) replayed_def cw)
  have rx: "recovers sb x (write_all v ws)"
  proof (cases "settled = recovered")
    case True
    with rec_y [of x] load_recovered [OF g s(2)] disk_ok_recovered(2) [OF yok s(2)] show ?thesis
      by (auto simp: x(1) recovered_def)
  next
    case False
    with how have st: "x = write_all y (committed_writes ?es)" by (simp add: x(1) replayed_def)
    have l: "load_disk sb x = Inr ?es" unfolding st by (rule load_write_all_home [OF g s(2)]) (simp add: write_all_other)
    have "write_all x (committed_writes ?es) = write_all y (committed_writes ?es)"
      by (rule write_all_absorb) (simp add: st write_all_other)
    with ne have "recovered ?es x = recovered ?es y" by (simp add: recovered_def)
    with l have again: "\<exists>gs. load_disk sb x = Inr gs \<and> recovered gs x = recovered ?es y" by blast
    have "disk_ok ?n x" unfolding st by (rule disk_ok_recovered(1) [OF yok s(2)])
    then show ?thesis using again by (rule rec_y)
  qed
  have crash: "recovers sb w v \<or> recovers sb w (write_all v ws)" if w: "w \<in> crash_disks v evs" for w
  proof -
    from w crash_disks_then [OF s(5) fs'] consider "w \<in> crash_disks v fs" | "w \<in> crash_disks y (evs_of ?es)"
      by (auto simp: x(2))
    then show ?thesis
    proof cases
      case 1
      have "disk_ok ?n w" using crash_disks_ok [OF 1 v] s(7) by auto
      moreover have "recovered [] w = w" by (simp add: recovered_def)
      ultimately have "load_disk sb w = Inr [] \<Longrightarrow> same_home sb w v \<Longrightarrow> recovers sb w v" unfolding recovers_def by metis
      moreover have "recovers sb y (write_all v ws)" using s(2) by (intro rec_y [OF yok]) blast
      ultimately show ?thesis using s(8) [OF 1] by blast
    next
      case 2
      have "length bs = BLOCK_SIZE" if "WriteEv b bs \<in> set (evs_of ?es)" for b bs
        using that how recovery_events_data [OF s(2), of b bs] by (auto simp: evs)
      then have "disk_ok ?n w" using crash_disks_ok [OF 2 yok] by auto
      moreover have "\<exists>gs. load_disk sb w = Inr gs \<and> recovered gs w = recovered ?es y"
        using 2 how recovery_crash [OF g s(2)] replay_prefix_crash [OF g s(2) ne] by auto
      ultimately show ?thesis using rec_y by blast
    qed
  qed
  from tail obtain evs' where "evs_of ?es = evs' @ [FlushEv]" by blast
  then show ?thesis using rx xx crash tail s(5) by (simp add: lands_def x(2) run_trace_append)
qed

lemma lands_commit:
  assumes g: "geometry_ok sb" and q: "recovers sb v v"
    and data: "\<forall>(b, d) \<in> set ws. b < U64_LIMIT \<and> length d = BLOCK_SIZE"
    and out: "commit_outcome sb ws settled evs_of v = (Inr rep, x, evs)"
    and how: "settled = recovered \<and> evs_of = recovery_events \<or> settled = replayed \<and> evs_of = replay_events"
  shows "lands sb v (write_all v ws) x evs"
proof (cases "ws = []")
  case True
  with out q show ?thesis by (simp add: commit_outcome_def lands_refl)
next
  case False
  with out have "publish_outcome sb ws settled evs_of v = (Inr rep, x, evs)" by (simp add: commit_publish_outcome)
  then show ?thesis using how False by (intro lands_publish [OF g q data]) auto
qed

text \<open>Recovering once more after a transaction changes no home block and lands the same disk.\<close>

lemma lands_recover:
  assumes g: "geometry_ok sb" and l: "lands sb v v' x evs"
  obtains rep y us where "\<And>tr. recover_journal_and_checkpoint (trace_device (sb_total_blocks sb)) sb (x, tr) = (Inr rep, y, tr @ us)"
    and "lands sb v v' y (evs @ us)"
proof -
  let ?n = "sb_total_blocks sb"
  from landsD(1) [OF l] obtain fs where x: "disk_ok ?n x" and fs: "load_disk sb x = Inr fs" "same_home sb (recovered fs x) v'"
    by (auto simp: recovers_def)
  have run: "recover_journal_and_checkpoint (trace_device ?n) sb (x, tr) = (Inr (report_of fs), recovered fs x, tr @ recovery_events fs)" for tr
    by (rule recover_trace [OF g refl x fs(1)])
  show thesis
  proof (cases "fs = []")
    case True
    with run l show ?thesis by (intro that [of "report_of []" x "[]"]) (auto simp: recovered_def recovery_events_def)
  next
    case False
    let ?us = "recovery_events fs"
    have us: "run_trace ?us x [] = (recovered fs x, [])" "\<exists>us'. ?us = us' @ [FlushEv]"
      using False by (auto simp: recovery_events_def recovered_def run_trace_append run_plan_events)
    have split: "crash_disks v (evs @ ?us) \<subseteq> crash_disks v evs \<union> crash_disks x ?us"
    proof (cases "evs = []")
      case True
      with l show ?thesis by (auto simp: lands_def)
    next
      case False
      with l obtain evs' where "evs = evs' @ [FlushEv]" "run_trace evs v [] = (x, [])" by (auto simp: lands_def)
      then show ?thesis using crash_disks_then by blast
    qed
    have "recovers sb w v'" if w: "w \<in> crash_disks x ?us" for w
    proof -
      have "disk_ok ?n w" using crash_disks_ok [OF w x] recovery_events_data [OF fs(1)] by auto
      with recovery_crash [OF g fs(1) w] fs(2) show ?thesis by (auto simp: recovers_def)
    qed
    moreover have "recovers sb (recovered fs x) v'"
      using load_recovered [OF g fs(1)] disk_ok_recovered(2) [OF x fs(1)] fs(2) by (auto simp: recovers_def recovered_def)
    ultimately have "lands sb v v' (recovered fs x) (evs @ ?us)"
      using l us split fs(2) by (auto simp: lands_def run_trace_append)
    then show thesis using run that by blast
  qed
qed

section \<open>The filesystem invariant\<close>

definition fs_ok ::
    "superblock \<Rightarrow> disk \<Rightarrow> block_allocator \<Rightarrow> persisted_inode list \<Rightarrow> directory_entry list \<Rightarrow> bool" where
  "fs_ok sb v a inodes entries \<longleftrightarrow> superblock_decode (v 0) = Inr sb \<and> tables_ok sb v a inodes entries"

lemma fs_okD:
  assumes "fs_ok sb v a inodes entries"
  shows "superblock_decode (v 0) = Inr sb" and "geometry_ok sb" and "holds_tables sb v a inodes entries"
    and "allocator_inv a" and "al_total_blocks a = sb_total_blocks sb" and "al_reserved_blocks a = reserved_blocks sb"
    and "distinct (map pi_id inodes)" and "\<forall>i \<in> set inodes. inode_ok i \<and> inode_typed i"
    and "\<forall>e \<in> set entries. dirent_ok e"
    and "ownership_ok sb a inodes" and "payloads_ok v inodes" and "namespace_ok inodes entries"
    and "distinct (map dirent_key entries)"
proof -
  show 1: "superblock_decode (v 0) = Inr sb" using assms by (simp add: fs_ok_def)
  show g: "geometry_ok sb" by (rule superblock_decode_geometry [OF 1])
  show t: "holds_tables sb v a inodes entries" and "ownership_ok sb a inodes" and "payloads_ok v inodes"
    and "namespace_ok inodes entries" using assms by (simp_all add: fs_ok_def tables_ok_def)
  from t have l: "load_allocator_disk sb v = Inr a" "load_inodes_disk sb v = Inr inodes" "load_entries_disk sb v = Inr entries"
    by (simp_all add: holds_tables_def)
  show "allocator_inv a" and "al_total_blocks a = sb_total_blocks sb" and "al_reserved_blocks a = reserved_blocks sb"
    by (rule load_allocator_disk_Inr [OF g l(1)])+
  show "distinct (map pi_id inodes)" by (rule load_inodes_distinct [OF l(2)])
  show "\<forall>i \<in> set inodes. inode_ok i \<and> inode_typed i"
    using l(2) inode_decode_image_Inr(2) by (auto simp: load_inodes_disk_def)
  from l(3) have "directory_decode_image (image_get (directory_range sb) v) = Inr entries" by (simp add: load_entries_disk_def)
  then show "\<forall>e \<in> set entries. dirent_ok e" and "distinct (map dirent_key entries)"
    by (rule directory_decode_image_Inr)+
qed

lemma fs_ok_owned: "fs_ok sb v a inodes entries \<Longrightarrow> i \<in> set inodes \<Longrightarrow> b \<in> set (pi_blocks i) \<Longrightarrow> reserved_blocks sb \<le> b \<and> b < sb_total_blocks sb"
  using pool.owned_in_space [OF fs_okD(4)] fs_okD(5,6,10)
  by (fastforce simp: data_blocks_def ownership_ok_def owned_refs_def)

lemma payloads_ok_cong:
  assumes "\<And>i b. i \<in> set inodes \<Longrightarrow> b \<in> set (pi_blocks i) \<Longrightarrow> w b = v b" and "payloads_ok v inodes"
  shows "payloads_ok w inodes"
proof -
  have "read_target_disk i w = read_target_disk i v" if "i \<in> set inodes" for i
    using assms(1) [OF that] by (simp add: read_target_disk_def cong: map_cong)
  with assms(2) show ?thesis by (simp add: payloads_ok_def)
qed

lemma fs_ok_home:
  assumes "same_home sb w v" and "fs_ok sb v a inodes entries"
  shows "fs_ok sb w a inodes entries"
proof -
  note g = fs_okD(2) [OF assms(2)]
  have "w b = v b" if "i \<in> set inodes" "b \<in> set (pi_blocks i)" for i b
    using fs_ok_owned [OF assms(2) that] geometry_order [OF g] geometry_okD(6) [OF g] assms(1) by (auto simp: same_home_def)
  then have "payloads_ok w inodes" using fs_okD(11) [OF assms(2)] by (rule payloads_ok_cong)
  moreover have "w 0 = v 0" using assms(1) by (simp add: same_home_def)
  ultimately show ?thesis
    using assms(2) by (simp add: fs_ok_def tables_ok_def holds_tables_def same_home_loads [OF g assms(1)])
qed

text \<open>The invariant makes the check succeed, and the check is how the code establishes it.\<close>

lemma fs_ok_consistent:
  "fs_ok sb v a inodes entries \<Longrightarrow> recovers sb v v' \<Longrightarrow> consistent (sb_total_blocks sb) v"
  by (auto simp: consistent_def fs_ok_def recovers_def)

lemma consistent_fs_ok:
  "consistent n v \<longleftrightarrow> (\<exists>sb a inodes entries. n = sb_total_blocks sb \<and> fs_ok sb v a inodes entries \<and> (\<exists>js. load_disk sb v = Inr js))"
  by (auto simp: consistent_def fs_ok_def)

section \<open>Transactions on the tables\<close>

definition reaches :: "superblock \<Rightarrow> disk \<Rightarrow> disk \<Rightarrow> dev_event list \<Rightarrow>
    block_allocator \<Rightarrow> persisted_inode list \<Rightarrow> directory_entry list \<Rightarrow> bool" where
  "reaches sb v x evs a inodes entries \<longleftrightarrow> (\<exists>v'. lands sb v v' x evs \<and> fs_ok sb v' a inodes entries)"

lemma reachesD:
  assumes "reaches sb v x evs a inodes entries"
  shows "fs_ok sb x a inodes entries" and "recovers sb x x"
  using assms fs_ok_home same_home_sym recovers_same by (auto simp: reaches_def lands_def)

lemma reaches_crash:
  assumes "reaches sb v x evs a inodes entries" and "fs_ok sb v a0 inodes0 entries0" and "w \<in> crash_disks v evs"
  shows "disk_ok (sb_total_blocks sb) w \<and> (\<exists>fs. load_disk sb w = Inr fs \<and>
    (same_home sb (recovered fs w) v \<and> fs_ok sb (recovered fs w) a0 inodes0 entries0 \<or>
     same_home sb (recovered fs w) x \<and> fs_ok sb (recovered fs w) a inodes entries))"
proof -
  from assms(1) obtain v' where l: "lands sb v v' x evs" "fs_ok sb v' a inodes entries" by (auto simp: reaches_def)
  have "same_home sb y x" if "same_home sb y v'" for y
    using same_home_trans [OF that same_home_sym [OF landsD(2) [OF l(1)]]] .
  with landsD(4) [OF l(1) assms(3)] show ?thesis
    using fs_ok_home [OF _ assms(2)] fs_ok_home [OF _ l(2)] by (auto simp: recovers_def)
qed

lemma reaches_refl: "fs_ok sb v a inodes entries \<Longrightarrow> recovers sb v v \<Longrightarrow> reaches sb v v [] a inodes entries"
  using lands_refl by (auto simp: reaches_def)

lemma reaches_recover:
  assumes "geometry_ok sb" and "reaches sb v x evs a inodes entries"
  obtains rep y us where "\<And>tr. recover_journal_and_checkpoint (trace_device (sb_total_blocks sb)) sb (x, tr) = (Inr rep, y, tr @ us)"
    and "reaches sb v y (evs @ us) a inodes entries"
proof -
  from assms(2) obtain v' where l: "lands sb v v' x evs" "fs_ok sb v' a inodes entries" by (auto simp: reaches_def)
  show thesis by (rule lands_recover [OF assms(1) l(1)]) (use that l(2) in \<open>auto simp: reaches_def\<close>)
qed

lemma fs_ok_addressable: "fs_ok sb v a inodes entries \<Longrightarrow> sb_total_blocks sb * BLOCK_SIZE < U64_LIMIT \<Longrightarrow> addressable sb"
  using superblock_addressable [OF fs_okD(1)] by blast

lemma put_images_data:
  assumes "geometry_ok sb" and "snapshot sb ps" and "b = 0 \<or> reserved_blocks sb \<le> b"
  shows "put_images ps v b = v b"
  using assms(2,3) geometry_ranges [OF assms(1)] geometry_order [OF assms(1)] geometry_okD(6) [OF assms(1)]
  by (intro put_images_other) (auto simp: snapshot_def)

lemma fs_ok_directory:
  assumes a: "addressable sb" and ok: "fs_ok sb v a inodes entries" and E: "directory_encode_image sb entries' = Inr E"
    and "\<forall>e \<in> set entries'. dirent_typed e" and "namespace_ok inodes entries'"
  shows "fs_ok sb (put_images [(directory_range sb, E)] v) a inodes entries'"
proof -
  let ?w = "put_images [(directory_range sb, E)] v"
  note g = addressable_geometry [OF a]
  have s: "snapshot sb [(directory_range sb, E)]" by (rule snapshotI(4) [OF g E])
  have "image_get (directory_range sb) ?w = E" by (rule put_images_get [OF s]) simp
  then have d: "load_entries_disk sb ?w = Inr entries'"
    using directory_decode_encode_image [OF E assms(4)] by (simp add: load_entries_disk_def)
  have "image_get (allocation_range sb) ?w = image_get (allocation_range sb) v" "image_get (inode_range sb) ?w = image_get (inode_range sb) v"
    using regions_distinct(1) [OF g] by (intro put_images_load_other; auto)+
  then have "load_allocator_disk sb ?w = load_allocator_disk sb v" "load_inodes_disk sb ?w = load_inodes_disk sb v"
    by (simp_all add: load_allocator_disk_def load_inodes_disk_def)
  moreover have "payloads_ok ?w inodes"
    by (rule payloads_ok_cong [OF _ fs_okD(11) [OF ok]]) (rule put_images_data [OF g s], use fs_ok_owned [OF ok] in blast)
  moreover have "?w 0 = v 0" by (rule put_images_data [OF g s]) simp
  ultimately show ?thesis using ok d assms(5) by (simp add: fs_ok_def tables_ok_def holds_tables_def)
qed

lemma allocator_image_geometry:
  "allocator_image sb a = Inr A \<Longrightarrow> al_total_blocks a = sb_total_blocks sb \<and> al_reserved_blocks a = reserved_blocks sb"
  by (auto simp: allocator_image_def split: if_splits)

lemma fs_ok_create:
  assumes a: "addressable sb" and ok: "fs_ok sb v a0 inodes0 entries0" and ps: "create_images sb a inodes' entries = Inr ps"
    and inv: "allocator_inv a" and i: "\<forall>i \<in> set inodes'. inode_typed i" "inodes = map canonical_inode inodes'"
    and e: "\<forall>e \<in> set entries. dirent_typed e"
    and own: "ownership_ok sb a inodes" and pay: "payloads_ok v inodes" and ns: "namespace_ok inodes entries"
  shows "fs_ok sb (put_images ps v) a inodes entries"
proof -
  note g = addressable_geometry [OF a]
  have s: "snapshot sb ps" and geo: "al_total_blocks a = sb_total_blocks sb" "al_reserved_blocks a = reserved_blocks sb"
    using ps snapshotI(1) [OF g] allocator_image_geometry by (auto simp: create_images_def res_bind_Inr)
  have t: "holds_tables sb (put_images ps v) a inodes entries"
    using create_images_load [OF a ps inv i(1) e, of v] i(2) by (simp add: holds_tables_def)
  have "reserved_blocks sb \<le> b" if "j \<in> set inodes" "b \<in> set (pi_blocks j)" for j b
    using that own pool.owned_in_space [OF inv] geo by (fastforce simp: data_blocks_def ownership_ok_def owned_refs_def)
  then have "payloads_ok (put_images ps v) inodes"
    by (intro payloads_ok_cong [OF _ pay] put_images_data [OF g s]) auto
  moreover have "put_images ps v 0 = v 0" by (rule put_images_data [OF g s]) simp
  ultimately show ?thesis using fs_okD(1) [OF ok] t own ns by (simp add: fs_ok_def tables_ok_def)
qed

text \<open>A checkpointing transaction leaves the journal empty.\<close>

lemma commit_checkpoint_empty:
  assumes g: "geometry_ok sb" and v: "disk_ok (sb_total_blocks sb) v" and "\<forall>(b, d) \<in> set ws. b < U64_LIMIT \<and> length d = BLOCK_SIZE"
    and "commit_outcome sb ws recovered recovery_events v = (Inr rep, x, evs)" and "load_disk sb v = Inr []"
  shows "load_disk sb x = Inr []"
proof (cases "ws = []")
  case False
  with assms(4) obtain u y fs where o: "store_outcome sb (txn_entries (0, ws)) v = (Inr u, y, fs)"
    and x: "x = recovered (txn_entries (0, ws)) y"
    by (auto simp: commit_outcome_def Let_def split: sum.splits prod.splits)
  from store_outcome_Inr(2) [OF geometry_check_region [OF g] v o transaction_entries_ok [OF assms(3)]] show ?thesis
    unfolding x by (rule load_recovered [OF g])
qed (use assms(4,5) in \<open>simp add: commit_outcome_def\<close>)

text \<open>What a run of the two table transactions does on the tracing device.\<close>

lemma directory_tx:
  assumes a: "addressable sb" and q: "recovers sb v v" and ok: "fs_ok sb v a inodes entries"
    and ty: "\<forall>e \<in> set entries'. dirent_typed e" and ns: "namespace_ok inodes entries'"
  obtains (failed) e where "\<And>tr. store_directory_table_journaled (trace_device (sb_total_blocks sb)) sb entries' (v, tr) = (Inl e, v, tr)"
  | (stored) rep x evs where
      "\<And>tr. store_directory_table_journaled (trace_device (sb_total_blocks sb)) sb entries' (v, tr) = (Inr rep, x, tr @ evs)"
      "reaches sb v x evs a inodes entries'"
proof -
  note g = addressable_geometry [OF a]
  have v: "disk_ok (sb_total_blocks sb) v" using q by (simp add: recovers_def)
  let ?images = "map_sum id (\<lambda>E. [(directory_range sb, E)]) (directory_encode_image sb entries')"
  obtain r x evs where o: "snapshot_outcome sb replayed replay_events ?images v = (r, x, evs)" by (rule prod_cases3)
  note run = store_directory_journaled_trace [OF a refl v o]
  show thesis
  proof (cases r)
    case (Inl e)
    with snapshot_outcome_Inl o run failed show ?thesis by fastforce
  next
    case (Inr rep)
    then obtain E where E: "directory_encode_image sb entries' = Inr E"
      using o by (cases "directory_encode_image sb entries'") (auto simp: snapshot_outcome_def)
    let ?ps = "[(directory_range sb, E)]"
    have "commit_outcome sb (image_changes ?ps v) replayed replay_events v = (Inr rep, x, evs)"
      using o Inr E by (simp add: snapshot_outcome_def)
    from lands_commit [OF g q snapshot_changes(1) [OF g snapshotI(4) [OF g E]] this]
    have "lands sb v (put_images ?ps v) x evs" by (simp only: write_all_image_changes simp_thms)
    moreover have "fs_ok sb (put_images ?ps v) a inodes entries'" by (rule fs_ok_directory [OF a ok E ty ns])
    ultimately have "reaches sb v x evs a inodes entries'" unfolding reaches_def by blast
    then show ?thesis using stored run Inr by simp
  qed
qed

lemma create_tx:
  assumes a: "addressable sb" and q: "recovers sb v v" and ok: "fs_ok sb v a0 inodes0 entries0"
    and inv: "allocator_inv a" and i: "\<forall>i \<in> set inodes'. inode_typed i" "inodes = map canonical_inode inodes'"
    and e: "\<forall>e \<in> set entries. dirent_typed e"
    and own: "ownership_ok sb a inodes" and pay: "payloads_ok v inodes" and ns: "namespace_ok inodes entries"
  obtains (failed) e where "\<And>tr. store_create_metadata_journaled (trace_device (sb_total_blocks sb)) sb a inodes' entries (v, tr) = (Inl e, v, tr)"
  | (stored) rep x evs where
      "\<And>tr. store_create_metadata_journaled (trace_device (sb_total_blocks sb)) sb a inodes' entries (v, tr) = (Inr rep, x, tr @ evs)"
      "reaches sb v x evs a inodes entries" "load_disk sb v = Inr [] \<Longrightarrow> load_disk sb x = Inr []"
      "\<And>b. reserved_blocks sb \<le> b \<Longrightarrow> x b = v b"
proof -
  note g = addressable_geometry [OF a]
  have v: "disk_ok (sb_total_blocks sb) v" using q by (simp add: recovers_def)
  obtain r x evs where o: "snapshot_outcome sb recovered recovery_events (create_images sb a inodes' entries) v = (r, x, evs)"
    by (rule prod_cases3)
  note run = store_create_trace [OF a refl v o]
  show thesis
  proof (cases r)
    case (Inl e)
    with snapshot_outcome_Inl o run failed show ?thesis by fastforce
  next
    case (Inr rep)
    then obtain ps where ps: "create_images sb a inodes' entries = Inr ps"
      using o by (cases "create_images sb a inodes' entries") (auto simp: snapshot_outcome_def)
    have s: "snapshot sb ps" using ps snapshotI(1) [OF g] by (auto simp: create_images_def res_bind_Inr)
    have c: "commit_outcome sb (image_changes ps v) recovered recovery_events v = (Inr rep, x, evs)"
      using o Inr ps by (simp add: snapshot_outcome_def)
    note empty = commit_checkpoint_empty [OF g v snapshot_changes(1) [OF g s] c]
    from lands_commit [OF g q snapshot_changes(1) [OF g s] c]
    have l: "lands sb v (put_images ps v) x evs" by (simp only: write_all_image_changes simp_thms)
    have "x b = v b" if "reserved_blocks sb \<le> b" for b
      using lands_data [OF g l that] put_images_data [OF g s, of b v] that by simp
    moreover have "fs_ok sb (put_images ps v) a inodes entries" by (rule fs_ok_create [OF a ok ps inv i e own pay ns])
    then have "reaches sb v x evs a inodes entries" using l unfolding reaches_def by blast
    ultimately show ?thesis using stored run Inr empty by simp
  qed
qed

lemma fs_ok_loads:
  assumes "addressable sb" and "disk_ok (sb_total_blocks sb) v" and "fs_ok sb v a inodes entries"
  shows "load_allocator (trace_device (sb_total_blocks sb)) sb (v, tr) = (Inr a, v, tr)"
    and "load_inode_table (trace_device (sb_total_blocks sb)) sb (v, tr) = (Inr inodes, v, tr)"
    and "load_directory_table (trace_device (sb_total_blocks sb)) sb (v, tr) = (Inr entries, v, tr)"
  using loads_trace [OF assms(1) refl assms(2)] fs_okD(3) [OF assms(3)] by (simp_all add: holds_tables_def)

text \<open>The directory transaction followed by a recovery that settles the journal.\<close>

definition publish_directory :: "'d block_device \<Rightarrow> superblock \<Rightarrow> directory_entry list \<Rightarrow> ('d, recovery_report) dev_io" where
  "publish_directory D sb entries =
     io_bind (store_directory_table_journaled D sb entries) (\<lambda>report.
     io_bind (recover_journal_and_checkpoint D sb) (\<lambda>_. io_return report))"

lemma publish_directory_tx:
  assumes a: "addressable sb" and q: "recovers sb v v" and ok: "fs_ok sb v a inodes entries"
    and ty: "\<forall>e \<in> set entries'. dirent_typed e" and ns: "namespace_ok inodes entries'"
  obtains (failed) e where "\<And>tr. publish_directory (trace_device (sb_total_blocks sb)) sb entries' (v, tr) = (Inl e, v, tr)"
  | (stored) rep x evs where
      "\<And>tr. publish_directory (trace_device (sb_total_blocks sb)) sb entries' (v, tr) = (Inr rep, x, tr @ evs)"
      "reaches sb v x evs a inodes entries'"
proof (rule directory_tx [OF a q ok ty ns])
  fix e assume "\<And>tr. store_directory_table_journaled (trace_device (sb_total_blocks sb)) sb entries' (v, tr) = (Inl e, v, tr)"
  then show thesis by (intro failed) (simp add: publish_directory_def io_simps)
next
  fix rep x evs
  assume run: "\<And>tr. store_directory_table_journaled (trace_device (sb_total_blocks sb)) sb entries' (v, tr) = (Inr rep, x, tr @ evs)"
    and r: "reaches sb v x evs a inodes entries'"
  show thesis
    by (rule reaches_recover [OF addressable_geometry [OF a] r])
      (rule stored [of rep], auto simp: publish_directory_def io_simps run)
qed

text \<open>Reading a symbolic link of a filesystem that satisfies the invariant.\<close>

definition read_symlink_disk :: "persisted_inode list \<Rightarrow> u64 \<Rightarrow> disk \<Rightarrow> byte list io_result" where
  "read_symlink_disk inodes ino v =
     res_bind (ok_or InvalidInput (find_inode inodes ino)) (\<lambda>inode.
     if pi_kind inode \<noteq> Symlink then Inl InvalidInput else read_target_disk inode v)"

lemma find_inode_Some: "find_inode inodes ino = Some i \<Longrightarrow> i \<in> set inodes \<and> pi_id i = ino"
  by (auto simp: find_inode_def find_Some_iff)

lemma fs_ok_read_symlink:
  assumes a: "addressable sb" and v: "disk_ok (sb_total_blocks sb) v" and ok: "fs_ok sb v a inodes entries"
  shows "read_symlink (trace_device (sb_total_blocks sb)) sb ino (v, tr) = (read_symlink_disk inodes ino v, v, tr)"
proof (rule read_trace [OF tracing.to_mem.sim_read_symlink _ v])
  show "quiet (read_symlink (trace_device (sb_total_blocks sb)) sb ino)"
    unfolding read_symlink_def read_symlink_inode_def load_inode_table_def inode_validate_geometry_def inode_read_region_def
    by (intro quiet_intros quiet_read_region)+
  have "load_inode_table (mem_device (sb_total_blocks sb)) sb v = (Inr inodes, v)"
    using load_inode_table_mem [OF a refl v] fs_okD(3) [OF ok] by (simp add: holds_tables_def)
  moreover have "read_symlink_inode (mem_device (sb_total_blocks sb)) i v = (read_target_disk i v, v)"
    if "find_inode inodes ino = Some i" for i
    by (rule read_symlink_inode_mem) (use fs_ok_owned [OF ok] find_inode_Some [OF that] in blast)
  ultimately show "read_symlink (mem_device (sb_total_blocks sb)) sb ino v = (read_symlink_disk inodes ino v, v)"
    by (cases "find_inode inodes ino") (auto simp: read_symlink_def read_symlink_disk_def io_simps)
qed

lemma fs_ok_payload:
  assumes a: "addressable sb" and v: "disk_ok (sb_total_blocks sb) v" and ok: "fs_ok sb v a inodes entries" and i: "i \<in> set inodes"
  shows "validate_symlink_inode (trace_device (sb_total_blocks sb)) i (v, tr) = (Inr (), v, tr)"
proof (rule read_trace [OF tracing.to_mem.sim_validate_symlink_inode _ v])
  show "quiet (validate_symlink_inode (trace_device (sb_total_blocks sb)) i)"
    unfolding validate_symlink_inode_def read_symlink_inode_def by (intro quiet_intros)+
  have "read_symlink_inode (mem_device (sb_total_blocks sb)) i v = (read_target_disk i v, v)"
    by (rule read_symlink_inode_mem) (use fs_ok_owned [OF ok i] in blast)
  then show "validate_symlink_inode (mem_device (sb_total_blocks sb)) i v = (Inr (), v)"
    using fs_okD(11) [OF ok] i by (auto simp: validate_symlink_inode_def payloads_ok_def io_simps)
qed

context device_sim
begin

lemma sim_publish_directory: "dev_sim P abst (\<lambda>_. True) (publish_directory D sb es) (publish_directory E sb es)"
  unfolding publish_directory_def
  by (rule sim_bind [OF sim_store_directory_table_journaled] sim_bind [OF sim_recover_journal_and_checkpoint] sim_return TrueI)+

end

section \<open>Ownership of blocks\<close>

lemma owned_refs_distinct:
  assumes "distinct (map pi_id inodes)"
  shows "distinct (owned_refs inodes) \<longleftrightarrow> (\<forall>i \<in> set inodes. distinct (pi_blocks i)) \<and>
     (\<forall>i \<in> set inodes. \<forall>j \<in> set inodes. pi_id i \<noteq> pi_id j \<longrightarrow> set (pi_blocks i) \<inter> set (pi_blocks j) = {})"
  using assms
proof (induction inodes)
  case (Cons i inodes)
  have ne: "pi_id j \<noteq> pi_id i" if "j \<in> set inodes" for j
    using Cons.prems that by (metis distinct.simps(2) imageI list.simps(9) set_map)
  have "distinct (owned_refs (i # inodes)) \<longleftrightarrow> distinct (pi_blocks i) \<and> distinct (owned_refs inodes) \<and>
      (\<forall>j \<in> set inodes. set (pi_blocks i) \<inter> set (pi_blocks j) = {})" by (auto simp: owned_refs_def)
  with Cons ne show ?case by (simp, blast)
qed (simp add: owned_refs_def)

lemma set_owned_refs: "set (owned_refs inodes) = (\<Union>i \<in> set inodes. set (pi_blocks i))"
  by (simp add: owned_refs_def)

lemma ownership_ok_iff:
  assumes "distinct (map pi_id inodes)"
  shows "ownership_ok sb a inodes \<longleftrightarrow> owned_blocks a = (\<Union>i \<in> set inodes. set (pi_blocks i)) \<and>
     (\<forall>i \<in> set inodes. distinct (pi_blocks i)) \<and>
     (\<forall>i \<in> set inodes. \<forall>j \<in> set inodes. pi_id i \<noteq> pi_id j \<longrightarrow> set (pi_blocks i) \<inter> set (pi_blocks j) = {})"
  by (simp add: ownership_ok_def set_owned_refs owned_refs_distinct [OF assms])

text \<open>Removing inodes together with their blocks.\<close>

lemma ownership_remove:
  assumes own: "ownership_ok sb a inodes" and d: "distinct (map pi_id inodes)" "distinct (map pi_id inodes')"
    and i: "set inodes' = {i \<in> set inodes. pi_id i \<notin> R}"
    and o: "owned_blocks a' = owned_blocks a - (\<Union>i \<in> {i \<in> set inodes. pi_id i \<in> R}. set (pi_blocks i))"
  shows "ownership_ok sb a' inodes'"
proof -
  have s: "owned_blocks a = (\<Union>i \<in> set inodes. set (pi_blocks i))" "\<forall>i \<in> set inodes. distinct (pi_blocks i)"
    and dis: "\<And>i j. i \<in> set inodes \<Longrightarrow> j \<in> set inodes \<Longrightarrow> pi_id i \<noteq> pi_id j \<Longrightarrow> set (pi_blocks i) \<inter> set (pi_blocks j) = {}"
    using own by (auto simp: ownership_ok_iff [OF d(1)])
  have "b \<notin> set (pi_blocks j)" if "i \<in> set inodes" "pi_id i \<notin> R" "b \<in> set (pi_blocks i)" "j \<in> set inodes" "pi_id j \<in> R" for i j b
    using dis [OF that(1,4)] that by (metis disjoint_iff)
  then have "owned_blocks a' = (\<Union>i \<in> set inodes'. set (pi_blocks i))" unfolding o s(1) i by auto
  then show ?thesis using s(2) dis by (simp add: ownership_ok_iff [OF d(2)] i)
qed

lemma payloads_ok_subset: "payloads_ok v inodes \<Longrightarrow> set inodes' \<subseteq> set inodes \<Longrightarrow> payloads_ok v inodes'"
  by (auto simp: payloads_ok_def)

section \<open>Fresh filesystems and transactions that fit\<close>

lemma fresh_fs_ok:
  assumes "geometry_ok sb" and "fresh_filesystem sb v"
  shows "fs_ok sb v (empty_allocator sb) [] []"
proof -
  have "owned_blocks (empty_allocator sb) = {}" by (simp add: empty_allocator_def owned_blocks_def)
  then show ?thesis
    using assms superblock_decode_encode [OF assms(1)]
    by (simp add: fs_ok_def tables_ok_def holds_tables_def fresh_filesystem_def ownership_ok_def owned_refs_def payloads_ok_def
        namespace_ok_def tree_ok_def entries_ok_def)
qed

lemma length_image_changes: "length (image_changes ps v) \<le> length (concat (map fst ps))"
  unfolding image_changes_def changes_def by simp

lemma snapshot_succeeds:
  assumes a: "addressable sb" and ps: "snapshot sb ps" and empty: "load_disk sb v = Inr []"
    and fits: "journal_fits sb (length (concat (map fst ps)))"
  shows "\<exists>rep x evs. snapshot_outcome sb settled evs_of (Inr ps) v = (Inr rep, x, evs)"
proof -
  note g = addressable_geometry [OF a]
  have "length (image_changes ps v) * (32 + BLOCK_SIZE) \<le> length (concat (map fst ps)) * (32 + BLOCK_SIZE)"
    by (rule mult_le_mono1 [OF length_image_changes])
  then have "journal_fits sb (length (image_changes ps v))" using fits unfolding journal_fits_def by linarith
  from store_outcome_transaction(3) [OF a empty snapshot_changes(2) [OF g ps] refl this] obtain x evs where
    "store_outcome sb (txn_entries (0, image_changes ps v)) v = (Inr (), x, evs)" by blast
  then show ?thesis by (simp add: snapshot_outcome_def commit_outcome_def Let_def)
qed

lemma create_succeeds:
  assumes a: "addressable sb" and v: "disk_ok (sb_total_blocks sb) v" and empty: "load_disk sb v = Inr []"
    and img: "create_images sb al inodes entries = Inr ps"
    and fits: "journal_fits sb (sb_allocation_blocks sb + sb_inode_blocks sb + sb_directory_blocks sb)"
  shows "\<exists>rep x evs. store_create_metadata_journaled (trace_device (sb_total_blocks sb)) sb al inodes entries (v, []) = (Inr rep, x, evs)"
proof -
  note g = addressable_geometry [OF a]
  have ps: "snapshot sb ps" "length (concat (map fst ps)) = sb_allocation_blocks sb + sb_inode_blocks sb + sb_directory_blocks sb"
    using img snapshotI(1) [OF g] allocation_range_geometry(3) [OF g] inode_range_geometry(3) [OF g] directory_range_geometry(3) [OF g]
    by (auto simp: create_images_def res_bind_Inr)
  obtain rep x evs where "snapshot_outcome sb recovered recovery_events (Inr ps) v = (Inr rep, x, evs)"
    using snapshot_succeeds [OF a ps(1) empty] fits ps(2) by fastforce
  from store_create_trace [OF a refl v, of al inodes entries, unfolded img, OF this] show ?thesis by blast
qed

lemma directory_succeeds:
  assumes a: "addressable sb" and v: "disk_ok (sb_total_blocks sb) v" and empty: "load_disk sb v = Inr []"
    and img: "directory_encode_image sb entries = Inr E" and fits: "journal_fits sb (sb_directory_blocks sb)"
  shows "\<exists>rep x evs. store_directory_table_journaled (trace_device (sb_total_blocks sb)) sb entries (v, []) = (Inr rep, x, evs)"
proof -
  note g = addressable_geometry [OF a]
  have ps: "snapshot sb [(directory_range sb, E)]" by (rule snapshotI(4) [OF g img])
  obtain rep x evs where "snapshot_outcome sb replayed replay_events (Inr [(directory_range sb, E)]) v = (Inr rep, x, evs)"
    using snapshot_succeeds [OF a ps empty] fits directory_range_geometry(3) [OF g] by fastforce
  from store_directory_journaled_trace [OF a refl v, of entries, unfolded img, simplified, OF this] show ?thesis by blast
qed

section \<open>Atomic operations\<close>

text \<open>
  The contract of a mutating operation on a filesystem that satisfies the invariant, on a device whose
  reads, writes and flushes succeed. A refusal leaves the disk as it is, with no write or flush
  issued. A success leaves a filesystem that satisfies the invariant again and whose tables and disk
  are as \<open>Q\<close> says. From a crash at any point of that run, with any subset of the unflushed writes
  lost, recovery succeeds and every home block, of the tables and of the data, is as it was before
  the operation, or every one is as the completed operation leaves it.
\<close>

type_synonym fs_tables = "block_allocator \<times> persisted_inode list \<times> directory_entry list"

definition fs_holds :: "superblock \<Rightarrow> disk \<Rightarrow> fs_tables \<Rightarrow> bool" where
  "fs_holds sb v t \<longleftrightarrow> (case t of (a, inodes, entries) \<Rightarrow> fs_ok sb v a inodes entries)"

definition atomic_op ::
    "superblock \<Rightarrow> disk \<Rightarrow> fs_tables \<Rightarrow> (disk \<times> dev_event list, 'r) dev_io \<Rightarrow> ('r \<Rightarrow> disk \<Rightarrow> fs_tables \<Rightarrow> bool) \<Rightarrow> bool" where
  "atomic_op sb v t op Q \<longleftrightarrow> (case op (v, []) of
       (Inl e, x, tr) \<Rightarrow> x = v \<and> tr = []
     | (Inr r, x, tr) \<Rightarrow> \<exists>t'. Q r x t' \<and> fs_holds sb x t' \<and> recovers sb x x \<and>
         (\<forall>w \<in> crash_disks v tr. \<exists>rep w'. recover_journal_and_checkpoint (mem_device (sb_total_blocks sb)) sb w = (Inr rep, w') \<and>
            (same_home sb w' v \<and> fs_holds sb w' t \<or> same_home sb w' x \<and> fs_holds sb w' t')))"

lemma atomic_op_failed: "(\<And>tr. op (v, tr) = (Inl e, v, tr)) \<Longrightarrow> atomic_op sb v t op Q"
  by (simp add: atomic_op_def)

lemma atomic_op_done:
  assumes "\<And>tr. op (v, tr) = (Inr r, x, tr @ evs)" and "reaches sb v x evs a' inodes' entries'"
    and "fs_ok sb v a inodes entries" and "Q r x (a', inodes', entries')"
  shows "atomic_op sb v (a, inodes, entries) op Q"
proof -
  have "\<exists>rep w'. recover_journal_and_checkpoint (mem_device (sb_total_blocks sb)) sb w = (Inr rep, w') \<and>
      (same_home sb w' v \<and> fs_holds sb w' (a, inodes, entries) \<or> same_home sb w' x \<and> fs_holds sb w' (a', inodes', entries'))"
    if "w \<in> crash_disks v evs" for w
    using reaches_crash [OF assms(2,3) that] recover_mem [OF fs_okD(2) [OF assms(3)] refl, of w] by (auto simp: fs_holds_def)
  moreover have "fs_holds sb x (a', inodes', entries')" "recovers sb x x"
    using reachesD [OF assms(2)] by (simp_all add: fs_holds_def)
  ultimately show ?thesis using assms(1) [of "[]"] assms(4)
    by (simp add: atomic_op_def) (rule exI [of _ a'], rule exI [of _ inodes'], rule exI [of _ entries'], simp)
qed

section \<open>The three tables as the loaders see them\<close>

definition tables_of :: "'d block_device \<Rightarrow> superblock \<Rightarrow> 'd \<Rightarrow>
    block_allocator io_result \<times> persisted_inode list io_result \<times> directory_entry list io_result" where
  "tables_of D sb d = (fst (load_allocator D sb d), fst (load_inode_table D sb d), fst (load_directory_table D sb d))"

lemma tables_of_mem:
  assumes "addressable sb" and "disk_ok (sb_total_blocks sb) v"
  shows "tables_of (mem_device (sb_total_blocks sb)) sb v = (load_allocator_disk sb v, load_inodes_disk sb v, load_entries_disk sb v)"
  by (simp add: tables_of_def load_allocator_mem [OF assms(1) refl assms(2)] load_inode_table_mem [OF assms(1) refl assms(2)]
      load_directory_table_mem [OF assms(1) refl assms(2)])

section \<open>Direct stores\<close>

text \<open>What a store of one table without the journal leaves: the image of the table in its own region.\<close>

lemma stored_table:
  assumes a: "addressable sb" and v: "disk_ok (sb_total_blocks sb) v"
  shows "store_allocator (trace_device (sb_total_blocks sb)) sb al (v, tr) = (Inr (), x, tr') \<Longrightarrow>
      \<exists>img. allocator_image sb al = Inr img \<and> x = image_put (allocation_range sb) img v \<and> disk_ok (sb_total_blocks sb) x"
    and "store_inode_table (trace_device (sb_total_blocks sb)) sb inodes (v, tr) = (Inr (), x, tr') \<Longrightarrow>
      \<exists>img. inode_encode_image sb inodes = Inr img \<and> x = image_put (inode_range sb) img v \<and> disk_ok (sb_total_blocks sb) x"
    and "store_directory_table (trace_device (sb_total_blocks sb)) sb entries (v, tr) = (Inr (), x, tr') \<Longrightarrow>
      \<exists>img. directory_encode_image sb entries = Inr img \<and> x = image_put (directory_range sb) img v \<and> disk_ok (sb_total_blocks sb) x"
proof -
  have start: "sized (trace_device (sb_total_blocks sb)) (\<lambda>s. disk_ok (sb_total_blocks sb) (fst s)) (sb_total_blocks sb) (v, tr)"
    using v by (simp add: sized_def)
  note d = dev_simD(2) [OF tracing.to_mem.sim_store_allocator start] dev_simD(2) [OF tracing.to_mem.sim_store_inode_table start]
    dev_simD(2) [OF tracing.to_mem.sim_store_directory_table start]
  show "\<exists>img. allocator_image sb al = Inr img \<and> x = image_put (allocation_range sb) img v \<and> disk_ok (sb_total_blocks sb) x"
    if r: "store_allocator (trace_device (sb_total_blocks sb)) sb al (v, tr) = (Inr (), x, tr')"
    using d(1) [OF r] r store_allocator_trace [OF a refl, of al v tr] by (auto simp: sized_def split: sum.splits)
  show "\<exists>img. inode_encode_image sb inodes = Inr img \<and> x = image_put (inode_range sb) img v \<and> disk_ok (sb_total_blocks sb) x"
    if r: "store_inode_table (trace_device (sb_total_blocks sb)) sb inodes (v, tr) = (Inr (), x, tr')"
    using d(2) [OF r] r store_inode_table_trace [OF a refl, of inodes v tr] by (auto simp: sized_def split: sum.splits)
  show "\<exists>img. directory_encode_image sb entries = Inr img \<and> x = image_put (directory_range sb) img v \<and> disk_ok (sb_total_blocks sb) x"
    if r: "store_directory_table (trace_device (sb_total_blocks sb)) sb entries (v, tr) = (Inr (), x, tr')"
    using d(3) [OF r] r store_directory_table_trace [OF a refl, of entries v tr] by (auto simp: sized_def split: sum.splits)
qed

lemma image_put_loads:
  assumes "geometry_ok sb"
  shows "load_inodes_disk sb (image_put (allocation_range sb) img v) = load_inodes_disk sb v"
    and "load_entries_disk sb (image_put (allocation_range sb) img v) = load_entries_disk sb v"
    and "load_allocator_disk sb (image_put (inode_range sb) img v) = load_allocator_disk sb v"
    and "load_entries_disk sb (image_put (inode_range sb) img v) = load_entries_disk sb v"
    and "load_allocator_disk sb (image_put (directory_range sb) img v) = load_allocator_disk sb v"
    and "load_inodes_disk sb (image_put (directory_range sb) img v) = load_inodes_disk sb v"
    and "b \<notin> set rng \<Longrightarrow> image_put rng img v b = v b"
proof -
  have other: "image_get rng (image_put rng' img v) = image_get rng v" if "set rng \<inter> set rng' = {}" for rng rng'
    using put_images_load_other [of rng "[(rng', img)]" v] that by auto
  have dis: "set (allocation_range sb) \<inter> set (inode_range sb) = {}" "set (allocation_range sb) \<inter> set (directory_range sb) = {}"
    "set (inode_range sb) \<inter> set (directory_range sb) = {}" using regions_distinct(1) [OF assms] by auto
  note eqs = other [OF dis(1)] other [OF dis(2)] other [OF dis(3)] other [OF dis(1) [unfolded Int_commute [of "set (allocation_range sb)"]]]
    other [OF dis(2) [unfolded Int_commute [of "set (allocation_range sb)"]]] other [OF dis(3) [unfolded Int_commute [of "set (inode_range sb)"]]]
  show "load_inodes_disk sb (image_put (allocation_range sb) img v) = load_inodes_disk sb v"
    "load_entries_disk sb (image_put (allocation_range sb) img v) = load_entries_disk sb v"
    "load_allocator_disk sb (image_put (inode_range sb) img v) = load_allocator_disk sb v"
    "load_entries_disk sb (image_put (inode_range sb) img v) = load_entries_disk sb v"
    "load_allocator_disk sb (image_put (directory_range sb) img v) = load_allocator_disk sb v"
    "load_inodes_disk sb (image_put (directory_range sb) img v) = load_inodes_disk sb v"
    by (simp_all add: load_allocator_disk_def load_inodes_disk_def load_entries_disk_def eqs)
  show "b \<notin> set rng \<Longrightarrow> image_put rng img v b = v b" by (simp add: image_put_def)
qed

end
