(* ===== verification/Namespace_Ops.thy ===== *)
theory Namespace_Ops
  imports Fsck
begin

text \<open>
  How edits of the directory table act on the namespace invariant of \<open>fsck.rs\<close>. The invariant is
  split into the tree of directories and the references to leaves, so that an edit of a leaf
  entry leaves the tree alone and a move of a directory is an argument about one edge.
\<close>

section \<open>The tree of directories and the leaves\<close>

definition leaf :: "persisted_inode list \<Rightarrow> u64 \<Rightarrow> bool" where
  "leaf inodes ino \<longleftrightarrow> ino \<in> pi_id ` set inodes \<and> \<not> is_dir inodes ino"

definition rooted :: "persisted_inode list \<Rightarrow> (u64 \<times> u64) set \<Rightarrow> bool" where
  "rooted inodes L \<longleftrightarrow> (inodes \<noteq> [] \<longrightarrow> is_dir inodes ROOT_INODE_ID \<and> acyclic L) \<and>
     (\<forall>d. is_dir inodes d \<longrightarrow> (ROOT_INODE_ID, d) \<in> L\<^sup>*)"

lemma dir_path:
  assumes "entries_ok inodes entries" and "(x, y) \<in> (links entries)\<^sup>*" and "is_dir inodes y"
  shows "(x, y) \<in> (dir_links inodes entries)\<^sup>*"
  using assms(2,3)
proof (induction rule: rtrancl_induct)
  case (step y z)
  then have "is_dir inodes y" using assms(1) by (auto simp: links_def entries_ok_def)
  moreover from step have "(y, z) \<in> dir_links inodes entries" by (simp add: dir_links_def)
  ultimately show ?case using step.IH by (meson rtrancl.rtrancl_into_rtrancl)
qed simp

lemma dir_links_sub: "(dir_links inodes entries)\<^sup>* \<subseteq> (links entries)\<^sup>*"
  by (rule rtrancl_mono) (auto simp: dir_links_def)

lemma namespace_ok_iff:
  "namespace_ok inodes entries \<longleftrightarrow> entries_ok inodes entries \<and> rooted inodes (dir_links inodes entries) \<and>
     (\<forall>l. leaf inodes l \<longrightarrow> l \<in> de_target ` set entries)" (is "?L \<longleftrightarrow> ?R")
proof
  assume L: ?L
  then have ok: "entries_ok inodes entries" by (simp add: namespace_ok_def tree_ok_def)
  have reach: "(ROOT_INODE_ID, x) \<in> (links entries)\<^sup>*" if "x \<in> pi_id ` set inodes" for x
    using L that by (auto simp: namespace_ok_def)
  have "(ROOT_INODE_ID, d) \<in> (dir_links inodes entries)\<^sup>*" if "is_dir inodes d" for d
    using reach dir_path [OF ok _ that] that by (auto simp: is_dir_def)
  moreover have "l \<in> de_target ` set entries" if "leaf inodes l" for l
  proof -
    from that L have "l \<noteq> ROOT_INODE_ID" by (auto simp: leaf_def namespace_ok_def tree_ok_def)
    with reach [of l] that show ?thesis by (auto simp: leaf_def links_def elim: rtranclE)
  qed
  ultimately show ?R using L by (auto simp: rooted_def namespace_ok_def tree_ok_def)
next
  assume R: ?R
  have "(ROOT_INODE_ID, x) \<in> (links entries)\<^sup>*" if "x \<in> pi_id ` set inodes" for x
  proof (cases "is_dir inodes x")
    case True
    with R dir_links_sub show ?thesis by (auto simp: rooted_def)
  next
    case False
    with that R obtain e where e: "e \<in> set entries" "x = de_target e" by (auto simp: leaf_def)
    with R have "(ROOT_INODE_ID, de_parent e) \<in> (dir_links inodes entries)\<^sup>*" by (auto simp: rooted_def entries_ok_def)
    then have "(ROOT_INODE_ID, de_parent e) \<in> (links entries)\<^sup>*" by (rule subsetD [OF dir_links_sub])
    moreover have "(de_parent e, x) \<in> links entries" using e by (auto simp: links_def)
    ultimately show ?thesis by simp
  qed
  with R show ?L by (auto simp: namespace_ok_def tree_ok_def rooted_def)
qed

section \<open>Edits of leaf entries\<close>

lemma dir_links_Un: "set entries = A \<union> set rest \<Longrightarrow>
    dir_links inodes entries = {(p, t) \<in> (\<lambda>e. (de_parent e, de_target e)) ` A. is_dir inodes t} \<union> dir_links inodes rest"
  by (auto simp: dir_links_def links_def)

lemma dir_links_insert:
  "set entries = insert e (set rest) \<Longrightarrow> dir_links inodes entries =
     (if is_dir inodes (de_target e) then insert (de_parent e, de_target e) (dir_links inodes rest) else dir_links inodes rest)"
  using dir_links_Un [of entries "{e}" rest inodes] by auto

lemma namespace_leaf_edit:
  assumes "namespace_ok inodes entries" and "entries_ok inodes entries'"
    and "dir_links inodes entries' = dir_links inodes entries"
    and "\<And>l. leaf inodes l \<Longrightarrow> l \<in> de_target ` set entries \<Longrightarrow> l \<in> de_target ` set entries'"
  shows "namespace_ok inodes entries'"
  using assms by (auto simp: namespace_ok_iff)

text \<open>A new name for an existing leaf.\<close>

lemma namespace_link_leaf:
  assumes "namespace_ok inodes entries" and "is_dir inodes (de_parent e)" and "leaf inodes (de_target e)"
  shows "namespace_ok inodes (entries @ [e])"
proof (rule namespace_leaf_edit [OF assms(1)])
  show "entries_ok inodes (entries @ [e])"
    using assms by (auto simp: namespace_ok_iff entries_ok_def leaf_def)
  show "dir_links inodes (entries @ [e]) = dir_links inodes entries"
    using assms(3) dir_links_insert [of "entries @ [e]" e entries] by (simp add: leaf_def)
qed auto

text \<open>Dropping one of several names of a leaf.\<close>

lemma namespace_unlink_leaf:
  assumes ok: "namespace_ok inodes entries" and k: "k < length entries" and "leaf inodes (de_target (entries ! k))"
    and "\<exists>e \<in> set (remove_at k entries). de_target e = de_target (entries ! k)"
  shows "namespace_ok inodes (remove_at k entries)"
proof (rule namespace_leaf_edit [OF ok])
  note s = set_remove_at [OF k]
  show "entries_ok inodes (remove_at k entries)" using ok s by (auto simp: namespace_ok_iff entries_ok_def)
  show "dir_links inodes (remove_at k entries) = dir_links inodes entries"
    using dir_links_insert [OF s] assms(3) by (simp add: leaf_def)
  show "l \<in> de_target ` set (remove_at k entries)" if "l \<in> de_target ` set entries" for l
  proof -
    from that have "l = de_target (entries ! k) \<or> l \<in> de_target ` set (remove_at k entries)" unfolding s by auto
    moreover from assms(4) have "de_target (entries ! k) \<in> de_target ` set (remove_at k entries)" by (auto intro: rev_image_eqI)
    ultimately show ?thesis by blast
  qed
qed

text \<open>Another name or place for an entry of a leaf.\<close>

lemma namespace_move_leaf:
  assumes ok: "namespace_ok inodes entries" and k: "k < length entries" and "leaf inodes (de_target (entries ! k))"
    and "de_target e = de_target (entries ! k)" and "is_dir inodes (de_parent e)"
  shows "namespace_ok inodes (entries[k := e])"
proof (rule namespace_leaf_edit [OF ok])
  note s = set_remove_at [OF k] set_update_remove [OF k, of e]
  show "entries_ok inodes (entries[k := e])" using ok s assms(3-) by (auto simp: namespace_ok_iff entries_ok_def leaf_def)
  show "dir_links inodes (entries[k := e]) = dir_links inodes entries"
    using dir_links_insert [OF s(1)] dir_links_insert [OF s(2)] assms(3,4) by (simp add: leaf_def)
  show "l \<in> de_target ` set (entries[k := e])" if "l \<in> de_target ` set entries" for l
    using that assms(4) by (auto simp: s)
qed

section \<open>Moving a directory\<close>

lemma namespace_move_directory:
  assumes ok: "namespace_ok inodes entries" and k: "k < length entries" and t: "is_dir inodes (de_target (entries ! k))"
    and e: "de_target e = de_target (entries ! k)" "is_dir inodes (de_parent e)"
    and no: "(de_target e, de_parent e) \<notin> (dir_links inodes (remove_at k entries))\<^sup>*"
  shows "namespace_ok inodes (entries[k := e])"
proof -
  let ?L = "dir_links inodes (remove_at k entries)" and ?t = "de_target e"
  note s = set_remove_at [OF k] set_update_remove [OF k, of e]
  have old: "dir_links inodes entries = insert (de_parent (entries ! k), ?t) ?L"
    using dir_links_insert [OF s(1)] t e(1) by simp
  have new: "dir_links inodes (entries[k := e]) = insert (de_parent e, ?t) ?L"
    using dir_links_insert [OF s(2)] t e(1) by simp
  have ok': "entries_ok inodes entries" "rooted inodes (insert (de_parent (entries ! k), ?t) ?L)"
    using ok by (simp_all add: namespace_ok_iff old)
  have ne: "inodes \<noteq> []" using t by (auto simp: is_dir_def)
  have reach: "(ROOT_INODE_ID, d) \<in> ?L\<^sup>* \<or> (?t, d) \<in> ?L\<^sup>*" if "is_dir inodes d" for d
    using ok'(2) that by (auto simp: rooted_def rtrancl_insert)
  have parent: "(ROOT_INODE_ID, de_parent e) \<in> ?L\<^sup>*" using reach [OF e(2)] no by blast
  have "(ROOT_INODE_ID, d) \<in> (insert (de_parent e, ?t) ?L)\<^sup>*" if "is_dir inodes d" for d
    using reach [OF that] parent by (auto simp: rtrancl_insert)
  moreover have "acyclic (insert (de_parent e, ?t) ?L)"
    using ok'(2) ne no by (simp add: rooted_def acyclic_insert)
  ultimately have "rooted inodes (dir_links inodes (entries[k := e]))"
    using ok'(2) by (simp add: rooted_def new)
  moreover have "entries_ok inodes (entries[k := e])"
    using ok'(1) s t e by (auto simp: entries_ok_def is_dir_def)
  moreover have "l \<in> de_target ` set (entries[k := e])" if "leaf inodes l" for l
    using ok that e(1) by (auto simp: namespace_ok_iff s)
  ultimately show ?thesis by (simp add: namespace_ok_iff)
qed

section \<open>Adding an inode\<close>

text \<open>A new inode under one name in an existing directory.\<close>

lemma namespace_create:
  assumes ok: "namespace_ok inodes entries" and fresh: "pi_id i \<notin> pi_id ` set inodes" and p: "is_dir inodes p"
  shows "namespace_ok (inodes @ [i]) (entries @ [\<lparr>de_parent = p, de_target = pi_id i, de_name = nm\<rparr>])" (is "namespace_ok ?is ?es")
proof -
  let ?L = "dir_links inodes entries"
  have e: "entries_ok inodes entries" and r: "rooted inodes ?L" and l: "\<And>l. leaf inodes l \<Longrightarrow> l \<in> de_target ` set entries"
    using ok by (auto simp: namespace_ok_iff)
  have d: "is_dir ?is x \<longleftrightarrow> is_dir inodes x \<or> x = pi_id i \<and> pi_kind i = Directory" for x by (auto simp: is_dir_def)
  have ne: "inodes \<noteq> []" using p by (auto simp: is_dir_def)
  have old: "x \<noteq> pi_id i" if "is_dir inodes x" for x using that fresh unfolding is_dir_def by (metis imageI)
  have tgt: "de_target x \<noteq> pi_id i" if "x \<in> set entries" for x using e that fresh by (metis entries_ok_def)
  have L: "dir_links ?is ?es = (if pi_kind i = Directory then insert (p, pi_id i) ?L else ?L)"
  proof -
    have "is_dir ?is y \<longleftrightarrow> is_dir inodes y" if "(x, y) \<in> links entries" for x y
      using that tgt by (auto simp: links_def d)
    moreover have "links ?es = insert (p, pi_id i) (links entries)" by (simp add: links_def)
    moreover have "is_dir ?is (pi_id i) \<longleftrightarrow> pi_kind i = Directory" using old by (auto simp: d)
    ultimately show ?thesis by (auto simp: dir_links_def)
  qed
  have out: "(y, x) \<in> ?L \<Longrightarrow> is_dir inodes y" for x y using e by (auto simp: dir_links_def links_def entries_ok_def)
  have "(pi_id i, p) \<notin> ?L\<^sup>*"
  proof
    assume "(pi_id i, p) \<in> ?L\<^sup>*"
    then show False by (cases rule: converse_rtranclE) (use old [OF p] out old in blast)+
  qed
  then have "acyclic (dir_links ?is ?es)" using r ne by (simp add: L rooted_def acyclic_insert)
  moreover have "(ROOT_INODE_ID, x) \<in> (dir_links ?is ?es)\<^sup>*" if x: "is_dir ?is x" for x
  proof (cases "is_dir inodes x")
    case True
    have "?L \<subseteq> dir_links ?is ?es" by (auto simp: L)
    then have "?L\<^sup>* \<subseteq> (dir_links ?is ?es)\<^sup>*" by (rule rtrancl_mono)
    with True r show ?thesis by (auto simp: rooted_def)
  next
    case False
    with x have "pi_kind i = Directory" "x = pi_id i" by (auto simp: d)
    moreover have "(ROOT_INODE_ID, p) \<in> ?L\<^sup>*" using r p by (simp add: rooted_def)
    ultimately show ?thesis by (auto simp: L rtrancl_insert)
  qed
  ultimately have "rooted ?is (dir_links ?is ?es)" using r ne by (auto simp: rooted_def d)
  moreover have "entries_ok ?is ?es" using e p by (auto simp: entries_ok_def d)
  moreover have "x \<in> de_target ` set ?es" if "leaf ?is x" for x
    using that l [of x] by (auto simp: leaf_def d)
  ultimately show ?thesis by (simp add: namespace_ok_iff)
qed

section \<open>Removing inodes\<close>

text \<open>
  Removing a set of inodes that is closed under directory children, together with every entry that
  touches it, keeps the invariant as long as the surviving leaves keep a name.
\<close>

lemma namespace_remove:
  assumes ok: "namespace_ok inodes entries" and root: "ROOT_INODE_ID \<notin> R"
    and i: "set inodes' = {i \<in> set inodes. pi_id i \<notin> R}" and sub: "set entries' \<subseteq> set entries"
    and stay: "\<forall>e \<in> set entries'. de_parent e \<notin> R \<and> de_target e \<notin> R"
    and gone: "\<forall>e \<in> set entries - set entries'. de_parent e \<in> R \<or> de_target e \<in> R"
    and closed: "\<And>x y. (x, y) \<in> dir_links inodes entries \<Longrightarrow> x \<in> R \<Longrightarrow> y \<in> R"
    and leaves: "\<And>l. leaf inodes l \<Longrightarrow> l \<notin> R \<Longrightarrow> l \<in> de_target ` set entries'"
  shows "namespace_ok inodes' entries'"
proof -
  have dir: "is_dir inodes' d \<longleftrightarrow> is_dir inodes d \<and> d \<notin> R" for d by (auto simp: is_dir_def i)
  have ids: "x \<in> pi_id ` set inodes' \<longleftrightarrow> x \<in> pi_id ` set inodes \<and> x \<notin> R" for x by (auto simp: i)
  have nR: "x \<notin> R" if "(x, y) \<in> (dir_links inodes entries)\<^sup>*" "y \<notin> R" for x y
    using that by (induction rule: converse_rtrancl_induct) (auto dest: closed)
  have keep: "(x, y) \<in> dir_links inodes' entries'" if "(x, y) \<in> dir_links inodes entries" "x \<notin> R" "y \<notin> R" for x y
    using that gone by (auto simp: dir_links_def links_def dir)
  have "(ROOT_INODE_ID, d) \<in> (dir_links inodes' entries')\<^sup>*"
    if "(ROOT_INODE_ID, d) \<in> (dir_links inodes entries)\<^sup>*" "d \<notin> R" for d
    using that
  proof (induction rule: rtrancl_induct)
    case (step y z)
    have "y \<notin> R" using nR [of y z] step by auto
    with step keep show ?case by (meson rtrancl.rtrancl_into_rtrancl)
  qed simp
  moreover have "acyclic (dir_links inodes' entries')" if "inodes \<noteq> []"
    using ok that sub by (auto simp: namespace_ok_iff rooted_def dir_links_def links_def dir intro: acyclic_subset)
  moreover have "inodes' \<noteq> [] \<Longrightarrow> inodes \<noteq> []" using i by auto
  ultimately have "rooted inodes' (dir_links inodes' entries')"
    using ok root by (auto simp: namespace_ok_iff rooted_def dir)
  moreover have "entries_ok inodes' entries'"
    using ok sub stay by (auto simp: namespace_ok_iff entries_ok_def dir ids subset_iff)
  moreover have "l \<in> de_target ` set entries'" if "leaf inodes' l" for l
    using that leaves [of l] by (auto simp: leaf_def dir ids)
  ultimately show ?thesis by (simp add: namespace_ok_iff)
qed

end
