(* ===== verification/Rename_Tx.thy ===== *)
theory Rename_Tx
  imports Filesystem_State Namespace_Ops Symlink
begin

text \<open>
  \<open>rename_tx.rs\<close>: moving one directory entry. The search that refuses to move a directory below
  itself is proved equal to reachability, and the operation as a whole keeps the filesystem
  invariant, also across crashes.
\<close>

definition validate_directory_parent :: "persisted_inode list \<Rightarrow> u64 \<Rightarrow> unit io_result" where
  "validate_directory_parent inodes parent =
     res_bind (ok_or InvalidInput (find_inode inodes parent)) (\<lambda>inode.
     if pi_kind inode \<noteq> Directory then Inl InvalidInput else Inr ())"

function seek_loop :: "adjacency \<Rightarrow> u64 \<Rightarrow> u64 list \<Rightarrow> u64 list \<Rightarrow> bool" where
  "seek_loop adj new_parent pending seen =
     (if pending = [] then False
      else
        let inode = last pending; rest = butlast pending in
        if inode \<in> set seen then seek_loop adj new_parent rest seen
        else if inode = new_parent then True
        else seek_loop adj new_parent (rest @ children adj inode) (snd (bt_set_insert inode seen)))"
  by pat_completeness auto

termination seek_loop
proof (relation "inv_image (finite_psubset <*lex*> less_than) (\<lambda>(adj, new_parent, pending, seen). (fst ` set adj - set seen, length pending))",
    goal_cases)
  case 1
  then show ?case by (auto intro!: wf_inv_image wf_lex_prod wf_finite_psubset)
next
  case (2 adj new_parent pending seen inode rest)
  then show ?case by simp
next
  case (3 adj new_parent pending seen inode rest)
  then show ?case
    by (cases "children adj inode = []") (auto simp: finite_psubset_def set_bt_set_insert dest!: children_key)
qed

declare seek_loop.simps [simp del]

definition would_create_directory_cycle :: "directory_entry list \<Rightarrow> nat \<Rightarrow> u64 \<Rightarrow> u64 \<Rightarrow> bool" where
  "would_create_directory_cycle entries source_index target new_parent =
     (if target = new_parent then True
      else
        let adj = fold (\<lambda>(index, e) adj. if index \<noteq> source_index then push_child (de_parent e) (de_target e) adj else adj)
                    (List.enumerate 0 entries) [] in
        seek_loop adj new_parent [target] [])"

definition rename_entry_journaled ::
    "'d block_device \<Rightarrow> superblock \<Rightarrow> u64 \<Rightarrow> byte list \<Rightarrow> u64 \<Rightarrow> byte list \<Rightarrow> ('d, recovery_report) dev_io" where
  "rename_entry_journaled D sb old_parent old_name new_parent new_name =
     io_bind (load_inode_table D sb) (\<lambda>inodes.
     io_bind (io_lift (validate_directory_parent inodes old_parent)) (\<lambda>_.
     io_bind (io_lift (validate_directory_parent inodes new_parent)) (\<lambda>_.
     io_bind (load_directory_table D sb) (\<lambda>entries.
     io_bind (io_lift (ok_or InvalidInput (position (\<lambda>e. de_parent e = old_parent \<and> de_name e = old_name) entries))) (\<lambda>source_index.
     let target = de_target (entries ! source_index) in
     if target = 1 then io_fail InvalidInput
     else if old_parent = new_parent \<and> old_name = new_name
     then io_return \<lparr>committed_transactions = 0, home_writes = 0\<rparr>
     else if list_ex (\<lambda>(index, e). index \<noteq> source_index \<and> de_parent e = new_parent \<and> de_name e = new_name) (List.enumerate 0 entries)
     then io_fail InvalidInput
     else
       let candidate = \<lparr>de_parent = new_parent, de_target = target, de_name = new_name\<rparr> in
       io_bind (io_lift (encode_directory_entry candidate)) (\<lambda>_.
       io_bind (io_lift (ok_or InvalidInput (find_inode inodes target))) (\<lambda>target_inode.
       if pi_kind target_inode = Directory \<and> would_create_directory_cycle entries source_index target new_parent
       then io_fail InvalidInput
       else store_directory_table_journaled D sb (entries[source_index := candidate]))))))))"

section \<open>The cycle search\<close>

lemma seek_loop_steps [simp]:
  "seek_loop adj g [] seen = False"
  "i \<in> set seen \<Longrightarrow> seek_loop adj g (rest @ [i]) seen = seek_loop adj g rest seen"
  "g \<notin> set seen \<Longrightarrow> seek_loop adj g (rest @ [g]) seen"
  "i \<notin> set seen \<Longrightarrow> i \<noteq> g \<Longrightarrow> seek_loop adj g (rest @ [i]) seen = seek_loop adj g (rest @ children adj i) (snd (bt_set_insert i seen))"
  by (simp_all add: seek_loop.simps [of adj g "rest @ [i]"] seek_loop.simps [of adj g "rest @ [g]"] seek_loop.simps [of adj g "[]"])

lemma seek_loop_reach:
  "g \<notin> set seen \<Longrightarrow> seek_loop adj g pending seen \<longleftrightarrow> g \<in> set (reach_loop adj pending seen)"
proof (induction pending seen rule: reach_loop_induct [of _ adj])
  case (visit rest i seen)
  show ?case
  proof (cases "i = g")
    case True
    with visit.hyps reach_loop_mono [of seen "rest @ [i]" adj] show ?thesis by auto
  next
    case False
    with visit show ?thesis by (simp add: set_bt_set_insert)
  qed
qed auto

lemma fold_others:
  assumes "k < length xs"
  shows "fold (\<lambda>(i, x) s. if i \<noteq> k then f x s else s) (List.enumerate 0 xs) s = fold f (remove_at k xs) s"
proof -
  have skip: "fold (\<lambda>(i, x) s. if i \<noteq> k then f x s else s) (List.enumerate j ys) s = fold f ys s" if "k < j \<or> j + length ys \<le> k" for j ys s
    using that by (induction ys arbitrary: j s) auto
  have xs: "xs = take k xs @ xs ! k # drop (Suc k) xs" by (rule id_take_nth_drop [OF assms])
  have "List.enumerate 0 xs = List.enumerate 0 (take k xs) @ (k, xs ! k) # List.enumerate (Suc k) (drop (Suc k) xs)"
    using assms by (subst xs, subst enumerate_append_eq) (simp add: min_def)
  then show ?thesis using skip [of 0 "take k xs"] skip [of "Suc k"] by (simp add: remove_at_def)
qed

lemma would_create_directory_cycle_eq:
  assumes "k < length entries"
  shows "would_create_directory_cycle entries k target new_parent \<longleftrightarrow> (target, new_parent) \<in> (links (remove_at k entries))\<^sup>*"
proof -
  let ?adj = "fold (\<lambda>e. push_child (de_parent e) (de_target e)) (remove_at k entries) []"
  have "edges ?adj = links (remove_at k entries)" using edges_fold [of _ "[]"] by (simp add: edges_def children_def)
  then have "seek_loop ?adj new_parent [target] [] \<longleftrightarrow> (target, new_parent) \<in> (links (remove_at k entries))\<^sup>*"
    by (simp add: seek_loop_reach reach_loop_eq)
  moreover have "fold (\<lambda>(index, e) adj. if index \<noteq> k then push_child (de_parent e) (de_target e) adj else adj) (List.enumerate 0 entries) [] = ?adj"
    by (rule fold_others [OF assms])
  ultimately show ?thesis by (auto simp: would_create_directory_cycle_def)
qed

section \<open>The operation keeps the invariant\<close>

lemma find_inode_kind:
  assumes "distinct (map pi_id inodes)" and "find_inode inodes ino = Some i"
  shows "is_dir inodes ino \<longleftrightarrow> pi_kind i = Directory" and "leaf inodes ino \<longleftrightarrow> pi_kind i \<noteq> Directory"
proof -
  have i: "i \<in> set inodes" "pi_id i = ino" using find_inode_Some [OF assms(2)] by auto
  have "j = i" if "j \<in> set inodes" "pi_id j = ino" for j
    using assms(1) i that by (metis distinct_map inj_onD)
  then show d: "is_dir inodes ino \<longleftrightarrow> pi_kind i = Directory" unfolding is_dir_def using i by blast
  have "ino \<in> pi_id ` set inodes" using i by blast
  then show "leaf inodes ino \<longleftrightarrow> pi_kind i \<noteq> Directory" by (simp add: leaf_def d)
qed

lemma validate_directory_parent_Inr: "validate_directory_parent inodes p = Inr u \<Longrightarrow> is_dir inodes p"
  by (auto simp: validate_directory_parent_def res_bind_Inr is_dir_def dest!: find_inode_Some split: if_splits)

lemma namespace_rename:
  assumes d: "distinct (map pi_id inodes)" and ok: "namespace_ok inodes entries" and k: "k < length entries"
    and p: "is_dir inodes p" and i: "find_inode inodes (de_target (entries ! k)) = Some i"
    and no: "pi_kind i = Directory \<Longrightarrow> \<not> would_create_directory_cycle entries k (de_target (entries ! k)) p"
  shows "namespace_ok inodes (entries[k := \<lparr>de_parent = p, de_target = de_target (entries ! k), de_name = nm\<rparr>])"
proof (cases "pi_kind i = Directory")
  case True
  with no have "(de_target (entries ! k), p) \<notin> (links (remove_at k entries))\<^sup>*"
    using would_create_directory_cycle_eq [OF k] by blast
  with dir_links_sub have "(de_target (entries ! k), p) \<notin> (dir_links inodes (remove_at k entries))\<^sup>*" by blast
  with True show ?thesis
    using find_inode_kind(1) [OF d i] p by (intro namespace_move_directory [OF ok k]) auto
next
  case False
  then show ?thesis using find_inode_kind(2) [OF d i] p by (intro namespace_move_leaf [OF ok k]) auto
qed

text \<open>The entries after a successful rename, or \<open>None\<close> when nothing is to be done.\<close>

definition rename_result :: "u64 \<Rightarrow> byte list \<Rightarrow> u64 \<Rightarrow> byte list \<Rightarrow> directory_entry list \<Rightarrow> directory_entry list" where
  "rename_result old_parent old_name new_parent new_name entries =
     map (\<lambda>e. if de_parent e = old_parent \<and> de_name e = old_name then e\<lparr>de_parent := new_parent, de_name := new_name\<rparr> else e) entries"

lemma rename_result_update:
  assumes "distinct (map dirent_key entries)" and "position (\<lambda>e. de_parent e = p \<and> de_name e = nm) entries = Some k"
  shows "entries[k := \<lparr>de_parent = p', de_target = de_target (entries ! k), de_name = nm'\<rparr>] = rename_result p nm p' nm' entries"
proof (rule nth_equalityI)
  from position_Some [OF assms(2)] have k: "k < length entries" "de_parent (entries ! k) = p" "de_name (entries ! k) = nm" by auto
  show "entries[k := \<lparr>de_parent = p', de_target = de_target (entries ! k), de_name = nm'\<rparr>] ! j = rename_result p nm p' nm' entries ! j"
    if "j < length (entries[k := \<lparr>de_parent = p', de_target = de_target (entries ! k), de_name = nm'\<rparr>])" for j
  proof -
    from that have j: "j < length entries" by simp
    show ?thesis
    proof (cases "j = k")
      case True
      with k show ?thesis by (cases "entries ! k") (simp add: rename_result_def)
    next
      case False
      then have "dirent_key (entries ! j) \<noteq> dirent_key (entries ! k)"
        using assms(1) j k(1) by (metis length_map nth_eq_iff_index_eq nth_map)
      with False j k show ?thesis by (auto simp: rename_result_def dirent_key_def)
    qed
  qed
qed (simp add: rename_result_def)

text \<open>The decision the operation takes on the loaded tables.\<close>

definition rename_plan :: "persisted_inode list \<Rightarrow> directory_entry list \<Rightarrow> u64 \<Rightarrow> byte list \<Rightarrow> u64 \<Rightarrow> byte list \<Rightarrow>
    directory_entry list option io_result" where
  "rename_plan inodes entries old_parent old_name new_parent new_name =
     res_bind (validate_directory_parent inodes old_parent) (\<lambda>_.
     res_bind (validate_directory_parent inodes new_parent) (\<lambda>_.
     res_bind (ok_or InvalidInput (position (\<lambda>e. de_parent e = old_parent \<and> de_name e = old_name) entries)) (\<lambda>k.
     let target = de_target (entries ! k); candidate = \<lparr>de_parent = new_parent, de_target = target, de_name = new_name\<rparr> in
     if target = 1 then Inl InvalidInput
     else if old_parent = new_parent \<and> old_name = new_name then Inr None
     else if list_ex (\<lambda>(index, e). index \<noteq> k \<and> de_parent e = new_parent \<and> de_name e = new_name) (List.enumerate 0 entries)
     then Inl InvalidInput
     else
       res_bind (encode_directory_entry candidate) (\<lambda>_.
       res_bind (ok_or InvalidInput (find_inode inodes target)) (\<lambda>inode.
       if pi_kind inode = Directory \<and> would_create_directory_cycle entries k target new_parent then Inl InvalidInput
       else Inr (Some (entries[k := candidate])))))))"

lemma rename_entry_trace:
  assumes "load_inode_table D sb s = (Inr inodes, s)" and "load_directory_table D sb s = (Inr entries, s)"
  shows "rename_entry_journaled D sb p nm p' nm' s =
     io_bind (io_lift (rename_plan inodes entries p nm p' nm')) (\<lambda>r. case r of
       None \<Rightarrow> io_return \<lparr>committed_transactions = 0, home_writes = 0\<rparr>
     | Some entries' \<Rightarrow> store_directory_table_journaled D sb entries') s"
  unfolding rename_entry_journaled_def rename_plan_def Let_def plan_simps io_bind_read [of "load_inode_table D sb", OF assms(1)]
  by (intro io_lift_cong) (simp add: plan_simps io_bind_read [of "load_directory_table D sb", OF assms(2)] cong: if_cong)

lemma rename_plan_Inr:
  assumes d: "distinct (map pi_id inodes)" and k: "distinct (map dirent_key entries)" and e: "\<forall>e \<in> set entries. dirent_ok e"
    and ok: "namespace_ok inodes entries" and ty: "utf8_valid nm'" "p' < U64_LIMIT"
    and plan: "rename_plan inodes entries p nm p' nm' = Inr r"
  shows "r = None \<Longrightarrow> rename_result p nm p' nm' entries = entries"
    and "r = Some entries' \<Longrightarrow> entries' = rename_result p nm p' nm' entries \<and> namespace_ok inodes entries' \<and> (\<forall>e \<in> set entries'. dirent_typed e)"
proof -
  assume "r = None"
  with plan have "p = p'" "nm = nm'" by (auto simp: rename_plan_def res_bind_Inr Let_def split: if_splits)
  then show "rename_result p nm p' nm' entries = entries" by (auto simp: rename_result_def intro!: map_idI)
next
  assume "r = Some entries'"
  with plan obtain j i bs where j: "position (\<lambda>e. de_parent e = p \<and> de_name e = nm) entries = Some j"
    and "validate_directory_parent inodes p' = Inr ()" and i: "find_inode inodes (de_target (entries ! j)) = Some i"
    and "pi_kind i = Directory \<Longrightarrow> \<not> would_create_directory_cycle entries j (de_target (entries ! j)) p'"
    and e': "entries' = entries[j := \<lparr>de_parent = p', de_target = de_target (entries ! j), de_name = nm'\<rparr>]"
    by (auto simp: rename_plan_def res_bind_Inr ok_or_Inr Let_def split: if_splits)
  moreover note validate_directory_parent_Inr position_Some [OF j]
  ultimately have "namespace_ok inodes entries'" by (auto intro!: namespace_rename [OF d ok])
  moreover have "dirent_typed e" if "e \<in> set entries'" for e
    using that e ty position_Some [OF j] set_remove_at [of j entries]
    by (auto simp: e' set_update_remove dirent_typed_def dirent_ok_def)
  ultimately show "entries' = rename_result p nm p' nm' entries \<and> namespace_ok inodes entries' \<and> (\<forall>e \<in> set entries'. dirent_typed e)"
    using rename_result_update [OF k j] e' by blast
qed

lemma rename_run:
  assumes a: "addressable sb" and ok: "fs_ok sb v a inodes entries" and q: "recovers sb v v"
    and ty: "utf8_valid nm'" "p' < U64_LIMIT"
  obtains (failed) e where "\<And>tr. rename_entry_journaled (trace_device (sb_total_blocks sb)) sb p nm p' nm' (v, tr) = (Inl e, v, tr)"
  | (renamed) rep x evs where
      "\<And>tr. rename_entry_journaled (trace_device (sb_total_blocks sb)) sb p nm p' nm' (v, tr) = (Inr rep, x, tr @ evs)"
      "reaches sb v x evs a inodes (rename_result p nm p' nm' entries)"
proof -
  have v: "disk_ok (sb_total_blocks sb) v" using q by (simp add: recovers_def)
  note run = rename_entry_trace [OF fs_ok_loads(2,3) [OF a v ok], of p nm p' nm']
  note ok' = fs_okD(7,13,9,12) [OF ok]
  consider (err) e where "rename_plan inodes entries p nm p' nm' = Inl e" | (same) "rename_plan inodes entries p nm p' nm' = Inr None"
    | (new) entries' where "rename_plan inodes entries p nm p' nm' = Inr (Some entries')"
    by (metis sum.exhaust option.exhaust)
  then show thesis
  proof cases
    case err
    with run failed show ?thesis by (simp add: io_simps)
  next
    case same
    with rename_plan_Inr(1) [OF ok' ty same] run renamed [OF _ reaches_refl] ok q show ?thesis by (simp add: io_simps)
  next
    case (new entries')
    note e = rename_plan_Inr(2) [OF ok' ty new refl]
    show ?thesis
      by (rule directory_tx [OF a q ok, of entries']) (use e run new failed renamed in \<open>auto simp: io_simps\<close>)
  qed
qed

context device_sim
begin

lemma sim_rename_entry_journaled:
  "dev_sim P abst (\<lambda>_. True) (rename_entry_journaled D sb p nm p' nm') (rename_entry_journaled E sb p nm p' nm')"
  unfolding rename_entry_journaled_def Let_def
  by (rule sim_bind [OF sim_load_inode_table] sim_bind [OF sim_load_directory_table] sim_bind_lift sim_if sim_fail sim_return
      sim_store_directory_table_journaled TrueI)+

end

end
