(* ===== verification/Link_Tx.thy ===== *)
theory Link_Tx
  imports Rename_Tx
begin

text \<open>
  \<open>hard_link_tx.rs\<close> and \<open>hard_unlink_tx.rs\<close>: a further name for a file or symbolic link, and
  dropping a name that is not the last one. Both rewrite only the directory table; both keep the
  filesystem invariant.
\<close>

definition validate_link_endpoints ::
    "'d block_device \<Rightarrow> superblock \<Rightarrow> u64 \<Rightarrow> byte list \<Rightarrow> u64 \<Rightarrow> inode_kind \<Rightarrow> ('d, unit) dev_io" where
  "validate_link_endpoints D sb parent name target required_kind =
     io_bind (load_inode_table D sb) (\<lambda>inodes.
     io_bind (io_lift (ok_or InvalidInput (find_inode inodes parent))) (\<lambda>parent_inode.
     if pi_kind parent_inode \<noteq> Directory then io_fail InvalidInput
     else
     io_bind (io_lift (ok_or InvalidInput (find_inode inodes target))) (\<lambda>target_inode.
     if pi_kind target_inode \<noteq> required_kind then io_fail InvalidInput
     else
     io_bind (load_directory_table D sb) (\<lambda>entries.
     if list_ex (\<lambda>e. de_parent e = parent \<and> de_name e = name) entries then io_fail InvalidInput
     else io_return ()))))"

definition publish_link :: "'d block_device \<Rightarrow> superblock \<Rightarrow> u64 \<Rightarrow> byte list \<Rightarrow> u64 \<Rightarrow> ('d, recovery_report) dev_io" where
  "publish_link D sb parent name target =
     io_bind (load_directory_table D sb) (\<lambda>entries.
     publish_directory D sb (entries @ [\<lparr>de_parent = parent, de_target = target, de_name = name\<rparr>]))"

definition hard_link_file_journaled ::
    "'d block_device \<Rightarrow> superblock \<Rightarrow> u64 \<Rightarrow> byte list \<Rightarrow> u64 \<Rightarrow> ('d, recovery_report) dev_io" where
  "hard_link_file_journaled D sb parent name target =
     io_seq (validate_link_endpoints D sb parent name target File) (publish_link D sb parent name target)"

definition hard_link_symlink_journaled ::
    "'d block_device \<Rightarrow> superblock \<Rightarrow> u64 \<Rightarrow> byte list \<Rightarrow> u64 \<Rightarrow> ('d, recovery_report) dev_io" where
  "hard_link_symlink_journaled D sb parent name target =
     io_seq (validate_link_endpoints D sb parent name target Symlink)
     (io_bind (read_symlink D sb target) (\<lambda>_. publish_link D sb parent name target))"

definition unlink_nonfinal_link_journaled ::
    "'d block_device \<Rightarrow> superblock \<Rightarrow> u64 \<Rightarrow> byte list \<Rightarrow> inode_kind \<Rightarrow> bool \<Rightarrow> ('d, recovery_report) dev_io" where
  "unlink_nonfinal_link_journaled D sb parent name expected_kind validate_symlink_payload =
     io_bind (load_inode_table D sb) (\<lambda>inodes.
     io_bind (load_directory_table D sb) (\<lambda>entries.
     io_bind (io_lift (ok_or InvalidInput (position (\<lambda>e. de_parent e = parent \<and> de_name e = name) entries))) (\<lambda>index.
     let target = de_target (entries ! index) in
     io_bind (io_lift (ok_or InvalidInput (find_inode inodes target))) (\<lambda>inode.
     if pi_kind inode \<noteq> expected_kind then io_fail InvalidInput
     else if length (filter (\<lambda>e. de_target e = target) entries) < 2 then io_fail InvalidInput
     else
     io_seq (io_when validate_symlink_payload (io_bind (read_symlink D sb target) (\<lambda>_. io_return ())))
     (publish_directory D sb (remove_at index entries))))))"

definition unlink_nonfinal_file_link_journaled ::
    "'d block_device \<Rightarrow> superblock \<Rightarrow> u64 \<Rightarrow> byte list \<Rightarrow> ('d, recovery_report) dev_io" where
  "unlink_nonfinal_file_link_journaled D sb parent name = unlink_nonfinal_link_journaled D sb parent name File False"

definition unlink_nonfinal_symlink_link_journaled ::
    "'d block_device \<Rightarrow> superblock \<Rightarrow> u64 \<Rightarrow> byte list \<Rightarrow> ('d, recovery_report) dev_io" where
  "unlink_nonfinal_symlink_link_journaled D sb parent name = unlink_nonfinal_link_journaled D sb parent name Symlink True"

section \<open>Linking\<close>

definition endpoints_ok ::
    "persisted_inode list \<Rightarrow> directory_entry list \<Rightarrow> u64 \<Rightarrow> byte list \<Rightarrow> u64 \<Rightarrow> inode_kind \<Rightarrow> bool" where
  "endpoints_ok inodes entries parent name target kind \<longleftrightarrow>
     (\<exists>p. find_inode inodes parent = Some p \<and> pi_kind p = Directory) \<and>
     (\<exists>t. find_inode inodes target = Some t \<and> pi_kind t = kind) \<and>
     (\<forall>e \<in> set entries. de_parent e = parent \<longrightarrow> de_name e \<noteq> name)"

lemma validate_link_endpoints_run:
  assumes "load_inode_table D sb s = (Inr inodes, s)" and "load_directory_table D sb s = (Inr entries, s)"
  shows "validate_link_endpoints D sb parent name target kind s =
     ((if endpoints_ok inodes entries parent name target kind then Inr () else Inl InvalidInput), s)"
  by (cases "find_inode inodes parent"; cases "find_inode inodes target")
    (auto simp: validate_link_endpoints_def endpoints_ok_def io_simps assms list_ex_iff)

lemma endpoints_namespace:
  assumes ok: "fs_ok sb v a inodes entries" and e: "endpoints_ok inodes entries parent name target kind"
    and "kind \<noteq> Directory" and ty: "utf8_valid name" "parent < U64_LIMIT" "target < U64_LIMIT"
  shows "namespace_ok inodes (entries @ [\<lparr>de_parent = parent, de_target = target, de_name = name\<rparr>])"
    and "\<forall>e \<in> set (entries @ [\<lparr>de_parent = parent, de_target = target, de_name = name\<rparr>]). dirent_typed e"
proof -
  from e obtain p t where "find_inode inodes parent = Some p" "pi_kind p = Directory"
    "find_inode inodes target = Some t" "pi_kind t = kind" by (auto simp: endpoints_ok_def)
  with find_inode_kind [OF fs_okD(7) [OF ok]] assms(3)
  show "namespace_ok inodes (entries @ [\<lparr>de_parent = parent, de_target = target, de_name = name\<rparr>])"
    by (intro namespace_link_leaf [OF fs_okD(12) [OF ok]]) auto
  show "\<forall>e \<in> set (entries @ [\<lparr>de_parent = parent, de_target = target, de_name = name\<rparr>]). dirent_typed e"
    using fs_okD(9) [OF ok] dirent_ok_typed ty by (auto simp: dirent_typed_def)
qed

lemma hard_link_run:
  assumes a: "addressable sb" and ok: "fs_ok sb v a inodes entries" and q: "recovers sb v v"
    and ty: "utf8_valid name" "parent < U64_LIMIT" "target < U64_LIMIT"
    and op: "op = hard_link_file_journaled (trace_device (sb_total_blocks sb)) sb parent name target \<and> kind = File \<or>
      op = hard_link_symlink_journaled (trace_device (sb_total_blocks sb)) sb parent name target \<and> kind = Symlink"
  obtains (failed) e where "\<And>tr. op (v, tr) = (Inl e, v, tr)"
  | (linked) rep x evs where "\<And>tr. op (v, tr) = (Inr rep, x, tr @ evs)"
      "endpoints_ok inodes entries parent name target kind"
      "reaches sb v x evs a inodes (entries @ [\<lparr>de_parent = parent, de_target = target, de_name = name\<rparr>])"
proof (cases "endpoints_ok inodes entries parent name target kind")
  case False
  have v: "disk_ok (sb_total_blocks sb) v" using q by (simp add: recovers_def)
  note l = validate_link_endpoints_run [OF fs_ok_loads(2,3) [OF a v ok]]
  from False op show ?thesis
    by (intro failed [of InvalidInput]) (auto simp: hard_link_file_journaled_def hard_link_symlink_journaled_def io_simps l)
next
  case True
  have v: "disk_ok (sb_total_blocks sb) v" using q by (simp add: recovers_def)
  note l = validate_link_endpoints_run [OF fs_ok_loads(2,3) [OF a v ok], of parent name target]
  let ?es = "entries @ [\<lparr>de_parent = parent, de_target = target, de_name = name\<rparr>]"
  have "kind \<noteq> Directory" using op by auto
  note e = endpoints_namespace [OF ok True this ty]
  from True obtain t where t: "find_inode inodes target = Some t" "pi_kind t = kind" by (auto simp: endpoints_ok_def)
  have "\<exists>bs. read_symlink_disk inodes target v = Inr bs" if "kind = Symlink"
    using t that fs_okD(11) [OF ok] find_inode_Some [OF t(1)] by (auto simp: read_symlink_disk_def payloads_ok_def)
  then have run: "op (v, tr) = publish_directory (trace_device (sb_total_blocks sb)) sb ?es (v, tr)" for tr
    using op True fs_ok_loads(3) [OF a v ok] fs_ok_read_symlink [OF a v ok, of target]
    by (auto simp: hard_link_file_journaled_def hard_link_symlink_journaled_def publish_link_def io_simps l)
  show ?thesis by (rule publish_directory_tx [OF a q ok e(2,1)]) (use run True failed linked in auto)
qed

section \<open>Dropping a name\<close>

definition unlink_nonfinal_plan ::
    "persisted_inode list \<Rightarrow> directory_entry list \<Rightarrow> u64 \<Rightarrow> byte list \<Rightarrow> inode_kind \<Rightarrow> directory_entry list io_result" where
  "unlink_nonfinal_plan inodes entries parent name kind =
     res_bind (ok_or InvalidInput (position (\<lambda>e. de_parent e = parent \<and> de_name e = name) entries)) (\<lambda>index.
     let target = de_target (entries ! index) in
     res_bind (ok_or InvalidInput (find_inode inodes target)) (\<lambda>inode.
     if pi_kind inode \<noteq> kind then Inl InvalidInput
     else if length (filter (\<lambda>e. de_target e = target) entries) < 2 then Inl InvalidInput
     else Inr (remove_at index entries)))"

lemma remove_key:
  assumes "distinct (map dirent_key entries)" and "position (\<lambda>e. de_parent e = parent \<and> de_name e = name) entries = Some k"
  shows "remove_at k entries = filter (\<lambda>e. dirent_key e \<noteq> (parent, name)) entries"
proof -
  from position_Some [OF assms(2)] have k: "k < length entries" "dirent_key (entries ! k) = (parent, name)"
    by (auto simp: dirent_key_def)
  note d = distinct_remove_at(2) [OF k(1) assms(1)]
  have "filter (\<lambda>e. dirent_key e \<noteq> (parent, name)) (take k entries @ entries ! k # drop (Suc k) entries) = remove_at k entries"
  proof -
    have "\<forall>e \<in> set (remove_at k entries). dirent_key e \<noteq> (parent, name)" using d k(2) by (auto simp: image_iff)
    then have "filter (\<lambda>e. dirent_key e \<noteq> (parent, name)) (remove_at k entries) = remove_at k entries" by (rule filter_True)
    with k(2) show ?thesis by (simp add: remove_at_def)
  qed
  then show ?thesis using id_take_nth_drop [OF k(1)] by simp
qed

lemma unlink_nonfinal_plan_Inr:
  assumes ok: "fs_ok sb v a inodes entries" and kind: "kind \<noteq> Directory"
    and plan: "unlink_nonfinal_plan inodes entries parent name kind = Inr entries'"
  shows "namespace_ok inodes entries'" and "\<forall>e \<in> set entries'. dirent_typed e"
    and "entries' = filter (\<lambda>e. dirent_key e \<noteq> (parent, name)) entries"
proof -
  from plan obtain k i where k: "position (\<lambda>e. de_parent e = parent \<and> de_name e = name) entries = Some k"
    and i: "find_inode inodes (de_target (entries ! k)) = Some i" "pi_kind i = kind"
    and c: "2 \<le> length (filter (\<lambda>e. de_target e = de_target (entries ! k)) entries)"
    and e': "entries' = remove_at k entries"
    by (auto simp: unlink_nonfinal_plan_def res_bind_Inr Let_def not_less split: if_splits)
  have lt: "k < length entries" using position_Some [OF k] by simp
  show "namespace_ok inodes entries'" unfolding e'
    using find_inode_kind(2) [OF fs_okD(7) [OF ok] i(1)] i(2) kind count_many_remove_at [OF c lt]
    by (intro namespace_unlink_leaf [OF fs_okD(12) [OF ok] lt]) auto
  show "\<forall>e \<in> set entries'. dirent_typed e"
    using fs_okD(9) [OF ok] dirent_ok_typed set_remove_at [OF lt] by (auto simp: e')
  show "entries' = filter (\<lambda>e. dirent_key e \<noteq> (parent, name)) entries"
    unfolding e' by (rule remove_key [OF fs_okD(13) [OF ok] k])
qed

lemma unlink_nonfinal_run:
  assumes a: "addressable sb" and ok: "fs_ok sb v a inodes entries" and q: "recovers sb v v"
    and kind: "kind \<noteq> Directory" and payload: "check \<longrightarrow> kind = Symlink"
  obtains (failed) e where "\<And>tr. unlink_nonfinal_link_journaled (trace_device (sb_total_blocks sb)) sb parent name kind check (v, tr) = (Inl e, v, tr)"
  | (dropped) rep x evs where
      "\<And>tr. unlink_nonfinal_link_journaled (trace_device (sb_total_blocks sb)) sb parent name kind check (v, tr) = (Inr rep, x, tr @ evs)"
      "reaches sb v x evs a inodes (filter (\<lambda>e. dirent_key e \<noteq> (parent, name)) entries)"
proof -
  let ?D = "trace_device (sb_total_blocks sb)"
  have v: "disk_ok (sb_total_blocks sb) v" using q by (simp add: recovers_def)
  note l = fs_ok_loads(2,3) [OF a v ok] fs_ok_read_symlink [OF a v ok]
  have sym: "io_seq (io_bind (read_symlink ?D sb ino) (\<lambda>_. io_return ())) M (v, tr) = M (v, tr)"
    if "find_inode inodes ino = Some i" "pi_kind i = Symlink" for ino i tr and M :: "(disk \<times> dev_event list, recovery_report) dev_io"
    using that fs_okD(11) [OF ok] find_inode_Some [OF that(1)] by (auto simp: read_symlink_disk_def payloads_ok_def io_simps l(3))
  have run: "unlink_nonfinal_link_journaled ?D sb parent name kind check (v, tr) =
      io_bind (io_lift (unlink_nonfinal_plan inodes entries parent name kind)) (publish_directory ?D sb) (v, tr)" for tr
    unfolding unlink_nonfinal_link_journaled_def unlink_nonfinal_plan_def Let_def 
      io_bind_read [of "load_inode_table ?D sb", OF l(1)] io_bind_read [of "load_directory_table ?D sb", OF l(2)] plan_simps
    using payload by (intro io_lift_cong) (auto simp: io_when_def io_simps sym)
  show thesis
  proof (cases "unlink_nonfinal_plan inodes entries parent name kind")
    case (Inl e)
    with run failed show ?thesis by (simp add: io_simps)
  next
    case (Inr entries')
    note e = unlink_nonfinal_plan_Inr [OF ok kind Inr]
    show ?thesis by (rule publish_directory_tx [OF a q ok e(2,1)]) (use run Inr e(3) failed dropped in \<open>auto simp: io_simps\<close>)
  qed
qed

context device_sim
begin

lemma sim_hard_links:
  "dev_sim P abst (\<lambda>_. True) (hard_link_file_journaled D sb p nm t) (hard_link_file_journaled E sb p nm t)"
  "dev_sim P abst (\<lambda>_. True) (hard_link_symlink_journaled D sb p nm t) (hard_link_symlink_journaled E sb p nm t)"
  "dev_sim P abst (\<lambda>_. True) (unlink_nonfinal_link_journaled D sb p nm k c) (unlink_nonfinal_link_journaled E sb p nm k c)"
  unfolding hard_link_file_journaled_def hard_link_symlink_journaled_def validate_link_endpoints_def publish_link_def
    unlink_nonfinal_link_journaled_def Let_def
  by (rule sim_seq [where Q = "\<lambda>_. True"] sim_bind [OF sim_load_inode_table] sim_bind [OF sim_load_directory_table] sim_bind_lift sim_if sim_when
      sim_fail sim_return sim_bind [OF sim_read_symlink] sim_publish_directory TrueI)+

end

end
