(* ===== verification/Unlink_Tx.thy ===== *)
theory Unlink_Tx
  imports Link_Tx
begin

text \<open>
  \<open>unlink_tx.rs\<close> and \<open>symlink_unlink.rs\<close>: removing the last name of an inode together with the
  inode and its blocks. The caller proposes the tables it wants; the transition check accepts
  exactly the removal of one inode, and what it accepts keeps the filesystem invariant.
\<close>

definition inodes_by_id :: "persisted_inode list \<Rightarrow> (u64, persisted_inode) btree_map" where
  "inodes_by_id inodes = bt_of_list (map (\<lambda>inode. (pi_id inode, inode)) inodes)"

text \<open>The collected set of triples; only its size and its members are used.\<close>

definition entry_set :: "directory_entry list \<Rightarrow> (u64 \<times> byte list \<times> u64) list" where
  "entry_set entries = remdups (map (\<lambda>e. (de_parent e, de_name e, de_target e)) entries)"

definition observe_freed :: "block_allocator \<Rightarrow> block_allocator \<Rightarrow> u64 \<Rightarrow> u64 list \<Rightarrow> u64 list io_result" where
  "observe_freed current desired block freed =
     res_bind (map_err (\<lambda>_. InvalidInput) (is_owned current block)) (\<lambda>current_owned.
     res_bind (map_err (\<lambda>_. InvalidInput) (is_owned desired block)) (\<lambda>desired_owned.
     if current_owned \<and> \<not> desired_owned then Inr (snd (bt_set_insert block freed))
     else if \<not> current_owned \<and> desired_owned then Inl InvalidInput
     else Inr freed))"

definition check_unlink_transition ::
    "block_allocator \<Rightarrow> persisted_inode list \<Rightarrow> directory_entry list \<Rightarrow>
     block_allocator \<Rightarrow> persisted_inode list \<Rightarrow> directory_entry list \<Rightarrow> unit io_result" where
  "check_unlink_transition current_allocator current_inodes current_entries desired_allocator desired_inodes desired_entries =
     (if al_total_blocks current_allocator \<noteq> al_total_blocks desired_allocator \<or>
         al_reserved_blocks current_allocator \<noteq> al_reserved_blocks desired_allocator then Inl InvalidInput
      else
      let current_by_id = inodes_by_id current_inodes; desired_by_id = inodes_by_id desired_inodes in
      if length current_by_id \<noteq> length current_inodes \<or> length desired_by_id \<noteq> length desired_inodes then Inl InvalidInput
      else
      let removed_ids = filter (\<lambda>ino. bt_get desired_by_id ino = None) (map fst current_by_id) in
      if length removed_ids \<noteq> 1 then Inl InvalidInput
      else if list_ex (\<lambda>ino. bt_get current_by_id ino = None) (map fst desired_by_id) then Inl InvalidInput
      else if list_ex (\<lambda>(ino, current). case bt_get desired_by_id ino of
             None \<Rightarrow> False | Some desired \<Rightarrow> \<not> persisted_inode_eq current desired) current_by_id then Inl InvalidInput
      else
      let removed_id = removed_ids ! 0 in
      if removed_id = 1 then Inl InvalidInput
      else
      let removed_inode = the (bt_get current_by_id removed_id);
          current_entry_set = entry_set current_entries; desired_entry_set = entry_set desired_entries in
      if length current_entry_set \<noteq> length current_entries \<or> length desired_entry_set \<noteq> length desired_entries then Inl InvalidInput
      else if list_ex (\<lambda>e. e \<notin> set current_entry_set) desired_entry_set then Inl InvalidInput
      else
      let removed_entries = filter (\<lambda>e. e \<notin> set desired_entry_set) current_entry_set in
      if length removed_entries \<noteq> 1 then Inl InvalidInput
      else if snd (snd (removed_entries ! 0)) \<noteq> removed_id then Inl InvalidInput
      else if length (filter (\<lambda>e. de_target e = removed_id) current_entries) \<noteq> 1 then Inl InvalidInput
      else if list_ex (\<lambda>e. de_target e = removed_id \<or> de_parent e = removed_id) desired_entries then Inl InvalidInput
      else if pi_kind removed_inode = Directory \<and> list_ex (\<lambda>e. de_parent e = removed_id) current_entries then Inl InvalidInput
      else
      res_bind (res_fold (observe_freed current_allocator desired_allocator)
        [al_reserved_blocks current_allocator..<al_total_blocks current_allocator] []) (\<lambda>observed_freed.
      if set observed_freed \<noteq> set (pi_blocks removed_inode) then Inl InvalidInput else Inr ()))"

definition validate_unlink_transition ::
    "'d block_device \<Rightarrow> superblock \<Rightarrow> block_allocator \<Rightarrow> persisted_inode list \<Rightarrow> directory_entry list \<Rightarrow> ('d, unit) dev_io" where
  "validate_unlink_transition D sb desired_allocator desired_inodes desired_entries =
     io_bind (load_allocator D sb) (\<lambda>current_allocator.
     io_bind (load_inode_table D sb) (\<lambda>current_inodes.
     io_bind (load_directory_table D sb) (\<lambda>current_entries.
     io_lift (check_unlink_transition current_allocator current_inodes current_entries
       desired_allocator desired_inodes desired_entries))))"

definition store_unlink_metadata_journaled ::
    "'d block_device \<Rightarrow> superblock \<Rightarrow> block_allocator \<Rightarrow> persisted_inode list \<Rightarrow> directory_entry list \<Rightarrow> ('d, recovery_report) dev_io" where
  "store_unlink_metadata_journaled D sb a inodes entries =
     io_seq (validate_unlink_transition D sb a inodes entries)
     (store_create_metadata_journaled D sb a inodes entries)"

definition free_blocks_in :: "error_kind \<Rightarrow> u64 list \<Rightarrow> block_allocator \<Rightarrow> block_allocator io_result" where
  "free_blocks_in err blocks a = res_fold (\<lambda>block a. map_err (\<lambda>_. err) (free_block block a)) blocks a"

definition unlink_symlink_journaled :: "'d block_device \<Rightarrow> superblock \<Rightarrow> u64 \<Rightarrow> byte list \<Rightarrow> ('d, recovery_report) dev_io" where
  "unlink_symlink_journaled D sb parent name =
     io_bind (load_allocator D sb) (\<lambda>a.
     io_bind (load_inode_table D sb) (\<lambda>inodes.
     io_bind (load_directory_table D sb) (\<lambda>entries.
     io_bind (io_lift (ok_or InvalidInput (position (\<lambda>e. de_parent e = parent \<and> de_name e = name) entries))) (\<lambda>entry_index.
     let target = de_target (entries ! entry_index) in
     io_bind (io_lift (ok_or InvalidInput (position (\<lambda>inode. pi_id inode = target) inodes))) (\<lambda>inode_index.
     let inode = inodes ! inode_index in
     if pi_kind inode \<noteq> Symlink then io_fail InvalidInput
     else if length (filter (\<lambda>e. de_target e = target) entries) \<noteq> 1 then io_fail InvalidInput
     else
     io_seq (validate_symlink_inode D inode)
     (io_bind (io_lift (res_fold (\<lambda>block _. res_bind (map_err (\<lambda>_. InvalidInput) (is_owned a block)) (\<lambda>owned.
          if \<not> owned then Inl InvalidInput else Inr ())) (pi_blocks inode) ())) (\<lambda>_.
      io_bind (io_lift (free_blocks_in InvalidInput (pi_blocks inode) a)) (\<lambda>a'.
      store_unlink_metadata_journaled D sb a' (remove_at inode_index inodes) (remove_at entry_index entries)))))))))"

section \<open>What the transition check accepts\<close>

text \<open>One inode is gone, with its only entry and its blocks; all else is as it was.\<close>

definition unlinks ::
    "block_allocator \<Rightarrow> persisted_inode list \<Rightarrow> directory_entry list \<Rightarrow> u64 \<Rightarrow>
     block_allocator \<Rightarrow> persisted_inode list \<Rightarrow> directory_entry list \<Rightarrow> bool" where
  "unlinks a inodes entries r a' inodes' entries' \<longleftrightarrow> r \<noteq> ROOT_INODE_ID \<and>
     (\<exists>i \<in> set inodes. pi_id i = r \<and> owned_blocks a' = owned_blocks a - set (pi_blocks i) \<and> set (pi_blocks i) \<subseteq> owned_blocks a) \<and>
     distinct (map pi_id inodes') \<and> set inodes' = {i \<in> set inodes. pi_id i \<noteq> r} \<and>
     set entries' = {e \<in> set entries. de_target e \<noteq> r} \<and> (\<forall>e \<in> set entries. de_parent e \<noteq> r) \<and>
     length (filter (\<lambda>e. de_target e = r) entries) = 1"

lemma canonical_equal:
  assumes "inode_ok i" and "persisted_inode_eq i j"
  shows "canonical_inode j = i"
  using assms canonical_byte_len_ok [OF assms(1)]
  by (auto simp: persisted_inode_eq_def canonical_inode_def split: sum.splits)

lemma inodes_by_id_simps:
  "map fst (map (\<lambda>i. (pi_id i, i)) inodes) = map pi_id inodes"
  "length (inodes_by_id inodes) = length inodes \<longleftrightarrow> distinct (map pi_id inodes)"
  "fst ` set (inodes_by_id inodes) = pi_id ` set inodes"
  "bt_get (inodes_by_id inodes) x = None \<longleftrightarrow> x \<notin> pi_id ` set inodes"
  using bt_of_list_length_iff [of "map (\<lambda>i. (pi_id i, i)) inodes"] bt_of_list_keys [of "map (\<lambda>i. (pi_id i, i)) inodes"]
  by (simp_all add: inodes_by_id_def comp_def image_comp map_of_eq_None_iff)

lemma inodes_by_id_get:
  assumes "distinct (map pi_id inodes)"
  shows "bt_get (inodes_by_id inodes) x = Some i \<longleftrightarrow> i \<in> set inodes \<and> pi_id i = x"
    and "set (inodes_by_id inodes) = (\<lambda>i. (pi_id i, i)) ` set inodes"
proof -
  have d: "distinct (map fst (map (\<lambda>i. (pi_id i, i)) inodes))" using assms by (simp only: inodes_by_id_simps)
  show "bt_get (inodes_by_id inodes) x = Some i \<longleftrightarrow> i \<in> set inodes \<and> pi_id i = x"
    using d by (auto simp: inodes_by_id_def bt_get_of_list_distinct [OF d] map_of_eq_Some_iff)
  show "set (inodes_by_id inodes) = (\<lambda>i. (pi_id i, i)) ` set inodes"
    by (simp add: inodes_by_id_def set_bt_of_list [OF d])
qed

lemma removed_inode:
  assumes d: "distinct (map pi_id inodes)" "distinct (map pi_id inodes')" and ok: "\<forall>i \<in> set inodes. inode_ok i"
    and one: "length (filter (\<lambda>x. bt_get (inodes_by_id inodes') x = None) (map fst (inodes_by_id inodes))) = 1"
    and sub: "\<not> list_ex (\<lambda>x. bt_get (inodes_by_id inodes) x = None) (map fst (inodes_by_id inodes'))"
    and same: "\<not> list_ex (\<lambda>(x, i). case bt_get (inodes_by_id inodes') x of
             None \<Rightarrow> False | Some j \<Rightarrow> \<not> persisted_inode_eq i j) (inodes_by_id inodes)"
    and r: "r = filter (\<lambda>x. bt_get (inodes_by_id inodes') x = None) (map fst (inodes_by_id inodes)) ! 0"
  obtains i where "i \<in> set inodes" and "pi_id i = r" and "bt_get (inodes_by_id inodes) r = Some i"
    and "set (map canonical_inode inodes') = {i \<in> set inodes. pi_id i \<noteq> r}"
proof -
  let ?gone = "filter (\<lambda>x. bt_get (inodes_by_id inodes') x = None) (map fst (inodes_by_id inodes))"
  have gone: "?gone = [r]" unfolding r by (rule list_of_one [OF one])
  have "set ?gone = {x \<in> pi_id ` set inodes. x \<notin> pi_id ` set inodes'}"
    unfolding set_filter set_map inodes_by_id_simps(3,4) ..
  then have ids: "{x \<in> pi_id ` set inodes. x \<notin> pi_id ` set inodes'} = {r}" unfolding gone by simp
  have "r \<in> {x \<in> pi_id ` set inodes. x \<notin> pi_id ` set inodes'}" unfolding ids by simp
  then obtain i where i: "i \<in> set inodes" "pi_id i = r" and r': "r \<notin> pi_id ` set inodes'" by auto
  have only: "x \<in> pi_id ` set inodes'" if "x \<in> pi_id ` set inodes" "x \<noteq> r" for x
    using that ids by (metis (mono_tags, lifting) mem_Collect_eq singletonD)
  have ids': "pi_id ` set inodes' \<subseteq> pi_id ` set inodes"
    using sub unfolding list_ex_iff set_map inodes_by_id_simps(3,4) by blast
  have eq: "persisted_inode_eq i j" if "i \<in> set inodes" "j \<in> set inodes'" "pi_id j = pi_id i" for i j
  proof (rule ccontr)
    assume no: "\<not> persisted_inode_eq i j"
    have "(pi_id i, i) \<in> set (inodes_by_id inodes)" using that(1) inodes_by_id_get(2) [OF d(1)] by blast
    moreover have "bt_get (inodes_by_id inodes') (pi_id i) = Some j" using that inodes_by_id_get(1) [OF d(2)] by blast
    ultimately show False using same no unfolding list_ex_iff by (metis (no_types, lifting) case_prod_conv option.simps(5))
  qed
  have can: "canonical_inode j = i" if "i \<in> set inodes" "j \<in> set inodes'" "pi_id j = pi_id i" for i j
    using canonical_equal eq [OF that] ok that(1) by blast
  have "set (map canonical_inode inodes') = {i \<in> set inodes. pi_id i \<noteq> r}"
  proof (intro subset_antisym subsetI)
    fix x assume "x \<in> set (map canonical_inode inodes')"
    then obtain j where j: "j \<in> set inodes'" "x = canonical_inode j" by auto
    have "pi_id j \<in> pi_id ` set inodes" using j(1) ids' by blast
    then obtain k where k: "k \<in> set inodes" "pi_id j = pi_id k" by blast
    have "pi_id j \<in> pi_id ` set inodes'" using j(1) by blast
    then have "pi_id k \<noteq> r" using r' k(2) by metis
    moreover have "x = k" using can [OF k(1) j(1) k(2)] j(2) by simp
    ultimately show "x \<in> {i \<in> set inodes. pi_id i \<noteq> r}" using k(1) by simp
  next
    fix x assume x: "x \<in> {i \<in> set inodes. pi_id i \<noteq> r}"
    then have "pi_id x \<in> pi_id ` set inodes" "pi_id x \<noteq> r" by simp_all
    then have "pi_id x \<in> pi_id ` set inodes'" by (rule only)
    then obtain j where "j \<in> set inodes'" "pi_id j = pi_id x" by (auto simp: image_iff)
    with can [of x j] x show "x \<in> set (map canonical_inode inodes')" by (auto intro: rev_image_eqI)
  qed
  moreover have "bt_get (inodes_by_id inodes) r = Some i" using i inodes_by_id_get(1) [OF d(1)] by blast
  ultimately show thesis using i by (intro that)
qed

lemma removed_entry:
  assumes "\<not> list_ex (\<lambda>e. e \<notin> set (entry_set entries)) (entry_set entries')"
    and "length (filter (\<lambda>e. e \<notin> set (entry_set entries')) (entry_set entries)) = 1"
    and "snd (snd (filter (\<lambda>e. e \<notin> set (entry_set entries')) (entry_set entries) ! 0)) = r"
    and "\<not> list_ex (\<lambda>e. de_target e = r \<or> de_parent e = r) entries'"
  shows "set entries' = {e \<in> set entries. de_target e \<noteq> r}"
proof -
  let ?t = "\<lambda>e :: directory_entry. (de_parent e, de_name e, de_target e)"
  have inj: "inj ?t" by (rule injI, case_tac x, case_tac y) simp
  have mem: "?t e \<in> set (entry_set es) \<longleftrightarrow> e \<in> set es" for e es
    unfolding entry_set_def set_remdups set_map by (rule inj_image_mem_iff [OF inj])
  define x where "x = filter (\<lambda>e. e \<notin> set (entry_set entries')) (entry_set entries) ! 0"
  have x: "filter (\<lambda>e. e \<notin> set (entry_set entries')) (entry_set entries) = [x]"
    unfolding x_def by (rule list_of_one [OF assms(2)])
  have "snd (snd x) = r" unfolding x_def by (rule assms(3))
  moreover have only: "y = x" if "y \<in> set (entry_set entries)" "y \<notin> set (entry_set entries')" for y
  proof -
    have "y \<in> set (filter (\<lambda>e. e \<notin> set (entry_set entries')) (entry_set entries))" using that by simp
    then show ?thesis unfolding x by simp
  qed
  ultimately have gone: "de_target e = r" if "e \<in> set entries" "e \<notin> set entries'" for e
  proof -
    have "?t e \<in> set (entry_set entries)" "?t e \<notin> set (entry_set entries')" using that mem by blast+
    then have "?t e = x" by (rule only)
    with \<open>snd (snd x) = r\<close> show ?thesis by (metis snd_conv)
  qed
  have "set entries' \<subseteq> set entries"
  proof
    fix e assume "e \<in> set entries'"
    then have "?t e \<in> set (entry_set entries')" using mem by blast
    then have "?t e \<in> set (entry_set entries)" using assms(1) by (auto simp: list_ex_iff)
    then show "e \<in> set entries" using mem by blast
  qed
  with gone assms(4) show ?thesis by (auto simp: list_ex_iff)
qed

lemma observed_freed:
  assumes "res_fold (observe_freed a a') bs acc = Inr freed" and "\<forall>b \<in> set bs. b < al_total_blocks a \<and> al_reserved_blocks a \<le> b"
    and "al_total_blocks a' = al_total_blocks a" and "al_reserved_blocks a' = al_reserved_blocks a"
  shows "set freed = set acc \<union> {b \<in> set bs. b \<in> owned_blocks a \<and> b \<notin> owned_blocks a'}"
    and "\<forall>b \<in> set bs. b \<in> owned_blocks a' \<longrightarrow> b \<in> owned_blocks a"
  using assms
proof (induction bs arbitrary: acc)
  case (Cons b bs)
  { case 1
    then have o: "is_owned a b = Inr (b \<in> owned_blocks a)" "is_owned a' b = Inr (b \<in> owned_blocks a')"
      by (auto simp: is_owned_in_range)
    from 1 Cons.IH(1) show ?case by (auto simp: observe_freed_def o res_bind_Inr set_bt_set_insert split: if_splits)
  next
    case 2
    then have o: "is_owned a b = Inr (b \<in> owned_blocks a)" "is_owned a' b = Inr (b \<in> owned_blocks a')"
      by (auto simp: is_owned_in_range)
    from 2 Cons.IH(2) show ?case by (auto simp: observe_freed_def o res_bind_Inr split: if_splits) }
qed simp_all

lemma unlink_accepted:
  assumes d: "distinct (map pi_id inodes)" and ok: "\<forall>i \<in> set inodes. inode_ok i" and e: "entries_ok inodes entries"
    and inv: "allocator_inv a" "allocator_inv a'" and "check_unlink_transition a inodes entries a' inodes' entries' = Inr ()"
  obtains r where "unlinks a inodes entries r a' (map canonical_inode inodes') entries'"
proof -
  let ?gone = "filter (\<lambda>x. bt_get (inodes_by_id inodes') x = None) (map fst (inodes_by_id inodes))"
  define r where "r = ?gone ! 0"
  from assms(6) have d': "distinct (map pi_id inodes')" by (auto simp: check_unlink_transition_def Let_def inodes_by_id_simps(2) split: if_splits)
  from assms(6) obtain freed where c: "length ?gone = 1"
      "\<not> list_ex (\<lambda>x. bt_get (inodes_by_id inodes) x = None) (map fst (inodes_by_id inodes'))"
      "\<not> list_ex (\<lambda>(x, i). case bt_get (inodes_by_id inodes') x of None \<Rightarrow> False | Some j \<Rightarrow> \<not> persisted_inode_eq i j) (inodes_by_id inodes)"
    and r: "r \<noteq> 1" and c2: "\<not> list_ex (\<lambda>e. e \<notin> set (entry_set entries)) (entry_set entries')"
      "length (filter (\<lambda>e. e \<notin> set (entry_set entries')) (entry_set entries)) = 1"
      "snd (snd (filter (\<lambda>e. e \<notin> set (entry_set entries')) (entry_set entries) ! 0)) = r"
      "\<not> list_ex (\<lambda>e. de_target e = r \<or> de_parent e = r) entries'"
    and one: "length (filter (\<lambda>e. de_target e = r) entries) = 1"
    and dir: "pi_kind (the (bt_get (inodes_by_id inodes) r)) = Directory \<Longrightarrow> \<not> list_ex (\<lambda>e. de_parent e = r) entries"
    and geo: "al_total_blocks a = al_total_blocks a'" "al_reserved_blocks a = al_reserved_blocks a'"
    and freed: "res_fold (observe_freed a a') [al_reserved_blocks a..<al_total_blocks a] [] = Inr freed"
      "set freed = set (pi_blocks (the (bt_get (inodes_by_id inodes) r)))"
    unfolding check_unlink_transition_def Let_def if_fail_Inr res_bind_Inr r_def by blast
  obtain i where i: "i \<in> set inodes" "pi_id i = r" "bt_get (inodes_by_id inodes) r = Some i"
    and is': "set (map canonical_inode inodes') = {i \<in> set inodes. pi_id i \<noteq> r}"
    by (rule removed_inode [OF d d' ok c r_def])
  have no: "de_parent e \<noteq> r" if mem: "e \<in> set entries" for e
  proof
    assume p: "de_parent e = r"
    then obtain j where "j \<in> set inodes" "pi_id j = r" "pi_kind j = Directory"
      using e mem by (auto simp: entries_ok_def is_dir_def)
    then have "pi_kind i = Directory" using i d by (metis distinct_map inj_onD)
    with dir i(3) have "\<not> list_ex (\<lambda>e. de_parent e = r) entries" by simp
    with that p show False by (auto simp: list_ex_iff)
  qed
  have range: "owned_blocks a \<subseteq> {al_reserved_blocks a..<al_total_blocks a}" "owned_blocks a' \<subseteq> {al_reserved_blocks a..<al_total_blocks a}"
    using pool.owned_in_space [OF inv(1)] pool.owned_in_space [OF inv(2)] geo by (simp_all add: data_blocks_def)
  note f = observed_freed [OF freed(1) _ geo [symmetric]]
  have "set (pi_blocks i) = {b \<in> {al_reserved_blocks a..<al_total_blocks a}. b \<in> owned_blocks a \<and> b \<notin> owned_blocks a'}"
    using f(1) freed(2) i(3) by auto
  moreover have "owned_blocks a' \<subseteq> owned_blocks a" using f(2) range(2) by auto
  ultimately have o: "owned_blocks a' = owned_blocks a - set (pi_blocks i)" "set (pi_blocks i) \<subseteq> owned_blocks a" using range by auto
  have "map pi_id (map canonical_inode inodes') = map pi_id inodes'" by (auto simp: canonical_inode_def split: sum.splits)
  then have "distinct (map pi_id (map canonical_inode inodes'))" using d' by (simp only:)
  with r i(1,2) o is' removed_entry [OF c2] no one show thesis
    by (intro that [of r]) (auto simp: unlinks_def ROOT_INODE_ID_def)
qed

lemma unlinks_ok:
  assumes ok: "fs_ok sb v a inodes entries" and u: "unlinks a inodes entries r a' inodes' entries'"
  shows "ownership_ok sb a' inodes'" and "payloads_ok v inodes'" and "namespace_ok inodes' entries'"
    and "\<forall>e \<in> set entries'. dirent_typed e"
proof -
  from u obtain i where i: "i \<in> set inodes" "pi_id i = r" and o: "owned_blocks a' = owned_blocks a - set (pi_blocks i)"
    and d: "distinct (map pi_id inodes')" and is': "set inodes' = {i \<in> set inodes. pi_id i \<notin> {r}}"
    and es: "set entries' = {e \<in> set entries. de_target e \<noteq> r}" "\<forall>e \<in> set entries. de_parent e \<noteq> r" and r: "r \<noteq> ROOT_INODE_ID"
    by (auto simp: unlinks_def)
  have "{j \<in> set inodes. pi_id j \<in> {r}} = {i}"
    using i fs_okD(7) [OF ok] by (auto simp: distinct_map inj_on_def)
  with o show "ownership_ok sb a' inodes'"
    by (intro ownership_remove [OF fs_okD(10,7) [OF ok] d is']) simp
  show "payloads_ok v inodes'" using payloads_ok_subset [OF fs_okD(11) [OF ok]] is' by auto
  show "namespace_ok inodes' entries'"
  proof (rule namespace_remove [OF fs_okD(12) [OF ok], of "{r}"])
    show "y \<in> {r}" if "(x, y) \<in> dir_links inodes entries" "x \<in> {r}" for x y
      using that es(2) by (auto simp: dir_links_def links_def)
    show "l \<in> de_target ` set entries'" if "leaf inodes l" "l \<notin> {r}" for l
      using that fs_okD(12) [OF ok] es(1) by (auto simp: namespace_ok_iff image_iff)
  qed (use r is' es in auto)
  show "\<forall>e \<in> set entries'. dirent_typed e" using fs_okD(9) [OF ok] dirent_ok_typed es(1) by auto
qed

section \<open>The operations\<close>

lemma store_unlink_run:
  assumes a: "addressable sb" and ok: "fs_ok sb v al inodes entries" and q: "recovers sb v v"
    and inv: "allocator_inv al'" and ty: "\<forall>i \<in> set inodes'. inode_typed i"
  obtains (failed) e where "\<And>tr. store_unlink_metadata_journaled (trace_device (sb_total_blocks sb)) sb al' inodes' entries' (v, tr) = (Inl e, v, tr)"
  | (removed) rep x evs r where
      "\<And>tr. store_unlink_metadata_journaled (trace_device (sb_total_blocks sb)) sb al' inodes' entries' (v, tr) = (Inr rep, x, tr @ evs)"
      "unlinks al inodes entries r al' (map canonical_inode inodes') entries'"
      "reaches sb v x evs al' (map canonical_inode inodes') entries'"
proof -
  have v: "disk_ok (sb_total_blocks sb) v" using q by (simp add: recovers_def)
  note l = fs_ok_loads [OF a v ok]
  show thesis
  proof (cases "check_unlink_transition al inodes entries al' inodes' entries'")
    case (Inl e)
    then show ?thesis
      by (intro failed) (simp add: store_unlink_metadata_journaled_def validate_unlink_transition_def io_simps l)
  next
    case (Inr u)
    then have run: "store_unlink_metadata_journaled (trace_device (sb_total_blocks sb)) sb al' inodes' entries' (v, tr)
        = store_create_metadata_journaled (trace_device (sb_total_blocks sb)) sb al' inodes' entries' (v, tr)" for tr
      by (simp add: store_unlink_metadata_journaled_def validate_unlink_transition_def io_simps l)
    obtain r where r: "unlinks al inodes entries r al' (map canonical_inode inodes') entries'"
      by (rule unlink_accepted [OF fs_okD(7) [OF ok] _ _ fs_okD(4) [OF ok] inv, of entries inodes' entries'])
        (use Inr fs_okD(8,12) [OF ok] in \<open>auto simp: namespace_ok_iff\<close>)
    note u = unlinks_ok [OF ok r]
    show ?thesis
      by (rule create_tx [OF a q ok inv ty refl u(4,1,2,3)]) (use run r failed removed in auto)
  qed
qed

lemma free_blocks_in_ok:
  assumes "allocator_inv a" and "set bs \<subseteq> owned_blocks a" and "distinct bs"
  obtains a' where "free_blocks_in err bs a = Inr a'" and "allocator_inv a'" and "owned_blocks a' = owned_blocks a - set bs"
    and "al_total_blocks a' = al_total_blocks a" and "al_reserved_blocks a' = al_reserved_blocks a"
proof -
  from pool.release_where [OF assms, of "\<lambda>_. False"] obtain a' where
    f: "res_fold (\<lambda>b a. if False then Inr a else free_block b a) bs a = Inr a'" "allocator_inv a'" "owned_blocks a' = owned_blocks a - set bs"
    by auto
  have "res_fold (\<lambda>b a. map_err (\<lambda>_. err) (free_block b a)) bs a = Inr a'"
    by (rule res_fold_mono [OF f(1)]) auto
  moreover have "al_total_blocks a' = al_total_blocks a \<and> al_reserved_blocks a' = al_reserved_blocks a"
    by (rule res_fold_invariant [OF f(1)]) (use free_block_frame in auto)
  ultimately show thesis using that f by (simp add: free_blocks_in_def)
qed

text \<open>The inode and the entry that \<open>unlink_symlink_journaled\<close> selects, when it goes on to remove them.\<close>

definition symlink_victim :: "persisted_inode list \<Rightarrow> directory_entry list \<Rightarrow> u64 \<Rightarrow> byte list \<Rightarrow> (nat \<times> nat) io_result" where
  "symlink_victim inodes entries parent name =
     res_bind (ok_or InvalidInput (position (\<lambda>e. de_parent e = parent \<and> de_name e = name) entries)) (\<lambda>entry_index.
     res_bind (ok_or InvalidInput (position (\<lambda>inode. pi_id inode = de_target (entries ! entry_index)) inodes)) (\<lambda>inode_index.
     if pi_kind (inodes ! inode_index) \<noteq> Symlink then Inl InvalidInput
     else if length (filter (\<lambda>e. de_target e = de_target (entries ! entry_index)) entries) \<noteq> 1 then Inl InvalidInput
     else Inr (entry_index, inode_index)))"

lemma remove_at_filter:
  assumes "distinct (map f xs)" and "k < length xs"
  shows "remove_at k xs = filter (\<lambda>x. f x \<noteq> f (xs ! k)) xs"
proof -
  have "\<forall>x \<in> set (remove_at k xs). f x \<noteq> f (xs ! k)" using distinct_remove_at(3) [OF assms(2,1)] by simp
  then have "filter (\<lambda>x. f x \<noteq> f (xs ! k)) (remove_at k xs) = remove_at k xs" by (rule filter_True)
  then have "filter (\<lambda>x. f x \<noteq> f (xs ! k)) (take k xs @ xs ! k # drop (Suc k) xs) = remove_at k xs" by (simp add: remove_at_def)
  then show ?thesis using id_take_nth_drop [OF assms(2)] by simp
qed

lemma unlink_symlink_run:
  assumes a: "addressable sb" and ok: "fs_ok sb v al inodes entries" and q: "recovers sb v v"
  obtains (failed) e where "\<And>tr. unlink_symlink_journaled (trace_device (sb_total_blocks sb)) sb parent name (v, tr) = (Inl e, v, tr)"
  | (removed) rep x evs i al' where
      "\<And>tr. unlink_symlink_journaled (trace_device (sb_total_blocks sb)) sb parent name (v, tr) = (Inr rep, x, tr @ evs)"
      "i \<in> set inodes" "pi_kind i = Symlink" "\<lparr>de_parent = parent, de_target = pi_id i, de_name = name\<rparr> \<in> set entries"
      "owned_blocks al' = owned_blocks al - set (pi_blocks i)"
      "reaches sb v x evs al' (filter (\<lambda>j. pi_id j \<noteq> pi_id i) inodes) (filter (\<lambda>e. dirent_key e \<noteq> (parent, name)) entries)"
proof -
  let ?D = "trace_device (sb_total_blocks sb)"
  have v: "disk_ok (sb_total_blocks sb) v" using q by (simp add: recovers_def)
  note l = fs_ok_loads [OF a v ok]
  show thesis
  proof (cases "symlink_victim inodes entries parent name")
    case (Inl e)
    then have "unlink_symlink_journaled ?D sb parent name (v, tr) = (Inl e, v, tr)" for tr
      by (auto simp: unlink_symlink_journaled_def symlink_victim_def Let_def io_simps l ok_or_def split: option.splits if_splits)
    then show ?thesis by (rule failed)
  next
    case (Inr kj)
    obtain k j where kj: "kj = (k, j)" by fastforce
    let ?i = "inodes ! j"
    from Inr kj have k: "position (\<lambda>e. de_parent e = parent \<and> de_name e = name) entries = Some k"
      and j: "position (\<lambda>inode. pi_id inode = de_target (entries ! k)) inodes = Some j"
      and sym: "pi_kind ?i = Symlink" "length (filter (\<lambda>e. de_target e = de_target (entries ! k)) entries) = 1"
      by (auto simp: symlink_victim_def res_bind_Inr split: if_splits)
    note k' = position_Some [OF k] and j' = position_Some [OF j]
    have i: "?i \<in> set inodes" and e: "\<lparr>de_parent = parent, de_target = pi_id ?i, de_name = name\<rparr> \<in> set entries"
      using j' k' nth_mem [of k entries] by (simp, cases "entries ! k") auto
    have own: "set (pi_blocks ?i) \<subseteq> owned_blocks al" "distinct (pi_blocks ?i)"
      using i fs_okD(10) [OF ok] by (auto simp: ownership_ok_iff [OF fs_okD(7) [OF ok]])
    obtain al' where al': "free_blocks_in InvalidInput (pi_blocks ?i) al = Inr al'" "allocator_inv al'"
      "owned_blocks al' = owned_blocks al - set (pi_blocks ?i)"
      by (rule free_blocks_in_ok [OF fs_okD(4) [OF ok] own])
    have sub: "\<forall>b \<in> set (pi_blocks ?i). is_owned al b = Inr True"
      using own(1) fs_ok_owned [OF ok i] fs_okD(5) [OF ok] by (auto simp: is_owned_in_range)
    have held: "res_fold (\<lambda>block _. res_bind (map_err (\<lambda>_. InvalidInput) (is_owned al block)) (\<lambda>owned.
          if \<not> owned then Inl InvalidInput else Inr ())) bs () = Inr ()" if "set bs \<subseteq> set (pi_blocks ?i)" for bs
      using that sub by (induction bs) (auto simp: map_err_def)
    have pay: "validate_symlink_inode ?D ?i (v, tr) = (Inr (), v, tr)" for tr
      by (rule fs_ok_payload [OF a v ok i])
    have run: "unlink_symlink_journaled ?D sb parent name (v, tr) = store_unlink_metadata_journaled ?D sb al' (remove_at j inodes) (remove_at k entries) (v, tr)" for tr
      using sym by (simp add: unlink_symlink_journaled_def Let_def io_simps l k j pay held al'(1))
    have set_is: "set (remove_at j inodes) \<subseteq> set inodes" using set_remove_at [of j inodes] j' by auto
    have is': "map canonical_inode (remove_at j inodes) = filter (\<lambda>i. pi_id i \<noteq> pi_id ?i) inodes"
    proof -
      have "map canonical_inode (remove_at j inodes) = remove_at j inodes"
        by (rule map_idI) (use set_is fs_okD(8) [OF ok] in auto)
      then show ?thesis using remove_at_filter [OF fs_okD(7) [OF ok], of j] j' by simp
    qed
    have es': "remove_at k entries = filter (\<lambda>e. dirent_key e \<noteq> (parent, name)) entries"
      by (rule remove_key [OF fs_okD(13) [OF ok] k])
    show ?thesis
    proof (rule store_unlink_run [OF a ok q al'(2), of "remove_at j inodes" "remove_at k entries"])
      show "\<forall>i \<in> set (remove_at j inodes). inode_typed i" using set_is fs_okD(8) [OF ok] by auto
    qed (use run failed removed [of _ _ _ ?i al'] i sym(1) e al'(3) is' es' in auto)
  qed
qed

context device_sim
begin

lemma sim_store_unlink_metadata_journaled:
  "dev_sim P abst (\<lambda>_. True) (store_unlink_metadata_journaled D sb a is es) (store_unlink_metadata_journaled E sb a is es)"
  unfolding store_unlink_metadata_journaled_def validate_unlink_transition_def
  by (rule sim_seq [where Q = "\<lambda>_. True"] sim_bind [OF sim_load_allocator] sim_bind [OF sim_load_inode_table]
      sim_bind [OF sim_load_directory_table] sim_lift sim_store_create_metadata_journaled TrueI)+

lemma sim_unlink_symlink_journaled:
  "dev_sim P abst (\<lambda>_. True) (unlink_symlink_journaled D sb p nm) (unlink_symlink_journaled E sb p nm)"
  unfolding unlink_symlink_journaled_def Let_def
  by (rule sim_bind [OF sim_load_allocator] sim_bind [OF sim_load_inode_table] sim_bind [OF sim_load_directory_table] sim_bind_lift
      sim_if sim_fail sim_seq [OF sim_validate_symlink_inode] sim_store_unlink_metadata_journaled)+

end

end
