(* ===== verification/Examples.thy ===== *)
theory Examples
  imports Unlink_Tx
begin

text \<open>
  A concrete filesystem for the witnesses: a geometry of 64 blocks, a blank disk, the disk that
  formatting leaves, and a disk that holds a small tree of directories and files.
\<close>

section \<open>Geometry and a blank disk\<close>

definition example_superblock :: superblock where
  "example_superblock =
     \<lparr>sb_total_blocks = 64, sb_journal_start = 1, sb_journal_blocks = 8, sb_allocation_start = 9,
      sb_allocation_blocks = 1, sb_inode_start = 10, sb_inode_blocks = 2, sb_directory_start = 12,
      sb_directory_blocks = 2\<rparr>"

definition blank_disk :: disk where
  "blank_disk = (\<lambda>_. zeroes BLOCK_SIZE)"

lemma example_geometry: "geometry_ok example_superblock"
  by (simp add: geometry_ok_def example_superblock_def required_allocation_blocks_def allocation_bitmap_bytes_def
      ALLOCATION_IMAGE_HEADER_LEN_def BLOCK_SIZE_U64_def BLOCK_SIZE_def checked_add_def)

lemma example_addressable: "addressable example_superblock"
  by (simp add: addressable_def example_geometry) (simp add: example_superblock_def BLOCK_SIZE_def)

lemma example_fields [simp]:
  "sb_total_blocks example_superblock = 64" "sb_journal_start example_superblock = 1" "sb_journal_blocks example_superblock = 8"
  "sb_allocation_blocks example_superblock = 1" "sb_inode_blocks example_superblock = 2" "sb_directory_blocks example_superblock = 2"
  by (simp_all add: example_superblock_def)

lemma example_reserved [simp]: "reserved_blocks example_superblock = 14"
  by (simp add: reserved_blocks_def add64_def example_superblock_def)

lemma example_fits: "k \<le> 5 \<Longrightarrow> journal_fits example_superblock k"
  by (simp add: journal_fits_def BLOCK_SIZE_def)

lemma blank_disk_ok: "disk_ok n blank_disk"
  by (simp add: disk_ok_def blank_disk_def)

lemma blank_disk_journal: "load_disk example_superblock blank_disk = Inr []"
proof -
  have "zeroes 4 \<noteq> REGION_MAGIC_V2" "zeroes 4 \<noteq> REGION_MAGIC_V3"
    by (auto simp: zeroes_def REGION_MAGIC_V2_def REGION_MAGIC_V3_def ascii_def dest!: arg_cong [of _ _ hd])
  then have "is_v2_empty_anchor (zeroes BLOCK_SIZE) = Inr False" "decode_v3_anchor (zeroes BLOCK_SIZE) = Inr None"
    by (simp_all add: is_v2_empty_anchor_def decode_v3_anchor_def get_zeroes BLOCK_SIZE_def)
  moreover have "all_zero (region_bytes example_superblock blank_disk)"
    by (auto simp: region_bytes_def blank_disk_def all_zero_def list_all_iff zeroes_def)
  ultimately show ?thesis
    by (simp add: load_disk_def blank_disk_def [THEN fun_cong] decode_journal_region_def)
      (simp add: region_capacity_def BLOCK_SIZE_U64_def BLOCK_SIZE_def checked_mul_def)
qed

section \<open>One transaction\<close>

definition example_writes :: "block_write list" where
  "example_writes = [(20, replicate BLOCK_SIZE 7)]"

definition example_entries :: "journal_entry list" where
  "example_entries = [Begin 0, Write 0 20 (replicate BLOCK_SIZE 7), Commit 0]"

lemma example_entries_ok: "\<forall>e \<in> set example_entries. entry_ok e"
  by (simp add: example_entries_def)

lemma example_entries_txn: "example_entries = txn_entries (0, example_writes)"
  by (simp add: example_entries_def example_writes_def txn_entries_def open_entries_def)

lemma example_writes_home: "\<forall>(b, d) \<in> set example_writes. home_target example_superblock b \<and> length d = BLOCK_SIZE"
  by (simp add: example_writes_def home_target_def)

lemma example_store:
  "load_disk example_superblock v = Inr [] \<Longrightarrow> \<exists>x evs. store_outcome example_superblock example_entries v = (Inr (), x, evs)"
  unfolding example_entries_txn
  by (rule store_outcome_transaction(3) [OF example_addressable _ example_writes_home refl])
    (simp_all add: example_fits example_writes_def)

lemma example_publish:
  "\<exists>rep v' tr. publish_and_checkpoint (trace_device 64) example_superblock example_entries (blank_disk, []) = (Inr rep, v', tr)"
  using publish_trace [OF example_geometry _ blank_disk_ok example_entries_ok] example_store [OF blank_disk_journal] by fastforce

section \<open>A formatted disk\<close>

text \<open>Block 16 holds the payload of a symbolic link to \<open>/f\<close>; formatting leaves it there.\<close>

definition example_link :: "byte list" where
  "example_link = (case encode_target_blocks [47, 102] of Inr (img # _) \<Rightarrow> img | _ \<Rightarrow> [])"

definition prepared_disk :: disk where
  "prepared_disk = blank_disk(16 := example_link)"

lemma example_link_images: "encode_target_blocks [47, 102] = Inr [example_link]"
proof -
  have "\<exists>img. encode_target_blocks [47, 102] = Inr [img]"
    by (simp add: encode_target_blocks_def encode_v1_target_def Let_def SYMLINK_V1_MAX_TARGET_LEN_def MAX_SYMLINK_TARGET_LEN_def
        SYMLINK_V1_HEADER_LEN_def BLOCK_SIZE_def)
  then show ?thesis by (auto simp: example_link_def)
qed

lemma example_link_payload: "decode_target_images [example_link] = Inr [47, 102]" "length example_link = BLOCK_SIZE"
  using symlink_round_trip [OF example_link_images] by simp_all

lemma prepared_disk_ok: "disk_ok n prepared_disk"
  using blank_disk_ok [of n] example_link_payload(2) by (simp add: disk_ok_def prepared_disk_def)

definition example_disk :: disk where
  "example_disk = snd (format_with (mem_device 64) example_superblock prepared_disk)"

lemma example_format:
  "format_with (mem_device 64) example_superblock prepared_disk = (Inr example_superblock, example_disk)"
  "fresh_filesystem example_superblock example_disk" "disk_ok 64 example_disk" "example_disk 16 = example_link"
proof -
  have "format_with (mem_device 64) example_superblock prepared_disk = (Inr example_superblock, example_disk) \<and>
    fresh_filesystem example_superblock example_disk \<and> disk_ok 64 example_disk \<and> example_disk 16 = example_link"
  proof (rule format_with_trace [OF example_addressable example_fields(1) [symmetric]])
    fix w ws
    assume run: "\<And>v tr. format_with (trace_device 64) example_superblock (v, tr)
        = (Inr example_superblock, w v, tr @ write_events ws @ [WriteEv 0 (superblock_encode example_superblock), FlushEv])"
      and f: "\<And>v. fresh_filesystem example_superblock (w v)" and d: "\<And>v. disk_ok 64 v \<Longrightarrow> disk_ok 64 (w v)"
      and data: "\<And>v b. reserved_blocks example_superblock \<le> b \<Longrightarrow> w v b = v b"
    have m: "format_with (mem_device 64) example_superblock prepared_disk = (Inr example_superblock, w prepared_disk)"
      using dev_simD(1) [OF tracing.to_mem.sim_format_with [of 64 64] _ run [of prepared_disk "[]"]] prepared_disk_ok by simp
    then have "example_disk = w prepared_disk" by (simp add: example_disk_def)
    with m f [of prepared_disk] d [OF prepared_disk_ok] data [of 16 prepared_disk] show ?thesis by (simp add: prepared_disk_def)
  qed
  then show "format_with (mem_device 64) example_superblock prepared_disk = (Inr example_superblock, example_disk)"
    "fresh_filesystem example_superblock example_disk" "disk_ok 64 example_disk" "example_disk 16 = example_link" by simp_all
qed

lemma example_disk_state:
  "fs_ok example_superblock example_disk (empty_allocator example_superblock) [] []" "load_disk example_superblock example_disk = Inr []"
  "recovers example_superblock example_disk example_disk"
  using fresh_fs_ok [OF example_geometry example_format(2)] example_format(2,3) recovers_empty [of example_superblock example_disk]
  by (simp_all add: fresh_filesystem_def)

section \<open>A small tree\<close>

text \<open>The names are the bytes of the letters: \<open>/d\<close> and \<open>/d/e\<close> are directories, \<open>/f\<close> and \<open>/d/g\<close> two names of a file of five bytes
  in the first data block, \<open>/k\<close> a file of seven bytes in the second, and \<open>/l\<close> a symbolic link to \<open>/f\<close>.\<close>

definition example_inodes :: "persisted_inode list" where
  "example_inodes =
     [\<lparr>pi_id = 1, pi_kind = Directory, pi_blocks = [], pi_byte_len = 0\<rparr>,
      \<lparr>pi_id = 2, pi_kind = Directory, pi_blocks = [], pi_byte_len = 0\<rparr>,
      \<lparr>pi_id = 3, pi_kind = Directory, pi_blocks = [], pi_byte_len = 0\<rparr>,
      \<lparr>pi_id = 4, pi_kind = File, pi_blocks = [14], pi_byte_len = 5\<rparr>,
      \<lparr>pi_id = 5, pi_kind = File, pi_blocks = [15], pi_byte_len = 7\<rparr>,
      \<lparr>pi_id = 6, pi_kind = Symlink, pi_blocks = [16], pi_byte_len = 0\<rparr>]"

definition example_allocator :: block_allocator where
  "example_allocator =
     \<lparr>al_total_blocks = 64, al_reserved_blocks = 14, al_allocated = (replicate 64 False)[14 := True, 15 := True, 16 := True],
      al_allocated_blocks = 3\<rparr>"

definition example_dirents :: "directory_entry list" where
  "example_dirents =
     [\<lparr>de_parent = 1, de_target = 2, de_name = [100]\<rparr>, \<lparr>de_parent = 2, de_target = 3, de_name = [101]\<rparr>,
      \<lparr>de_parent = 1, de_target = 4, de_name = [102]\<rparr>, \<lparr>de_parent = 2, de_target = 4, de_name = [103]\<rparr>,
      \<lparr>de_parent = 1, de_target = 5, de_name = [107]\<rparr>, \<lparr>de_parent = 1, de_target = 6, de_name = [108]\<rparr>]"

lemma example_allocator_ok: "allocator_inv example_allocator" "owned_blocks example_allocator = {14, 15, 16}"
proof -
  have "(replicate 64 False)[14 := True, 15 := True, 16 := True] = replicate 14 False @ replicate 3 True @ replicate 47 False"
    by (intro nth_equalityI) (auto simp: nth_append nth_list_update)
  then show "allocator_inv example_allocator"
    by (simp add: allocator_inv_def example_allocator_def list_all_iff)
  show "owned_blocks example_allocator = {14, 15, 16}"
    by (auto simp: owned_blocks_def example_allocator_def nth_list_update split: if_splits)
qed

lemma example_dirents_ok: "\<forall>e \<in> set example_dirents. dirent_ok e"
  by (simp add: example_dirents_def dirent_ok_def name_ok_def validate_name_def DIRECTORY_NAME_MAX_BYTES_def ascii_def)

lemma example_inodes_ok: "\<forall>i \<in> set example_inodes. inode_ok i \<and> inode_typed i" "map canonical_inode example_inodes = example_inodes"
proof -
  show 1: "\<forall>i \<in> set example_inodes. inode_ok i \<and> inode_typed i"
    by (simp add: example_inodes_def inode_ok_def inode_typed_def BLOCK_SIZE_def)
  show "map canonical_inode example_inodes = example_inodes" by (rule map_idI) (use 1 in auto)
qed

lemma example_dirs: "is_dir example_inodes d \<longleftrightarrow> d \<in> {1, 2, 3}" "leaf example_inodes d \<longleftrightarrow> d \<in> {4, 5, 6}"
  by (auto simp: example_inodes_def is_dir_def leaf_def)

lemma example_links: "dir_links example_inodes example_dirents = {(1, 2), (2, 3)}"
  by (auto simp: dir_links_def links_def example_dirents_def example_dirs)

lemma example_namespace: "namespace_ok example_inodes example_dirents"
proof -
  have "acyclic {(1 :: nat, 2), (2, 3)}" by (simp add: acyclic_insert rtrancl_insert) (simp add: acyclic_def)
  moreover have "(1, d) \<in> {(1, 2), (2, 3)}\<^sup>*" if "d \<in> {1, 2, 3}" for d :: nat
    using that by (auto simp: rtrancl_insert)
  ultimately have "rooted example_inodes (dir_links example_inodes example_dirents)"
    by (simp add: rooted_def example_links example_dirs ROOT_INODE_ID_def)
  moreover have "entries_ok example_inodes example_dirents"
    by (simp add: entries_ok_def example_dirs example_dirents_def) (simp add: example_inodes_def)
  ultimately show ?thesis by (auto simp: namespace_ok_iff example_dirs example_dirents_def)
qed

lemma dirent_record:
  assumes "dirent_ok e"
  shows "\<exists>bs. encode_directory_entry e = Inr bs \<and> length bs = 40 + length (de_name e)"
proof -
  obtain bs where bs: "encode_directory_entry e = Inr bs" using encode_directory_entry_total [OF assms] by blast
  then show ?thesis using decode_directory_entry_Inr(3) [OF decode_encode_directory_entry [OF bs assms]] by blast
qed

lemma small_record:
  assumes "inode_ok i" and "length (pi_blocks i) \<le> 4"
  shows "\<exists>bs. encode_inode i = Inr bs \<and> length bs \<le> 40 + 8 * length (pi_blocks i)"
proof -
  obtain bs where bs: "encode_inode i = Inr bs" using encode_inode_total [OF canonical_byte_len_ok [OF assms(1)]] assms(2) by auto
  moreover have "length bs \<le> 40 + 8 * length (pi_blocks i)" using bs by (auto elim!: encode_inode_Inr)
  ultimately show ?thesis by blast
qed

lemma example_directory_image:
  assumes "\<forall>e \<in> set es. dirent_ok e" and "distinct (map dirent_key es)" and "length es \<le> 10"
  shows "\<exists>E. directory_encode_image example_superblock es = Inr E"
  unfolding directory_encode_image_def
proof (rule encode_table_total [where m = "40 + 255"])
  show "\<forall>e \<in> set es. \<exists>bs. encode_directory_entry e = Inr bs \<and> length bs \<le> 40 + 255"
  proof
    fix e assume "e \<in> set es"
    then have e: "dirent_ok e" using assms(1) by blast
    have "length (de_name e) \<le> 255" using e name_ok_length by (auto simp: dirent_ok_def)
    then show "\<exists>bs. encode_directory_entry e = Inr bs \<and> length bs \<le> 40 + 255" using dirent_record [OF e] by auto
  qed
  show "32 + length es * (40 + 255) \<le> sb_directory_blocks example_superblock * BLOCK_SIZE"
    using assms(3) by (simp add: BLOCK_SIZE_def)
qed (use assms addressable_region_len(1) [OF example_addressable] in simp_all)

lemma example_images: "\<exists>ps. create_images example_superblock example_allocator example_inodes example_dirents = Inr ps"
proof -
  have "\<exists>A. allocator_image example_superblock example_allocator = Inr A"
    by (intro allocator_image_total [OF example_addressable] example_allocator_ok) (simp_all add: example_allocator_def)
  moreover have "\<exists>I. inode_encode_image example_superblock example_inodes = Inr I"
    unfolding inode_encode_image_def
  proof (rule encode_table_total [where m = 48])
    have "\<forall>i \<in> set example_inodes. length (pi_blocks i) \<le> 1" by (simp add: example_inodes_def)
    then show "\<forall>i \<in> set example_inodes. \<exists>bs. encode_inode i = Inr bs \<and> length bs \<le> 48"
      using example_inodes_ok(1) small_record by fastforce
    show "distinct (map pi_id example_inodes)" "length example_inodes < U32_LIMIT" by (simp_all add: example_inodes_def)
    show "32 + length example_inodes * 48 \<le> sb_inode_blocks example_superblock * BLOCK_SIZE"
      by (simp add: example_inodes_def BLOCK_SIZE_def)
  qed (use addressable_region_len(1) [OF example_addressable] in simp)
  moreover have "\<exists>E. directory_encode_image example_superblock example_dirents = Inr E"
    by (rule example_directory_image) (simp_all add: example_dirents_ok, simp_all add: example_dirents_def dirent_key_def)
  ultimately show ?thesis by (auto simp: create_images_def)
qed

definition example_tree :: disk where
  "example_tree = snd (store_create_metadata_journaled (mem_device 64) example_superblock example_allocator
     example_inodes example_dirents example_disk)"

lemma example_ownership: "ownership_ok example_superblock example_allocator example_inodes"
  by (simp add: ownership_ok_def owned_refs_def example_allocator_ok(2)) (auto simp: example_inodes_def)

lemma example_tree_run:
  obtains rep evs where "store_create_metadata_journaled (trace_device 64) example_superblock example_allocator
      example_inodes example_dirents (example_disk, []) = (Inr rep, example_tree, evs)"
    and "reaches example_superblock example_disk example_tree evs example_allocator example_inodes example_dirents"
    and "load_disk example_superblock example_tree = Inr []"
proof (rule create_tx [OF example_addressable example_disk_state(3,1) example_allocator_ok(1) _
      example_inodes_ok(2) [symmetric] _ example_ownership _ example_namespace])
  show "\<forall>i \<in> set example_inodes. inode_typed i" using example_inodes_ok(1) by simp
  show "\<forall>e \<in> set example_dirents. dirent_typed e" using example_dirents_ok dirent_ok_typed by blast
  show "payloads_ok example_disk example_inodes"
    by (simp add: payloads_ok_def example_inodes_def read_target_disk_def MAX_SYMLINK_TARGET_BLOCKS_def example_format(4) example_link_payload(1))
next
  let ?op = "\<lambda>D. store_create_metadata_journaled D example_superblock example_allocator example_inodes example_dirents"
  obtain ps where ps: "create_images example_superblock example_allocator example_inodes example_dirents = Inr ps"
    using example_images by blast
  obtain rep x evs where run: "?op (trace_device 64) (example_disk, []) = (Inr rep, x, evs)"
    using create_succeeds [OF example_addressable _ example_disk_state(2) ps] example_format(3) example_fits by auto
  {
    fix e assume "\<And>tr. ?op (trace_device (sb_total_blocks example_superblock)) (example_disk, tr) = (Inl e, example_disk, tr)"
    from this [of "[]"] run show thesis by simp
  next
    fix rep x evs
    assume "\<And>tr. ?op (trace_device (sb_total_blocks example_superblock)) (example_disk, tr) = (Inr rep, x, tr @ evs)"
      and r: "reaches example_superblock example_disk x evs example_allocator example_inodes example_dirents"
      and j: "load_disk example_superblock example_disk = Inr [] \<Longrightarrow> load_disk example_superblock x = Inr []"
    from this(1) [of "[]"] have run: "?op (trace_device 64) (example_disk, []) = (Inr rep, x, evs)" by simp
    have "example_tree = x"
      using dev_simD(1) [OF tracing.to_mem.sim_store_create_metadata_journaled [of 64 64] _ run] example_format(3)
      by (simp add: example_tree_def)
    with run r j example_disk_state(2) show thesis by (intro that) auto
  }
qed

lemma example_tree_state:
  "fs_ok example_superblock example_tree example_allocator example_inodes example_dirents"
  "recovers example_superblock example_tree example_tree" "load_disk example_superblock example_tree = Inr []" "disk_ok 64 example_tree"
proof -
  obtain evs where r: "reaches example_superblock example_disk example_tree evs example_allocator example_inodes example_dirents"
    and j: "load_disk example_superblock example_tree = Inr []" by (rule example_tree_run)
  show 1: "fs_ok example_superblock example_tree example_allocator example_inodes example_dirents"
    "recovers example_superblock example_tree example_tree" "load_disk example_superblock example_tree = Inr []"
    using reachesD [OF r] j by simp_all
  show "disk_ok 64 example_tree" using 1(2) by (simp add: recovers_def)
qed

end
