(* ===== verification/Data_Tx.thy ===== *)
theory Data_Tx
  imports Filesystem_State Namespace_Ops Symlink
begin

text \<open>
  Transactions that publish table images and file data under one commit, as the \<open>file_*.rs\<close> modules
  do. The two publishing sequences they share are defined here; the lemmas say when the tables and
  data they commit keep the filesystem invariant, and that the commit is atomic.
\<close>

section \<open>The publishing sequences\<close>

definition collect_file_changes ::
    "'d block_device \<Rightarrow> superblock \<Rightarrow> block_allocator \<Rightarrow> persisted_inode list \<Rightarrow> ('d, block_write list) dev_io" where
  "collect_file_changes D sb allocator inodes =
     io_bind (io_lift (render (sb_total_blocks sb)
       (io_seq (store_allocator capture_ops sb allocator) (store_inode_table capture_ops sb inodes)))) (\<lambda>capture.
     io_bind (collect_changed_range D (allocation_range sb) capture []) (\<lambda>(capture, changed).
     io_bind (collect_changed_range D (inode_range sb) capture changed) (\<lambda>(capture, changed).
     io_bind (io_lift (ensure_empty capture)) (\<lambda>_.
     io_return changed))))"

definition publish_file_update ::
    "'d block_device \<Rightarrow> superblock \<Rightarrow> block_allocator \<Rightarrow> persisted_inode list \<Rightarrow> block_write list \<Rightarrow> ('d, recovery_report) dev_io" where
  "publish_file_update D sb allocator inodes writes =
     io_bind (collect_file_changes D sb allocator inodes) (\<lambda>changed.
     publish_and_recover recover_journal_and_checkpoint D sb (changed @ writes))"

definition collect_inode_changes :: "'d block_device \<Rightarrow> superblock \<Rightarrow> persisted_inode list \<Rightarrow> ('d, block_write list) dev_io" where
  "collect_inode_changes D sb inodes =
     io_bind (io_lift (render (sb_total_blocks sb) (store_inode_table capture_ops sb inodes))) (\<lambda>capture.
     io_bind (collect_changed_range D (inode_range sb) capture []) (\<lambda>(capture, changed).
     io_bind (io_lift (ensure_empty capture)) (\<lambda>_.
     io_return changed)))"

definition publish_inode_table_transfer :: "'d block_device \<Rightarrow> superblock \<Rightarrow> persisted_inode list \<Rightarrow> ('d, recovery_report) dev_io" where
  "publish_inode_table_transfer D sb inodes =
     io_bind (collect_inode_changes D sb inodes) (publish_and_recover recover_journal_and_checkpoint D sb)"

section \<open>What they collect\<close>

definition file_images :: "superblock \<Rightarrow> block_allocator \<Rightarrow> persisted_inode list \<Rightarrow> region_image list io_result" where
  "file_images sb a inodes =
     res_bind (allocator_image sb a) (\<lambda>A.
     res_bind (inode_encode_image sb inodes) (\<lambda>I.
     Inr [(allocation_range sb, A), (inode_range sb, I)]))"

definition inode_images :: "superblock \<Rightarrow> persisted_inode list \<Rightarrow> region_image list io_result" where
  "inode_images sb inodes = map_sum id (\<lambda>I. [(inode_range sb, I)]) (inode_encode_image sb inodes)"

lemma snapshot_file:
  assumes g: "geometry_ok sb" and "file_images sb a inodes = Inr ps"
  shows "snapshot sb ps" and "concat (map fst ps) = allocation_range sb @ inode_range sb"
proof -
  from assms(2) obtain A I where A: "allocator_image sb a = Inr A" "inode_encode_image sb inodes = Inr I"
    and ps: "ps = [(allocation_range sb, A), (inode_range sb, I)]" by (auto simp: file_images_def res_bind_Inr)
  from A(1) obtain bm where "alloc_encode_image sb bm = Inr A" by (rule allocator_image_encoded)
  then show "snapshot sb ps"
    using regions_distinct(1) [OF g] region_intervals [OF g] length_inode_image [OF A(2)] length_allocator_image
      allocation_range_geometry(3) [OF g] inode_range_geometry(3) [OF g]
    by (auto simp: snapshot_def ps)
  show "concat (map fst ps) = allocation_range sb @ inode_range sb" by (simp add: ps)
qed

lemma snapshot_inodes:
  assumes g: "geometry_ok sb" and "inode_images sb inodes = Inr ps"
  shows "snapshot sb ps" and "concat (map fst ps) = inode_range sb"
  using assms(2) snapshotI(3) [OF g] by (cases "inode_encode_image sb inodes"; auto simp: inode_images_def)+

lemma renders_file:
  assumes "addressable sb" and "n = sb_total_blocks sb"
  shows "renders n (io_seq (store_allocator capture_ops sb a) (store_inode_table capture_ops sb inodes)) (file_images sb a inodes)"
proof -
  note tr = store_allocator_trace [OF assms] store_inode_table_trace [OF assms]
  note sim = sim_seq [OF capture.sim_store_allocator capture.sim_store_inode_table]
  show ?thesis
    by (cases "allocator_image sb a"; cases "inode_encode_image sb inodes")
      (auto simp: renders_def renders_captured render_eq [OF sim] file_images_def tr io_simps)
qed

lemma collect_images:
  assumes a: "addressable sb" and "renders (sb_total_blocks sb) stores images"
    and ps: "\<And>ps. images = Inr ps \<Longrightarrow> snapshot sb ps \<and> concat (map fst ps) = rng"
  shows "io_bind (io_lift (render (sb_total_blocks sb) stores)) (\<lambda>capture.
     io_bind (collect_changed_range (trace_device (sb_total_blocks sb)) rng capture []) (\<lambda>(capture, changed).
     io_bind (io_lift (ensure_empty capture)) (\<lambda>_. K changed))) (v, tr)
   = (case images of Inl e \<Rightarrow> (Inl e, v, tr) | Inr ps \<Rightarrow> K (image_changes ps v) (v, tr))"
proof (cases images)
  case (Inl e)
  with assms(2) show ?thesis by (simp add: renders_def io_simps)
next
  case (Inr ps)
  note g = addressable_geometry [OF a] and s = assms(3) [OF Inr]
  from Inr assms(2) obtain fs where fs: "render (sb_total_blocks sb) stores = Inr (captured (sb_total_blocks sb) fs)" "event_writes fs = images_writes ps"
    by (auto simp: renders_def)
  have "\<forall>b \<in> set (concat (map fst ps)). b < sb_total_blocks sb"
    using s regions_distinct(2) [OF g] unfolding snapshot_def by blast
  moreover have "distinct (concat (map fst ps))" using s unfolding snapshot_def by blast
  ultimately show ?thesis
    using journaled_commit [OF refl fs snapshot_intervals, of sb K v tr] s Inr by simp
qed

lemma collect_file_trace:
  assumes "addressable sb"
  shows "collect_file_changes (trace_device (sb_total_blocks sb)) sb a inodes (v, tr) =
     (case file_images sb a inodes of Inl e \<Rightarrow> (Inl e, v, tr) | Inr ps \<Rightarrow> (Inr (image_changes ps v), v, tr))"
proof -
  have "\<And>ps. file_images sb a inodes = Inr ps \<Longrightarrow> snapshot sb ps \<and> concat (map fst ps) = allocation_range sb @ inode_range sb"
    using snapshot_file [OF addressable_geometry [OF assms]] by blast
  from collect_images [OF assms renders_file [OF assms refl, of a inodes] this, of io_return v tr] show ?thesis
    by (simp add: collect_file_changes_def collect_append io_bind_assoc case_prod_beta') (simp add: io_return_def split: sum.split)
qed

lemma collect_inode_trace:
  assumes "addressable sb"
  shows "collect_inode_changes (trace_device (sb_total_blocks sb)) sb inodes (v, tr) =
     (case inode_images sb inodes of Inl e \<Rightarrow> (Inl e, v, tr) | Inr ps \<Rightarrow> (Inr (image_changes ps v), v, tr))"
proof -
  have "renders (sb_total_blocks sb) (store_inode_table capture_ops sb inodes) (inode_images sb inodes)"
    using renders_inodes [OF assms refl] by (simp add: inode_images_def)
  moreover have "\<And>ps. inode_images sb inodes = Inr ps \<Longrightarrow> snapshot sb ps \<and> concat (map fst ps) = inode_range sb"
    using snapshot_inodes [OF addressable_geometry [OF assms]] by blast
  ultimately show ?thesis
    using collect_images [OF assms, of _ "inode_images sb inodes" "inode_range sb" io_return v tr]
    by (simp add: collect_inode_changes_def) (simp add: io_return_def split: sum.split)
qed

section \<open>What the writes put on the disk\<close>

lemma write_all_cong: "v b = w b \<Longrightarrow> write_all v ws b = write_all w ws b"
proof (induction ws arbitrary: v w)
  case (Cons p ws)
  obtain c d where p: "p = (c, d)" by fastforce
  have "write_all (v(c := d)) ws b = write_all (w(c := d)) ws b" by (rule Cons.IH) (simp add: Cons.prems)
  then show ?case by (simp only: p write_all_simps)
qed simp

lemma table_ranges_reserved:
  "geometry_ok sb \<Longrightarrow> set (allocation_range sb @ inode_range sb @ directory_range sb) \<subseteq> {1..<reserved_blocks sb}"
  using geometry_ranges [of sb] geometry_order [of sb] by auto

lemma holds_tables_cong:
  assumes "geometry_ok sb" and "\<And>b. b < reserved_blocks sb \<Longrightarrow> w b = v b"
  shows "holds_tables sb w a inodes entries \<longleftrightarrow> holds_tables sb v a inodes entries"
proof -
  have "image_get rng w = image_get rng v" if "set rng \<subseteq> {1..<reserved_blocks sb}" for rng
    by (rule image_get_cong) (use that assms(2) in auto)
  with table_ranges_reserved [OF assms(1)] show ?thesis
    by (simp add: holds_tables_def load_allocator_disk_def load_inodes_disk_def load_entries_disk_def)
qed

lemma holds_file:
  assumes g: "geometry_ok sb" and ps: "file_images sb a inodes' = Inr ps" and inv: "allocator_inv a"
    and i: "\<forall>i \<in> set inodes'. inode_ok i \<and> inode_typed i" and h: "holds_tables sb v a0 inodes0 entries"
  shows "holds_tables sb (put_images ps v) a inodes' entries"
proof -
  from ps obtain A I where A: "allocator_image sb a = Inr A" "inode_encode_image sb inodes' = Inr I"
    and p: "ps = [(allocation_range sb, A), (inode_range sb, I)]" by (auto simp: file_images_def res_bind_Inr)
  note s = snapshot_file(1) [OF g ps]
  have get: "image_get (allocation_range sb) (put_images ps v) = A" "image_get (inode_range sb) (put_images ps v) = I"
    by (rule put_images_get [OF s]; simp add: p)+
  have "image_get (directory_range sb) (put_images ps v) = image_get (directory_range sb) v"
    using regions_distinct(1) [OF g] by (intro put_images_load_other) (auto simp: p)
  moreover have "map canonical_inode inodes' = inodes'" by (rule map_idI) (use i in auto)
  ultimately show ?thesis
    using h get allocator_image_round_trip [OF g inv A(1)] inode_decode_encode_image [OF A(2)] i
    by (simp add: holds_tables_def load_allocator_disk_def load_inodes_disk_def load_entries_disk_def)
qed

lemma holds_inodes:
  assumes g: "geometry_ok sb" and ps: "inode_images sb inodes' = Inr ps"
    and i: "\<forall>i \<in> set inodes'. inode_ok i \<and> inode_typed i" and h: "holds_tables sb v a inodes0 entries"
  shows "holds_tables sb (put_images ps v) a inodes' entries"
proof -
  from ps obtain I where I: "inode_encode_image sb inodes' = Inr I" and p: "ps = [(inode_range sb, I)]"
    by (cases "inode_encode_image sb inodes'") (auto simp: inode_images_def)
  note s = snapshot_inodes(1) [OF g ps]
  have get: "image_get (inode_range sb) (put_images ps v) = I" by (rule put_images_get [OF s]) (simp add: p)
  have "image_get (directory_range sb) (put_images ps v) = image_get (directory_range sb) v"
    "image_get (allocation_range sb) (put_images ps v) = image_get (allocation_range sb) v"
    using regions_distinct(1) [OF g] by (intro put_images_load_other; auto simp: p)+
  moreover have "map canonical_inode inodes' = inodes'" by (rule map_idI) (use i in auto)
  ultimately show ?thesis
    using h get inode_decode_encode_image [OF I] i
    by (simp add: holds_tables_def load_allocator_disk_def load_inodes_disk_def load_entries_disk_def)
qed

lemma fs_ok_written:
  assumes ok: "fs_ok sb v a0 inodes0 entries0" and s: "snapshot sb ps" and ws: "\<forall>(b, d) \<in> set ws. reserved_blocks sb \<le> b"
    and h: "holds_tables sb (put_images ps v) a inodes entries" and own: "ownership_ok sb a inodes"
    and pay: "payloads_ok (write_all v ws) inodes" and ns: "namespace_ok inodes entries"
  shows "fs_ok sb (write_all (put_images ps v) ws) a inodes entries"
proof -
  let ?w = "write_all (put_images ps v) ws"
  note g = fs_okD(2) [OF ok]
  have low: "?w b = put_images ps v b" if "b < reserved_blocks sb" for b
    by (rule write_all_other) (use that ws in auto)
  have w0: "?w 0 = v 0" using low [of 0] put_images_data [OF g s, of 0 v] geometry_order [OF g] by simp
  have t: "holds_tables sb ?w a inodes entries" using h holds_tables_cong [OF g, of ?w "put_images ps v"] low by blast
  have "superblock_decode (?w 0) = Inr sb" using w0 fs_okD(1) [OF ok] by simp
  then have fs: "allocator_inv a" "al_total_blocks a = sb_total_blocks sb" "al_reserved_blocks a = reserved_blocks sb"
    using load_allocator_disk_Inr [OF g] t by (auto simp: holds_tables_def)
  have data: "?w b = write_all v ws b" if "reserved_blocks sb \<le> b" for b
    using write_all_cong [of "put_images ps v" b v ws] put_images_data [OF g s] that by simp
  have "b \<in> set (pi_blocks i) \<Longrightarrow> reserved_blocks sb \<le> b" if "i \<in> set inodes" for i b
    using that own fs pool.owned_in_space [OF fs(1)] by (fastforce simp: ownership_ok_def owned_refs_def data_blocks_def)
  with data have "payloads_ok ?w inodes" by (intro payloads_ok_cong [OF _ pay]) blast
  then show ?thesis using t own ns w0 fs_okD(1) [OF ok] by (simp add: fs_ok_def tables_ok_def)
qed

section \<open>Publishing tables and data together\<close>

lemma publish_empty:
  assumes g: "geometry_ok sb" and v: "disk_ok (sb_total_blocks sb) v" and "\<forall>(b, d) \<in> set ws. b < U64_LIMIT \<and> length d = BLOCK_SIZE"
    and "publish_outcome sb ws recovered recovery_events v = (Inr rep, x, evs)"
  shows "load_disk sb x = Inr []"
proof -
  from assms(4) obtain u y fs where o: "store_outcome sb (txn_entries (0, ws)) v = (Inr u, y, fs)"
    and x: "x = recovered (txn_entries (0, ws)) y"
    by (auto simp: publish_outcome_def Let_def split: sum.splits prod.splits)
  from store_outcome_Inr(2) [OF geometry_check_region [OF g] v o transaction_entries_ok [OF assms(3)]] show ?thesis
    unfolding x by (rule load_recovered [OF g])
qed

lemma publish_update_tx:
  assumes a: "addressable sb" and q: "recovers sb v v" and ok: "fs_ok sb v a0 inodes0 entries0"
    and s: "snapshot sb ps" and ws: "\<forall>(b, d) \<in> set ws. reserved_blocks sb \<le> b \<and> b < sb_total_blocks sb \<and> length d = BLOCK_SIZE"
    and h: "holds_tables sb (put_images ps v) al inodes entries" and own: "ownership_ok sb al inodes"
    and pay: "payloads_ok (write_all v ws) inodes" and ns: "namespace_ok inodes entries"
  obtains (failed) e where
      "\<And>tr. publish_and_recover recover_journal_and_checkpoint (trace_device (sb_total_blocks sb)) sb (image_changes ps v @ ws) (v, tr) = (Inl e, v, tr)"
  | (stored) rep x evs where
      "\<And>tr. publish_and_recover recover_journal_and_checkpoint (trace_device (sb_total_blocks sb)) sb (image_changes ps v @ ws) (v, tr) = (Inr rep, x, tr @ evs)"
      "reaches sb v x evs al inodes entries" "\<And>b. reserved_blocks sb \<le> b \<Longrightarrow> x b = write_all v ws b" "load_disk sb x = Inr []"
proof -
  note g = addressable_geometry [OF a]
  have v: "disk_ok (sb_total_blocks sb) v" using q by (simp add: recovers_def)
  let ?ws = "image_changes ps v @ ws"
  have data: "\<forall>(b, d) \<in> set ?ws. b < U64_LIMIT \<and> length d = BLOCK_SIZE"
    using snapshot_changes(1) [OF g s, of v] ws geometry_okD(10) [OF g] by fastforce
  obtain r x evs where o: "publish_outcome sb ?ws recovered recovery_events v = (r, x, evs)" by (rule prod_cases3)
  note run = publish_checkpoint_trace [OF g refl v data o]
  show thesis
  proof (cases r)
    case (Inl e)
    with publish_outcome_Inl [OF o [unfolded Inl]] run failed show ?thesis by simp
  next
    case (Inr rep)
    have w: "write_all v ?ws = write_all (put_images ps v) ws" by (simp add: write_all_image_changes)
    have l: "lands sb v (write_all (put_images ps v) ws) x evs"
      using lands_publish [OF g q data o [unfolded Inr]] unfolding w by simp
    have fs: "fs_ok sb (write_all (put_images ps v) ws) al inodes entries"
      by (rule fs_ok_written [OF ok s _ h own pay ns]) (use ws in auto)
    have "x b = write_all v ws b" if "reserved_blocks sb \<le> b" for b
    proof -
      have "x b = write_all (put_images ps v) ws b" by (rule lands_data [OF g l that])
      also have "\<dots> = write_all v ws b" by (rule write_all_cong) (use put_images_data [OF g s] that in simp)
      finally show ?thesis .
    qed
    moreover have "reaches sb v x evs al inodes entries" using l fs unfolding reaches_def by blast
    ultimately show ?thesis using stored run Inr publish_empty [OF g v data o [unfolded Inr]] by simp
  qed
qed

section \<open>Updates of files\<close>

text \<open>
  New tables that keep every inode's identity and kind, change files only, and whose blocks are
  exactly the owned ones. The data of the transaction goes to blocks of files.
\<close>

definition file_update :: "superblock \<Rightarrow> persisted_inode list \<Rightarrow> block_allocator \<Rightarrow> persisted_inode list \<Rightarrow> bool" where
  "file_update sb inodes al' inodes' \<longleftrightarrow> allocator_inv al' \<and> map pi_id inodes' = map pi_id inodes \<and> map pi_kind inodes' = map pi_kind inodes \<and>
     (\<forall>i \<in> set inodes'. inode_ok i \<and> inode_typed i) \<and> ownership_ok sb al' inodes' \<and> (\<forall>i \<in> set inodes'. pi_kind i \<noteq> File \<longrightarrow> i \<in> set inodes)"

definition file_writes :: "persisted_inode list \<Rightarrow> block_write list \<Rightarrow> bool" where
  "file_writes inodes' ws \<longleftrightarrow> (\<forall>(b, d) \<in> set ws. length d = BLOCK_SIZE \<and> (\<exists>i \<in> set inodes'. pi_kind i = File \<and> b \<in> set (pi_blocks i)))"

lemma same_ids_kinds:
  assumes "map pi_id inodes' = map pi_id inodes" and "map pi_kind inodes' = map pi_kind inodes"
  shows "is_dir inodes' d \<longleftrightarrow> is_dir inodes d" and "namespace_ok inodes' entries \<longleftrightarrow> namespace_ok inodes entries"
proof -
  have z: "map (\<lambda>i. (pi_id i, pi_kind i)) inodes' = map (\<lambda>i. (pi_id i, pi_kind i)) inodes"
    using assms by (simp add: list_eq_iff_nth_eq)
  have iff: "is_dir xs d \<longleftrightarrow> (d, Directory) \<in> set (map (\<lambda>i. (pi_id i, pi_kind i)) xs)" for xs d
    by (auto simp: is_dir_def)
  show 1: "is_dir inodes' d \<longleftrightarrow> is_dir inodes d" for d by (simp only: iff z)
  have ids: "pi_id ` set inodes' = pi_id ` set inodes" using assms(1) by (metis set_map)
  have ne: "inodes' = [] \<longleftrightarrow> inodes = []" using assms(1) by (metis map_is_Nil_conv)
  have "(\<forall>i \<in> set xs. P (pi_id i)) \<longleftrightarrow> (\<forall>x \<in> pi_id ` set xs. P x)" for P :: "u64 \<Rightarrow> bool" and xs by auto
  note all = this [of _ "\<lambda>x. (ROOT_INODE_ID, x) \<in> (links entries)\<^sup>*"]
  show "namespace_ok inodes' entries \<longleftrightarrow> namespace_ok inodes entries"
    unfolding namespace_ok_def tree_ok_def entries_ok_def dir_links_def all 1 ids ne ..
qed

lemma file_update_facts:
  assumes ok: "fs_ok sb v al inodes entries" and u: "file_update sb inodes al' inodes'" and ws: "file_writes inodes' ws"
    and geo: "al_total_blocks al' = sb_total_blocks sb" "al_reserved_blocks al' = reserved_blocks sb"
  shows "namespace_ok inodes' entries" and "payloads_ok (write_all v ws) inodes'"
    and "\<forall>(b, d) \<in> set ws. reserved_blocks sb \<le> b \<and> b < sb_total_blocks sb \<and> length d = BLOCK_SIZE"
proof -
  from u have ids: "map pi_id inodes' = map pi_id inodes" "map pi_kind inodes' = map pi_kind inodes"
    and inv: "allocator_inv al'" and own: "ownership_ok sb al' inodes'" and rest: "\<forall>i \<in> set inodes'. pi_kind i \<noteq> File \<longrightarrow> i \<in> set inodes"
    by (auto simp: file_update_def)
  show "namespace_ok inodes' entries" using same_ids_kinds(2) [OF ids] fs_okD(12) [OF ok] by blast
  have d: "distinct (map pi_id inodes')" using fs_okD(7) [OF ok] ids(1) by simp
  note o = own [unfolded ownership_ok_iff [OF d]]
  have owned: "reserved_blocks sb \<le> b \<and> b < sb_total_blocks sb" if "i \<in> set inodes'" "b \<in> set (pi_blocks i)" for i b
    using o that pool.owned_in_space [OF inv] geo by (fastforce simp: data_blocks_def)
  show "\<forall>(b, d) \<in> set ws. reserved_blocks sb \<le> b \<and> b < sb_total_blocks sb \<and> length d = BLOCK_SIZE"
    using ws owned by (fastforce simp: file_writes_def)
  have "write_all v ws b = v b" if i: "i \<in> set inodes'" "pi_kind i \<noteq> File" "b \<in> set (pi_blocks i)" for i b
  proof (rule write_all_other)
    show "b \<notin> fst ` set ws"
    proof
      assume "b \<in> fst ` set ws"
      with ws obtain j where j: "j \<in> set inodes'" "pi_kind j = File" "b \<in> set (pi_blocks j)" by (fastforce simp: file_writes_def)
      with i have "pi_id i \<noteq> pi_id j" using d by (metis distinct_map inj_onD)
      with o i j show False by blast
    qed
  qed
  then have "read_target_disk i (write_all v ws) = read_target_disk i v" if "i \<in> set inodes'" "pi_kind i = Symlink" for i
    using that by (simp add: read_target_disk_def cong: map_cong)
  then show "payloads_ok (write_all v ws) inodes'"
    using rest fs_okD(11) [OF ok] by (auto simp: payloads_ok_def)
qed

lemma file_update_tx:
  assumes a: "addressable sb" and q: "recovers sb v v" and ok: "fs_ok sb v al inodes entries"
    and u: "file_update sb inodes al' inodes'" and ws: "file_writes inodes' ws"
  obtains (failed) e where "\<And>tr. publish_file_update (trace_device (sb_total_blocks sb)) sb al' inodes' ws (v, tr) = (Inl e, v, tr)"
  | (stored) rep x evs where
      "\<And>tr. publish_file_update (trace_device (sb_total_blocks sb)) sb al' inodes' ws (v, tr) = (Inr rep, x, tr @ evs)"
      "reaches sb v x evs al' inodes' entries" "\<And>b. reserved_blocks sb \<le> b \<Longrightarrow> x b = write_all v ws b" "load_disk sb x = Inr []"
proof (cases "file_images sb al' inodes'")
  case (Inl e)
  then show thesis
    by (intro failed [of e]) (simp add: publish_file_update_def io_simps collect_file_trace [OF a])
next
  case (Inr ps)
  note g = addressable_geometry [OF a]
  have geo: "al_total_blocks al' = sb_total_blocks sb" "al_reserved_blocks al' = reserved_blocks sb"
    using Inr allocator_image_geometry by (auto simp: file_images_def res_bind_Inr)
  note f = file_update_facts [OF ok u ws geo]
  have h: "holds_tables sb (put_images ps v) al' inodes' entries"
    using holds_file [OF g Inr _ _ fs_okD(3) [OF ok]] u by (auto simp: file_update_def)
  have own: "ownership_ok sb al' inodes'" using u by (simp add: file_update_def)
  have run: "publish_file_update (trace_device (sb_total_blocks sb)) sb al' inodes' ws (v, tr)
      = publish_and_recover recover_journal_and_checkpoint (trace_device (sb_total_blocks sb)) sb (image_changes ps v @ ws) (v, tr)" for tr
    by (simp add: publish_file_update_def io_simps collect_file_trace [OF a] Inr)
  show thesis
    by (rule publish_update_tx [OF a q ok snapshot_file(1) [OF g Inr] f(3) h own f(2,1)]) (use run failed stored in auto)
qed

lemma inode_update_tx:
  assumes a: "addressable sb" and q: "recovers sb v v" and ok: "fs_ok sb v al inodes entries"
    and u: "file_update sb inodes al inodes'"
  obtains (failed) e where "\<And>tr. publish_inode_table_transfer (trace_device (sb_total_blocks sb)) sb inodes' (v, tr) = (Inl e, v, tr)"
  | (stored) rep x evs where
      "\<And>tr. publish_inode_table_transfer (trace_device (sb_total_blocks sb)) sb inodes' (v, tr) = (Inr rep, x, tr @ evs)"
      "reaches sb v x evs al inodes' entries" "\<And>b. reserved_blocks sb \<le> b \<Longrightarrow> x b = v b" "load_disk sb x = Inr []"
proof (cases "inode_images sb inodes'")
  case (Inl e)
  then show thesis
    by (intro failed [of e]) (simp add: publish_inode_table_transfer_def io_simps collect_inode_trace [OF a])
next
  case (Inr ps)
  note g = addressable_geometry [OF a]
  have w: "file_writes inodes' []" by (simp add: file_writes_def)
  note f = file_update_facts [OF ok u w fs_okD(5,6) [OF ok]]
  have h: "holds_tables sb (put_images ps v) al inodes' entries"
    using holds_inodes [OF g Inr _ fs_okD(3) [OF ok]] u by (auto simp: file_update_def)
  have own: "ownership_ok sb al inodes'" using u by (simp add: file_update_def)
  have run: "publish_inode_table_transfer (trace_device (sb_total_blocks sb)) sb inodes' (v, tr)
      = publish_and_recover recover_journal_and_checkpoint (trace_device (sb_total_blocks sb)) sb (image_changes ps v @ []) (v, tr)" for tr
    by (simp add: publish_inode_table_transfer_def io_simps collect_inode_trace [OF a] Inr)
  show thesis
    by (rule publish_update_tx [OF a q ok snapshot_inodes(1) [OF g Inr] f(3) h own f(2,1)]) (use run failed stored in auto)
qed

section \<open>The same on every reliable device\<close>

context read_sim
begin

lemma sim_collect_file_changes: "dev_sim P abst (\<lambda>_. True) (collect_file_changes D sb al is) (collect_file_changes E sb al is)"
  unfolding collect_file_changes_def by (rule sim_bind_lift sim_bind [OF sim_collect] sim_prod sim_return TrueI)+

lemma sim_collect_inode_changes: "dev_sim P abst (\<lambda>_. True) (collect_inode_changes D sb is) (collect_inode_changes E sb is)"
  unfolding collect_inode_changes_def by (rule sim_bind_lift sim_bind [OF sim_collect] sim_prod sim_return TrueI)+

end

context device_sim
begin

lemma sim_publish_file_update: "dev_sim P abst (\<lambda>_. True) (publish_file_update D sb al is ws) (publish_file_update E sb al is ws)"
  unfolding publish_file_update_def
  by (rule sim_bind [OF sim_collect_file_changes] sim_publish_and_recover sim_recover_journal_and_checkpoint)+

lemma sim_publish_inode_table_transfer:
  "dev_sim P abst (\<lambda>_. True) (publish_inode_table_transfer D sb is) (publish_inode_table_transfer E sb is)"
  unfolding publish_inode_table_transfer_def
  by (rule sim_bind [OF sim_collect_inode_changes] sim_publish_and_recover sim_recover_journal_and_checkpoint)+

end

end
