(* ===== verification/File_Splice.thy ===== *)
theory File_Splice
  imports Data_Tx Unlink_Tx
begin

text \<open>
  The operations that splice the block list of a regular file: append, insert, replace, remove,
  collapse and truncate of whole blocks, with first-fit or contiguous allocation, from the caller's
  data or from a snapshot of another file's blocks. All of them load the allocator and the inode
  table, compute the new ones, and publish them together with the data of the new blocks.
\<close>

section \<open>The steps they share\<close>

definition file_position :: "u64 \<Rightarrow> persisted_inode list \<Rightarrow> nat io_result" where
  "file_position ino inodes =
     res_bind (ok_or InvalidInput (position (\<lambda>i. pi_id i = ino) inodes)) (\<lambda>k.
     if pi_kind (inodes ! k) \<noteq> File then Inl InvalidInput else Inr k)"

definition splice_inode :: "nat \<Rightarrow> nat \<Rightarrow> nat \<Rightarrow> u64 list \<Rightarrow> persisted_inode list \<Rightarrow> (u64 list \<times> persisted_inode list) io_result" where
  "splice_inode k lo hi replacements inodes =
     (case replace_block_range lo hi replacements (inodes ! k) of
        (Inl e, _) \<Rightarrow> Inl e | (Inr displaced, inode) \<Rightarrow> Inr (displaced, inodes[k := inode]))"

definition resize_inode :: "nat \<Rightarrow> u64 \<Rightarrow> persisted_inode list \<Rightarrow> persisted_inode list io_result" where
  "resize_inode k byte_len inodes =
     (case set_file_byte_len byte_len (inodes ! k) of (Inl e, _) \<Rightarrow> Inl e | (Inr _, inode) \<Rightarrow> Inr (inodes[k := inode]))"

definition allocate_run :: "nat \<Rightarrow> block_allocator \<Rightarrow> (u64 list \<times> block_allocator) io_result" where
  "allocate_run count allocator =
     res_bind (map_err (\<lambda>_. InvalidInput) (allocate_contiguous count allocator)) (\<lambda>(first_block, allocator').
     res_bind (res_fold (\<lambda>offset blocks. res_bind (ok_or InvalidData (checked_add first_block offset)) (\<lambda>block.
       Inr (blocks @ [block]))) [0..<count] []) (\<lambda>blocks.
     Inr (blocks, allocator')))"

definition validate_owned :: "block_allocator \<Rightarrow> u64 list \<Rightarrow> unit io_result" where
  "validate_owned allocator blocks =
     res_fold (\<lambda>block _. res_bind (map_err (\<lambda>_. InvalidData) (is_owned allocator block)) (\<lambda>owned.
       if \<not> owned then Inl InvalidData else Inr ())) blocks ()"

definition block_slice :: "nat \<Rightarrow> nat \<Rightarrow> 'a list \<Rightarrow> 'a list" where
  "block_slice lo hi blocks = take (hi - lo) (drop lo blocks)"

definition snapshot_owned_blocks :: "'d block_device \<Rightarrow> block_allocator \<Rightarrow> u64 list \<Rightarrow> ('d, byte list list) dev_io" where
  "snapshot_owned_blocks D allocator blocks =
     io_map blocks (\<lambda>block.
       io_bind (io_lift (map_err (\<lambda>_. InvalidData) (is_owned allocator block))) (\<lambda>owned.
       if \<not> owned then io_fail InvalidData else read_block D block))"

section \<open>Editing the block list\<close>

text \<open>New blocks at one index; new blocks in place of a range; a range given up.\<close>

definition add_blocks :: "(nat \<Rightarrow> block_allocator \<Rightarrow> (u64 list \<times> block_allocator) io_result) \<Rightarrow> nat \<Rightarrow> nat \<Rightarrow> nat \<Rightarrow>
    block_allocator \<Rightarrow> persisted_inode list \<Rightarrow> (u64 list \<times> block_allocator \<times> persisted_inode list) io_result" where
  "add_blocks alloc k at count allocator inodes =
     res_bind (alloc count allocator) (\<lambda>(blocks, allocator').
     res_bind (splice_inode k at at blocks inodes) (\<lambda>(_, inodes').
     Inr (blocks, allocator', inodes')))"

definition remap_blocks :: "(nat \<Rightarrow> block_allocator \<Rightarrow> (u64 list \<times> block_allocator) io_result) \<Rightarrow> nat \<Rightarrow> nat \<Rightarrow> nat \<Rightarrow> nat \<Rightarrow>
    block_allocator \<Rightarrow> persisted_inode list \<Rightarrow> (u64 list \<times> u64 list \<times> block_allocator \<times> persisted_inode list) io_result" where
  "remap_blocks alloc k lo hi count allocator inodes =
     (let displaced = block_slice lo hi (pi_blocks (inodes ! k)) in
      res_bind (alloc count allocator) (\<lambda>(blocks, allocator').
      res_bind (free_blocks_in InvalidData displaced allocator') (\<lambda>allocator''.
      res_bind (splice_inode k lo hi blocks inodes) (\<lambda>(_, inodes').
      Inr (blocks, displaced, allocator'', inodes')))))"

definition prepare_mapping :: "(nat \<Rightarrow> block_allocator \<Rightarrow> (u64 list \<times> block_allocator) io_result) \<Rightarrow> nat \<Rightarrow> nat \<Rightarrow> nat \<Rightarrow> nat \<Rightarrow>
    block_allocator \<Rightarrow> persisted_inode list \<Rightarrow> (u64 list \<times> u64 list \<times> block_allocator \<times> persisted_inode list) io_result" where
  "prepare_mapping alloc k lo hi count allocator inodes =
     res_bind (validate_owned allocator (block_slice lo hi (pi_blocks (inodes ! k)))) (\<lambda>_.
     remap_blocks alloc k lo hi count allocator inodes)"

definition release_blocks :: "nat \<Rightarrow> nat \<Rightarrow> nat \<Rightarrow> block_allocator \<Rightarrow> persisted_inode list \<Rightarrow>
    (u64 list \<times> block_allocator \<times> persisted_inode list) io_result" where
  "release_blocks k lo hi allocator inodes =
     res_bind (splice_inode k lo hi [] inodes) (\<lambda>(released, inodes').
     res_bind (free_blocks_in InvalidData released allocator) (\<lambda>allocator'.
     Inr (released, allocator', inodes')))"

section \<open>What the edits do\<close>

text \<open>
  The tables after the blocks \<open>lo..<hi\<close> of the file at index \<open>k\<close> have become \<open>rs\<close>: fresh blocks are
  now owned, the displaced ones free, and nothing else has changed.
\<close>

definition spliced_tables :: "block_allocator \<Rightarrow> persisted_inode list \<Rightarrow> nat \<Rightarrow> nat \<Rightarrow> nat \<Rightarrow> u64 list \<Rightarrow>
    block_allocator \<Rightarrow> persisted_inode list \<Rightarrow> bool" where
  "spliced_tables al inodes k lo hi rs al' inodes' \<longleftrightarrow> k < length inodes \<and> pi_kind (inodes ! k) = File \<and>
     lo \<le> hi \<and> hi \<le> length (pi_blocks (inodes ! k)) \<and>
     (\<exists>i. inodes' = inodes[k := i] \<and> inode_ok i \<and> pi_id i = pi_id (inodes ! k) \<and> pi_kind i = File \<and>
        pi_blocks i = take lo (pi_blocks (inodes ! k)) @ rs @ drop hi (pi_blocks (inodes ! k))) \<and>
     distinct rs \<and> set rs \<subseteq> data_blocks al - owned_blocks al \<and> allocator_inv al' \<and>
     owned_blocks al' = (owned_blocks al - set (block_slice lo hi (pi_blocks (inodes ! k)))) \<union> set rs"

lemma block_slice_split:
  assumes "lo \<le> hi"
  shows "take lo xs @ block_slice lo hi xs @ drop hi xs = xs"
proof -
  have "block_slice lo hi xs @ drop hi xs = drop lo xs"
    using assms append_take_drop_id [of "hi - lo" "drop lo xs"] by (simp add: block_slice_def)
  then show ?thesis by simp
qed

lemma inode_typed_file:
  assumes "inode_ok i" and "pi_kind i = File" and "pi_id i < U64_LIMIT" and "\<forall>b \<in> set (pi_blocks i). b < U64_LIMIT"
  shows "inode_typed i"
proof -
  have "pi_byte_len i < U64_LIMIT"
    using assms(1,2) by (auto simp: inode_ok_def split: if_splits)
  with assms(3,4) show ?thesis by (simp add: inode_typed_def)
qed

lemma spliced_update:
  assumes ok: "fs_ok sb v al inodes entries" and s: "spliced_tables al inodes k lo hi rs al' inodes'"
  shows "file_update sb inodes al' inodes'"
    and "length datas = length rs \<Longrightarrow> \<forall>d \<in> set datas. length d = BLOCK_SIZE \<Longrightarrow> file_writes inodes' (zip rs datas)"
proof -
  let ?bl = "pi_blocks (inodes ! k)"
  from s obtain i where k: "k < length inodes" "pi_kind (inodes ! k) = File" "lo \<le> hi"
    and i: "inodes' = inodes[k := i]" "inode_ok i" "pi_id i = pi_id (inodes ! k)" "pi_kind i = File" "pi_blocks i = take lo ?bl @ rs @ drop hi ?bl"
    and rs: "distinct rs" "set rs \<subseteq> data_blocks al - owned_blocks al" and al': "allocator_inv al'"
      "owned_blocks al' = (owned_blocks al - set (block_slice lo hi ?bl)) \<union> set rs" by (auto simp: spliced_tables_def)
  have ids: "map pi_id inodes' = map pi_id inodes" "map pi_kind inodes' = map pi_kind inodes"
    using k(1,2) i(1,3,4) by (auto simp: map_update list_eq_iff_nth_eq nth_list_update)
  have d: "distinct (map pi_id inodes)" by (rule fs_okD(7) [OF ok])
  have old: "inodes ! k \<in> set inodes" using k(1) by simp
  have mem: "set inodes' = insert i (set inodes - {inodes ! k})"
    using k(1) d by (simp add: i(1) set_update_distinct distinct_map)
  note own = fs_okD(10) [OF ok, unfolded ownership_ok_iff [OF d]]
  have bl: "set ?bl = set (take lo ?bl) \<union> set (block_slice lo hi ?bl) \<union> set (drop hi ?bl)"
    using block_slice_split [OF k(3), of ?bl] by (metis set_append Un_assoc)
  have dbl: "distinct (take lo ?bl @ block_slice lo hi ?bl @ drop hi ?bl)"
    using own old block_slice_split [OF k(3), of ?bl] by simp
  have other: "set (pi_blocks j) \<inter> set (pi_blocks i) = {}" if "j \<in> set inodes" "pi_id j \<noteq> pi_id i" for j
  proof -
    have "set (pi_blocks j) \<inter> set ?bl = {}" using own that old i(3) by metis
    moreover have "set (pi_blocks j) \<subseteq> owned_blocks al" using own that(1) by blast
    ultimately show ?thesis using rs(2) bl i(5) by auto
  qed
  have keep: "pi_id j \<noteq> pi_id i" if "j \<in> set inodes - {inodes ! k}" for j
    using that d old i(3) by (metis Diff_iff distinct_map inj_onD singletonI)
  have typed: "inode_typed i"
  proof (rule inode_typed_file [OF i(2,4)])
    show "pi_id i < U64_LIMIT" using fs_okD(8) [OF ok] old i(3) by (simp add: inode_typed_def)
    have "set rs \<subseteq> {reserved_blocks sb..<sb_total_blocks sb}" using rs(2) fs_okD(5,6) [OF ok] by (auto simp: data_blocks_def)
    moreover have "\<forall>b \<in> set ?bl. b < U64_LIMIT" using fs_okD(8) [OF ok] old by (simp add: inode_typed_def)
    ultimately show "\<forall>b \<in> set (pi_blocks i). b < U64_LIMIT"
      using bl geometry_okD(10) [OF fs_okD(2) [OF ok]] by (auto simp: i(5))
  qed
  have "ownership_ok sb al' inodes'"
  proof -
    have d': "distinct (map pi_id inodes')" using d ids(1) by simp
    have "owned_blocks al' = (\<Union>j \<in> set inodes'. set (pi_blocks j))"
    proof -
      have "owned_blocks al = set ?bl \<union> (\<Union>j \<in> set inodes - {inodes ! k}. set (pi_blocks j))" using own old by blast
      moreover have "set (block_slice lo hi ?bl) \<inter> (\<Union>j \<in> set inodes - {inodes ! k}. set (pi_blocks j)) = {}"
      proof -
        have "set (pi_blocks j) \<inter> set ?bl = {}" if "j \<in> set inodes - {inodes ! k}" for j
          using own keep [OF that] that old i(3) by (metis Diff_iff)
        then show ?thesis using bl by blast
      qed
      moreover have "set ?bl - set (block_slice lo hi ?bl) = set (take lo ?bl) \<union> set (drop hi ?bl)" using dbl bl by auto
      ultimately show ?thesis unfolding al'(2) mem using i(5) by auto
    qed
    moreover have "\<forall>j \<in> set inodes'. distinct (pi_blocks j)"
      using own i(2) mem by (auto simp: inode_ok_def)
    moreover have "set (pi_blocks j) \<inter> set (pi_blocks j') = {}"
      if "j \<in> set inodes'" "j' \<in> set inodes'" "pi_id j \<noteq> pi_id j'" for j j'
      using that own other unfolding mem by (metis Diff_iff Int_commute insert_iff)
    ultimately show ?thesis by (simp add: ownership_ok_iff [OF d'])
  qed
  moreover have "\<forall>j \<in> set inodes'. inode_ok j \<and> inode_typed j" using fs_okD(8) [OF ok] i(2) typed mem by auto
  ultimately show "file_update sb inodes al' inodes'"
    using al'(1) ids i(4) mem by (auto simp: file_update_def)
  show "file_writes inodes' (zip rs datas)" if "length datas = length rs" "\<forall>d \<in> set datas. length d = BLOCK_SIZE"
    using that mem i(4,5) by (auto simp: file_writes_def dest: set_zip_leftD set_zip_rightD)
qed

text \<open>The blocks of the file and of the others, once the new blocks hold their data.\<close>

lemma spliced_content:
  assumes ok: "fs_ok sb v al inodes entries" and s: "spliced_tables al inodes k lo hi rs al' inodes'"
    and x: "\<And>b. reserved_blocks sb \<le> b \<Longrightarrow> x b = write_all v (zip rs datas) b" and len: "length datas = length rs"
  shows "map x (pi_blocks (inodes' ! k)) = take lo (map v (pi_blocks (inodes ! k))) @ datas @ drop hi (map v (pi_blocks (inodes ! k)))"
    and "i \<in> set inodes \<Longrightarrow> b \<in> set (pi_blocks i) \<Longrightarrow> x b = v b"
proof -
  let ?bl = "pi_blocks (inodes ! k)"
  from s have k: "k < length inodes" and rs: "distinct rs" "set rs \<subseteq> data_blocks al - owned_blocks al"
    and i': "pi_blocks (inodes' ! k) = take lo ?bl @ rs @ drop hi ?bl" by (auto simp: spliced_tables_def)
  show same: "x b = v b" if "i \<in> set inodes" "b \<in> set (pi_blocks i)" for i b
  proof -
    have "b \<in> owned_blocks al" using fs_okD(10) [OF ok] that by (auto simp: ownership_ok_def owned_refs_def)
    with rs(2) have "b \<notin> set rs" by auto
    then show ?thesis using x [of b] fs_ok_owned [OF ok that] write_all_zip(2) [OF rs(1) len] by simp
  qed
  have "x b = write_all v (zip rs datas) b" if "b \<in> set rs" for b
    using that rs(2) fs_okD(6) [OF ok] by (intro x) (auto simp: data_blocks_def)
  then have "map x rs = datas" using write_all_zip(1) [OF rs(1) len, of v] by (metis (no_types, lifting) map_cong)
  moreover have "map x (take lo ?bl) = map v (take lo ?bl)" "map x (drop hi ?bl) = map v (drop hi ?bl)"
    using same [OF nth_mem [OF k]] by (auto dest: in_set_takeD in_set_dropD)
  ultimately show "map x (pi_blocks (inodes' ! k)) = take lo (map v ?bl) @ datas @ drop hi (map v ?bl)"
    by (simp add: i' take_map drop_map)
qed

section \<open>Sources of fresh blocks\<close>

text \<open>What an operation relies on when it asks for \<open>n\<close> new blocks.\<close>

locale block_source =
  fixes alloc :: "nat \<Rightarrow> block_allocator \<Rightarrow> (u64 list \<times> block_allocator) io_result"
  assumes alloc_ok: "allocator_inv a \<Longrightarrow> alloc n a = Inr (bs, a') \<Longrightarrow> allocator_inv a' \<and> length bs = n \<and> distinct bs \<and>
      set bs \<subseteq> data_blocks a - owned_blocks a \<and> owned_blocks a' = owned_blocks a \<union> set bs"

lemma allocate_run_Inr:
  assumes "allocate_run n a = Inr (bs, a')"
  shows "\<exists>s. allocate_contiguous n a = Inr (s, a') \<and> bs = [s..<s + n]"
proof -
  from assms obtain s where s: "allocate_contiguous n a = Inr (s, a')"
    and f: "res_fold (\<lambda>offset blocks. res_bind (ok_or InvalidData (checked_add s offset)) (\<lambda>block. Inr (blocks @ [block]))) [0..<n] [] = Inr bs"
    by (auto simp: allocate_run_def res_bind_Inr)
  have run: "acc @ map ((+) s) offs = bs"
    if "res_fold (\<lambda>offset blocks. res_bind (ok_or InvalidData (checked_add s offset)) (\<lambda>block. Inr (blocks @ [block]))) offs acc = Inr bs" for offs acc bs
    using that
  proof (induction offs arbitrary: acc)
    case (Cons a offs)
    from Cons.prems have "res_fold (\<lambda>offset blocks. res_bind (ok_or InvalidData (checked_add s offset)) (\<lambda>block. Inr (blocks @ [block]))) offs (acc @ [s + a]) = Inr bs"
      by (auto simp: res_bind_Inr checked_add_def split: if_splits)
    from Cons.IH [OF this] show ?case by simp
  qed simp
  have "bs = map ((+) s) [0..<n]" using run [OF f] by simp
  then have "bs = [s..<s + n]" by (auto simp: list_eq_iff_nth_eq)
  with s show ?thesis by blast
qed

interpretation first_fit: block_source allocate_blocks
  by unfold_locales (use allocate_blocks_ok in blast)

interpretation contiguous: block_source allocate_run
proof (unfold_locales, goal_cases)
  case (1 a n bs a')
  from allocate_run_Inr [OF 1(2)] obtain s where s: "allocate_contiguous n a = Inr (s, a')" "bs = [s..<s + n]" by blast
  from allocate_contiguous_step [OF 1(1) s(1)] show ?case by (simp add: s(2))
qed

lemma splice_inode_Inr:
  assumes "splice_inode k lo hi rs inodes = Inr (ds, inodes')"
  shows "replace_block_range lo hi rs (inodes ! k) = (Inr ds, snd (replace_block_range lo hi rs (inodes ! k)))"
    and "inodes' = inodes[k := snd (replace_block_range lo hi rs (inodes ! k))]"
  using assms by (auto simp: splice_inode_def split: prod.splits sum.splits)

lemma spliced_tablesI:
  assumes k: "k < length inodes" "pi_kind (inodes ! k) = File" and s: "splice_inode k lo hi rs inodes = Inr (ds, inodes')"
    and rs: "distinct rs" "set rs \<subseteq> data_blocks al - owned_blocks al" and al': "allocator_inv al'"
      "owned_blocks al' = (owned_blocks al - set ds) \<union> set rs"
  shows "spliced_tables al inodes k lo hi rs al' inodes'" and "ds = block_slice lo hi (pi_blocks (inodes ! k))"
    and "inodes' ! k = snd (replace_block_range lo hi rs (inodes ! k))"
proof -
  note r = replace_block_range_Inr [OF splice_inode_Inr(1) [OF s]] and i = splice_inode_Inr(2) [OF s]
  show ds: "ds = block_slice lo hi (pi_blocks (inodes ! k))" using r by (simp add: block_slice_def)
  show "spliced_tables al inodes k lo hi rs al' inodes'"
    using r k rs al' i ds by (auto simp: spliced_tables_def)
  show "inodes' ! k = snd (replace_block_range lo hi rs (inodes ! k))" using k i by simp
qed

lemma file_owned:
  assumes "fs_ok sb v al inodes entries" and "k < length inodes"
  shows "set (block_slice lo hi (pi_blocks (inodes ! k))) \<subseteq> owned_blocks al" and "distinct (block_slice lo hi (pi_blocks (inodes ! k)))"
  using fs_okD(10) [OF assms(1), unfolded ownership_ok_iff [OF fs_okD(7) [OF assms(1)]]] nth_mem [OF assms(2)]
  by (auto simp: block_slice_def dest!: in_set_takeD in_set_dropD)

lemma release_blocks_spliced:
  assumes ok: "fs_ok sb v al inodes entries" and k: "k < length inodes" "pi_kind (inodes ! k) = File"
    and r: "release_blocks k lo hi al inodes = Inr (ds, al', inodes')"
  shows "spliced_tables al inodes k lo hi [] al' inodes'" and "ds = block_slice lo hi (pi_blocks (inodes ! k))"
    and "inodes' ! k = snd (replace_block_range lo hi [] (inodes ! k))"
proof -
  from r have s: "splice_inode k lo hi [] inodes = Inr (ds, inodes')" and f: "free_blocks_in InvalidData ds al = Inr al'"
    by (auto simp: release_blocks_def res_bind_Inr)
  have ds: "ds = block_slice lo hi (pi_blocks (inodes ! k))"
    using replace_block_range_Inr [OF splice_inode_Inr(1) [OF s]] by (simp add: block_slice_def)
  obtain b where "free_blocks_in InvalidData ds al = Inr b" "allocator_inv b" "owned_blocks b = owned_blocks al - set ds"
    by (rule free_blocks_in_ok [OF fs_okD(4) [OF ok], of ds InvalidData]) (use ds file_owned [OF ok k(1)] in simp_all)
  with f have al': "allocator_inv al'" "owned_blocks al' = (owned_blocks al - set ds) \<union> set []" by simp_all
  note i = spliced_tablesI [OF k s _ _ al']
  show "spliced_tables al inodes k lo hi [] al' inodes'" "ds = block_slice lo hi (pi_blocks (inodes ! k))"
    "inodes' ! k = snd (replace_block_range lo hi [] (inodes ! k))" by (rule i; simp)+
qed

context block_source
begin

lemma add_blocks_spliced:
  assumes ok: "fs_ok sb v al inodes entries" and k: "k < length inodes" "pi_kind (inodes ! k) = File"
    and r: "add_blocks alloc k at count al inodes = Inr (rs, al', inodes')"
  shows "spliced_tables al inodes k at at rs al' inodes'" and "length rs = count"
    and "inodes' ! k = snd (replace_block_range at at rs (inodes ! k))"
proof -
  from r obtain ds where s: "splice_inode k at at rs inodes = Inr (ds, inodes')" and f: "alloc count al = Inr (rs, al')"
    by (auto simp: add_blocks_def res_bind_Inr)
  note a = alloc_ok [OF fs_okD(4) [OF ok] f]
  have "ds = []" using replace_block_range_Inr [OF splice_inode_Inr(1) [OF s]] by simp
  with a have o: "owned_blocks al' = (owned_blocks al - set ds) \<union> set rs" by simp
  note i = spliced_tablesI [OF k s _ _ _ o]
  show "spliced_tables al inodes k at at rs al' inodes'" "inodes' ! k = snd (replace_block_range at at rs (inodes ! k))"
    by (rule i; use a in simp)+
  show "length rs = count" using a by simp
qed

lemma remap_blocks_spliced:
  assumes ok: "fs_ok sb v al inodes entries" and k: "k < length inodes" "pi_kind (inodes ! k) = File"
    and r: "remap_blocks alloc k lo hi count al inodes = Inr (rs, ds, al', inodes')"
  shows "spliced_tables al inodes k lo hi rs al' inodes'" and "length rs = count"
    and "ds = block_slice lo hi (pi_blocks (inodes ! k))" and "inodes' ! k = snd (replace_block_range lo hi rs (inodes ! k))"
proof -
  from r obtain ds' al1 where s: "splice_inode k lo hi rs inodes = Inr (ds', inodes')" and f: "alloc count al = Inr (rs, al1)"
    and fr: "free_blocks_in InvalidData ds al1 = Inr al'" and ds: "ds = block_slice lo hi (pi_blocks (inodes ! k))"
    by (auto simp: remap_blocks_def res_bind_Inr Let_def)
  note a = alloc_ok [OF fs_okD(4) [OF ok] f] and o = file_owned [OF ok k(1), of lo hi]
  have ds': "ds' = ds" using replace_block_range_Inr [OF splice_inode_Inr(1) [OF s]] by (simp add: block_slice_def ds)
  obtain b where "free_blocks_in InvalidData ds al1 = Inr b" "allocator_inv b" "owned_blocks b = owned_blocks al1 - set ds"
    by (rule free_blocks_in_ok [of al1 ds InvalidData]) (use a o ds in auto)
  with fr have b: "allocator_inv al'" "owned_blocks al' = owned_blocks al1 - set ds" by simp_all
  have "set rs \<inter> set ds = {}" using a o(1) ds by auto
  then have "owned_blocks al' = (owned_blocks al - set ds') \<union> set rs" using a b(2) ds' by auto
  note i = spliced_tablesI [OF k s _ _ b(1) this]
  show "spliced_tables al inodes k lo hi rs al' inodes'" "inodes' ! k = snd (replace_block_range lo hi rs (inodes ! k))"
    by (rule i; use a in simp)+
  show "length rs = count" "ds = block_slice lo hi (pi_blocks (inodes ! k))" using a ds by simp_all
qed

end

end
