(* ===== verification/File_Ops.thy ===== *)
theory File_Ops
  imports File_Splice
begin

text \<open>
  The block-granular operations on a regular file: \<open>file_data.rs\<close> (append), \<open>file_append_batch.rs\<close>,
  \<open>file_append_contiguous.rs\<close>, \<open>file_insert*.rs\<close>, \<open>file_replace*.rs\<close>, \<open>file_clone_*.rs\<close>, \<open>file_remove.rs\<close>,
  \<open>file_collapse.rs\<close> and the block truncations of \<open>truncate_tx.rs\<close>.
\<close>

section \<open>Operations that write new blocks\<close>

text \<open>
  All of them load the allocator and the inode table, obtain the data of the new blocks, edit both
  tables in memory and publish them with the data.
\<close>

definition splice_file ::
    "'d block_device \<Rightarrow> superblock \<Rightarrow> (block_allocator \<Rightarrow> persisted_inode list \<Rightarrow> ('d, byte list list) dev_io) \<Rightarrow>
     (block_allocator \<Rightarrow> persisted_inode list \<Rightarrow> (u64 list \<times> u64 list \<times> block_allocator \<times> persisted_inode list) io_result) \<Rightarrow>
     ('d, u64 list \<times> u64 list \<times> recovery_report) dev_io" where
  "splice_file D sb fetch edit =
     io_bind (load_allocator D sb) (\<lambda>allocator.
     io_bind (load_inode_table D sb) (\<lambda>inodes.
     io_bind (fetch allocator inodes) (\<lambda>datas.
     io_bind (io_lift (edit allocator inodes)) (\<lambda>(blocks, displaced, allocator', inodes').
     io_bind (publish_file_update D sb allocator' inodes' (zip blocks datas)) (\<lambda>report.
     io_return (blocks, displaced, report))))))"

definition given :: "byte list list \<Rightarrow> block_allocator \<Rightarrow> persisted_inode list \<Rightarrow> ('d, byte list list) dev_io" where
  "given datas allocator inodes = io_return datas"

definition append_edit :: "(nat \<Rightarrow> block_allocator \<Rightarrow> (u64 list \<times> block_allocator) io_result) \<Rightarrow> u64 \<Rightarrow> nat \<Rightarrow>
    block_allocator \<Rightarrow> persisted_inode list \<Rightarrow> (u64 list \<times> u64 list \<times> block_allocator \<times> persisted_inode list) io_result" where
  "append_edit alloc ino count allocator inodes =
     res_bind (file_position ino inodes) (\<lambda>k.
     res_bind (add_blocks alloc k (length (pi_blocks (inodes ! k))) count allocator inodes) (\<lambda>(blocks, allocator', inodes').
     Inr (blocks, [], allocator', inodes')))"

definition insert_edit :: "(nat \<Rightarrow> block_allocator \<Rightarrow> (u64 list \<times> block_allocator) io_result) \<Rightarrow> u64 \<Rightarrow> nat \<Rightarrow> nat \<Rightarrow>
    block_allocator \<Rightarrow> persisted_inode list \<Rightarrow> (u64 list \<times> u64 list \<times> block_allocator \<times> persisted_inode list) io_result" where
  "insert_edit alloc ino insert_index count allocator inodes =
     res_bind (file_position ino inodes) (\<lambda>k.
     if insert_index > length (pi_blocks (inodes ! k)) then Inl InvalidInput
     else
     res_bind (add_blocks alloc k insert_index count allocator inodes) (\<lambda>(blocks, allocator', inodes').
     Inr (blocks, [], allocator', inodes')))"

definition replace_edit :: "(nat \<Rightarrow> block_allocator \<Rightarrow> (u64 list \<times> block_allocator) io_result) \<Rightarrow> u64 \<Rightarrow> nat \<Rightarrow> nat \<Rightarrow> nat \<Rightarrow>
    block_allocator \<Rightarrow> persisted_inode list \<Rightarrow> (u64 list \<times> u64 list \<times> block_allocator \<times> persisted_inode list) io_result" where
  "replace_edit alloc ino start stop count allocator inodes =
     res_bind (file_position ino inodes) (\<lambda>k.
     if stop > length (pi_blocks (inodes ! k)) then Inl InvalidInput
     else prepare_mapping alloc k start stop count allocator inodes)"

definition append_blocks_with ::
    "(nat \<Rightarrow> block_allocator \<Rightarrow> (u64 list \<times> block_allocator) io_result) \<Rightarrow>
     'd block_device \<Rightarrow> superblock \<Rightarrow> u64 \<Rightarrow> byte list list \<Rightarrow> ('d, u64 list \<times> recovery_report) dev_io" where
  "append_blocks_with alloc D sb ino datas =
     (if datas = [] then io_fail InvalidInput
      else
      io_bind (splice_file D sb (given datas) (append_edit alloc ino (length datas))) (\<lambda>(blocks, _, report).
      io_return (blocks, report)))"

definition append_file_blocks_journaled :: "'d block_device \<Rightarrow> superblock \<Rightarrow> u64 \<Rightarrow> byte list list \<Rightarrow> ('d, u64 list \<times> recovery_report) dev_io" where
  "append_file_blocks_journaled = append_blocks_with allocate_blocks"

definition append_file_blocks_contiguous_journaled :: "'d block_device \<Rightarrow> superblock \<Rightarrow> u64 \<Rightarrow> byte list list \<Rightarrow> ('d, u64 list \<times> recovery_report) dev_io" where
  "append_file_blocks_contiguous_journaled = append_blocks_with allocate_run"

definition append_file_block_journaled :: "'d block_device \<Rightarrow> superblock \<Rightarrow> u64 \<Rightarrow> byte list \<Rightarrow> ('d, u64 \<times> recovery_report) dev_io" where
  "append_file_block_journaled D sb ino d =
     io_bind (splice_file D sb (given [d]) (append_edit allocate_blocks ino 1)) (\<lambda>(blocks, _, report).
     io_return (blocks ! 0, report))"

definition insert_blocks_with ::
    "(nat \<Rightarrow> block_allocator \<Rightarrow> (u64 list \<times> block_allocator) io_result) \<Rightarrow>
     'd block_device \<Rightarrow> superblock \<Rightarrow> u64 \<Rightarrow> nat \<Rightarrow> byte list list \<Rightarrow> ('d, u64 list \<times> recovery_report) dev_io" where
  "insert_blocks_with alloc D sb ino insert_index datas =
     (if datas = [] then io_fail InvalidInput
      else
      io_bind (splice_file D sb (given datas) (insert_edit alloc ino insert_index (length datas))) (\<lambda>(blocks, _, report).
      io_return (blocks, report)))"

definition insert_file_blocks_journaled :: "'d block_device \<Rightarrow> superblock \<Rightarrow> u64 \<Rightarrow> nat \<Rightarrow> byte list list \<Rightarrow> ('d, u64 list \<times> recovery_report) dev_io" where
  "insert_file_blocks_journaled = insert_blocks_with allocate_blocks"

definition insert_file_blocks_contiguous_journaled :: "'d block_device \<Rightarrow> superblock \<Rightarrow> u64 \<Rightarrow> nat \<Rightarrow> byte list list \<Rightarrow> ('d, u64 list \<times> recovery_report) dev_io" where
  "insert_file_blocks_contiguous_journaled = insert_blocks_with allocate_run"

definition insert_file_block_journaled :: "'d block_device \<Rightarrow> superblock \<Rightarrow> u64 \<Rightarrow> nat \<Rightarrow> byte list \<Rightarrow> ('d, u64 \<times> recovery_report) dev_io" where
  "insert_file_block_journaled D sb ino insert_index d =
     io_bind (splice_file D sb (given [d]) (insert_edit allocate_blocks ino insert_index 1)) (\<lambda>(blocks, _, report).
     io_return (blocks ! 0, report))"

definition replace_blocks_with ::
    "(nat \<Rightarrow> block_allocator \<Rightarrow> (u64 list \<times> block_allocator) io_result) \<Rightarrow>
     'd block_device \<Rightarrow> superblock \<Rightarrow> u64 \<Rightarrow> nat \<Rightarrow> nat \<Rightarrow> byte list list \<Rightarrow> ('d, u64 list \<times> u64 list \<times> recovery_report) dev_io" where
  "replace_blocks_with alloc D sb ino start remove_count replacements =
     (if remove_count = 0 \<or> replacements = [] then io_fail InvalidInput
      else
      io_bind (io_lift (ok_or InvalidInput (checked_add start remove_count))) (\<lambda>stop.
      splice_file D sb (given replacements) (replace_edit alloc ino start stop (length replacements))))"

definition replace_file_blocks_journaled ::
    "'d block_device \<Rightarrow> superblock \<Rightarrow> u64 \<Rightarrow> nat \<Rightarrow> nat \<Rightarrow> byte list list \<Rightarrow> ('d, u64 list \<times> u64 list \<times> recovery_report) dev_io" where
  "replace_file_blocks_journaled = replace_blocks_with allocate_blocks"

definition replace_file_blocks_contiguous_journaled ::
    "'d block_device \<Rightarrow> superblock \<Rightarrow> u64 \<Rightarrow> nat \<Rightarrow> nat \<Rightarrow> byte list list \<Rightarrow> ('d, u64 list \<times> u64 list \<times> recovery_report) dev_io" where
  "replace_file_blocks_contiguous_journaled = replace_blocks_with allocate_run"

section \<open>Operations that copy the blocks of another file\<close>

definition clone_endpoints :: "persisted_inode list \<Rightarrow> u64 \<Rightarrow> u64 \<Rightarrow> (nat \<times> nat) io_result" where
  "clone_endpoints inodes source_inode destination_inode =
     res_bind (ok_or InvalidInput (position (\<lambda>i. pi_id i = source_inode) inodes)) (\<lambda>source_index.
     res_bind (ok_or InvalidInput (position (\<lambda>i. pi_id i = destination_inode) inodes)) (\<lambda>destination_index.
     if pi_kind (inodes ! source_index) \<noteq> File \<or> pi_kind (inodes ! destination_index) \<noteq> File then Inl InvalidInput
     else Inr (source_index, destination_index)))"

text \<open>The source blocks, read while both files still have them.\<close>

definition clone_append_source ::
    "'d block_device \<Rightarrow> u64 \<Rightarrow> nat \<Rightarrow> nat \<Rightarrow> u64 \<Rightarrow> block_allocator \<Rightarrow> persisted_inode list \<Rightarrow> ('d, byte list list) dev_io" where
  "clone_append_source D source_inode source_start count destination_inode allocator inodes =
     io_bind (io_lift (clone_endpoints inodes source_inode destination_inode)) (\<lambda>(s, d).
     io_bind (io_lift (ok_or InvalidInput (checked_add source_start count))) (\<lambda>source_end.
     if source_end > length (pi_blocks (inodes ! s)) then io_fail InvalidInput
     else snapshot_owned_blocks D allocator (block_slice source_start source_end (pi_blocks (inodes ! s)))))"

definition clone_file_blocks_append_journaled ::
    "'d block_device \<Rightarrow> superblock \<Rightarrow> u64 \<Rightarrow> nat \<Rightarrow> nat \<Rightarrow> u64 \<Rightarrow> ('d, u64 list \<times> recovery_report) dev_io" where
  "clone_file_blocks_append_journaled D sb source_inode source_start count destination_inode =
     (if count = 0 then io_fail InvalidInput
      else
      io_bind (splice_file D sb (clone_append_source D source_inode source_start count destination_inode)
        (append_edit allocate_blocks destination_inode count)) (\<lambda>(blocks, _, report).
      io_return (blocks, report)))"

definition clone_insert_source ::
    "'d block_device \<Rightarrow> u64 \<Rightarrow> nat \<Rightarrow> nat \<Rightarrow> u64 \<Rightarrow> nat \<Rightarrow> block_allocator \<Rightarrow> persisted_inode list \<Rightarrow> ('d, byte list list) dev_io" where
  "clone_insert_source D source_inode source_start count destination_inode destination_logical_index allocator inodes =
     io_bind (io_lift (clone_endpoints inodes source_inode destination_inode)) (\<lambda>(s, d).
     io_bind (io_lift (ok_or InvalidInput (checked_add source_start count))) (\<lambda>source_end.
     if source_end > length (pi_blocks (inodes ! s)) then io_fail InvalidInput
     else if destination_logical_index > length (pi_blocks (inodes ! d)) then io_fail InvalidInput
     else snapshot_owned_blocks D allocator (block_slice source_start source_end (pi_blocks (inodes ! s)))))"

definition clone_file_blocks_insert_journaled ::
    "'d block_device \<Rightarrow> superblock \<Rightarrow> u64 \<Rightarrow> nat \<Rightarrow> nat \<Rightarrow> u64 \<Rightarrow> nat \<Rightarrow> ('d, u64 list \<times> recovery_report) dev_io" where
  "clone_file_blocks_insert_journaled D sb source_inode source_start count destination_inode destination_logical_index =
     (if count = 0 then io_fail InvalidInput
      else
      io_bind (splice_file D sb (clone_insert_source D source_inode source_start count destination_inode destination_logical_index)
        (insert_edit allocate_blocks destination_inode destination_logical_index count)) (\<lambda>(blocks, _, report).
      io_return (blocks, report)))"

definition clone_ranges_source ::
    "'d block_device \<Rightarrow> u64 \<Rightarrow> nat \<Rightarrow> nat \<Rightarrow> u64 \<Rightarrow> nat \<Rightarrow> nat \<Rightarrow> block_allocator \<Rightarrow> persisted_inode list \<Rightarrow> ('d, byte list list) dev_io" where
  "clone_ranges_source D source_inode source_start source_end destination_inode destination_start destination_end allocator inodes =
     io_bind (io_lift (clone_endpoints inodes source_inode destination_inode)) (\<lambda>(s, d).
     if source_end > length (pi_blocks (inodes ! s)) then io_fail InvalidInput
     else if destination_end > length (pi_blocks (inodes ! d)) then io_fail InvalidInput
     else
     io_bind (snapshot_owned_blocks D allocator (block_slice source_start source_end (pi_blocks (inodes ! s)))) (\<lambda>snapshots.
     io_bind (snapshot_owned_blocks D allocator (block_slice destination_start destination_end (pi_blocks (inodes ! d)))) (\<lambda>_.
     io_return snapshots)))"

text \<open>The replacement of equally many blocks overwrites the references in place.\<close>

definition clone_replace_edit :: "u64 \<Rightarrow> nat \<Rightarrow> nat \<Rightarrow> nat \<Rightarrow>
    block_allocator \<Rightarrow> persisted_inode list \<Rightarrow> (u64 list \<times> u64 list \<times> block_allocator \<times> persisted_inode list) io_result" where
  "clone_replace_edit ino lo hi count allocator inodes =
     res_bind (file_position ino inodes) (\<lambda>k.
     let inode = inodes ! k; displaced = block_slice lo hi (pi_blocks inode) in
     res_bind (allocate_blocks count allocator) (\<lambda>(blocks, allocator').
     res_bind (free_blocks_in InvalidData displaced allocator') (\<lambda>allocator''.
     Inr (blocks, displaced, allocator'',
       inodes[k := inode\<lparr>pi_blocks := take lo (pi_blocks inode) @ blocks @ drop hi (pi_blocks inode)\<rparr>]))))"

definition clone_file_blocks_replace_journaled ::
    "'d block_device \<Rightarrow> superblock \<Rightarrow> u64 \<Rightarrow> nat \<Rightarrow> nat \<Rightarrow> u64 \<Rightarrow> nat \<Rightarrow> ('d, u64 list \<times> u64 list \<times> recovery_report) dev_io" where
  "clone_file_blocks_replace_journaled D sb source_inode source_start count destination_inode destination_start =
     (if count = 0 then io_fail InvalidInput
      else if source_inode = destination_inode then io_fail InvalidInput
      else
      io_bind (io_lift (ok_or InvalidInput (checked_add source_start count))) (\<lambda>source_end.
      io_bind (io_lift (ok_or InvalidInput (checked_add destination_start count))) (\<lambda>destination_end.
      splice_file D sb
        (clone_ranges_source D source_inode source_start source_end destination_inode destination_start destination_end)
        (clone_replace_edit destination_inode destination_start destination_end count))))"

record file_block_range =
  fbr_inode :: u64
  fbr_start :: nat
  fbr_block_count :: nat

definition range_end :: "file_block_range \<Rightarrow> nat io_result" where
  "range_end r =
     (if fbr_block_count r = 0 then Inl InvalidInput
      else ok_or InvalidInput (checked_add (fbr_start r) (fbr_block_count r)))"

definition clone_splice_source ::
    "'d block_device \<Rightarrow> file_block_range \<Rightarrow> file_block_range \<Rightarrow> block_allocator \<Rightarrow> persisted_inode list \<Rightarrow> ('d, byte list list) dev_io" where
  "clone_splice_source D source destination allocator inodes =
     (if fbr_inode source = fbr_inode destination then io_fail InvalidInput
      else
      io_bind (io_lift (range_end source)) (\<lambda>source_end.
      io_bind (io_lift (range_end destination)) (\<lambda>destination_end.
      clone_ranges_source D (fbr_inode source) (fbr_start source) source_end
        (fbr_inode destination) (fbr_start destination) destination_end allocator inodes)))"

definition clone_splice_edit :: "file_block_range \<Rightarrow> file_block_range \<Rightarrow>
    block_allocator \<Rightarrow> persisted_inode list \<Rightarrow> (u64 list \<times> u64 list \<times> block_allocator \<times> persisted_inode list) io_result" where
  "clone_splice_edit source destination allocator inodes =
     res_bind (range_end destination) (\<lambda>destination_end.
     res_bind (file_position (fbr_inode destination) inodes) (\<lambda>k.
     remap_blocks allocate_blocks k (fbr_start destination) destination_end (fbr_block_count source) allocator inodes))"

definition clone_file_blocks_splice_journaled ::
    "'d block_device \<Rightarrow> superblock \<Rightarrow> file_block_range \<Rightarrow> file_block_range \<Rightarrow> ('d, u64 list \<times> u64 list \<times> recovery_report) dev_io" where
  "clone_file_blocks_splice_journaled D sb source destination =
     splice_file D sb (clone_splice_source D source destination) (clone_splice_edit source destination)"

section \<open>Operations that only give blocks up\<close>

definition release_file ::
    "'d block_device \<Rightarrow> superblock \<Rightarrow>
     (block_allocator \<Rightarrow> persisted_inode list \<Rightarrow> (u64 list \<times> block_allocator \<times> persisted_inode list) option io_result) \<Rightarrow>
     ('d, u64 list \<times> recovery_report) dev_io" where
  "release_file D sb edit =
     io_bind (load_allocator D sb) (\<lambda>allocator.
     io_bind (load_inode_table D sb) (\<lambda>inodes.
     io_bind (load_directory_table D sb) (\<lambda>entries.
     io_bind (io_lift (edit allocator inodes)) (\<lambda>result.
     case result of
       None \<Rightarrow> io_return ([], \<lparr>committed_transactions = 0, home_writes = 0\<rparr>)
     | Some (released, allocator', inodes') \<Rightarrow>
         io_bind (store_create_metadata_journaled D sb allocator' inodes' entries) (\<lambda>report.
         io_return (released, report))))))"

definition remove_edit :: "u64 \<Rightarrow> nat \<Rightarrow> block_allocator \<Rightarrow> persisted_inode list \<Rightarrow>
    (u64 list \<times> block_allocator \<times> persisted_inode list) option io_result" where
  "remove_edit ino remove_index allocator inodes =
     res_bind (file_position ino inodes) (\<lambda>k.
     if remove_index \<ge> length (pi_blocks (inodes ! k)) then Inl InvalidInput
     else res_bind (release_blocks k remove_index (remove_index + 1) allocator inodes) (\<lambda>r. Inr (Some r)))"

definition remove_file_block_journaled :: "'d block_device \<Rightarrow> superblock \<Rightarrow> u64 \<Rightarrow> nat \<Rightarrow> ('d, u64 \<times> recovery_report) dev_io" where
  "remove_file_block_journaled D sb ino remove_index =
     io_bind (release_file D sb (remove_edit ino remove_index)) (\<lambda>(released, report). io_return (released ! 0, report))"

definition collapse_edit :: "u64 \<Rightarrow> nat \<Rightarrow> nat \<Rightarrow> block_allocator \<Rightarrow> persisted_inode list \<Rightarrow>
    (u64 list \<times> block_allocator \<times> persisted_inode list) option io_result" where
  "collapse_edit ino start_index end_index allocator inodes =
     res_bind (file_position ino inodes) (\<lambda>k.
     let blocks = pi_blocks (inodes ! k) in
     if start_index \<ge> length blocks \<or> end_index > length blocks then Inl InvalidInput
     else
     res_bind (validate_owned allocator (block_slice start_index end_index blocks)) (\<lambda>_.
     res_bind (release_blocks k start_index end_index allocator inodes) (\<lambda>r. Inr (Some r))))"

definition collapse_file_block_range_journaled :: "'d block_device \<Rightarrow> superblock \<Rightarrow> u64 \<Rightarrow> nat \<Rightarrow> nat \<Rightarrow> ('d, u64 list \<times> recovery_report) dev_io" where
  "collapse_file_block_range_journaled D sb ino start_index count =
     (if count = 0 then io_fail InvalidInput
      else
      io_bind (io_lift (ok_or InvalidInput (checked_add start_index count))) (\<lambda>end_index.
      release_file D sb (collapse_edit ino start_index end_index)))"

definition truncate_edit :: "u64 \<Rightarrow> nat \<Rightarrow> block_allocator \<Rightarrow> persisted_inode list \<Rightarrow>
    (u64 list \<times> block_allocator \<times> persisted_inode list) option io_result" where
  "truncate_edit ino target_blocks allocator inodes =
     res_bind (file_position ino inodes) (\<lambda>k.
     let current_blocks = length (pi_blocks (inodes ! k)) in
     if target_blocks > current_blocks then Inl InvalidInput
     else if target_blocks = current_blocks then Inr None
     else res_bind (release_blocks k target_blocks current_blocks allocator inodes) (\<lambda>r. Inr (Some r)))"

definition truncate_file_to_blocks_journaled :: "'d block_device \<Rightarrow> superblock \<Rightarrow> u64 \<Rightarrow> nat \<Rightarrow> ('d, u64 list \<times> recovery_report) dev_io" where
  "truncate_file_to_blocks_journaled D sb ino target_blocks = release_file D sb (truncate_edit ino target_blocks)"

definition truncate_file_to_zero_journaled :: "'d block_device \<Rightarrow> superblock \<Rightarrow> u64 \<Rightarrow> ('d, recovery_report) dev_io" where
  "truncate_file_to_zero_journaled D sb ino =
     io_bind (release_file D sb (truncate_edit ino 0)) (\<lambda>(_, report). io_return report)"

definition truncate_last_edit :: "u64 \<Rightarrow> block_allocator \<Rightarrow> persisted_inode list \<Rightarrow>
    (u64 list \<times> block_allocator \<times> persisted_inode list) option io_result" where
  "truncate_last_edit ino allocator inodes =
     res_bind (file_position ino inodes) (\<lambda>k.
     res_bind (ok_or InvalidInput (checked_sub (length (pi_blocks (inodes ! k))) 1)) (\<lambda>last_index.
     res_bind (release_blocks k last_index (last_index + 1) allocator inodes) (\<lambda>r. Inr (Some r))))"

definition truncate_file_last_block_journaled :: "'d block_device \<Rightarrow> superblock \<Rightarrow> u64 \<Rightarrow> ('d, u64 \<times> recovery_report) dev_io" where
  "truncate_file_last_block_journaled D sb ino =
     io_bind (release_file D sb (truncate_last_edit ino)) (\<lambda>(released, report). io_return (released ! 0, report))"

section \<open>What a successful edit does to the tables\<close>

definition tail_slack :: "persisted_inode \<Rightarrow> nat" where
  "tail_slack i = length (pi_blocks i) * BLOCK_SIZE - pi_byte_len i"

definition splices :: "block_allocator \<Rightarrow> persisted_inode list \<Rightarrow> nat \<Rightarrow> nat \<Rightarrow> nat \<Rightarrow> u64 list \<Rightarrow>
    block_allocator \<Rightarrow> persisted_inode list \<Rightarrow> bool" where
  "splices al inodes k lo hi rs al' inodes' \<longleftrightarrow> spliced_tables al inodes k lo hi rs al' inodes' \<and>
     tail_slack (inodes' ! k) = (if pi_blocks (inodes' ! k) = [] then 0 else tail_slack (inodes ! k))"

lemma splicesI:
  assumes "fs_ok sb v al inodes entries" and s: "spliced_tables al inodes k lo hi rs al' inodes'"
    and r: "splice_inode k lo hi rs inodes = Inr (ds, inodes')"
  shows "splices al inodes k lo hi rs al' inodes'"
proof -
  from s have k: "k < length inodes" "pi_kind (inodes ! k) = File" by (simp_all add: spliced_tables_def)
  then have i: "inode_ok (inodes ! k)" using fs_okD(8) [OF assms(1)] by simp
  have eq: "inodes' ! k = snd (replace_block_range lo hi rs (inodes ! k))" using splice_inode_Inr(2) [OF r] k by simp
  have "inode_ok (inodes' ! k)" using replace_block_range_Inr [OF splice_inode_Inr(1) [OF r]] by (simp add: eq)
  then show ?thesis
    using s replace_block_range_slack [OF splice_inode_Inr(1) [OF r] i k(2)]
    by (auto simp: splices_def tail_slack_def eq [symmetric] inode_ok_def)
qed

lemma file_position_Inr:
  "file_position ino inodes = Inr k \<Longrightarrow> k < length inodes \<and> pi_kind (inodes ! k) = File \<and> pi_id (inodes ! k) = ino"
  by (auto simp: file_position_def res_bind_Inr dest: position_Some split: if_splits)

text \<open>
  The blocks \<open>lo n..<hi n\<close> of file \<open>ino\<close>, where \<open>n\<close> is its number of blocks, replaced by \<open>count\<close> new
  ones; the displaced blocks are reported.
\<close>

definition edited :: "block_allocator \<Rightarrow> persisted_inode list \<Rightarrow> u64 \<Rightarrow> (nat \<Rightarrow> nat) \<Rightarrow> (nat \<Rightarrow> nat) \<Rightarrow> nat \<Rightarrow>
    u64 list \<times> u64 list \<times> block_allocator \<times> persisted_inode list \<Rightarrow> bool" where
  "edited al inodes ino lo hi count p \<longleftrightarrow> (case p of (rs, ds, al', inodes') \<Rightarrow>
     (\<exists>k. file_position ino inodes = Inr k \<and> length rs = count \<and>
        (let n = length (pi_blocks (inodes ! k)) in splices al inodes k (lo n) (hi n) rs al' inodes' \<and>
           ds = block_slice (lo n) (hi n) (pi_blocks (inodes ! k)))))"

context block_source
begin

lemma add_blocks_splices:
  assumes "fs_ok sb v al inodes entries" and "k < length inodes" "pi_kind (inodes ! k) = File"
    and r: "add_blocks alloc k at count al inodes = Inr (rs, al', inodes')"
  shows "splices al inodes k at at rs al' inodes' \<and> length rs = count"
proof -
  from r obtain ds where "splice_inode k at at rs inodes = Inr (ds, inodes')" by (auto simp: add_blocks_def res_bind_Inr)
  with splicesI [OF assms(1)] add_blocks_spliced [OF assms] show ?thesis by blast
qed

lemma remap_blocks_splices:
  assumes "fs_ok sb v al inodes entries" and "k < length inodes" "pi_kind (inodes ! k) = File"
    and r: "remap_blocks alloc k lo hi count al inodes = Inr (rs, ds, al', inodes')"
  shows "splices al inodes k lo hi rs al' inodes' \<and> length rs = count \<and> ds = block_slice lo hi (pi_blocks (inodes ! k))"
proof -
  from r obtain ds' where "splice_inode k lo hi rs inodes = Inr (ds', inodes')" by (auto simp: remap_blocks_def res_bind_Inr Let_def)
  with splicesI [OF assms(1)] remap_blocks_spliced [OF assms] show ?thesis by blast
qed

lemma append_edit_edited:
  assumes "fs_ok sb v al inodes entries" and "append_edit alloc ino count al inodes = Inr (rs, ds, al', inodes')"
  shows "edited al inodes ino (\<lambda>n. n) (\<lambda>n. n) count (rs, ds, al', inodes')"
proof -
  from assms(2) obtain k where k: "file_position ino inodes = Inr k" and ds: "ds = []"
    and r: "add_blocks alloc k (length (pi_blocks (inodes ! k))) count al inodes = Inr (rs, al', inodes')"
    by (auto simp: append_edit_def res_bind_Inr)
  with add_blocks_splices [OF assms(1) _ _ r] file_position_Inr [OF k] show ?thesis by (auto simp: edited_def block_slice_def)
qed

lemma insert_edit_edited:
  assumes "fs_ok sb v al inodes entries" and "insert_edit alloc ino at count al inodes = Inr (rs, ds, al', inodes')"
  shows "edited al inodes ino (\<lambda>_. at) (\<lambda>_. at) count (rs, ds, al', inodes')"
proof -
  from assms(2) obtain k where k: "file_position ino inodes = Inr k" and ds: "ds = []"
    and r: "add_blocks alloc k at count al inodes = Inr (rs, al', inodes')"
    by (auto simp: insert_edit_def res_bind_Inr split: if_splits)
  with add_blocks_splices [OF assms(1) _ _ r] file_position_Inr [OF k] show ?thesis by (auto simp: edited_def block_slice_def)
qed

lemma replace_edit_edited:
  assumes "fs_ok sb v al inodes entries" and "replace_edit alloc ino lo hi count al inodes = Inr (rs, ds, al', inodes')"
  shows "edited al inodes ino (\<lambda>_. lo) (\<lambda>_. hi) count (rs, ds, al', inodes')"
proof -
  from assms(2) obtain k where k: "file_position ino inodes = Inr k"
    and r: "remap_blocks alloc k lo hi count al inodes = Inr (rs, ds, al', inodes')"
    by (auto simp: replace_edit_def prepare_mapping_def res_bind_Inr split: if_splits)
  with remap_blocks_splices [OF assms(1) _ _ r] file_position_Inr [OF k] show ?thesis by (auto simp: edited_def)
qed

end

lemma release_blocks_splices:
  assumes "fs_ok sb v al inodes entries" and "k < length inodes" "pi_kind (inodes ! k) = File"
    and r: "release_blocks k lo hi al inodes = Inr (ds, al', inodes')"
  shows "splices al inodes k lo hi [] al' inodes' \<and> ds = block_slice lo hi (pi_blocks (inodes ! k))"
proof -
  from r have "splice_inode k lo hi [] inodes = Inr (ds, inodes')" by (auto simp: release_blocks_def res_bind_Inr)
  with splicesI [OF assms(1)] release_blocks_spliced [OF assms] show ?thesis by blast
qed

lemma clone_replace_edit_edited:
  assumes ok: "fs_ok sb v al inodes entries" and r: "clone_replace_edit ino lo hi count al inodes = Inr (rs, ds, al', inodes')"
    and n: "hi = lo + count" and le: "\<And>k. file_position ino inodes = Inr k \<Longrightarrow> hi \<le> length (pi_blocks (inodes ! k))"
  shows "edited al inodes ino (\<lambda>_. lo) (\<lambda>_. hi) count (rs, ds, al', inodes')"
proof -
  from r obtain k al1 where p: "file_position ino inodes = Inr k" and f: "allocate_blocks count al = Inr (rs, al1)"
    and fr: "free_blocks_in InvalidData ds al1 = Inr al'" and ds: "ds = block_slice lo hi (pi_blocks (inodes ! k))"
    and i: "inodes' = inodes[k := (inodes ! k)\<lparr>pi_blocks := take lo (pi_blocks (inodes ! k)) @ rs @ drop hi (pi_blocks (inodes ! k))\<rparr>]"
    by (auto simp: clone_replace_edit_def res_bind_Inr Let_def)
  let ?bl = "pi_blocks (inodes ! k)"
  have k: "k < length inodes" "pi_kind (inodes ! k) = File" using file_position_Inr [OF p] by simp_all
  note a = first_fit.alloc_ok [OF fs_okD(4) [OF ok] f] and o = file_owned [OF ok k(1)] and le = le [OF p]
  obtain b where "free_blocks_in InvalidData ds al1 = Inr b" "allocator_inv b" "owned_blocks b = owned_blocks al1 - set ds"
    by (rule free_blocks_in_ok [of al1 ds InvalidData]) (use a o [of lo hi] ds in auto)
  with fr have b: "allocator_inv al'" "owned_blocks al' = owned_blocks al1 - set ds" by simp_all
  have fresh: "set rs \<inter> set (block_slice 0 (length ?bl) ?bl) = {}" using a o(1) [of 0 "length ?bl"] by blast
  then have fresh: "set rs \<inter> set ?bl = {}" by (simp add: block_slice_def)
  have "set ds \<subseteq> set ?bl" by (auto simp: ds block_slice_def dest: in_set_takeD in_set_dropD)
  then have own: "owned_blocks al' = (owned_blocks al - set ds) \<union> set rs" using a b(2) fresh by auto
  have ok_i: "inode_ok (inodes ! k)" using fs_okD(8) [OF ok] k(1) by simp
  define bl' where "bl' = take lo ?bl @ rs @ drop hi ?bl"
  have len: "length bl' = length ?bl" using a n le by (simp add: bl'_def)
  have ne: "bl' = [] \<longleftrightarrow> ?bl = []" using len by (metis length_0_conv)
  have "distinct bl'"
  proof -
    have d: "distinct ?bl" using ok_i by (simp add: inode_ok_def)
    have "set (take lo ?bl) \<inter> set (drop hi ?bl) = {}" using set_take_disj_set_drop_if_distinct [OF d, of lo hi] n by simp
    then show ?thesis using a d fresh by (auto simp: bl'_def dest: in_set_takeD in_set_dropD)
  qed
  then have "inode_ok ((inodes ! k)\<lparr>pi_blocks := bl'\<rparr>)" using ok_i len ne by (auto simp: inode_ok_def split: if_splits)
  then have "spliced_tables al inodes k lo hi rs al' inodes'"
    using k n le a b(1) own ds i by (auto simp: spliced_tables_def bl'_def)
  moreover have i': "inodes' ! k = (inodes ! k)\<lparr>pi_blocks := bl'\<rparr>" using k(1) by (simp add: i bl'_def)
  moreover have "tail_slack (inodes ! k) = 0" if "?bl = []" using that by (simp add: tail_slack_def)
  ultimately have "splices al inodes k lo hi rs al' inodes'"
    using ne len by (auto simp: splices_def i' tail_slack_def)
  with p a ds show ?thesis by (auto simp: edited_def)
qed

section \<open>What they do to the contents\<close>

text \<open>
  The blocks \<open>lo..<hi\<close> of the file at index \<open>k\<close> now hold \<open>datas\<close>; its last block keeps as many unused
  bytes as before, and the blocks of every other inode hold what they held.
\<close>

definition file_blocks :: "disk \<Rightarrow> persisted_inode \<Rightarrow> byte list list" where
  "file_blocks v i = map v (pi_blocks i)"

definition spliced_file :: "disk \<Rightarrow> persisted_inode list \<Rightarrow> directory_entry list \<Rightarrow> nat \<Rightarrow> nat \<Rightarrow> nat \<Rightarrow> u64 list \<Rightarrow>
    byte list list \<Rightarrow> disk \<Rightarrow> fs_tables \<Rightarrow> bool" where
  "spliced_file v inodes entries k lo hi rs datas x t' \<longleftrightarrow> (case t' of (al', inodes', entries') \<Rightarrow> entries' = entries \<and>
     lo \<le> hi \<and> hi \<le> length (pi_blocks (inodes ! k)) \<and>
     (\<exists>i. inodes' = inodes[k := i] \<and> pi_id i = pi_id (inodes ! k) \<and> pi_kind i = File \<and>
        pi_blocks i = take lo (pi_blocks (inodes ! k)) @ rs @ drop hi (pi_blocks (inodes ! k)) \<and>
        file_blocks x i = take lo (file_blocks v (inodes ! k)) @ datas @ drop hi (file_blocks v (inodes ! k)) \<and>
        tail_slack i = (if pi_blocks i = [] then 0 else tail_slack (inodes ! k))) \<and>
     (\<forall>i \<in> set inodes. pi_id i \<noteq> pi_id (inodes ! k) \<longrightarrow> file_blocks x i = file_blocks v i))"

definition file_spliced :: "disk \<Rightarrow> persisted_inode list \<Rightarrow> directory_entry list \<Rightarrow> u64 \<Rightarrow> (nat \<Rightarrow> nat) \<Rightarrow> (nat \<Rightarrow> nat) \<Rightarrow>
    u64 list \<Rightarrow> u64 list \<Rightarrow> byte list list \<Rightarrow> disk \<Rightarrow> fs_tables \<Rightarrow> bool" where
  "file_spliced v inodes entries ino lo hi rs ds datas x t' \<longleftrightarrow>
     (\<exists>k. file_position ino inodes = Inr k \<and>
        (let n = length (pi_blocks (inodes ! k)) in
         spliced_file v inodes entries k (lo n) (hi n) rs datas x t' \<and> ds = block_slice (lo n) (hi n) (pi_blocks (inodes ! k))))"

lemma spliced_fileI:
  assumes ok: "fs_ok sb v al inodes entries" and s: "splices al inodes k lo hi rs al' inodes'"
    and x: "\<And>b. reserved_blocks sb \<le> b \<Longrightarrow> x b = write_all v (zip rs datas) b" and len: "length datas = length rs"
  shows "spliced_file v inodes entries k lo hi rs datas x (al', inodes', entries)"
proof -
  from s have t: "spliced_tables al inodes k lo hi rs al' inodes'" by (simp add: splices_def)
  note c = spliced_content [OF ok t x len]
  have same: "file_blocks x i = file_blocks v i" if "i \<in> set inodes" for i
    using c(2) [OF _ that] by (simp add: file_blocks_def)
  from t obtain i where i: "k < length inodes" "inodes' = inodes[k := i]" "pi_id i = pi_id (inodes ! k)" "pi_kind i = File"
      "pi_blocks i = take lo (pi_blocks (inodes ! k)) @ rs @ drop hi (pi_blocks (inodes ! k))"
    and le: "lo \<le> hi" "hi \<le> length (pi_blocks (inodes ! k))" by (auto simp: spliced_tables_def)
  have "inodes' ! k = i" using i(1,2) by simp
  moreover have "tail_slack i = (if pi_blocks i = [] then 0 else tail_slack (inodes ! k))" using s i(1,2) by (simp add: splices_def)
  moreover have "file_blocks x i = take lo (file_blocks v (inodes ! k)) @ datas @ drop hi (file_blocks v (inodes ! k))"
    using c(1) i(1,2) by (simp add: file_blocks_def)
  ultimately show ?thesis using i le same by (auto simp: spliced_file_def)
qed

section \<open>The operations are atomic\<close>

lemma file_update_kept:
  assumes "fs_ok sb v al inodes entries" and "file_update sb inodes al' inodes'"
  shows "payloads_ok v inodes'" and "namespace_ok inodes' entries"
proof -
  from assms(2) have ids: "map pi_id inodes' = map pi_id inodes" "map pi_kind inodes' = map pi_kind inodes"
    and rest: "\<forall>i \<in> set inodes'. pi_kind i \<noteq> File \<longrightarrow> i \<in> set inodes" by (simp_all add: file_update_def)
  show "namespace_ok inodes' entries" using same_ids_kinds(2) [OF ids] fs_okD(12) [OF assms(1)] by blast
  show "payloads_ok v inodes'" using rest fs_okD(11) [OF assms(1)] by (auto simp: payloads_ok_def)
qed

lemma atomic_op_map:
  assumes "atomic_op sb v t op Q" and "\<And>r x t'. Q r x t' \<Longrightarrow> Q' (f r) x t'"
  shows "atomic_op sb v t (io_bind op (\<lambda>r. io_return (f r))) Q'"
proof -
  obtain r x tr where "op (v, []) = (r, x, tr)" by (metis prod.exhaust)
  with assms show ?thesis by (cases r) (auto simp: atomic_op_def io_simps, blast)
qed

lemma atomic_op_weaken:
  assumes "atomic_op sb v t op Q" and "\<And>r x t'. Q r x t' \<Longrightarrow> Q' r x t'"
  shows "atomic_op sb v t op Q'"
proof -
  obtain r x tr where "op (v, []) = (r, x, tr)" by (metis prod.exhaust)
  with assms show ?thesis by (cases r) (auto simp: atomic_op_def, blast)
qed

lemma atomic_op_fail: "atomic_op sb v t (io_fail e) Q"
  by (simp add: atomic_op_def io_fail_def)

lemma atomic_op_if: "(c \<Longrightarrow> atomic_op sb v t op Q) \<Longrightarrow> (\<not> c \<Longrightarrow> atomic_op sb v t op' Q) \<Longrightarrow> atomic_op sb v t (if c then op else op') Q"
  by simp

lemma atomic_op_lift:
  "(\<And>y. r = Inr y \<Longrightarrow> atomic_op sb v t (f y) Q) \<Longrightarrow> atomic_op sb v t (io_bind (io_lift r) f) Q"
  by (cases r) (simp_all add: atomic_op_def io_simps)

lemma atomic_op_same:
  assumes "\<And>tr. op (v, tr) = (Inr r, v, tr)" and ok: "fs_ok sb v a inodes entries" and q: "recovers sb v v"
    and "Q r v (a, inodes, entries)"
  shows "atomic_op sb v (a, inodes, entries) op Q"
proof (rule atomic_op_done [OF _ _ ok])
  show "op (v, tr) = (Inr r, v, tr @ [])" for tr using assms(1) by simp
  show "reaches sb v v [] a inodes entries"
    using ok q unfolding reaches_def lands_def by (intro exI [of _ v]) (auto simp: same_home_def crash_disks_def settle_def)
qed (rule assms(4))

lemma splice_file_atomic:
  assumes a: "addressable sb" and ok: "fs_ok sb v al inodes entries" and q: "recovers sb v v"
    and fetch: "\<And>tr. fetch al inodes (v, tr) = (r, v, tr)"
    and edit: "\<And>datas rs ds al' inodes'. r = Inr datas \<Longrightarrow> edit al inodes = Inr (rs, ds, al', inodes') \<Longrightarrow>
        (\<forall>d \<in> set datas. length d = BLOCK_SIZE) \<and> edited al inodes ino lo hi (length datas) (rs, ds, al', inodes')"
  shows "atomic_op sb v (al, inodes, entries) (splice_file (trace_device (sb_total_blocks sb)) sb fetch edit)
     (\<lambda>(rs, ds, rep) x t'. \<exists>datas. r = Inr datas \<and> file_spliced v inodes entries ino lo hi rs ds datas x t')"
    (is "atomic_op sb v _ ?op ?Q")
proof -
  have v: "disk_ok (sb_total_blocks sb) v" using q by (simp add: recovers_def)
  note l = fs_ok_loads [OF a v ok]
  show ?thesis
  proof (cases "r")
    case (Inl e)
    then show ?thesis by (intro atomic_op_failed [of _ _ e]) (simp add: splice_file_def io_simps l fetch)
  next
    case data: (Inr datas)
    show ?thesis
    proof (cases "edit al inodes")
      case (Inl e)
      then show ?thesis using data by (intro atomic_op_failed [of _ _ e]) (simp add: splice_file_def io_simps l fetch)
    next
      case (Inr p)
      then obtain rs ds al' inodes' where p: "edit al inodes = Inr (rs, ds, al', inodes')" by (cases p) auto
      from edit [OF data p] obtain k l h where len: "length datas = length rs" "\<forall>d \<in> set datas. length d = BLOCK_SIZE"
        and k: "file_position ino inodes = Inr k" "l = lo (length (pi_blocks (inodes ! k)))" "h = hi (length (pi_blocks (inodes ! k)))"
        and s: "splices al inodes k l h rs al' inodes'" and ds: "ds = block_slice l h (pi_blocks (inodes ! k))"
        by (auto simp: edited_def Let_def)
      from s have t: "spliced_tables al inodes k l h rs al' inodes'" by (simp add: splices_def)
      note u = spliced_update(1) [OF ok t] spliced_update(2) [OF ok t len]
      have run: "?op (v, tr) = io_bind (publish_file_update (trace_device (sb_total_blocks sb)) sb al' inodes' (zip rs datas))
          (\<lambda>rep. io_return (rs, ds, rep)) (v, tr)" for tr
        using p data by (simp add: splice_file_def io_simps l fetch)
      show ?thesis
      proof (rule file_update_tx [OF a q ok u])
        fix e assume "\<And>tr. publish_file_update (trace_device (sb_total_blocks sb)) sb al' inodes' (zip rs datas) (v, tr) = (Inl e, v, tr)"
        then show ?thesis by (intro atomic_op_failed [of _ _ e]) (simp add: run io_simps)
      next
        fix rep x evs
        assume pub: "\<And>tr. publish_file_update (trace_device (sb_total_blocks sb)) sb al' inodes' (zip rs datas) (v, tr) = (Inr rep, x, tr @ evs)"
          and re: "reaches sb v x evs al' inodes' entries" and x: "\<And>b. reserved_blocks sb \<le> b \<Longrightarrow> x b = write_all v (zip rs datas) b"
        have "?op (v, tr) = (Inr (rs, ds, rep), x, tr @ evs)" for tr by (simp add: run io_simps pub)
        moreover have "?Q (rs, ds, rep) x (al', inodes', entries)" using spliced_fileI [OF ok s x len(1)] k ds data by (auto simp: file_spliced_def)
        ultimately show ?thesis using re by (intro atomic_op_done [OF _ _ ok])
      qed
    qed
  qed
qed

lemma release_file_atomic:
  assumes a: "addressable sb" and ok: "fs_ok sb v al inodes entries" and q: "recovers sb v v"
    and same: "edit al inodes = Inr None \<Longrightarrow> N"
    and edit: "\<And>ds al' inodes'. edit al inodes = Inr (Some (ds, al', inodes')) \<Longrightarrow> edited al inodes ino lo hi 0 ([], ds, al', inodes')"
  shows "atomic_op sb v (al, inodes, entries) (release_file (trace_device (sb_total_blocks sb)) sb edit)
     (\<lambda>(ds, rep) x t'. (N \<and> ds = [] \<and> x = v \<and> t' = (al, inodes, entries)) \<or> file_spliced v inodes entries ino lo hi [] ds [] x t')"
    (is "atomic_op sb v _ ?op ?Q")
proof -
  have v: "disk_ok (sb_total_blocks sb) v" using q by (simp add: recovers_def)
  note l = fs_ok_loads [OF a v ok]
  show ?thesis
  proof (cases "edit al inodes")
    case (Inl e)
    then show ?thesis by (intro atomic_op_failed [of _ _ e]) (simp add: release_file_def io_simps l)
  next
    case (Inr o')
    show ?thesis
    proof (cases o')
      case None
      with Inr same show ?thesis
        by (intro atomic_op_same [OF _ ok q, of _ "([], \<lparr>committed_transactions = 0, home_writes = 0\<rparr>)"]) (simp_all add: release_file_def io_simps l)
    next
      case (Some p)
      then obtain ds al' inodes' where p: "edit al inodes = Inr (Some (ds, al', inodes'))" using Inr by (cases p) auto
      from edit [OF p] obtain k l h where k: "file_position ino inodes = Inr k" "l = lo (length (pi_blocks (inodes ! k)))" "h = hi (length (pi_blocks (inodes ! k)))"
        and s: "splices al inodes k l h [] al' inodes'" and ds: "ds = block_slice l h (pi_blocks (inodes ! k))"
        by (auto simp: edited_def Let_def)
      from s have t: "spliced_tables al inodes k l h [] al' inodes'" by (simp add: splices_def)
      have u: "file_update sb inodes al' inodes'"
        by (rule spliced_update(1) [OF ok t])
      have inv: "allocator_inv al'" "ownership_ok sb al' inodes'" and ty: "\<forall>i \<in> set inodes'. inode_ok i \<and> inode_typed i"
        using u by (auto simp: file_update_def)
      have can: "inodes' = map canonical_inode inodes'" by (rule map_idI [symmetric]) (use ty in auto)
      have pn: "payloads_ok v inodes'" "namespace_ok inodes' entries" by (rule file_update_kept [OF ok u])+
      have run: "?op (v, tr) = io_bind (store_create_metadata_journaled (trace_device (sb_total_blocks sb)) sb al' inodes' entries)
          (\<lambda>rep. io_return (ds, rep)) (v, tr)" for tr
        using p by (simp add: release_file_def io_simps l)
      show ?thesis
      proof (rule create_tx [OF a q ok inv(1) _ can _ inv(2) pn])
        show "\<forall>i \<in> set inodes'. inode_typed i" "\<forall>e \<in> set entries. dirent_typed e"
          using ty fs_okD(9) [OF ok] dirent_ok_typed by auto
        fix e assume "\<And>tr. store_create_metadata_journaled (trace_device (sb_total_blocks sb)) sb al' inodes' entries (v, tr) = (Inl e, v, tr)"
        then show ?thesis by (intro atomic_op_failed [of _ _ e]) (simp add: run io_simps)
      next
        fix rep x evs
        assume pub: "\<And>tr. store_create_metadata_journaled (trace_device (sb_total_blocks sb)) sb al' inodes' entries (v, tr) = (Inr rep, x, tr @ evs)"
          and re: "reaches sb v x evs al' inodes' entries" and x: "\<And>b. reserved_blocks sb \<le> b \<Longrightarrow> x b = v b"
        have "?op (v, tr) = (Inr (ds, rep), x, tr @ evs)" for tr by (simp add: run io_simps pub)
        moreover have "?Q (ds, rep) x (al', inodes', entries)" using spliced_fileI [OF ok s, of x "[]"] x k ds by (auto simp: file_spliced_def)
        ultimately show ?thesis using re by (intro atomic_op_done [OF _ _ ok])
      qed
    qed
  qed
qed

section \<open>Append, insert and replace\<close>

lemma fetch_given: "given datas al inodes (v, tr) = (Inr datas, v, tr)"
  by (simp add: given_def io_return_def)

context block_source
begin

lemma given_atomic:
  assumes "addressable sb" and ok: "fs_ok sb v al inodes entries" and "recovers sb v v" and d: "\<forall>d \<in> set datas. length d = BLOCK_SIZE"
  shows "atomic_op sb v (al, inodes, entries)
      (splice_file (trace_device (sb_total_blocks sb)) sb (given datas) (append_edit alloc ino (length datas)))
      (\<lambda>(rs, ds, rep). file_spliced v inodes entries ino (\<lambda>n. n) (\<lambda>n. n) rs ds datas)"
    and "atomic_op sb v (al, inodes, entries)
      (splice_file (trace_device (sb_total_blocks sb)) sb (given datas) (insert_edit alloc ino at (length datas)))
      (\<lambda>(rs, ds, rep). file_spliced v inodes entries ino (\<lambda>_. at) (\<lambda>_. at) rs ds datas)"
    and "atomic_op sb v (al, inodes, entries)
      (splice_file (trace_device (sb_total_blocks sb)) sb (given datas) (replace_edit alloc ino lo hi (length datas)))
      (\<lambda>(rs, ds, rep). file_spliced v inodes entries ino (\<lambda>_. lo) (\<lambda>_. hi) rs ds datas)"
proof -
  note * = splice_file_atomic [OF assms(1-3) fetch_given [of datas]]
  show "atomic_op sb v (al, inodes, entries)
      (splice_file (trace_device (sb_total_blocks sb)) sb (given datas) (append_edit alloc ino (length datas)))
      (\<lambda>(rs, ds, rep). file_spliced v inodes entries ino (\<lambda>n. n) (\<lambda>n. n) rs ds datas)"
    by (rule atomic_op_weaken [OF * [where ino = ino and lo = "\<lambda>n. n" and hi = "\<lambda>n. n"]]) (use d append_edit_edited [OF ok] in auto)
  show "atomic_op sb v (al, inodes, entries)
      (splice_file (trace_device (sb_total_blocks sb)) sb (given datas) (insert_edit alloc ino at (length datas)))
      (\<lambda>(rs, ds, rep). file_spliced v inodes entries ino (\<lambda>_. at) (\<lambda>_. at) rs ds datas)"
    by (rule atomic_op_weaken [OF * [where ino = ino and lo = "\<lambda>_. at" and hi = "\<lambda>_. at"]]) (use d insert_edit_edited [OF ok] in auto)
  show "atomic_op sb v (al, inodes, entries)
      (splice_file (trace_device (sb_total_blocks sb)) sb (given datas) (replace_edit alloc ino lo hi (length datas)))
      (\<lambda>(rs, ds, rep). file_spliced v inodes entries ino (\<lambda>_. lo) (\<lambda>_. hi) rs ds datas)"
    by (rule atomic_op_weaken [OF * [where ino = ino and lo = "\<lambda>_. lo" and hi = "\<lambda>_. hi"]]) (use d replace_edit_edited [OF ok] in auto)
qed

lemma with_atomic:
  assumes "addressable sb" and ok: "fs_ok sb v al inodes entries" and "recovers sb v v" and d: "\<forall>d \<in> set datas. length d = BLOCK_SIZE"
  shows "atomic_op sb v (al, inodes, entries) (append_blocks_with alloc (trace_device (sb_total_blocks sb)) sb ino datas)
      (\<lambda>(rs, rep). file_spliced v inodes entries ino (\<lambda>n. n) (\<lambda>n. n) rs [] datas)"
    and "atomic_op sb v (al, inodes, entries) (insert_blocks_with alloc (trace_device (sb_total_blocks sb)) sb ino at datas)
      (\<lambda>(rs, rep). file_spliced v inodes entries ino (\<lambda>_. at) (\<lambda>_. at) rs [] datas)"
    and "atomic_op sb v (al, inodes, entries) (replace_blocks_with alloc (trace_device (sb_total_blocks sb)) sb ino lo c datas)
      (\<lambda>(rs, ds, rep). file_spliced v inodes entries ino (\<lambda>_. lo) (\<lambda>_. lo + c) rs ds datas)"
proof -
  have no: "file_spliced v inodes entries ino l l rs ds datas x t' \<Longrightarrow> file_spliced v inodes entries ino l l rs [] datas x t'" for l rs ds x t'
    by (auto simp: file_spliced_def block_slice_def Let_def)
  show "atomic_op sb v (al, inodes, entries) (append_blocks_with alloc (trace_device (sb_total_blocks sb)) sb ino datas)
      (\<lambda>(rs, rep). file_spliced v inodes entries ino (\<lambda>n. n) (\<lambda>n. n) rs [] datas)"
    using given_atomic(1) [OF assms, of ino] no unfolding append_blocks_with_def case_prod_beta'
    by (auto intro!: atomic_op_fail elim!: atomic_op_map)
  show "atomic_op sb v (al, inodes, entries) (insert_blocks_with alloc (trace_device (sb_total_blocks sb)) sb ino at datas)
      (\<lambda>(rs, rep). file_spliced v inodes entries ino (\<lambda>_. at) (\<lambda>_. at) rs [] datas)"
    using given_atomic(2) [OF assms, of ino at] no unfolding insert_blocks_with_def case_prod_beta'
    by (auto intro!: atomic_op_fail elim!: atomic_op_map)
  show "atomic_op sb v (al, inodes, entries) (replace_blocks_with alloc (trace_device (sb_total_blocks sb)) sb ino lo c datas)
      (\<lambda>(rs, ds, rep). file_spliced v inodes entries ino (\<lambda>_. lo) (\<lambda>_. lo + c) rs ds datas)"
    unfolding replace_blocks_with_def
    by (intro atomic_op_if atomic_op_fail atomic_op_lift) (use given_atomic(3) [OF assms, of ino lo "lo + c"] in simp)
qed

end

lemma single_atomic:
  assumes "addressable sb" and ok: "fs_ok sb v al inodes entries" and "recovers sb v v" and d: "length d = BLOCK_SIZE"
  shows "atomic_op sb v (al, inodes, entries) (append_file_block_journaled (trace_device (sb_total_blocks sb)) sb ino d)
      (\<lambda>(b, rep). file_spliced v inodes entries ino (\<lambda>n. n) (\<lambda>n. n) [b] [] [d])"
    and "atomic_op sb v (al, inodes, entries) (insert_file_block_journaled (trace_device (sb_total_blocks sb)) sb ino at d)
      (\<lambda>(b, rep). file_spliced v inodes entries ino (\<lambda>_. at) (\<lambda>_. at) [b] [] [d])"
proof -
  have d': "\<forall>d \<in> set [d]. length d = BLOCK_SIZE" using d by simp
  have one: "file_spliced v inodes entries ino l l [rs ! 0] [] [d] x t'" if "file_spliced v inodes entries ino l l rs ds [d] x t'" for l rs ds x t'
  proof -
    from that obtain k i where k: "k < length inodes"
      and b: "pi_blocks i = take (l (length (pi_blocks (inodes ! k)))) (pi_blocks (inodes ! k)) @ rs @ drop (l (length (pi_blocks (inodes ! k)))) (pi_blocks (inodes ! k))"
      and f: "file_blocks x i = take (l (length (pi_blocks (inodes ! k)))) (file_blocks v (inodes ! k)) @ [d] @ drop (l (length (pi_blocks (inodes ! k)))) (file_blocks v (inodes ! k))"
      by (auto simp: file_spliced_def spliced_file_def Let_def dest: file_position_Inr)
    have "length rs = 1" using arg_cong [OF f, of length] by (simp add: file_blocks_def b)
    then have "rs = [rs ! 0]" by (cases rs) auto
    with that show ?thesis by (auto simp: file_spliced_def block_slice_def Let_def)
  qed
  note g = first_fit.given_atomic [OF assms(1-3) d']
  show "atomic_op sb v (al, inodes, entries) (append_file_block_journaled (trace_device (sb_total_blocks sb)) sb ino d)
      (\<lambda>(b, rep). file_spliced v inodes entries ino (\<lambda>n. n) (\<lambda>n. n) [b] [] [d])"
    using g(1) [of ino] one unfolding append_file_block_journaled_def case_prod_beta' by (auto elim!: atomic_op_map)
  show "atomic_op sb v (al, inodes, entries) (insert_file_block_journaled (trace_device (sb_total_blocks sb)) sb ino at d)
      (\<lambda>(b, rep). file_spliced v inodes entries ino (\<lambda>_. at) (\<lambda>_. at) [b] [] [d])"
    using g(2) [of ino at] one unfolding insert_file_block_journaled_def case_prod_beta' by (auto elim!: atomic_op_map)
qed

section \<open>Clones\<close>

lemma snapshot_trace:
  assumes g: "geometry_ok sb" and v: "disk_ok (sb_total_blocks sb) v" and ok: "fs_ok sb v al inodes entries"
    and "i \<in> set inodes" and "set bs \<subseteq> set (pi_blocks i)"
  shows "snapshot_owned_blocks (trace_device (sb_total_blocks sb)) al bs (v, tr) = (Inr (map v bs), v, tr)"
  using assms(5)
proof (induction bs)
  case (Cons b bs)
  then have b: "reserved_blocks sb \<le> b \<and> b < sb_total_blocks sb" "b \<in> set (pi_blocks i)" using fs_ok_owned [OF ok assms(4)] by auto
  have "b \<in> owned_blocks al"
    using fs_okD(10) [OF ok, unfolded ownership_ok_iff [OF fs_okD(7) [OF ok]]] assms(4) b(2) by blast
  then have "is_owned al b = Inr True" using b(1) fs_okD(5) [OF ok] by (simp add: is_owned_in_range)
  with Cons b(1) show ?case by (simp add: snapshot_owned_blocks_def io_simps map_err_def trace_device_def)
qed (simp add: snapshot_owned_blocks_def io_simps)

definition cloned :: "disk \<Rightarrow> persisted_inode list \<Rightarrow> u64 \<Rightarrow> nat \<Rightarrow> nat \<Rightarrow> byte list list \<Rightarrow> bool" where
  "cloned v inodes source start count datas \<longleftrightarrow>
     (\<exists>s. file_position source inodes = Inr s \<and> start + count \<le> length (pi_blocks (inodes ! s)) \<and>
        datas = take count (drop start (file_blocks v (inodes ! s))))"

lemma cloned_blocks:
  assumes "cloned v inodes source start count datas" and v: "disk_ok (sb_total_blocks sb) v" and ok: "fs_ok sb v al inodes entries"
  shows "length datas = count" and "\<forall>d \<in> set datas. length d = BLOCK_SIZE"
proof -
  from assms(1) obtain s where s: "file_position source inodes = Inr s" "start + count \<le> length (pi_blocks (inodes ! s))"
    and d: "datas = take count (drop start (file_blocks v (inodes ! s)))" by (auto simp: cloned_def)
  show "length datas = count" using s(2) by (simp add: d file_blocks_def)
  have "inodes ! s \<in> set inodes" using file_position_Inr [OF s(1)] by simp
  from fs_ok_owned [OF ok this] v have "length (v b) = BLOCK_SIZE" if "b \<in> set (pi_blocks (inodes ! s))" for b
    using that by (auto simp: disk_ok_def)
  then show "\<forall>d \<in> set datas. length d = BLOCK_SIZE"
    by (auto simp: d file_blocks_def dest!: in_set_takeD in_set_dropD)
qed

lemma clone_endpoints_Inr:
  "clone_endpoints inodes s d = Inr (i, j) \<Longrightarrow> file_position s inodes = Inr i \<and> file_position d inodes = Inr j"
  by (auto simp: clone_endpoints_def file_position_def res_bind_Inr split: if_splits)

lemma block_slice_add: "block_slice start (start + count) xs = take count (drop start xs)"
  by (simp add: block_slice_def)

lemma slice_snapshot:
  assumes a: "addressable sb" and ok: "fs_ok sb v al inodes entries" and q: "recovers sb v v" and k: "file_position s inodes = Inr k"
  shows "snapshot_owned_blocks (trace_device (sb_total_blocks sb)) al (block_slice lo hi (pi_blocks (inodes ! k))) (v, tr) =
     (Inr (block_slice lo hi (file_blocks v (inodes ! k))), v, tr)"
proof -
  have v: "disk_ok (sb_total_blocks sb) v" using q by (simp add: recovers_def)
  have "inodes ! k \<in> set inodes" using file_position_Inr [OF k] by simp
  from snapshot_trace [OF addressable_geometry [OF a] v ok this, of "block_slice lo hi (pi_blocks (inodes ! k))" tr] show ?thesis
    by (auto simp: block_slice_def file_blocks_def take_map drop_map dest: in_set_takeD in_set_dropD)
qed

lemma clone_append_source_trace:
  assumes a: "addressable sb" and ok: "fs_ok sb v al inodes entries" and q: "recovers sb v v"
  obtains r where "\<And>tr. clone_append_source (trace_device (sb_total_blocks sb)) source start count destination al inodes (v, tr) = (r, v, tr)"
    and "\<And>datas. r = Inr datas \<Longrightarrow> cloned v inodes source start count datas"
proof -
  note s = slice_snapshot [OF a ok q]
  show thesis
  proof (cases "clone_endpoints inodes source destination")
    case (Inl e)
    then show ?thesis by (intro that [of "Inl e"]) (simp_all add: clone_append_source_def io_simps)
  next
    case (Inr p)
    then obtain i j where p: "clone_endpoints inodes source destination = Inr (i, j)" by (cases p) auto
    note i = clone_endpoints_Inr [OF p]
    show ?thesis
    proof (cases "checked_add start count = Some (start + count) \<and> start + count \<le> length (pi_blocks (inodes ! i))")
      case True
      then have "clone_append_source (trace_device (sb_total_blocks sb)) source start count destination al inodes (v, tr) =
          (Inr (block_slice start (start + count) (file_blocks v (inodes ! i))), v, tr)" for tr
        by (simp add: clone_append_source_def io_simps p s [OF conjunct1 [OF i]] checked_add_def)
      with True i show ?thesis by (intro that) (auto simp: cloned_def block_slice_add)
    next
      case False
      then show ?thesis
        by (intro that [of "Inl InvalidInput"]) (auto simp: clone_append_source_def io_simps p ok_or_def split: option.split)
    qed
  qed
qed

lemma clone_insert_source_trace:
  assumes a: "addressable sb" and ok: "fs_ok sb v al inodes entries" and q: "recovers sb v v"
  obtains r where "\<And>tr. clone_insert_source (trace_device (sb_total_blocks sb)) source start count destination at al inodes (v, tr) = (r, v, tr)"
    and "\<And>datas. r = Inr datas \<Longrightarrow> cloned v inodes source start count datas"
proof -
  obtain r where r: "\<And>tr. clone_append_source (trace_device (sb_total_blocks sb)) source start count destination al inodes (v, tr) = (r, v, tr)"
    "\<And>datas. r = Inr datas \<Longrightarrow> cloned v inodes source start count datas" by (rule clone_append_source_trace [OF assms]) blast
  show thesis
  proof (cases "\<exists>i j. clone_endpoints inodes source destination = Inr (i, j) \<and> at > length (pi_blocks (inodes ! j))")
    case True
    then show ?thesis
      by (intro that [of "Inl InvalidInput"]) (auto simp: clone_insert_source_def io_simps ok_or_def split: option.split)
  next
    case False
    then have "clone_insert_source (trace_device (sb_total_blocks sb)) source start count destination at al inodes (v, tr) =
        clone_append_source (trace_device (sb_total_blocks sb)) source start count destination al inodes (v, tr)" for tr
      by (cases "clone_endpoints inodes source destination") (auto simp: clone_insert_source_def clone_append_source_def io_simps ok_or_def split: option.split)
    with r show ?thesis by (intro that [of r]) auto
  qed
qed

lemma clone_ranges_source_trace:
  assumes a: "addressable sb" and ok: "fs_ok sb v al inodes entries" and q: "recovers sb v v"
  obtains r where "\<And>tr. clone_ranges_source (trace_device (sb_total_blocks sb)) source start (start + count) destination lo hi al inodes (v, tr) = (r, v, tr)"
    and "\<And>datas. r = Inr datas \<Longrightarrow> cloned v inodes source start count datas"
    and "\<And>datas k. r = Inr datas \<Longrightarrow> file_position destination inodes = Inr k \<Longrightarrow> hi \<le> length (pi_blocks (inodes ! k))"
proof -
  note s = slice_snapshot [OF a ok q]
  show thesis
  proof (cases "clone_endpoints inodes source destination")
    case (Inl e)
    then show ?thesis by (intro that [of "Inl e"]) (simp_all add: clone_ranges_source_def io_simps)
  next
    case (Inr p)
    then obtain i j where p: "clone_endpoints inodes source destination = Inr (i, j)" by (cases p) auto
    note i = clone_endpoints_Inr [OF p]
    show ?thesis
    proof (cases "start + count \<le> length (pi_blocks (inodes ! i)) \<and> hi \<le> length (pi_blocks (inodes ! j))")
      case True
      then have "clone_ranges_source (trace_device (sb_total_blocks sb)) source start (start + count) destination lo hi al inodes (v, tr) =
          (Inr (block_slice start (start + count) (file_blocks v (inodes ! i))), v, tr)" for tr
        by (simp add: clone_ranges_source_def io_simps p s [OF conjunct1 [OF i]] s [OF conjunct2 [OF i]])
      with True i show ?thesis by (intro that) (auto simp: cloned_def block_slice_add)
    next
      case False
      then show ?thesis
        by (intro that [of "Inl InvalidInput"]) (auto simp: clone_ranges_source_def io_simps p)
    qed
  qed
qed

lemma spliced_insert: "file_spliced v inodes entries ino l l rs ds datas x t' \<Longrightarrow> file_spliced v inodes entries ino l l rs [] datas x t'"
  by (auto simp: file_spliced_def block_slice_def Let_def)

lemma clone_append_atomic:
  assumes a: "addressable sb" and ok: "fs_ok sb v al inodes entries" and q: "recovers sb v v"
  shows "atomic_op sb v (al, inodes, entries)
      (clone_file_blocks_append_journaled (trace_device (sb_total_blocks sb)) sb source start count destination)
      (\<lambda>(rs, rep) x t'. \<exists>datas. cloned v inodes source start count datas \<and>
         file_spliced v inodes entries destination (\<lambda>n. n) (\<lambda>n. n) rs [] datas x t')"
proof (rule clone_append_source_trace [OF assms, of source start count destination])
  have v: "disk_ok (sb_total_blocks sb) v" using q by (simp add: recovers_def)
  note cl = cloned_blocks [OF _ v ok]
  fix r assume f: "\<And>tr. clone_append_source (trace_device (sb_total_blocks sb)) source start count destination al inodes (v, tr) = (r, v, tr)"
    and c: "\<And>datas. r = Inr datas \<Longrightarrow> cloned v inodes source start count datas"
  have "atomic_op sb v (al, inodes, entries) (splice_file (trace_device (sb_total_blocks sb)) sb
      (clone_append_source (trace_device (sb_total_blocks sb)) source start count destination) (append_edit allocate_blocks destination count))
      (\<lambda>(rs, ds, rep) x t'. \<exists>datas. r = Inr datas \<and> file_spliced v inodes entries destination (\<lambda>n. n) (\<lambda>n. n) rs ds datas x t')"
    by (rule splice_file_atomic [OF a ok q], rule f) (use c cl first_fit.append_edit_edited [OF ok] in auto)
  then show ?thesis using c spliced_insert unfolding clone_file_blocks_append_journaled_def case_prod_beta'
    by (intro atomic_op_if atomic_op_fail) (auto elim!: atomic_op_map)
qed

lemma clone_insert_atomic:
  assumes a: "addressable sb" and ok: "fs_ok sb v al inodes entries" and q: "recovers sb v v"
  shows "atomic_op sb v (al, inodes, entries)
      (clone_file_blocks_insert_journaled (trace_device (sb_total_blocks sb)) sb source start count destination at)
      (\<lambda>(rs, rep) x t'. \<exists>datas. cloned v inodes source start count datas \<and>
         file_spliced v inodes entries destination (\<lambda>_. at) (\<lambda>_. at) rs [] datas x t')"
proof (rule clone_insert_source_trace [OF assms, of source start count destination at])
  have v: "disk_ok (sb_total_blocks sb) v" using q by (simp add: recovers_def)
  note cl = cloned_blocks [OF _ v ok]
  fix r assume f: "\<And>tr. clone_insert_source (trace_device (sb_total_blocks sb)) source start count destination at al inodes (v, tr) = (r, v, tr)"
    and c: "\<And>datas. r = Inr datas \<Longrightarrow> cloned v inodes source start count datas"
  have "atomic_op sb v (al, inodes, entries) (splice_file (trace_device (sb_total_blocks sb)) sb
      (clone_insert_source (trace_device (sb_total_blocks sb)) source start count destination at) (insert_edit allocate_blocks destination at count))
      (\<lambda>(rs, ds, rep) x t'. \<exists>datas. r = Inr datas \<and> file_spliced v inodes entries destination (\<lambda>_. at) (\<lambda>_. at) rs ds datas x t')"
    by (rule splice_file_atomic [OF a ok q], rule f) (use c cl first_fit.insert_edit_edited [OF ok] in auto)
  then show ?thesis using c spliced_insert unfolding clone_file_blocks_insert_journaled_def case_prod_beta'
    by (intro atomic_op_if atomic_op_fail) (auto elim!: atomic_op_map)
qed

lemma clone_replace_atomic:
  assumes a: "addressable sb" and ok: "fs_ok sb v al inodes entries" and q: "recovers sb v v"
  shows "atomic_op sb v (al, inodes, entries)
      (clone_file_blocks_replace_journaled (trace_device (sb_total_blocks sb)) sb source start count destination lo)
      (\<lambda>(rs, ds, rep) x t'. \<exists>datas. cloned v inodes source start count datas \<and>
         file_spliced v inodes entries destination (\<lambda>_. lo) (\<lambda>_. lo + count) rs ds datas x t')"
proof (rule clone_ranges_source_trace [OF assms, of source start count destination lo "lo + count"])
  have v: "disk_ok (sb_total_blocks sb) v" using q by (simp add: recovers_def)
  note cl = cloned_blocks [OF _ v ok]
  fix r assume f: "\<And>tr. clone_ranges_source (trace_device (sb_total_blocks sb)) source start (start + count) destination lo (lo + count) al inodes (v, tr) = (r, v, tr)"
    and c: "\<And>datas. r = Inr datas \<Longrightarrow> cloned v inodes source start count datas"
    and le: "\<And>datas k. r = Inr datas \<Longrightarrow> file_position destination inodes = Inr k \<Longrightarrow> lo + count \<le> length (pi_blocks (inodes ! k))"
  have "atomic_op sb v (al, inodes, entries) (splice_file (trace_device (sb_total_blocks sb)) sb
      (clone_ranges_source (trace_device (sb_total_blocks sb)) source start (start + count) destination lo (lo + count))
      (clone_replace_edit destination lo (lo + count) count))
      (\<lambda>(rs, ds, rep) x t'. \<exists>datas. r = Inr datas \<and> file_spliced v inodes entries destination (\<lambda>_. lo) (\<lambda>_. lo + count) rs ds datas x t')"
    by (rule splice_file_atomic [OF a ok q], rule f) (use c cl clone_replace_edit_edited [OF ok _ refl] le in auto)
  then show ?thesis using c unfolding clone_file_blocks_replace_journaled_def
    by (intro atomic_op_if atomic_op_fail atomic_op_lift) (auto elim!: atomic_op_weaken)
qed

lemma clone_splice_atomic:
  assumes a: "addressable sb" and ok: "fs_ok sb v al inodes entries" and q: "recovers sb v v"
  shows "atomic_op sb v (al, inodes, entries)
      (clone_file_blocks_splice_journaled (trace_device (sb_total_blocks sb)) sb src dst)
      (\<lambda>(rs, ds, rep) x t'. \<exists>datas. cloned v inodes (fbr_inode src) (fbr_start src) (fbr_block_count src) datas \<and>
         file_spliced v inodes entries (fbr_inode dst) (\<lambda>_. fbr_start dst) (\<lambda>_. fbr_start dst + fbr_block_count dst) rs ds datas x t')"
    (is "atomic_op _ _ _ _ ?Q")
proof (rule clone_ranges_source_trace [OF assms, of "fbr_inode src" "fbr_start src" "fbr_block_count src" "fbr_inode dst" "fbr_start dst" "fbr_start dst + fbr_block_count dst"])
  have v: "disk_ok (sb_total_blocks sb) v" using q by (simp add: recovers_def)
  note cl = cloned_blocks [OF _ v ok]
  fix r assume f: "\<And>tr. clone_ranges_source (trace_device (sb_total_blocks sb)) (fbr_inode src) (fbr_start src) (fbr_start src + fbr_block_count src)
       (fbr_inode dst) (fbr_start dst) (fbr_start dst + fbr_block_count dst) al inodes (v, tr) = (r, v, tr)"
    and c: "\<And>datas. r = Inr datas \<Longrightarrow> cloned v inodes (fbr_inode src) (fbr_start src) (fbr_block_count src) datas"
  have re: "range_end g = Inr e \<Longrightarrow> e = fbr_start g + fbr_block_count g" for g e by (auto simp: range_end_def split: if_splits)
  define r' where "r' = (if fbr_inode src = fbr_inode dst then Inl InvalidInput
      else res_bind (range_end src) (\<lambda>_. res_bind (range_end dst) (\<lambda>_. r)))"
  have f': "clone_splice_source (trace_device (sb_total_blocks sb)) src dst al inodes (v, tr) = (r', v, tr)" for tr
    using re [of src] re [of dst] f
    by (cases "range_end src"; cases "range_end dst") (auto simp: clone_splice_source_def r'_def io_simps)
  have c': "r' = Inr datas \<Longrightarrow> r = Inr datas" for datas by (auto simp: r'_def res_bind_Inr split: if_splits)
  have e: "edited al inodes (fbr_inode dst) (\<lambda>_. fbr_start dst) (\<lambda>_. fbr_start dst + fbr_block_count dst) (fbr_block_count src) (rs, ds, al', inodes')"
    if h: "clone_splice_edit src dst al inodes = Inr (rs, ds, al', inodes')" for rs ds al' inodes'
  proof -
    from h obtain k where k: "file_position (fbr_inode dst) inodes = Inr k"
      and m: "remap_blocks allocate_blocks k (fbr_start dst) (fbr_start dst + fbr_block_count dst) (fbr_block_count src) al inodes = Inr (rs, ds, al', inodes')"
      using re [of dst] by (auto simp: clone_splice_edit_def res_bind_Inr)
    with first_fit.remap_blocks_splices [OF ok _ _ m] file_position_Inr [OF k] show ?thesis by (auto simp: edited_def)
  qed
  have "atomic_op sb v (al, inodes, entries) (clone_file_blocks_splice_journaled (trace_device (sb_total_blocks sb)) sb src dst)
      (\<lambda>(rs, ds, rep) x t'. \<exists>datas. r' = Inr datas \<and> file_spliced v inodes entries (fbr_inode dst) (\<lambda>_. fbr_start dst) (\<lambda>_. fbr_start dst + fbr_block_count dst) rs ds datas x t')"
    unfolding clone_file_blocks_splice_journaled_def
    by (rule splice_file_atomic [OF a ok q], rule f') (use c c' cl e in auto)
  then show "atomic_op sb v (al, inodes, entries) (clone_file_blocks_splice_journaled (trace_device (sb_total_blocks sb)) sb src dst) ?Q"
    by (rule atomic_op_weaken) (use c c' in auto)
qed

section \<open>Giving blocks up\<close>

lemma release_edited:
  assumes "fs_ok sb v al inodes entries" and k: "file_position ino inodes = Inr k" and n: "n = length (pi_blocks (inodes ! k))"
    and "release_blocks k (lo n) (hi n) al inodes = Inr (ds, al', inodes')"
  shows "edited al inodes ino lo hi 0 ([], ds, al', inodes')"
  using release_blocks_splices [OF assms(1) _ _ assms(4)] file_position_Inr [OF k] k n by (auto simp: edited_def)

lemma one_released:
  assumes "file_spliced v inodes entries ino l (\<lambda>n. l n + 1) [] ds [] x t'"
  shows "file_spliced v inodes entries ino l (\<lambda>n. l n + 1) [] [ds ! 0] [] x t'"
proof -
  from assms obtain k where "l (length (pi_blocks (inodes ! k))) + 1 \<le> length (pi_blocks (inodes ! k))"
    and "ds = block_slice (l (length (pi_blocks (inodes ! k)))) (l (length (pi_blocks (inodes ! k))) + 1) (pi_blocks (inodes ! k))"
    by (auto simp: file_spliced_def Let_def spliced_file_def)
  then have "length ds = 1" by (simp add: block_slice_def)
  then have "ds = [ds ! 0]" by (cases ds) auto
  with assms show ?thesis by simp
qed

lemma release_atomic:
  assumes a: "addressable sb" and ok: "fs_ok sb v al inodes entries" and q: "recovers sb v v"
  shows "atomic_op sb v (al, inodes, entries) (remove_file_block_journaled (trace_device (sb_total_blocks sb)) sb ino at)
      (\<lambda>(b, rep). file_spliced v inodes entries ino (\<lambda>_. at) (\<lambda>_. at + 1) [] [b] [])"
    and "atomic_op sb v (al, inodes, entries) (truncate_file_last_block_journaled (trace_device (sb_total_blocks sb)) sb ino)
      (\<lambda>(b, rep). file_spliced v inodes entries ino (\<lambda>n. n - 1) (\<lambda>n. n - 1 + 1) [] [b] [])"
    and "atomic_op sb v (al, inodes, entries) (collapse_file_block_range_journaled (trace_device (sb_total_blocks sb)) sb ino lo count)
      (\<lambda>(ds, rep). file_spliced v inodes entries ino (\<lambda>_. lo) (\<lambda>_. lo + count) [] ds [])"
proof -
  note r = release_file_atomic [OF a ok q, where N = False and ino = ino]
  have "atomic_op sb v (al, inodes, entries) (release_file (trace_device (sb_total_blocks sb)) sb (remove_edit ino at))
      (\<lambda>(ds, rep). file_spliced v inodes entries ino (\<lambda>_. at) (\<lambda>_. at + 1) [] ds [])"
    by (rule atomic_op_weaken [OF r [where lo = "\<lambda>_. at" and hi = "\<lambda>_. at + 1"]])
      (auto simp: remove_edit_def res_bind_Inr split: if_splits intro!: release_edited [OF ok])
  then show "atomic_op sb v (al, inodes, entries) (remove_file_block_journaled (trace_device (sb_total_blocks sb)) sb ino at)
      (\<lambda>(b, rep). file_spliced v inodes entries ino (\<lambda>_. at) (\<lambda>_. at + 1) [] [b] [])"
    unfolding remove_file_block_journaled_def case_prod_beta'
    by (rule atomic_op_map) (use one_released [of v inodes entries ino "\<lambda>_. at"] in auto)
  have "atomic_op sb v (al, inodes, entries) (release_file (trace_device (sb_total_blocks sb)) sb (truncate_last_edit ino))
      (\<lambda>(ds, rep). file_spliced v inodes entries ino (\<lambda>n. n - 1) (\<lambda>n. n - 1 + 1) [] ds [])"
    by (rule atomic_op_weaken [OF r [where lo = "\<lambda>n. n - 1" and hi = "\<lambda>n. n - 1 + 1"]])
      (auto simp: truncate_last_edit_def res_bind_Inr split: if_splits intro!: release_edited [OF ok])
  then show "atomic_op sb v (al, inodes, entries) (truncate_file_last_block_journaled (trace_device (sb_total_blocks sb)) sb ino)
      (\<lambda>(b, rep). file_spliced v inodes entries ino (\<lambda>n. n - 1) (\<lambda>n. n - 1 + 1) [] [b] [])"
    unfolding truncate_file_last_block_journaled_def case_prod_beta'
    by (rule atomic_op_map) (use one_released [of v inodes entries ino "\<lambda>n. n - 1"] in auto)
  show "atomic_op sb v (al, inodes, entries) (collapse_file_block_range_journaled (trace_device (sb_total_blocks sb)) sb ino lo count)
      (\<lambda>(ds, rep). file_spliced v inodes entries ino (\<lambda>_. lo) (\<lambda>_. lo + count) [] ds [])"
    unfolding collapse_file_block_range_journaled_def
    by (intro atomic_op_if atomic_op_fail atomic_op_lift, rule atomic_op_weaken [OF r [where lo = "\<lambda>_. lo" and hi = "\<lambda>_. lo + count"]])
      (auto simp: collapse_edit_def res_bind_Inr Let_def split: if_splits intro!: release_edited [OF ok])
qed

text \<open>Truncation to a number of blocks the file already has is a success that touches nothing.\<close>

definition file_truncated :: "disk \<Rightarrow> block_allocator \<Rightarrow> persisted_inode list \<Rightarrow> directory_entry list \<Rightarrow> u64 \<Rightarrow> nat \<Rightarrow> u64 list \<Rightarrow> disk \<Rightarrow> fs_tables \<Rightarrow> bool" where
  "file_truncated v al inodes entries ino target ds x t' \<longleftrightarrow>
     ((\<exists>k. file_position ino inodes = Inr k \<and> length (pi_blocks (inodes ! k)) = target) \<and> ds = [] \<and> x = v \<and> t' = (al, inodes, entries)) \<or>
     file_spliced v inodes entries ino (\<lambda>_. target) (\<lambda>n. n) [] ds [] x t'"

lemma truncate_atomic:
  assumes a: "addressable sb" and ok: "fs_ok sb v al inodes entries" and q: "recovers sb v v"
  shows "atomic_op sb v (al, inodes, entries) (truncate_file_to_blocks_journaled (trace_device (sb_total_blocks sb)) sb ino target)
      (\<lambda>(ds, rep). file_truncated v al inodes entries ino target ds)"
    and "atomic_op sb v (al, inodes, entries) (truncate_file_to_zero_journaled (trace_device (sb_total_blocks sb)) sb ino)
      (\<lambda>rep x t'. \<exists>ds. file_truncated v al inodes entries ino 0 ds x t')"
proof -
  have *: "atomic_op sb v (al, inodes, entries) (truncate_file_to_blocks_journaled (trace_device (sb_total_blocks sb)) sb ino target)
      (\<lambda>(ds, rep). file_truncated v al inodes entries ino target ds)" for target
    unfolding truncate_file_to_blocks_journaled_def
    by (rule atomic_op_weaken [OF release_file_atomic [OF a ok q,
          where N = "\<exists>k. file_position ino inodes = Inr k \<and> length (pi_blocks (inodes ! k)) = target"
            and ino = ino and lo = "\<lambda>_. target" and hi = "\<lambda>n. n"]])
      (auto simp: truncate_edit_def res_bind_Inr Let_def file_truncated_def split: if_splits intro!: release_edited [OF ok])
  then show "atomic_op sb v (al, inodes, entries) (truncate_file_to_blocks_journaled (trace_device (sb_total_blocks sb)) sb ino target)
      (\<lambda>(ds, rep). file_truncated v al inodes entries ino target ds)" .
  show "atomic_op sb v (al, inodes, entries) (truncate_file_to_zero_journaled (trace_device (sb_total_blocks sb)) sb ino)
      (\<lambda>rep x t'. \<exists>ds. file_truncated v al inodes entries ino 0 ds x t')"
    using * [of 0] unfolding truncate_file_to_zero_journaled_def truncate_file_to_blocks_journaled_def case_prod_beta'
    by (rule atomic_op_map) auto
qed

end
