(* ===== verification/File_Data.thy ===== *)
theory File_Data
  imports File_Ops
begin

text \<open>
  Reading and overwriting the data a file already has: \<open>file_data.rs\<close>, \<open>file_overwrite_batch.rs\<close>,
  \<open>file_range_read.rs\<close>, \<open>file_zero_range.rs\<close> and \<open>file_copy_range.rs\<close>. The contents of a file are the
  bytes of its blocks up to its byte length; a range write is an update of that byte list, and a
  range read a slice of it.
\<close>

section \<open>Reads\<close>

definition list_get :: "'a list \<Rightarrow> nat \<Rightarrow> 'a option" where
  "list_get xs i = (if i < length xs then Some (xs ! i) else None)"

definition check_owned :: "block_allocator \<Rightarrow> u64 \<Rightarrow> unit io_result" where
  "check_owned allocator block =
     res_bind (map_err (\<lambda>_. InvalidData) (is_owned allocator block)) (\<lambda>owned.
     if \<not> owned then Inl InvalidData else Inr ())"

definition resolve_owned_file_block :: "'d block_device \<Rightarrow> superblock \<Rightarrow> u64 \<Rightarrow> nat \<Rightarrow> ('d, u64) dev_io" where
  "resolve_owned_file_block D sb ino file_block_index =
     io_bind (load_inode_table D sb) (\<lambda>inodes.
     io_bind (io_lift (file_position ino inodes)) (\<lambda>k.
     io_bind (io_lift (ok_or InvalidInput (list_get (pi_blocks (inodes ! k)) file_block_index))) (\<lambda>block.
     io_bind (load_allocator D sb) (\<lambda>allocator.
     io_bind (io_lift (check_owned allocator block)) (\<lambda>_.
     io_return block)))))"

definition read_file_block :: "'d block_device \<Rightarrow> superblock \<Rightarrow> u64 \<Rightarrow> nat \<Rightarrow> ('d, byte list) dev_io" where
  "read_file_block D sb ino file_block_index =
     io_bind (resolve_owned_file_block D sb ino file_block_index) (read_block D)"

text \<open>The bounds both range operations compute: the first byte, and the number of blocks touched.\<close>

definition absolute_range :: "nat \<Rightarrow> nat \<Rightarrow> nat \<Rightarrow> (nat \<times> nat) io_result" where
  "absolute_range first_block_index start_offset len =
     res_bind (ok_or InvalidInput (case checked_mul first_block_index BLOCK_SIZE of
        None \<Rightarrow> None | Some base \<Rightarrow> checked_add base start_offset)) (\<lambda>absolute_start.
     res_bind (ok_or InvalidInput (checked_add absolute_start len)) (\<lambda>absolute_end.
     Inr (absolute_start, absolute_end)))"

definition check_eof :: "u64 \<Rightarrow> nat \<Rightarrow> persisted_inode list \<Rightarrow> unit io_result" where
  "check_eof ino absolute_end inodes =
     res_bind (file_position ino inodes) (\<lambda>k.
     if absolute_end > pi_byte_len (inodes ! k) then Inl InvalidInput else Inr ())"

fun read_range_loop ::
    "'d block_device \<Rightarrow> superblock \<Rightarrow> u64 \<Rightarrow> nat \<Rightarrow> nat \<Rightarrow> nat list \<Rightarrow> nat \<Rightarrow> byte list \<Rightarrow> ('d, byte list) dev_io" where
  "read_range_loop D sb ino first_block_index start_offset [] remaining output = io_return output"
| "read_range_loop D sb ino first_block_index start_offset (relative_index # rest) remaining output =
     io_bind (io_lift (ok_or InvalidInput (checked_add first_block_index relative_index))) (\<lambda>logical_index.
     io_bind (read_file_block D sb ino logical_index) (\<lambda>image.
     let begin_at = (if relative_index = 0 then start_offset else 0);
         taken = min (BLOCK_SIZE - begin_at) remaining in
     read_range_loop D sb ino first_block_index start_offset rest (remaining - taken) (output @ get_bytes begin_at taken image)))"

definition read_file_range :: "'d block_device \<Rightarrow> superblock \<Rightarrow> u64 \<Rightarrow> nat \<Rightarrow> nat \<Rightarrow> nat \<Rightarrow> ('d, byte list) dev_io" where
  "read_file_range D sb ino first_block_index start_offset len =
     (if len = 0 \<or> start_offset \<ge> BLOCK_SIZE then io_fail InvalidInput
      else
      io_bind (io_lift (absolute_range first_block_index start_offset len)) (\<lambda>(_, absolute_end).
      io_bind (load_inode_table D sb) (\<lambda>inodes.
      io_bind (io_lift (check_eof ino absolute_end inodes)) (\<lambda>_.
      io_bind (io_lift (ok_or InvalidInput (checked_add start_offset len))) (\<lambda>last_byte.
      read_range_loop D sb ino first_block_index start_offset [0..<div_ceil last_byte BLOCK_SIZE] len [])))))"

section \<open>Overwrites\<close>

definition journal_block_image :: "'d block_device \<Rightarrow> superblock \<Rightarrow> u64 \<Rightarrow> byte list \<Rightarrow> ('d, recovery_report) dev_io" where
  "journal_block_image D sb block d =
     io_bind (read_block D block) (\<lambda>current.
     if current = d then io_return \<lparr>committed_transactions = 0, home_writes = 0\<rparr>
     else publish_and_recover recover_journal_and_checkpoint D sb [(block, d)])"

definition write_file_block_journaled :: "'d block_device \<Rightarrow> superblock \<Rightarrow> u64 \<Rightarrow> nat \<Rightarrow> byte list \<Rightarrow> ('d, recovery_report) dev_io" where
  "write_file_block_journaled D sb ino file_block_index d =
     io_bind (resolve_owned_file_block D sb ino file_block_index) (\<lambda>block. journal_block_image D sb block d)"

fun overwrite_loop ::
    "'d block_device \<Rightarrow> block_allocator \<Rightarrow> u64 list \<Rightarrow> (nat \<times> byte list) list \<Rightarrow> nat set \<Rightarrow> block_write list \<Rightarrow> ('d, block_write list) dev_io" where
  "overwrite_loop D allocator blocks [] seen changed = io_return changed"
| "overwrite_loop D allocator blocks ((logical_index, img) # writes) seen changed =
     (if logical_index \<in> seen then io_fail InvalidInput
      else
      io_bind (io_lift (ok_or InvalidInput (list_get blocks logical_index))) (\<lambda>block.
      io_bind (io_lift (check_owned allocator block)) (\<lambda>_.
      io_bind (read_block D block) (\<lambda>current.
      overwrite_loop D allocator blocks writes (insert logical_index seen)
        (if current \<noteq> img then changed @ [(block, img)] else changed)))))"

definition write_file_blocks_journaled :: "'d block_device \<Rightarrow> superblock \<Rightarrow> u64 \<Rightarrow> (nat \<times> byte list) list \<Rightarrow> ('d, recovery_report) dev_io" where
  "write_file_blocks_journaled D sb ino writes =
     (if writes = [] then io_fail InvalidInput
      else
      io_bind (load_inode_table D sb) (\<lambda>inodes.
      io_bind (io_lift (file_position ino inodes)) (\<lambda>k.
      io_bind (load_allocator D sb) (\<lambda>allocator.
      io_bind (overwrite_loop D allocator (pi_blocks (inodes ! k)) writes {} []) (\<lambda>changed.
      commit_changed recover_journal_and_checkpoint D sb changed)))))"

fun range_images_loop ::
    "'d block_device \<Rightarrow> superblock \<Rightarrow> u64 \<Rightarrow> nat \<Rightarrow> nat \<Rightarrow> byte list \<Rightarrow> nat list \<Rightarrow> nat \<Rightarrow> (nat \<times> byte list) list \<Rightarrow>
     ('d, (nat \<times> byte list) list) dev_io" where
  "range_images_loop D sb ino first_block_index start_offset d [] consumed writes = io_return writes"
| "range_images_loop D sb ino first_block_index start_offset d (relative_index # rest) consumed writes =
     io_bind (io_lift (ok_or InvalidInput (checked_add first_block_index relative_index))) (\<lambda>logical_index.
     io_bind (read_file_block D sb ino logical_index) (\<lambda>img.
     let begin_at = (if relative_index = 0 then start_offset else 0);
         taken = min (BLOCK_SIZE - begin_at) (length d - consumed) in
     range_images_loop D sb ino first_block_index start_offset d rest (consumed + taken)
       (writes @ [(logical_index, put_bytes begin_at (get_bytes consumed taken d) img)])))"

definition write_file_range_journaled :: "'d block_device \<Rightarrow> superblock \<Rightarrow> u64 \<Rightarrow> nat \<Rightarrow> nat \<Rightarrow> byte list \<Rightarrow> ('d, recovery_report) dev_io" where
  "write_file_range_journaled D sb ino first_block_index start_offset d =
     (if d = [] \<or> start_offset \<ge> BLOCK_SIZE then io_fail InvalidInput
      else
      io_bind (io_lift (absolute_range first_block_index start_offset (length d))) (\<lambda>(_, absolute_end).
      io_bind (load_inode_table D sb) (\<lambda>inodes.
      io_bind (io_lift (check_eof ino absolute_end inodes)) (\<lambda>_.
      io_bind (io_lift (ok_or InvalidInput (checked_add start_offset (length d)))) (\<lambda>last_byte.
      io_bind (range_images_loop D sb ino first_block_index start_offset d [0..<div_ceil last_byte BLOCK_SIZE] 0 []) (\<lambda>writes.
      write_file_blocks_journaled D sb ino writes))))))"

definition write_file_block_range_journaled ::
    "'d block_device \<Rightarrow> superblock \<Rightarrow> u64 \<Rightarrow> nat \<Rightarrow> nat \<Rightarrow> byte list \<Rightarrow> ('d, recovery_report) dev_io" where
  "write_file_block_range_journaled D sb ino file_block_index off d =
     (if d = [] \<or> off \<ge> BLOCK_SIZE \<or> length d > BLOCK_SIZE - off then io_fail InvalidInput
      else write_file_range_journaled D sb ino file_block_index off d)"

definition zero_file_range_journaled :: "'d block_device \<Rightarrow> superblock \<Rightarrow> u64 \<Rightarrow> nat \<Rightarrow> nat \<Rightarrow> nat \<Rightarrow> ('d, recovery_report) dev_io" where
  "zero_file_range_journaled D sb ino first_block off len =
     (if len = 0 then io_fail InvalidInput
      else write_file_range_journaled D sb ino first_block off (zeroes len))"

record file_range_endpoint =
  fre_inode :: u64
  fre_first_block :: nat
  fre_offset :: nat

definition copy_file_range_journaled ::
    "'d block_device \<Rightarrow> superblock \<Rightarrow> file_range_endpoint \<Rightarrow> file_range_endpoint \<Rightarrow> nat \<Rightarrow> ('d, recovery_report) dev_io" where
  "copy_file_range_journaled D sb source destination len =
     io_bind (read_file_range D sb (fre_inode source) (fre_first_block source) (fre_offset source) len) (\<lambda>snapshot.
     write_file_range_journaled D sb (fre_inode destination) (fre_first_block destination) (fre_offset destination) snapshot)"

section \<open>What the reads return\<close>

definition file_bytes :: "disk \<Rightarrow> persisted_inode \<Rightarrow> byte list" where
  "file_bytes v i = take (pi_byte_len i) (concat (file_blocks v i))"

lemma list_get_simps [simp]:
  "list_get xs i = Some x \<longleftrightarrow> i < length xs \<and> x = xs ! i" "list_get xs i = None \<longleftrightarrow> length xs \<le> i"
  by (auto simp: list_get_def)

lemma check_owned_block:
  assumes ok: "fs_ok sb v al inodes entries" and i: "i \<in> set inodes" and b: "b \<in> set (pi_blocks i)"
  shows "check_owned al b = Inr ()"
proof -
  have "b \<in> owned_blocks al"
    using fs_okD(10) [OF ok, unfolded ownership_ok_iff [OF fs_okD(7) [OF ok]]] i b by blast
  then have "is_owned al b = Inr True" using fs_ok_owned [OF ok i b] fs_okD(5) [OF ok] by (simp add: is_owned_in_range)
  then show ?thesis by (simp add: check_owned_def map_err_def)
qed

lemma file_blocks_uniform:
  assumes "disk_ok (sb_total_blocks sb) v" and "fs_ok sb v al inodes entries" and "k < length inodes"
  shows "\<forall>x \<in> set (file_blocks v (inodes ! k)). length x = BLOCK_SIZE"
  using fs_ok_owned [OF assms(2) nth_mem [OF assms(3)]] assms(1) by (auto simp: file_blocks_def disk_ok_def)

lemma read_block_trace: "b < n \<Longrightarrow> read_block (trace_device n) b (v, tr) = (Inr (v b), v, tr)"
  by (simp add: trace_device_def)

lemma read_file_block_trace:
  assumes a: "addressable sb" and ok: "fs_ok sb v al inodes entries" and q: "recovers sb v v"
    and k: "file_position ino inodes = Inr k" and n: "n < length (pi_blocks (inodes ! k))"
  shows "resolve_owned_file_block (trace_device (sb_total_blocks sb)) sb ino n (v, tr) = (Inr (pi_blocks (inodes ! k) ! n), v, tr)"
    and "read_file_block (trace_device (sb_total_blocks sb)) sb ino n (v, tr) = (Inr (file_blocks v (inodes ! k) ! n), v, tr)"
proof -
  have v: "disk_ok (sb_total_blocks sb) v" using q by (simp add: recovers_def)
  note l = fs_ok_loads [OF a v ok]
  have i: "inodes ! k \<in> set inodes" "pi_blocks (inodes ! k) ! n \<in> set (pi_blocks (inodes ! k))"
    using file_position_Inr [OF k] n by simp_all
  show *: "resolve_owned_file_block (trace_device (sb_total_blocks sb)) sb ino n (v, tr) = (Inr (pi_blocks (inodes ! k) ! n), v, tr)" for tr
    using n by (simp add: resolve_owned_file_block_def io_simps l k list_get_def check_owned_block [OF ok i] io_return_def)
  show "read_file_block (trace_device (sb_total_blocks sb)) sb ino n (v, tr) = (Inr (file_blocks v (inodes ! k) ! n), v, tr)"
    using fs_ok_owned [OF ok i] n by (simp add: read_file_block_def io_simps * read_block_trace file_blocks_def)
qed

lemma read_file_block_refused:
  assumes a: "addressable sb" and ok: "fs_ok sb v al inodes entries" and q: "recovers sb v v"
    and "\<And>k. file_position ino inodes = Inr k \<Longrightarrow> length (pi_blocks (inodes ! k)) \<le> n"
  shows "resolve_owned_file_block (trace_device (sb_total_blocks sb)) sb ino n (v, tr) = (Inl InvalidInput, v, tr)"
proof -
  have v: "disk_ok (sb_total_blocks sb) v" using q by (simp add: recovers_def)
  note l = fs_ok_loads [OF a v ok]
  have "file_position ino inodes = Inl e \<Longrightarrow> e = InvalidInput" for e
    by (auto simp: file_position_def ok_or_def res_bind_def split: option.splits if_splits)
  then show ?thesis using assms(4)
    by (cases "file_position ino inodes") (auto simp: resolve_owned_file_block_def io_simps l list_get_def)
qed

text \<open>A slice inside one chunk, and a slice that starts in one chunk and continues in the next.\<close>

lemma get_bytes_chunk:
  assumes "\<forall>x \<in> set xs. length x = n" and "k < length xs" and "b + t \<le> n"
  shows "get_bytes (k * n + b) t (concat xs) = get_bytes b t (xs ! k)"
proof -
  have "get_bytes b t (xs ! k) = take t (drop b (take n (drop (k * n) (concat xs))))"
    using nth_concat_uniform [OF assms(1,2)] by (simp add: get_bytes_def)
  also have "\<dots> = take t (drop (b + k * n) (concat xs))" using assms(3) by (simp add: drop_take)
  finally show ?thesis by (simp add: get_bytes_def add.commute)
qed

lemma get_bytes_split: "get_bytes p (t + r) bs = get_bytes p t bs @ get_bytes (p + t) r bs"
  unfolding get_bytes_def by (metis add.commute drop_drop take_add)

lemma read_range_loop_trace:
  assumes a: "addressable sb" and ok: "fs_ok sb v al inodes entries" and q: "recovers sb v v"
    and k: "file_position ino inodes = Inr k" and n: "first + m + n \<le> length (pi_blocks (inodes ! k))"
    and off: "off < BLOCK_SIZE" and b: "b = (if m = 0 then off else 0)" and r: "b + r \<le> n * BLOCK_SIZE" "n = 0 \<Longrightarrow> r = 0"
    and lim: "first + m + n < U64_LIMIT"
  shows "read_range_loop (trace_device (sb_total_blocks sb)) sb ino first off [m..<m + n] r out (v, tr) =
     (Inr (out @ get_bytes ((first + m) * BLOCK_SIZE + b) r (concat (file_blocks v (inodes ! k)))), v, tr)"
  using n b r lim
proof (induction n arbitrary: m r b out)
  case 0
  then show ?case by (simp add: io_return_def get_bytes_def)
next
  case (Suc n)
  have v: "disk_ok (sb_total_blocks sb) v" using q by (simp add: recovers_def)
  let ?F = "concat (file_blocks v (inodes ! k))" and ?t = "min (BLOCK_SIZE - b) r"
  note u = file_blocks_uniform [OF v ok conjunct1 [OF file_position_Inr [OF k]]]
  have up: "[m..<m + Suc n] = m # [Suc m..<Suc m + n]" by (simp add: upt_rec)
  have mk: "first + m < length (pi_blocks (inodes ! k))" using Suc.prems by simp
  have bt: "b + ?t \<le> BLOCK_SIZE" using off Suc.prems(2) by (auto split: if_splits)
  have img: "get_bytes b ?t (file_blocks v (inodes ! k) ! (first + m)) = get_bytes ((first + m) * BLOCK_SIZE + b) ?t ?F"
    by (rule get_bytes_chunk [OF u _ bt, symmetric]) (use mk in \<open>simp add: file_blocks_def\<close>)
  have "get_bytes ((first + m) * BLOCK_SIZE + b) r ?F = get_bytes ((first + m) * BLOCK_SIZE + b) ?t ?F @ get_bytes ((first + Suc m) * BLOCK_SIZE) (r - ?t) ?F"
  proof (cases "r \<le> BLOCK_SIZE - b")
    case False
    then have "r = ?t + (r - ?t)" "(first + m) * BLOCK_SIZE + b + ?t = (first + Suc m) * BLOCK_SIZE" using bt by auto
    then show ?thesis by (metis get_bytes_split)
  qed (simp add: get_bytes_def min_def)
  moreover have "read_range_loop (trace_device (sb_total_blocks sb)) sb ino first off [Suc m..<Suc m + n] (r - ?t) out' (v, tr) =
      (Inr (out' @ get_bytes ((first + Suc m) * BLOCK_SIZE + 0) (r - ?t) ?F), v, tr)" for out'
    by (rule Suc.IH) (use Suc.prems bt in auto)
  moreover have "read_range_loop (trace_device (sb_total_blocks sb)) sb ino first off (m # rest) r out (v, tr) =
      read_range_loop (trace_device (sb_total_blocks sb)) sb ino first off rest (r - ?t) (out @ get_bytes b ?t (file_blocks v (inodes ! k) ! (first + m))) (v, tr)" for rest
    using Suc.prems(5) by (simp add: io_simps checked_add_def read_file_block_trace(2) [OF a ok q k mk] Let_def Suc.prems(2) [symmetric])
  ultimately show ?case unfolding up img by simp
qed

lemma file_length:
  assumes "fs_ok sb v al inodes entries" and "file_position ino inodes = Inr k"
  shows "pi_byte_len (inodes ! k) \<le> length (pi_blocks (inodes ! k)) * BLOCK_SIZE" and "length (pi_blocks (inodes ! k)) * BLOCK_SIZE < U64_LIMIT"
proof -
  have "inode_ok (inodes ! k)" "pi_kind (inodes ! k) = File" using fs_okD(8) [OF assms(1)] file_position_Inr [OF assms(2)] by simp_all
  then show "pi_byte_len (inodes ! k) \<le> length (pi_blocks (inodes ! k)) * BLOCK_SIZE" "length (pi_blocks (inodes ! k)) * BLOCK_SIZE < U64_LIMIT"
    by (auto simp: inode_ok_def split: if_splits)
qed

lemma range_blocks:
  assumes "first * BLOCK_SIZE + off + len \<le> L * BLOCK_SIZE" and "0 < len" and "off < BLOCK_SIZE"
  shows "first + div_ceil (off + len) BLOCK_SIZE \<le> L"
proof -
  have "off + len \<le> (L - first) * BLOCK_SIZE" using assms(1) by (simp add: diff_mult_distrib)
  then have "div_ceil (off + len) BLOCK_SIZE \<le> L - first" by (auto simp: div_ceil_def BLOCK_SIZE_def)
  moreover have "first \<le> L"
  proof (rule ccontr)
    assume "\<not> first \<le> L"
    then have "(L + 1) * BLOCK_SIZE \<le> first * BLOCK_SIZE" by (intro mult_le_mono1) simp
    with assms show False by simp
  qed
  ultimately show ?thesis by simp
qed

text \<open>The request lies in the file.\<close>

definition range_in_file :: "persisted_inode list \<Rightarrow> u64 \<Rightarrow> nat \<Rightarrow> nat \<Rightarrow> nat \<Rightarrow> nat \<Rightarrow> bool" where
  "range_in_file inodes ino first off len k \<longleftrightarrow> file_position ino inodes = Inr k \<and> 0 < len \<and> off < BLOCK_SIZE \<and>
     first * BLOCK_SIZE + off + len \<le> pi_byte_len (inodes ! k)"

lemma range_checks:
  assumes ok: "fs_ok sb v al inodes entries" and r: "range_in_file inodes ino first off len k"
  shows "absolute_range first off len = Inr (first * BLOCK_SIZE + off, first * BLOCK_SIZE + off + len)"
    and "check_eof ino (first * BLOCK_SIZE + off + len) inodes = Inr ()" and "checked_add off len = Some (off + len)"
    and "first + div_ceil (off + len) BLOCK_SIZE \<le> length (pi_blocks (inodes ! k))"
    and "first + div_ceil (off + len) BLOCK_SIZE < U64_LIMIT" and "off + len \<le> div_ceil (off + len) BLOCK_SIZE * BLOCK_SIZE"
proof -
  from r have k: "file_position ino inodes = Inr k" and le: "first * BLOCK_SIZE + off + len \<le> pi_byte_len (inodes ! k)" and
    len: "0 < len" "off < BLOCK_SIZE" by (simp_all add: range_in_file_def)
  note f = file_length [OF ok k]
  show "absolute_range first off len = Inr (first * BLOCK_SIZE + off, first * BLOCK_SIZE + off + len)"
    using le f by (simp add: absolute_range_def checked_mul_def checked_add_def)
  show "check_eof ino (first * BLOCK_SIZE + off + len) inodes = Inr ()" using k le by (simp add: check_eof_def)
  show "checked_add off len = Some (off + len)" using le f by simp
  show *: "first + div_ceil (off + len) BLOCK_SIZE \<le> length (pi_blocks (inodes ! k))"
    by (rule range_blocks) (use le f len in auto)
  have "length (pi_blocks (inodes ! k)) \<le> length (pi_blocks (inodes ! k)) * BLOCK_SIZE" by (simp add: BLOCK_SIZE_def)
  with * f(2) show "first + div_ceil (off + len) BLOCK_SIZE < U64_LIMIT" by linarith
  show "off + len \<le> div_ceil (off + len) BLOCK_SIZE * BLOCK_SIZE" using div_ceil_bounds len by simp
qed

lemma read_file_range_trace:
  assumes a: "addressable sb" and ok: "fs_ok sb v al inodes entries" and q: "recovers sb v v"
    and r: "range_in_file inodes ino first off len k"
  shows "read_file_range (trace_device (sb_total_blocks sb)) sb ino first off len (v, tr) =
     (Inr (get_bytes (first * BLOCK_SIZE + off) len (file_bytes v (inodes ! k))), v, tr)"
proof -
  have v: "disk_ok (sb_total_blocks sb) v" using q by (simp add: recovers_def)
  from r have k: "file_position ino inodes = Inr k" and le: "first * BLOCK_SIZE + off + len \<le> pi_byte_len (inodes ! k)" and
    len: "0 < len" "off < BLOCK_SIZE" by (simp_all add: range_in_file_def)
  note c = range_checks [OF ok r]
  have "read_range_loop (trace_device (sb_total_blocks sb)) sb ino first off [0..<0 + div_ceil (off + len) BLOCK_SIZE] len [] (v, tr) =
      (Inr ([] @ get_bytes ((first + 0) * BLOCK_SIZE + off) len (concat (file_blocks v (inodes ! k)))), v, tr)"
    by (rule read_range_loop_trace [OF a ok q k _ len(2)]) (use c len in auto)
  moreover have "get_bytes (first * BLOCK_SIZE + off) len (file_bytes v (inodes ! k)) = get_bytes (first * BLOCK_SIZE + off) len (concat (file_blocks v (inodes ! k)))"
    using le by (simp add: file_bytes_def get_bytes_def drop_take min_def)
  ultimately show ?thesis
    using len by (simp add: read_file_range_def io_simps c(1-3) fs_ok_loads [OF a v ok])
qed

lemma file_position_Inl: "file_position ino inodes = Inl e \<Longrightarrow> e = InvalidInput"
  by (auto simp: file_position_def ok_or_def res_bind_def split: option.splits if_splits)

lemma range_refused:
  assumes "\<And>k. \<not> range_in_file inodes ino first off len k" and "0 < len" and "off < BLOCK_SIZE"
  shows "absolute_range first off len = Inl InvalidInput \<or>
     (\<exists>s e. absolute_range first off len = Inr (s, e) \<and> check_eof ino e inodes = Inl InvalidInput)"
proof (cases "first * BLOCK_SIZE + off + len < U64_LIMIT")
  case True
  then have "absolute_range first off len = Inr (first * BLOCK_SIZE + off, first * BLOCK_SIZE + off + len)"
    by (simp add: absolute_range_def checked_mul_def checked_add_def)
  moreover have "check_eof ino (first * BLOCK_SIZE + off + len) inodes = Inl InvalidInput"
  proof (cases "file_position ino inodes")
    case (Inl e)
    then show ?thesis using file_position_Inl by (auto simp: check_eof_def)
  next
    case (Inr k)
    with assms(1) [of k] assms(2,3) show ?thesis by (simp add: check_eof_def range_in_file_def)
  qed
  ultimately show ?thesis by blast
qed (auto simp: absolute_range_def checked_mul_def checked_add_def)

lemma read_file_range_refused:
  assumes a: "addressable sb" and ok: "fs_ok sb v al inodes entries" and q: "recovers sb v v"
    and r: "\<And>k. \<not> range_in_file inodes ino first off len k"
  shows "read_file_range (trace_device (sb_total_blocks sb)) sb ino first off len (v, tr) = (Inl InvalidInput, v, tr)"
proof (cases "len = 0 \<or> off \<ge> BLOCK_SIZE")
  case False
  have v: "disk_ok (sb_total_blocks sb) v" using q by (simp add: recovers_def)
  from range_refused [OF r] False show ?thesis by (auto simp: read_file_range_def io_simps fs_ok_loads [OF a v ok])
qed (auto simp: read_file_range_def io_simps)

section \<open>What the overwrites do\<close>

lemma nth_byte_range: "j < n \<Longrightarrow> off + n \<le> length bs \<Longrightarrow> get_bytes off n bs ! j = bs ! (off + j)"
  by (simp add: get_bytes_def)

lemma nth_put_bytes:
  "off + length d \<le> length bs \<Longrightarrow> j < length bs \<Longrightarrow> put_bytes off d bs ! j = (if off \<le> j \<and> j < off + length d then d ! (j - off) else bs ! j)"
  by (auto simp: put_bytes_def nth_append min_def)

lemma put_chunk:
  assumes u: "\<forall>x \<in> set xs. length x = N" and n: "n < length xs" and S: "s + length d \<le> length xs * N"
    and pos: "n * N + b = s + c" "b = 0 \<or> c = 0" "b \<le> N" "c \<le> length d" and t: "t = min (N - b) (length d - c)"
  shows "put_bytes b (get_bytes c t d) (xs ! n) = get_bytes (n * N) N (put_bytes s d (concat xs))"
proof (rule nth_equalityI)
  have x: "length (xs ! n) = N" using u n by simp
  have cl: "length (concat xs) = length xs * N" by (rule length_concat_uniform [OF u])
  have nN: "n * N + N \<le> length xs * N" using n mult_le_mono1 [of "Suc n" "length xs" N] by simp
  have lg: "length (get_bytes c t d) = t" using t pos(4) by (simp add: length_get_bytes)
  have bt: "b + t \<le> N" using t pos(3) by simp
  have lp: "length (put_bytes s d (concat xs)) = length xs * N" using S cl by (simp add: length_put_bytes)
  show len: "length (put_bytes b (get_bytes c t d) (xs ! n)) = length (get_bytes (n * N) N (put_bytes s d (concat xs)))"
    using nN lp lg bt x by (simp add: length_get_bytes length_put_bytes)
  fix j assume "j < length (put_bytes b (get_bytes c t d) (xs ! n))"
  then have j: "j < N" using lg bt x by (simp add: length_put_bytes)
  have old: "concat xs ! (n * N + j) = xs ! n ! j"
  proof -
    have "n * N \<le> length (concat xs)" using cl nN by linarith
    then show ?thesis unfolding nth_concat_uniform [OF u n, symmetric] using j by (simp only: nth_take nth_drop)
  qed
  have "put_bytes b (get_bytes c t d) (xs ! n) ! j = (if b \<le> j \<and> j < b + t then d ! (c + (j - b)) else xs ! n ! j)"
  proof -
    have "c + t \<le> length d" using t pos(4) by simp
    then have "get_bytes c t d ! (j - b) = d ! (c + (j - b))" if "b \<le> j" "j < b + t" using that by (intro nth_byte_range) auto
    then show ?thesis using j x bt lg by (simp add: nth_put_bytes)
  qed
  also have "\<dots> = (if s \<le> n * N + j \<and> n * N + j < s + length d then d ! (n * N + j - s) else xs ! n ! j)"
  proof -
    have "(b \<le> j \<and> j < b + t) = (s \<le> p + j \<and> p + j < s + l)" if "p + b = s + c" "t = min (N - b) (l - c)" "c \<le> l" for p l
      using that pos(2,3) j by (auto simp: min_def split: if_splits)
    from this [OF pos(1) t pos(4)] have "(b \<le> j \<and> j < b + t) = (s \<le> n * N + j \<and> n * N + j < s + length d)" .
    moreover have "c + (j - b) = n * N + j - s" if "b \<le> j" using that pos(1) by simp
    ultimately show ?thesis by auto
  qed
  also have "\<dots> = get_bytes (n * N) N (put_bytes s d (concat xs)) ! j"
    using j nN S cl lp old by (simp add: nth_byte_range nth_put_bytes)
  finally show "put_bytes b (get_bytes c t d) (xs ! n) ! j = get_bytes (n * N) N (put_bytes s d (concat xs)) ! j" .
qed

lemma range_images_loop_trace:
  assumes a: "addressable sb" and ok: "fs_ok sb v al inodes entries" and q: "recovers sb v v"
    and k: "file_position ino inodes = Inr k" and n: "first + m + n \<le> length (pi_blocks (inodes ! k))" "first + m + n < U64_LIMIT"
    and off: "off < BLOCK_SIZE" and S: "first * BLOCK_SIZE + off + length d \<le> length (pi_blocks (inodes ! k)) * BLOCK_SIZE"
    and b: "b = (if m = 0 then off else 0)" and c: "0 < n \<Longrightarrow> m * BLOCK_SIZE + b = off + c" and last: "0 < n \<Longrightarrow> (m + n - 1) * BLOCK_SIZE < off + length d"
  shows "range_images_loop (trace_device (sb_total_blocks sb)) sb ino first off d [m..<m + n] c ws (v, tr) =
     (Inr (ws @ map (\<lambda>j. (first + j, get_bytes ((first + j) * BLOCK_SIZE) BLOCK_SIZE
        (put_bytes (first * BLOCK_SIZE + off) d (concat (file_blocks v (inodes ! k)))))) [m..<m + n]), v, tr)"
  using n b c last
proof (induction n arbitrary: m c b ws)
  case 0
  then show ?case by (simp add: io_return_def)
next
  case (Suc n)
  have v: "disk_ok (sb_total_blocks sb) v" using q by (simp add: recovers_def)
  let ?G = "put_bytes (first * BLOCK_SIZE + off) d (concat (file_blocks v (inodes ! k)))" and ?t = "min (BLOCK_SIZE - b) (length d - c)"
  note u = file_blocks_uniform [OF v ok conjunct1 [OF file_position_Inr [OF k]]]
  have up: "[m..<m + Suc n] = m # [Suc m..<Suc m + n]" by (simp add: upt_rec)
  have mk: "first + m < length (pi_blocks (inodes ! k))" using Suc.prems by simp
  have mc: "m * BLOCK_SIZE + b = off + c" "(m + n) * BLOCK_SIZE < off + length d" using Suc.prems(4,5) by simp_all
  have mn: "m * BLOCK_SIZE \<le> (m + n) * BLOCK_SIZE" by (intro mult_le_mono1) simp
  have b: "b \<le> BLOCK_SIZE" "b = 0 \<or> c = 0" using off Suc.prems(3) mc(1) by (auto split: if_splits)
  have "m * BLOCK_SIZE < off + length d" using mc(2) mn by linarith
  then have cl: "c \<le> length d" using mc(1) b Suc.prems(3) by (auto split: if_splits)
  have img: "put_bytes b (get_bytes c ?t d) (file_blocks v (inodes ! k) ! (first + m)) = get_bytes ((first + m) * BLOCK_SIZE) BLOCK_SIZE ?G"
    by (rule put_chunk [OF u]) (use mk S mc(1) b cl in \<open>simp_all add: file_blocks_def add_mult_distrib\<close>)
  have "range_images_loop (trace_device (sb_total_blocks sb)) sb ino first off d [Suc m..<Suc m + n] (c + ?t) ws' (v, tr) =
      (Inr (ws' @ map (\<lambda>j. (first + j, get_bytes ((first + j) * BLOCK_SIZE) BLOCK_SIZE ?G)) [Suc m..<Suc m + n]), v, tr)" for ws'
  proof (rule Suc.IH)
    show "Suc m * BLOCK_SIZE + 0 = off + (c + ?t)" if "0 < n"
    proof -
      have "Suc m * BLOCK_SIZE \<le> (m + n) * BLOCK_SIZE" by (intro mult_le_mono1) (use that in simp)
      with mc b(1) have "c + (BLOCK_SIZE - b) \<le> length d" by simp
      then have "?t = BLOCK_SIZE - b" by simp
      with mc(1) b(1) show ?thesis by simp
    qed
  qed (use Suc.prems in simp_all)
  moreover have "range_images_loop (trace_device (sb_total_blocks sb)) sb ino first off d (m # rest) c ws (v, tr) =
      range_images_loop (trace_device (sb_total_blocks sb)) sb ino first off d rest (c + ?t)
        (ws @ [(first + m, put_bytes b (get_bytes c ?t d) (file_blocks v (inodes ! k) ! (first + m)))]) (v, tr)" for rest
    using Suc.prems(2) by (simp add: io_simps checked_add_def read_file_block_trace(2) [OF a ok q k mk] Let_def Suc.prems(3) [symmetric])
  ultimately show ?case unfolding up img by simp
qed

lemma overwrite_loop_trace:
  assumes a: "addressable sb" and ok: "fs_ok sb v al inodes entries" and i: "i \<in> set inodes"
  obtains (found) "distinct (map fst ws)" and "\<forall>j \<in> fst ` set ws. j < length (pi_blocks i) \<and> j \<notin> seen" and
      "\<And>tr. overwrite_loop (trace_device (sb_total_blocks sb)) al (pi_blocks i) ws seen changed (v, tr) =
         (Inr (changed @ filter (\<lambda>(b, d). v b \<noteq> d) (map (\<lambda>(j, d). (pi_blocks i ! j, d)) ws)), v, tr)"
  | (refused) "\<And>tr. overwrite_loop (trace_device (sb_total_blocks sb)) al (pi_blocks i) ws seen changed (v, tr) = (Inl InvalidInput, v, tr)"
proof -
  let ?D = "trace_device (sb_total_blocks sb)"
  have "distinct (map fst ws) \<and> (\<forall>j \<in> fst ` set ws. j < length (pi_blocks i) \<and> j \<notin> seen) \<and>
      (\<forall>tr. overwrite_loop ?D al (pi_blocks i) ws seen changed (v, tr) =
         (Inr (changed @ filter (\<lambda>(b, d). v b \<noteq> d) (map (\<lambda>(j, d). (pi_blocks i ! j, d)) ws)), v, tr)) \<or>
      (\<forall>tr. overwrite_loop ?D al (pi_blocks i) ws seen changed (v, tr) = (Inl InvalidInput, v, tr))"
  proof (induction ws arbitrary: seen changed)
    case Nil
    then show ?case by (simp add: io_return_def)
  next
    case (Cons w ws)
    obtain j d where w: "w = (j, d)" by fastforce
    show ?case
    proof (cases "j \<in> seen \<or> length (pi_blocks i) \<le> j")
      case True
      then show ?thesis by (auto simp: w io_simps list_get_def)
    next
      case False
      then have b: "pi_blocks i ! j \<in> set (pi_blocks i)" by simp
      have run: "overwrite_loop ?D al (pi_blocks i) (w # ws) seen changed (v, tr) =
          overwrite_loop ?D al (pi_blocks i) ws (insert j seen) (if v (pi_blocks i ! j) \<noteq> d then changed @ [(pi_blocks i ! j, d)] else changed) (v, tr)" for tr
        using False fs_ok_owned [OF ok i b] by (simp add: w io_simps list_get_def check_owned_block [OF ok i b] read_block_trace)
      from Cons.IH [of "insert j seen" "if v (pi_blocks i ! j) \<noteq> d then changed @ [(pi_blocks i ! j, d)] else changed"] show ?thesis
      proof
        assume h: "distinct (map fst ws) \<and> (\<forall>j' \<in> fst ` set ws. j' < length (pi_blocks i) \<and> j' \<notin> insert j seen) \<and>
          (\<forall>tr. overwrite_loop ?D al (pi_blocks i) ws (insert j seen) (if v (pi_blocks i ! j) \<noteq> d then changed @ [(pi_blocks i ! j, d)] else changed) (v, tr) =
            (Inr ((if v (pi_blocks i ! j) \<noteq> d then changed @ [(pi_blocks i ! j, d)] else changed) @
               filter (\<lambda>(b, d). v b \<noteq> d) (map (\<lambda>(j, d). (pi_blocks i ! j, d)) ws)), v, tr))"
        then have "j \<notin> fst ` set ws" by blast
        with h False show ?thesis unfolding run by (intro disjI1) (auto simp: w)
      qed (simp add: run)
    qed
  qed
  with found refused show thesis by blast
qed

lemma write_all_changed:
  assumes "distinct (map fst ws)"
  shows "write_all v (filter (\<lambda>(b, d). v b \<noteq> d) ws) = write_all v ws"
proof -
  have "write_all w (filter (\<lambda>(b, d). v b \<noteq> d) ws) = write_all w ws" if "distinct (map fst ws)" "\<forall>b \<in> fst ` set ws. w b = v b" for w
    using that
  proof (induction ws arbitrary: w)
    case (Cons p ws)
    obtain b d where p: "p = (b, d)" by fastforce
    have *: "write_all (w(b := d)) (filter (\<lambda>(b, d). v b \<noteq> d) ws) = write_all (w(b := d)) ws"
      by (rule Cons.IH) (use Cons.prems p in \<open>auto simp: image_iff\<close>)
    moreover have "w(b := d) = w" if "v b = d" using that Cons.prems(2) p by (auto simp: fun_upd_idem_iff)
    ultimately show ?case by (auto simp: p)
  qed simp
  from this [OF assms, of v] show ?thesis by simp
qed

lemma write_all_in:
  assumes "distinct (map fst ws)" and "(b, d) \<in> set ws"
  shows "write_all v ws b = d"
  using assms
proof (induction ws arbitrary: v)
  case (Cons p ws)
  obtain c e where p: "p = (c, e)" by fastforce
  show ?case
  proof (cases "(b, d) \<in> set ws")
    case True
    with Cons show ?thesis by (simp add: p)
  next
    case False
    with Cons.prems p have "b = c" "d = e" "c \<notin> fst ` set ws" by auto
    then show ?thesis by (simp add: p write_all_other)
  qed
qed simp

text \<open>Data written to blocks of files, with the tables as they are.\<close>

lemma file_data_tx:
  assumes a: "addressable sb" and q: "recovers sb v v" and ok: "fs_ok sb v al inodes entries" and ws: "file_writes inodes ws"
  obtains (failed) e where
      "\<And>tr. publish_and_recover recover_journal_and_checkpoint (trace_device (sb_total_blocks sb)) sb ws (v, tr) = (Inl e, v, tr)"
  | (stored) rep x evs where
      "\<And>tr. publish_and_recover recover_journal_and_checkpoint (trace_device (sb_total_blocks sb)) sb ws (v, tr) = (Inr rep, x, tr @ evs)"
      "reaches sb v x evs al inodes entries" "\<And>b. reserved_blocks sb \<le> b \<Longrightarrow> x b = write_all v ws b" "load_disk sb x = Inr []"
proof -
  have u: "file_update sb inodes al inodes" using fs_okD(4,8,10) [OF ok] by (auto simp: file_update_def)
  note f = file_update_facts [OF ok u ws fs_okD(5,6) [OF ok]]
  have s: "snapshot sb []" by (simp add: snapshot_def)
  have h: "holds_tables sb (put_images [] v) al inodes entries" using fs_okD(3) [OF ok] by (simp add: put_images_def)
  show thesis
    by (rule publish_update_tx [OF a q ok s f(3) h fs_okD(10) [OF ok] f(2,1)]) (use failed stored in \<open>auto simp: image_changes_def\<close>)
qed

text \<open>The blocks of one file overwritten at some indices; all else, tables included, as it was.\<close>

definition overwritten :: "disk \<Rightarrow> block_allocator \<Rightarrow> persisted_inode list \<Rightarrow> directory_entry list \<Rightarrow> u64 \<Rightarrow> (nat \<times> byte list) list \<Rightarrow> disk \<Rightarrow> fs_tables \<Rightarrow> bool" where
  "overwritten v al inodes entries ino ws x t' \<longleftrightarrow> t' = (al, inodes, entries) \<and>
     (\<exists>k. file_position ino inodes = Inr k \<and>
        (\<forall>j < length (pi_blocks (inodes ! k)). file_blocks x (inodes ! k) ! j = (case map_of ws j of None \<Rightarrow> file_blocks v (inodes ! k) ! j | Some d \<Rightarrow> d)) \<and>
        (\<forall>j < length inodes. j \<noteq> k \<longrightarrow> file_blocks x (inodes ! j) = file_blocks v (inodes ! j)))"

lemma overwritten_blocks:
  assumes ok: "fs_ok sb v al inodes entries" and k: "file_position ino inodes = Inr k"
    and d: "distinct (map fst ws)" and lt: "\<forall>j \<in> fst ` set ws. j < length (pi_blocks (inodes ! k))"
    and x: "\<And>b. reserved_blocks sb \<le> b \<Longrightarrow> x b = write_all v (map (\<lambda>(j, d). (pi_blocks (inodes ! k) ! j, d)) ws) b"
  shows "overwritten v al inodes entries ino ws x (al, inodes, entries)" and "distinct (map fst (map (\<lambda>(j, d). (pi_blocks (inodes ! k) ! j, d)) ws))"
proof -
  let ?bl = "pi_blocks (inodes ! k)" and ?ws = "map (\<lambda>(j, d). (pi_blocks (inodes ! k) ! j, d)) ws"
  have k': "k < length inodes" using file_position_Inr [OF k] by simp
  note own = fs_okD(10) [OF ok, unfolded ownership_ok_iff [OF fs_okD(7) [OF ok]]]
  have dbl: "distinct ?bl" using own k' by simp
  have fst_ws: "map fst ?ws = map ((!) ?bl) (map fst ws)" by (induction ws) auto
  have "inj_on ((!) ?bl) (set (map fst ws))" using dbl lt by (auto simp: inj_on_def nth_eq_iff_index_eq)
  with d show dw: "distinct (map fst ?ws)" unfolding fst_ws distinct_map [of _ "map fst ws"] by blast
  have at: "write_all v ?ws (?bl ! j) = (case map_of ws j of None \<Rightarrow> v (?bl ! j) | Some d \<Rightarrow> d)" if j: "j < length ?bl" for j
  proof (cases "map_of ws j")
    case None
    then have "j \<notin> fst ` set ws" by (simp add: map_of_eq_None_iff)
    moreover have "a = j" if "?bl ! j = ?bl ! a" "a \<in> fst ` set ws" for a using that lt j dbl nth_eq_iff_index_eq by metis
    ultimately have "?bl ! j \<notin> fst ` set ?ws" by force
    then show ?thesis using None write_all_other by simp
  next
    case (Some e)
    then have "(?bl ! j, e) \<in> set ?ws" by (force dest: map_of_SomeD)
    then show ?thesis using Some write_all_in [OF dw] by simp
  qed
  have fb: "file_blocks x (inodes ! k) ! j = (case map_of ws j of None \<Rightarrow> file_blocks v (inodes ! k) ! j | Some d \<Rightarrow> d)" if "j < length ?bl" for j
    using that at [OF that] x [of "?bl ! j"] fs_ok_owned [OF ok nth_mem [OF k'], of "?bl ! j"] by (simp add: file_blocks_def split: option.split)
  have other: "file_blocks x (inodes ! j) = file_blocks v (inodes ! j)" if jl: "j < length inodes" "j \<noteq> k" for j
  proof -
    have "pi_id (inodes ! j) \<noteq> pi_id (inodes ! k)" using jl k' fs_okD(7) [OF ok] by (auto simp: distinct_conv_nth)
    then have "set (pi_blocks (inodes ! j)) \<inter> set ?bl = {}" using own jl(1) k' by (metis nth_mem)
    then have "x b = v b" if b: "b \<in> set (pi_blocks (inodes ! j))" for b
    proof -
      have "b \<notin> fst ` set ?ws" using \<open>set (pi_blocks (inodes ! j)) \<inter> set ?bl = {}\<close> b lt by (auto simp: image_iff) (metis IntI empty_iff fst_conv image_eqI nth_mem)
      then show ?thesis using x [of b] fs_ok_owned [OF ok nth_mem [OF jl(1)] b] write_all_other by simp
    qed
    then show ?thesis by (simp add: file_blocks_def)
  qed
  show "overwritten v al inodes entries ino ws x (al, inodes, entries)" using k fb other by (simp add: overwritten_def)
qed

section \<open>The overwrites are atomic\<close>

lemma atomic_op_read:
  assumes "\<And>tr. m (v, tr) = (r, v, tr)" and "\<And>y. r = Inr y \<Longrightarrow> atomic_op sb v t (f y) Q"
  shows "atomic_op sb v t (io_bind m f) Q"
  using assms by (cases r) (simp_all add: atomic_op_def io_simps)

lemma data_written_atomic:
  assumes a: "addressable sb" and ok: "fs_ok sb v al inodes entries" and q: "recovers sb v v" and k: "file_position ino inodes = Inr k"
    and d: "distinct (map fst ws)" and lt: "\<forall>j \<in> fst ` set ws. j < length (pi_blocks (inodes ! k))" and len: "\<forall>(j, d) \<in> set ws. length d = BLOCK_SIZE"
  shows "atomic_op sb v (al, inodes, entries) (commit_changed recover_journal_and_checkpoint (trace_device (sb_total_blocks sb)) sb
      (filter (\<lambda>(b, d). v b \<noteq> d) (map (\<lambda>(j, d). (pi_blocks (inodes ! k) ! j, d)) ws))) (\<lambda>_. overwritten v al inodes entries ino ws)"
proof -
  let ?D = "trace_device (sb_total_blocks sb)" and ?ws = "map (\<lambda>(j, d). (pi_blocks (inodes ! k) ! j, d)) ws"
  let ?c = "filter (\<lambda>(b, d). v b \<noteq> d) ?ws"
  note o = overwritten_blocks [OF ok k d lt]
  have eq: "write_all v ?c = write_all v ?ws" by (rule write_all_changed [OF o(2) [OF refl]])
  show ?thesis
  proof (cases "?c = []")
    case True
    then have "write_all v ?ws = v" using eq by simp
    then have "overwritten v al inodes entries ino ws v (al, inodes, entries)" by (intro o(1)) simp
    with True show ?thesis
      by (intro atomic_op_same [OF _ ok q, of _ "\<lparr>committed_transactions = 0, home_writes = 0\<rparr>"]) (simp_all add: commit_changed_def io_return_def)
  next
    case False
    then have run: "commit_changed recover_journal_and_checkpoint ?D sb ?c = publish_and_recover recover_journal_and_checkpoint ?D sb ?c"
      by (simp add: commit_changed_def)
    have k': "inodes ! k \<in> set inodes" "pi_kind (inodes ! k) = File" using file_position_Inr [OF k] by simp_all
    have "file_writes inodes ?c" using k' lt len by (fastforce simp: file_writes_def)
    then have "atomic_op sb v (al, inodes, entries) (publish_and_recover recover_journal_and_checkpoint ?D sb ?c) (\<lambda>_. overwritten v al inodes entries ino ws)"
      (is ?P)
    proof (rule file_data_tx [OF a q ok])
      fix rep x evs
      assume "\<And>tr. publish_and_recover recover_journal_and_checkpoint ?D sb ?c (v, tr) = (Inr rep, x, tr @ evs)"
        and "reaches sb v x evs al inodes entries" and x: "\<And>b. reserved_blocks sb \<le> b \<Longrightarrow> x b = write_all v ?c b"
      moreover have "overwritten v al inodes entries ino ws x (al, inodes, entries)" by (intro o(1)) (use x eq in simp)
      ultimately show ?P by (intro atomic_op_done [OF _ _ ok])
    qed (rule atomic_op_failed)
    then show ?thesis unfolding run .
  qed
qed

lemma write_file_blocks_atomic:
  assumes a: "addressable sb" and ok: "fs_ok sb v al inodes entries" and q: "recovers sb v v" and len: "\<forall>(j, d) \<in> set ws. length d = BLOCK_SIZE"
  shows "atomic_op sb v (al, inodes, entries) (write_file_blocks_journaled (trace_device (sb_total_blocks sb)) sb ino ws)
     (\<lambda>_. overwritten v al inodes entries ino ws)"
proof -
  have v: "disk_ok (sb_total_blocks sb) v" using q by (simp add: recovers_def)
  note l = fs_ok_loads [OF a v ok]
  have "atomic_op sb v (al, inodes, entries) (io_bind (overwrite_loop (trace_device (sb_total_blocks sb)) al (pi_blocks (inodes ! k)) ws {} [])
      (commit_changed recover_journal_and_checkpoint (trace_device (sb_total_blocks sb)) sb)) (\<lambda>_. overwritten v al inodes entries ino ws)"
    if k: "file_position ino inodes = Inr k" for k
  proof -
    have i: "inodes ! k \<in> set inodes" using file_position_Inr [OF k] by simp
    show ?thesis
    proof (rule overwrite_loop_trace [OF a ok i, of ws "{}" "[]"])
      assume d: "distinct (map fst ws)" "\<forall>j \<in> fst ` set ws. j < length (pi_blocks (inodes ! k)) \<and> j \<notin> {}"
        and run: "\<And>tr. overwrite_loop (trace_device (sb_total_blocks sb)) al (pi_blocks (inodes ! k)) ws {} [] (v, tr) =
          (Inr ([] @ filter (\<lambda>(b, d). v b \<noteq> d) (map (\<lambda>(j, d). (pi_blocks (inodes ! k) ! j, d)) ws)), v, tr)"
      show ?thesis
        by (rule atomic_op_read [OF run]) (use data_written_atomic [OF a ok q k d(1) _ len] d(2) in auto)
    qed (rule atomic_op_failed, simp add: io_simps)
  qed
  then show ?thesis unfolding write_file_blocks_journaled_def
    by (intro atomic_op_if atomic_op_fail atomic_op_lift atomic_op_read [OF l(1)] atomic_op_read [OF l(2)]) auto
qed

text \<open>The bytes of one file overwritten from a position on, within its length.\<close>

definition range_written :: "disk \<Rightarrow> block_allocator \<Rightarrow> persisted_inode list \<Rightarrow> directory_entry list \<Rightarrow> u64 \<Rightarrow> nat \<Rightarrow> byte list \<Rightarrow> disk \<Rightarrow> fs_tables \<Rightarrow> bool" where
  "range_written v al inodes entries ino start d x t' \<longleftrightarrow> t' = (al, inodes, entries) \<and>
     (\<exists>k. file_position ino inodes = Inr k \<and> start + length d \<le> pi_byte_len (inodes ! k) \<and>
        file_bytes x (inodes ! k) = put_bytes start d (file_bytes v (inodes ! k)) \<and>
        (\<forall>j < length inodes. j \<noteq> k \<longrightarrow> file_bytes x (inodes ! j) = file_bytes v (inodes ! j)))"

lemma overwritten_range:
  assumes v: "disk_ok (sb_total_blocks sb) v" and ok: "fs_ok sb v al inodes entries" and r: "range_in_file inodes ino first off (length d) k"
    and o: "overwritten v al inodes entries ino (map (\<lambda>j. (first + j, get_bytes ((first + j) * BLOCK_SIZE) BLOCK_SIZE
        (put_bytes (first * BLOCK_SIZE + off) d (concat (file_blocks v (inodes ! k)))))) [0..<div_ceil (off + length d) BLOCK_SIZE]) x t'"
  shows "range_written v al inodes entries ino (first * BLOCK_SIZE + off) d x t'"
proof -
  let ?S = "first * BLOCK_SIZE + off" and ?F = "concat (file_blocks v (inodes ! k))" and ?n = "div_ceil (off + length d) BLOCK_SIZE"
    and ?L = "length (pi_blocks (inodes ! k))"
  let ?G = "put_bytes ?S d ?F"
  from r have k: "file_position ino inodes = Inr k" and le: "?S + length d \<le> pi_byte_len (inodes ! k)" by (simp_all add: range_in_file_def)
  note u = file_blocks_uniform [OF v ok conjunct1 [OF file_position_Inr [OF k]]] and f = file_length [OF ok k] and c = range_checks [OF ok r]
  have cl: "length ?F = ?L * BLOCK_SIZE" using length_concat_uniform [OF u] by (simp add: file_blocks_def)
  have S: "?S + length d \<le> ?L * BLOCK_SIZE" using le f(1) by linarith
  from o k have blocks: "\<And>j. j < ?L \<Longrightarrow> file_blocks x (inodes ! k) ! j = (case map_of (map (\<lambda>j. (first + j, get_bytes ((first + j) * BLOCK_SIZE) BLOCK_SIZE ?G)) [0..<?n]) j of
      None \<Rightarrow> file_blocks v (inodes ! k) ! j | Some d \<Rightarrow> d)"
    and other: "\<And>j. j < length inodes \<Longrightarrow> j \<noteq> k \<Longrightarrow> file_blocks x (inodes ! j) = file_blocks v (inodes ! j)" and t: "t' = (al, inodes, entries)"
    by (auto simp: overwritten_def)
  have chunk: "file_blocks x (inodes ! k) ! j = get_bytes (j * BLOCK_SIZE) BLOCK_SIZE ?G" if j: "j < ?L" for j
  proof (cases "first \<le> j \<and> j < first + ?n")
    case True
    then have "map_of (map (\<lambda>j. (first + j, get_bytes ((first + j) * BLOCK_SIZE) BLOCK_SIZE ?G)) [0..<?n]) j = Some (get_bytes (j * BLOCK_SIZE) BLOCK_SIZE ?G)"
      by (intro map_of_is_SomeI) (auto simp: comp_def distinct_map inj_on_def image_iff intro!: bexI [of _ "j - first"])
    with blocks [OF j] show ?thesis by simp
  next
    case False
    then have none: "map_of (map (\<lambda>j. (first + j, get_bytes ((first + j) * BLOCK_SIZE) BLOCK_SIZE ?G)) [0..<?n]) j = None"
      by (auto simp: map_of_eq_None_iff)
    have "j * BLOCK_SIZE + BLOCK_SIZE \<le> ?S \<or> ?S + length d \<le> j * BLOCK_SIZE"
    proof (cases "j < first")
      case True
      then have "Suc j * BLOCK_SIZE \<le> first * BLOCK_SIZE" by (intro mult_le_mono1) simp
      then show ?thesis by simp
    next
      case False
      with \<open>\<not> (first \<le> j \<and> j < first + ?n)\<close> have "(first + ?n) * BLOCK_SIZE \<le> j * BLOCK_SIZE" by (intro mult_le_mono1) simp
      then show ?thesis using c(6) by (simp add: add_mult_distrib)
    qed
    moreover have "j * BLOCK_SIZE + BLOCK_SIZE \<le> ?L * BLOCK_SIZE" using j mult_le_mono1 [of "Suc j" ?L BLOCK_SIZE] by simp
    ultimately have "get_bytes (j * BLOCK_SIZE) BLOCK_SIZE ?G = get_bytes (j * BLOCK_SIZE) BLOCK_SIZE ?F"
      using S cl by (intro get_put_other) auto
    also have "\<dots> = file_blocks v (inodes ! k) ! j"
      using nth_concat_uniform [OF u, of j] j by (simp add: get_bytes_def file_blocks_def)
    finally show ?thesis using blocks [OF j] none by simp
  qed
  have "file_blocks x (inodes ! k) = map (\<lambda>j. get_bytes (j * BLOCK_SIZE) BLOCK_SIZE ?G) [0..<?L]"
    by (rule nth_equalityI) (use chunk in \<open>simp_all add: file_blocks_def\<close>)
  then have "concat (file_blocks x (inodes ! k)) = ?G"
    using concat_chunks [of ?G ?L BLOCK_SIZE] S cl by (simp add: length_put_bytes)
  then have "file_bytes x (inodes ! k) = put_bytes ?S d (file_bytes v (inodes ! k))"
    using le f(1) cl by (simp add: file_bytes_def take_put_bytes)
  with k le other t show ?thesis by (auto simp: range_written_def file_bytes_def)
qed

lemma write_file_range_atomic:
  assumes a: "addressable sb" and ok: "fs_ok sb v al inodes entries" and q: "recovers sb v v"
  shows "atomic_op sb v (al, inodes, entries) (write_file_range_journaled (trace_device (sb_total_blocks sb)) sb ino first off d)
     (\<lambda>_. range_written v al inodes entries ino (first * BLOCK_SIZE + off) d)"
proof -
  let ?D = "trace_device (sb_total_blocks sb)"
  have v: "disk_ok (sb_total_blocks sb) v" using q by (simp add: recovers_def)
  note l = fs_ok_loads [OF a v ok]
  show ?thesis
  proof (cases "d = [] \<or> off \<ge> BLOCK_SIZE")
    case True
    then show ?thesis by (intro atomic_op_failed [of _ _ InvalidInput]) (auto simp: write_file_range_journaled_def io_simps)
  next
    case guard: False
    show ?thesis
    proof (cases "\<exists>k. range_in_file inodes ino first off (length d) k")
      case False
      with range_refused [of inodes ino first off "length d"] guard
      show ?thesis by (intro atomic_op_failed [of _ _ InvalidInput]) (auto simp: write_file_range_journaled_def io_simps l)
    next
      case True
      then obtain k where r: "range_in_file inodes ino first off (length d) k" by blast
      then have k: "file_position ino inodes = Inr k" and le: "first * BLOCK_SIZE + off + length d \<le> pi_byte_len (inodes ! k)"
        and d: "0 < length d" "off < BLOCK_SIZE" by (simp_all add: range_in_file_def)
      note c = range_checks [OF ok r] and u = file_blocks_uniform [OF v ok conjunct1 [OF file_position_Inr [OF k]]]
      let ?n = "div_ceil (off + length d) BLOCK_SIZE" and ?F = "concat (file_blocks v (inodes ! k))"
      let ?ws = "map (\<lambda>j. (first + j, get_bytes ((first + j) * BLOCK_SIZE) BLOCK_SIZE (put_bytes (first * BLOCK_SIZE + off) d ?F))) [0..<?n]"
      have S: "first * BLOCK_SIZE + off + length d \<le> length (pi_blocks (inodes ! k)) * BLOCK_SIZE" using le file_length(1) [OF ok k] by linarith
      have "(?n - 1) * BLOCK_SIZE < off + length d" if "0 < ?n" using that d(1) by (simp add: div_ceil_def BLOCK_SIZE_def)
      then have "range_images_loop ?D sb ino first off d [0..<0 + ?n] 0 [] (v, tr) = (Inr ([] @ map (\<lambda>j. (first + j, get_bytes ((first + j) * BLOCK_SIZE) BLOCK_SIZE
          (put_bytes (first * BLOCK_SIZE + off) d ?F))) [0..<0 + ?n]), v, tr)" for tr
        by (intro range_images_loop_trace [OF a ok q k _ _ d(2) S refl]) (use c in simp_all)
      then have run: "write_file_range_journaled ?D sb ino first off d (v, tr) = write_file_blocks_journaled ?D sb ino ?ws (v, tr)" for tr
        using guard by (simp add: write_file_range_journaled_def io_simps c(1-3) l)
      have "length (put_bytes (first * BLOCK_SIZE + off) d ?F) = length (pi_blocks (inodes ! k)) * BLOCK_SIZE"
        using S length_concat_uniform [OF u] by (simp add: length_put_bytes file_blocks_def)
      moreover have "(first + j) * BLOCK_SIZE + BLOCK_SIZE \<le> length (pi_blocks (inodes ! k)) * BLOCK_SIZE" if "j < ?n" for j
        using that c(4) mult_le_mono1 [of "Suc (first + j)" "length (pi_blocks (inodes ! k))" BLOCK_SIZE] by simp
      ultimately have "\<forall>(j, e) \<in> set ?ws. length e = BLOCK_SIZE" by (auto simp: length_get_bytes)
      from write_file_blocks_atomic [OF a ok q this, of ino] have "atomic_op sb v (al, inodes, entries) (write_file_blocks_journaled ?D sb ino ?ws)
          (\<lambda>_. range_written v al inodes entries ino (first * BLOCK_SIZE + off) d)"
        by (rule atomic_op_weaken) (rule overwritten_range [OF v ok r])
      then show ?thesis by (simp add: atomic_op_def run)
    qed
  qed
qed

lemma block_writes_atomic:
  assumes a: "addressable sb" and ok: "fs_ok sb v al inodes entries" and q: "recovers sb v v" and len: "length d = BLOCK_SIZE"
  shows "atomic_op sb v (al, inodes, entries) (write_file_block_journaled (trace_device (sb_total_blocks sb)) sb ino n d)
     (\<lambda>_. overwritten v al inodes entries ino [(n, d)])"
proof (cases "\<exists>k. file_position ino inodes = Inr k \<and> n < length (pi_blocks (inodes ! k))")
  case True
  then obtain k where k: "file_position ino inodes = Inr k" and n: "n < length (pi_blocks (inodes ! k))" by blast
  have i: "inodes ! k \<in> set inodes" "pi_blocks (inodes ! k) ! n \<in> set (pi_blocks (inodes ! k))" using file_position_Inr [OF k] n by simp_all
  have "write_file_block_journaled (trace_device (sb_total_blocks sb)) sb ino n d (v, tr) =
      commit_changed recover_journal_and_checkpoint (trace_device (sb_total_blocks sb)) sb
        (filter (\<lambda>(b, d). v b \<noteq> d) (map (\<lambda>(j, d). (pi_blocks (inodes ! k) ! j, d)) [(n, d)])) (v, tr)" for tr
    using fs_ok_owned [OF ok i]
    by (simp add: write_file_block_journaled_def journal_block_image_def commit_changed_def io_simps read_block_trace read_file_block_trace(1) [OF a ok q k n])
  then show ?thesis using data_written_atomic [OF a ok q k, of "[(n, d)]"] n len by (simp add: atomic_op_def)
next
  case False
  then have "\<And>k. file_position ino inodes = Inr k \<Longrightarrow> length (pi_blocks (inodes ! k)) \<le> n" using not_le by blast
  from read_file_block_refused [OF a ok q this] show ?thesis
    by (intro atomic_op_failed [of _ _ InvalidInput]) (simp add: write_file_block_journaled_def io_simps)
qed

lemma range_variants_atomic:
  assumes a: "addressable sb" and ok: "fs_ok sb v al inodes entries" and q: "recovers sb v v"
  shows "atomic_op sb v (al, inodes, entries) (write_file_block_range_journaled (trace_device (sb_total_blocks sb)) sb ino first off d)
     (\<lambda>_. range_written v al inodes entries ino (first * BLOCK_SIZE + off) d)"
    and "atomic_op sb v (al, inodes, entries) (zero_file_range_journaled (trace_device (sb_total_blocks sb)) sb ino first off n)
     (\<lambda>_. range_written v al inodes entries ino (first * BLOCK_SIZE + off) (zeroes n))"
    and "atomic_op sb v (al, inodes, entries) (copy_file_range_journaled (trace_device (sb_total_blocks sb)) sb src dst n)
     (\<lambda>_ x t'. \<exists>k. range_in_file inodes (fre_inode src) (fre_first_block src) (fre_offset src) n k \<and>
        range_written v al inodes entries (fre_inode dst) (fre_first_block dst * BLOCK_SIZE + fre_offset dst)
          (get_bytes (fre_first_block src * BLOCK_SIZE + fre_offset src) n (file_bytes v (inodes ! k))) x t')"
proof -
  note w = write_file_range_atomic [OF assms]
  show "atomic_op sb v (al, inodes, entries) (write_file_block_range_journaled (trace_device (sb_total_blocks sb)) sb ino first off d)
     (\<lambda>_. range_written v al inodes entries ino (first * BLOCK_SIZE + off) d)"
    unfolding write_file_block_range_journaled_def by (intro atomic_op_if atomic_op_fail w)
  show "atomic_op sb v (al, inodes, entries) (zero_file_range_journaled (trace_device (sb_total_blocks sb)) sb ino first off n)
     (\<lambda>_. range_written v al inodes entries ino (first * BLOCK_SIZE + off) (zeroes n))"
    unfolding zero_file_range_journaled_def by (intro atomic_op_if atomic_op_fail w)
  show "atomic_op sb v (al, inodes, entries) (copy_file_range_journaled (trace_device (sb_total_blocks sb)) sb src dst n)
     (\<lambda>_ x t'. \<exists>k. range_in_file inodes (fre_inode src) (fre_first_block src) (fre_offset src) n k \<and>
        range_written v al inodes entries (fre_inode dst) (fre_first_block dst * BLOCK_SIZE + fre_offset dst)
          (get_bytes (fre_first_block src * BLOCK_SIZE + fre_offset src) n (file_bytes v (inodes ! k))) x t')"
  proof (cases "\<exists>k. range_in_file inodes (fre_inode src) (fre_first_block src) (fre_offset src) n k")
    case True
    then obtain k where r: "range_in_file inodes (fre_inode src) (fre_first_block src) (fre_offset src) n k" by blast
    show ?thesis unfolding copy_file_range_journaled_def
      by (rule atomic_op_read [OF read_file_range_trace [OF assms r]]) (use r in \<open>auto intro!: atomic_op_weaken [OF w]\<close>)
  next
    case False
    with read_file_range_refused [OF assms] show ?thesis
      by (intro atomic_op_failed [of _ _ InvalidInput]) (simp add: copy_file_range_journaled_def io_simps)
  qed
qed

text \<open>A range written is the range read afterwards.\<close>

lemma read_after_write:
  assumes a: "addressable sb" and ok: "fs_ok sb v al inodes entries" and q: "recovers sb v v"
    and w: "write_file_range_journaled (trace_device (sb_total_blocks sb)) sb ino first off d (v, []) = (Inr rep, x, tr)"
  shows "read_file_range (trace_device (sb_total_blocks sb)) sb ino first off (length d) (x, tr) = (Inr d, x, tr)"
proof -
  from write_file_range_atomic [OF a ok q, of ino first off d] w obtain k where k: "file_position ino inodes = Inr k"
    and le: "first * BLOCK_SIZE + off + length d \<le> pi_byte_len (inodes ! k)"
    and b: "file_bytes x (inodes ! k) = put_bytes (first * BLOCK_SIZE + off) d (file_bytes v (inodes ! k))"
    and ok': "fs_ok sb x al inodes entries" and q': "recovers sb x x"
    by (auto simp: atomic_op_def range_written_def fs_holds_def)
  have guard: "\<not> (d = [] \<or> off \<ge> BLOCK_SIZE)" using w by (auto simp: write_file_range_journaled_def io_fail_def)
  then have r: "range_in_file inodes ino first off (length d) k" using k le by (simp add: range_in_file_def)
  have v: "disk_ok (sb_total_blocks sb) v" using q by (simp add: recovers_def)
  have "length (file_bytes v (inodes ! k)) = pi_byte_len (inodes ! k)"
    using file_length(1) [OF ok k] length_concat_uniform [OF file_blocks_uniform [OF v ok conjunct1 [OF file_position_Inr [OF k]]]]
    by (simp add: file_bytes_def file_blocks_def)
  then have "get_bytes (first * BLOCK_SIZE + off) (length d) (file_bytes x (inodes ! k)) = d"
    using le by (simp add: b get_put_same)
  with read_file_range_trace [OF a ok' q' r] show ?thesis by simp
qed

end
