(* ===== verification/File_Resize.thy ===== *)
theory File_Resize
  imports File_Data
begin

text \<open>
  Changing the byte length of a file: truncation (\<open>truncate_tx.rs\<close>), growth (\<open>file_append_batch.rs\<close>)
  and the write that may extend the file (\<open>file_extending_write.rs\<close>). They leave the bytes of the last
  block beyond the end of the file zero.
\<close>

section \<open>Truncation and growth\<close>

definition byte_len_to_block_count :: "u64 \<Rightarrow> nat io_result" where
  "byte_len_to_block_count target_bytes = Inr (div_ceil target_bytes BLOCK_SIZE)"

text \<open>The block with everything from an offset on zeroed, if that changes it.\<close>

definition zero_tail_write :: "'d block_device \<Rightarrow> block_allocator \<Rightarrow> u64 \<Rightarrow> nat \<Rightarrow> ('d, block_write list) dev_io" where
  "zero_tail_write D allocator block tail_offset =
     io_bind (io_lift (check_owned allocator block)) (\<lambda>_.
     io_bind (read_block D block) (\<lambda>original.
     let img = put_bytes tail_offset (zeroes (BLOCK_SIZE - tail_offset)) original in
     io_return (if img \<noteq> original then [(block, img)] else [])))"

definition prepare_partial_tail_zero :: "'d block_device \<Rightarrow> block_allocator \<Rightarrow> persisted_inode \<Rightarrow> nat \<Rightarrow> u64 \<Rightarrow> ('d, block_write list) dev_io" where
  "prepare_partial_tail_zero D allocator inode target_blocks target_bytes =
     (let partial_tail = target_bytes mod BLOCK_SIZE in
      if target_blocks = 0 \<or> partial_tail = 0 then io_return []
      else zero_tail_write D allocator (pi_blocks inode ! (target_blocks - 1)) partial_tail)"

definition prepare_existing_tail_zero :: "'d block_device \<Rightarrow> block_allocator \<Rightarrow> persisted_inode \<Rightarrow> u64 \<Rightarrow> ('d, block_write list) dev_io" where
  "prepare_existing_tail_zero D allocator inode current_bytes =
     (let tail_offset = current_bytes mod BLOCK_SIZE in
      if pi_blocks inode = [] \<or> tail_offset = 0 then io_return []
      else zero_tail_write D allocator (last (pi_blocks inode)) tail_offset)"

definition truncate_tables :: "nat \<Rightarrow> nat \<Rightarrow> u64 \<Rightarrow> block_allocator \<Rightarrow> persisted_inode list \<Rightarrow>
    (u64 list \<times> block_allocator \<times> persisted_inode list) io_result" where
  "truncate_tables k target_blocks target_bytes allocator inodes =
     res_bind (splice_inode k target_blocks (length (pi_blocks (inodes ! k))) [] inodes) (\<lambda>(released, inodes').
     res_bind (resize_inode k target_bytes inodes') (\<lambda>inodes''.
     res_bind (free_blocks_in InvalidData released allocator) (\<lambda>allocator'.
     Inr (released, allocator', inodes''))))"

definition prepare_byte_truncate_plan ::
    "'d block_device \<Rightarrow> superblock \<Rightarrow> u64 \<Rightarrow> u64 \<Rightarrow>
     ('d, (u64 list \<times> block_allocator \<times> persisted_inode list \<times> block_write list) option) dev_io" where
  "prepare_byte_truncate_plan D sb ino target_bytes =
     io_bind (load_allocator D sb) (\<lambda>allocator.
     io_bind (load_inode_table D sb) (\<lambda>inodes.
     io_bind (io_lift (file_position ino inodes)) (\<lambda>k.
     io_bind (io_lift (map_err (\<lambda>_. InvalidData) (canonical_byte_len (inodes ! k)))) (\<lambda>current_bytes.
     if target_bytes > current_bytes then io_fail InvalidInput
     else if target_bytes = current_bytes then io_return None
     else
     io_bind (io_lift (byte_len_to_block_count target_bytes)) (\<lambda>target_blocks.
     if target_blocks > length (pi_blocks (inodes ! k)) then io_fail InvalidData
     else
     io_bind (io_lift (validate_owned allocator (drop target_blocks (pi_blocks (inodes ! k))))) (\<lambda>_.
     io_bind (prepare_partial_tail_zero D allocator (inodes ! k) target_blocks target_bytes) (\<lambda>final_data_write.
     io_bind (io_lift (truncate_tables k target_blocks target_bytes allocator inodes)) (\<lambda>(released, allocator', inodes').
     io_return (Some (released, allocator', inodes', final_data_write))))))))))"

definition truncate_file_to_bytes_journaled :: "'d block_device \<Rightarrow> superblock \<Rightarrow> u64 \<Rightarrow> u64 \<Rightarrow> ('d, u64 list \<times> recovery_report) dev_io" where
  "truncate_file_to_bytes_journaled D sb ino target_bytes =
     io_bind (prepare_byte_truncate_plan D sb ino target_bytes) (\<lambda>plan.
     case plan of
       None \<Rightarrow> io_return ([], \<lparr>committed_transactions = 0, home_writes = 0\<rparr>)
     | Some (released, allocator, inodes, final_data_write) \<Rightarrow>
         io_bind (publish_file_update D sb allocator inodes final_data_write) (\<lambda>report.
         io_return (released, report)))"

definition grow_tables :: "nat \<Rightarrow> nat \<Rightarrow> u64 \<Rightarrow> block_allocator \<Rightarrow> persisted_inode list \<Rightarrow>
    (u64 list \<times> block_allocator \<times> persisted_inode list) io_result" where
  "grow_tables k additional target_bytes allocator inodes =
     (let current_blocks = length (pi_blocks (inodes ! k)) in
      res_bind (allocate_blocks additional allocator) (\<lambda>(allocated, allocator').
      res_bind (if allocated \<noteq> [] then splice_inode k current_blocks current_blocks allocated inodes else Inr ([], inodes)) (\<lambda>(_, inodes').
      res_bind (resize_inode k target_bytes inodes') (\<lambda>inodes''.
      Inr (allocated, allocator', inodes'')))))"

definition prepare_byte_grow_plan ::
    "'d block_device \<Rightarrow> superblock \<Rightarrow> u64 \<Rightarrow> u64 \<Rightarrow>
     ('d, u64 list \<times> block_allocator \<times> persisted_inode list \<times> block_write list) dev_io" where
  "prepare_byte_grow_plan D sb ino target_bytes =
     io_bind (load_allocator D sb) (\<lambda>allocator.
     io_bind (load_inode_table D sb) (\<lambda>inodes.
     io_bind (io_lift (file_position ino inodes)) (\<lambda>k.
     io_bind (io_lift (map_err (\<lambda>_. InvalidData) (canonical_byte_len (inodes ! k)))) (\<lambda>current_bytes.
     if target_bytes \<le> current_bytes then io_fail InvalidInput
     else
     io_bind (io_lift (byte_len_to_block_count target_bytes)) (\<lambda>target_blocks.
     if target_blocks < length (pi_blocks (inodes ! k)) then io_fail InvalidData
     else
     io_bind (prepare_existing_tail_zero D allocator (inodes ! k) current_bytes) (\<lambda>existing_tail_write.
     io_bind (io_lift (grow_tables k (target_blocks - length (pi_blocks (inodes ! k))) target_bytes allocator inodes)) (\<lambda>(allocated, allocator', inodes').
     io_return (allocated, allocator', inodes', existing_tail_write))))))))"

definition grow_file_to_bytes_journaled :: "'d block_device \<Rightarrow> superblock \<Rightarrow> u64 \<Rightarrow> u64 \<Rightarrow> ('d, u64 list \<times> recovery_report) dev_io" where
  "grow_file_to_bytes_journaled D sb ino target_bytes =
     io_bind (prepare_byte_grow_plan D sb ino target_bytes) (\<lambda>(allocated, allocator, inodes, existing_tail_write).
     io_bind (publish_file_update D sb allocator inodes (existing_tail_write @ map (\<lambda>block. (block, zeroes BLOCK_SIZE)) allocated)) (\<lambda>report.
     io_return (allocated, report)))"

section \<open>The extending write\<close>

definition zero_intersection :: "nat \<Rightarrow> nat \<Rightarrow> nat \<Rightarrow> nat \<Rightarrow> byte list \<Rightarrow> byte list" where
  "zero_intersection block_start block_end range_start range_stop img =
     (let start = max block_start range_start; stop = min block_end range_stop in
      if start \<ge> stop then img else put_bytes (start - block_start) (zeroes (stop - start)) img)"

definition copy_intersection :: "nat \<Rightarrow> nat \<Rightarrow> nat \<Rightarrow> nat \<Rightarrow> byte list \<Rightarrow> byte list \<Rightarrow> byte list" where
  "copy_intersection block_start block_end write_start write_end d img =
     (let start = max block_start write_start; stop = min block_end write_end in
      if start \<ge> stop then img
      else put_bytes (start - block_start) (get_bytes (start - write_start) (stop - start) d) img)"

definition load_candidate_block ::
    "'d block_device \<Rightarrow> block_allocator \<Rightarrow> u64 \<Rightarrow> nat \<Rightarrow> nat \<Rightarrow> ('d, byte list \<times> byte list option) dev_io" where
  "load_candidate_block D allocator physical_block logical_index current_blocks =
     (if logical_index \<ge> current_blocks then io_return (zeroes BLOCK_SIZE, None)
      else
      io_bind (io_lift (check_owned allocator physical_block)) (\<lambda>_.
      io_bind (read_block D physical_block) (\<lambda>current.
      io_return (current, Some current))))"

definition block_bounds :: "nat \<Rightarrow> (nat \<times> nat) io_result" where
  "block_bounds logical_index =
     res_bind (ok_or InvalidInput (checked_mul logical_index BLOCK_SIZE_U64)) (\<lambda>block_start.
     res_bind (ok_or InvalidInput (checked_add block_start BLOCK_SIZE_U64)) (\<lambda>block_end.
     Inr (block_start, block_end)))"

definition extend_image :: "nat \<Rightarrow> nat \<Rightarrow> nat \<Rightarrow> byte list \<Rightarrow> nat \<times> nat \<Rightarrow> byte list \<Rightarrow> byte list" where
  "extend_image current_eof start_offset end_offset d bounds img =
     (case bounds of (block_start, block_end) \<Rightarrow>
      let img1 = (if start_offset > current_eof then zero_intersection block_start block_end current_eof start_offset img else img);
          img2 = copy_intersection block_start block_end start_offset end_offset d img1 in
      if end_offset < block_end then zero_intersection block_start block_end end_offset block_end img2 else img2)"

definition prepare_data_writes ::
    "'d block_device \<Rightarrow> block_allocator \<Rightarrow> persisted_inode \<Rightarrow> nat \<Rightarrow> nat \<Rightarrow> nat \<Rightarrow> nat \<Rightarrow> byte list \<Rightarrow> ('d, block_write list) dev_io" where
  "prepare_data_writes D allocator inode current_blocks current_eof start_offset end_offset d =
     (let first_changed_block = min current_eof start_offset div BLOCK_SIZE in
      io_bind (io_lift (byte_len_to_block_count end_offset)) (\<lambda>end_block.
      io_bind (io_map [first_changed_block..<end_block] (\<lambda>logical_index.
        let physical_block = pi_blocks inode ! logical_index in
        io_bind (load_candidate_block D allocator physical_block logical_index current_blocks) (\<lambda>(img, current_image).
        io_bind (io_lift (block_bounds logical_index)) (\<lambda>bounds.
        let img' = extend_image current_eof start_offset end_offset d bounds img in
        io_return (if current_image \<noteq> Some img' then [(physical_block, img')] else []))))) (\<lambda>writes.
      io_return (concat writes))))"

datatype write_plan =
    Overwrite nat nat
  | Extend block_allocator "persisted_inode list" "u64 list" "block_write list"

definition prepare_write_plan :: "'d block_device \<Rightarrow> superblock \<Rightarrow> u64 \<Rightarrow> u64 \<Rightarrow> u64 \<Rightarrow> byte list \<Rightarrow> ('d, write_plan) dev_io" where
  "prepare_write_plan D sb ino start_offset end_offset d =
     io_bind (load_allocator D sb) (\<lambda>allocator.
     io_bind (load_inode_table D sb) (\<lambda>inodes.
     io_bind (io_lift (file_position ino inodes)) (\<lambda>k.
     io_bind (io_lift (map_err (\<lambda>_. InvalidData) (canonical_byte_len (inodes ! k)))) (\<lambda>current_eof.
     if end_offset \<le> current_eof then io_return (Overwrite (start_offset div BLOCK_SIZE) (start_offset mod BLOCK_SIZE))
     else
     io_bind (io_lift (byte_len_to_block_count end_offset)) (\<lambda>target_blocks.
     let current_blocks = length (pi_blocks (inodes ! k)) in
     if target_blocks < current_blocks then io_fail InvalidData
     else
     io_bind (io_lift (grow_tables k (target_blocks - current_blocks) end_offset allocator inodes)) (\<lambda>(allocated, allocator', inodes').
     io_bind (prepare_data_writes D allocator' (inodes' ! k) current_blocks current_eof start_offset end_offset d) (\<lambda>data_writes.
     io_return (Extend allocator' inodes' allocated data_writes))))))))"

definition write_file_range_extending_journaled ::
    "'d block_device \<Rightarrow> superblock \<Rightarrow> u64 \<Rightarrow> u64 \<Rightarrow> byte list \<Rightarrow> ('d, u64 list \<times> recovery_report) dev_io" where
  "write_file_range_extending_journaled D sb ino start_offset d =
     (if d = [] then io_fail InvalidInput
      else
      io_bind (io_lift (ok_or InvalidInput (checked_add start_offset (length d)))) (\<lambda>end_offset.
      io_bind (prepare_write_plan D sb ino start_offset end_offset d) (\<lambda>plan.
      case plan of
        Overwrite first_block_index block_off \<Rightarrow>
          io_bind (write_file_range_journaled D sb ino first_block_index block_off d) (\<lambda>report. io_return ([], report))
      | Extend allocator inodes allocated data_writes \<Rightarrow>
          io_bind (publish_file_update D sb allocator inodes data_writes) (\<lambda>report. io_return (allocated, report)))))"

section \<open>The contents of the new blocks\<close>

text \<open>What block \<open>n\<close> holds when the file is cut at \<open>c\<close> and padded with zeros.\<close>

lemma padded_chunk:
  assumes u: "\<forall>x \<in> set xs. length x = N" and c: "c \<le> length xs * N" and n: "n * N + N \<le> c + z" and N: "0 < N"
  shows "n * N + N \<le> c \<Longrightarrow> get_bytes (n * N) N (take c (concat xs) @ zeroes z) = xs ! n"
    and "c \<le> n * N \<Longrightarrow> get_bytes (n * N) N (take c (concat xs) @ zeroes z) = zeroes N"
    and "n < length xs \<Longrightarrow> n * N \<le> c \<Longrightarrow> c \<le> n * N + N \<Longrightarrow>
      get_bytes (n * N) N (take c (concat xs) @ zeroes z) = put_bytes (c - n * N) (zeroes (N - (c - n * N))) (xs ! n)"
proof -
  have len: "length (take c (concat xs)) = c" using c length_concat_uniform [OF u] by simp
  have chunk: "take N (drop (n * N) (concat xs)) = xs ! n" if "n < length xs" by (rule nth_concat_uniform [OF u that])
  show "get_bytes (n * N) N (take c (concat xs) @ zeroes z) = xs ! n" if le: "n * N + N \<le> c"
  proof -
    have "Suc n * N \<le> length xs * N" using le c by simp
    then have "n < length xs" using N by (simp only: mult_le_cancel2) simp
    moreover have "get_bytes (n * N) N (take c (concat xs) @ zeroes z) = take N (drop (n * N) (take c (concat xs)))"
      using le len by (simp add: get_bytes_def del: length_take)
    moreover have "N \<le> c - n * N" using le by simp
    ultimately show ?thesis using chunk by (simp add: drop_take min_absorb1)
  qed
  show "get_bytes (n * N) N (take c (concat xs) @ zeroes z) = zeroes N" if "c \<le> n * N"
  proof -
    have "N \<le> z - (n * N - c)" using that n by linarith
    then show ?thesis using that len by (simp add: get_bytes_def drop_zeroes take_zeroes min_absorb1 del: length_take)
  qed
  show "get_bytes (n * N) N (take c (concat xs) @ zeroes z) = put_bytes (c - n * N) (zeroes (N - (c - n * N))) (xs ! n)"
    if "n < length xs" "n * N \<le> c" "c \<le> n * N + N"
  proof -
    have x: "length (xs ! n) = N" using u that(1) by simp
    have "take (c - n * N) (xs ! n) = take (c - n * N) (drop (n * N) (concat xs))"
      unfolding chunk [OF that(1), symmetric] using that by (simp add: min_def)
    moreover have "get_bytes (n * N) N (take c (concat xs) @ zeroes z) = take (c - n * N) (drop (n * N) (concat xs)) @ zeroes (N - (c - n * N))"
    proof -
      let ?A = "take c (concat xs)"
      have "take N (drop (n * N) (?A @ zeroes z)) = take N (drop (n * N) ?A @ zeroes z)" using that(2) len by (simp del: length_take)
      also have "\<dots> = drop (n * N) ?A @ take (N - (c - n * N)) (zeroes z)" using that(2,3) len by (simp del: length_take)
      also have "take (N - (c - n * N)) (zeroes z) = zeroes (N - (c - n * N))"
      proof -
        have "N - (c - n * N) \<le> z" using that(2) n by linarith
        then show ?thesis by (simp add: take_zeroes min_absorb1)
      qed
      finally show ?thesis by (simp add: get_bytes_def drop_take)
    qed
    ultimately show ?thesis using that x by (simp add: put_bytes_def)
  qed
qed

lemma nth_zero_intersection:
  assumes "length img = e - s" and "s \<le> e" and "j < e - s"
  shows "zero_intersection s e a b img ! j = (if a \<le> s + j \<and> s + j < b then 0 else img ! j)" and "length (zero_intersection s e a b img) = length img"
proof -
  show "length (zero_intersection s e a b img) = length img"
    using assms by (auto simp: zero_intersection_def Let_def length_put_bytes max_def min_def)
  have *: "zeroes n ! i = 0" if "i < n" for i n using that by (simp add: zeroes_def)
  show "zero_intersection s e a b img ! j = (if a \<le> s + j \<and> s + j < b then 0 else img ! j)"
    using assms by (auto simp: zero_intersection_def Let_def nth_put_bytes * max_def min_def)
qed

lemma nth_copy_intersection:
  assumes "length img = e - s" and "s \<le> e" and "j < e - s" and "b = a + length d"
  shows "copy_intersection s e a b d img ! j = (if a \<le> s + j \<and> s + j < b then d ! (s + j - a) else img ! j)"
    and "length (copy_intersection s e a b d img) = length img"
proof -
  have lg: "length (get_bytes (max s a - a) (min e b - max s a) d) = min e b - max s a" if "max s a < min e b"
    using that assms(4) by (intro length_get_bytes) auto
  show "length (copy_intersection s e a b d img) = length img"
    using assms lg by (auto simp: copy_intersection_def Let_def length_put_bytes max_def min_def)
  show "copy_intersection s e a b d img ! j = (if a \<le> s + j \<and> s + j < b then d ! (s + j - a) else img ! j)"
  proof (cases "max s a < min e b")
    case True
    let ?g = "get_bytes (max s a - a) (min e b - max s a) d"
    have "?g ! (j - (max s a - s)) = d ! (s + j - a)" if "max s a \<le> s + j" "s + j < min e b"
    proof -
      have "?g ! (j - (max s a - s)) = d ! (max s a - a + (j - (max s a - s)))"
        using that assms(4) by (intro nth_byte_range) (auto simp: max_def min_def)
      also have "max s a - a + (j - (max s a - s)) = s + j - a" using that by (auto simp: max_def)
      finally show ?thesis .
    qed
    moreover have "copy_intersection s e a b d img ! j = (if max s a - s \<le> j \<and> j < max s a - s + length ?g then ?g ! (j - (max s a - s)) else img ! j)"
    proof -
      have "\<not> max s a \<ge> min e b" using True by linarith
      then have "copy_intersection s e a b d img = put_bytes (max s a - s) ?g img" by (simp only: copy_intersection_def Let_def if_False)
      moreover have "max s a - s + length ?g \<le> length img" unfolding lg [OF True] assms(1) using True by linarith
      ultimately show ?thesis using assms(1,3) by (simp only: nth_put_bytes)
    qed
    moreover have "max s a - s \<le> j \<and> j < max s a - s + length ?g \<longleftrightarrow> a \<le> s + j \<and> s + j < b"
      using True assms lg [OF True] by (auto simp: max_def min_def)
    ultimately show ?thesis using assms(3) by (auto simp: max_def min_def)
  next
    case False
    then have "\<not> (a \<le> s + j \<and> s + j < b)" using assms(2,3) by linarith
    moreover have "copy_intersection s e a b d img = img" using False by (simp only: copy_intersection_def Let_def not_less if_True)
    ultimately show ?thesis by auto
  qed
qed

text \<open>The three steps on one block give that block of the file with the data written over the padded contents.\<close>

lemma extend_image_chunk:
  assumes img: "length img = N" and f: "\<And>j. j < N \<Longrightarrow> n * N + j < c \<Longrightarrow> img ! j = F ! (n * N + j)"
    and c: "c \<le> length F" "c < s + length d" and M: "n < M" "s + length d \<le> M * N" "0 < N"
  shows "extend_image c s (s + length d) d (n * N, n * N + N) img = get_bytes (n * N) N (put_bytes s d (take c F @ zeroes (M * N - c)))"
    (is "?l = ?r")
proof (rule nth_equalityI)
  let ?b = "n * N" and ?W = "put_bytes s d (take c F @ zeroes (M * N - c))"
  have bM: "?b + N \<le> M * N" using M(1) mult_le_mono1 [of "Suc n" M N] by simp
  have lw: "length (take c F @ zeroes (M * N - c)) = M * N" using c M(2) by simp
  have lr: "length ?r = N" using lw bM M(2) by (simp add: length_get_bytes length_put_bytes)
  note z = nth_zero_intersection [where s = ?b and e = "?b + N"] and k = nth_copy_intersection [where s = ?b and e = "?b + N"]
  have ll: "length ?l = N" using img M(3) z(2) [of _ 0] k(2) [of _ 0] by (simp add: extend_image_def Let_def)
  then show "length ?l = length ?r" using lr by simp
  fix j assume "j < length ?l"
  then have j: "j < N" using ll by simp
  define img1 where "img1 = (if s > c then zero_intersection ?b (?b + N) c s img else img)"
  have i1: "length img1 = N" "img1 ! j = (if c \<le> ?b + j \<and> ?b + j < s then 0 else img ! j)"
    using z [of img j c s] img j by (auto simp: img1_def)
  define img2 where "img2 = copy_intersection ?b (?b + N) s (s + length d) d img1"
  have i2: "length img2 = N" "img2 ! j = (if s \<le> ?b + j \<and> ?b + j < s + length d then d ! (?b + j - s) else img1 ! j)"
    using k [of img1 j "s + length d" s d] i1(1) j by (auto simp: img2_def)
  have "?l = (if s + length d < ?b + N then zero_intersection ?b (?b + N) (s + length d) (?b + N) img2 else img2)"
    by (simp add: extend_image_def img1_def img2_def Let_def)
  then have "?l ! j = (if s + length d \<le> ?b + j then 0 else img2 ! j)"
    using z [of img2 j "s + length d" "?b + N"] i2(1) j by auto
  also have "\<dots> = (if s \<le> ?b + j \<and> ?b + j < s + length d then d ! (?b + j - s) else if ?b + j < c then F ! (?b + j) else 0)"
    using i1(2) i2(2) f [OF j] c(2) by auto
  also have "\<dots> = ?W ! (?b + j)"
    using lw M(2) bM j c(1) by (auto simp: nth_put_bytes nth_append zeroes_def)
  also have "\<dots> = ?r ! j" using lw M(2) bM j by (simp add: nth_byte_range length_put_bytes)
  finally show "?l ! j = ?r ! j" .
qed

section \<open>The new tables and contents\<close>

lemma resized_tables:
  assumes s: "spliced_tables al inodes k lo hi rs al' inodes1" and r: "resize_inode k n inodes1 = Inr inodes2"
  shows "spliced_tables al inodes k lo hi rs al' inodes2" and "pi_byte_len (inodes2 ! k) = n"
proof -
  from s obtain i where i: "k < length inodes" "inodes1 = inodes[k := i]" "pi_id i = pi_id (inodes ! k)" "pi_kind i = File"
    "pi_blocks i = take lo (pi_blocks (inodes ! k)) @ rs @ drop hi (pi_blocks (inodes ! k))" by (auto simp: spliced_tables_def)
  from r i obtain u i' where set_len: "set_file_byte_len n i = (Inr u, i')" and eq: "inodes2 = inodes[k := i']"
    by (auto simp: resize_inode_def split: prod.splits sum.splits)
  have "inode_ok i' \<and> i' = i\<lparr>pi_byte_len := n\<rparr>" by (rule set_file_byte_len_Inr [OF set_len])
  with s i eq show "spliced_tables al inodes k lo hi rs al' inodes2" "pi_byte_len (inodes2 ! k) = n"
    by (auto simp: spliced_tables_def)
qed

lemma grow_tables_spliced:
  assumes ok: "fs_ok sb v al inodes entries" and k: "k < length inodes" "pi_kind (inodes ! k) = File"
    and g: "grow_tables k n target al inodes = Inr (rs, al', inodes')"
  shows "spliced_tables al inodes k (length (pi_blocks (inodes ! k))) (length (pi_blocks (inodes ! k))) rs al' inodes'"
    and "pi_byte_len (inodes' ! k) = target" and "length rs = n"
proof -
  let ?L = "length (pi_blocks (inodes ! k))"
  from g obtain inodes1 ds where al: "allocate_blocks n al = Inr (rs, al')" and r: "resize_inode k target inodes1 = Inr inodes'"
    and s: "if rs \<noteq> [] then splice_inode k ?L ?L rs inodes = Inr (ds, inodes1) else inodes1 = inodes"
    by (auto simp: grow_tables_def Let_def res_bind_Inr split: if_splits)
  note a = first_fit.alloc_ok [OF fs_okD(4) [OF ok] al]
  have "spliced_tables al inodes k ?L ?L rs al' inodes1"
  proof (cases "rs = []")
    case True
    with a s k fs_okD(8) [OF ok] show ?thesis by (auto simp: spliced_tables_def block_slice_def intro!: exI [of _ "inodes ! k"])
  next
    case False
    with s al have "add_blocks allocate_blocks k ?L n al inodes = Inr (rs, al', inodes1)" by (simp add: add_blocks_def)
    from first_fit.add_blocks_spliced [OF ok k this] show ?thesis by blast
  qed
  from resized_tables [OF this r] a show "spliced_tables al inodes k ?L ?L rs al' inodes'" "pi_byte_len (inodes' ! k) = target" "length rs = n"
    by simp_all
qed

lemma truncate_tables_spliced:
  assumes ok: "fs_ok sb v al inodes entries" and k: "k < length inodes" "pi_kind (inodes ! k) = File"
    and g: "truncate_tables k n target al inodes = Inr (ds, al', inodes')"
  shows "spliced_tables al inodes k n (length (pi_blocks (inodes ! k))) [] al' inodes'"
    and "pi_byte_len (inodes' ! k) = target" and "ds = drop n (pi_blocks (inodes ! k))"
proof -
  from g obtain inodes1 where "splice_inode k n (length (pi_blocks (inodes ! k))) [] inodes = Inr (ds, inodes1)"
    and r: "resize_inode k target inodes1 = Inr inodes'" and "free_blocks_in InvalidData ds al = Inr al'"
    by (auto simp: truncate_tables_def res_bind_Inr)
  then have "release_blocks k n (length (pi_blocks (inodes ! k))) al inodes = Inr (ds, al', inodes1)" by (simp add: release_blocks_def)
  from release_blocks_spliced [OF ok k this] resized_tables [OF _ r]
  show "spliced_tables al inodes k n (length (pi_blocks (inodes ! k))) [] al' inodes'" "pi_byte_len (inodes' ! k) = target"
    "ds = drop n (pi_blocks (inodes ! k))" by (simp_all add: block_slice_def)
qed

text \<open>The file holds the given bytes and then zeros up to the end of its last block.\<close>

definition resized :: "disk \<Rightarrow> persisted_inode list \<Rightarrow> directory_entry list \<Rightarrow> u64 \<Rightarrow> (byte list \<Rightarrow> byte list) \<Rightarrow> disk \<Rightarrow> fs_tables \<Rightarrow> bool" where
  "resized v inodes entries ino f x t' \<longleftrightarrow> (case t' of (al', inodes', entries') \<Rightarrow> entries' = entries \<and>
     (\<exists>k i. file_position ino inodes = Inr k \<and> inodes' = inodes[k := i] \<and> pi_id i = pi_id (inodes ! k) \<and> pi_kind i = File \<and>
        pi_byte_len i = length (f (file_bytes v (inodes ! k))) \<and>
        concat (file_blocks x i) = f (file_bytes v (inodes ! k)) @ zeroes (tail_slack i) \<and>
        (\<forall>j < length inodes. j \<noteq> k \<longrightarrow> file_bytes x (inodes ! j) = file_bytes v (inodes ! j))))"

lemma resized_bytes:
  assumes "resized v inodes entries ino f x (al', inodes', entries')" and "file_position ino inodes = Inr k"
  shows "file_bytes x (inodes' ! k) = f (file_bytes v (inodes ! k))"
  using assms file_position_Inr [OF assms(2)] by (auto simp: resized_def file_bytes_def)

lemma resize_tx:
  assumes a: "addressable sb" and ok: "fs_ok sb v al inodes entries" and q: "recovers sb v v" and k: "file_position ino inodes = Inr k"
    and s: "spliced_tables al inodes k lo hi rs al' inodes'"
    and ws: "distinct (map fst ws)" "fst ` set ws \<subseteq> set (pi_blocks (inodes' ! k))" "\<forall>(b, d) \<in> set ws. length d = BLOCK_SIZE"
    and chunks: "\<And>j. j < length (pi_blocks (inodes' ! k)) \<Longrightarrow>
       (pi_blocks (inodes' ! k) ! j, get_bytes (j * BLOCK_SIZE) BLOCK_SIZE W) \<in> set ws \<or>
       pi_blocks (inodes' ! k) ! j \<notin> fst ` set ws \<and> v (pi_blocks (inodes' ! k) ! j) = get_bytes (j * BLOCK_SIZE) BLOCK_SIZE W"
    and W: "W = f (file_bytes v (inodes ! k)) @ zeroes (tail_slack (inodes' ! k))" "pi_byte_len (inodes' ! k) = length (f (file_bytes v (inodes ! k)))"
  shows "atomic_op sb v (al, inodes, entries) (publish_file_update (trace_device (sb_total_blocks sb)) sb al' inodes' ws)
     (\<lambda>_. resized v inodes entries ino f)" (is "atomic_op sb v _ ?op ?Q")
proof -
  let ?bl = "pi_blocks (inodes' ! k)"
  from s obtain i where i: "k < length inodes" "inodes' = inodes[k := i]" "pi_id i = pi_id (inodes ! k)" "pi_kind i = File" "inode_ok i"
    by (auto simp: spliced_tables_def)
  have ik: "inodes' ! k = i" "i \<in> set inodes'" using i(1,2) by (simp_all add: set_update_memI)
  note u = spliced_update(1) [OF ok s]
  have fw: "file_writes inodes' ws" using ws(2,3) ik i(4) by (fastforce simp: file_writes_def)
  have own: "ownership_ok sb al' inodes'" "allocator_inv al'" "map pi_id inodes' = map pi_id inodes" using u by (auto simp: file_update_def)
  have d': "distinct (map pi_id inodes')" using own(3) fs_okD(7) [OF ok] by simp
  note o = own(1) [unfolded ownership_ok_iff [OF d']]
  have wb: "x b = write_all v ws b" if "reaches sb v x evs al' inodes' entries" "\<And>b. reserved_blocks sb \<le> b \<Longrightarrow> x b = write_all v ws b"
      "j \<in> set inodes'" "b \<in> set (pi_blocks j)" for x evs j b
    using that(2) [of b] fs_ok_owned [OF reachesD(1) [OF that(1)] that(3,4)] by simp
  show ?thesis
  proof (rule file_update_tx [OF a q ok u fw])
    fix rep x evs
    assume run: "\<And>tr. ?op (v, tr) = (Inr rep, x, tr @ evs)" and re: "reaches sb v x evs al' inodes' entries"
      and x: "\<And>b. reserved_blocks sb \<le> b \<Longrightarrow> x b = write_all v ws b"
    have "file_blocks x i ! j = get_bytes (j * BLOCK_SIZE) BLOCK_SIZE W" if j: "j < length ?bl" for j
    proof -
      have "x (?bl ! j) = write_all v ws (?bl ! j)" by (rule wb [OF re x ik(2)]) (use j ik(1) in simp_all)
      also have "\<dots> = get_bytes (j * BLOCK_SIZE) BLOCK_SIZE W" using chunks [OF j] write_all_in [OF ws(1)] write_all_other by metis
      finally show ?thesis using j ik(1) by (simp add: file_blocks_def)
    qed
    then have "file_blocks x i = map (\<lambda>j. get_bytes (j * BLOCK_SIZE) BLOCK_SIZE W) [0..<length ?bl]"
      by (intro nth_equalityI) (use ik(1) in \<open>simp_all add: file_blocks_def\<close>)
    moreover have "length W = length ?bl * BLOCK_SIZE"
      using W i(4,5) ik(1) by (auto simp: tail_slack_def inode_ok_def split: if_splits)
    ultimately have "concat (file_blocks x i) = W" by (simp add: concat_chunks)
    moreover have "file_bytes x (inodes ! j) = file_bytes v (inodes ! j)" if j: "j < length inodes" "j \<noteq> k" for j
    proof -
      have jm: "inodes' ! j = inodes ! j" "inodes ! j \<in> set inodes'" using i(1,2) j by (auto simp: set_conv_nth intro!: exI [of _ j])
      have "pi_id (inodes ! j) \<noteq> pi_id i" using j i(1,3) fs_okD(7) [OF ok] by (auto simp: distinct_conv_nth)
      with o jm(2) ik(2) have dj: "set (pi_blocks (inodes ! j)) \<inter> set (pi_blocks i) = {}" by blast
      have "x b = v b" if b: "b \<in> set (pi_blocks (inodes ! j))" for b
      proof -
        have "b \<notin> fst ` set ws" using dj b ws(2) ik(1) by auto
        then show ?thesis using wb [OF re x jm(2) b] write_all_other by metis
      qed
      then show ?thesis by (simp add: file_bytes_def file_blocks_def cong: map_cong)
    qed
    ultimately have "resized v inodes entries ino f x (al', inodes', entries)"
      using k i W ik(1) by (auto simp: resized_def)
    then show ?thesis using run re by (intro atomic_op_done [OF _ _ ok])
  qed (rule atomic_op_failed)
qed

section \<open>Truncation and growth are atomic\<close>

definition tail_writes :: "disk \<Rightarrow> u64 list \<Rightarrow> nat \<Rightarrow> nat \<Rightarrow> block_write list" where
  "tail_writes v bl n c =
     (if n = 0 \<or> c mod BLOCK_SIZE = 0 then []
      else let img = put_bytes (c mod BLOCK_SIZE) (zeroes (BLOCK_SIZE - c mod BLOCK_SIZE)) (v (bl ! (n - 1))) in
        if img \<noteq> v (bl ! (n - 1)) then [(bl ! (n - 1), img)] else [])"

lemma tail_writes_simps:
  "distinct (map fst (tail_writes v bl n c))" "n \<le> length bl \<Longrightarrow> fst ` set (tail_writes v bl n c) \<subseteq> set (take n bl)"
  "(b, d) \<in> set (tail_writes v bl n c) \<Longrightarrow> length (v b) = BLOCK_SIZE \<Longrightarrow> length d = BLOCK_SIZE"
  by (auto simp: tail_writes_def Let_def length_put_bytes in_set_conv_nth min_def BLOCK_SIZE_def split: if_splits intro!: exI [of _ "n - 1"])

lemma partial_tail_zero_trace:
  assumes ok: "fs_ok sb v al inodes entries" and i: "i \<in> set inodes" and n: "n \<le> length (pi_blocks i)"
  shows "prepare_partial_tail_zero (trace_device (sb_total_blocks sb)) al i n c (v, tr) = (Inr (tail_writes v (pi_blocks i) n c), v, tr)"
proof (cases "n = 0 \<or> c mod BLOCK_SIZE = 0")
  case False
  then have b: "pi_blocks i ! (n - 1) \<in> set (pi_blocks i)" using n by (intro nth_mem) linarith
  have r: "check_owned al (pi_blocks i ! (n - 1)) = Inr ()"
    "read_block (trace_device (sb_total_blocks sb)) (pi_blocks i ! (n - 1)) (v, tr) = (Inr (v (pi_blocks i ! (n - 1))), v, tr)" for tr
    using fs_ok_owned [OF ok i b] check_owned_block [OF ok i b] by (simp_all add: read_block_trace)
  show ?thesis using False
    by (simp add: prepare_partial_tail_zero_def zero_tail_write_def Let_def io_simps r tail_writes_def io_return_def del: One_nat_def)
qed (auto simp: prepare_partial_tail_zero_def tail_writes_def io_return_def)

lemma existing_tail_zero_trace:
  assumes ok: "fs_ok sb v al inodes entries" and i: "i \<in> set inodes"
  shows "prepare_existing_tail_zero (trace_device (sb_total_blocks sb)) al i c (v, tr) = (Inr (tail_writes v (pi_blocks i) (length (pi_blocks i)) c), v, tr)"
proof -
  have "prepare_existing_tail_zero (trace_device (sb_total_blocks sb)) al i c = prepare_partial_tail_zero (trace_device (sb_total_blocks sb)) al i (length (pi_blocks i)) c"
    by (auto simp: prepare_existing_tail_zero_def prepare_partial_tail_zero_def Let_def last_conv_nth)
  then show ?thesis using partial_tail_zero_trace [OF ok i order_refl] by simp
qed

lemma div_ceil_split: "div_ceil c BLOCK_SIZE = c div BLOCK_SIZE + (if c mod BLOCK_SIZE = 0 then 0 else 1)"
proof -
  define b where "b = BLOCK_SIZE"
  have b: "0 < b" by (simp add: b_def BLOCK_SIZE_def)
  have m: "c mod b < b" using b by simp
  have "c + b - 1 = c mod b + b - 1 + c div b * b" using div_mult_mod_eq [of c b] b by linarith
  then have "(c + b - 1) div b = (c mod b + b - 1) div b + c div b" using b by (metis add.commute div_mult_self1 less_not_refl)
  moreover have "(c mod b + b - 1) div b = (if c mod b = 0 then 0 else 1)"
  proof (cases "c mod b = 0")
    case False
    then obtain r where "c mod b = Suc r" by (cases "c mod b") auto
    then show ?thesis using m by (simp add: div_nat_eqI)
  qed (use b in simp)
  ultimately show ?thesis by (simp add: div_ceil_def b_def)
qed

lemma div_ceil_cases:
  assumes "n = div_ceil c BLOCK_SIZE" and "j < n"
  shows "j * BLOCK_SIZE + BLOCK_SIZE \<le> c \<or> j = n - 1 \<and> c mod BLOCK_SIZE \<noteq> 0 \<and> c = j * BLOCK_SIZE + c mod BLOCK_SIZE"
proof -
  have c: "c = c div BLOCK_SIZE * BLOCK_SIZE + c mod BLOCK_SIZE" and n: "n = c div BLOCK_SIZE + (if c mod BLOCK_SIZE = 0 then 0 else 1)"
    using assms(1) by (simp_all add: div_ceil_split)
  show ?thesis
  proof (cases "j < c div BLOCK_SIZE")
    case True
    then have "Suc j * BLOCK_SIZE \<le> c div BLOCK_SIZE * BLOCK_SIZE" by (intro mult_le_mono1) simp
    then have "j * BLOCK_SIZE + BLOCK_SIZE \<le> c div BLOCK_SIZE * BLOCK_SIZE" by simp
    then have "j * BLOCK_SIZE + BLOCK_SIZE \<le> c" using c by linarith
    then show ?thesis by blast
  next
    case False
    then have "j = c div BLOCK_SIZE" "j = n - 1" "c mod BLOCK_SIZE \<noteq> 0" using n assms(2) by (simp_all split: if_splits)
    then show ?thesis using c by simp
  qed
qed

lemma tail_writes_chunks:
  assumes u: "\<forall>b \<in> set bl. length (v b) = BLOCK_SIZE" and d: "distinct bl" and n: "n = div_ceil c BLOCK_SIZE" "n \<le> length bl" and j: "j < n"
    and z: "n * BLOCK_SIZE \<le> c + z"
  shows "(bl ! j, get_bytes (j * BLOCK_SIZE) BLOCK_SIZE (take c (concat (map v bl)) @ zeroes z)) \<in> set (tail_writes v bl n c) \<or>
     bl ! j \<notin> fst ` set (tail_writes v bl n c) \<and> v (bl ! j) = get_bytes (j * BLOCK_SIZE) BLOCK_SIZE (take c (concat (map v bl)) @ zeroes z)"
proof -
  have u': "\<forall>x \<in> set (map v bl). length x = BLOCK_SIZE" using u by auto
  have c: "c \<le> length (map v bl) * BLOCK_SIZE" using n by (auto simp: div_ceil_def BLOCK_SIZE_def)
  have "Suc j * BLOCK_SIZE \<le> n * BLOCK_SIZE" using j by (intro mult_le_mono1) simp
  then have jz: "j * BLOCK_SIZE + BLOCK_SIZE \<le> c + z" using z by simp
  note pc = padded_chunk [OF u' c jz]
  have pos: "0 < BLOCK_SIZE" by (simp add: BLOCK_SIZE_def)
  show ?thesis
    using div_ceil_cases [OF n(1) j]
  proof (elim disjE conjE)
    assume full: "j * BLOCK_SIZE + BLOCK_SIZE \<le> c"
    have "bl ! j \<notin> fst ` set (tail_writes v bl n c)"
    proof (cases "c mod BLOCK_SIZE = 0")
      case False
      then have "n - 1 = c div BLOCK_SIZE" using n(1) by (simp add: div_ceil_split)
      moreover have "c < (c div BLOCK_SIZE) * BLOCK_SIZE + BLOCK_SIZE" using pos by (metis add.commute div_mult_mod_eq mod_less_divisor add_less_cancel_left)
      ultimately have "j \<noteq> n - 1" using full by auto
      then have "bl ! j \<noteq> bl ! (n - 1)" using j n(2) d by (simp add: nth_eq_iff_index_eq)
      then show ?thesis by (auto simp: tail_writes_def Let_def)
    qed (simp add: tail_writes_def)
    then show ?thesis using pc(1) [OF pos full] j n(2) by simp
  next
    assume last: "j = n - 1" "c mod BLOCK_SIZE \<noteq> 0" "c = j * BLOCK_SIZE + c mod BLOCK_SIZE"
    have m: "c mod BLOCK_SIZE < BLOCK_SIZE" using pos by simp
    have "get_bytes (j * BLOCK_SIZE) BLOCK_SIZE (take c (concat (map v bl)) @ zeroes z)
        = put_bytes (c - j * BLOCK_SIZE) (zeroes (BLOCK_SIZE - (c - j * BLOCK_SIZE))) (map v bl ! j)"
      by (rule pc(3) [OF pos]) (use j n(2) in simp, use last(3) in linarith, use last(3) m in linarith)
    moreover have "c - j * BLOCK_SIZE = c mod BLOCK_SIZE" using last(3) by linarith
    ultimately have "get_bytes (j * BLOCK_SIZE) BLOCK_SIZE (take c (concat (map v bl)) @ zeroes z)
        = put_bytes (c mod BLOCK_SIZE) (zeroes (BLOCK_SIZE - c mod BLOCK_SIZE)) (v (bl ! j))" using j n(2) by simp
    then show ?thesis using last(1,2) j by (auto simp: tail_writes_def Let_def)
  qed
qed

lemma canonical_current:
  assumes "fs_ok sb v al inodes entries" and "file_position ino inodes = Inr k"
  shows "canonical_byte_len (inodes ! k) = Inr (pi_byte_len (inodes ! k))"
  using canonical_byte_len_ok fs_okD(8) [OF assms(1)] file_position_Inr [OF assms(2)] by simp

lemma div_ceil_bound: "c \<le> div_ceil c BLOCK_SIZE * BLOCK_SIZE" and div_ceil_blocks: "0 < n \<Longrightarrow> (n - 1) * BLOCK_SIZE < c \<Longrightarrow> c \<le> n * BLOCK_SIZE \<Longrightarrow> div_ceil c BLOCK_SIZE = n"
proof -
  have pos: "0 < BLOCK_SIZE" by (simp add: BLOCK_SIZE_def)
  have "c mod BLOCK_SIZE < BLOCK_SIZE" using pos by simp
  moreover have "div_ceil c BLOCK_SIZE * BLOCK_SIZE = c div BLOCK_SIZE * BLOCK_SIZE + (if c mod BLOCK_SIZE = 0 then 0 else BLOCK_SIZE)"
    by (simp add: div_ceil_split add_mult_distrib)
  ultimately show "c \<le> div_ceil c BLOCK_SIZE * BLOCK_SIZE" using div_mult_mod_eq [of c BLOCK_SIZE]
    by (cases "c mod BLOCK_SIZE = 0"; simp only: if_True if_False; linarith)
  assume n: "0 < n" "(n - 1) * BLOCK_SIZE < c" "c \<le> n * BLOCK_SIZE"
  show "div_ceil c BLOCK_SIZE = n" unfolding div_ceil_def
  proof (rule div_nat_eqI)
    have "n * BLOCK_SIZE = (n - 1) * BLOCK_SIZE + BLOCK_SIZE" using n(1) by (cases n) simp_all
    then show "BLOCK_SIZE * n \<le> c + BLOCK_SIZE - 1" using n(2) by (simp add: mult.commute)
    show "c + BLOCK_SIZE - 1 < BLOCK_SIZE * Suc n" using n(3) pos unfolding mult.commute [of BLOCK_SIZE] mult_Suc by linarith
  qed
qed

lemma file_block_count:
  assumes "inode_ok i" and "pi_kind i = File"
  shows "div_ceil (pi_byte_len i) BLOCK_SIZE = length (pi_blocks i)"
proof (cases "pi_blocks i = []")
  case True
  then show ?thesis using assms by (simp add: inode_ok_def div_ceil_split)
next
  case False
  then show ?thesis using assms by (intro div_ceil_blocks) (auto simp: inode_ok_def)
qed

lemma file_contents:
  assumes ok: "fs_ok sb v al inodes entries" and q: "recovers sb v v" and k: "file_position ino inodes = Inr k"
  shows "k < length inodes" "pi_kind (inodes ! k) = File" "inode_ok (inodes ! k)" "inodes ! k \<in> set inodes"
    "\<forall>b \<in> set (pi_blocks (inodes ! k)). length (v b) = BLOCK_SIZE" "distinct (pi_blocks (inodes ! k))"
    "length (concat (file_blocks v (inodes ! k))) = length (pi_blocks (inodes ! k)) * BLOCK_SIZE"
    "length (file_bytes v (inodes ! k)) = pi_byte_len (inodes ! k)"
proof -
  have v: "disk_ok (sb_total_blocks sb) v" using q by (simp add: recovers_def)
  show i: "k < length inodes" "pi_kind (inodes ! k) = File" "inodes ! k \<in> set inodes" using file_position_Inr [OF k] by simp_all
  then show "inode_ok (inodes ! k)" using fs_okD(8) [OF ok] by blast
  then show "distinct (pi_blocks (inodes ! k))" by (simp add: inode_ok_def)
  note u = file_blocks_uniform [OF v ok i(1)]
  then show "\<forall>b \<in> set (pi_blocks (inodes ! k)). length (v b) = BLOCK_SIZE" by (simp add: file_blocks_def)
  show l: "length (concat (file_blocks v (inodes ! k))) = length (pi_blocks (inodes ! k)) * BLOCK_SIZE"
    using length_concat_uniform [OF u] by (simp add: file_blocks_def)
  then show "length (file_bytes v (inodes ! k)) = pi_byte_len (inodes ! k)" using file_length(1) [OF ok k] by (simp add: file_bytes_def)
qed

lemma truncate_bytes_tx:
  assumes a: "addressable sb" and ok: "fs_ok sb v al inodes entries" and q: "recovers sb v v" and k: "file_position ino inodes = Inr k"
    and lt: "target < pi_byte_len (inodes ! k)" and n: "n = div_ceil target BLOCK_SIZE" "n \<le> length (pi_blocks (inodes ! k))"
    and t: "truncate_tables k n target al inodes = Inr (ds, al', inodes')"
  shows "atomic_op sb v (al, inodes, entries)
     (publish_file_update (trace_device (sb_total_blocks sb)) sb al' inodes' (tail_writes v (pi_blocks (inodes ! k)) n target))
     (\<lambda>_. resized v inodes entries ino (take target))"
proof -
  let ?bl = "pi_blocks (inodes ! k)" and ?F = "concat (file_blocks v (inodes ! k))" and ?ws = "tail_writes v (pi_blocks (inodes ! k)) n target"
  note i = file_contents [OF ok q k]
  note s = truncate_tables_spliced [OF ok i(1,2) t]
  have bl': "pi_blocks (inodes' ! k) = take n ?bl" using s(1) by (auto simp: spliced_tables_def)
  have bytes: "take target (file_bytes v (inodes ! k)) = take target ?F" using lt by (simp add: file_bytes_def min_def)
  have len: "length (take target (file_bytes v (inodes ! k))) = target" using lt i(8) by simp
  show ?thesis
  proof (rule resize_tx [OF a ok q k s(1), where W = "take target ?F @ zeroes (n * BLOCK_SIZE - target)"])
    show "distinct (map fst ?ws)" "fst ` set ?ws \<subseteq> set (pi_blocks (inodes' ! k))"
      using tail_writes_simps(1,2) n(2) by (simp_all add: bl')
    then show "\<forall>(b, d) \<in> set ?ws. length d = BLOCK_SIZE"
      using tail_writes_simps(3) i(5) set_take_subset [of n ?bl] by (fastforce simp: bl')
    show "(pi_blocks (inodes' ! k) ! j, get_bytes (j * BLOCK_SIZE) BLOCK_SIZE (take target ?F @ zeroes (n * BLOCK_SIZE - target))) \<in> set ?ws \<or>
        pi_blocks (inodes' ! k) ! j \<notin> fst ` set ?ws \<and>
        v (pi_blocks (inodes' ! k) ! j) = get_bytes (j * BLOCK_SIZE) BLOCK_SIZE (take target ?F @ zeroes (n * BLOCK_SIZE - target))"
      if "j < length (pi_blocks (inodes' ! k))" for j
      using tail_writes_chunks [OF i(5,6) n, of j "n * BLOCK_SIZE - target"] that by (simp add: bl' file_blocks_def)
    show "take target ?F @ zeroes (n * BLOCK_SIZE - target) = take target (file_bytes v (inodes ! k)) @ zeroes (tail_slack (inodes' ! k))"
      using n(2) by (simp add: bytes tail_slack_def bl' s(2) min_def)
    show "pi_byte_len (inodes' ! k) = length (take target (file_bytes v (inodes ! k)))" using s(2) len by simp
  qed
qed

lemma truncate_bytes_atomic:
  assumes a: "addressable sb" and ok: "fs_ok sb v al inodes entries" and q: "recovers sb v v"
  shows "atomic_op sb v (al, inodes, entries) (truncate_file_to_bytes_journaled (trace_device (sb_total_blocks sb)) sb ino target)
     (\<lambda>(ds, rep) x t'. \<exists>k. file_position ino inodes = Inr k \<and> target \<le> pi_byte_len (inodes ! k) \<and>
        ds = drop (div_ceil target BLOCK_SIZE) (pi_blocks (inodes ! k)) \<and>
        (if target = pi_byte_len (inodes ! k) then x = v \<and> t' = (al, inodes, entries) else resized v inodes entries ino (take target) x t'))"
    (is "atomic_op _ _ _ _ ?Q")
proof -
  let ?D = "trace_device (sb_total_blocks sb)"
  have v: "disk_ok (sb_total_blocks sb) v" using q by (simp add: recovers_def)
  note l = fs_ok_loads [OF a v ok]
  show ?thesis
  proof (cases "file_position ino inodes")
    case (Inl e)
    then show ?thesis by (intro atomic_op_failed) (simp add: truncate_file_to_bytes_journaled_def prepare_byte_truncate_plan_def io_simps l)
  next
    case k: (Inr k)
    note i = file_contents [OF ok q k]
    let ?i = "inodes ! k" and ?n = "div_ceil target BLOCK_SIZE"
    let ?ws = "tail_writes v (pi_blocks ?i) ?n target"
    have c: "canonical_byte_len ?i = Inr (pi_byte_len ?i)" by (rule canonical_current [OF ok k])
    note d = truncate_file_to_bytes_journaled_def prepare_byte_truncate_plan_def byte_len_to_block_count_def
    consider "target > pi_byte_len ?i" | "target = pi_byte_len ?i" | "target < pi_byte_len ?i" by linarith
    then show ?thesis
    proof cases
      case 1
      then show ?thesis by (intro atomic_op_failed) (simp add: d io_simps l k c map_err_def)
    next
      case 2
      then show ?thesis
        by (intro atomic_op_same [where r = "([], \<lparr>committed_transactions = 0, home_writes = 0\<rparr>)", OF _ ok q])
          (simp_all add: d io_simps l k c map_err_def io_return_def file_block_count i)
    next
      case 3
      have le: "?n \<le> length (pi_blocks ?i)"
        using 3 file_block_count [OF i(3,2)] div_le_mono [of "target + BLOCK_SIZE - 1" "pi_byte_len ?i + BLOCK_SIZE - 1" BLOCK_SIZE]
        by (simp add: div_ceil_def)
      let ?then = "\<lambda>(ds, al', inodes'). io_bind (publish_file_update ?D sb al' inodes' ?ws) (\<lambda>report. io_return (ds, report))"
      have "truncate_file_to_bytes_journaled ?D sb ino target (v, tr) =
          io_bind (io_lift (validate_owned al (drop ?n (pi_blocks ?i)))) (\<lambda>_. io_bind (io_lift (truncate_tables k ?n target al inodes)) ?then) (v, tr)" for tr
        using 3 le by (cases "validate_owned al (drop ?n (pi_blocks ?i))"; cases "truncate_tables k ?n target al inodes")
          (auto simp: d io_simps l k c map_err_def partial_tail_zero_trace [OF ok i(4) le])
      moreover have "atomic_op sb v (al, inodes, entries) (?then p) ?Q" if "truncate_tables k ?n target al inodes = Inr p" for p
      proof -
        obtain ds al' inodes' where p: "p = (ds, al', inodes')" by (metis prod.exhaust)
        note t = that [unfolded p]
        show ?thesis unfolding p prod.case
          by (rule atomic_op_map [OF truncate_bytes_tx [OF a ok q k 3 refl le t]])
            (use k 3 truncate_tables_spliced(3) [OF ok i(1,2) t] in simp)
      qed
      then have "atomic_op sb v (al, inodes, entries) (io_bind (io_lift (validate_owned al (drop ?n (pi_blocks ?i))))
          (\<lambda>_. io_bind (io_lift (truncate_tables k ?n target al inodes)) ?then)) ?Q"
        by (intro atomic_op_lift)
      ultimately show ?thesis by (simp add: atomic_op_def)
    qed
  qed
qed

lemma grow_bytes_tx:
  assumes a: "addressable sb" and ok: "fs_ok sb v al inodes entries" and q: "recovers sb v v" and k: "file_position ino inodes = Inr k"
    and gt: "pi_byte_len (inodes ! k) < target" and n: "n = div_ceil target BLOCK_SIZE" "length (pi_blocks (inodes ! k)) \<le> n"
    and t: "grow_tables k (n - length (pi_blocks (inodes ! k))) target al inodes = Inr (rs, al', inodes')"
  shows "atomic_op sb v (al, inodes, entries)
     (publish_file_update (trace_device (sb_total_blocks sb)) sb al' inodes'
        (tail_writes v (pi_blocks (inodes ! k)) (length (pi_blocks (inodes ! k))) (pi_byte_len (inodes ! k)) @ map (\<lambda>b. (b, zeroes BLOCK_SIZE)) rs))
     (\<lambda>_. resized v inodes entries ino (\<lambda>bs. bs @ zeroes (target - length bs)))"
proof -
  let ?bl = "pi_blocks (inodes ! k)" and ?c = "pi_byte_len (inodes ! k)" and ?F = "concat (file_blocks v (inodes ! k))"
  let ?L = "length ?bl" and ?z = "n * BLOCK_SIZE - pi_byte_len (inodes ! k)"
  let ?tail = "tail_writes v ?bl ?L ?c"
  let ?W = "take ?c ?F @ zeroes ?z"
  note i = file_contents [OF ok q k]
  note s = grow_tables_spliced [OF ok i(1,2) t]
  obtain i' where i': "inodes' ! k = i'" "pi_blocks i' = ?bl @ rs" "inode_ok i'" using s(1) by (auto simp: spliced_tables_def)
  have d: "distinct (?bl @ rs)" using i'(2,3) by (simp add: inode_ok_def)
  have len: "length (?bl @ rs) = n" using s(3) n(2) by simp
  have cL: "?c \<le> ?L * BLOCK_SIZE" and L: "?L = div_ceil ?c BLOCK_SIZE" using file_length [OF ok k] file_block_count [OF i(3,2)] by simp_all
  have le: "?L * BLOCK_SIZE \<le> n * BLOCK_SIZE" "target \<le> n * BLOCK_SIZE" using n(2) div_ceil_bound n(1) by simp_all
  show ?thesis
  proof (rule resize_tx [OF a ok q k s(1), where W = ?W])
    show "distinct (map fst (?tail @ map (\<lambda>b. (b, zeroes BLOCK_SIZE)) rs))"
      using d tail_writes_simps(1) tail_writes_simps(2) [of ?L ?bl v ?c] by (auto simp: comp_def)
    show "fst ` set (?tail @ map (\<lambda>b. (b, zeroes BLOCK_SIZE)) rs) \<subseteq> set (pi_blocks (inodes' ! k))"
      using tail_writes_simps(2) [of ?L ?bl v ?c] by (auto simp: i')
    show "\<forall>(b, d) \<in> set (?tail @ map (\<lambda>b. (b, zeroes BLOCK_SIZE)) rs). length d = BLOCK_SIZE"
      using tail_writes_simps(2) [of ?L ?bl v ?c] tail_writes_simps(3) [of _ _ v ?bl ?L ?c] i(5) by fastforce
    fix j assume "j < length (pi_blocks (inodes' ! k))"
    then have j: "j < n" using len i' by simp
    have "Suc j * BLOCK_SIZE \<le> n * BLOCK_SIZE" using j by (intro mult_le_mono1) simp
    then have jz: "j * BLOCK_SIZE + BLOCK_SIZE \<le> ?c + ?z" by simp
    show "(pi_blocks (inodes' ! k) ! j, get_bytes (j * BLOCK_SIZE) BLOCK_SIZE ?W) \<in> set (?tail @ map (\<lambda>b. (b, zeroes BLOCK_SIZE)) rs) \<or>
        pi_blocks (inodes' ! k) ! j \<notin> fst ` set (?tail @ map (\<lambda>b. (b, zeroes BLOCK_SIZE)) rs) \<and>
        v (pi_blocks (inodes' ! k) ! j) = get_bytes (j * BLOCK_SIZE) BLOCK_SIZE ?W"
    proof (cases "j < ?L")
      case True
      then have "?bl ! j \<notin> set rs" using d nth_mem by fastforce
      then show ?thesis using tail_writes_chunks [OF i(5,6) L order_refl True, of ?z] cL le True
        by (auto simp: i' nth_append file_blocks_def)
    next
      case False
      then have "?L * BLOCK_SIZE \<le> j * BLOCK_SIZE" by (intro mult_le_mono1) simp
      then have "get_bytes (j * BLOCK_SIZE) BLOCK_SIZE ?W = zeroes BLOCK_SIZE"
        using jz cL i(5) by (intro padded_chunk(2)) (auto simp: file_blocks_def BLOCK_SIZE_def)
      moreover have "rs ! (j - ?L) \<in> set rs" using False j len by (intro nth_mem) simp
      ultimately show ?thesis using False by (simp add: i' nth_append)
    qed
  next
    have f: "file_bytes v (inodes ! k) = take ?c ?F" by (simp add: file_bytes_def)
    have "?z = target - ?c + (n * BLOCK_SIZE - target)" using gt le(2) by simp
    then show "?W = (file_bytes v (inodes ! k) @ zeroes (target - length (file_bytes v (inodes ! k)))) @ zeroes (tail_slack (inodes' ! k))"
      using i(8) s(2) len i' by (simp add: f tail_slack_def)
    show "pi_byte_len (inodes' ! k) = length (file_bytes v (inodes ! k) @ zeroes (target - length (file_bytes v (inodes ! k))))"
      using i(8) s(2) gt by simp
  qed
qed

lemma grow_bytes_atomic:
  assumes a: "addressable sb" and ok: "fs_ok sb v al inodes entries" and q: "recovers sb v v"
  shows "atomic_op sb v (al, inodes, entries) (grow_file_to_bytes_journaled (trace_device (sb_total_blocks sb)) sb ino target)
     (\<lambda>(rs, rep) x t'. (\<exists>k. file_position ino inodes = Inr k \<and> pi_byte_len (inodes ! k) < target) \<and>
        resized v inodes entries ino (\<lambda>bs. bs @ zeroes (target - length bs)) x t')" (is "atomic_op _ _ _ _ ?Q")
proof -
  let ?D = "trace_device (sb_total_blocks sb)"
  have v: "disk_ok (sb_total_blocks sb) v" using q by (simp add: recovers_def)
  note l = fs_ok_loads [OF a v ok] and d = grow_file_to_bytes_journaled_def prepare_byte_grow_plan_def byte_len_to_block_count_def
  show ?thesis
  proof (cases "file_position ino inodes")
    case (Inl e)
    then show ?thesis by (intro atomic_op_failed) (simp add: d io_simps l)
  next
    case k: (Inr k)
    note i = file_contents [OF ok q k]
    let ?i = "inodes ! k" and ?n = "div_ceil target BLOCK_SIZE"
    have c: "canonical_byte_len ?i = Inr (pi_byte_len ?i)" by (rule canonical_current [OF ok k])
    show ?thesis
    proof (cases "target \<le> pi_byte_len ?i")
      case True
      then show ?thesis by (intro atomic_op_failed) (simp add: d io_simps l k c map_err_def)
    next
      case False
      then have gt: "pi_byte_len ?i < target" by simp
      have le: "length (pi_blocks ?i) \<le> ?n"
        using gt file_block_count [OF i(3,2)] div_le_mono [of "pi_byte_len ?i + BLOCK_SIZE - 1" "target + BLOCK_SIZE - 1" BLOCK_SIZE]
        by (simp add: div_ceil_def)
      let ?t = "grow_tables k (?n - length (pi_blocks ?i)) target al inodes" and ?ws = "tail_writes v (pi_blocks ?i) (length (pi_blocks ?i)) (pi_byte_len ?i)"
      let ?then = "\<lambda>(rs, al', inodes'). io_bind (publish_file_update ?D sb al' inodes' (?ws @ map (\<lambda>b. (b, zeroes BLOCK_SIZE)) rs)) (\<lambda>report. io_return (rs, report))"
      have "grow_file_to_bytes_journaled ?D sb ino target (v, tr) = io_bind (io_lift ?t) ?then (v, tr)" for tr
        using gt le by (cases ?t) (auto simp: d io_simps l k c map_err_def existing_tail_zero_trace [OF ok i(4)])
      moreover have "atomic_op sb v (al, inodes, entries) (?then p) ?Q" if "?t = Inr p" for p
      proof -
        obtain rs al' inodes' where p: "p = (rs, al', inodes')" by (metis prod.exhaust)
        show ?thesis unfolding p prod.case
          by (rule atomic_op_map [OF grow_bytes_tx [OF a ok q k gt refl le that [unfolded p]]]) (use k gt in simp)
      qed
      then have "atomic_op sb v (al, inodes, entries) (io_bind (io_lift ?t) ?then) ?Q" by (intro atomic_op_lift)
      ultimately show ?thesis by (simp add: atomic_op_def)
    qed
  qed
qed

section \<open>The extending write is atomic\<close>

lemma overwritten_padding:
  assumes "c \<le> length F" and "c < s + length d" and "s + length d \<le> c + z"
  shows "put_bytes s d (take c F @ zeroes z) = (take s (take c F) @ zeroes (s - c) @ d) @ zeroes (c + z - (s + length d))"
proof -
  have l: "length (take c F) = c" using assms(1) by simp
  have "take s (take c F @ zeroes z) = take s (take c F) @ zeroes (s - c)" using assms l by (simp add: take_zeroes min_absorb1 del: take_take)
  moreover have "drop (s + length d) (take c F @ zeroes z) = zeroes (c + z - (s + length d))" using assms l by (simp add: drop_zeroes add.commute)
  ultimately show ?thesis by (simp add: put_bytes_def)
qed

text \<open>The images of the blocks from the first one touched on, and the writes of those that change.\<close>

definition extend_writes :: "disk \<Rightarrow> u64 list \<Rightarrow> nat \<Rightarrow> nat \<Rightarrow> nat \<Rightarrow> byte list \<Rightarrow> block_write list" where
  "extend_writes v bl lo L n W =
     map (\<lambda>j. (bl ! j, get_bytes (j * BLOCK_SIZE) BLOCK_SIZE W))
       (filter (\<lambda>j. j < L \<longrightarrow> v (bl ! j) \<noteq> get_bytes (j * BLOCK_SIZE) BLOCK_SIZE W) [lo..<n])"

lemma extend_writes_simps:
  assumes "distinct bl" and "n = length bl" and "length W = n * BLOCK_SIZE"
  shows "distinct (map fst (extend_writes v bl lo L n W))" and "fst ` set (extend_writes v bl lo L n W) \<subseteq> set bl"
    and "\<forall>(b, d) \<in> set (extend_writes v bl lo L n W). length d = BLOCK_SIZE"
    and "j < n \<Longrightarrow> (j < lo \<Longrightarrow> j < L \<and> v (bl ! j) = get_bytes (j * BLOCK_SIZE) BLOCK_SIZE W) \<Longrightarrow>
      (bl ! j, get_bytes (j * BLOCK_SIZE) BLOCK_SIZE W) \<in> set (extend_writes v bl lo L n W) \<or>
      bl ! j \<notin> fst ` set (extend_writes v bl lo L n W) \<and> v (bl ! j) = get_bytes (j * BLOCK_SIZE) BLOCK_SIZE W"
proof -
  show "distinct (map fst (extend_writes v bl lo L n W))"
    using assms(1,2) by (auto simp: extend_writes_def comp_def distinct_map inj_on_def nth_eq_iff_index_eq)
  show "fst ` set (extend_writes v bl lo L n W) \<subseteq> set bl" using assms(2) by (auto simp: extend_writes_def)
  have "length (get_bytes (j * BLOCK_SIZE) BLOCK_SIZE W) = BLOCK_SIZE" if "j < n" for j
    using mult_le_mono1 [of "Suc j" n BLOCK_SIZE] that assms(3) by (simp add: length_get_bytes)
  then show "\<forall>(b, d) \<in> set (extend_writes v bl lo L n W). length d = BLOCK_SIZE" by (auto simp: extend_writes_def)
  show "(bl ! j, get_bytes (j * BLOCK_SIZE) BLOCK_SIZE W) \<in> set (extend_writes v bl lo L n W) \<or>
      bl ! j \<notin> fst ` set (extend_writes v bl lo L n W) \<and> v (bl ! j) = get_bytes (j * BLOCK_SIZE) BLOCK_SIZE W"
    if "j < n" "j < lo \<Longrightarrow> j < L \<and> v (bl ! j) = get_bytes (j * BLOCK_SIZE) BLOCK_SIZE W"
  proof (cases "lo \<le> j \<and> (j < L \<longrightarrow> v (bl ! j) \<noteq> get_bytes (j * BLOCK_SIZE) BLOCK_SIZE W)")
    case False
    then have "v (bl ! j) = get_bytes (j * BLOCK_SIZE) BLOCK_SIZE W" "j < L" using that(2) by auto
    moreover from this have "bl ! j \<notin> fst ` set (extend_writes v bl lo L n W)"
      using assms(1,2) that(1) by (auto simp: extend_writes_def nth_eq_iff_index_eq)
    ultimately show ?thesis by blast
  qed (use that(1) in \<open>auto simp: extend_writes_def\<close>)
qed

lemma check_owned_member: "b \<in> owned_blocks al \<Longrightarrow> check_owned al b = Inr ()"
  by (simp add: check_owned_def map_err_def is_owned_in_range) (simp add: owned_blocks_def is_owned_def ensure_in_range_def)

lemma concat_optional: "concat (map (\<lambda>x. if P x then [g x] else []) xs) = map g (filter P xs)"
  by (induction xs) simp_all

lemma data_writes_trace:
  assumes ok: "fs_ok sb v al inodes entries" and q: "recovers sb v v" and k: "file_position ino inodes = Inr k"
    and gt: "pi_byte_len (inodes ! k) < s + length d" and n: "n = div_ceil (s + length d) BLOCK_SIZE" "length (pi_blocks (inodes ! k)) \<le> n"
    and t: "grow_tables k (n - length (pi_blocks (inodes ! k))) (s + length d) al inodes = Inr (rs, al', inodes')"
    and W: "W = put_bytes s d (take (pi_byte_len (inodes ! k)) (concat (file_blocks v (inodes ! k))) @ zeroes (n * BLOCK_SIZE - pi_byte_len (inodes ! k)))"
  shows "prepare_data_writes (trace_device (sb_total_blocks sb)) al' (inodes' ! k) (length (pi_blocks (inodes ! k)))
      (pi_byte_len (inodes ! k)) s (s + length d) d (v, tr) =
    (Inr (extend_writes v (pi_blocks (inodes' ! k)) (min (pi_byte_len (inodes ! k)) s div BLOCK_SIZE) (length (pi_blocks (inodes ! k))) n W), v, tr)"
proof -
  let ?bl = "pi_blocks (inodes ! k)" and ?bl' = "pi_blocks (inodes' ! k)" and ?c = "pi_byte_len (inodes ! k)" and ?F = "concat (file_blocks v (inodes ! k))"
  let ?L = "length ?bl" and ?g = "\<lambda>j. get_bytes (j * BLOCK_SIZE) BLOCK_SIZE W"
  note i = file_contents [OF ok q k]
  note sp = grow_tables_spliced [OF ok i(1,2) t]
  obtain i' where i': "inodes' ! k = i'" "pi_blocks i' = ?bl @ rs" "inode_ok i'" "pi_kind i' = File" using sp(1) by (auto simp: spliced_tables_def)
  have len: "length ?bl' = n" using sp(3) n(2) i' by simp
  have u64: "n * BLOCK_SIZE < U64_LIMIT" using i' len by (auto simp: inode_ok_def)
  have cL: "?c \<le> ?L * BLOCK_SIZE" using file_length [OF ok k] by simp
  have pos: "0 < BLOCK_SIZE" by (simp add: BLOCK_SIZE_def)
  have own: "set ?bl \<subseteq> owned_blocks al'"
    using sp(1) fs_okD(10) [OF ok, unfolded ownership_ok_iff [OF fs_okD(7) [OF ok]]] i(4) by (auto simp: spliced_tables_def block_slice_def)
  define body where "body j = io_bind (load_candidate_block (trace_device (sb_total_blocks sb)) al' (?bl' ! j) j ?L) (\<lambda>(img, current_image).
        io_bind (io_lift (block_bounds j)) (\<lambda>bounds.
        let img' = extend_image ?c s (s + length d) d bounds img in
        io_return (if current_image \<noteq> Some img' then [(?bl' ! j, img')] else [])))" for j
  have step: "body j (v, tr) = (Inr (if j < ?L \<longrightarrow> v (?bl' ! j) \<noteq> ?g j then [(?bl' ! j, ?g j)] else []), v, tr)" if j: "j < n" for j
  proof -
    have le: "Suc j * BLOCK_SIZE \<le> n * BLOCK_SIZE" using j by (intro mult_le_mono1) simp
    then have b: "block_bounds j = Inr (j * BLOCK_SIZE, j * BLOCK_SIZE + BLOCK_SIZE)"
      using u64 by (simp add: block_bounds_def checked_mul_def checked_add_def BLOCK_SIZE_U64_def)
    have chunk: "extend_image ?c s (s + length d) d (j * BLOCK_SIZE, j * BLOCK_SIZE + BLOCK_SIZE) img = ?g j"
      if "length img = BLOCK_SIZE" "\<And>j'. j' < BLOCK_SIZE \<Longrightarrow> j * BLOCK_SIZE + j' < ?c \<Longrightarrow> img ! j' = ?F ! (j * BLOCK_SIZE + j')" for img
      unfolding W by (rule extend_image_chunk [OF that _ gt j _ pos]) (use cL i(7) div_ceil_bound n(1) in simp_all)
    show ?thesis
    proof (cases "j < ?L")
      case True
      let ?b = "?bl ! j"
      have bj: "?bl' ! j = ?b" "?b \<in> set ?bl" using True i' by (simp_all add: nth_append)
      have "v ?b ! j' = ?F ! (j * BLOCK_SIZE + j')" if "j' < BLOCK_SIZE" for j'
      proof -
        have u: "\<forall>x \<in> set (file_blocks v (inodes ! k)). length x = BLOCK_SIZE" using i(5) by (simp add: file_blocks_def)
        have "v ?b = take BLOCK_SIZE (drop (j * BLOCK_SIZE) ?F)" using nth_concat_uniform [OF u, of j] True by (simp add: file_blocks_def)
        moreover have "Suc j * BLOCK_SIZE \<le> ?L * BLOCK_SIZE" using True by (intro mult_le_mono1) simp
        moreover from this have "j * BLOCK_SIZE \<le> length ?F" unfolding i(7) mult_Suc by linarith
        ultimately show ?thesis using that by (simp add: nth_drop del: length_concat)
      qed
      from chunk [OF _ this] have "extend_image ?c s (s + length d) d (j * BLOCK_SIZE, j * BLOCK_SIZE + BLOCK_SIZE) (v ?b) = ?g j" using i(5) bj by simp
      then show ?thesis using True own bj fs_ok_owned [OF ok i(4) bj(2)]
        by (simp add: load_candidate_block_def io_simps check_owned_member subsetD read_block_trace b Let_def io_return_def bj(1) body_def)
    next
      case False
      then have "?L * BLOCK_SIZE \<le> j * BLOCK_SIZE" by (intro mult_le_mono1) simp
      then have "?c \<le> j * BLOCK_SIZE" using cL by linarith
      then have "extend_image ?c s (s + length d) d (j * BLOCK_SIZE, j * BLOCK_SIZE + BLOCK_SIZE) (zeroes BLOCK_SIZE) = ?g j"
        by (intro chunk) simp_all
      then show ?thesis using False by (simp add: load_candidate_block_def io_simps b Let_def io_return_def body_def)
    qed
  qed
  have "io_map [min ?c s div BLOCK_SIZE..<n] body (v, tr) =
      (Inr (map (\<lambda>j. if j < ?L \<longrightarrow> v (?bl' ! j) \<noteq> ?g j then [(?bl' ! j, ?g j)] else []) [min ?c s div BLOCK_SIZE..<n]), v, tr)"
    by (rule io_map_pure) (rule step, simp)
  then show ?thesis
    unfolding prepare_data_writes_def byte_len_to_block_count_def n(1) [symmetric] Let_def
    unfolding body_def Let_def by (simp add: io_simps concat_optional extend_writes_def io_return_def)
qed

lemma extend_tx:
  assumes a: "addressable sb" and ok: "fs_ok sb v al inodes entries" and q: "recovers sb v v" and k: "file_position ino inodes = Inr k"
    and gt: "pi_byte_len (inodes ! k) < s + length d" and n: "n = div_ceil (s + length d) BLOCK_SIZE" "length (pi_blocks (inodes ! k)) \<le> n"
    and t: "grow_tables k (n - length (pi_blocks (inodes ! k))) (s + length d) al inodes = Inr (rs, al', inodes')"
    and W: "W = put_bytes s d (take (pi_byte_len (inodes ! k)) (concat (file_blocks v (inodes ! k))) @ zeroes (n * BLOCK_SIZE - pi_byte_len (inodes ! k)))"
  shows "atomic_op sb v (al, inodes, entries)
     (publish_file_update (trace_device (sb_total_blocks sb)) sb al' inodes'
        (extend_writes v (pi_blocks (inodes' ! k)) (min (pi_byte_len (inodes ! k)) s div BLOCK_SIZE) (length (pi_blocks (inodes ! k))) n W))
     (\<lambda>_. resized v inodes entries ino (\<lambda>bs. take s bs @ zeroes (s - length bs) @ d))"
proof -
  let ?bl = "pi_blocks (inodes ! k)" and ?bl' = "pi_blocks (inodes' ! k)" and ?c = "pi_byte_len (inodes ! k)" and ?F = "concat (file_blocks v (inodes ! k))"
  let ?L = "length ?bl" and ?lo = "min ?c s div BLOCK_SIZE" and ?P = "take ?c ?F @ zeroes (n * BLOCK_SIZE - ?c)"
  note i = file_contents [OF ok q k]
  note sp = grow_tables_spliced [OF ok i(1,2) t]
  obtain i' where i': "inodes' ! k = i'" "pi_blocks i' = ?bl @ rs" "inode_ok i'" using sp(1) by (auto simp: spliced_tables_def)
  have d: "distinct ?bl'" using i' by (simp add: inode_ok_def)
  have len: "n = length ?bl'" using sp(3) n(2) i' by simp
  have cL: "?c \<le> ?L * BLOCK_SIZE" using file_length [OF ok k] by simp
  have le: "?L * BLOCK_SIZE \<le> n * BLOCK_SIZE" "s + length d \<le> n * BLOCK_SIZE" using n(2) div_ceil_bound n(1) by simp_all
  have cn: "?c \<le> n * BLOCK_SIZE" using cL le(1) by linarith
  then have lP: "length ?P = n * BLOCK_SIZE" using cL i(7) by simp
  have lW: "length W = n * BLOCK_SIZE" unfolding W using lP le by (simp add: length_put_bytes)
  have W': "W = (take s (take ?c ?F) @ zeroes (s - ?c) @ d) @ zeroes (n * BLOCK_SIZE - (s + length d))"
    unfolding W using overwritten_padding [of ?c ?F s d "n * BLOCK_SIZE - ?c"] gt cL cn le(2) i(7) by simp
  note e = extend_writes_simps [OF d len lW]
  show ?thesis
  proof (rule resize_tx [OF a ok q k sp(1) e(1-3), where W = W])
    fix j assume "j < length ?bl'"
    then have j: "j < n" using len by simp
    have before: "j < ?L \<and> v (?bl' ! j) = get_bytes (j * BLOCK_SIZE) BLOCK_SIZE W" if "j < ?lo"
    proof -
      have "Suc j * BLOCK_SIZE \<le> ?lo * BLOCK_SIZE" using that by (intro mult_le_mono1) simp
      also have "\<dots> \<le> min ?c s" by (rule div_times_less_eq_dividend)
      finally have jc: "j * BLOCK_SIZE + BLOCK_SIZE \<le> ?c" "j * BLOCK_SIZE + BLOCK_SIZE \<le> s" by simp_all
      have "Suc j * BLOCK_SIZE \<le> ?L * BLOCK_SIZE" using jc(1) cL by simp
      then have jL: "j < ?L" by (simp only: mult_le_cancel2) (auto simp: BLOCK_SIZE_def)
      have "get_bytes (j * BLOCK_SIZE) BLOCK_SIZE W = get_bytes (j * BLOCK_SIZE) BLOCK_SIZE ?P"
        unfolding W using lP le(2) jc(2) by (intro get_put_other) simp_all
      also have "\<dots> = file_blocks v (inodes ! k) ! j"
        using jc(1) cL i(5) by (intro padded_chunk(1)) (auto simp: file_blocks_def BLOCK_SIZE_def)
      finally show ?thesis using jL i' by (simp add: file_blocks_def nth_append)
    qed
    show "(?bl' ! j, get_bytes (j * BLOCK_SIZE) BLOCK_SIZE W) \<in> set (extend_writes v ?bl' ?lo ?L n W) \<or>
        ?bl' ! j \<notin> fst ` set (extend_writes v ?bl' ?lo ?L n W) \<and> v (?bl' ! j) = get_bytes (j * BLOCK_SIZE) BLOCK_SIZE W"
      using e(4) [of j ?lo ?L v, OF j] before by blast
  next
    have f: "take ?c ?F = file_bytes v (inodes ! k)" by (simp add: file_bytes_def)
    show "W = (take s (file_bytes v (inodes ! k)) @ zeroes (s - length (file_bytes v (inodes ! k))) @ d) @ zeroes (tail_slack (inodes' ! k))"
      unfolding W' f using i(8) sp(2) len by (simp add: tail_slack_def)
    show "pi_byte_len (inodes' ! k) = length (take s (file_bytes v (inodes ! k)) @ zeroes (s - length (file_bytes v (inodes ! k))) @ d)"
      using i(8) sp(2) by (simp add: min_def)
  qed
qed

lemma extending_write_atomic:
  assumes a: "addressable sb" and ok: "fs_ok sb v al inodes entries" and q: "recovers sb v v"
  shows "atomic_op sb v (al, inodes, entries) (write_file_range_extending_journaled (trace_device (sb_total_blocks sb)) sb ino start d)
     (\<lambda>(rs, rep) x t'. \<exists>k. file_position ino inodes = Inr k \<and>
        (if start + length d \<le> pi_byte_len (inodes ! k) then rs = [] \<and> range_written v al inodes entries ino start d x t'
         else resized v inodes entries ino (\<lambda>bs. take start bs @ zeroes (start - length bs) @ d) x t'))" (is "atomic_op _ _ _ _ ?Q")
proof -
  let ?D = "trace_device (sb_total_blocks sb)" and ?e = "start + length d"
  have v: "disk_ok (sb_total_blocks sb) v" using q by (simp add: recovers_def)
  note l = fs_ok_loads [OF a v ok] and def = write_file_range_extending_journaled_def prepare_write_plan_def byte_len_to_block_count_def
  show ?thesis
  proof (cases "d = [] \<or> checked_add start (length d) = None \<or> (\<exists>e. file_position ino inodes = Inl e)")
    case True
    then consider "d = []" | "d \<noteq> []" "checked_add start (length d) = None" | e y where "d \<noteq> []" "checked_add start (length d) = Some y" "file_position ino inodes = Inl e"
      by (cases "checked_add start (length d)") auto
    then show ?thesis by cases (auto intro!: atomic_op_failed simp: def io_simps l)
  next
    case False
    then obtain k where k: "file_position ino inodes = Inr k" by (cases "file_position ino inodes") auto
    have g: "d \<noteq> []" "checked_add start (length d) = Some ?e" using False by (auto simp: checked_add_def split: if_splits)
    note i = file_contents [OF ok q k]
    let ?i = "inodes ! k" and ?n = "div_ceil ?e BLOCK_SIZE"
    have c: "canonical_byte_len ?i = Inr (pi_byte_len ?i)" by (rule canonical_current [OF ok k])
    show ?thesis
    proof (cases "?e \<le> pi_byte_len ?i")
      case True
      have "write_file_range_extending_journaled ?D sb ino start d (v, tr) =
          io_bind (write_file_range_journaled ?D sb ino (start div BLOCK_SIZE) (start mod BLOCK_SIZE) d) (\<lambda>report. io_return ([], report)) (v, tr)" for tr
        using True g by (simp add: def io_simps l k c map_err_def)
      moreover have "atomic_op sb v (al, inodes, entries)
          (io_bind (write_file_range_journaled ?D sb ino (start div BLOCK_SIZE) (start mod BLOCK_SIZE) d) (\<lambda>report. io_return ([], report))) ?Q"
        by (rule atomic_op_map [OF write_file_range_atomic [OF assms]]) (use k True in simp)
      ultimately show ?thesis by (simp add: atomic_op_def)
    next
      case False
      then have gt: "pi_byte_len ?i < ?e" by simp
      have le: "length (pi_blocks ?i) \<le> ?n"
        using gt file_block_count [OF i(3,2)] div_le_mono [of "pi_byte_len ?i + BLOCK_SIZE - 1" "?e + BLOCK_SIZE - 1" BLOCK_SIZE]
        by (simp add: div_ceil_def)
      define W where "W = put_bytes start d (take (pi_byte_len ?i) (concat (file_blocks v ?i)) @ zeroes (?n * BLOCK_SIZE - pi_byte_len ?i))"
      let ?t = "grow_tables k (?n - length (pi_blocks ?i)) ?e al inodes"
      let ?ws = "\<lambda>inodes'. extend_writes v (pi_blocks (inodes' ! k)) (min (pi_byte_len ?i) start div BLOCK_SIZE) (length (pi_blocks ?i)) ?n W"
      let ?then = "\<lambda>(rs, al', inodes'). io_bind (publish_file_update ?D sb al' inodes' (?ws inodes')) (\<lambda>report. io_return (rs, report))"
      have "write_file_range_extending_journaled ?D sb ino start d (v, tr) = io_bind (io_lift ?t) ?then (v, tr)" for tr
      proof (cases ?t)
        case (Inl e)
        then show ?thesis using gt g le by (simp add: def io_simps l k c map_err_def Let_def)
      next
        case (Inr p)
        obtain rs al' inodes' where p: "p = (rs, al', inodes')" by (metis prod.exhaust)
        show ?thesis using gt g le Inr by (simp add: def io_simps l k c map_err_def Let_def p data_writes_trace [OF ok q k gt refl le Inr [unfolded p] W_def])
      qed
      moreover have "atomic_op sb v (al, inodes, entries) (?then p) ?Q" if "?t = Inr p" for p
      proof -
        obtain rs al' inodes' where p: "p = (rs, al', inodes')" by (metis prod.exhaust)
        show ?thesis unfolding p prod.case
          by (rule atomic_op_map [OF extend_tx [OF a ok q k gt refl le that [unfolded p] W_def]]) (use k gt in simp)
      qed
      then have "atomic_op sb v (al, inodes, entries) (io_bind (io_lift ?t) ?then) ?Q" by (intro atomic_op_lift)
      ultimately show ?thesis by (simp add: atomic_op_def)
    qed
  qed
qed

end
