(* ===== verification/File_Move.thy ===== *)
theory File_Move
  imports File_Resize "HOL-Library.Multiset"
begin

text \<open>
  Moving blocks between files without copying them: \<open>file_transfer.rs\<close>, \<open>file_exchange.rs\<close>,
  \<open>file_whole_exchange.rs\<close> and \<open>file_whole_transfer_replace.rs\<close>. Each operation edits block lists of
  one or two inodes and publishes the inode table; the blocks themselves are not written.
\<close>

section \<open>Checks\<close>

fun distinct_owned_loop :: "block_allocator \<Rightarrow> u64 list \<Rightarrow> u64 set \<Rightarrow> unit io_result" where
  "distinct_owned_loop allocator [] seen = Inr ()"
| "distinct_owned_loop allocator (block # blocks) seen =
     (if block \<in> seen then Inl InvalidData
      else
      res_bind (map_err (\<lambda>_. InvalidData) (is_owned allocator block)) (\<lambda>owned.
      if \<not> owned then Inl InvalidData
      else distinct_owned_loop allocator blocks (insert block seen)))"

definition validate_exchange_ownership :: "block_allocator \<Rightarrow> persisted_inode \<Rightarrow> persisted_inode \<Rightarrow> unit io_result" where
  "validate_exchange_ownership allocator left right =
     distinct_owned_loop allocator (pi_blocks left @ pi_blocks right) {}"

definition validate_single_exchange_ownership :: "block_allocator \<Rightarrow> persisted_inode \<Rightarrow> unit io_result" where
  "validate_single_exchange_ownership allocator inode = distinct_owned_loop allocator (pi_blocks inode) {}"

fun moved_check_loop :: "block_allocator \<Rightarrow> u64 list \<Rightarrow> u64 list \<Rightarrow> unit io_result" where
  "moved_check_loop allocator destination_blocks [] = Inr ()"
| "moved_check_loop allocator destination_blocks (block # moved) =
     res_bind (map_err (\<lambda>_. InvalidData) (is_owned allocator block)) (\<lambda>owned.
     if \<not> owned then Inl InvalidData
     else if block \<in> set destination_blocks then Inl InvalidData
     else moved_check_loop allocator destination_blocks moved)"

section \<open>Transfer and move\<close>

definition transfer_edit :: "u64 \<Rightarrow> nat \<Rightarrow> nat \<Rightarrow> u64 \<Rightarrow> nat \<Rightarrow> block_allocator \<Rightarrow> persisted_inode list \<Rightarrow>
    (u64 list \<times> persisted_inode list) io_result" where
  "transfer_edit source_id source_index n_blocks destination_id destination_index allocator inodes =
     res_bind (clone_endpoints inodes source_id destination_id) (\<lambda>(source_pos, destination_pos).
     res_bind (ok_or InvalidInput (checked_add source_index n_blocks)) (\<lambda>source_end.
     if source_end > length (pi_blocks (inodes ! source_pos)) then Inl InvalidInput
     else if destination_index > length (pi_blocks (inodes ! destination_pos)) then Inl InvalidInput
     else
     let moved = block_slice source_index source_end (pi_blocks (inodes ! source_pos)) in
     res_bind (moved_check_loop allocator (pi_blocks (inodes ! destination_pos)) moved) (\<lambda>_.
     res_bind (splice_inode source_pos source_index source_end [] inodes) (\<lambda>(_, inodes').
     res_bind (splice_inode destination_pos destination_index destination_index moved inodes') (\<lambda>(_, inodes'').
     Inr (moved, inodes''))))))"

definition transfer_file_block_range_journaled ::
    "'d block_device \<Rightarrow> superblock \<Rightarrow> u64 \<Rightarrow> nat \<Rightarrow> nat \<Rightarrow> u64 \<Rightarrow> nat \<Rightarrow> ('d, u64 list \<times> recovery_report) dev_io" where
  "transfer_file_block_range_journaled D sb source_id source_index n_blocks destination_id destination_index =
     (if source_id = destination_id then io_fail InvalidInput
      else if n_blocks = 0 then io_fail InvalidInput
      else
      io_bind (load_allocator D sb) (\<lambda>allocator.
      io_bind (load_inode_table D sb) (\<lambda>inodes.
      io_bind (io_lift (transfer_edit source_id source_index n_blocks destination_id destination_index allocator inodes)) (\<lambda>(moved, inodes').
      io_bind (publish_inode_table_transfer D sb inodes') (\<lambda>report.
      io_return (moved, report))))))"

definition move_edit :: "u64 \<Rightarrow> nat \<Rightarrow> nat \<Rightarrow> nat \<Rightarrow> block_allocator \<Rightarrow> persisted_inode list \<Rightarrow>
    (u64 list \<times> persisted_inode list) io_result" where
  "move_edit ino source_index n_blocks destination_index allocator inodes =
     res_bind (file_position ino inodes) (\<lambda>k.
     res_bind (ok_or InvalidInput (checked_add source_index n_blocks)) (\<lambda>source_end.
     let blocks = pi_blocks (inodes ! k) in
     if source_end > length blocks then Inl InvalidInput
     else if destination_index > length blocks - n_blocks then Inl InvalidInput
     else if destination_index = source_index then Inl InvalidInput
     else
     res_bind (distinct_owned_loop allocator blocks {}) (\<lambda>_.
     let moved = block_slice source_index source_end blocks;
         drained = take source_index blocks @ drop source_end blocks in
     Inr (moved, inodes[k := (inodes ! k)\<lparr>pi_blocks := take destination_index drained @ moved @ drop destination_index drained\<rparr>]))))"

definition move_file_block_range_journaled ::
    "'d block_device \<Rightarrow> superblock \<Rightarrow> u64 \<Rightarrow> nat \<Rightarrow> nat \<Rightarrow> nat \<Rightarrow> ('d, u64 list \<times> recovery_report) dev_io" where
  "move_file_block_range_journaled D sb ino source_index n_blocks destination_index =
     (if n_blocks = 0 then io_fail InvalidInput
      else
      io_bind (load_allocator D sb) (\<lambda>allocator.
      io_bind (load_inode_table D sb) (\<lambda>inodes.
      io_bind (io_lift (move_edit ino source_index n_blocks destination_index allocator inodes)) (\<lambda>(moved, inodes').
      io_bind (publish_inode_table_transfer D sb inodes') (\<lambda>report.
      io_return (moved, report))))))"

section \<open>Exchange\<close>

definition publish_exchange_inodes :: "'d block_device \<Rightarrow> superblock \<Rightarrow> persisted_inode list \<Rightarrow> ('d, recovery_report) dev_io" where
  "publish_exchange_inodes D sb inodes = publish_inode_table_transfer D sb inodes"

definition exchange_edit :: "u64 \<Rightarrow> nat \<Rightarrow> u64 \<Rightarrow> nat \<Rightarrow> nat \<Rightarrow> block_allocator \<Rightarrow> persisted_inode list \<Rightarrow> persisted_inode list io_result" where
  "exchange_edit left_id left_index right_id right_index n_blocks allocator inodes =
     res_bind (clone_endpoints inodes left_id right_id) (\<lambda>(left_pos, right_pos).
     res_bind (ok_or InvalidInput (checked_add left_index n_blocks)) (\<lambda>left_end.
     res_bind (ok_or InvalidInput (checked_add right_index n_blocks)) (\<lambda>right_end.
     let left_blocks = pi_blocks (inodes ! left_pos); right_blocks = pi_blocks (inodes ! right_pos) in
     if left_end > length left_blocks \<or> right_end > length right_blocks then Inl InvalidInput
     else
     res_bind (distinct_owned_loop allocator (left_blocks @ right_blocks) {}) (\<lambda>_.
     let left = block_slice left_index left_end left_blocks; right = block_slice right_index right_end right_blocks in
     Inr (inodes[left_pos := (inodes ! left_pos)\<lparr>pi_blocks := take left_index left_blocks @ right @ drop left_end left_blocks\<rparr>,
                 right_pos := (inodes ! right_pos)\<lparr>pi_blocks := take right_index right_blocks @ left @ drop right_end right_blocks\<rparr>])))))"

definition exchange_file_block_ranges_journaled ::
    "'d block_device \<Rightarrow> superblock \<Rightarrow> u64 \<Rightarrow> nat \<Rightarrow> u64 \<Rightarrow> nat \<Rightarrow> nat \<Rightarrow> ('d, recovery_report) dev_io" where
  "exchange_file_block_ranges_journaled D sb left_id left_index right_id right_index n_blocks =
     (if left_id = right_id \<or> n_blocks = 0 then io_fail InvalidInput
      else
      io_bind (load_allocator D sb) (\<lambda>allocator.
      io_bind (load_inode_table D sb) (\<lambda>inodes.
      io_bind (io_lift (exchange_edit left_id left_index right_id right_index n_blocks allocator inodes)) (\<lambda>inodes'.
      publish_exchange_inodes D sb inodes'))))"

record file_block_exchange_range =
  fxr_inode :: u64
  fxr_start :: nat
  fxr_block_count :: nat

definition exchange_range_end :: "file_block_exchange_range \<Rightarrow> nat io_result" where
  "exchange_range_end r =
     (if fxr_block_count r = 0 then Inl InvalidInput
      else ok_or InvalidInput (checked_add (fxr_start r) (fxr_block_count r)))"

definition validate_variable_exchange_ranges ::
    "persisted_inode list \<Rightarrow> file_block_exchange_range \<Rightarrow> file_block_exchange_range \<Rightarrow> (nat \<times> nat \<times> nat \<times> nat) io_result" where
  "validate_variable_exchange_ranges inodes left right =
     (if fxr_inode left = fxr_inode right then Inl InvalidInput
      else
      res_bind (exchange_range_end left) (\<lambda>left_end.
      res_bind (exchange_range_end right) (\<lambda>right_end.
      res_bind (clone_endpoints inodes (fxr_inode left) (fxr_inode right)) (\<lambda>(left_pos, right_pos).
      if left_end > length (pi_blocks (inodes ! left_pos)) \<or> right_end > length (pi_blocks (inodes ! right_pos)) then Inl InvalidInput
      else Inr (left_pos, left_end, right_pos, right_end)))))"

definition exchange_variable_edit :: "file_block_exchange_range \<Rightarrow> file_block_exchange_range \<Rightarrow> block_allocator \<Rightarrow> persisted_inode list \<Rightarrow> persisted_inode list io_result" where
  "exchange_variable_edit left right allocator inodes =
     res_bind (validate_variable_exchange_ranges inodes left right) (\<lambda>(left_pos, left_end, right_pos, right_end).
     res_bind (validate_exchange_ownership allocator (inodes ! left_pos) (inodes ! right_pos)) (\<lambda>_.
     let left_blocks = block_slice (fxr_start left) left_end (pi_blocks (inodes ! left_pos));
         right_blocks = block_slice (fxr_start right) right_end (pi_blocks (inodes ! right_pos)) in
     res_bind (splice_inode left_pos (fxr_start left) left_end right_blocks inodes) (\<lambda>(_, inodes').
     res_bind (splice_inode right_pos (fxr_start right) right_end left_blocks inodes') (\<lambda>(_, inodes'').
     Inr inodes''))))"

definition exchange_variable_file_block_ranges_journaled ::
    "'d block_device \<Rightarrow> superblock \<Rightarrow> file_block_exchange_range \<Rightarrow> file_block_exchange_range \<Rightarrow> ('d, recovery_report) dev_io" where
  "exchange_variable_file_block_ranges_journaled D sb left right =
     io_bind (load_allocator D sb) (\<lambda>allocator.
     io_bind (load_inode_table D sb) (\<lambda>inodes.
     io_bind (io_lift (exchange_variable_edit left right allocator inodes)) (\<lambda>inodes'.
     publish_exchange_inodes D sb inodes')))"

definition reordered :: "nat \<Rightarrow> nat \<Rightarrow> nat \<Rightarrow> nat \<Rightarrow> 'a list \<Rightarrow> 'a list" where
  "reordered earlier_start earlier_end later_start later_end old =
     take earlier_start old @ block_slice later_start later_end old @ block_slice earlier_end later_start old @
     block_slice earlier_start earlier_end old @ drop later_end old"

definition exchange_same_edit :: "u64 \<Rightarrow> nat \<Rightarrow> nat \<Rightarrow> nat \<Rightarrow> nat \<Rightarrow> block_allocator \<Rightarrow> persisted_inode list \<Rightarrow> persisted_inode list io_result" where
  "exchange_same_edit ino earlier_start earlier_end later_start later_end allocator inodes =
     res_bind (file_position ino inodes) (\<lambda>k.
     if later_end > length (pi_blocks (inodes ! k)) then Inl InvalidInput
     else
     res_bind (validate_single_exchange_ownership allocator (inodes ! k)) (\<lambda>_.
     Inr (inodes[k := (inodes ! k)\<lparr>pi_blocks := reordered earlier_start earlier_end later_start later_end (pi_blocks (inodes ! k))\<rparr>])))"

definition exchange_same_file_block_ranges_journaled ::
    "'d block_device \<Rightarrow> superblock \<Rightarrow> file_block_exchange_range \<Rightarrow> file_block_exchange_range \<Rightarrow> ('d, recovery_report) dev_io" where
  "exchange_same_file_block_ranges_journaled D sb first second =
     (if fxr_inode first \<noteq> fxr_inode second then io_fail InvalidInput
      else
      io_bind (io_lift (exchange_range_end first)) (\<lambda>first_end.
      io_bind (io_lift (exchange_range_end second)) (\<lambda>second_end.
      let (earlier_start, earlier_end, later_start, later_end) =
        (if fxr_start first \<le> fxr_start second then (fxr_start first, first_end, fxr_start second, second_end)
         else (fxr_start second, second_end, fxr_start first, first_end)) in
      if earlier_end > later_start then io_fail InvalidInput
      else
      io_bind (load_allocator D sb) (\<lambda>allocator.
      io_bind (load_inode_table D sb) (\<lambda>inodes.
      io_bind (io_lift (exchange_same_edit (fxr_inode first) earlier_start earlier_end later_start later_end allocator inodes)) (\<lambda>inodes'.
      publish_exchange_inodes D sb inodes'))))))"

section \<open>Whole files\<close>

definition publish_whole_file_exchange :: "'d block_device \<Rightarrow> superblock \<Rightarrow> persisted_inode list \<Rightarrow> ('d, recovery_report) dev_io" where
  "publish_whole_file_exchange D sb inodes =
     io_bind (collect_inode_changes D sb inodes) (commit_changed recover_journal_and_checkpoint D sb)"

definition exchange_complete_edit :: "nat \<Rightarrow> nat \<Rightarrow> persisted_inode list \<Rightarrow> persisted_inode list io_result" where
  "exchange_complete_edit left_pos right_pos inodes =
     res_bind (canonical_byte_len (inodes ! left_pos)) (\<lambda>left_byte_len.
     res_bind (canonical_byte_len (inodes ! right_pos)) (\<lambda>right_byte_len.
     let left_blocks = pi_blocks (inodes ! left_pos); right_blocks = pi_blocks (inodes ! right_pos) in
     res_bind (splice_inode left_pos 0 (length left_blocks) right_blocks inodes) (\<lambda>(_, inodes').
     res_bind (splice_inode right_pos 0 (length right_blocks) left_blocks inodes') (\<lambda>(_, inodes').
     res_bind (resize_inode left_pos right_byte_len inodes') (\<lambda>inodes'.
     resize_inode right_pos left_byte_len inodes')))))"

definition exchange_complete_file_blocks_journaled :: "'d block_device \<Rightarrow> superblock \<Rightarrow> u64 \<Rightarrow> u64 \<Rightarrow> ('d, recovery_report) dev_io" where
  "exchange_complete_file_blocks_journaled D sb left_id right_id =
     (if left_id = right_id then io_fail InvalidInput
      else
      io_bind (load_allocator D sb) (\<lambda>allocator.
      io_bind (load_inode_table D sb) (\<lambda>inodes.
      io_bind (io_lift (clone_endpoints inodes left_id right_id)) (\<lambda>(left_pos, right_pos).
      io_bind (io_lift (distinct_owned_loop allocator (pi_blocks (inodes ! left_pos) @ pi_blocks (inodes ! right_pos)) {})) (\<lambda>_.
      if pi_blocks (inodes ! left_pos) = [] \<and> pi_blocks (inodes ! right_pos) = []
      then io_return \<lparr>committed_transactions = 0, home_writes = 0\<rparr>
      else
      io_bind (io_lift (exchange_complete_edit left_pos right_pos inodes)) (\<lambda>inodes'.
      publish_whole_file_exchange D sb inodes'))))))"

definition publish_whole_file_transfer_replace ::
    "'d block_device \<Rightarrow> superblock \<Rightarrow> persisted_inode list \<Rightarrow> block_allocator \<Rightarrow> ('d, recovery_report) dev_io" where
  "publish_whole_file_transfer_replace D sb inodes allocator =
     io_bind (collect_file_changes D sb allocator inodes) (commit_changed recover_journal_and_checkpoint D sb)"

definition transfer_replace_edit :: "nat \<Rightarrow> nat \<Rightarrow> block_allocator \<Rightarrow> persisted_inode list \<Rightarrow> (block_allocator \<times> persisted_inode list) io_result" where
  "transfer_replace_edit source_pos destination_pos allocator inodes =
     res_bind (canonical_byte_len (inodes ! source_pos)) (\<lambda>source_byte_len.
     res_bind (splice_inode source_pos 0 (length (pi_blocks (inodes ! source_pos))) [] inodes) (\<lambda>(source_blocks, inodes').
     res_bind (splice_inode destination_pos 0 (length (pi_blocks (inodes' ! destination_pos))) source_blocks inodes') (\<lambda>(displaced, inodes').
     res_bind (resize_inode destination_pos source_byte_len inodes') (\<lambda>inodes'.
     res_bind (free_blocks_in InvalidData displaced allocator) (\<lambda>allocator'.
     Inr (allocator', inodes'))))))"

definition transfer_replace_complete_file_blocks_journaled ::
    "'d block_device \<Rightarrow> superblock \<Rightarrow> u64 \<Rightarrow> u64 \<Rightarrow> ('d, recovery_report) dev_io" where
  "transfer_replace_complete_file_blocks_journaled D sb source_id destination_id =
     (if source_id = destination_id then io_fail InvalidInput
      else
      io_bind (load_allocator D sb) (\<lambda>allocator.
      io_bind (load_inode_table D sb) (\<lambda>inodes.
      io_bind (io_lift (clone_endpoints inodes source_id destination_id)) (\<lambda>(source_pos, destination_pos).
      io_bind (io_lift (distinct_owned_loop allocator (pi_blocks (inodes ! source_pos) @ pi_blocks (inodes ! destination_pos)) {})) (\<lambda>_.
      if pi_blocks (inodes ! source_pos) = [] \<and> pi_blocks (inodes ! destination_pos) = []
      then io_return \<lparr>committed_transactions = 0, home_writes = 0\<rparr>
      else
      io_bind (io_lift (transfer_replace_edit source_pos destination_pos allocator inodes)) (\<lambda>(allocator', inodes').
      publish_whole_file_transfer_replace D sb inodes' allocator'))))))"

section \<open>Rearranging references\<close>

text \<open>
  The new contents of an inode: a block list, and the byte length that keeps the unused part of the
  last block as it was.
\<close>

definition inode_of :: "persisted_inode list \<Rightarrow> u64 \<Rightarrow> persisted_inode" where
  "inode_of inodes ino = hd (filter (\<lambda>i. pi_id i = ino) inodes)"

definition same_slack :: "persisted_inode \<Rightarrow> u64 list \<Rightarrow> u64 list \<times> u64" where
  "same_slack i bl = (bl, if bl = [] then 0 else length bl * BLOCK_SIZE - tail_slack i)"

definition relinked :: "disk \<Rightarrow> persisted_inode list \<Rightarrow> directory_entry list \<Rightarrow> (u64 \<rightharpoonup> u64 list \<times> u64) \<Rightarrow> disk \<Rightarrow> fs_tables \<Rightarrow> bool" where
  "relinked v inodes entries m x t' \<longleftrightarrow> (case t' of (al', inodes', entries') \<Rightarrow> entries' = entries \<and> length inodes' = length inodes \<and>
     (\<forall>k < length inodes. pi_id (inodes' ! k) = pi_id (inodes ! k) \<and> pi_kind (inodes' ! k) = pi_kind (inodes ! k) \<and>
        (pi_blocks (inodes' ! k), pi_byte_len (inodes' ! k)) =
          (case m (pi_id (inodes ! k)) of None \<Rightarrow> (pi_blocks (inodes ! k), pi_byte_len (inodes ! k)) | Some c \<Rightarrow> c) \<and>
        file_blocks x (inodes' ! k) = map v (pi_blocks (inodes' ! k))))"

text \<open>An update of the table that keeps every reference, except those that become free.\<close>

lemma owned_refs_update:
  "k < length inodes \<Longrightarrow> mset (owned_refs (inodes[k := i])) + mset (pi_blocks (inodes ! k)) = mset (owned_refs inodes) + mset (pi_blocks i)"
proof (induction inodes arbitrary: k)
  case (Cons j inodes)
  show ?case
  proof (cases k)
    case (Suc k')
    then show ?thesis using Cons.IH [of k'] Cons.prems by (simp add: owned_refs_def add.assoc)
  qed (simp add: owned_refs_def)
qed simp

definition rearranges :: "persisted_inode list \<Rightarrow> persisted_inode list \<Rightarrow> u64 list \<Rightarrow> bool" where
  "rearranges inodes inodes' gone \<longleftrightarrow> map pi_id inodes' = map pi_id inodes \<and> map pi_kind inodes' = map pi_kind inodes \<and>
     (\<forall>i \<in> set inodes'. i \<in> set inodes \<or> pi_kind i = File \<and> inode_ok i) \<and> mset (owned_refs inodes') + mset gone = mset (owned_refs inodes)"

lemma rearranges_update:
  assumes ok: "fs_ok sb v al inodes entries" and r: "rearranges inodes inodes' gone"
    and al': "allocator_inv al'" "owned_blocks al' = owned_blocks al - set gone"
  shows "file_update sb inodes al' inodes'"
proof -
  note own = fs_okD(10) [OF ok, unfolded ownership_ok_def]
  from r have ids: "map pi_id inodes' = map pi_id inodes" "map pi_kind inodes' = map pi_kind inodes"
    and new: "\<forall>i \<in> set inodes'. i \<in> set inodes \<or> pi_kind i = File \<and> inode_ok i"
    and m: "mset (owned_refs inodes' @ gone) = mset (owned_refs inodes)" by (simp_all add: rearranges_def)
  have d: "distinct (owned_refs inodes' @ gone)" using own m mset_eq_imp_distinct_iff by blast
  have s: "set (owned_refs inodes') \<union> set gone = set (owned_refs inodes)" using mset_eq_setD [OF m] by simp
  have o: "ownership_ok sb al' inodes'" using d s own al'(2) by (auto simp: ownership_ok_def)
  have "inode_typed i" if i: "i \<in> set inodes'" "pi_kind i = File" "inode_ok i" for i
  proof (rule inode_typed_file [OF i(3,2)])
    have "pi_id i \<in> set (map pi_id inodes)" using i(1) unfolding ids(1) [symmetric] by simp
    then show "pi_id i < U64_LIMIT" using fs_okD(8) [OF ok] by (auto simp: inode_typed_def)
    have "b \<in> set (owned_refs inodes)" if "b \<in> set (pi_blocks i)" for b using that i(1) s by (auto simp: owned_refs_def)
    then show "\<forall>b \<in> set (pi_blocks i). b < U64_LIMIT" using fs_okD(8) [OF ok] by (fastforce simp: owned_refs_def inode_typed_def)
  qed
  then have "\<forall>i \<in> set inodes'. inode_ok i \<and> inode_typed i" using new fs_okD(8) [OF ok] by blast
  then show ?thesis using ids o al'(1) new by (auto simp: file_update_def)
qed

text \<open>Replacing one inode of the table, and then another.\<close>

lemma rearranges_one:
  assumes "k < length inodes" and "pi_id i = pi_id (inodes ! k)" "pi_kind i = File" "pi_kind (inodes ! k) = File" "inode_ok i"
    and "mset (pi_blocks i) + mset gone = mset (pi_blocks (inodes ! k))"
  shows "rearranges inodes (inodes[k := i]) gone"
proof -
  have "mset (owned_refs (inodes[k := i])) + mset gone + mset (pi_blocks i) = mset (owned_refs inodes) + mset (pi_blocks i)"
    using owned_refs_update [OF assms(1), of i] unfolding assms(6) [symmetric] by (simp only: ac_simps)
  then have "mset (owned_refs (inodes[k := i])) + mset gone = mset (owned_refs inodes)" by (rule add_right_imp_eq)
  moreover have "map pi_id (inodes[k := i]) = map pi_id inodes" "map pi_kind (inodes[k := i]) = map pi_kind inodes"
    using assms(1-4) by (simp_all add: map_update list_update_same_conv)
  moreover have "\<forall>j \<in> set (inodes[k := i]). j \<in> set inodes \<or> pi_kind j = File \<and> inode_ok j"
    using set_update_subset_insert [of inodes k i] assms(3,5) by blast
  ultimately show ?thesis by (simp add: rearranges_def)
qed

lemma rearranges_two:
  assumes "s < length inodes" "d < length inodes" "s \<noteq> d" and i: "pi_id i = pi_id (inodes ! s)" "pi_kind i = File" "pi_kind (inodes ! s) = File" "inode_ok i"
    and j: "pi_id j = pi_id (inodes ! d)" "pi_kind j = File" "pi_kind (inodes ! d) = File" "inode_ok j"
    and m: "mset (pi_blocks i) + mset (pi_blocks j) + mset gone = mset (pi_blocks (inodes ! s)) + mset (pi_blocks (inodes ! d))"
  shows "rearranges inodes (inodes[s := i, d := j]) gone"
proof -
  let ?one = "inodes[s := i]"
  have d: "?one ! d = inodes ! d" "d < length ?one" using assms(2,3) by simp_all
  have "mset (owned_refs (?one[d := j])) + mset gone + (mset (pi_blocks (inodes ! s)) + mset (pi_blocks (inodes ! d)))
      = mset (owned_refs inodes) + (mset (pi_blocks (inodes ! s)) + mset (pi_blocks (inodes ! d)))"
  proof -
    have "mset (owned_refs (?one[d := j])) + mset gone + (mset (pi_blocks (inodes ! s)) + mset (pi_blocks (inodes ! d)))
        = (mset (owned_refs (?one[d := j])) + mset (pi_blocks (?one ! d))) + mset (pi_blocks (inodes ! s)) + mset gone" using d by (simp add: ac_simps)
    also have "\<dots> = (mset (owned_refs ?one) + mset (pi_blocks (inodes ! s))) + mset (pi_blocks j) + mset gone"
      using owned_refs_update [OF d(2), of j] by (simp add: ac_simps)
    also have "\<dots> = mset (owned_refs inodes) + (mset (pi_blocks i) + mset (pi_blocks j) + mset gone)"
      using owned_refs_update [OF assms(1), of i] by (simp add: ac_simps)
    finally show ?thesis unfolding m .
  qed
  then have "mset (owned_refs (?one[d := j])) + mset gone = mset (owned_refs inodes)" by (rule add_right_imp_eq)
  moreover have "map pi_id (?one[d := j]) = map pi_id inodes" "map pi_kind (?one[d := j]) = map pi_kind inodes"
    using assms(1-3) i(1-3) j(1-3) by (auto simp: list_eq_iff_nth_eq nth_list_update)
  moreover have "\<forall>l \<in> set (?one[d := j]). l \<in> set inodes \<or> pi_kind l = File \<and> inode_ok l"
    using set_update_subset_insert [of inodes s i] set_update_subset_insert [of ?one d j] i(2,4) j(2,4) by blast
  ultimately show ?thesis by (simp add: rearranges_def)
qed

section \<open>Publishing a rearrangement\<close>

lemma relinkedI:
  assumes "\<And>k. k < length inodes \<Longrightarrow> (pi_blocks (inodes' ! k), pi_byte_len (inodes' ! k)) =
       (case m (pi_id (inodes ! k)) of None \<Rightarrow> (pi_blocks (inodes ! k), pi_byte_len (inodes ! k)) | Some c \<Rightarrow> c)"
    and ok: "fs_ok sb x al' inodes' entries" and r: "rearranges inodes inodes' gone" and x: "\<And>b. reserved_blocks sb \<le> b \<Longrightarrow> x b = v b"
  shows "relinked v inodes entries m x (al', inodes', entries)"
proof -
  have ids: "map pi_id inodes' = map pi_id inodes" "map pi_kind inodes' = map pi_kind inodes" using r by (simp_all add: rearranges_def)
  have len: "length inodes' = length inodes" using ids(1) by (metis length_map)
  have "file_blocks x (inodes' ! k) = map v (pi_blocks (inodes' ! k))" if "k < length inodes" for k
    using x fs_ok_owned [OF ok nth_mem] that len by (simp add: file_blocks_def)
  then show ?thesis using assms(1) len ids by (simp add: relinked_def list_eq_iff_nth_eq)
qed

lemma relink_tx:
  assumes a: "addressable sb" and ok: "fs_ok sb v al inodes entries" and q: "recovers sb v v" and r: "rearranges inodes inodes' []"
    and m: "\<And>k. k < length inodes \<Longrightarrow> (pi_blocks (inodes' ! k), pi_byte_len (inodes' ! k)) =
       (case m (pi_id (inodes ! k)) of None \<Rightarrow> (pi_blocks (inodes ! k), pi_byte_len (inodes ! k)) | Some c \<Rightarrow> c)"
  shows "atomic_op sb v (al, inodes, entries) (publish_inode_table_transfer (trace_device (sb_total_blocks sb)) sb inodes') (\<lambda>_. relinked v inodes entries m)"
proof -
  have u: "file_update sb inodes al inodes'" by (rule rearranges_update [OF ok r fs_okD(4) [OF ok]]) simp
  show ?thesis
  proof (rule inode_update_tx [OF a q ok u])
    fix rep x evs
    assume run: "\<And>tr. publish_inode_table_transfer (trace_device (sb_total_blocks sb)) sb inodes' (v, tr) = (Inr rep, x, tr @ evs)"
      and re: "reaches sb v x evs al inodes' entries" and x: "\<And>b. reserved_blocks sb \<le> b \<Longrightarrow> x b = v b"
    have "relinked v inodes entries m x (al, inodes', entries)" by (rule relinkedI [OF m reachesD(1) [OF re] r x])
    then show ?thesis by (rule atomic_op_done [OF run re ok])
  qed (rule atomic_op_failed)
qed

text \<open>The whole-file operations skip the transaction when no block of the tables changes.\<close>

lemma unchanged_images:
  assumes "image_changes ps v = []" shows "put_images ps v = v"
  using write_all_image_changes [of v ps] assms by (simp add: write_all_def)

lemma relink_commit_tx:
  assumes a: "addressable sb" and ok: "fs_ok sb v al inodes entries" and q: "recovers sb v v" and r: "rearranges inodes inodes' []"
    and m: "\<And>k. k < length inodes \<Longrightarrow> (pi_blocks (inodes' ! k), pi_byte_len (inodes' ! k)) =
       (case m (pi_id (inodes ! k)) of None \<Rightarrow> (pi_blocks (inodes ! k), pi_byte_len (inodes ! k)) | Some c \<Rightarrow> c)"
  shows "atomic_op sb v (al, inodes, entries) (publish_whole_file_exchange (trace_device (sb_total_blocks sb)) sb inodes') (\<lambda>_. relinked v inodes entries m)"
proof (cases "inode_images sb inodes'")
  case (Inl e)
  then show ?thesis by (intro atomic_op_failed) (simp add: publish_whole_file_exchange_def io_simps collect_inode_trace [OF a])
next
  case (Inr ps)
  show ?thesis
  proof (cases "image_changes ps v = []")
    case True
    have u: "file_update sb inodes al inodes'" by (rule rearranges_update [OF ok r fs_okD(4) [OF ok]]) simp
    have "holds_tables sb v al inodes' entries"
      using holds_inodes [OF addressable_geometry [OF a] Inr _ fs_okD(3) [OF ok]] u unchanged_images [OF True] by (auto simp: file_update_def)
    then have same: "inodes' = inodes" using fs_okD(3) [OF ok] by (simp add: holds_tables_def)
    have "relinked v inodes entries m v (al, inodes, entries)" by (rule relinkedI [OF m [unfolded same] ok r [unfolded same]]) simp_all
    then show ?thesis
      by (intro atomic_op_same [OF _ ok q]) (simp_all add: publish_whole_file_exchange_def io_simps collect_inode_trace [OF a] Inr commit_changed_def True)
  next
    case False
    have "publish_whole_file_exchange (trace_device (sb_total_blocks sb)) sb inodes' (v, tr) =
        publish_inode_table_transfer (trace_device (sb_total_blocks sb)) sb inodes' (v, tr)" for tr
      using False by (simp add: publish_whole_file_exchange_def publish_inode_table_transfer_def io_simps collect_inode_trace [OF a] Inr commit_changed_def)
    then show ?thesis using relink_tx [OF a ok q r m] by (simp add: atomic_op_def)
  qed
qed

lemma relink_free_tx:
  assumes a: "addressable sb" and ok: "fs_ok sb v al inodes entries" and q: "recovers sb v v" and r: "rearranges inodes inodes' gone"
    and al': "allocator_inv al'" "owned_blocks al' = owned_blocks al - set gone"
    and m: "\<And>k. k < length inodes \<Longrightarrow> (pi_blocks (inodes' ! k), pi_byte_len (inodes' ! k)) =
       (case m (pi_id (inodes ! k)) of None \<Rightarrow> (pi_blocks (inodes ! k), pi_byte_len (inodes ! k)) | Some c \<Rightarrow> c)"
  shows "atomic_op sb v (al, inodes, entries) (publish_whole_file_transfer_replace (trace_device (sb_total_blocks sb)) sb inodes' al')
     (\<lambda>_ x t'. relinked v inodes entries m x t' \<and> fst t' = al')"
proof -
  note g = addressable_geometry [OF a]
  have u: "file_update sb inodes al' inodes'" by (rule rearranges_update [OF ok r al'])
  have w: "file_writes inodes' []" by (simp add: file_writes_def)
  show ?thesis
  proof (cases "file_images sb al' inodes'")
    case (Inl e)
    then show ?thesis by (intro atomic_op_failed) (simp add: publish_whole_file_transfer_replace_def io_simps collect_file_trace [OF a])
  next
    case (Inr ps)
    show ?thesis
    proof (cases "image_changes ps v = []")
      case True
      have "holds_tables sb v al' inodes' entries"
        using holds_file [OF g Inr _ _ fs_okD(3) [OF ok]] u unchanged_images [OF True] by (auto simp: file_update_def)
      then have same: "inodes' = inodes" "al' = al" using fs_okD(3) [OF ok] by (simp_all add: holds_tables_def)
      have "relinked v inodes entries m v (al, inodes, entries)" by (rule relinkedI [OF m [unfolded same] ok r [unfolded same]]) simp_all
      then show ?thesis
        by (intro atomic_op_same [OF _ ok q])
          (simp_all add: publish_whole_file_transfer_replace_def io_simps collect_file_trace [OF a] Inr [unfolded same] commit_changed_def True same)
    next
      case False
      have eq: "publish_whole_file_transfer_replace (trace_device (sb_total_blocks sb)) sb inodes' al' (v, tr) =
          publish_file_update (trace_device (sb_total_blocks sb)) sb al' inodes' [] (v, tr)" for tr
        using False by (simp add: publish_whole_file_transfer_replace_def publish_file_update_def io_simps collect_file_trace [OF a] Inr commit_changed_def)
      show ?thesis
      proof (rule file_update_tx [OF a q ok u w])
        fix rep x evs
        assume run: "\<And>tr. publish_file_update (trace_device (sb_total_blocks sb)) sb al' inodes' [] (v, tr) = (Inr rep, x, tr @ evs)"
          and re: "reaches sb v x evs al' inodes' entries" and x: "\<And>b. reserved_blocks sb \<le> b \<Longrightarrow> x b = write_all v [] b"
        have "relinked v inodes entries m x (al', inodes', entries)"
          by (rule relinkedI [OF m reachesD(1) [OF re] r]) (use x in \<open>simp_all add: write_all_def\<close>)
        then show ?thesis by (intro atomic_op_done [OF _ re ok, of _ rep]) (simp_all add: eq run)
      qed (auto intro!: atomic_op_failed simp: eq)
    qed
  qed
qed

section \<open>The edits rearrange\<close>

lemma distinct_owned_loop_ok: "distinct_owned_loop al bs seen = Inr () \<Longrightarrow> distinct bs"
proof -
  have "distinct_owned_loop al bs seen = Inr () \<Longrightarrow> distinct bs \<and> set bs \<inter> seen = {}"
    by (induction al bs seen rule: distinct_owned_loop.induct) (auto simp: res_bind_Inr split: if_splits)
  then show "distinct_owned_loop al bs seen = Inr () \<Longrightarrow> distinct bs" by blast
qed

lemma inode_of_position:
  assumes "distinct (map pi_id inodes)" and "k < length inodes"
  shows "inode_of inodes (pi_id (inodes ! k)) = inodes ! k"
proof -
  have "filter (\<lambda>i. pi_id i = pi_id (inodes ! k)) inodes = [inodes ! k]"
    using assms
  proof (induction inodes arbitrary: k)
    case (Cons i inodes)
    show ?case
    proof (cases k)
      case 0
      have "filter (\<lambda>j. pi_id j = pi_id i) inodes = []" using Cons.prems(1) by (simp add: filter_empty_conv) (metis imageI)
      then show ?thesis using 0 by simp
    next
      case (Suc k')
      then have "pi_id i \<noteq> pi_id (inodes ! k')" using Cons.prems by auto
      then show ?thesis using Suc Cons.IH [of k'] Cons.prems by simp
    qed
  qed simp
  then show ?thesis by (simp add: inode_of_def)
qed

lemma endpoints_facts:
  assumes ok: "fs_ok sb v al inodes entries" and e: "clone_endpoints inodes src dst = Inr (s, d)" and ne: "src \<noteq> dst"
  shows "s < length inodes" "d < length inodes" "s \<noteq> d" "pi_id (inodes ! s) = src" "pi_id (inodes ! d) = dst"
    "pi_kind (inodes ! s) = File" "pi_kind (inodes ! d) = File" "inode_ok (inodes ! s)" "inode_ok (inodes ! d)"
    "inode_of inodes src = inodes ! s" "inode_of inodes dst = inodes ! d"
proof -
  show p: "s < length inodes" "d < length inodes" "pi_id (inodes ! s) = src" "pi_id (inodes ! d) = dst"
    "pi_kind (inodes ! s) = File" "pi_kind (inodes ! d) = File"
    using clone_endpoints_Inr [OF e] file_position_Inr by blast+
  then show "s \<noteq> d" using ne by auto
  show "inode_ok (inodes ! s)" "inode_ok (inodes ! d)" using p fs_okD(8) [OF ok] by simp_all
  show "inode_of inodes src = inodes ! s" "inode_of inodes dst = inodes ! d" using p inode_of_position [OF fs_okD(7) [OF ok]] by auto
qed

lemma relink_map:
  assumes d: "distinct (map pi_id inodes)" and s: "s < length inodes" "d < length inodes" "s \<noteq> d"
    and c: "c = (pi_blocks i, pi_byte_len i)" "c' = (pi_blocks j, pi_byte_len j)" and k: "k < length inodes"
  shows "(pi_blocks (inodes[s := i, d := j] ! k), pi_byte_len (inodes[s := i, d := j] ! k)) =
     (case [pi_id (inodes ! s) \<mapsto> c, pi_id (inodes ! d) \<mapsto> c'] (pi_id (inodes ! k)) of
        None \<Rightarrow> (pi_blocks (inodes ! k), pi_byte_len (inodes ! k)) | Some c \<Rightarrow> c)"
    and "(pi_blocks (inodes[s := i] ! k), pi_byte_len (inodes[s := i] ! k)) =
     (case [pi_id (inodes ! s) \<mapsto> c] (pi_id (inodes ! k)) of None \<Rightarrow> (pi_blocks (inodes ! k), pi_byte_len (inodes ! k)) | Some c \<Rightarrow> c)"
proof -
  have "pi_id (inodes ! k) = pi_id (inodes ! l) \<longleftrightarrow> k = l" if "l < length inodes" for l
    using d k that by (auto simp: distinct_conv_nth)
  then show "(pi_blocks (inodes[s := i, d := j] ! k), pi_byte_len (inodes[s := i, d := j] ! k)) =
     (case [pi_id (inodes ! s) \<mapsto> c, pi_id (inodes ! d) \<mapsto> c'] (pi_id (inodes ! k)) of
        None \<Rightarrow> (pi_blocks (inodes ! k), pi_byte_len (inodes ! k)) | Some c \<Rightarrow> c)"
    "(pi_blocks (inodes[s := i] ! k), pi_byte_len (inodes[s := i] ! k)) =
     (case [pi_id (inodes ! s) \<mapsto> c] (pi_id (inodes ! k)) of None \<Rightarrow> (pi_blocks (inodes ! k), pi_byte_len (inodes ! k)) | Some c \<Rightarrow> c)"
    using s c k by (auto simp: nth_list_update)
qed

text \<open>A splice keeps the slack of the file.\<close>

lemma splice_inode_slack:
  assumes "splice_inode k lo hi rs inodes = Inr (ds, inodes')" and "inode_ok (inodes ! k)" and "pi_kind (inodes ! k) = File"
  obtains i where "inodes' = inodes[k := i]" "inode_ok i" "pi_id i = pi_id (inodes ! k)" "pi_kind i = File"
    "(pi_blocks i, pi_byte_len i) = same_slack (inodes ! k) (take lo (pi_blocks (inodes ! k)) @ rs @ drop hi (pi_blocks (inodes ! k)))"
    "lo \<le> hi" "hi \<le> length (pi_blocks (inodes ! k))" "ds = block_slice lo hi (pi_blocks (inodes ! k))"
proof -
  define i where "i = snd (replace_block_range lo hi rs (inodes ! k))"
  note s = splice_inode_Inr [OF assms(1), folded i_def]
  note r = replace_block_range_Inr [OF s(1)]
  let ?bl = "take lo (pi_blocks (inodes ! k)) @ rs @ drop hi (pi_blocks (inodes ! k))"
  have "pi_byte_len i = (if ?bl = [] then 0 else length ?bl * BLOCK_SIZE - tail_slack (inodes ! k))"
  proof (cases "?bl = []")
    case True
    then show ?thesis using r by (auto simp: inode_ok_def)
  next
    case False
    then have "pi_blocks i \<noteq> []" using r by simp
    from replace_block_range_slack [OF s(1) assms(2,3) this] r False assms(3)
    have "length ?bl * BLOCK_SIZE - pi_byte_len i = tail_slack (inodes ! k)" "pi_byte_len i \<le> length ?bl * BLOCK_SIZE"
      by (auto simp: tail_slack_def inode_ok_def split: if_splits)
    then have "pi_byte_len i = length ?bl * BLOCK_SIZE - tail_slack (inodes ! k)" by linarith
    then show ?thesis by (simp only: False if_False)
  qed
  then show thesis using r s(2) assms(3) by (intro that [of i]) (auto simp: same_slack_def block_slice_def)
qed


section \<open>The operations\<close>

text \<open>The table that an edit leaves: the inodes in \<open>m\<close> have new contents, the blocks \<open>gone\<close> are referenced no more.\<close>

definition relinks :: "persisted_inode list \<Rightarrow> persisted_inode list \<Rightarrow> (u64 \<rightharpoonup> u64 list \<times> u64) \<Rightarrow> u64 list \<Rightarrow> bool" where
  "relinks inodes inodes' m gone \<longleftrightarrow> rearranges inodes inodes' gone \<and>
     (\<forall>k < length inodes. (pi_blocks (inodes' ! k), pi_byte_len (inodes' ! k)) =
       (case m (pi_id (inodes ! k)) of None \<Rightarrow> (pi_blocks (inodes ! k), pi_byte_len (inodes ! k)) | Some c \<Rightarrow> c))"

lemma relinksD:
  assumes "relinks inodes inodes' m gone"
  shows "rearranges inodes inodes' gone"
    and "k < length inodes \<Longrightarrow> (pi_blocks (inodes' ! k), pi_byte_len (inodes' ! k)) =
       (case m (pi_id (inodes ! k)) of None \<Rightarrow> (pi_blocks (inodes ! k), pi_byte_len (inodes ! k)) | Some c \<Rightarrow> c)"
  using assms unfolding relinks_def by blast+

lemma relinks_tx:
  assumes "addressable sb" and "fs_ok sb v al inodes entries" and "recovers sb v v" and "relinks inodes inodes' m []"
  shows "atomic_op sb v (al, inodes, entries) (publish_inode_table_transfer (trace_device (sb_total_blocks sb)) sb inodes') (\<lambda>_. relinked v inodes entries m)"
    and "atomic_op sb v (al, inodes, entries) (publish_whole_file_exchange (trace_device (sb_total_blocks sb)) sb inodes') (\<lambda>_. relinked v inodes entries m)"
  by (rule relink_tx [OF assms(1-3) relinksD(1) [OF assms(4)]], erule relinksD(2) [OF assms(4)])
    (rule relink_commit_tx [OF assms(1-3) relinksD(1) [OF assms(4)]], erule relinksD(2) [OF assms(4)])

lemma relinks_two:
  assumes ok: "fs_ok sb v al inodes entries" and e: "clone_endpoints inodes src dst = Inr (s, d)" and ne: "src \<noteq> dst"
    and i: "pi_id i = src" "pi_kind i = File" "inode_ok i" and j: "pi_id j = dst" "pi_kind j = File" "inode_ok j"
    and m: "mset (pi_blocks i) + mset (pi_blocks j) + mset gone = mset (pi_blocks (inodes ! s)) + mset (pi_blocks (inodes ! d))"
  shows "relinks inodes (inodes[s := i, d := j]) [src \<mapsto> (pi_blocks i, pi_byte_len i), dst \<mapsto> (pi_blocks j, pi_byte_len j)] gone"
proof -
  note f = endpoints_facts [OF ok e ne]
  have "rearranges inodes (inodes[s := i, d := j]) gone" by (rule rearranges_two) (use f i j m in simp_all)
  then show ?thesis using relink_map(1) [OF fs_okD(7) [OF ok] f(1-3) refl refl] f(4,5) by (simp add: relinks_def)
qed

lemma relinks_one:
  assumes ok: "fs_ok sb v al inodes entries" and k: "file_position ino inodes = Inr k"
    and i: "pi_id i = ino" "pi_kind i = File" "inode_ok i" and m: "mset (pi_blocks i) = mset (pi_blocks (inodes ! k))"
  shows "relinks inodes (inodes[k := i]) [ino \<mapsto> (pi_blocks i, pi_byte_len i)] []"
proof -
  note f = file_position_Inr [OF k]
  have "rearranges inodes (inodes[k := i]) []" by (rule rearranges_one) (use f i m in simp_all)
  moreover have "pi_id (inodes ! l) = ino \<longleftrightarrow> l = k" if "l < length inodes" for l
    using f that fs_okD(7) [OF ok] by (auto simp: distinct_conv_nth)
  ultimately show ?thesis using f by (auto simp: relinks_def nth_list_update)
qed

lemma mset_slice: "lo \<le> hi \<Longrightarrow> mset (take lo xs) + (mset (block_slice lo hi xs) + mset (drop hi xs)) = mset xs"
proof -
  assume "lo \<le> hi"
  then have "xs = take lo xs @ block_slice lo hi xs @ drop hi xs"
    by (metis append_take_drop_id block_slice_def drop_drop le_add_diff_inverse2)
  then show ?thesis by (metis mset_append)
qed

lemma block_slice_empty: "block_slice lo lo xs = []"
  by (simp add: block_slice_def)

lemma position_facts:
  assumes ok: "fs_ok sb v al inodes entries" and k: "file_position ino inodes = Inr k"
  shows "inode_of inodes ino = inodes ! k" "inode_ok (inodes ! k)" "pi_kind (inodes ! k) = File" "pi_id (inodes ! k) = ino" "k < length inodes"
  using file_position_Inr [OF k] fs_okD(8) [OF ok] inode_of_position [OF fs_okD(7) [OF ok]] by auto

text \<open>A block list of the same length keeps an inode valid.\<close>

lemma inode_ok_blocks:
  "inode_ok i \<Longrightarrow> distinct bl \<Longrightarrow> length bl = length (pi_blocks i) \<Longrightarrow> inode_ok (i\<lparr>pi_blocks := bl\<rparr>)"
  by (auto simp: inode_ok_def split: if_splits)

lemma atomic_op_load_tables:
  assumes a: "addressable sb" and ok: "fs_ok sb v al inodes entries" and q: "recovers sb v v"
    and f: "atomic_op sb v t (f al inodes) Q"
  shows "atomic_op sb v t (io_bind (load_allocator (trace_device (sb_total_blocks sb)) sb) (\<lambda>al.
     io_bind (load_inode_table (trace_device (sb_total_blocks sb)) sb) (f al))) Q"
proof -
  have v: "disk_ok (sb_total_blocks sb) v" using q by (simp add: recovers_def)
  note l = fs_ok_loads [OF a v ok]
  show ?thesis using f by (auto intro!: atomic_op_read [OF l(1)] atomic_op_read [OF l(2)])
qed

lemma transfer_edit_relinks:
  assumes ok: "fs_ok sb v al inodes entries" and e: "transfer_edit src si n dst di al inodes = Inr (moved, inodes')" and ne: "src \<noteq> dst"
    and "A = pi_blocks (inode_of inodes src)" and "B = pi_blocks (inode_of inodes dst)"
  shows "moved = block_slice si (si + n) A"
    and "relinks inodes inodes' [src \<mapsto> same_slack (inode_of inodes src) (take si A @ drop (si + n) A),
       dst \<mapsto> same_slack (inode_of inodes dst) (take di B @ moved @ drop di B)] []"
proof -
  from e obtain s d ds ds' inodes1 where ep: "clone_endpoints inodes src dst = Inr (s, d)"
    and mv: "moved = block_slice si (si + n) (pi_blocks (inodes ! s))"
    and s1: "splice_inode s si (si + n) [] inodes = Inr (ds, inodes1)" and s2: "splice_inode d di di moved inodes1 = Inr (ds', inodes')"
    by (auto simp: transfer_edit_def res_bind_Inr ok_or_Inr Let_def split: if_splits)
  note f = endpoints_facts [OF ok ep ne]
  obtain i where i: "inodes1 = inodes[s := i]" "inode_ok i" "pi_id i = src" "pi_kind i = File"
    "(pi_blocks i, pi_byte_len i) = same_slack (inodes ! s) (take si (pi_blocks (inodes ! s)) @ [] @ drop (si + n) (pi_blocks (inodes ! s)))"
    by (rule splice_inode_slack [OF s1 f(8,6)]) (use f(4) in auto)
  have d: "inodes1 ! d = inodes ! d" using i(1) f(3) by simp
  obtain j where j: "inodes' = inodes1[d := j]" "inode_ok j" "pi_id j = dst" "pi_kind j = File"
    "(pi_blocks j, pi_byte_len j) = same_slack (inodes ! d) (take di (pi_blocks (inodes ! d)) @ moved @ drop di (pi_blocks (inodes ! d)))"
    by (rule splice_inode_slack [OF s2]) (use f d in auto)
  have "relinks inodes inodes' [src \<mapsto> (pi_blocks i, pi_byte_len i), dst \<mapsto> (pi_blocks j, pi_byte_len j)] []"
    unfolding j(1) i(1)
  proof (rule relinks_two [OF ok ep ne i(3,4,2) j(3,4,2)])
    have b: "pi_blocks i = take si (pi_blocks (inodes ! s)) @ drop (si + n) (pi_blocks (inodes ! s))"
      "pi_blocks j = take di (pi_blocks (inodes ! d)) @ moved @ drop di (pi_blocks (inodes ! d))"
      using i(5) j(5) by (simp_all add: same_slack_def)
    show "mset (pi_blocks i) + mset (pi_blocks j) + mset [] = mset (pi_blocks (inodes ! s)) + mset (pi_blocks (inodes ! d))"
      unfolding b mv mset_slice [of si "si + n" "pi_blocks (inodes ! s)", OF le_add1, symmetric]
        mset_slice [of di di "pi_blocks (inodes ! d)", OF order_refl, symmetric] by (simp add: block_slice_empty ac_simps)
  qed
  then show "relinks inodes inodes' [src \<mapsto> same_slack (inode_of inodes src) (take si A @ drop (si + n) A),
       dst \<mapsto> same_slack (inode_of inodes dst) (take di B @ moved @ drop di B)] []"
    using i(5) j(5) f(10,11) assms(4,5) by simp
  show "moved = block_slice si (si + n) A" using mv f(10) assms(4) by simp
qed

lemma transfer_atomic:
  assumes a: "addressable sb" and ok: "fs_ok sb v al inodes entries" and q: "recovers sb v v"
    and AB: "A = pi_blocks (inode_of inodes src)" "B = pi_blocks (inode_of inodes dst)"
  shows "atomic_op sb v (al, inodes, entries) (transfer_file_block_range_journaled (trace_device (sb_total_blocks sb)) sb src si n dst di)
     (\<lambda>(moved, rep) x t'. moved = block_slice si (si + n) A \<and>
        relinked v inodes entries [src \<mapsto> same_slack (inode_of inodes src) (take si A @ drop (si + n) A),
          dst \<mapsto> same_slack (inode_of inodes dst) (take di B @ moved @ drop di B)] x t')"
  unfolding transfer_file_block_range_journaled_def
proof (intro atomic_op_if atomic_op_fail atomic_op_load_tables [OF a ok q] atomic_op_lift, clarify)
  fix moved inodes'
  assume ne: "src \<noteq> dst" and e: "transfer_edit src si n dst di al inodes = Inr (moved, inodes')"
  note r = transfer_edit_relinks [OF ok e ne AB]
  show "atomic_op sb v (al, inodes, entries)
      (io_bind (publish_inode_table_transfer (trace_device (sb_total_blocks sb)) sb inodes') (\<lambda>report. io_return (moved, report)))
      (\<lambda>(moved, rep) x t'. moved = block_slice si (si + n) A \<and>
        relinked v inodes entries [src \<mapsto> same_slack (inode_of inodes src) (take si A @ drop (si + n) A),
          dst \<mapsto> same_slack (inode_of inodes dst) (take di B @ moved @ drop di B)] x t')"
    by (rule atomic_op_map [OF relinks_tx(1) [OF a ok q r(2)]]) (use r(1) in simp)
qed


lemma move_atomic:
  assumes a: "addressable sb" and ok: "fs_ok sb v al inodes entries" and q: "recovers sb v v"
    and A: "A = pi_blocks (inode_of inodes ino)" "B = take si A @ drop (si + n) A"
  shows "atomic_op sb v (al, inodes, entries) (move_file_block_range_journaled (trace_device (sb_total_blocks sb)) sb ino si n di)
     (\<lambda>(moved, rep) x t'. moved = block_slice si (si + n) A \<and>
        relinked v inodes entries [ino \<mapsto> (take di B @ moved @ drop di B, pi_byte_len (inode_of inodes ino))] x t')"
  unfolding move_file_block_range_journaled_def
proof (intro atomic_op_if atomic_op_fail atomic_op_load_tables [OF a ok q] atomic_op_lift, clarify)
  fix moved inodes'
  assume e: "move_edit ino si n di al inodes = Inr (moved, inodes')"
  then obtain k where k: "file_position ino inodes = Inr k" by (auto simp: move_edit_def res_bind_Inr)
  note f = position_facts [OF ok k]
  let ?bl = "take di B @ moved @ drop di B"
  have le: "si + n \<le> length A" and mv: "moved = block_slice si (si + n) A" and i': "inodes' = inodes[k := (inodes ! k)\<lparr>pi_blocks := ?bl\<rparr>]"
    using e k f(1) by (auto simp: move_edit_def res_bind_Inr ok_or_Inr Let_def A split: if_splits)
  have m: "mset ?bl = mset A"
  proof -
    have "mset ?bl = mset (take di B @ drop di B) + mset moved" by (simp only: mset_append ac_simps)
    also have "\<dots> = mset A" using mset_slice [of si "si + n" A, OF le_add1] by (simp only: append_take_drop_id A(2) mv mset_append ac_simps)
    finally show ?thesis .
  qed
  have "distinct ?bl" "length ?bl = length A"
    using mset_eq_imp_distinct_iff [OF m] mset_eq_length [OF m] f(2) A(1) f(1) by (simp_all add: inode_ok_def)
  then have "inode_ok ((inodes ! k)\<lparr>pi_blocks := ?bl\<rparr>)" using inode_ok_blocks [OF f(2)] A(1) f(1) by simp
  from relinks_one [OF ok k _ _ this] f m A(1)
  have r: "relinks inodes inodes' [ino \<mapsto> (?bl, pi_byte_len (inode_of inodes ino))] []" by (simp add: i')
  show "atomic_op sb v (al, inodes, entries)
      (io_bind (publish_inode_table_transfer (trace_device (sb_total_blocks sb)) sb inodes') (\<lambda>report. io_return (moved, report)))
      (\<lambda>(moved, rep) x t'. moved = block_slice si (si + n) A \<and>
        relinked v inodes entries [ino \<mapsto> (take di B @ moved @ drop di B, pi_byte_len (inode_of inodes ino))] x t')"
    by (rule atomic_op_map [OF relinks_tx(1) [OF a ok q r]]) (use mv in simp)
qed


lemma exchange_edit_relinks:
  assumes ok: "fs_ok sb v al inodes entries" and e: "exchange_edit l li r ri n al inodes = Inr inodes'" and ne: "l \<noteq> r"
    and "L = pi_blocks (inode_of inodes l)" and "R = pi_blocks (inode_of inodes r)"
  shows "relinks inodes inodes'
     [l \<mapsto> (take li L @ block_slice ri (ri + n) R @ drop (li + n) L, pi_byte_len (inode_of inodes l)),
      r \<mapsto> (take ri R @ block_slice li (li + n) L @ drop (ri + n) R, pi_byte_len (inode_of inodes r))] []"
proof -
  obtain s d where ep: "clone_endpoints inodes l r = Inr (s, d)" using e by (auto simp: exchange_edit_def res_bind_Inr)
  note f = endpoints_facts [OF ok ep ne]
  let ?L = "take li L @ block_slice ri (ri + n) R @ drop (li + n) L" and ?R = "take ri R @ block_slice li (li + n) L @ drop (ri + n) R"
  have LR: "pi_blocks (inodes ! s) = L" "pi_blocks (inodes ! d) = R" using assms(4,5) f(10,11) by simp_all
  have le: "li + n \<le> length L" "ri + n \<le> length R" and dl: "distinct_owned_loop al (L @ R) {} = Inr ()"
    and i': "inodes' = inodes[s := (inodes ! s)\<lparr>pi_blocks := ?L\<rparr>, d := (inodes ! d)\<lparr>pi_blocks := ?R\<rparr>]"
    using e ep LR by (auto simp: exchange_edit_def res_bind_Inr ok_or_Inr Let_def split: if_splits)
  have m: "mset (?L @ ?R) = mset (L @ R)"
    unfolding mset_append mset_slice [of li "li + n" L, OF le_add1, symmetric] mset_slice [of ri "ri + n" R, OF le_add1, symmetric]
    by (simp only: ac_simps)
  have dist: "distinct (?L @ ?R)" using mset_eq_imp_distinct_iff [OF m] distinct_owned_loop_ok [OF dl] by blast
  have "length ?L = length (pi_blocks (inodes ! s))" "length ?R = length (pi_blocks (inodes ! d))" using le LR by (simp_all add: block_slice_def)
  moreover have "distinct ?L" "distinct ?R" using dist unfolding distinct_append [of ?L ?R] by blast+
  ultimately have ok': "inode_ok ((inodes ! s)\<lparr>pi_blocks := ?L\<rparr>)" "inode_ok ((inodes ! d)\<lparr>pi_blocks := ?R\<rparr>)"
    using inode_ok_blocks f(8,9) by blast+
  let ?i = "(inodes ! s)\<lparr>pi_blocks := ?L\<rparr>" and ?j = "(inodes ! d)\<lparr>pi_blocks := ?R\<rparr>"
  have "relinks inodes inodes' [l \<mapsto> (pi_blocks ?i, pi_byte_len ?i), r \<mapsto> (pi_blocks ?j, pi_byte_len ?j)] []"
    unfolding i' by (rule relinks_two [OF ok ep ne _ _ ok'(1) _ _ ok'(2)]) (use f(4-7) m LR in \<open>simp_all add: add.assoc\<close>)
  then show ?thesis by (simp add: f(10,11))
qed

lemma exchange_atomic:
  assumes a: "addressable sb" and ok: "fs_ok sb v al inodes entries" and q: "recovers sb v v"
    and LR: "L = pi_blocks (inode_of inodes l)" "R = pi_blocks (inode_of inodes r)"
  shows "atomic_op sb v (al, inodes, entries) (exchange_file_block_ranges_journaled (trace_device (sb_total_blocks sb)) sb l li r ri n)
     (\<lambda>_. relinked v inodes entries
       [l \<mapsto> (take li L @ block_slice ri (ri + n) R @ drop (li + n) L, pi_byte_len (inode_of inodes l)),
        r \<mapsto> (take ri R @ block_slice li (li + n) L @ drop (ri + n) R, pi_byte_len (inode_of inodes r))])"
  unfolding exchange_file_block_ranges_journaled_def publish_exchange_inodes_def
proof (intro atomic_op_if atomic_op_fail atomic_op_load_tables [OF a ok q] atomic_op_lift)
  fix inodes'
  assume ne: "\<not> (l = r \<or> n = 0)" and e: "exchange_edit l li r ri n al inodes = Inr inodes'"
  note r = exchange_edit_relinks [OF ok e _ LR]
  show "atomic_op sb v (al, inodes, entries) (publish_inode_table_transfer (trace_device (sb_total_blocks sb)) sb inodes')
     (\<lambda>_. relinked v inodes entries
       [l \<mapsto> (take li L @ block_slice ri (ri + n) R @ drop (li + n) L, pi_byte_len (inode_of inodes l)),
        r \<mapsto> (take ri R @ block_slice li (li + n) L @ drop (ri + n) R, pi_byte_len (inode_of inodes r))])"
    by (rule relinks_tx(1) [OF a ok q r]) (use ne in simp)
qed

text \<open>Ranges of different lengths, and two disjoint ranges of one file.\<close>

lemma exchange_variable_relinks:
  assumes ok: "fs_ok sb v al inodes entries" and e: "exchange_variable_edit p q al inodes = Inr inodes'"
    and "L = pi_blocks (inode_of inodes (fxr_inode p))" and "R = pi_blocks (inode_of inodes (fxr_inode q))"
  shows "relinks inodes inodes'
     [fxr_inode p \<mapsto> same_slack (inode_of inodes (fxr_inode p))
        (take (fxr_start p) L @ block_slice (fxr_start q) (fxr_start q + fxr_block_count q) R @ drop (fxr_start p + fxr_block_count p) L),
      fxr_inode q \<mapsto> same_slack (inode_of inodes (fxr_inode q))
        (take (fxr_start q) R @ block_slice (fxr_start p) (fxr_start p + fxr_block_count p) L @ drop (fxr_start q + fxr_block_count q) R)] []"
proof -
  let ?l = "fxr_inode p" and ?r = "fxr_inode q" and ?le = "fxr_start p + fxr_block_count p" and ?re = "fxr_start q + fxr_block_count q"
  from e obtain s d ds ds' inodes1 where ne: "?l \<noteq> ?r" and ep: "clone_endpoints inodes ?l ?r = Inr (s, d)"
    and s1: "splice_inode s (fxr_start p) ?le (block_slice (fxr_start q) ?re (pi_blocks (inodes ! d))) inodes = Inr (ds, inodes1)"
    and s2: "splice_inode d (fxr_start q) ?re (block_slice (fxr_start p) ?le (pi_blocks (inodes ! s))) inodes1 = Inr (ds', inodes')"
    by (auto simp: exchange_variable_edit_def validate_variable_exchange_ranges_def exchange_range_end_def res_bind_Inr ok_or_Inr Let_def split: if_splits)
  note f = endpoints_facts [OF ok ep ne]
  have LR: "pi_blocks (inodes ! s) = L" "pi_blocks (inodes ! d) = R" using assms(3,4) f(10,11) by simp_all
  let ?L = "take (fxr_start p) L @ block_slice (fxr_start q) ?re R @ drop ?le L"
    and ?R = "take (fxr_start q) R @ block_slice (fxr_start p) ?le L @ drop ?re R"
  obtain i where i: "inodes1 = inodes[s := i]" "inode_ok i" "pi_id i = ?l" "pi_kind i = File"
    "(pi_blocks i, pi_byte_len i) = same_slack (inodes ! s) ?L"
    by (rule splice_inode_slack [OF s1 f(8,6)]) (use f(4) LR in auto)
  have d: "inodes1 ! d = inodes ! d" using i(1) f(3) by simp
  obtain j where j: "inodes' = inodes1[d := j]" "inode_ok j" "pi_id j = ?r" "pi_kind j = File"
    "(pi_blocks j, pi_byte_len j) = same_slack (inodes ! d) ?R"
    by (rule splice_inode_slack [OF s2]) (use f d LR in auto)
  have b: "pi_blocks i = ?L" "pi_blocks j = ?R" using i(5) j(5) by (simp_all add: same_slack_def)
  have "mset (?L @ ?R) = mset (L @ R)"
    unfolding mset_append mset_slice [of "fxr_start p" ?le L, OF le_add1, symmetric] mset_slice [of "fxr_start q" ?re R, OF le_add1, symmetric]
    by (simp only: ac_simps)
  then show ?thesis using relinks_two [OF ok ep ne i(3,4,2) j(3,4,2), of "[]"]
    unfolding i(1) [symmetric] j(1) [symmetric] i(5) j(5) f(10,11) by (simp add: b LR add.assoc)
qed

lemma exchange_variable_atomic:
  assumes a: "addressable sb" and ok: "fs_ok sb v al inodes entries" and rv: "recovers sb v v"
    and LR: "L = pi_blocks (inode_of inodes (fxr_inode p))" "R = pi_blocks (inode_of inodes (fxr_inode q))"
  shows "atomic_op sb v (al, inodes, entries) (exchange_variable_file_block_ranges_journaled (trace_device (sb_total_blocks sb)) sb p q)
     (\<lambda>_. relinked v inodes entries
     [fxr_inode p \<mapsto> same_slack (inode_of inodes (fxr_inode p))
        (take (fxr_start p) L @ block_slice (fxr_start q) (fxr_start q + fxr_block_count q) R @ drop (fxr_start p + fxr_block_count p) L),
      fxr_inode q \<mapsto> same_slack (inode_of inodes (fxr_inode q))
        (take (fxr_start q) R @ block_slice (fxr_start p) (fxr_start p + fxr_block_count p) L @ drop (fxr_start q + fxr_block_count q) R)])"
  unfolding exchange_variable_file_block_ranges_journaled_def publish_exchange_inodes_def
proof (intro atomic_op_load_tables [OF a ok rv] atomic_op_lift)
  fix inodes'
  assume e: "exchange_variable_edit p q al inodes = Inr inodes'"
  note r = exchange_variable_relinks [OF ok e LR]
  show "atomic_op sb v (al, inodes, entries) (publish_inode_table_transfer (trace_device (sb_total_blocks sb)) sb inodes')
     (\<lambda>_. relinked v inodes entries
     [fxr_inode p \<mapsto> same_slack (inode_of inodes (fxr_inode p))
        (take (fxr_start p) L @ block_slice (fxr_start q) (fxr_start q + fxr_block_count q) R @ drop (fxr_start p + fxr_block_count p) L),
      fxr_inode q \<mapsto> same_slack (inode_of inodes (fxr_inode q))
        (take (fxr_start q) R @ block_slice (fxr_start p) (fxr_start p + fxr_block_count p) L @ drop (fxr_start q + fxr_block_count q) R)])"
    by (rule relinks_tx(1) [OF a ok rv r])
qed


lemma exchange_same_relinks:
  assumes ok: "fs_ok sb v al inodes entries" and e: "exchange_same_edit ino a b c d al inodes = Inr inodes'" and le: "a \<le> b" "b \<le> c" "c \<le> d"
  shows "relinks inodes inodes' [ino \<mapsto> (reordered a b c d (pi_blocks (inode_of inodes ino)), pi_byte_len (inode_of inodes ino))] []"
proof -
  obtain k where k: "file_position ino inodes = Inr k" using e by (auto simp: exchange_same_edit_def res_bind_Inr)
  note f = position_facts [OF ok k]
  let ?A = "pi_blocks (inodes ! k)" and ?bl = "reordered a b c d (pi_blocks (inodes ! k))"
  have i': "inodes' = inodes[k := (inodes ! k)\<lparr>pi_blocks := ?bl\<rparr>]"
    using e k by (auto simp: exchange_same_edit_def res_bind_Inr split: if_splits)
  have m: "mset ?bl = mset ?A"
  proof -
    have "mset ?A = mset (take a ?A) + (mset (block_slice a b ?A) + mset (drop b ?A))" by (rule mset_slice [OF le(1), symmetric])
    also have "mset (drop b ?A) = mset (block_slice b c ?A) + mset (drop c ?A)"
      using le(2) mset_slice [of 0 "c - b" "drop b ?A"] by (simp add: block_slice_def)
    also have "mset (drop c ?A) = mset (block_slice c d ?A) + mset (drop d ?A)"
      using le(3) mset_slice [of 0 "d - c" "drop c ?A"] by (simp add: block_slice_def)
    finally show ?thesis by (simp only: reordered_def mset_append ac_simps)
  qed
  have "distinct ?bl" "length ?bl = length ?A"
    using mset_eq_imp_distinct_iff [OF m] mset_eq_length [OF m] f(2) by (simp_all add: inode_ok_def)
  then have "inode_ok ((inodes ! k)\<lparr>pi_blocks := ?bl\<rparr>)" by (rule inode_ok_blocks [OF f(2)])
  from relinks_one [OF ok k _ _ this] f m show ?thesis by (simp add: i')
qed

definition exchanged_in_file :: "file_block_exchange_range \<Rightarrow> file_block_exchange_range \<Rightarrow> 'a list \<Rightarrow> 'a list" where
  "exchanged_in_file p q =
     (if fxr_start p \<le> fxr_start q
      then reordered (fxr_start p) (fxr_start p + fxr_block_count p) (fxr_start q) (fxr_start q + fxr_block_count q)
      else reordered (fxr_start q) (fxr_start q + fxr_block_count q) (fxr_start p) (fxr_start p + fxr_block_count p))"

lemma exchange_same_atomic:
  assumes a: "addressable sb" and ok: "fs_ok sb v al inodes entries" and rv: "recovers sb v v" and A: "A = inode_of inodes (fxr_inode p)"
  shows "atomic_op sb v (al, inodes, entries) (exchange_same_file_block_ranges_journaled (trace_device (sb_total_blocks sb)) sb p q)
     (\<lambda>_. relinked v inodes entries [fxr_inode p \<mapsto> (exchanged_in_file p q (pi_blocks A), pi_byte_len A)])" (is "atomic_op sb v _ _ ?Q")
proof -
  have *: "atomic_op sb v (al, inodes, entries)
      (io_bind (load_allocator (trace_device (sb_total_blocks sb)) sb) (\<lambda>al. io_bind (load_inode_table (trace_device (sb_total_blocks sb)) sb) (\<lambda>inodes.
       io_bind (io_lift (exchange_same_edit (fxr_inode p) b c d e al inodes)) (\<lambda>inodes'.
       publish_inode_table_transfer (trace_device (sb_total_blocks sb)) sb inodes')))) ?Q"
    if "b \<le> c" "c \<le> d" "d \<le> e" "exchanged_in_file p q (pi_blocks A) = reordered b c d e (pi_blocks A)" for b c d e
  proof (intro atomic_op_load_tables [OF a ok rv] atomic_op_lift)
    fix inodes' assume "exchange_same_edit (fxr_inode p) b c d e al inodes = Inr inodes'"
    note r = exchange_same_relinks [OF ok this that(1-3)]
    show "atomic_op sb v (al, inodes, entries) (publish_inode_table_transfer (trace_device (sb_total_blocks sb)) sb inodes') ?Q"
      using relinks_tx(1) [OF a ok rv r] that(4) A by simp
  qed
  show ?thesis
    unfolding exchange_same_file_block_ranges_journaled_def publish_exchange_inodes_def
  proof (intro atomic_op_if atomic_op_fail atomic_op_lift)
    fix pe qe assume "exchange_range_end p = Inr pe" "exchange_range_end q = Inr qe"
    then have "pe = fxr_start p + fxr_block_count p" "qe = fxr_start q + fxr_block_count q"
      by (auto simp: exchange_range_end_def ok_or_Inr split: if_splits)
    then show "atomic_op sb v (al, inodes, entries) (let (b, c, d, e) =
        (if fxr_start p \<le> fxr_start q then (fxr_start p, pe, fxr_start q, qe) else (fxr_start q, qe, fxr_start p, pe)) in
      if c > d then io_fail InvalidInput
      else io_bind (load_allocator (trace_device (sb_total_blocks sb)) sb) (\<lambda>al. io_bind (load_inode_table (trace_device (sb_total_blocks sb)) sb) (\<lambda>inodes.
       io_bind (io_lift (exchange_same_edit (fxr_inode p) b c d e al inodes)) (\<lambda>inodes'.
       publish_inode_table_transfer (trace_device (sb_total_blocks sb)) sb inodes')))) ?Q"
      by (cases "fxr_start p \<le> fxr_start q"; simp only: if_True if_False Let_def prod.case; intro atomic_op_if atomic_op_fail *)
        (simp_all add: exchanged_in_file_def)
  qed
qed


section \<open>Whole files\<close>

lemma resize_inode_Inr: "resize_inode k n inodes = Inr inodes' \<Longrightarrow> inodes' = inodes[k := (inodes ! k)\<lparr>pi_byte_len := n\<rparr>] \<and> inode_ok ((inodes ! k)\<lparr>pi_byte_len := n\<rparr>)"
  by (auto simp: resize_inode_def dest!: set_file_byte_len_Inr split: prod.splits sum.splits)

lemma splice_whole:
  assumes "splice_inode k 0 (length (pi_blocks (inodes ! k))) rs inodes = Inr (ds, inodes')" and "k < length inodes"
  shows "ds = pi_blocks (inodes ! k)" "pi_blocks (inodes' ! k) = rs" "pi_id (inodes' ! k) = pi_id (inodes ! k)"
    "pi_kind (inodes' ! k) = pi_kind (inodes ! k)" "inode_ok (inodes' ! k)" "\<exists>i. inodes' = inodes[k := i]"
  using splice_inode_Inr [OF assms(1)] replace_block_range_Inr [OF splice_inode_Inr(1) [OF assms(1)]] assms(2) by auto

lemma exchange_complete_relinks:
  assumes ok: "fs_ok sb v al inodes entries" and ep: "clone_endpoints inodes l r = Inr (s, d)" and ne: "l \<noteq> r"
    and e: "exchange_complete_edit s d inodes = Inr inodes'"
  shows "relinks inodes inodes' [l \<mapsto> (pi_blocks (inode_of inodes r), pi_byte_len (inode_of inodes r)),
     r \<mapsto> (pi_blocks (inode_of inodes l), pi_byte_len (inode_of inodes l))] []"
proof -
  note f = endpoints_facts [OF ok ep ne] and c = canonical_byte_len_ok
  from e c [OF f(8)] c [OF f(9)] obtain ds ds' i1 i2 i3
    where s1: "splice_inode s 0 (length (pi_blocks (inodes ! s))) (pi_blocks (inodes ! d)) inodes = Inr (ds, i1)"
      and s2: "splice_inode d 0 (length (pi_blocks (inodes ! d))) (pi_blocks (inodes ! s)) i1 = Inr (ds', i2)"
      and r1: "resize_inode s (pi_byte_len (inodes ! d)) i2 = Inr i3" and r2: "resize_inode d (pi_byte_len (inodes ! s)) i3 = Inr inodes'"
    by (auto simp: exchange_complete_edit_def res_bind_Inr Let_def)
  note w1 = splice_whole [OF s1 f(1)]
  obtain i where i: "i1 = inodes[s := i]" using w1(6) by blast
  have d1: "i1 ! d = inodes ! d" "d < length i1" using i f(2,3) by simp_all
  note w2 = splice_whole [OF s2 [folded d1(1)] d1(2)]
  obtain j where j: "i2 = inodes[s := i, d := j]" using w2(6) i by blast
  have n: "i1 ! s = i" "i2 ! s = i" "i2 ! d = j" using i j f(1-3) by simp_all
  let ?i = "i\<lparr>pi_byte_len := pi_byte_len (inodes ! d)\<rparr>" and ?j = "j\<lparr>pi_byte_len := pi_byte_len (inodes ! s)\<rparr>"
  have "i3 = inodes[s := ?i, d := j]" and oki: "inode_ok ?i"
    using resize_inode_Inr [OF r1] j n f(1-3) by (simp_all add: list_update_swap)
  then have i': "inodes' = inodes[s := ?i, d := ?j]" and okj: "inode_ok ?j"
    using resize_inode_Inr [OF r2] f(1-3) by simp_all
  have "relinks inodes inodes' [l \<mapsto> (pi_blocks ?i, pi_byte_len ?i), r \<mapsto> (pi_blocks ?j, pi_byte_len ?j)] []"
    unfolding i' by (rule relinks_two [OF ok ep ne _ _ oki _ _ okj]) (use w1 w2 n d1 f(4-7) in \<open>simp_all add: ac_simps\<close>)
  then show ?thesis using w1 w2 n d1 f(10,11) by simp
qed

lemma relinked_same:
  assumes "\<And>k c. k < length inodes \<Longrightarrow> m (pi_id (inodes ! k)) = Some c \<Longrightarrow> c = (pi_blocks (inodes ! k), pi_byte_len (inodes ! k))"
  shows "relinked v inodes entries m v (al, inodes, entries)"
proof -
  have "(case m (pi_id (inodes ! k)) of None \<Rightarrow> (pi_blocks (inodes ! k), pi_byte_len (inodes ! k)) | Some c \<Rightarrow> c) = (pi_blocks (inodes ! k), pi_byte_len (inodes ! k))"
    if "k < length inodes" for k using assms [OF that] by (cases "m (pi_id (inodes ! k))") simp_all
  then show ?thesis by (simp add: relinked_def file_blocks_def)
qed

lemma empty_files:
  assumes ok: "fs_ok sb v al inodes entries" and ep: "clone_endpoints inodes l r = Inr (s, d)" and ne: "l \<noteq> r"
    and b: "pi_blocks (inodes ! s) = []" "pi_blocks (inodes ! d) = []"
  shows "relinked v inodes entries [l \<mapsto> ([], 0), r \<mapsto> ([], 0)] v (al, inodes, entries)"
    and "inode_of inodes l = inodes ! s" "inode_of inodes r = inodes ! d" "pi_byte_len (inodes ! s) = 0" "pi_byte_len (inodes ! d) = 0"
proof -
  note f = endpoints_facts [OF ok ep ne]
  have k: "k = s" if "k < length inodes" "pi_id (inodes ! k) = l" for k using that f fs_okD(7) [OF ok] by (auto simp: distinct_conv_nth)
  have k': "k = d" if "k < length inodes" "pi_id (inodes ! k) = r" for k using that f fs_okD(7) [OF ok] by (auto simp: distinct_conv_nth)
  show z: "pi_byte_len (inodes ! s) = 0" "pi_byte_len (inodes ! d) = 0" using f(8,9) b by (simp_all add: inode_ok_def)
  show "relinked v inodes entries [l \<mapsto> ([], 0), r \<mapsto> ([], 0)] v (al, inodes, entries)"
    by (rule relinked_same) (use k k' z b in \<open>auto split: if_splits\<close>)
  show "inode_of inodes l = inodes ! s" "inode_of inodes r = inodes ! d" using f(10,11) .
qed

lemma exchange_complete_atomic:
  assumes a: "addressable sb" and ok: "fs_ok sb v al inodes entries" and q: "recovers sb v v"
    and LR: "L = inode_of inodes l" "R = inode_of inodes r"
  shows "atomic_op sb v (al, inodes, entries) (exchange_complete_file_blocks_journaled (trace_device (sb_total_blocks sb)) sb l r)
     (\<lambda>_. relinked v inodes entries [l \<mapsto> (pi_blocks R, pi_byte_len R), r \<mapsto> (pi_blocks L, pi_byte_len L)])"
  unfolding exchange_complete_file_blocks_journaled_def
proof (intro atomic_op_if atomic_op_fail atomic_op_load_tables [OF a ok q] atomic_op_lift, clarify, intro atomic_op_if atomic_op_fail atomic_op_lift)
  fix s d
  assume ne: "l \<noteq> r" and ep: "clone_endpoints inodes l r = Inr (s, d)"
  {
    assume "pi_blocks (inodes ! s) = [] \<and> pi_blocks (inodes ! d) = []"
    then show "atomic_op sb v (al, inodes, entries) (io_return \<lparr>committed_transactions = 0, home_writes = 0\<rparr>)
        (\<lambda>_. relinked v inodes entries [l \<mapsto> (pi_blocks R, pi_byte_len R), r \<mapsto> (pi_blocks L, pi_byte_len L)])"
      using empty_files [OF ok ep ne] LR by (intro atomic_op_same [OF _ ok q]) (simp_all add: io_return_def)
  next
    fix inodes' assume "exchange_complete_edit s d inodes = Inr inodes'"
    from exchange_complete_relinks [OF ok ep ne this]
    show "atomic_op sb v (al, inodes, entries) (publish_whole_file_exchange (trace_device (sb_total_blocks sb)) sb inodes')
        (\<lambda>_. relinked v inodes entries [l \<mapsto> (pi_blocks R, pi_byte_len R), r \<mapsto> (pi_blocks L, pi_byte_len L)])"
      unfolding LR by (rule relinks_tx(2) [OF a ok q])
  }
qed


lemma transfer_replace_relinks:
  assumes ok: "fs_ok sb v al inodes entries" and ep: "clone_endpoints inodes src dst = Inr (s, d)" and ne: "src \<noteq> dst"
    and e: "transfer_replace_edit s d al inodes = Inr (al', inodes')"
  shows "relinks inodes inodes' [src \<mapsto> ([], 0), dst \<mapsto> (pi_blocks (inode_of inodes src), pi_byte_len (inode_of inodes src))]
      (pi_blocks (inode_of inodes dst))"
    and "allocator_inv al'" and "owned_blocks al' = owned_blocks al - set (pi_blocks (inode_of inodes dst))"
proof -
  note f = endpoints_facts [OF ok ep ne]
  from e canonical_byte_len_ok [OF f(8)] obtain sb' gone i1 i2
    where s1: "splice_inode s 0 (length (pi_blocks (inodes ! s))) [] inodes = Inr (sb', i1)"
      and s2: "splice_inode d 0 (length (pi_blocks (i1 ! d))) sb' i1 = Inr (gone, i2)"
      and r1: "resize_inode d (pi_byte_len (inodes ! s)) i2 = Inr inodes'" and fr: "free_blocks_in InvalidData gone al = Inr al'"
    by (auto simp: transfer_replace_edit_def res_bind_Inr)
  note w1 = splice_whole [OF s1 f(1)]
  obtain i where i: "i1 = inodes[s := i]" using w1(6) by blast
  have d1: "i1 ! d = inodes ! d" "d < length i1" using i f(2,3) by simp_all
  note w2 = splice_whole [OF s2 d1(2)]
  obtain j where j: "i2 = inodes[s := i, d := j]" using w2(6) i by blast
  have n: "i1 ! s = i" "i2 ! d = j" using i j f(1-3) by simp_all
  let ?j = "j\<lparr>pi_byte_len := pi_byte_len (inodes ! s)\<rparr>"
  have i': "inodes' = inodes[s := i, d := ?j]" and okj: "inode_ok ?j" using resize_inode_Inr [OF r1] j n f(1-3) by simp_all
  have oki: "inode_ok i" and z: "pi_blocks i = []" "pi_byte_len i = 0" using w1 n by (simp_all add: inode_ok_def)
  have g: "gone = pi_blocks (inode_of inodes dst)" using w2(1) d1(1) f(11) by simp
  have "relinks inodes inodes' [src \<mapsto> (pi_blocks i, pi_byte_len i), dst \<mapsto> (pi_blocks ?j, pi_byte_len ?j)] gone"
    unfolding i' by (rule relinks_two [OF ok ep ne _ _ oki _ _ okj]) (use w1 w2 n d1 f(4-7) z in simp_all)
  then show "relinks inodes inodes' [src \<mapsto> ([], 0), dst \<mapsto> (pi_blocks (inode_of inodes src), pi_byte_len (inode_of inodes src))]
      (pi_blocks (inode_of inodes dst))" using z w1 w2 n g f(10) by simp
  have "set gone \<subseteq> owned_blocks al" "distinct gone"
    using g f(11,2,9) fs_okD(10) [OF ok] by (auto simp: ownership_ok_def owned_refs_def inode_ok_def)
  then obtain b where "free_blocks_in InvalidData gone al = Inr b" "allocator_inv b" "owned_blocks b = owned_blocks al - set gone"
    by (rule free_blocks_in_ok [OF fs_okD(4) [OF ok]])
  then show "allocator_inv al'" "owned_blocks al' = owned_blocks al - set (pi_blocks (inode_of inodes dst))" using fr g by simp_all
qed

lemma transfer_replace_atomic:
  assumes a: "addressable sb" and ok: "fs_ok sb v al inodes entries" and q: "recovers sb v v"
    and AB: "A = inode_of inodes src" "B = inode_of inodes dst"
  shows "atomic_op sb v (al, inodes, entries) (transfer_replace_complete_file_blocks_journaled (trace_device (sb_total_blocks sb)) sb src dst)
     (\<lambda>_ x t'. relinked v inodes entries [src \<mapsto> ([], 0), dst \<mapsto> (pi_blocks A, pi_byte_len A)] x t' \<and>
        owned_blocks (fst t') = owned_blocks al - set (pi_blocks B))" (is "atomic_op sb v _ _ ?Q")
  unfolding transfer_replace_complete_file_blocks_journaled_def
proof (intro atomic_op_if atomic_op_fail atomic_op_load_tables [OF a ok q] atomic_op_lift, clarify, intro atomic_op_if atomic_op_fail atomic_op_lift, goal_cases)
  case (1 s d u)
  then show ?case using empty_files [OF ok 1(2,1)] AB by (intro atomic_op_same [OF _ ok q]) (simp_all add: io_return_def)
next
  case (2 s d u y)
  obtain al' inodes' where y: "y = (al', inodes')" by (metis prod.exhaust)
  note r = transfer_replace_relinks [OF ok 2(2,1) 2(5) [unfolded y]]
  have "atomic_op sb v (al, inodes, entries) (publish_whole_file_transfer_replace (trace_device (sb_total_blocks sb)) sb inodes' al')
     (\<lambda>_ x t'. relinked v inodes entries [src \<mapsto> ([], 0), dst \<mapsto> (pi_blocks A, pi_byte_len A)] x t' \<and> fst t' = al')"
    unfolding AB by (rule relink_free_tx [OF a ok q relinksD(1) [OF r(1)] r(2,3)], erule relinksD(2) [OF r(1)])
  then show ?case unfolding y prod.case by (rule atomic_op_weaken) (use r(3) AB in simp)
qed

end
