(* ===== verification/Example_Runs.thy ===== *)
theory Example_Runs
  imports Examples File_Move
begin

text \<open>
  Runs on the example filesystem that succeed. A transaction of few blocks fits the journal of the
  example geometry, small tables fit their regions, and the edits evaluate on the example tables.
\<close>

section \<open>Transactions that fit\<close>

lemma publish_succeeds:
  assumes a: "addressable sb" and v: "disk_ok (sb_total_blocks sb) v" and empty: "load_disk sb v = Inr []"
    and ws: "\<forall>(b, d) \<in> set ws. home_target sb b \<and> length d = BLOCK_SIZE" and fits: "journal_fits sb (length ws)"
  shows "\<exists>rep x evs. \<forall>tr. publish_and_recover recover_journal_and_checkpoint (trace_device (sb_total_blocks sb)) sb ws (v, tr) = (Inr rep, x, tr @ evs)"
proof -
  note g = addressable_geometry [OF a]
  obtain x evs where "store_outcome sb (txn_entries (0, ws)) v = (Inr (), x, evs)"
    using store_outcome_transaction(3) [OF a empty ws refl fits] by blast
  then obtain rep y us where o: "publish_outcome sb ws recovered recovery_events v = (Inr rep, y, us)"
    by (simp add: publish_outcome_def Let_def)
  have "\<forall>(b, d) \<in> set ws. b < U64_LIMIT \<and> length d = BLOCK_SIZE"
    using ws home_target_range(2) [OF g] geometry_okD(10) [OF g] by fastforce
  from publish_checkpoint_trace [OF g refl v this o] show ?thesis by blast
qed

lemma example_publish_runs:
  assumes "\<forall>(b, d) \<in> set ws. home_target example_superblock b \<and> length d = BLOCK_SIZE" and "length ws \<le> 5"
  shows "\<exists>rep x evs. \<forall>tr. publish_and_recover recover_journal_and_checkpoint (trace_device 64) example_superblock ws (example_tree, tr) = (Inr rep, x, tr @ evs)"
  using publish_succeeds [OF example_addressable _ example_tree_state(3) assms(1)] example_tree_state(4) example_fits [OF assms(2)] by simp

text \<open>Tables that fit the regions of the example geometry.\<close>

definition small_tables :: "block_allocator \<Rightarrow> persisted_inode list \<Rightarrow> bool" where
  "small_tables al inodes \<longleftrightarrow> allocator_inv al \<and> al_total_blocks al = 64 \<and> al_reserved_blocks al = 14 \<and>
     list_all (\<lambda>i. inode_ok i \<and> length (pi_blocks i) \<le> 4) inodes \<and> distinct (map pi_id inodes) \<and> length inodes \<le> 10"

lemma small_images:
  assumes "small_tables al inodes"
  shows "\<exists>A. allocator_image example_superblock al = Inr A" and "\<exists>I. inode_encode_image example_superblock inodes = Inr I"
proof -
  show "\<exists>A. allocator_image example_superblock al = Inr A"
    by (intro allocator_image_total [OF example_addressable]) (use assms in \<open>simp_all add: small_tables_def\<close>)
  show "\<exists>I. inode_encode_image example_superblock inodes = Inr I"
    unfolding inode_encode_image_def
  proof (rule encode_table_total [where m = 72])
    show "\<forall>i \<in> set inodes. \<exists>bs. encode_inode i = Inr bs \<and> length bs \<le> 72"
    proof
      fix i assume "i \<in> set inodes"
      then have i: "inode_ok i" "length (pi_blocks i) \<le> 4" using assms by (auto simp: small_tables_def list_all_iff)
      then show "\<exists>bs. encode_inode i = Inr bs \<and> length bs \<le> 72" using small_record [OF i] by fastforce
    qed
    show "32 + length inodes * 72 \<le> sb_inode_blocks example_superblock * BLOCK_SIZE"
      using assms by (simp add: small_tables_def BLOCK_SIZE_def)
  qed (use assms addressable_region_len(1) [OF example_addressable] in \<open>simp_all add: small_tables_def\<close>)
qed


lemma example_file_runs:
  assumes "small_tables al inodes" and "\<forall>(b, d) \<in> set ws. 14 \<le> b \<and> b < 64 \<and> length d = BLOCK_SIZE" and "length ws \<le> 2"
  shows "\<exists>rep x evs. \<forall>tr. publish_file_update (trace_device 64) example_superblock al inodes ws (example_tree, tr) = (Inr rep, x, tr @ evs)"
proof -
  obtain ps where ps: "file_images example_superblock al inodes = Inr ps" using small_images [OF assms(1)] by (auto simp: file_images_def)
  note s = snapshot_file [OF example_geometry ps]
  let ?ws = "image_changes ps example_tree @ ws"
  have "length (image_changes ps example_tree) \<le> 3"
    using length_image_changes [of ps example_tree] s(2) allocation_range_geometry(3) [OF example_geometry] inode_range_geometry(3) [OF example_geometry]
    by simp
  moreover have "\<forall>(b, d) \<in> set ?ws. home_target example_superblock b \<and> length d = BLOCK_SIZE"
    using snapshot_changes(2) [OF example_geometry s(1), of example_tree] assms(2) by (auto simp: home_target_def)
  ultimately obtain rep x evs where
    "\<And>tr. publish_and_recover recover_journal_and_checkpoint (trace_device 64) example_superblock ?ws (example_tree, tr) = (Inr rep, x, tr @ evs)"
    using example_publish_runs [of ?ws] assms(3) by auto
  then show ?thesis using collect_file_trace [OF example_addressable, of al inodes example_tree] ps
    by (auto simp: publish_file_update_def io_simps)
qed

lemma example_inode_runs:
  assumes "small_tables al inodes"
  shows "\<exists>rep x evs. \<forall>tr. publish_whole_file_exchange (trace_device 64) example_superblock inodes (example_tree, tr) = (Inr rep, x, tr @ evs)"
proof -
  obtain ps where ps: "inode_images example_superblock inodes = Inr ps" using small_images(2) [OF assms] by (auto simp: inode_images_def)
  note s = snapshot_inodes [OF example_geometry ps]
  let ?ws = "image_changes ps example_tree"
  have "length ?ws \<le> 5"
    using length_image_changes [of ps example_tree] s(2) inode_range_geometry(3) [OF example_geometry] by simp
  then obtain rep x evs where
    "\<And>tr. publish_and_recover recover_journal_and_checkpoint (trace_device 64) example_superblock ?ws (example_tree, tr) = (Inr rep, x, tr @ evs)"
    using example_publish_runs [of ?ws] snapshot_changes(2) [OF example_geometry s(1), of example_tree] by auto
  then show ?thesis using collect_inode_trace [OF example_addressable, of inodes example_tree] ps
    by (cases "?ws = []") (auto simp: publish_whole_file_exchange_def commit_changed_def io_simps io_return_def)
qed

section \<open>The tables after each edit\<close>

lemma example_loads:
  "load_allocator (trace_device 64) example_superblock (example_tree, tr) = (Inr example_allocator, example_tree, tr)"
  "load_inode_table (trace_device 64) example_superblock (example_tree, tr) = (Inr example_inodes, example_tree, tr)"
  "load_directory_table (trace_device 64) example_superblock (example_tree, tr) = (Inr example_dirents, example_tree, tr)"
  using fs_ok_loads [OF example_addressable _ example_tree_state(1)] example_tree_state(4) by simp_all

lemma example_allocate:
  obtains b al where "allocate_blocks 1 example_allocator = Inr ([b], al)" "allocator_inv al" "al_total_blocks al = 64" "al_reserved_blocks al = 14"
    "17 \<le> b" "b < 64" "owned_blocks al = insert b {14, 15, 16}"
proof -
  have free: "data_blocks example_allocator - owned_blocks example_allocator = {17..<64}"
    unfolding example_allocator_ok(2) by (auto simp: data_blocks_def example_allocator_def)
  obtain b al where r: "allocate_contiguous 1 example_allocator = Inr (b, al)"
    using allocate_contiguous_Inl(2) [OF example_allocator_ok(1), of 1 _ 20] free by (cases "allocate_contiguous 1 example_allocator") auto
  note f = allocate_contiguous_Inr [OF example_allocator_ok(1) r] and st = allocate_contiguous_step [OF example_allocator_ok(1) r]
  have "b \<in> {17..<64}" using st unfolding free by auto
  moreover have "allocate_blocks (Suc 0) example_allocator = Inr ([b], al)" using r by (simp add: allocate_def map_err_def)
  moreover have "al_total_blocks al = 64" "al_reserved_blocks al = 14" unfolding f(5) by (simp_all add: example_allocator_def)
  moreover have "owned_blocks al = insert b {14, 15, 16}" using st unfolding example_allocator_ok(2) by auto
  ultimately show thesis using st by (intro that [of b al]) simp_all
qed

lemma example_positions: "file_position 4 example_inodes = Inr 3" "file_position 5 example_inodes = Inr 4"
  by (simp_all add: file_position_def example_inodes_def)

lemmas inode_eval = splice_inode_def resize_inode_def set_file_byte_len_def example_inodes_def replace_block_range_def canonical_byte_len_def
  validate_inode_fields_def block_capacity_def BLOCK_SIZE_U64_def BLOCK_SIZE_def checked_mul_def checked_sub_def sub64_def invalid_input_def
  map_err_def io_simps Let_def

lemma example_splices:
  assumes "17 \<le> b" "b < 64"
  shows "splice_inode 3 1 1 [b] example_inodes = Inr ([], example_inodes[3 := \<lparr>pi_id = 4, pi_kind = File, pi_blocks = [14, b], pi_byte_len = 4101\<rparr>])"
    and "splice_inode 4 1 1 [b] example_inodes = Inr ([], example_inodes[4 := \<lparr>pi_id = 5, pi_kind = File, pi_blocks = [15, b], pi_byte_len = 4103\<rparr>])"
    and "splice_inode 3 0 1 [b] example_inodes = Inr ([14], example_inodes[3 := \<lparr>pi_id = 4, pi_kind = File, pi_blocks = [b], pi_byte_len = 5\<rparr>])"
  using assms by (simp_all add: inode_eval)


lemma example_small:
  "allocator_inv al \<Longrightarrow> al_total_blocks al = 64 \<Longrightarrow> al_reserved_blocks al = 14 \<Longrightarrow> inode_ok i \<Longrightarrow> length (pi_blocks i) \<le> 4 \<Longrightarrow>
     k \<in> {3, 4} \<Longrightarrow> pi_id i = pi_id (example_inodes ! k) \<Longrightarrow> small_tables al (example_inodes[k := i])"
proof -
  assume a: "allocator_inv al" "al_total_blocks al = 64" "al_reserved_blocks al = 14" and i: "inode_ok i" "length (pi_blocks i) \<le> 4"
    and k: "k \<in> {3, 4}" "pi_id i = pi_id (example_inodes ! k)"
  have "map pi_id (example_inodes[k := i]) = map pi_id example_inodes" using k by (auto simp: example_inodes_def)
  moreover have "list_all (\<lambda>i. inode_ok i \<and> length (pi_blocks i) \<le> 4) (example_inodes[k := i])"
    using example_inodes_ok(1) i set_update_subset_insert [of example_inodes k i]
    by (fastforce simp: list_all_iff example_inodes_def)
  moreover have "distinct (map pi_id example_inodes)" by (simp add: example_inodes_def)
  ultimately show ?thesis using a by (simp add: small_tables_def) (simp add: example_inodes_def)
qed

lemma example_owned: "b \<in> {14, 15, 16} \<Longrightarrow> is_owned example_allocator b = Inr True"
proof -
  assume b: "b \<in> {14, 15, 16}"
  then have "b < al_total_blocks example_allocator" by (auto simp: example_allocator_def)
  from is_owned_in_range [OF this] b show ?thesis unfolding example_allocator_ok(2) by simp
qed

section \<open>The runs\<close>

lemma example_append_run:
  assumes "length d = BLOCK_SIZE"
  obtains b rep x evs where "append_file_blocks_journaled (trace_device 64) example_superblock 4 [d] (example_tree, []) = (Inr ([b], rep), x, evs)"
proof -
  obtain b al where b: "allocate_blocks 1 example_allocator = Inr ([b], al)" "allocator_inv al" "al_total_blocks al = 64" "al_reserved_blocks al = 14"
    "17 \<le> b" "b < 64" by (rule example_allocate)
  let ?is = "example_inodes[3 := \<lparr>pi_id = 4, pi_kind = File, pi_blocks = [14, b], pi_byte_len = 4101\<rparr>]"
  have e: "append_edit allocate_blocks 4 1 example_allocator example_inodes = Inr ([b], [], al, ?is)"
    using b example_splices(1) [OF b(5,6)] by (simp add: append_edit_def add_blocks_def example_positions) (simp add: example_inodes_def)
  have "small_tables al ?is" by (rule example_small) (use b in \<open>simp_all add: inode_ok_def BLOCK_SIZE_def example_inodes_def\<close>)
  from example_file_runs [OF this, of "[(b, d)]"] assms b obtain rep x evs where
    "\<And>tr. publish_file_update (trace_device 64) example_superblock al ?is [(b, d)] (example_tree, tr) = (Inr rep, x, tr @ evs)" by auto
  then have "append_file_blocks_journaled (trace_device 64) example_superblock 4 [d] (example_tree, []) = (Inr ([b], rep), x, evs)"
    using e by (simp add: append_file_blocks_journaled_def append_blocks_with_def splice_file_def given_def io_simps example_loads io_return_def)
  then show thesis by (rule that)
qed


lemma example_replace_run:
  assumes "length d = BLOCK_SIZE"
  obtains b rep x evs where "replace_file_blocks_journaled (trace_device 64) example_superblock 4 0 1 [d] (example_tree, []) = (Inr ([b], [14], rep), x, evs)"
proof -
  obtain b al where b: "allocate_blocks 1 example_allocator = Inr ([b], al)" "allocator_inv al" "al_total_blocks al = 64" "al_reserved_blocks al = 14"
    "17 \<le> b" "b < 64" "owned_blocks al = insert b {14, 15, 16}" by (rule example_allocate)
  obtain al' where al': "free_blocks_in InvalidData [14] al = Inr al'" "allocator_inv al'" "al_total_blocks al' = al_total_blocks al"
    "al_reserved_blocks al' = al_reserved_blocks al" by (rule free_blocks_in_ok [OF b(2), of "[14]" InvalidData]) (use b(7) in auto)
  let ?is = "example_inodes[3 := \<lparr>pi_id = 4, pi_kind = File, pi_blocks = [b], pi_byte_len = 5\<rparr>]"
  have own: "validate_owned example_allocator [14] = Inr ()"
    by (simp add: validate_owned_def example_owned map_err_def)
  have e: "replace_edit allocate_blocks 4 0 1 1 example_allocator example_inodes = Inr ([b], [14], al', ?is)"
    using b al'(1) example_splices(3) [OF b(5,6)] own
    by (simp add: replace_edit_def prepare_mapping_def remap_blocks_def example_positions) (simp add: example_inodes_def block_slice_def)
  have "small_tables al' ?is" by (rule example_small) (use b al' in \<open>simp_all add: inode_ok_def BLOCK_SIZE_def example_inodes_def\<close>)
  from example_file_runs [OF this, of "[(b, d)]"] assms b obtain rep x evs where
    "\<And>tr. publish_file_update (trace_device 64) example_superblock al' ?is [(b, d)] (example_tree, tr) = (Inr rep, x, tr @ evs)" by auto
  then have "replace_file_blocks_journaled (trace_device 64) example_superblock 4 0 1 [d] (example_tree, []) = (Inr ([b], [14], rep), x, evs)"
    using e by (simp add: replace_file_blocks_journaled_def replace_blocks_with_def splice_file_def given_def io_simps example_loads io_return_def checked_add_def)
  then show thesis by (rule that)
qed

lemma example_clone_run:
  obtains b rep x evs where "clone_file_blocks_append_journaled (trace_device 64) example_superblock 4 0 1 5 (example_tree, []) = (Inr ([b], rep), x, evs)"
proof -
  obtain b al where b: "allocate_blocks 1 example_allocator = Inr ([b], al)" "allocator_inv al" "al_total_blocks al = 64" "al_reserved_blocks al = 14"
    "17 \<le> b" "b < 64" by (rule example_allocate)
  let ?is = "example_inodes[4 := \<lparr>pi_id = 5, pi_kind = File, pi_blocks = [15, b], pi_byte_len = 4103\<rparr>]"
  have e: "append_edit allocate_blocks 5 1 example_allocator example_inodes = Inr ([b], [], al, ?is)"
    using b example_splices(2) [OF b(5,6)] by (simp add: append_edit_def add_blocks_def example_positions) (simp add: example_inodes_def)
  have f: "clone_append_source (trace_device 64) 4 0 1 5 example_allocator example_inodes (example_tree, tr) = (Inr [example_tree 14], example_tree, tr)" for tr
    by (simp add: example_owned clone_append_source_def clone_endpoints_def snapshot_owned_blocks_def block_slice_def example_inodes_def io_simps
        checked_add_def read_block_trace map_err_def io_return_def)
  have "small_tables al ?is" by (rule example_small) (use b in \<open>simp_all add: inode_ok_def BLOCK_SIZE_def example_inodes_def\<close>)
  moreover have "length (example_tree 14) = BLOCK_SIZE" using example_tree_state(4) by (simp add: disk_ok_def)
  ultimately obtain rep x evs where
    "\<And>tr. publish_file_update (trace_device 64) example_superblock al ?is [(b, example_tree 14)] (example_tree, tr) = (Inr rep, x, tr @ evs)"
    using example_file_runs [of al ?is "[(b, example_tree 14)]"] b by auto
  then have "clone_file_blocks_append_journaled (trace_device 64) example_superblock 4 0 1 5 (example_tree, []) = (Inr ([b], rep), x, evs)"
    using e f by (simp add: clone_file_blocks_append_journaled_def splice_file_def io_simps example_loads io_return_def)
  then show thesis by (rule that)
qed

lemma example_overwrite_run:
  assumes "length d = BLOCK_SIZE"
  obtains rep x evs where "write_file_block_journaled (trace_device 64) example_superblock 4 0 d (example_tree, []) = (Inr rep, x, evs)"
proof -
  obtain rep x evs where "publish_and_recover recover_journal_and_checkpoint (trace_device 64) example_superblock [(14, d)] (example_tree, []) = (Inr rep, x, evs)"
    using example_publish_runs [of "[(14, d)]"] assms by (auto simp: home_target_def)
  moreover have "resolve_owned_file_block (trace_device 64) example_superblock 4 0 (example_tree, []) = (Inr 14, example_tree, [])"
    using read_file_block_trace(1) [OF example_addressable example_tree_state(1,2) example_positions(1), of 0 "[]"] by (simp add: example_inodes_def)
  ultimately show thesis
    by (cases "example_tree 14 = d") (auto intro!: that simp: write_file_block_journaled_def journal_block_image_def io_simps read_block_trace io_return_def)
qed

lemma example_exchange_run:
  obtains rep x evs where "exchange_complete_file_blocks_journaled (trace_device 64) example_superblock 4 5 (example_tree, []) = (Inr rep, x, evs)"
proof -
  let ?is = "example_inodes[3 := \<lparr>pi_id = 4, pi_kind = File, pi_blocks = [15], pi_byte_len = 7\<rparr>,
     4 := \<lparr>pi_id = 5, pi_kind = File, pi_blocks = [14], pi_byte_len = 5\<rparr>]"
  have e: "exchange_complete_edit 3 4 example_inodes = Inr ?is"
    by (simp add: exchange_complete_edit_def inode_eval)
  have ep: "clone_endpoints example_inodes 4 5 = Inr (3, 4)" by (simp add: clone_endpoints_def example_inodes_def)
  have "small_tables example_allocator ?is"
    using example_allocator_ok(1) by (simp add: small_tables_def) (simp add: example_allocator_def example_inodes_def inode_ok_def BLOCK_SIZE_def)
  from example_inode_runs [OF this] obtain rep x evs where
    "\<And>tr. publish_whole_file_exchange (trace_device 64) example_superblock ?is (example_tree, tr) = (Inr rep, x, tr @ evs)" by blast
  moreover have "pi_blocks (example_inodes ! 3) = [14]" "pi_blocks (example_inodes ! 4) = [15]" by (simp_all add: example_inodes_def)
  ultimately have "exchange_complete_file_blocks_journaled (trace_device 64) example_superblock 4 5 (example_tree, []) = (Inr rep, x, evs)"
    using e by (simp add: example_owned exchange_complete_file_blocks_journaled_def io_simps example_loads ep map_err_def)
  then show thesis by (rule that)
qed

lemma example_rename_run:
  obtains rep x evs where "rename_entry_journaled (trace_device 64) example_superblock 1 [102] 3 [104] (example_tree, []) = (Inr rep, x, evs)"
proof -
  let ?es = "example_dirents[2 := \<lparr>de_parent = 3, de_target = 4, de_name = [104]\<rparr>]"
  have new: "dirent_ok \<lparr>de_parent = 3, de_target = 4, de_name = [104]\<rparr>"
    by (simp add: dirent_ok_def name_ok_def validate_name_def DIRECTORY_NAME_MAX_BYTES_def ascii_def)
  then obtain bs where bs: "encode_directory_entry \<lparr>de_parent = 3, de_target = 4, de_name = [104]\<rparr> = Inr bs" using encode_directory_entry_total by blast
  have "\<forall>e \<in> set ?es. dirent_ok e" using example_dirents_ok new set_update_subset_insert [of example_dirents 2] by fastforce
  then obtain E where E: "directory_encode_image example_superblock ?es = Inr E"
    using example_directory_image [of ?es] by (auto simp: example_dirents_def dirent_key_def)
  obtain rep x evs where run: "store_directory_table_journaled (trace_device 64) example_superblock ?es (example_tree, []) = (Inr rep, x, evs)"
    using directory_succeeds [OF example_addressable _ example_tree_state(3) E] example_tree_state(4) example_fits [of 2] by auto
  have inode: "validate_directory_parent example_inodes 1 = Inr ()" "validate_directory_parent example_inodes 3 = Inr ()"
    "find_inode example_inodes 4 = Some \<lparr>pi_id = 4, pi_kind = File, pi_blocks = [14], pi_byte_len = 5\<rparr>"
    by (simp_all add: validate_directory_parent_def find_inode_def example_inodes_def)
  have entry: "position (\<lambda>e. de_parent e = 1 \<and> de_name e = [102]) example_dirents = Some 2" "de_target (example_dirents ! 2) = 4"
    "\<not> list_ex (\<lambda>(index, e). index \<noteq> 2 \<and> de_parent e = 3 \<and> de_name e = [104]) (List.enumerate 0 example_dirents)"
    by (simp_all add: example_dirents_def)
  have "rename_entry_journaled (trace_device 64) example_superblock 1 [102] 3 [104] (example_tree, []) =
      store_directory_table_journaled (trace_device 64) example_superblock ?es (example_tree, [])"
    using bs by (simp add: rename_entry_journaled_def io_simps example_loads inode entry del: One_nat_def)
  with run show thesis by (intro that) simp
qed

lemma observe_freed_ok:
  assumes "owned_blocks a' \<subseteq> owned_blocks a" and "\<forall>b \<in> set bs. b < al_total_blocks a \<and> al_reserved_blocks a \<le> b"
    and "al_total_blocks a' = al_total_blocks a" and "al_reserved_blocks a' = al_reserved_blocks a"
  shows "\<exists>freed. res_fold (observe_freed a a') bs acc = Inr freed"
  using assms
proof (induction bs arbitrary: acc)
  case (Cons b bs)
  then have "is_owned a b = Inr (b \<in> owned_blocks a)" "is_owned a' b = Inr (b \<in> owned_blocks a')"
    by (auto simp: is_owned_in_range)
  with Cons show ?case by (auto simp: observe_freed_def map_err_def)
qed simp

lemma example_by_id:
  "inodes_by_id example_inodes = map (\<lambda>i. (pi_id i, i)) example_inodes"
  "inodes_by_id (take 5 example_inodes) = map (\<lambda>i. (pi_id i, i)) (take 5 example_inodes)"
  by (simp_all add: inodes_by_id_def bt_of_list_def example_inodes_def)

lemma example_entry_set:
  "entry_set example_dirents = map (\<lambda>e. (de_parent e, de_name e, de_target e)) example_dirents"
  "entry_set (take 5 example_dirents) = map (\<lambda>e. (de_parent e, de_name e, de_target e)) (take 5 example_dirents)"
  by (simp_all add: entry_set_def example_dirents_def)

lemma example_freed:
  assumes "owned_blocks al = {14, 15}" and "al_total_blocks al = 64" and "al_reserved_blocks al = 14"
  obtains freed where "set freed = {16}"
    "res_fold (observe_freed example_allocator al) [al_reserved_blocks example_allocator..<al_total_blocks example_allocator] [] = Inr freed"
proof -
  have ex: "al_total_blocks example_allocator = 64" "al_reserved_blocks example_allocator = 14" by (simp_all add: example_allocator_def)
  let ?bs = "[al_reserved_blocks example_allocator..<al_total_blocks example_allocator]"
  have geo: "al_total_blocks al = al_total_blocks example_allocator" "al_reserved_blocks al = al_reserved_blocks example_allocator"
    unfolding ex by (rule assms(2), rule assms(3))
  have sub: "owned_blocks al \<subseteq> owned_blocks example_allocator" unfolding assms(1) example_allocator_ok(2) by simp
  have bs: "\<forall>b \<in> set ?bs. b < al_total_blocks example_allocator \<and> al_reserved_blocks example_allocator \<le> b" by simp
  from observe_freed_ok [OF sub bs geo] obtain freed where f: "res_fold (observe_freed example_allocator al) ?bs [] = Inr freed" by blast
  have "16 \<in> set ?bs" unfolding set_upt ex by simp
  moreover have "set freed = set [] \<union> {b \<in> set ?bs. b \<in> {14, 15, 16} \<and> b \<notin> {14, 15}}"
    using observed_freed(1) [OF f bs geo] unfolding assms(1) example_allocator_ok(2) .
  moreover have "set [] \<union> {b \<in> B. b \<in> {14, 15, 16} \<and> b \<notin> {14, 15}} = {16}" if "16 \<in> B" for B :: "nat set" using that by auto
  ultimately have "set freed = {16}" by (simp only:)
  then show thesis using f by (rule that)
qed

lemma example_removed:
  "filter (\<lambda>ino. bt_get (inodes_by_id (take 5 example_inodes)) ino = None) (map fst (inodes_by_id example_inodes)) = [6]"
  "\<not> list_ex (\<lambda>ino. bt_get (inodes_by_id example_inodes) ino = None) (map fst (inodes_by_id (take 5 example_inodes)))"
  "the (bt_get (inodes_by_id example_inodes) 6) = \<lparr>pi_id = 6, pi_kind = Symlink, pi_blocks = [16], pi_byte_len = 0\<rparr>"
  unfolding example_by_id by (simp_all add: example_inodes_def)

lemma example_same:
  "\<not> list_ex (\<lambda>(ino, current). case bt_get (inodes_by_id (take 5 example_inodes)) ino of
      None \<Rightarrow> False | Some desired \<Rightarrow> \<not> persisted_inode_eq current desired) (inodes_by_id example_inodes)"
proof -
  have "persisted_inode_eq i i" for i by (simp add: persisted_inode_eq_def split: sum.split)
  then show ?thesis unfolding example_by_id by (simp add: example_inodes_def)
qed

lemma example_unnamed:
  "\<not> list_ex (\<lambda>e. e \<notin> set (entry_set example_dirents)) (entry_set (take 5 example_dirents))"
  "filter (\<lambda>e. e \<notin> set (entry_set (take 5 example_dirents))) (entry_set example_dirents) = [(1, [108], 6)]"
  "length (filter (\<lambda>e. de_target e = 6) example_dirents) = 1"
  "\<not> list_ex (\<lambda>e. de_target e = 6 \<or> de_parent e = 6) (take 5 example_dirents)"
  unfolding example_entry_set by (simp_all add: example_dirents_def)

lemma example_transition:
  assumes "owned_blocks al = {14, 15}" and "al_total_blocks al = 64" and "al_reserved_blocks al = 14"
  shows "check_unlink_transition example_allocator example_inodes example_dirents al (take 5 example_inodes) (take 5 example_dirents) = Inr ()"
proof -
  obtain freed where f: "set freed = {16}"
    "res_fold (observe_freed example_allocator al) [al_reserved_blocks example_allocator..<al_total_blocks example_allocator] [] = Inr freed"
    by (rule example_freed [OF assms])
  have geo: "al_total_blocks example_allocator = al_total_blocks al" "al_reserved_blocks example_allocator = al_reserved_blocks al"
    unfolding assms(2,3) by (simp_all add: example_allocator_def)
  have "length (inodes_by_id example_inodes) = length example_inodes" "length (inodes_by_id (take 5 example_inodes)) = length (take 5 example_inodes)"
    "length (entry_set example_dirents) = length example_dirents" "length (entry_set (take 5 example_dirents)) = length (take 5 example_dirents)"
    unfolding example_by_id example_entry_set by simp_all
  then show ?thesis
    unfolding check_unlink_transition_def Let_def f(2) example_removed(1)
    by (simp add: example_removed(2,3) example_same example_unnamed f(1) geo del: One_nat_def)
qed

lemma example_unlink_symlink_run:
  obtains rep x evs where "unlink_symlink_journaled (trace_device 64) example_superblock 1 [108] (example_tree, []) = (Inr rep, x, evs)"
proof -
  let ?D = "trace_device 64"
  obtain al where al: "free_blocks_in InvalidInput [16] example_allocator = Inr al" "allocator_inv al" "owned_blocks al = {14, 15, 16} - {16}"
    "al_total_blocks al = al_total_blocks example_allocator" "al_reserved_blocks al = al_reserved_blocks example_allocator"
    by (rule free_blocks_in_ok [OF example_allocator_ok(1), of "[16]" InvalidInput]) (simp_all add: example_allocator_ok(2))
  have al': "owned_blocks al = {14, 15}" unfolding al(3) by auto
  have geo: "al_total_blocks al = 64" "al_reserved_blocks al = 14" unfolding al(4,5) by (simp_all add: example_allocator_def)
  have "list_all (\<lambda>i. inode_ok i \<and> length (pi_blocks i) \<le> 4) (take 5 example_inodes)"
    using example_inodes_ok(1) by (auto simp: list_all_iff example_inodes_def)
  then have "small_tables al (take 5 example_inodes)"
    using al(2) geo by (simp add: small_tables_def) (simp add: example_inodes_def)
  note im = small_images [OF this]
  have "\<exists>E. directory_encode_image example_superblock (take 5 example_dirents) = Inr E"
    by (rule example_directory_image) (use example_dirents_ok in \<open>auto dest: in_set_takeD\<close>, simp_all add: example_dirents_def dirent_key_def)
  with im obtain ps where "create_images example_superblock al (take 5 example_inodes) (take 5 example_dirents) = Inr ps"
    by (auto simp: create_images_def)
  from create_succeeds [OF example_addressable _ example_tree_state(3) this] example_tree_state(4) example_fits
  obtain rep x evs where run: "store_create_metadata_journaled ?D example_superblock al (take 5 example_inodes) (take 5 example_dirents) (example_tree, []) = (Inr rep, x, evs)"
    by auto
  have pos: "position (\<lambda>e. de_parent e = 1 \<and> de_name e = [108]) example_dirents = Some 5" "de_target (example_dirents ! 5) = 6"
    "position (\<lambda>i. pi_id i = 6) example_inodes = Some 5" "pi_kind (example_inodes ! 5) = Symlink" "pi_blocks (example_inodes ! 5) = [16]"
    "length (filter (\<lambda>e. de_target e = 6) example_dirents) = 1" "remove_at 5 example_inodes = take 5 example_inodes"
    "remove_at 5 example_dirents = take 5 example_dirents" "5 < length example_inodes"
    by (simp_all add: example_inodes_def example_dirents_def remove_at_def)
  have pay: "validate_symlink_inode ?D (example_inodes ! 5) (example_tree, []) = (Inr (), example_tree, [])"
    using fs_ok_payload [OF example_addressable _ example_tree_state(1) nth_mem [OF pos(9)], of "[]"] example_tree_state(4) by simp
  have "unlink_symlink_journaled ?D example_superblock 1 [108] (example_tree, []) = (Inr rep, x, evs)"
    using run by (simp add: unlink_symlink_journaled_def store_unlink_metadata_journaled_def validate_unlink_transition_def io_simps
        example_loads pos pay example_owned map_err_def al(1) example_transition [OF al' geo] del: One_nat_def)
  then show thesis by (rule that)
qed

lemma example_grow_run:
  obtains rep x evs where "grow_file_to_bytes_journaled (trace_device 64) example_superblock 4 600 (example_tree, []) = (Inr ([], rep), x, evs)"
proof -
  let ?D = "trace_device 64"
  let ?is = "example_inodes[3 := \<lparr>pi_id = 4, pi_kind = File, pi_blocks = [14], pi_byte_len = 600\<rparr>]"
  let ?ws = "tail_writes example_tree [14] 1 5"
  have mem: "example_inodes ! 3 \<in> set example_inodes" "pi_blocks (example_inodes ! 3) = [14]" by (simp_all add: example_inodes_def)
  have tail: "prepare_existing_tail_zero ?D example_allocator (example_inodes ! 3) 5 (example_tree, tr) = (Inr ?ws, example_tree, tr)" for tr
    using existing_tail_zero_trace [OF example_tree_state(1) mem(1), of 5 tr] by (simp add: mem(2))
  have edit: "grow_tables 3 0 600 example_allocator example_inodes = Inr ([], example_allocator, ?is)"
    by (simp add: grow_tables_def inode_eval)
  have len: "canonical_byte_len (example_inodes ! 3) = Inr 5" by (simp add: inode_eval)
  have "small_tables example_allocator ?is"
    by (rule example_small) (use example_allocator_ok(1) in \<open>simp_all add: inode_ok_def BLOCK_SIZE_def example_inodes_def\<close>, simp_all add: example_allocator_def)
  moreover have "length (example_tree 14) = BLOCK_SIZE" using example_tree_state(4) by (simp add: disk_ok_def)
  then have "\<forall>(b, d) \<in> set ?ws. 14 \<le> b \<and> b < 64 \<and> length d = BLOCK_SIZE" "length ?ws \<le> 2"
    by (simp_all add: tail_writes_def Let_def BLOCK_SIZE_def put_bytes_def)
  ultimately obtain rep x evs where
    "\<And>tr. publish_file_update ?D example_superblock example_allocator ?is ?ws (example_tree, tr) = (Inr rep, x, tr @ evs)"
    using example_file_runs [of example_allocator ?is ?ws] by blast
  moreover have "div_ceil 600 BLOCK_SIZE = 1" by (simp add: div_ceil_def BLOCK_SIZE_def)
  ultimately have "grow_file_to_bytes_journaled ?D example_superblock 4 600 (example_tree, []) = (Inr ([], rep), x, evs)"
    by (simp add: grow_file_to_bytes_journaled_def prepare_byte_grow_plan_def byte_len_to_block_count_def io_simps example_loads example_positions
        len mem(2) tail edit io_return_def map_err_def del: One_nat_def)
  then show thesis by (rule that)
qed

section \<open>What a successful run shows\<close>

definition completes :: "superblock \<Rightarrow> disk \<Rightarrow> fs_tables \<Rightarrow> (disk \<times> dev_event list, 'r) dev_io \<Rightarrow> ('r \<Rightarrow> disk \<Rightarrow> fs_tables \<Rightarrow> bool) \<Rightarrow> bool" where
  "completes sb v t op Q \<longleftrightarrow> (\<exists>r x tr t'. op (v, []) = (Inr r, x, tr) \<and> Q r x t' \<and> fs_holds sb x t' \<and>
     (\<forall>w \<in> crash_disks v tr. \<exists>rep w'. recover_journal_and_checkpoint (mem_device (sb_total_blocks sb)) sb w = (Inr rep, w') \<and>
        (same_home sb w' v \<and> fs_holds sb w' t \<or> same_home sb w' x \<and> fs_holds sb w' t')))"

lemma completesI:
  assumes "atomic_op sb v t op Q" and "\<exists>r x tr. op (v, []) = (Inr r, x, tr)"
  shows "completes sb v t op Q"
proof -
  from assms(2) obtain r x tr where run: "op (v, []) = (Inr r, x, tr)" by blast
  with assms(1) obtain t' where "Q r x t'" "fs_holds sb x t'"
    "\<forall>w \<in> crash_disks v tr. \<exists>rep w'. recover_journal_and_checkpoint (mem_device (sb_total_blocks sb)) sb w = (Inr rep, w') \<and>
        (same_home sb w' v \<and> fs_holds sb w' t \<or> same_home sb w' x \<and> fs_holds sb w' t')"
    by (simp add: atomic_op_def del: split_paired_Ex) blast
  with run show ?thesis unfolding completes_def by blast
qed

section \<open>Other runs\<close>

text \<open>The create transaction on a backing file of zeroes.\<close>

lemma example_file_run:
  obtains f rep f' where "file_reliable f" and "fbd_blocks f = 64"
    and "store_create_metadata_journaled file_device example_superblock example_allocator example_inodes example_dirents f = (Inr rep, f')"
proof -
  let ?f = "\<lparr>fbd_file = \<lparr>f_bytes = zeroes (64 * BLOCK_SIZE), f_pos = 0, f_errors = []\<rparr>, fbd_blocks = 64\<rparr>"
  let ?op = "\<lambda>D. store_create_metadata_journaled D example_superblock example_allocator example_inodes example_dirents"
  have f: "file_reliable ?f" by (simp add: file_reliable_def file_inv_def BLOCK_SIZE_def)
  have z: "file_view ?f b = zeroes BLOCK_SIZE" if "b < 64" for b
    using that by (simp add: file_view_def get_zeroes BLOCK_SIZE_def)
  then have v: "disk_ok 64 (file_view ?f)" by (simp add: disk_ok_def)
  have "load_disk example_superblock (file_view ?f) = load_disk example_superblock blank_disk"
    by (rule load_disk_cong [OF geometry_check_region [OF example_geometry]]) (simp add: z blank_disk_def)
  then have j: "load_disk example_superblock (file_view ?f) = Inr []" using blank_disk_journal by simp
  obtain ps where ps: "create_images example_superblock example_allocator example_inodes example_dirents = Inr ps" using example_images by blast
  obtain rep x evs where "?op (trace_device 64) (file_view ?f, []) = (Inr rep, x, evs)"
    using create_succeeds [OF example_addressable _ j ps] v example_fits by auto
  with dev_simD(1) [OF tracing.to_mem.sim_store_create_metadata_journaled [of 64 64], of "(file_view ?f, [])"] v
  have m: "?op (mem_device 64) (file_view ?f) = (Inr rep, x)" by (simp add: sized_def)
  have "sized file_device file_reliable 64 ?f" using f by (simp add: sized_def)
  from dev_sim_run [OF file_ok.to_mem.sim_store_create_metadata_journaled this m] obtain f' where "?op file_device ?f = (Inr rep, f')" by blast
  with f show thesis by (intro that [of ?f]) simp_all
qed

text \<open>The example tree with a committed transaction still in the journal.\<close>

lemma example_pending:
  obtains x where "load_disk example_superblock x = Inr example_entries" "disk_ok 64 x" "superblock_decode (x 0) = Inr example_superblock"
    "consistent 64 (write_all x (committed_writes example_entries))"
proof -
  have v: "disk_ok (sb_total_blocks example_superblock) example_tree" using example_tree_state(4) by simp
  obtain x evs where o: "store_outcome example_superblock example_entries example_tree = (Inr (), x, evs)"
    using example_store [OF example_tree_state(3)] by blast
  note s = store_outcome_Inr [OF geometry_check_region [OF example_geometry] v o example_entries_ok]
  have ok: "fs_ok example_superblock x example_allocator example_inodes example_dirents" by (rule fs_ok_home [OF s(4) example_tree_state(1)])
  have ws: "committed_writes example_entries = example_writes" unfolding example_entries_txn by (rule transaction_facts(2))
  let ?y = "write_all x example_writes"
  have y: "?y b = x b" if "b \<noteq> 20" for b using that by (intro write_all_other) (auto simp: example_writes_def)
  have "payloads_ok ?y example_inodes"
    by (rule payloads_ok_cong [OF _ fs_okD(11) [OF ok]]) (rule y, auto simp: example_inodes_def)
  moreover have "holds_tables example_superblock ?y example_allocator example_inodes example_dirents"
    using holds_tables_cong [OF example_geometry, of ?y x] fs_okD(3) [OF ok] y by auto
  ultimately have "fs_ok example_superblock ?y example_allocator example_inodes example_dirents"
    using ok y [of 0] by (simp add: fs_ok_def tables_ok_def)
  moreover have "load_disk example_superblock ?y = load_disk example_superblock x"
    by (rule load_disk_cong [OF geometry_check_region [OF example_geometry]]) (rule y, simp)
  ultimately have "consistent 64 ?y" using s(2) unfolding consistent_fs_ok by (metis example_fields(1))
  then show thesis using s(2,3) fs_okD(1) [OF ok] ws by (intro that [of x]) simp_all
qed

end
