(* ===== verification/Checked_Recovery.thy ===== *)
theory Checked_Recovery
  imports Filesystem_State
begin

text \<open>
  Recovery that runs the consistency check first: \<open>recovery_projection.rs\<close> and the checked part of
  \<open>journal_checkpoint.rs\<close>. The projection overlays the committed writes on the device without
  writing; the check of the projection decides whether recovery may touch the disk.
\<close>

section \<open>The projected device\<close>

definition projection_device :: "'d block_device \<Rightarrow> (u64, byte list) btree_map \<Rightarrow> 'd block_device" where
  "projection_device D blocks =
     \<lparr>block_count = block_count D,
      read_block = (\<lambda>block. case bt_get blocks block of Some d \<Rightarrow> io_return d | None \<Rightarrow> read_block D block),
      write_block = (\<lambda>_ _. io_fail PermissionDenied),
      flush = io_fail PermissionDenied\<rparr>"

record recovery_projection_report =
  rpr_recovery :: recovery_report
  rpr_fsck :: fsck_report

definition check_device_after_entries_projection ::
    "'d block_device \<Rightarrow> journal_entry list \<Rightarrow> ('d, recovery_projection_report) dev_io" where
  "check_device_after_entries_projection D entries =
     io_bind (io_lift (plan_recovery entries)) (\<lambda>plan.
     io_bind (check_device (projection_device D (bt_of_list (plan_writes plan)))) (\<lambda>fsck.
     io_return \<lparr>rpr_recovery = plan_report plan, rpr_fsck = fsck\<rparr>))"

definition check_device_after_recovery_projection :: "'d block_device \<Rightarrow> ('d, recovery_projection_report) dev_io" where
  "check_device_after_recovery_projection D =
     io_bind (read_superblock D) (\<lambda>sb.
     io_bind (load_journal_image D sb) (\<lambda>entries.
     check_device_after_entries_projection D entries))"

section \<open>Checked recovery\<close>

definition recover_journal_and_checkpoint_checked :: "'d block_device \<Rightarrow> superblock \<Rightarrow> ('d, recovery_report) dev_io" where
  "recover_journal_and_checkpoint_checked D sb =
     io_bind (read_superblock D) (\<lambda>durable_superblock.
     if durable_superblock \<noteq> sb then io_fail InvalidInput
     else
     io_bind (load_journal_image D sb) (\<lambda>entries.
     if entries = [] then io_return \<lparr>committed_transactions = 0, home_writes = 0\<rparr>
     else
     io_bind (check_device_after_recovery_projection D) (\<lambda>projected.
     io_bind (recover_journal_and_checkpoint D sb) (\<lambda>report.
     if report \<noteq> rpr_recovery projected then io_fail InvalidData
     else
     io_bind (check_device D) (\<lambda>_.
     io_return report)))))"

record retained_prefix_checkpoint_report =
  rpc_replayed :: recovery_report
  rpc_remaining_transactions :: nat

definition recover_retained_prefix_and_checkpoint ::
    "'d block_device \<Rightarrow> superblock \<Rightarrow> nat \<Rightarrow> ('d, retained_prefix_checkpoint_report) dev_io" where
  "recover_retained_prefix_and_checkpoint D sb max_transactions =
     (if max_transactions = 0 then io_fail InvalidInput
      else
      io_bind (load_retained_journal_entries D sb) (\<lambda>loaded.
      io_bind (io_lift (ok_or InvalidInput loaded)) (\<lambda>entries.
      io_bind (io_lift (retained_prefix_split entries max_transactions)) (\<lambda>split.
      io_bind (check_device_after_entries_projection D (take split entries)) (\<lambda>projected.
      io_bind (io_lift (plan_recovery (take split entries))) (\<lambda>plan.
      if rpr_recovery projected \<noteq> plan_report plan then io_fail InvalidData
      else
      io_bind (apply_plan D plan) (\<lambda>replayed.
      io_bind (replace_retained_journal_entries D sb (drop split entries)) (\<lambda>_.
      io_bind (io_lift (plan_recovery (drop split entries))) (\<lambda>rest.
      io_return \<lparr>rpc_replayed = replayed, rpc_remaining_transactions = committed_transactions (plan_report rest)\<rparr>)))))))))"

section \<open>The check on a fixed disk\<close>

text \<open>
  A device that is only read stays in the state it is in, so the simulation by the device in memory
  can be stated at one state.
\<close>

definition overlay :: "(u64, byte list) btree_map \<Rightarrow> disk \<Rightarrow> disk" where
  "overlay blocks v = (\<lambda>b. case bt_get blocks b of Some d \<Rightarrow> d | None \<Rightarrow> v b)"

lemma overlay_of_list: "overlay (bt_of_list ws) v = write_all v ws"
proof -
  have "(\<lambda>b. case foldl (\<lambda>h (k, d). h(k \<mapsto> d)) Map.empty ws b of Some d \<Rightarrow> d | None \<Rightarrow> v b) = write_all v ws"
    by (induction ws rule: rev_induct) (auto simp: write_all_def fun_eq_iff split: prod.splits)
  then show ?thesis by (simp add: overlay_def bt_get_of_list)
qed

interpretation frozen: reliable_reader "trace_device n" fst "\<lambda>s. s = s0 \<and> disk_ok n (fst s)"
  by unfold_locales (auto simp: trace_device_def disk_ok_def split: if_splits prod.splits)

interpretation projected: reliable_reader "projection_device (trace_device n) blocks" "\<lambda>s. overlay blocks (fst s)"
  "\<lambda>s. s = s0 \<and> disk_ok n (fst s) \<and> (\<forall>b d. bt_get blocks b = Some d \<longrightarrow> b < n \<and> length d = BLOCK_SIZE)"
  by unfold_locales
    (auto simp: projection_device_def trace_device_def disk_ok_def overlay_def io_return_def split: if_splits prod.splits option.splits,
      meson leD not_None_eq)

lemma check_device_trace:
  assumes "disk_ok n v" and "0 < n" and "n * BLOCK_SIZE < U64_LIMIT"
  shows "check_device (trace_device n) (v, tr) = (check_disk n v, v, tr)"
proof -
  obtain r s where run: "check_device (trace_device n) (v, tr) = (r, s)" by (metis prod.exhaust)
  have "sized (trace_device n) (\<lambda>s. s = (v, tr) \<and> disk_ok n (fst s)) n (v, tr)" using assms(1) by (simp add: sized_def)
  from dev_simD [OF frozen.to_mem.sim_check_device this run] check_device_mem [OF assms] run
  show ?thesis by (auto simp: sized_def)
qed

lemma check_projection_trace:
  assumes "disk_ok n v" and "0 < n" and "n * BLOCK_SIZE < U64_LIMIT" and ws: "\<forall>(b, d) \<in> set ws. b < n \<and> length d = BLOCK_SIZE"
  shows "check_device (projection_device (trace_device n) (bt_of_list ws)) (v, tr) = (check_disk n (write_all v ws), v, tr)"
proof -
  let ?m = "bt_of_list ws"
  have m: "b < n \<and> length d = BLOCK_SIZE" if "bt_get ?m b = Some d" for b d
  proof -
    have "\<forall>b d. foldl (\<lambda>h (k, d). h(k \<mapsto> d)) Map.empty ws b = Some d \<longrightarrow> (b, d) \<in> set ws"
      by (induction ws rule: rev_induct) (auto split: prod.splits if_splits)
    then have "(b, d) \<in> set ws" using that by (simp add: bt_get_of_list)
    then show ?thesis using ws by auto
  qed
  obtain r s where run: "check_device (projection_device (trace_device n) ?m) (v, tr) = (r, s)" by (metis prod.exhaust)
  have "sized (projection_device (trace_device n) ?m)
      (\<lambda>s. s = (v, tr) \<and> disk_ok n (fst s) \<and> (\<forall>b d. bt_get ?m b = Some d \<longrightarrow> b < n \<and> length d = BLOCK_SIZE)) n (v, tr)"
    using assms(1) m by (simp add: sized_def projection_device_def)
  from dev_simD [OF projected.to_mem.sim_check_device this run]
    check_device_mem [OF _ assms(2,3), of "write_all v ws"] disk_ok_write_all [OF assms(1), of ws] ws run
  show ?thesis by (auto simp: sized_def overlay_of_list)
qed

section \<open>What checked recovery does\<close>

lemma recovered_consistent:
  assumes g: "geometry_ok sb" and w: "superblock_decode (w 0) = Inr sb" and l: "load_disk sb w = Inr fs" and ne: "fs \<noteq> []"
  shows "consistent (sb_total_blocks sb) (write_all w (committed_writes fs)) \<longleftrightarrow> consistent (sb_total_blocks sb) (recovered fs w)"
proof -
  let ?x = "write_all w (committed_writes fs)" and ?y = "recovered fs w"
  have "0 \<notin> fst ` set (committed_writes fs)" using write_all_home [OF g l, of 0] by simp
  then have 0: "?x 0 = w 0" "?y 0 = w 0" using ne by (simp_all add: write_all_other recovered_def)
  have j: "load_disk sb ?x = Inr fs" "load_disk sb ?y = Inr []"
    using load_write_all_home [OF g l] load_recovered [OF g l] by (simp_all add: write_all_other)
  have "same_home sb ?x ?y" using ne geometry_order [OF g] geometry_okD [OF g] by (auto simp: same_home_def recovered_def)
  from fs_ok_home [OF this] fs_ok_home [OF same_home_sym [OF this]]
  have "fs_ok sb ?x a inodes entries \<longleftrightarrow> fs_ok sb ?y a inodes entries" for a inodes entries by blast
  then have "tables_ok sb ?x = tables_ok sb ?y" using 0 w by (intro ext) (simp add: fs_ok_def)
  then show ?thesis using 0 w j by (simp add: consistent_def)
qed

lemma checked_recovery_trace:
  assumes a: "addressable sb" and v: "disk_ok (sb_total_blocks sb) w" and sbd: "superblock_decode (w 0) = Inr sb"
    and l: "load_disk sb w = Inr fs"
  shows "fs = [] \<or> consistent (sb_total_blocks sb) (write_all w (committed_writes fs)) \<Longrightarrow>
      recover_journal_and_checkpoint_checked (trace_device (sb_total_blocks sb)) sb (w, tr) =
        (Inr (report_of fs), recovered fs w, tr @ recovery_events fs)"
    and "fs \<noteq> [] \<Longrightarrow> \<not> consistent (sb_total_blocks sb) (write_all w (committed_writes fs)) \<Longrightarrow>
      \<exists>e. recover_journal_and_checkpoint_checked (trace_device (sb_total_blocks sb)) sb (w, tr) = (Inl e, w, tr)"
proof -
  let ?n = "sb_total_blocks sb" and ?D = "trace_device (sb_total_blocks sb)" and ?ws = "committed_writes fs"
  note g = addressable_geometry [OF a]
  have n: "0 < ?n" "?n * BLOCK_SIZE < U64_LIMIT" using a geometry_order [OF g] geometry_okD [OF g] by (auto simp: addressable_def)
  have sb: "read_superblock ?D (w, tr) = (Inr sb, w, tr)"
    using n sbd by (simp add: read_superblock_def SUPERBLOCK_BLOCK_def io_simps io_return_def)
  have c: "check_region sb ?n = Inr ()" by (rule geometry_check_region [OF g])
  have j: "load_journal_image ?D sb (w, tr) = (Inr fs, w, tr)" using load_trace [OF c v] l by simp
  have p: "plan_recovery fs = Inr \<lparr>plan_writes = ?ws, plan_report = report_of fs\<rparr>"
    using load_disk_valid [OF l] load_disk_length [OF c v l] plan_recovery_ok by (simp add: validate_entries_Inr report_of_def)
  have ws: "\<forall>(b, d) \<in> set ?ws. b < ?n \<and> length d = BLOCK_SIZE"
    using home_target_range(2) [OF g committed_writes_ok(1) [OF l]] committed_writes_ok(2) [OF l] by auto
  have pr: "check_device_after_recovery_projection ?D (w, tr) =
      (case check_disk ?n (write_all w ?ws) of Inl e \<Rightarrow> (Inl e, w, tr)
        | Inr f \<Rightarrow> (Inr \<lparr>rpr_recovery = report_of fs, rpr_fsck = f\<rparr>, w, tr))"
    using check_projection_trace [OF v n ws]
    by (simp add: check_device_after_recovery_projection_def check_device_after_entries_projection_def io_simps sb j p io_return_def split: sum.split)
  note iff = check_disk_iff [OF disk_ok_recovered(1) [OF v l] n(2)]
  show "recover_journal_and_checkpoint_checked ?D sb (w, tr) = (Inr (report_of fs), recovered fs w, tr @ recovery_events fs)"
    if ok: "fs = [] \<or> consistent ?n (write_all w ?ws)"
  proof (cases "fs = []")
    case True
    then show ?thesis
      by (simp add: recover_journal_and_checkpoint_checked_def io_simps sb j io_return_def report_of_def recovered_def recovery_events_def
          transactions_def committed_writes_def)
  next
    case False
    then obtain f where f: "check_disk ?n (write_all w ?ws) = Inr f" using ok iff by auto
    have "consistent ?n (recovered fs w)" using recovered_consistent [OF g sbd l False] ok False by simp
    then obtain f' where f': "check_disk ?n (recovered fs w) = Inr f'" using check_disk_iff [OF disk_ok_recovered(2) [OF v l] n(2)] by auto
    show ?thesis using False
      by (simp add: recover_journal_and_checkpoint_checked_def io_simps sb j pr f recover_trace [OF g refl v l]
          check_device_trace [OF disk_ok_recovered(2) [OF v l] n] f' io_return_def)
  qed
  show "\<exists>e. recover_journal_and_checkpoint_checked ?D sb (w, tr) = (Inl e, w, tr)"
    if ne: "fs \<noteq> []" and bad: "\<not> consistent ?n (write_all w ?ws)"
  proof -
    obtain e where "check_disk ?n (write_all w ?ws) = Inl e" using bad iff by (cases "check_disk ?n (write_all w ?ws)") auto
    then show ?thesis using ne by (simp add: recover_journal_and_checkpoint_checked_def io_simps sb j pr)
  qed
qed

text \<open>With an empty journal both kinds of recovery leave the disk alone.\<close>

lemma settled_recovery:
  assumes a: "addressable sb" and ok: "fs_ok sb v al inodes entries" and v: "disk_ok (sb_total_blocks sb) v" and l: "load_disk sb v = Inr []"
  shows "recover_journal_and_checkpoint (trace_device (sb_total_blocks sb)) sb (v, tr) = (Inr \<lparr>committed_transactions = 0, home_writes = 0\<rparr>, v, tr)"
    and "recover_journal_and_checkpoint_checked (trace_device (sb_total_blocks sb)) sb (v, tr) = (Inr \<lparr>committed_transactions = 0, home_writes = 0\<rparr>, v, tr)"
  using recover_trace [OF addressable_geometry [OF a] refl v l, of tr] checked_recovery_trace(1) [OF a v fs_okD(1) [OF ok] l, of tr]
  by (simp_all add: report_of_def recovered_def recovery_events_def transactions_def committed_writes_def)

end
