(* ===== verification/Path_Lookup.thy ===== *)
theory Path_Lookup
  imports Checked_Recovery Namespace_Ops
begin

text \<open>
  Path resolution: \<open>path_lookup.rs\<close>. A path is the list of its bytes. The walk follows at most
  \<open>MAX_SYMLINK_EXPANSIONS\<close> symbolic links, which is what makes it end; \<open>walks\<close> is the relation between
  a path and the inode it names, free of the loop, and counts the links on the way.
\<close>

definition MAX_SYMLINK_EXPANSIONS :: nat where "MAX_SYMLINK_EXPANSIONS = 40"

definition SLASH :: byte where "SLASH = 47"
definition DOT :: "byte list" where "DOT = [46]"
definition DOT_DOT :: "byte list" where "DOT_DOT = [46, 46]"

section \<open>Components\<close>

definition starts_with_slash :: "byte list \<Rightarrow> bool" where
  "starts_with_slash path = (case path of [] \<Rightarrow> False | c # _ \<Rightarrow> c = SLASH)"

definition ends_with_slash :: "byte list \<Rightarrow> bool" where
  "ends_with_slash path = (path \<noteq> [] \<and> last path = SLASH)"

fun split_slash :: "byte list \<Rightarrow> byte list list" where
  "split_slash [] = [[]]"
| "split_slash (c # cs) =
     (if c = SLASH then [] # split_slash cs
      else (case split_slash cs of [] \<Rightarrow> [[c]] | x # xs \<Rightarrow> (c # x) # xs))"

lemma split_slash_nonempty [simp]: "split_slash cs \<noteq> []"
  by (cases cs) (auto split: list.splits)

definition strip_slashes :: "byte list \<Rightarrow> byte list" where
  "strip_slashes path =
     (let body = (if starts_with_slash path then tl path else path) in
      if ends_with_slash body then butlast body else body)"

definition parse_component_sequence :: "byte list \<Rightarrow> byte list list io_result" where
  "parse_component_sequence sequence =
     (if sequence = [] then Inl InvalidInput
      else if [] \<in> set (split_slash sequence) then Inl InvalidInput
      else Inr (split_slash sequence))"

definition parse_components :: "byte list \<Rightarrow> byte list list io_result" where
  "parse_components path =
     (if path = [SLASH] then Inr []
      else if \<not> starts_with_slash path then Inl InvalidInput
      else parse_component_sequence (strip_slashes path))"

definition parse_target_components :: "byte list \<Rightarrow> byte list list io_result" where
  "parse_target_components target =
     (if target = [SLASH] then Inr [] else parse_component_sequence (strip_slashes target))"

section \<open>The walk\<close>

definition require_inode :: "persisted_inode list \<Rightarrow> u64 \<Rightarrow> persisted_inode io_result" where
  "require_inode inodes ino = ok_or InvalidData (find (\<lambda>inode. pi_id inode = ino) inodes)"

definition parent_directory :: "persisted_inode list \<Rightarrow> directory_entry list \<Rightarrow> u64 \<Rightarrow> u64 io_result" where
  "parent_directory inodes entries directory =
     (if directory = 1 then Inr 1
      else case map de_parent (filter (\<lambda>entry. de_target entry = directory) entries) of
        [] \<Rightarrow> Inl InvalidData
      | [parent] \<Rightarrow>
          res_bind (require_inode inodes parent) (\<lambda>parent_inode.
          if pi_kind parent_inode \<noteq> Directory then Inl InvalidData else Inr parent)
      | _ \<Rightarrow> Inl InvalidData)"

function resolve_loop ::
    "'d block_device \<Rightarrow> superblock \<Rightarrow> persisted_inode list \<Rightarrow> directory_entry list \<Rightarrow> bool \<Rightarrow>
     bool \<Rightarrow> byte list list \<Rightarrow> u64 \<Rightarrow> nat \<Rightarrow> ('d, u64) dev_io" where
  "resolve_loop D sb inodes entries follow_final_symlink require_directory_at_end [] current symlink_expansions =
     io_bind (io_lift (require_inode inodes current)) (\<lambda>resolved_inode.
     if require_directory_at_end \<and> pi_kind resolved_inode \<noteq> Directory then io_fail InvalidInput
     else io_return current)"
| "resolve_loop D sb inodes entries follow_final_symlink require_directory_at_end (component # pending) current symlink_expansions =
     io_bind (io_lift (require_inode inodes current)) (\<lambda>current_inode.
     if pi_kind current_inode \<noteq> Directory then io_fail InvalidInput
     else if component = DOT then
       resolve_loop D sb inodes entries follow_final_symlink require_directory_at_end pending current symlink_expansions
     else if component = DOT_DOT then
       io_bind (io_lift (parent_directory inodes entries current)) (\<lambda>parent.
       resolve_loop D sb inodes entries follow_final_symlink require_directory_at_end pending parent symlink_expansions)
     else
       io_bind (io_lift (ok_or NotFound (find (\<lambda>entry. de_parent entry = current \<and> de_name entry = component) entries))) (\<lambda>entry.
       io_bind (io_lift (require_inode inodes (de_target entry))) (\<lambda>target_inode.
       if pi_kind target_inode = Symlink then
         if pending = [] \<and> \<not> follow_final_symlink \<and> \<not> require_directory_at_end then io_return (pi_id target_inode)
         else if symlink_expansions + 1 > MAX_SYMLINK_EXPANSIONS then io_fail InvalidData
         else
           io_bind (read_symlink D sb (pi_id target_inode)) (\<lambda>target.
           io_bind (io_lift (parse_target_components target)) (\<lambda>expanded.
           resolve_loop D sb inodes entries follow_final_symlink
             (require_directory_at_end \<or> (target \<noteq> [SLASH] \<and> ends_with_slash target) \<and> pending = [])
             (expanded @ pending) (if starts_with_slash target then 1 else current) (symlink_expansions + 1)))
       else
         resolve_loop D sb inodes entries follow_final_symlink require_directory_at_end pending (pi_id target_inode) symlink_expansions)))"
  by pat_completeness auto

termination
  by (relation "measures [\<lambda>(D, sb, inodes, entries, follow, req, pending, current, expansions). MAX_SYMLINK_EXPANSIONS - expansions,
      \<lambda>(D, sb, inodes, entries, follow, req, pending, current, expansions). length pending]") auto

definition resolve_path :: "'d block_device \<Rightarrow> superblock \<Rightarrow> byte list \<Rightarrow> bool \<Rightarrow> ('d, u64) dev_io" where
  "resolve_path D sb path follow_final_symlink =
     (if \<not> starts_with_slash path then io_fail InvalidInput
      else
      io_bind (load_inode_table D sb) (\<lambda>inodes.
      io_bind (load_directory_table D sb) (\<lambda>entries.
      io_bind (io_lift (parse_components path)) (\<lambda>pending.
      if pending = [] then io_bind (io_lift (require_inode inodes 1)) (\<lambda>inode. io_return (pi_id inode))
      else resolve_loop D sb inodes entries follow_final_symlink (path \<noteq> [SLASH] \<and> ends_with_slash path) pending 1 0))))"

definition resolve_path_following_symlinks :: "'d block_device \<Rightarrow> superblock \<Rightarrow> byte list \<Rightarrow> ('d, u64) dev_io" where
  "resolve_path_following_symlinks D sb path = resolve_path D sb path True"

definition resolve_path_without_following_final_symlink :: "'d block_device \<Rightarrow> superblock \<Rightarrow> byte list \<Rightarrow> ('d, u64) dev_io" where
  "resolve_path_without_following_final_symlink D sb path = resolve_path D sb path False"

section \<open>What a path names\<close>

definition is_link :: "persisted_inode list \<Rightarrow> u64 \<Rightarrow> bool" where
  "is_link inodes ino \<longleftrightarrow> (\<exists>i \<in> set inodes. pi_id i = ino \<and> pi_kind i = Symlink)"

definition link_target :: "disk \<Rightarrow> persisted_inode list \<Rightarrow> u64 \<Rightarrow> byte list \<Rightarrow> bool" where
  "link_target v inodes ino target \<longleftrightarrow> (\<exists>i \<in> set inodes. pi_id i = ino \<and> pi_kind i = Symlink \<and> read_target_disk i v = Inr target)"

definition parent_of :: "directory_entry list \<Rightarrow> u64 \<Rightarrow> u64 \<Rightarrow> bool" where
  "parent_of entries d p \<longleftrightarrow>
     (if d = ROOT_INODE_ID then p = ROOT_INODE_ID else map de_parent (filter (\<lambda>e. de_target e = d) entries) = [p])"

inductive walks :: "disk \<Rightarrow> persisted_inode list \<Rightarrow> directory_entry list \<Rightarrow> bool \<Rightarrow> bool \<Rightarrow> byte list list \<Rightarrow> u64 \<Rightarrow> nat \<Rightarrow> u64 \<Rightarrow> bool"
  for v inodes entries follow where
  arrive: "cur \<in> pi_id ` set inodes \<Longrightarrow> (dir \<longrightarrow> is_dir inodes cur) \<Longrightarrow> walks v inodes entries follow dir [] cur 0 cur"
| stay: "is_dir inodes cur \<Longrightarrow> walks v inodes entries follow dir cs cur n ino \<Longrightarrow> walks v inodes entries follow dir (DOT # cs) cur n ino"
| up: "is_dir inodes cur \<Longrightarrow> parent_of entries cur p \<Longrightarrow> walks v inodes entries follow dir cs p n ino \<Longrightarrow>
     walks v inodes entries follow dir (DOT_DOT # cs) cur n ino"
| down: "is_dir inodes cur \<Longrightarrow> c \<notin> {DOT, DOT_DOT} \<Longrightarrow> \<lparr>de_parent = cur, de_target = t, de_name = c\<rparr> \<in> set entries \<Longrightarrow> \<not> is_link inodes t \<Longrightarrow>
     walks v inodes entries follow dir cs t n ino \<Longrightarrow> walks v inodes entries follow dir (c # cs) cur n ino"
| stop: "is_dir inodes cur \<Longrightarrow> c \<notin> {DOT, DOT_DOT} \<Longrightarrow> \<lparr>de_parent = cur, de_target = t, de_name = c\<rparr> \<in> set entries \<Longrightarrow> is_link inodes t \<Longrightarrow>
     \<not> follow \<Longrightarrow> \<not> dir \<Longrightarrow> walks v inodes entries follow dir [c] cur 0 t"
| jump: "is_dir inodes cur \<Longrightarrow> c \<notin> {DOT, DOT_DOT} \<Longrightarrow> \<lparr>de_parent = cur, de_target = t, de_name = c\<rparr> \<in> set entries \<Longrightarrow> link_target v inodes t target \<Longrightarrow>
     cs \<noteq> [] \<or> follow \<or> dir \<Longrightarrow> parse_target_components target = Inr ts \<Longrightarrow>
     walks v inodes entries follow (dir \<or> (target \<noteq> [SLASH] \<and> ends_with_slash target) \<and> cs = []) (ts @ cs)
       (if starts_with_slash target then ROOT_INODE_ID else cur) n ino \<Longrightarrow>
     walks v inodes entries follow dir (c # cs) cur (Suc n) ino"

inductive_simps walks_Nil: "walks v inodes entries follow dir [] cur n ino"
inductive_simps walks_Cons: "walks v inodes entries follow dir (c # cs) cur n ino"

text \<open>The inode named by an absolute path, and the number of links on the way.\<close>

definition names :: "disk \<Rightarrow> persisted_inode list \<Rightarrow> directory_entry list \<Rightarrow> bool \<Rightarrow> byte list \<Rightarrow> nat \<Rightarrow> u64 \<Rightarrow> bool" where
  "names v inodes entries follow path n ino \<longleftrightarrow> starts_with_slash path \<and>
     (\<exists>cs. parse_components path = Inr cs \<and>
        walks v inodes entries follow (path \<noteq> [SLASH] \<and> ends_with_slash path) cs ROOT_INODE_ID n ino)"

section \<open>Resolution finds what the path names\<close>

lemma require_inode_simps:
  assumes "distinct (map pi_id inodes)"
  shows "require_inode inodes ino = Inr i \<longleftrightarrow> i \<in> set inodes \<and> pi_id i = ino"
    and "require_inode inodes ino = Inl e \<longleftrightarrow> ino \<notin> pi_id ` set inodes \<and> e = InvalidData"
proof -
  show "require_inode inodes ino = Inr i \<longleftrightarrow> i \<in> set inodes \<and> pi_id i = ino"
  proof
    assume i: "i \<in> set inodes \<and> pi_id i = ino"
    then obtain j where j: "find (\<lambda>i. pi_id i = ino) inodes = Some j" by (cases "find (\<lambda>i. pi_id i = ino) inodes") (auto simp: find_None_iff)
    then have "j \<in> set inodes" "pi_id j = ino" by (auto simp: find_Some_iff)
    then have "j = i" using i assms by (auto simp: distinct_map inj_on_def)
    then show "require_inode inodes ino = Inr i" using j by (simp add: require_inode_def)
  qed (auto simp: require_inode_def ok_or_Inr find_Some_iff)
  show "require_inode inodes ino = Inl e \<longleftrightarrow> ino \<notin> pi_id ` set inodes \<and> e = InvalidData"
    by (auto simp: require_inode_def ok_or_Inl find_None_iff)
qed

lemma inode_kind_unique:
  assumes "distinct (map pi_id inodes)" and "i \<in> set inodes"
  shows "is_dir inodes (pi_id i) \<longleftrightarrow> pi_kind i = Directory" and "is_link inodes (pi_id i) \<longleftrightarrow> pi_kind i = Symlink"
    and "link_target v inodes (pi_id i) t \<longleftrightarrow> pi_kind i = Symlink \<and> read_target_disk i v = Inr t"
proof -
  have "i' = i" if "i' \<in> set inodes" "pi_id i' = pi_id i" for i' using assms that by (auto simp: distinct_map inj_on_def)
  then show "is_dir inodes (pi_id i) \<longleftrightarrow> pi_kind i = Directory" "is_link inodes (pi_id i) \<longleftrightarrow> pi_kind i = Symlink"
    "link_target v inodes (pi_id i) t \<longleftrightarrow> pi_kind i = Symlink \<and> read_target_disk i v = Inr t"
    using assms(2) by (auto simp: is_dir_def is_link_def link_target_def)
qed

lemma entry_lookup:
  assumes "distinct (map dirent_key entries)" and "find (\<lambda>e. de_parent e = cur \<and> de_name e = c) entries = Some e"
  shows "\<lparr>de_parent = cur, de_target = t, de_name = c\<rparr> \<in> set entries \<longleftrightarrow> t = de_target e"
proof -
  have e: "e \<in> set entries" "de_parent e = cur" "de_name e = c" using assms(2) by (auto simp: find_Some_iff)
  then have "e = \<lparr>de_parent = cur, de_target = de_target e, de_name = c\<rparr>" by simp
  moreover have "e' = e" if "e' \<in> set entries" "dirent_key e' = dirent_key e" for e'
    using assms(1) that e(1) by (auto simp: distinct_map inj_on_def)
  ultimately show ?thesis using e by (metis (no_types, lifting) dirent_key_def directory_entry.select_convs)
qed

lemma parent_directory_Inr:
  assumes "distinct (map pi_id inodes)" and "entries_ok inodes entries"
  shows "parent_directory inodes entries d = Inr p \<longleftrightarrow> parent_of entries d p"
proof (cases "d = 1")
  case False
  let ?ps = "map de_parent (filter (\<lambda>e. de_target e = d) entries)"
  have dir: "is_dir inodes q" if "q \<in> set ?ps" for q using that assms(2) by (auto simp: entries_ok_def)
  consider "?ps = []" | q where "?ps = [q]" | q r qs where "?ps = q # r # qs" by (metis neq_Nil_conv)
  then show ?thesis
  proof cases
    case (2 q)
    then have "is_dir inodes q" using dir by simp
    then obtain i where "i \<in> set inodes" "pi_id i = q" "pi_kind i = Directory" by (auto simp: is_dir_def)
    then have "require_inode inodes q = Inr i" using require_inode_simps(1) [OF assms(1)] by simp
    then show ?thesis using 2 False \<open>pi_kind i = Directory\<close> by (auto simp: parent_directory_def parent_of_def ROOT_INODE_ID_def)
  qed (use False in \<open>simp_all add: parent_directory_def parent_of_def ROOT_INODE_ID_def\<close>)
qed (auto simp: parent_directory_def parent_of_def ROOT_INODE_ID_def)

text \<open>One step of the walk, read off the tables.\<close>

lemma dots [simp]: "DOT \<noteq> DOT_DOT" "DOT_DOT \<noteq> DOT"
  by (simp_all add: DOT_def DOT_DOT_def)

lemma walks_up:
  assumes "is_dir inodes cur" and "parent_of entries cur p"
  shows "walks v inodes entries follow dir (DOT_DOT # cs) cur n ino \<longleftrightarrow> walks v inodes entries follow dir cs p n ino"
proof -
  have "q = p" if "parent_of entries cur q" for q using that assms(2) by (auto simp: parent_of_def split: if_splits)
  then have "(\<exists>q. parent_of entries cur q \<and> walks v inodes entries follow dir cs q n ino) \<longleftrightarrow> walks v inodes entries follow dir cs p n ino"
    using assms(2) by blast
  then show ?thesis using assms(1) by (simp add: walks_Cons dots)
qed

lemma walks_entry:
  assumes "distinct (map pi_id inodes)" and "distinct (map dirent_key entries)" and "is_dir inodes cur" and "c \<noteq> DOT" "c \<noteq> DOT_DOT"
    and e: "find (\<lambda>e. de_parent e = cur \<and> de_name e = c) entries = Some e" and j: "j \<in> set inodes" "pi_id j = de_target e"
  shows "walks v inodes entries follow dir (c # cs) cur n ino \<longleftrightarrow>
    (if pi_kind j = Symlink then
       if cs = [] \<and> \<not> follow \<and> \<not> dir then n = 0 \<and> ino = pi_id j
       else \<exists>m target ts. n = Suc m \<and> read_target_disk j v = Inr target \<and> parse_target_components target = Inr ts \<and>
         walks v inodes entries follow (dir \<or> (target \<noteq> [SLASH] \<and> ends_with_slash target) \<and> cs = []) (ts @ cs)
           (if starts_with_slash target then 1 else cur) m ino
     else walks v inodes entries follow dir cs (pi_id j) n ino)"
proof -
  note k = inode_kind_unique [OF assms(1) j(1)]
  have L: "\<lparr>de_parent = cur, de_target = t, de_name = c\<rparr> \<in> set entries \<longleftrightarrow> t = pi_id j" for t
    using entry_lookup [OF assms(2) e] j(2) by simp
  have c: "c \<notin> {DOT, DOT_DOT}" using assms(4,5) by simp
  note intros = walks.down [OF assms(3) c L [THEN iffD2, OF refl]] walks.stop [OF assms(3) c L [THEN iffD2, OF refl]]
    walks.jump [OF assms(3) c L [THEN iffD2, OF refl]]
  show ?thesis (is "_ \<longleftrightarrow> ?R")
  proof
    assume "walks v inodes entries follow dir (c # cs) cur n ino"
    then show ?R using assms(4,5) by (cases rule: walks.cases) (auto simp: L k ROOT_INODE_ID_def)
  next
    assume r: ?R
    show "walks v inodes entries follow dir (c # cs) cur n ino"
    proof (cases "pi_kind j = Symlink")
      case False
      then show ?thesis using r k by (intro intros(1)) simp_all
    next
      case link: True
      show ?thesis
      proof (cases "cs = [] \<and> \<not> follow \<and> \<not> dir")
        case True
        then show ?thesis using r link k intros(2) by simp
      next
        case False
        then obtain m target ts where "n = Suc m" and t: "read_target_disk j v = Inr target" "parse_target_components target = Inr ts"
          and w: "walks v inodes entries follow (dir \<or> (target \<noteq> [SLASH] \<and> ends_with_slash target) \<and> cs = []) (ts @ cs)
             (if starts_with_slash target then 1 else cur) m ino" using r link by auto
        then show ?thesis using link k False by (simp only:) (rule intros(3) [OF _ _ t(2)], auto simp: ROOT_INODE_ID_def)
      qed
    qed
  qed
qed

text \<open>A resolution never writes, and it finds an inode exactly when the walk exists within the bound.\<close>

definition finds :: "disk \<Rightarrow> dev_event list \<Rightarrow> (disk \<times> dev_event list, u64) dev_io \<Rightarrow> (u64 \<Rightarrow> bool) \<Rightarrow> bool" where
  "finds v tr m P \<longleftrightarrow> (\<exists>r. m (v, tr) = (r, v, tr) \<and> (\<forall>ino. r = Inr ino \<longleftrightarrow> P ino))"

lemma finds_fail: "(\<And>ino. \<not> P ino) \<Longrightarrow> finds v tr (io_fail e) P"
  by (simp add: finds_def io_fail_def)

lemma finds_return: "(\<And>ino. P ino \<longleftrightarrow> ino = x) \<Longrightarrow> finds v tr (io_return x) P"
  by (auto simp: finds_def io_return_def)

lemma finds_lift: "(\<And>e. r = Inl e \<Longrightarrow> \<forall>ino. \<not> P ino) \<Longrightarrow> (\<And>x. r = Inr x \<Longrightarrow> finds v tr (f x) P) \<Longrightarrow> finds v tr (io_bind (io_lift r) f) P"
  by (cases r) (auto simp: finds_def io_simps)

lemma finds_cong: "finds v tr m P \<Longrightarrow> (\<And>ino. P ino \<longleftrightarrow> Q ino) \<Longrightarrow> finds v tr m Q"
  by (auto simp: finds_def)

definition within :: "disk \<Rightarrow> persisted_inode list \<Rightarrow> directory_entry list \<Rightarrow> bool \<Rightarrow> bool \<Rightarrow> byte list list \<Rightarrow> u64 \<Rightarrow> nat \<Rightarrow> u64 \<Rightarrow> bool" where
  "within v inodes entries follow dir cs cur k ino \<longleftrightarrow>
     (\<exists>n. k + n \<le> MAX_SYMLINK_EXPANSIONS \<and> walks v inodes entries follow dir cs cur n ino)"

text \<open>The target of an entry: a link is followed, stopped at or refused, everything else is entered.\<close>

lemma bounded_Suc: "(\<exists>n. k + n \<le> b \<and> (\<exists>m. n = Suc m \<and> P m)) \<longleftrightarrow> (\<exists>m. k + 1 + m \<le> b \<and> P m)" for k :: nat
proof -
  have "(\<exists>n. k + n \<le> b \<and> (\<exists>m. n = Suc m \<and> P m)) \<longleftrightarrow> (\<exists>m. k + Suc m \<le> b \<and> P m)" by blast
  then show ?thesis by simp
qed

lemma resolve_target_finds:
  assumes a: "addressable sb" "disk_ok (sb_total_blocks sb) v" and ok: "fs_ok sb v al inodes entries" and k: "k \<le> MAX_SYMLINK_EXPANSIONS"
    and cur: "is_dir inodes cur" "c \<noteq> DOT" "c \<noteq> DOT_DOT"
    and e: "find (\<lambda>e. de_parent e = cur \<and> de_name e = c) entries = Some e" and j: "j \<in> set inodes" "pi_id j = de_target e"
    and enter: "pi_kind j \<noteq> Symlink \<Longrightarrow> finds v tr (loop dir cs (pi_id j) k) (within v inodes entries follow dir cs (pi_id j) k)"
    and jump: "\<And>target ts dir' cur'. pi_kind j = Symlink \<Longrightarrow> \<not> (cs = [] \<and> \<not> follow \<and> \<not> dir) \<Longrightarrow> \<not> MAX_SYMLINK_EXPANSIONS < k + 1 \<Longrightarrow>
       dir' = (dir \<or> (target \<noteq> [SLASH] \<and> ends_with_slash target) \<and> cs = []) \<Longrightarrow> cur' = (if starts_with_slash target then 1 else cur) \<Longrightarrow>
       finds v tr (loop dir' (ts @ cs) cur' (k + 1)) (within v inodes entries follow dir' (ts @ cs) cur' (k + 1))"
  shows "finds v tr (if pi_kind j = Symlink then
         if cs = [] \<and> \<not> follow \<and> \<not> dir then io_return (pi_id j)
         else if k + 1 > MAX_SYMLINK_EXPANSIONS then io_fail InvalidData
         else
           io_bind (read_symlink (trace_device (sb_total_blocks sb)) sb (pi_id j)) (\<lambda>target.
           io_bind (io_lift (parse_target_components target)) (\<lambda>ts.
           loop (dir \<or> (target \<noteq> [SLASH] \<and> ends_with_slash target) \<and> cs = []) (ts @ cs) (if starts_with_slash target then 1 else cur) (k + 1)))
       else loop dir cs (pi_id j) k)
     (within v inodes entries follow dir (c # cs) cur k)" (is "finds v tr _ ?P")
proof -
  note w = walks_entry [OF fs_okD(7) [OF ok] fs_okD(13) [OF ok] cur e j]
  consider "pi_kind j \<noteq> Symlink" | "pi_kind j = Symlink" "cs = [] \<and> \<not> follow \<and> \<not> dir"
    | "pi_kind j = Symlink" "\<not> (cs = [] \<and> \<not> follow \<and> \<not> dir)" "k + 1 > MAX_SYMLINK_EXPANSIONS"
    | "pi_kind j = Symlink" "\<not> (cs = [] \<and> \<not> follow \<and> \<not> dir)" "\<not> MAX_SYMLINK_EXPANSIONS < k + 1" by blast
  then show ?thesis
  proof cases
    case 1
    then show ?thesis by (simp only: if_False) (rule finds_cong [OF enter], simp_all add: within_def w)
  next
    case 2
    then show ?thesis using k by (auto simp: within_def w intro!: finds_return)
  next
    case 3
    then have "\<not> ?P ino" for ino by (auto simp: within_def w)
    then show ?thesis using 3 by (auto simp: finds_fail)
  next
    case 4
    obtain target where t: "read_target_disk j v = Inr target" using fs_okD(11) [OF ok] j(1) 4(1) by (auto simp: payloads_ok_def)
    have "find_inode inodes (pi_id j) = Some j"
      using require_inode_simps(1) [OF fs_okD(7) [OF ok], of "pi_id j" j] j(1) by (auto simp: find_inode_def require_inode_def ok_or_Inr)
    then have read: "read_symlink (trace_device (sb_total_blocks sb)) sb (pi_id j) (v, tr) = (Inr target, v, tr)"
      using fs_ok_read_symlink [OF a ok] 4(1) t by (simp add: read_symlink_disk_def)
    let ?dir = "dir \<or> (target \<noteq> [SLASH] \<and> ends_with_slash target) \<and> cs = []" and ?cur = "if starts_with_slash target then 1 else cur"
    have P: "?P ino \<longleftrightarrow> (\<exists>ts. parse_target_components target = Inr ts \<and> within v inodes entries follow ?dir (ts @ cs) ?cur (k + 1) ino)" for ino
    proof -
      have "walks v inodes entries follow dir (c # cs) cur n ino \<longleftrightarrow>
          (\<exists>m. n = Suc m \<and> (\<exists>ts. parse_target_components target = Inr ts \<and> walks v inodes entries follow ?dir (ts @ cs) ?cur m ino))" for n
        using 4(1,2) t by (simp only: w if_True if_False) (auto simp del: One_nat_def)
      then show ?thesis unfolding within_def by (simp only: bounded_Suc) blast
    qed
    have "finds v tr (io_bind (io_lift (parse_target_components target)) (\<lambda>ts. loop ?dir (ts @ cs) ?cur (k + 1))) ?P"
    proof (rule finds_lift)
      fix ts assume "parse_target_components target = Inr ts"
      then show "finds v tr (loop ?dir (ts @ cs) ?cur (k + 1)) ?P" by (intro finds_cong [OF jump [OF 4 refl refl]]) (simp add: P)
    qed (simp add: P)
    then show ?thesis unfolding if_P [OF 4(1)] if_not_P [OF 4(2)] if_not_P [OF 4(3)] finds_def io_bind_def read by simp
  qed
qed

lemma resolve_loop_finds:
  assumes "D = trace_device (sb_total_blocks sb)" and "addressable sb" and "disk_ok (sb_total_blocks sb) v" and "fs_ok sb v al inodes entries"
    and "k \<le> MAX_SYMLINK_EXPANSIONS"
  shows "finds v tr (resolve_loop D sb inodes entries follow dir cs cur k) (within v inodes entries follow dir cs cur k)"
  using assms
proof (induction D sb inodes entries follow dir cs cur k rule: resolve_loop.induct)
  case (1 D sb inodes entries follow dir cur k)
  note d = fs_okD(7) [OF 1(4)]
  have "is_dir inodes cur \<longleftrightarrow> pi_kind i = Directory" if "i \<in> set inodes" "pi_id i = cur" for i
    using inode_kind_unique(1) [OF d] that by blast
  then show ?case using 1(5) by (auto simp: within_def walks_Nil require_inode_simps [OF d] intro!: finds_lift finds_fail finds_return)
next
  case (2 D sb inodes entries follow dir c cs cur k)
  note ok = 2(8)
  note d = fs_okD(7) [OF ok] and dk = fs_okD(13) [OF ok]
  have e: "entries_ok inodes entries" using fs_okD(12) [OF ok] by (simp add: namespace_ok_def tree_ok_def)
  note simps = require_inode_simps [OF d] and kinds = inode_kind_unique [OF d]
  let ?P = "within v inodes entries follow dir (c # cs) cur k"
  show ?case
  proof (cases "is_dir inodes cur")
    case False
    then have "\<not> ?P ino" for ino by (auto simp: within_def walks_Cons)
    moreover have "pi_kind i \<noteq> Directory" if "require_inode inodes cur = Inr i" for i using that False by (auto simp: simps is_dir_def)
    ultimately show ?thesis unfolding resolve_loop.simps(2) by (intro finds_lift) (simp_all add: finds_fail)
  next
    case dir: True
    then obtain i where i: "require_inode inodes cur = Inr i" "pi_kind i = Directory" by (auto simp: is_dir_def simps)
    then have di: "\<not> pi_kind i \<noteq> Directory" by simp
    have unfold: "resolve_loop D sb inodes entries follow dir (c # cs) cur k (v, tr) =
       (if c = DOT then resolve_loop D sb inodes entries follow dir cs cur k
        else if c = DOT_DOT then
          io_bind (io_lift (parent_directory inodes entries cur)) (\<lambda>p. resolve_loop D sb inodes entries follow dir cs p k)
        else
          io_bind (io_lift (ok_or NotFound (find (\<lambda>e. de_parent e = cur \<and> de_name e = c) entries))) (\<lambda>e.
          io_bind (io_lift (require_inode inodes (de_target e))) (\<lambda>j.
          if pi_kind j = Symlink then
            if cs = [] \<and> \<not> follow \<and> \<not> dir then io_return (pi_id j)
            else if k + 1 > MAX_SYMLINK_EXPANSIONS then io_fail InvalidData
            else
              io_bind (read_symlink D sb (pi_id j)) (\<lambda>target.
              io_bind (io_lift (parse_target_components target)) (\<lambda>ts.
              resolve_loop D sb inodes entries follow (dir \<or> (target \<noteq> [SLASH] \<and> ends_with_slash target) \<and> cs = [])
                (ts @ cs) (if starts_with_slash target then 1 else cur) (k + 1)))
          else resolve_loop D sb inodes entries follow dir cs (pi_id j) k))) (v, tr)" (is "_ = ?m (v, tr)")
      unfolding resolve_loop.simps(2) using i by (simp add: io_simps)
    have "finds v tr ?m ?P"
    proof -
      consider "c = DOT" | "c \<noteq> DOT" "c = DOT_DOT" | "c \<noteq> DOT" "c \<noteq> DOT_DOT" by blast
      then show ?thesis
      proof cases
        case 1
        show ?thesis unfolding if_P [OF 1] using dir by (intro finds_cong [OF 2(1) [OF di 1 2(5-9)]]) (simp add: within_def walks_Cons 1)
      next
        case c: 2
        have P: "?P ino \<longleftrightarrow> within v inodes entries follow dir cs p k ino" if "parent_of entries cur p" for p ino
          using walks_up [OF dir that] c(2) by (simp add: within_def)
        have N: "\<not> ?P ino" if "\<And>p. \<not> parent_of entries cur p" for ino using that c(2) by (auto simp: within_def walks_Cons)
        have "finds v tr (io_bind (io_lift (parent_directory inodes entries cur)) (\<lambda>p. resolve_loop D sb inodes entries follow dir cs p k)) ?P"
        proof (rule finds_lift)
          fix x assume "parent_directory inodes entries cur = Inl x"
          then show "\<forall>ino. \<not> ?P ino" using N parent_directory_Inr [OF d e, of cur] by auto
        next
          fix p assume "parent_directory inodes entries cur = Inr p"
          then have "parent_of entries cur p" using parent_directory_Inr [OF d e] by blast
          then show "finds v tr (resolve_loop D sb inodes entries follow dir cs p k) ?P" by (intro finds_cong [OF 2(2) [OF di c 2(5-9)]]) (simp add: P)
        qed
        then show ?thesis using c by simp
      next
        case c: 3
        show ?thesis unfolding if_not_P [OF c(1)] if_not_P [OF c(2)]
        proof (intro finds_lift, goal_cases)
          case (1 x)
          then have "\<lparr>de_parent = cur, de_target = t, de_name = c\<rparr> \<notin> set entries" for t by (force simp: ok_or_Inl find_None_iff)
          then show ?case using c by (auto simp: within_def walks_Cons)
        next
          case (2 x y)
          then show ?case using e by (auto simp: ok_or_Inr find_Some_iff entries_ok_def simps)
        next
          case (3 x j)
          then have x: "find (\<lambda>e. de_parent e = cur \<and> de_name e = c) entries = Some x" and j: "j \<in> set inodes" "pi_id j = de_target x"
            by (simp_all add: ok_or_Inr simps)
          show ?case unfolding 2(5)
          proof (rule resolve_target_finds [OF 2(6-9) dir c x j, where loop = "resolve_loop (trace_device (sb_total_blocks sb)) sb inodes entries follow"])
            assume "pi_kind j \<noteq> Symlink"
            from 2(4) [where x = i and xb = j, OF di c this 2(5-9)]
            show "finds v tr (resolve_loop (trace_device (sb_total_blocks sb)) sb inodes entries follow dir cs (pi_id j) k)
                (within v inodes entries follow dir cs (pi_id j) k)" unfolding 2(5) .
          next
            fix target ts dir' cur'
            assume l: "pi_kind j = Symlink" "\<not> (cs = [] \<and> \<not> follow \<and> \<not> dir)" "\<not> MAX_SYMLINK_EXPANSIONS < k + 1"
              and s: "dir' = (dir \<or> (target \<noteq> [SLASH] \<and> ends_with_slash target) \<and> cs = [])" "cur' = (if starts_with_slash target then 1 else cur)"
            have "k + 1 \<le> MAX_SYMLINK_EXPANSIONS" using l(3) by simp
            from 2(3) [where x = i and xb = j and xc = target and xd = ts, OF di c l 2(5-8) this]
            show "finds v tr (resolve_loop (trace_device (sb_total_blocks sb)) sb inodes entries follow dir' (ts @ cs) cur' (k + 1))
                (within v inodes entries follow dir' (ts @ cs) cur' (k + 1))" unfolding s 2(5) .
          qed
        qed
      qed
    qed
    then show ?thesis unfolding finds_def unfold .
  qed
qed

text \<open>Resolution of a whole path.\<close>

lemma resolve_path_finds:
  assumes a: "addressable sb" and ok: "fs_ok sb v al inodes entries" and v: "disk_ok (sb_total_blocks sb) v"
  shows "finds v tr (resolve_path (trace_device (sb_total_blocks sb)) sb path follow)
     (\<lambda>ino. \<exists>n \<le> MAX_SYMLINK_EXPANSIONS. names v inodes entries follow path n ino)"
proof (cases "starts_with_slash path")
  case True
  note l = fs_ok_loads [OF a v ok] and d = fs_okD(7) [OF ok]
  let ?D = "trace_device (sb_total_blocks sb)"
  have P: "(\<exists>n \<le> MAX_SYMLINK_EXPANSIONS. names v inodes entries follow path n ino) \<longleftrightarrow>
      (\<exists>cs. parse_components path = Inr cs \<and> within v inodes entries follow (path \<noteq> [SLASH] \<and> ends_with_slash path) cs 1 0 ino)" for ino
    using True by (auto simp: names_def within_def ROOT_INODE_ID_def)
  have "finds v tr (io_bind (io_lift (parse_components path)) (\<lambda>pending.
      if pending = [] then io_bind (io_lift (require_inode inodes 1)) (\<lambda>inode. io_return (pi_id inode))
      else resolve_loop ?D sb inodes entries follow (path \<noteq> [SLASH] \<and> ends_with_slash path) pending 1 0))
      (\<lambda>ino. \<exists>n \<le> MAX_SYMLINK_EXPANSIONS. names v inodes entries follow path n ino)"
  proof (rule finds_lift)
    fix cs assume cs: "parse_components path = Inr cs"
    show "finds v tr (if cs = [] then io_bind (io_lift (require_inode inodes 1)) (\<lambda>inode. io_return (pi_id inode))
        else resolve_loop ?D sb inodes entries follow (path \<noteq> [SLASH] \<and> ends_with_slash path) cs 1 0)
        (\<lambda>ino. \<exists>n \<le> MAX_SYMLINK_EXPANSIONS. names v inodes entries follow path n ino)"
    proof (cases "cs = []")
      case nil: True
      have "path = [SLASH]"
        using cs nil by (auto simp: parse_components_def parse_component_sequence_def split: if_splits)
      then have "(\<exists>n \<le> MAX_SYMLINK_EXPANSIONS. names v inodes entries follow path n ino) \<longleftrightarrow> ino = 1 \<and> 1 \<in> pi_id ` set inodes" for ino
        unfolding P using cs nil by (auto simp: within_def walks_Nil)
      then show ?thesis using nil by (auto simp: require_inode_simps [OF d] intro!: finds_lift finds_return) force
    next
      case False
      then show ?thesis by (simp only: if_False) (rule finds_cong [OF resolve_loop_finds [OF refl a v ok le0]], simp add: P cs)
    qed
  qed (simp add: P)
  then show ?thesis using True by (simp add: finds_def resolve_path_def io_simps l)
qed (auto simp: resolve_path_def names_def intro!: finds_fail)

end
