(* ===== verification/Spec2Isabelle.thy ===== *)
theory Spec2Isabelle
  imports Example_Runs Path_Lookup
begin

text \<open>
  Verification of \<open>filesystem-lab\<close>: a small journaling filesystem in Rust under \<open>src/src\<close>. A device of
  4096-byte blocks holds a superblock, a write-ahead journal, an allocation bitmap, an inode table,
  a directory table and data blocks, in this order. Every operation loads the tables it needs,
  checks its arguments, computes new tables in memory, renders them, and publishes the blocks that
  changed as one journal transaction, which is replayed to the home blocks and then emptied.

  \<^bold>\<open>Conventions.\<close> A Rust \<open>u64\<close> or \<open>usize\<close> is a natural number and every checked, saturating or
  wrapping operation of the source is written out (\<open>checked_add\<close>, \<open>add64\<close>, ...); bytes are 8-bit words; a
  \<open>String\<close> is its UTF-8 byte list. An \<open>io::Result\<close> is a sum whose left side is the \<open>ErrorKind\<close>; the
  message texts are left out. A function on a device is a state transformer \<open>'d \<Rightarrow> 'a io_result \<times> 'd\<close>
  over a record of the four operations of the trait \<open>BlockDevice\<close>. Loops over ranges are folds; the
  worklist searches are functions with a termination measure, so no fuel is used anywhere.

  \<^bold>\<open>Crash model.\<close> A flushed write is durable; at a crash any subset of the writes since the last flush
  has reached the disk (\<open>crash_disks\<close>). Blocks are written atomically. The theorems about operations run
  on a device without I/O errors; a read, write or flush that fails in the middle of an operation can
  return an error after the transaction has become durable, and only crashes are covered there.

  \<^bold>\<open>Theories and what they model.\<close>
  \<^item> \<open>Prelude\<close>, \<open>Bytes\<close>, \<open>BTree_Map\<close>: checked arithmetic, results, little-endian fields, checksums, and the
    ordered maps of the standard library that the source uses.
  \<^item> \<open>Block_Device\<close>: \<open>block.rs\<close>, with the backing file as a seekable byte array that may fail or be cut
    short. The locale of reliable devices is interpreted on the memory device and on the file device.
  \<^item> \<open>Device_Sim\<close>: the tracing device, crash states, and the simulation rules by which a fact proved on
    the tracing device holds on every reliable one.
  \<^item> \<open>Format\<close>, \<open>Format_Device\<close>: \<open>format.rs\<close>, \<open>format_geometry.rs\<close>, \<open>format_capacity.rs\<close>.
  \<^item> \<open>Allocation\<close>, \<open>Allocation_Disk\<close>: \<open>allocation.rs\<close>, \<open>allocation_disk.rs\<close>.
  \<^item> \<open>Journal\<close>, \<open>Journal_Codec\<close>, \<open>Journal_Region\<close>, \<open>Journal_Image\<close>: \<open>journal.rs\<close>, \<open>journal_codec.rs\<close>,
    \<open>journal_region.rs\<close>; \<open>Recovery\<close>, \<open>Crash_Safety\<close>: \<open>recovery.rs\<close>, \<open>journal_checkpoint.rs\<close>.
  \<^item> \<open>Metadata_Region\<close>, \<open>Inode_Codec\<close>, \<open>Inode_Table\<close>, \<open>Directory_Codec\<close>, \<open>Directory_Table\<close>: the record and
    table codecs of \<open>inode_codec.rs\<close>, \<open>inode_table.rs\<close>, \<open>directory_codec.rs\<close>, \<open>directory_table.rs\<close>.
  \<^item> \<open>Transaction_Image\<close>, \<open>Metadata_Tx\<close>: \<open>transaction_image.rs\<close> and the table transactions.
  \<^item> \<open>Symlink\<close>, \<open>Namespace_Graph\<close>, \<open>Fsck\<close>: \<open>symlink.rs\<close> and \<open>fsck.rs\<close>, with the directory tree as a graph.
  \<^item> \<open>Filesystem_State\<close>, \<open>Namespace_Ops\<close>: the invariant of a consistent filesystem (\<open>fs_ok\<close>), which is what
    the consistency check decides, and the contract of an atomic operation (\<open>atomic_op\<close>) on a device
    whose I/O succeeds: a refusal has issued no write and no flush, a success leaves a consistent
    filesystem of the described shape, and recovery from a crash at any point of it leaves every home
    block, of the tables and of the data, as before the operation or every one as after it.
  \<^item> \<open>Rename_Tx\<close>, \<open>Link_Tx\<close>, \<open>Unlink_Tx\<close>: \<open>rename_tx.rs\<close>, \<open>hard_link_tx.rs\<close>, \<open>hard_unlink_tx.rs\<close>,
    \<open>unlink_tx.rs\<close>, \<open>symlink_unlink.rs\<close>.
  \<^item> \<open>Data_Tx\<close>, \<open>File_Splice\<close>, \<open>File_Ops\<close>: the \<open>file_*.rs\<close> modules that edit the block list of a file, and
    \<open>truncate_tx.rs\<close>. The locale \<open>block_source\<close> is the contract of an allocation strategy, interpreted on
    first-fit and on contiguous allocation.
  \<^item> \<open>File_Data\<close>: reading and overwriting byte ranges and blocks (\<open>file_data.rs\<close>, \<open>file_range_read.rs\<close>,
    \<open>file_overwrite_batch.rs\<close>, \<open>file_zero_range.rs\<close>, \<open>file_copy_range.rs\<close>); \<open>File_Resize\<close>: byte lengths, in
    \<open>truncate_tx.rs\<close>, \<open>file_append_batch.rs\<close> and \<open>file_extending_write.rs\<close>.
  \<^item> \<open>File_Move\<close>: \<open>file_transfer.rs\<close>, \<open>file_exchange.rs\<close>, \<open>file_whole_exchange.rs\<close>,
    \<open>file_whole_transfer_replace.rs\<close>, whose edits rearrange the references of the inode table.
  \<^item> \<open>Checked_Recovery\<close>: \<open>recovery_projection.rs\<close> and the checked recovery of \<open>journal_checkpoint.rs\<close>;
    \<open>Path_Lookup\<close>: \<open>path_lookup.rs\<close>, against the relation \<open>walks\<close> between a path and the inode it names.
  \<^item> \<open>Examples\<close>: a concrete filesystem on which the witnesses evaluate, a tree of directories, two files and
    a symbolic link; \<open>Example_Runs\<close>: operations on it that succeed, one for each kind of edit.

  \<^bold>\<open>What is shown.\<close> The theorems below are grouped as the sections: atomicity and recovery of the journal,
  codecs and geometry, allocation, the namespace operations, the consistency check, formatting, and
  the operations on files. Round trips are stated both ways where the decoder is exact.

  \<^bold>\<open>Not modelled.\<close> Opening and creating the backing file; the buffer cache, the in-memory inode and directory
  managers, the operations by path,
  exchange and overwrite variants of rename, recursive removal and the repairs. The texts of errors
  and the \<open>Debug\<close> and \<open>Display\<close> implementations are left out throughout.
\<close>

section \<open>Crash safety of the commit protocol\<close>

text \<open>
  C1. Publish a transaction into an empty journal, replay it and checkpoint it. Crash at any
  point, with every flushed write durable and any subset of the unflushed writes lost. Recovery of
  the crashed disk succeeds, and afterwards the blocks outside the journal are all as before the
  transaction or the disk is exactly the one the uninterrupted run leaves.
\<close>

theorem commit_atomic:
  assumes "geometry_ok sb" and "disk_ok (sb_total_blocks sb) v" and "\<forall>e \<in> set es. entry_ok e"
    and "publish_and_checkpoint (trace_device (sb_total_blocks sb)) sb es (v, []) = (Inr rep, v', tr)"
    and "w \<in> crash_disks v tr"
  shows "\<exists>rep' w'. recover_journal_and_checkpoint (mem_device (sb_total_blocks sb)) sb w = (Inr rep', w') \<and>
    ((\<forall>b. b = 0 \<or> b \<ge> 1 + sb_journal_blocks sb \<longrightarrow> w' b = v b) \<or> w' = v')"
proof -
  obtain fs where fs: "load_disk sb w = Inr fs" "same_home sb (recovered fs w) v \<or> recovered fs w = v'"
    using publish_crash(2) [OF assms(1) refl assms(2-5)] by blast
  have "disk_ok (sb_total_blocks sb) w" by (rule publish_crash(1) [OF assms(1) refl assms(2-5)])
  from recover_mem [OF assms(1) refl this fs(1)] fs(2) show ?thesis by (auto simp: same_home_def)
qed

theorem commit_atomic_witness:
  "\<exists>rep v' tr. publish_and_checkpoint (trace_device 64) example_superblock example_entries (blank_disk, []) = (Inr rep, v', tr) \<and>
     (\<forall>w \<in> crash_disks blank_disk tr. \<exists>rep' w'.
        recover_journal_and_checkpoint (mem_device 64) example_superblock w = (Inr rep', w') \<and>
        ((\<forall>b. b = 0 \<or> b \<ge> 1 + sb_journal_blocks example_superblock \<longrightarrow> w' b = blank_disk b) \<or> w' = v'))"
proof -
  obtain rep v' tr where run: "publish_and_checkpoint (trace_device 64) example_superblock example_entries (blank_disk, []) = (Inr rep, v', tr)"
    using example_publish by blast
  then show ?thesis
    using commit_atomic [OF example_geometry _ example_entries_ok, of blank_disk rep v' tr] blank_disk_ok by auto
qed

text \<open>
  C2. The atomic-create transaction replaces the allocation image, the inode
  table and the directory table together. Whatever a crash during it leaves behind, recovery
  succeeds and the loaders then return all three old tables or all three new ones.
\<close>

theorem create_metadata_crash_atomic:
  assumes "addressable sb" and "disk_ok (sb_total_blocks sb) v" and "load_journal_image (mem_device (sb_total_blocks sb)) sb v = (Inr [], v)"
    and "allocator_inv a" and "\<forall>i \<in> set inodes. inode_typed i" and "\<forall>e \<in> set entries. dirent_typed e"
    and "store_create_metadata_journaled (trace_device (sb_total_blocks sb)) sb a inodes entries (v, []) = (Inr rep, x, tr)"
    and "w \<in> crash_disks v tr"
  shows "\<exists>rep' w'. recover_journal_and_checkpoint (mem_device (sb_total_blocks sb)) sb w = (Inr rep', w') \<and>
    (tables_of (mem_device (sb_total_blocks sb)) sb w' = tables_of (mem_device (sb_total_blocks sb)) sb v \<or>
     tables_of (mem_device (sb_total_blocks sb)) sb w' = (Inr a, Inr (map canonical_inode inodes), Inr entries))"
proof -
  note g = addressable_geometry [OF assms(1)]
  have empty: "load_disk sb v = Inr []"
    using assms(3) load_mem [OF geometry_check_region [OF g] assms(2)] by simp
  obtain r y evs where o: "snapshot_outcome sb recovered recovery_events (create_images sb a inodes entries) v = (r, y, evs)"
    by (rule prod_cases3)
  with store_create_trace [OF assms(1) refl assms(2) o, of "[]"] assms(7)
  have o: "snapshot_outcome sb recovered recovery_events (create_images sb a inodes entries) v = (Inr rep, x, tr)" by simp
  then obtain ps where ps: "create_images sb a inodes entries = Inr ps"
    by (cases "create_images sb a inodes entries") (auto simp: snapshot_outcome_def)
  have s: "snapshot sb ps" using ps snapshotI(1) [OF g] by (auto simp: create_images_def res_bind_Inr)
  note c = snapshot_crash [OF assms(1) refl assms(2) s empty o [unfolded ps] assms(8)]
  from c(2) obtain fs where fs: "load_disk sb w = Inr fs"
    "same_home sb (recovered fs w) v \<or> same_home sb (recovered fs w) (put_images ps v)" by blast
  have "disk_ok (sb_total_blocks sb) (recovered fs w)" by (rule disk_ok_recovered(2) [OF c(1) fs(1)])
  note t = tables_of_mem [OF assms(1) this] tables_of_mem [OF assms(1,2)]
  from recover_mem [OF g refl c(1) fs(1)] fs(2) show ?thesis
    using same_home_loads [OF g] create_images_load [OF assms(1) ps assms(4-6), of v] by (auto simp: t)
qed

theorem create_metadata_crash_atomic_witness:
  "\<exists>rep x tr. store_create_metadata_journaled (trace_device 64) example_superblock example_allocator
       example_inodes example_dirents (example_disk, []) = (Inr rep, x, tr) \<and>
     (\<forall>w \<in> crash_disks example_disk tr. \<exists>rep' w'. recover_journal_and_checkpoint (mem_device 64) example_superblock w = (Inr rep', w') \<and>
       (tables_of (mem_device 64) example_superblock w' = tables_of (mem_device 64) example_superblock example_disk \<or>
        tables_of (mem_device 64) example_superblock w' =
          (Inr example_allocator, Inr (map canonical_inode example_inodes), Inr example_dirents)))"
proof -
  obtain rep tr where run: "store_create_metadata_journaled (trace_device 64) example_superblock example_allocator
       example_inodes example_dirents (example_disk, []) = (Inr rep, example_tree, tr)" by (rule example_tree_run)
  have j: "load_journal_image (mem_device 64) example_superblock example_disk = (Inr [], example_disk)"
    using load_mem [OF geometry_check_region [OF example_geometry], of example_disk] example_format(3) example_disk_state(2) by simp
  have "\<forall>i \<in> set example_inodes. inode_typed i" "\<forall>e \<in> set example_dirents. dirent_typed e"
    using example_inodes_ok(1) example_dirents_ok dirent_ok_typed by auto
  with run j create_metadata_crash_atomic [OF example_addressable, of example_disk example_allocator example_inodes example_dirents]
  show ?thesis using example_format(3) example_allocator_ok(1) by auto
qed

text \<open>
  C3. On a device whose reads, writes and flushes succeed, a journaled store that
  is refused (a table that does not encode or does not fit, a pending journal, a journal region too
  small) leaves the disk as it was and has issued no write and no flush: every refusal is decided
  before the device is touched. The theorem does not cover I/O errors, after which a transaction may
  already be durable.
\<close>

theorem failed_transaction_untouched:
  assumes "addressable sb" and "disk_ok (sb_total_blocks sb) v"
    and "op \<in> {store_create_metadata_journaled (trace_device (sb_total_blocks sb)) sb a inodes entries,
                store_inode_directory_tables_journaled (trace_device (sb_total_blocks sb)) sb inodes entries,
                store_inode_table_journaled (trace_device (sb_total_blocks sb)) sb inodes,
                store_directory_table_journaled (trace_device (sb_total_blocks sb)) sb entries}"
    and "op (v, tr) = (Inl e, x, tr')"
  shows "x = v \<and> tr' = tr"
proof -
  have out: "x = v \<and> tr' = tr"
    if "\<And>r y evs. snapshot_outcome sb settled evs_of images v = (r, y, evs) \<Longrightarrow> op (v, tr) = (r, y, tr @ evs)" for settled evs_of images
  proof -
    obtain r y evs where o: "snapshot_outcome sb settled evs_of images v = (r, y, evs)" by (rule prod_cases3)
    with that [OF o] assms(4) snapshot_outcome_Inl [of sb settled evs_of images v e y evs] show ?thesis by auto
  qed
  from assms(3) consider (create) "op = store_create_metadata_journaled (trace_device (sb_total_blocks sb)) sb a inodes entries"
    | (tables) "op = store_inode_directory_tables_journaled (trace_device (sb_total_blocks sb)) sb inodes entries"
    | (inodes) "op = store_inode_table_journaled (trace_device (sb_total_blocks sb)) sb inodes"
    | (directory) "op = store_directory_table_journaled (trace_device (sb_total_blocks sb)) sb entries" by blast
  then show ?thesis
  proof cases
    case create
    then show ?thesis using store_create_trace [OF assms(1) refl assms(2)] by (intro out) blast
  next
    case tables
    then show ?thesis using store_tables_trace [OF assms(1) refl assms(2)] by (intro out) blast
  next
    case inodes
    then show ?thesis using store_inodes_journaled_trace [OF assms(1) refl assms(2)] by (intro out) blast
  next
    case directory
    then show ?thesis using store_directory_journaled_trace [OF assms(1) refl assms(2)] by (intro out) blast
  qed
qed

theorem failed_transaction_untouched_witness:
  "\<exists>e x tr'. store_inode_table_journaled (trace_device 64) example_superblock
       [\<lparr>pi_id = 0, pi_kind = Directory, pi_blocks = [], pi_byte_len = 0\<rparr>] (blank_disk, []) = (Inl e, x, tr') \<and> x = blank_disk \<and> tr' = []"
proof -
  let ?bad = "[\<lparr>pi_id = 0, pi_kind = Directory, pi_blocks = [], pi_byte_len = 0\<rparr>]"
  have "inode_encode_image example_superblock ?bad = Inl InvalidInput"
    by (simp add: inode_encode_image_def encode_table_def encode_inode_def canonical_byte_len_def validate_inode_fields_def
        invalid_input_def map_err_def)
  then have "snapshot_outcome example_superblock replayed replay_events
      (map_sum id (\<lambda>I. [(inode_range example_superblock, I)]) (inode_encode_image example_superblock ?bad)) blank_disk = (Inl InvalidInput, blank_disk, [])"
    by (simp add: snapshot_outcome_def)
  from store_inodes_journaled_trace [OF example_addressable _ _ this, of 64 "[]"]
  have "store_inode_table_journaled (trace_device 64) example_superblock ?bad (blank_disk, []) = (Inl InvalidInput, blank_disk, [])"
    by (simp add: blank_disk_ok)
  with failed_transaction_untouched [OF example_addressable, of blank_disk _ _ ?bad] show ?thesis
    by (fastforce simp: blank_disk_ok)
qed

text \<open>
  C4. A crash at any point of recovery itself is harmless: recovering the crashed
  disk ends with the very disk the uninterrupted recovery would have left.
\<close>

theorem recovery_crash_idempotent:
  assumes "geometry_ok sb" and "disk_ok (sb_total_blocks sb) v"
    and "recover_journal_and_checkpoint (trace_device (sb_total_blocks sb)) sb (v, []) = (Inr rep, v', tr)" and "w \<in> crash_disks v tr"
  shows "\<exists>rep'. recover_journal_and_checkpoint (mem_device (sb_total_blocks sb)) sb w = (Inr rep', v')"
proof -
  have c: "check_region sb (sb_total_blocks sb) = Inr ()" by (rule geometry_check_region [OF assms(1)])
  obtain es where es: "load_disk sb v = Inr es"
    using assms(3) load_trace [OF c assms(2)]
    by (cases "load_disk sb v") (auto simp: recover_journal_and_checkpoint_def recover_journal_def io_simps)
  from recover_trace [OF assms(1) refl assms(2) es, of "[]"] assms(3) have v': "v' = recovered es v" "tr = recovery_events es" by auto
  obtain fs where fs: "load_disk sb w = Inr fs" "recovered fs w = v'"
    using recovery_crash [OF assms(1) es] assms(4) v' by blast
  have "disk_ok (sb_total_blocks sb) w"
    using crash_disks_ok [OF assms(4,2)] recovery_events_data [OF es] v'(2) by auto
  from recover_mem [OF assms(1) refl this fs(1)] fs(2) show ?thesis by auto
qed

theorem recovery_crash_idempotent_witness:
  "\<exists>x rep v' tr. load_disk example_superblock x = Inr example_entries \<and>
     recover_journal_and_checkpoint (trace_device 64) example_superblock (x, []) = (Inr rep, v', tr) \<and>
     (\<forall>w \<in> crash_disks x tr. \<exists>rep'. recover_journal_and_checkpoint (mem_device 64) example_superblock w = (Inr rep', v'))"
proof -
  obtain x evs where o: "store_outcome example_superblock example_entries blank_disk = (Inr (), x, evs)"
    using example_store [OF blank_disk_journal] by blast
  note s = store_outcome_Inr [OF geometry_check_region [OF example_geometry] blank_disk_ok o example_entries_ok]
  from recover_trace [OF example_geometry refl s(3,2), of "[]"] show ?thesis
    using recovery_crash_idempotent [OF example_geometry s(3)] s(2) by (intro exI [of _ x]) auto
qed

text \<open>
  C5. The file-backed device is a faithful block store for the transactions: an
  atomic-create run on a backing file without I/O errors returns what the same run on an array of
  blocks returns, and leaves the file with the blocks of that array.
\<close>

theorem file_device_refines:
  assumes "file_reliable f" and "store_create_metadata_journaled file_device sb a inodes entries f = (r, f')"
  shows "store_create_metadata_journaled (mem_device (fbd_blocks f)) sb a inodes entries (file_view f) = (r, file_view f') \<and>
    file_reliable f' \<and> fbd_blocks f' = fbd_blocks f"
proof -
  have f: "sized file_device file_reliable (fbd_blocks f) f" using assms(1) by (simp add: sized_def)
  from dev_simD [OF file_ok.to_mem.sim_store_create_metadata_journaled f assms(2)] show ?thesis by (simp add: sized_def)
qed

theorem file_device_refines_witness:
  "\<exists>f rep f'. file_reliable f \<and> fbd_blocks f = 64 \<and>
     store_create_metadata_journaled file_device example_superblock example_allocator example_inodes example_dirents f = (Inr rep, f') \<and>
     store_create_metadata_journaled (mem_device 64) example_superblock example_allocator example_inodes example_dirents (file_view f) =
       (Inr rep, file_view f')"
proof -
  obtain f rep f' where f: "file_reliable f" "fbd_blocks f = 64"
    "store_create_metadata_journaled file_device example_superblock example_allocator example_inodes example_dirents f = (Inr rep, f')"
    by (rule example_file_run)
  from file_device_refines [OF f(1,3)] f show ?thesis by auto
qed

section \<open>The journal\<close>

text \<open>
  C6. What is stored in the journal region is what is loaded from it, and storing
  touches no block outside the region.
\<close>

theorem journal_round_trip:
  assumes "geometry_ok sb" and "disk_ok (sb_total_blocks sb) v" and "\<forall>e \<in> set es. entry_ok e"
    and "store_journal_image (mem_device (sb_total_blocks sb)) sb es v = (Inr (), v')"
  shows "load_journal_image (mem_device (sb_total_blocks sb)) sb v' = (Inr es, v') \<and>
    (\<forall>b. b = 0 \<or> 1 + sb_journal_blocks sb \<le> b \<longrightarrow> v' b = v b)"
proof -
  let ?n = "sb_total_blocks sb"
  have c: "check_region sb ?n = Inr ()" by (rule geometry_check_region [OF assms(1)])
  obtain r x evs where o: "store_outcome sb es v = (r, x, evs)" by (rule prod_cases3)
  with store_trace [OF c assms(2), of es "[]"] have t: "store_journal_image (trace_device ?n) sb es (v, []) = (r, x, evs)"
    by (cases r) simp_all
  from dev_simD(1) [OF tracing.to_mem.sim_store_journal_image [of ?n ?n] _ t] assms(2,4) have "r = Inr ()" "x = v'" by simp_all
  note s = store_outcome_Inr [OF c assms(2) o [unfolded this] assms(3)]
  show ?thesis using load_mem [OF c s(3)] s(2,4) by (simp add: same_home_def)
qed

theorem journal_round_trip_witness:
  "\<exists>v'. store_journal_image (mem_device 64) example_superblock example_entries blank_disk = (Inr (), v') \<and>
     load_journal_image (mem_device 64) example_superblock v' = (Inr example_entries, v')"
proof -
  obtain x evs where o: "store_outcome example_superblock example_entries blank_disk = (Inr (), x, evs)"
    using example_store [OF blank_disk_journal] by blast
  have t: "store_journal_image (trace_device 64) example_superblock example_entries (blank_disk, []) = (Inr (), x, evs)"
    using store_trace [OF geometry_check_region [OF example_geometry] blank_disk_ok, of example_entries "[]"] o by simp
  have "store_journal_image (mem_device 64) example_superblock example_entries blank_disk = (Inr (), x)"
    using dev_simD(1) [OF tracing.to_mem.sim_store_journal_image [of 64 64] _ t] blank_disk_ok by simp
  with journal_round_trip [OF example_geometry _ example_entries_ok, of blank_disk x] blank_disk_ok show ?thesis by auto
qed

text \<open>
  C7. Publishing one transaction of home-block writes is refused without touching the
  disk while a journal is pending (\<open>WouldBlock\<close>) or when the region is too small (\<open>InvalidInput\<close>),
  and it succeeds in every other case.
\<close>

theorem journal_admission:
  assumes "addressable sb" and "disk_ok (sb_total_blocks sb) v" and "load_journal_image (mem_device (sb_total_blocks sb)) sb v = (Inr es, v)"
    and "\<forall>(b, d) \<in> set ws. home_target sb b \<and> length d = BLOCK_SIZE" and "transaction_entries ws = Inr entries"
  shows "(es \<noteq> [] \<longrightarrow> store_journal_image (trace_device (sb_total_blocks sb)) sb entries (v, tr) = (Inl WouldBlock, v, tr)) \<and>
    (es = [] \<and> \<not> journal_fits sb (length ws) \<longrightarrow>
      store_journal_image (trace_device (sb_total_blocks sb)) sb entries (v, tr) = (Inl InvalidInput, v, tr)) \<and>
    (es = [] \<and> journal_fits sb (length ws) \<longrightarrow>
      (\<exists>x evs. store_journal_image (trace_device (sb_total_blocks sb)) sb entries (v, tr) = (Inr (), x, tr @ evs)))"
proof -
  note g = addressable_geometry [OF assms(1)]
  note c = geometry_check_region [OF g]
  have l: "load_disk sb v = Inr es" using assms(3) load_mem [OF c assms(2)] by simp
  have e: "entries = txn_entries (0, ws)" using assms(5) by (simp add: transaction_entries_eq)
  note s = store_outcome_transaction [OF assms(1) l assms(4)] and t = store_trace [OF c assms(2), of entries tr]
  consider "es \<noteq> []" | "es = []" "\<not> journal_fits sb (length ws)" | "es = []" "journal_fits sb (length ws)" by blast
  then show ?thesis
  proof cases
    case 1
    with s(1) t show ?thesis by (simp add: e)
  next
    case 2
    with s(2) t show ?thesis by (simp add: e)
  next
    case 3
    with s(3) t show ?thesis by (auto simp: e)
  qed
qed

theorem journal_admission_witness:
  "\<exists>x evs. store_journal_image (trace_device 64) example_superblock example_entries (blank_disk, []) = (Inr (), x, evs)"
proof -
  have j: "load_journal_image (mem_device 64) example_superblock blank_disk = (Inr [], blank_disk)"
    using load_mem [OF geometry_check_region [OF example_geometry], of blank_disk] blank_disk_ok blank_disk_journal by simp
  have t: "transaction_entries example_writes = Inr example_entries" by (simp add: transaction_entries_eq example_entries_txn)
  show ?thesis
    using journal_admission [OF example_addressable _ _ example_writes_home t, of blank_disk "[]" "[]"] blank_disk_ok j
    by (simp add: example_fits example_writes_def)
qed

text \<open>
  C8. Whatever calls a client makes on the in-memory log, every prefix of it that a
  crash may leave replays, and replays exactly the transactions whose commit record is in the
  prefix, in order; the open transaction contributes nothing.
\<close>

theorem journal_log_prefix_replay:
  assumes "log_step\<^sup>*\<^sup>* journal_log_new l" and "length (jl_entries l) < U64_LIMIT" and "crash_prefix l k = Inr prefix"
  shows "replay_into prefix home = (Inr (length (filter is_Commit prefix)),
    apply_writes home (concat (map snd (take (length (filter is_Commit prefix)) (transactions (jl_entries l))))))"
proof -
  from log_inv_reachable [OF assms(1)] obtain ts opn where p: "parse_log (jl_entries l) None = Some (ts, opn)"
    by (auto simp: log_inv_def)
  from assms(3) have k: "prefix = take k (jl_entries l)" by (auto simp: crash_prefix_def split: if_splits)
  from parse_log_prefix [OF p, of k] obtain opn' where
    q: "parse_log prefix None = Some (take (length (filter is_Commit prefix)) ts, opn')" by (auto simp: k)
  have "length (take (length (filter is_Commit prefix)) ts) = length (filter is_Commit prefix)"
    by (rule parse_log_commits [OF q])
  moreover have "length prefix < U64_LIMIT" using assms(2) by (simp add: k)
  ultimately show ?thesis using replay_into_ok [OF q] p by (simp add: transactions_def)
qed

theorem journal_log_prefix_replay_witness:
  "\<exists>l. log_step\<^sup>*\<^sup>* journal_log_new l \<and> jl_entries l = example_entries \<and> crash_prefix l 2 = Inr (take 2 example_entries) \<and>
     replay_into (take 2 example_entries) Map.empty = (Inr 0, Map.empty) \<and>
     replay_into example_entries Map.empty = (Inr 1, [20 \<mapsto> replicate BLOCK_SIZE 7])"
proof -
  let ?l1 = "snd (journal_begin journal_log_new)"
  let ?l2 = "snd (journal_write 0 20 (replicate BLOCK_SIZE 7) ?l1)"
  let ?l = "snd (journal_commit 0 ?l2)"
  have "log_step journal_log_new ?l1" "log_step ?l1 ?l2" "log_step ?l2 ?l" by (rule log_step.intros, rule prod.collapse [symmetric])+
  then have r: "log_step\<^sup>*\<^sup>* journal_log_new ?l" by (meson rtranclp.rtrancl_into_rtrancl rtranclp.rtrancl_refl)
  have e: "jl_entries ?l = example_entries"
    by (simp add: journal_begin_def journal_write_def journal_commit_def journal_log_new_def require_active_def checked_add_def
        example_entries_def Let_def)
  have p: "crash_prefix ?l 2 = Inr (take 2 example_entries)" "crash_prefix ?l 3 = Inr example_entries"
    by (simp_all add: crash_prefix_def e) (simp_all add: example_entries_def)
  have "replay_into (take 2 example_entries) Map.empty = (Inr 0, Map.empty)"
    using journal_log_prefix_replay [OF r _ p(1), of Map.empty] e by (simp add: example_entries_def)
  moreover have "replay_into example_entries Map.empty = (Inr 1, [20 \<mapsto> replicate BLOCK_SIZE 7])"
    using journal_log_prefix_replay [OF r _ p(2), of Map.empty] e by (simp add: example_entries_def transactions_def)
  ultimately show ?thesis using r e p(1) by blast
qed

text \<open>
  C9. Encoding a journal and decoding the bytes gives the journal back.
\<close>

theorem journal_codec_round_trip:
  assumes "\<forall>e \<in> set es. entry_ok e" and "encode_entries es = Inr bytes" and "length bytes < U64_LIMIT"
  shows "decode_entries bytes = Inr es"
  using decode_encode_entries [OF assms(1)] encode_entries_ok [OF assms(1)] assms(2,3) by simp

theorem journal_codec_round_trip_witness:
  "\<exists>bytes. encode_entries example_entries = Inr bytes \<and> decode_entries bytes = Inr example_entries"
proof -
  have "length (entries_bytes example_entries) = 96 + BLOCK_SIZE"
    using length_entries_bytes [OF example_entries_ok] by (simp add: example_entries_def)
  then have "length (entries_bytes example_entries) < U64_LIMIT" by (simp add: BLOCK_SIZE_def)
  with journal_codec_round_trip [OF example_entries_ok encode_entries_ok [OF example_entries_ok]] show ?thesis
    using encode_entries_ok [OF example_entries_ok] by blast
qed

section \<open>Geometry and allocation\<close>

text \<open>
  C10. The superblock decoder inverts the encoder on every accepted geometry, accepts
  nothing but accepted geometries, and accepts exactly the encoder's bytes.
\<close>

theorem superblock_round_trip:
  assumes "length block = BLOCK_SIZE"
  shows "superblock_decode block = Inr sb \<longleftrightarrow> geometry_ok sb \<and> block = superblock_encode sb"
  using superblock_decode_geometry superblock_encode_decode [OF _ assms] superblock_decode_encode by metis

theorem superblock_round_trip_witness:
  "superblock_decode (superblock_encode example_superblock) = Inr example_superblock"
  using superblock_round_trip [of "superblock_encode example_superblock" example_superblock] example_geometry by simp

text \<open>
  C11. Whatever metadata sizes are requested, a layout that the constructor accepts
  splits the reserved prefix of the device into the superblock, the journal, the allocation image,
  the inode table and the directory table, without overlap, and the allocation image is large
  enough for one bit per block.
\<close>

theorem geometry_partition:
  assumes "with_all_metadata_blocks total_blocks journal inode directory = Inr sb" and "total_blocks < U64_LIMIT"
  shows "[0..<reserved_blocks sb] = [0] @ journal_range sb @ allocation_range sb @ inode_range sb @ directory_range sb \<and>
    reserved_blocks sb \<le> total_blocks \<and> 32 + (total_blocks + 7) div 8 \<le> sb_allocation_blocks sb * BLOCK_SIZE"
proof -
  note w = with_all_metadata_blocks_ok [OF assms]
  note g = geometry_ranges [OF w(1)] and o = geometry_order [OF w(1)]
  have "[0..<reserved_blocks sb] = [0] @ [1..<reserved_blocks sb]" using o by (simp add: upt_conv_Cons)
  also have "[1..<reserved_blocks sb] = [1..<sb_allocation_start sb] @ [sb_allocation_start sb..<sb_inode_start sb] @
      [sb_inode_start sb..<sb_directory_start sb] @ [sb_directory_start sb..<reserved_blocks sb]"
    by (rule upt_split4) (use o in simp_all)
  finally have p: "[0..<reserved_blocks sb] = [0] @ journal_range sb @ allocation_range sb @ inode_range sb @ directory_range sb"
    by (simp only: g)
  from w(1,2) have "required_allocation_blocks total_blocks = Inr (sb_allocation_blocks sb)" by (simp add: geometry_ok_def)
  then have "32 + (total_blocks + 7) div 8 \<le> sb_allocation_blocks sb * BLOCK_SIZE" by (rule required_allocation_blocks_Inr(3))
  with p o(5) w(2) show ?thesis by simp
qed

theorem geometry_partition_witness:
  "with_all_metadata_blocks 64 8 2 2 = Inr example_superblock \<and> [0..<14] = [0] @ journal_range example_superblock @
     allocation_range example_superblock @ inode_range example_superblock @ directory_range example_superblock"
proof -
  have "with_all_metadata_blocks 64 8 2 2 = Inr example_superblock"
    by (simp add: with_all_metadata_blocks_def required_allocation_blocks_def allocation_bitmap_bytes_def Let_def
        ALLOCATION_IMAGE_HEADER_LEN_def BLOCK_SIZE_U64_def BLOCK_SIZE_def checked_add_def SUPERBLOCK_BLOCK_def example_superblock_def)
  with geometry_partition [OF this] show ?thesis by simp
qed

text \<open>
  C12. Allocation hands out the lowest run of free data blocks that is long enough,
  marks exactly that run as owned and keeps the allocator invariant; it fails only with \<open>Exhausted\<close>,
  and only when no free run of that length exists.
\<close>

theorem allocator_first_fit:
  assumes "allocator_inv a" and "0 < n"
  shows "case allocate_contiguous n a of
      Inr (s, a') \<Rightarrow> allocator_inv a' \<and> {s..<s + n} \<subseteq> data_blocks a - owned_blocks a \<and>
        owned_blocks a' = owned_blocks a \<union> {s..<s + n} \<and> (\<forall>t < s. \<not> {t..<t + n} \<subseteq> data_blocks a - owned_blocks a)
    | Inl e \<Rightarrow> e = Exhausted \<and> (\<forall>t. \<not> {t..<t + n} \<subseteq> data_blocks a - owned_blocks a)"
proof (cases "allocate_contiguous n a")
  case (Inl e)
  with allocate_contiguous_Inl [OF assms(1) Inl assms(2)] show ?thesis by simp
next
  case (Inr sa)
  obtain s a' where sa: "sa = (s, a')" by fastforce
  with Inr pool.run_success [OF assms(1), of n s a'] pool.run_first [OF assms(1), of n s a'] show ?thesis by simp
qed

theorem allocator_first_fit_witness:
  "\<exists>s a'. allocate_contiguous 3 (empty_allocator example_superblock) = Inr (s, a') \<and> owned_blocks a' = {s..<s + 3}"
proof -
  note e = empty_allocator_inv(1) [OF example_geometry]
  have o: "owned_blocks (empty_allocator example_superblock) = {}" by (simp add: empty_allocator_def owned_blocks_def)
  have "\<exists>t. {t..<t + 3} \<subseteq> data_blocks (empty_allocator example_superblock)"
    by (intro exI [of _ 14]) (auto simp: empty_allocator_def data_blocks_def)
  with allocator_first_fit [OF e, of 3] o show ?thesis
    by (cases "allocate_contiguous 3 (empty_allocator example_superblock)") auto
qed

text \<open>
  C13. Freeing returns exactly the named block to the pool when it is an owned data block;
  otherwise it fails, naming the reason: out of range, reserved metadata, or already free.
\<close>

theorem allocator_free:
  assumes "allocator_inv a"
  shows "case free_block b a of
      Inr a' \<Rightarrow> b \<in> owned_blocks a \<and> allocator_inv a' \<and> owned_blocks a' = owned_blocks a - {b} \<and> data_blocks a' = data_blocks a
    | Inl e \<Rightarrow> b \<notin> owned_blocks a \<and> e = (if al_total_blocks a \<le> b then OutOfRange b (al_total_blocks a)
        else if b < al_reserved_blocks a then ReservedBlock b else AlreadyFree b)"
  using free_block_step [OF assms] free_block_Inl [of b a] by (cases "free_block b a") auto

theorem allocator_free_witness:
  "(\<exists>a'. free_block 14 example_allocator = Inr a' \<and> owned_blocks a' = {15, 16}) \<and> free_block 20 example_allocator = Inl (AlreadyFree 20)"
proof
  show "\<exists>a'. free_block 14 example_allocator = Inr a' \<and> owned_blocks a' = {15, 16}"
    using allocator_free [OF example_allocator_ok(1), of 14]
    by (cases "free_block 14 example_allocator") (auto simp: example_allocator_ok(2))
  have "al_total_blocks example_allocator = 64" "al_reserved_blocks example_allocator = 14" by (simp_all add: example_allocator_def)
  then show "free_block 20 example_allocator = Inl (AlreadyFree 20)"
    using allocator_free [OF example_allocator_ok(1), of 20]
    by (cases "free_block 20 example_allocator") (simp_all add: example_allocator_ok(2))
qed

text \<open>
  C14. After any sequence of successful allocations and frees from a new allocator
  the self-check \<open>validate\<close> passes and the three counters add up to the device size.
\<close>

theorem allocator_histories_valid:
  assumes "allocator_new total_blocks reserved = Inr a0" and "total_blocks < U64_LIMIT" and "alloc_step\<^sup>*\<^sup>* a0 a"
  shows "allocator_validate a = Inr () \<and> al_reserved_blocks a + al_allocated_blocks a + free_blocks a = al_total_blocks a"
  using allocator_validate_ok [OF alloc_reachable_inv [OF assms(3) allocator_new_inv(1) [OF assms(1,2)]]] by simp_all

theorem allocator_histories_valid_witness:
  "\<exists>a0 s a. allocator_new 64 14 = Inr a0 \<and> allocate_contiguous 3 a0 = Inr (s, a) \<and> allocator_validate a = Inr () \<and>
     al_reserved_blocks a + al_allocated_blocks a + free_blocks a = al_total_blocks a"
proof -
  obtain a0 where a0: "allocator_new 64 14 = Inr a0" by (simp add: allocator_new_def)
  have "data_blocks a0 - owned_blocks a0 = {14..<64}" using allocator_new_inv [OF a0] by (simp add: data_blocks_def)
  then obtain s a where run: "allocate_contiguous 3 a0 = Inr (s, a)"
    using allocate_contiguous_Inl(2) [OF allocator_new_inv(1) [OF a0], of 3 _ 20] by (cases "allocate_contiguous 3 a0") auto
  then have "alloc_step\<^sup>*\<^sup>* a0 a" by (intro r_into_rtranclp step_run)
  from allocator_histories_valid [OF a0 _ this] a0 run show ?thesis by auto
qed

section \<open>Operations on the namespace\<close>

text \<open>
  C15. Renaming an entry, file or directory, on a consistent filesystem and a device whose I/O
  succeeds: a refusal has issued no write and no flush; a success moves exactly the named entry and
  leaves a consistent filesystem (no cycle, no orphan); and a crash at any point of it recovers to
  the blocks before the rename or to those after it.
\<close>

theorem rename_atomic:
  assumes "addressable sb" and "fs_ok sb v a inodes entries" and "recovers sb v v" and "utf8_valid new_name" and "new_parent < U64_LIMIT"
  shows "atomic_op sb v (a, inodes, entries)
    (rename_entry_journaled (trace_device (sb_total_blocks sb)) sb old_parent old_name new_parent new_name)
    (\<lambda>_ _ t. t = (a, inodes, rename_result old_parent old_name new_parent new_name entries))"
  by (rule rename_run [OF assms]) (auto intro: atomic_op_failed atomic_op_done [OF _ _ assms(2)])

theorem rename_atomic_witness:
  "completes example_superblock example_tree (example_allocator, example_inodes, example_dirents)
    (rename_entry_journaled (trace_device 64) example_superblock 1 [102] 3 [104])
    (\<lambda>_ _ t. t = (example_allocator, example_inodes, rename_result 1 [102] 3 [104] example_dirents))"
proof -
  obtain rep x evs where run: "rename_entry_journaled (trace_device 64) example_superblock 1 [102] 3 [104] (example_tree, []) = (Inr rep, x, evs)"
    by (rule example_rename_run)
  show ?thesis
    using rename_atomic [OF example_addressable example_tree_state(1,2), of "[104]" 3 1 "[102]"] run by (intro completesI) (simp, blast)
qed

text \<open>
  C19. The walk up the tree that guards a directory move answers yes exactly when the
  new parent lies below the moved directory in the tree without the moved entry.
\<close>

theorem directory_cycle_check:
  assumes "k < length entries"
  shows "would_create_directory_cycle entries k target new_parent \<longleftrightarrow> (target, new_parent) \<in> (links (remove_at k entries))\<^sup>*"
  by (rule would_create_directory_cycle_eq [OF assms])

theorem directory_cycle_check_witness:
  "would_create_directory_cycle example_dirents 0 2 3"
proof -
  have "(2, 3) \<in> links (remove_at 0 example_dirents)" by (simp add: links_def remove_at_def example_dirents_def)
  with directory_cycle_check [of 0 example_dirents 2 3] show ?thesis by (simp add: example_dirents_def r_into_rtrancl)
qed

text \<open>
  C20. Hard-linking a file or a symbolic link adds exactly one entry, only when the parent is a
  directory, the target has the right kind and the name is free, and is atomic under crashes.
\<close>

theorem hard_link_atomic:
  assumes "addressable sb" and "fs_ok sb v a inodes entries" and "recovers sb v v"
    and "utf8_valid name" and "parent < U64_LIMIT" and "target < U64_LIMIT"
    and "(op, kind) \<in> {(hard_link_file_journaled (trace_device (sb_total_blocks sb)) sb parent name target, File),
      (hard_link_symlink_journaled (trace_device (sb_total_blocks sb)) sb parent name target, Symlink)}"
  shows "atomic_op sb v (a, inodes, entries) op
    (\<lambda>_ _ t. endpoints_ok inodes entries parent name target kind \<and>
      t = (a, inodes, entries @ [\<lparr>de_parent = parent, de_target = target, de_name = name\<rparr>]))"
proof (rule hard_link_run [OF assms(1-6), of op kind])
  show "op = hard_link_file_journaled (trace_device (sb_total_blocks sb)) sb parent name target \<and> kind = File \<or>
    op = hard_link_symlink_journaled (trace_device (sb_total_blocks sb)) sb parent name target \<and> kind = Symlink"
    using assms(7) by auto
qed (auto intro: atomic_op_failed atomic_op_done [OF _ _ assms(2)])

theorem hard_link_atomic_witness:
  "atomic_op example_superblock example_tree (example_allocator, example_inodes, example_dirents)
    (hard_link_file_journaled (trace_device 64) example_superblock 3 [104] 4)
    (\<lambda>_ _ t. endpoints_ok example_inodes example_dirents 3 [104] 4 File \<and>
      t = (example_allocator, example_inodes, example_dirents @ [\<lparr>de_parent = 3, de_target = 4, de_name = [104]\<rparr>]))"
  using hard_link_atomic [OF example_addressable example_tree_state(1,2), of "[104]" 3 4
      "hard_link_file_journaled (trace_device 64) example_superblock 3 [104] 4" File] by simp

text \<open>
  C21. Dropping one of several names of a file or symbolic link removes exactly that
  name and is atomic under crashes; the last name is never removed this way.
\<close>

theorem unlink_nonfinal_atomic:
  assumes "addressable sb" and "fs_ok sb v a inodes entries" and "recovers sb v v"
    and "op \<in> {unlink_nonfinal_file_link_journaled (trace_device (sb_total_blocks sb)) sb parent name,
      unlink_nonfinal_symlink_link_journaled (trace_device (sb_total_blocks sb)) sb parent name}"
  shows "atomic_op sb v (a, inodes, entries) op
    (\<lambda>_ _ t. t = (a, inodes, filter (\<lambda>e. dirent_key e \<noteq> (parent, name)) entries))"
proof -
  have *: "atomic_op sb v (a, inodes, entries) (unlink_nonfinal_link_journaled (trace_device (sb_total_blocks sb)) sb parent name kind check)
      (\<lambda>_ _ t. t = (a, inodes, filter (\<lambda>e. dirent_key e \<noteq> (parent, name)) entries))"
    if "kind \<noteq> Directory" "check \<longrightarrow> kind = Symlink" for kind check
    by (rule unlink_nonfinal_run [OF assms(1-3) that]) (auto intro: atomic_op_failed atomic_op_done [OF _ _ assms(2)])
  from assms(4) * show ?thesis
    by (auto simp: unlink_nonfinal_file_link_journaled_def unlink_nonfinal_symlink_link_journaled_def)
qed

theorem unlink_nonfinal_atomic_witness:
  "atomic_op example_superblock example_tree (example_allocator, example_inodes, example_dirents)
    (unlink_nonfinal_file_link_journaled (trace_device 64) example_superblock 2 [103])
    (\<lambda>_ _ t. t = (example_allocator, example_inodes, filter (\<lambda>e. dirent_key e \<noteq> (2, [103])) example_dirents))"
  using unlink_nonfinal_atomic [OF example_addressable example_tree_state(1,2)] by simp

text \<open>
  C17. Whatever new tables a caller proposes, the unlink transaction commits them only
  when they differ from the tables on disk by the removal of one inode other than the root, with
  no children, together with its only entry and exactly its blocks; and the commit is atomic.
\<close>

theorem unlink_metadata_atomic:
  assumes "addressable sb" and "fs_ok sb v a inodes entries" and "recovers sb v v"
    and "allocator_inv a'" and "\<forall>i \<in> set inodes'. inode_typed i"
  shows "atomic_op sb v (a, inodes, entries)
    (store_unlink_metadata_journaled (trace_device (sb_total_blocks sb)) sb a' inodes' entries')
    (\<lambda>_ _ t. t = (a', map canonical_inode inodes', entries') \<and>
      (\<exists>r. unlinks a inodes entries r a' (map canonical_inode inodes') entries'))"
  by (rule store_unlink_run [OF assms]) (auto intro: atomic_op_failed atomic_op_done [OF _ _ assms(2)])

theorem unlink_metadata_atomic_witness:
  "atomic_op example_superblock example_tree (example_allocator, example_inodes, example_dirents)
    (store_unlink_metadata_journaled (trace_device 64) example_superblock example_allocator
       (filter (\<lambda>i. pi_id i \<noteq> 3) example_inodes) (filter (\<lambda>e. de_target e \<noteq> 3) example_dirents))
    (\<lambda>_ _ t. t = (example_allocator, map canonical_inode (filter (\<lambda>i. pi_id i \<noteq> 3) example_inodes),
        filter (\<lambda>e. de_target e \<noteq> 3) example_dirents) \<and>
      (\<exists>r. unlinks example_allocator example_inodes example_dirents r example_allocator
         (map canonical_inode (filter (\<lambda>i. pi_id i \<noteq> 3) example_inodes)) (filter (\<lambda>e. de_target e \<noteq> 3) example_dirents)))"
proof -
  have "\<forall>i \<in> set (filter (\<lambda>i. pi_id i \<noteq> 3) example_inodes). inode_typed i" using example_inodes_ok(1) by simp
  from unlink_metadata_atomic [OF example_addressable example_tree_state(1,2) example_allocator_ok(1) this]
  show ?thesis by (simp only: example_fields)
qed

text \<open>
  C22. Removing a symbolic link by its only name removes its entry, its inode and exactly
  its blocks, and is atomic under crashes.
\<close>

theorem symlink_unlink_atomic:
  assumes "addressable sb" and "fs_ok sb v a inodes entries" and "recovers sb v v"
  shows "atomic_op sb v (a, inodes, entries)
    (unlink_symlink_journaled (trace_device (sb_total_blocks sb)) sb parent name)
    (\<lambda>_ _ t. \<exists>a' i. i \<in> set inodes \<and> pi_kind i = Symlink \<and> \<lparr>de_parent = parent, de_target = pi_id i, de_name = name\<rparr> \<in> set entries \<and>
      owned_blocks a' = owned_blocks a - set (pi_blocks i) \<and>
      t = (a', filter (\<lambda>j. pi_id j \<noteq> pi_id i) inodes, filter (\<lambda>e. dirent_key e \<noteq> (parent, name)) entries))"
  by (rule unlink_symlink_run [OF assms]) (auto intro: atomic_op_failed atomic_op_done [OF _ _ assms(2)])

theorem symlink_unlink_atomic_witness:
  "completes example_superblock example_tree (example_allocator, example_inodes, example_dirents)
    (unlink_symlink_journaled (trace_device 64) example_superblock 1 [108])
    (\<lambda>_ _ t. owned_blocks (fst t) = {14, 15} \<and> snd t = (take 5 example_inodes, take 5 example_dirents))"
proof -
  obtain rep x evs where run: "unlink_symlink_journaled (trace_device 64) example_superblock 1 [108] (example_tree, []) = (Inr rep, x, evs)"
    by (rule example_unlink_symlink_run)
  have link: "pi_id i = 6 \<and> pi_blocks i = [16]" if "i \<in> set example_inodes" "pi_kind i = Symlink" for i
    using that by (auto simp: example_inodes_def)
  have left: "filter (\<lambda>j. pi_id j \<noteq> 6) example_inodes = take 5 example_inodes"
    "filter (\<lambda>e. dirent_key e \<noteq> (1, [108])) example_dirents = take 5 example_dirents" "{14, 15, 16} - set [16] = {14, 15 :: nat}"
    by (simp add: example_inodes_def, simp add: example_dirents_def dirent_key_def, auto)
  have "atomic_op example_superblock example_tree (example_allocator, example_inodes, example_dirents)
      (unlink_symlink_journaled (trace_device 64) example_superblock 1 [108])
      (\<lambda>_ _ t. owned_blocks (fst t) = {14, 15} \<and> snd t = (take 5 example_inodes, take 5 example_dirents))"
  proof (rule atomic_op_weaken [OF symlink_unlink_atomic [OF example_addressable example_tree_state(1,2), of 1 "[108]", unfolded example_fields]], elim exE conjE)
    fix t a' i
    assume i: "i \<in> set example_inodes" "pi_kind i = Symlink" "owned_blocks a' = owned_blocks example_allocator - set (pi_blocks i)"
      and t: "t = (a', filter (\<lambda>j. pi_id j \<noteq> pi_id i) example_inodes, filter (\<lambda>e. dirent_key e \<noteq> (1, [108])) example_dirents)"
    have "pi_id i = 6" "pi_blocks i = [16]" using link [OF i(1,2)] by simp_all
    then show "owned_blocks (fst t) = {14, 15} \<and> snd t = (take 5 example_inodes, take 5 example_dirents)"
      unfolding t using i(3) by (simp only: example_allocator_ok(2) left fst_conv snd_conv simp_thms)
  qed
  with run show ?thesis by (intro completesI) blast+
qed

section \<open>The consistency check\<close>

text \<open>
  C16. The full check of a device succeeds exactly on the consistent ones: the superblock matches
  the device, the tables decode, every allocated block is named by exactly one inode and conversely,
  symbolic links hold readable targets, the directories form a tree rooted at inode 1, every inode is
  reachable, and the journal is well formed. Whatever its result, it has issued no write and no flush.
\<close>

theorem fsck_decides:
  assumes "disk_ok n v" and "0 < n" and "n * BLOCK_SIZE < U64_LIMIT"
  shows "\<exists>r. check_device (trace_device n) (v, tr) = (r, v, tr) \<and> ((\<exists>rep. r = Inr rep) \<longleftrightarrow> consistent n v)"
  using check_device_trace [OF assms] check_disk_iff [OF assms(1,3)] by auto

theorem fsck_decides_witness:
  "(\<exists>rep. check_device (trace_device 64) (example_tree, []) = (Inr rep, example_tree, [])) \<and>
   (\<exists>e. check_device (trace_device 64) (blank_disk, []) = (Inl e, blank_disk, []))"
proof
  have "consistent 64 example_tree" using fs_ok_consistent [OF example_tree_state(1,2)] by simp
  then show "\<exists>rep. check_device (trace_device 64) (example_tree, []) = (Inr rep, example_tree, [])"
    using fsck_decides [OF example_tree_state(4), of "[]"] by (auto simp: BLOCK_SIZE_def)
  have "\<not> consistent 64 blank_disk"
  proof
    assume "consistent 64 blank_disk"
    then have "zeroes 8 = SUPERBLOCK_MAGIC"
      by (auto simp: consistent_def blank_disk_def superblock_decode_def get_zeroes BLOCK_SIZE_def split: if_splits)
    then show False by (auto simp: zeroes_def SUPERBLOCK_MAGIC_def ascii_def dest!: arg_cong [of _ _ hd])
  qed
  then obtain r where "check_device (trace_device 64) (blank_disk, []) = (r, blank_disk, [])" "\<nexists>rep. r = Inr rep"
    using fsck_decides [OF blank_disk_ok, of 64 "[]"] by (auto simp: BLOCK_SIZE_def)
  then show "\<exists>e. check_device (trace_device 64) (blank_disk, []) = (Inl e, blank_disk, [])" by (cases r) auto
qed

text \<open>
  C18. The worklist scan of the directory table computes what the graph says: it
  fails exactly when the entries do not form a rooted acyclic tree, and otherwise reports, in order,
  the inodes that no path from the root reaches.
\<close>

theorem namespace_scan_equivalence:
  assumes "distinct (map pi_id inodes)"
  shows "scan_namespace inodes entries =
     (if tree_ok inodes entries
      then Inr (sort (map pi_id (filter (\<lambda>i. (ROOT_INODE_ID, pi_id i) \<notin> (links entries)\<^sup>*) inodes)))
      else Inl InvalidData)"
  by (rule scan_namespace_eq [OF assms])

theorem namespace_scan_equivalence_witness:
  "scan_namespace example_inodes example_dirents = Inr []"
proof -
  have "distinct (map pi_id example_inodes)" by (simp add: example_inodes_def)
  moreover have "tree_ok example_inodes example_dirents" "\<forall>i \<in> set example_inodes. (ROOT_INODE_ID, pi_id i) \<in> (links example_dirents)\<^sup>*"
    using example_namespace by (auto simp: namespace_ok_def)
  moreover from this(2) have "filter (\<lambda>i. (ROOT_INODE_ID, pi_id i) \<notin> (links example_dirents)\<^sup>*) example_inodes = []"
    by (simp add: filter_empty_conv)
  ultimately show ?thesis using namespace_scan_equivalence by simp
qed

section \<open>Codecs and tables\<close>

text \<open>
  C23. The record codecs are exact. An inode record decodes to the inode with its byte length made
  canonical, an entry record to the entry, and the blocks of a symbolic link, whole blocks and at most
  the maximal number of them, to its target. Every inode record or entry record the decoder accepts
  is the encoding of what it returns.
\<close>

theorem record_codecs:
  assumes "inode_typed i" and "dirent_typed e" and "utf8_valid target"
  shows "(\<forall>bs. encode_inode i = Inr bs \<longrightarrow> decode_inode bs = Inr (canonical_inode i)) \<and>
    (\<forall>bs j. decode_inode bs = Inr j \<longrightarrow> encode_inode j = Inr bs) \<and>
    (\<forall>bs. encode_directory_entry e = Inr bs \<longrightarrow> decode_directory_entry bs = Inr e) \<and>
    (\<forall>bs e'. decode_directory_entry bs = Inr e' \<longrightarrow> dirent_ok e' \<and> encode_directory_entry e' = Inr bs) \<and>
    (\<forall>images. encode_target_blocks target = Inr images \<longrightarrow> decode_target_images images = Inr target \<and>
       list_all (\<lambda>img. length img = BLOCK_SIZE) images \<and> images \<noteq> [] \<and> length images \<le> MAX_SYMLINK_TARGET_BLOCKS)"
proof (intro conjI)
  show "\<forall>bs. encode_inode i = Inr bs \<longrightarrow> decode_inode bs = Inr (canonical_inode i)" "\<forall>bs j. decode_inode bs = Inr j \<longrightarrow> encode_inode j = Inr bs"
    using decode_encode_inode [OF _ assms(1)] encode_decode_inode by (fastforce simp: canonical_inode_def)+
  show "\<forall>bs. encode_directory_entry e = Inr bs \<longrightarrow> decode_directory_entry bs = Inr e"
    "\<forall>bs e'. decode_directory_entry bs = Inr e' \<longrightarrow> dirent_ok e' \<and> encode_directory_entry e' = Inr bs"
    using decode_encode_directory_entry encode_directory_entry_ok [OF _ assms(2)] encode_decode_directory_entry decode_directory_entry_Inr(1)
    by blast+
qed (use symlink_round_trip [OF _ assms(3)] in \<open>auto simp: list_all_iff\<close>)

theorem record_codecs_witness:
  "\<exists>bs cs images. encode_inode \<lparr>pi_id = 7, pi_kind = File, pi_blocks = [20, 21], pi_byte_len = 5000\<rparr> = Inr bs \<and>
     decode_inode bs = Inr \<lparr>pi_id = 7, pi_kind = File, pi_blocks = [20, 21], pi_byte_len = 5000\<rparr> \<and>
     encode_directory_entry \<lparr>de_parent = 1, de_target = 2, de_name = [100]\<rparr> = Inr cs \<and>
     decode_directory_entry cs = Inr \<lparr>de_parent = 1, de_target = 2, de_name = [100]\<rparr> \<and>
     encode_target_blocks [47, 100] = Inr images \<and> decode_target_images images = Inr [47, 100]"
proof -
  let ?i = "\<lparr>pi_id = 7, pi_kind = File, pi_blocks = [20, 21], pi_byte_len = 5000\<rparr>" and ?e = "\<lparr>de_parent = 1, de_target = 2, de_name = [100]\<rparr>"
  have i: "inode_ok ?i" "inode_typed ?i" by (simp_all add: inode_ok_def inode_typed_def BLOCK_SIZE_def)
  have e: "dirent_ok ?e" using example_dirents_ok by (simp add: example_dirents_def)
  have u: "utf8_valid [47, 100]" by simp
  have c: "canonical_inode ?i = ?i" using i(1) by simp
  obtain bs cs where bs: "encode_inode ?i = Inr bs" and cs: "encode_directory_entry ?e = Inr cs"
    using encode_inode_total [OF canonical_byte_len_ok [OF i(1)]] encode_directory_entry_total [OF e] by auto
  have "\<exists>images. encode_target_blocks [47, 100] = Inr images"
    by (simp add: encode_target_blocks_def encode_v1_target_def Let_def SYMLINK_V1_MAX_TARGET_LEN_def MAX_SYMLINK_TARGET_LEN_def
        SYMLINK_V1_HEADER_LEN_def BLOCK_SIZE_def)
  then obtain images where images: "encode_target_blocks [47, 100] = Inr images" by blast
  from record_codecs [OF i(2) dirent_ok_typed [OF e] u, unfolded c] bs cs images show ?thesis by blast
qed

text \<open>
  C24. One changed byte anywhere in an allocation image, an inode record or a directory record
  is detected: the decoder that accepted the original rejects the damaged bytes.
\<close>

theorem damage_detected:
  assumes "k < length bytes" and "b \<noteq> bytes ! k"
  shows "(\<forall>bm. alloc_decode_image bytes sb = Inr bm \<longrightarrow> (\<exists>e. alloc_decode_image (bytes[k := b]) sb = Inl e)) \<and>
    (\<forall>i. decode_inode bytes = Inr i \<longrightarrow> (\<exists>e. decode_inode (bytes[k := b]) = Inl e)) \<and>
    (\<forall>d. decode_directory_entry bytes = Inr d \<longrightarrow> (\<exists>e. decode_directory_entry (bytes[k := b]) = Inl e))"
  using alloc_decode_image_corrupt [OF _ assms] decode_inode_corrupt [OF _ assms] decode_directory_entry_corrupt [OF _ assms] by blast

theorem damage_detected_witness:
  "\<exists>bs e. encode_directory_entry \<lparr>de_parent = 1, de_target = 2, de_name = [100]\<rparr> = Inr bs \<and>
     decode_directory_entry (bs[40 := 101]) = Inl e"
proof -
  let ?e = "\<lparr>de_parent = 1, de_target = 2, de_name = [100]\<rparr>"
  have e: "dirent_ok ?e" using example_dirents_ok by (simp add: example_dirents_def)
  then obtain bs where bs: "encode_directory_entry ?e = Inr bs" using encode_directory_entry_total by blast
  note d = decode_encode_directory_entry [OF bs e]
  then obtain c where "length c = 4" "bs = dirent_layout ?e c" using bs by (auto elim: encode_directory_entry_Inr)
  then have "length bs = 41" "bs ! 40 = 100"
    by (simp_all add: dirent_layout_def nth_append)
  with damage_detected [of 40 bs 101] bs d show ?thesis by auto
qed

text \<open>
  C25. Each of the three tables that a direct store accepts is the table its loader reads
  afterwards. The store changes no block outside the region of its table, so the two other loaders
  read what they read before, and every data block keeps its contents.
\<close>

theorem tables_round_trip:
  assumes "addressable sb" and "disk_ok (sb_total_blocks sb) v" and "allocator_inv a"
    and "\<forall>i \<in> set inodes. inode_typed i" and "\<forall>e \<in> set entries. dirent_typed e" and "D = trace_device (sb_total_blocks sb)"
  shows "(store_allocator D sb a (v, tr) = (Inr (), x, tr') \<longrightarrow>
      load_allocator D sb (x, tr') = (Inr a, x, tr') \<and> fst (load_inode_table D sb (x, tr')) = fst (load_inode_table D sb (v, tr)) \<and>
      fst (load_directory_table D sb (x, tr')) = fst (load_directory_table D sb (v, tr)) \<and> (\<forall>b. b \<notin> set (allocation_range sb) \<longrightarrow> x b = v b)) \<and>
    (store_inode_table D sb inodes (v, tr) = (Inr (), x, tr') \<longrightarrow>
      load_inode_table D sb (x, tr') = (Inr (map canonical_inode inodes), x, tr') \<and> fst (load_allocator D sb (x, tr')) = fst (load_allocator D sb (v, tr)) \<and>
      fst (load_directory_table D sb (x, tr')) = fst (load_directory_table D sb (v, tr)) \<and> (\<forall>b. b \<notin> set (inode_range sb) \<longrightarrow> x b = v b)) \<and>
    (store_directory_table D sb entries (v, tr) = (Inr (), x, tr') \<longrightarrow>
      load_directory_table D sb (x, tr') = (Inr entries, x, tr') \<and> fst (load_allocator D sb (x, tr')) = fst (load_allocator D sb (v, tr)) \<and>
      fst (load_inode_table D sb (x, tr')) = fst (load_inode_table D sb (v, tr)) \<and> (\<forall>b. b \<notin> set (directory_range sb) \<longrightarrow> x b = v b))"
proof -
  note loads = loads_trace [OF assms(1) refl] loads_trace [OF assms(1) refl assms(2)] and kept = image_put_loads [OF addressable_geometry [OF assms(1)]]
  note st = stored_table [OF assms(1,2)]
  show ?thesis
    unfolding assms(6)
  proof (rule conjI [OF _ conjI]; rule impI)
    assume "store_allocator (trace_device (sb_total_blocks sb)) sb a (v, tr) = (Inr (), x, tr')"
    then obtain img where img: "allocator_image sb a = Inr img" "x = image_put (allocation_range sb) img v" "disk_ok (sb_total_blocks sb) x"
      using st(1) by blast
    then show "load_allocator (trace_device (sb_total_blocks sb)) sb (x, tr') = (Inr a, x, tr') \<and>
        fst (load_inode_table (trace_device (sb_total_blocks sb)) sb (x, tr')) = fst (load_inode_table (trace_device (sb_total_blocks sb)) sb (v, tr)) \<and>
        fst (load_directory_table (trace_device (sb_total_blocks sb)) sb (x, tr')) = fst (load_directory_table (trace_device (sb_total_blocks sb)) sb (v, tr)) \<and>
        (\<forall>b. b \<notin> set (allocation_range sb) \<longrightarrow> x b = v b)"
      using load_store_allocator_disk [OF assms(1,3) img(1), of v] by (simp add: loads kept)
  next
    assume "store_inode_table (trace_device (sb_total_blocks sb)) sb inodes (v, tr) = (Inr (), x, tr')"
    then obtain img where img: "inode_encode_image sb inodes = Inr img" "x = image_put (inode_range sb) img v" "disk_ok (sb_total_blocks sb) x"
      using st(2) by blast
    then show "load_inode_table (trace_device (sb_total_blocks sb)) sb (x, tr') = (Inr (map canonical_inode inodes), x, tr') \<and>
        fst (load_allocator (trace_device (sb_total_blocks sb)) sb (x, tr')) = fst (load_allocator (trace_device (sb_total_blocks sb)) sb (v, tr)) \<and>
        fst (load_directory_table (trace_device (sb_total_blocks sb)) sb (x, tr')) = fst (load_directory_table (trace_device (sb_total_blocks sb)) sb (v, tr)) \<and>
        (\<forall>b. b \<notin> set (inode_range sb) \<longrightarrow> x b = v b)"
      using load_store_inodes_disk [OF assms(1) img(1) assms(4), of v] by (simp add: loads kept)
  next
    assume "store_directory_table (trace_device (sb_total_blocks sb)) sb entries (v, tr) = (Inr (), x, tr')"
    then obtain img where img: "directory_encode_image sb entries = Inr img" "x = image_put (directory_range sb) img v" "disk_ok (sb_total_blocks sb) x"
      using st(3) by blast
    then show "load_directory_table (trace_device (sb_total_blocks sb)) sb (x, tr') = (Inr entries, x, tr') \<and>
        fst (load_allocator (trace_device (sb_total_blocks sb)) sb (x, tr')) = fst (load_allocator (trace_device (sb_total_blocks sb)) sb (v, tr)) \<and>
        fst (load_inode_table (trace_device (sb_total_blocks sb)) sb (x, tr')) = fst (load_inode_table (trace_device (sb_total_blocks sb)) sb (v, tr)) \<and>
        (\<forall>b. b \<notin> set (directory_range sb) \<longrightarrow> x b = v b)"
      using load_store_entries_disk [OF assms(1) img(1) assms(5), of v] by (simp add: loads kept)
  qed
qed

theorem tables_round_trip_witness:
  "\<exists>x tr'. store_directory_table (trace_device 64) example_superblock example_dirents (blank_disk, []) = (Inr (), x, tr') \<and>
     load_directory_table (trace_device 64) example_superblock (x, tr') = (Inr example_dirents, x, tr') \<and> x 20 = blank_disk 20"
proof -
  obtain E where E: "directory_encode_image example_superblock example_dirents = Inr E"
    using example_directory_image [OF example_dirents_ok] by (auto simp: example_dirents_def dirent_key_def)
  note r = store_directory_table_trace [OF example_addressable refl, of example_dirents blank_disk "[]", unfolded E]
  have t: "\<forall>i \<in> set example_inodes. inode_typed i" "\<forall>e \<in> set example_dirents. dirent_typed e"
    using example_inodes_ok(1) example_dirents_ok dirent_ok_typed by auto
  have "20 \<notin> set (directory_range example_superblock)" unfolding geometry_ranges(4) [OF example_geometry] by simp
  with r tables_round_trip [OF example_addressable _ empty_allocator_inv(1) [OF example_geometry] t refl, of blank_disk "[]"] show ?thesis
    by (auto simp: blank_disk_ok)
qed

text \<open>
  C26. Replacing a range of an inode's blocks returns exactly the displaced blocks, keeps the
  inode valid and, for a file, the unused bytes of its last block; a refusal changes nothing.
\<close>

theorem replace_blocks:
  assumes "inode_ok i" and "replace_block_range lo hi rs i = (r, i')"
  shows "case r of
      Inr displaced \<Rightarrow> inode_ok i' \<and> pi_blocks i' = take lo (pi_blocks i) @ rs @ drop hi (pi_blocks i) \<and>
        displaced = take (hi - lo) (drop lo (pi_blocks i)) \<and>
        (pi_kind i = File \<and> pi_blocks i' \<noteq> [] \<longrightarrow>
          length (pi_blocks i') * BLOCK_SIZE - pi_byte_len i' = length (pi_blocks i) * BLOCK_SIZE - pi_byte_len i)
    | Inl e \<Rightarrow> i' = i \<and> e = InvalidInput"
proof (cases r)
  case (Inl e)
  with assms(2) replace_block_range_Inl show ?thesis by auto
next
  case (Inr d)
  with assms(2) replace_block_range_Inr [of lo hi rs i d i'] replace_block_range_slack [of lo hi rs i d i'] assms(1) show ?thesis by auto
qed

theorem replace_blocks_witness:
  "fst (replace_block_range 1 2 [30, 31] \<lparr>pi_id = 7, pi_kind = File, pi_blocks = [20, 21], pi_byte_len = 5000\<rparr>) = Inr [21] \<and>
   pi_blocks (snd (replace_block_range 1 2 [30, 31] \<lparr>pi_id = 7, pi_kind = File, pi_blocks = [20, 21], pi_byte_len = 5000\<rparr>)) = [20, 30, 31]"
proof -
  let ?i = "\<lparr>pi_id = 7, pi_kind = File, pi_blocks = [20, 21], pi_byte_len = 5000\<rparr>"
  obtain r i' where run: "replace_block_range 1 2 [30, 31] ?i = (r, i')" by fastforce
  have i: "inode_ok ?i" by (simp add: inode_ok_def BLOCK_SIZE_def)
  have "\<exists>d. r = Inr d" using run
    by (auto simp: replace_block_range_def io_simps validate_inode_fields_def canonical_byte_len_def block_capacity_def
        BLOCK_SIZE_U64_def BLOCK_SIZE_def checked_mul_def checked_add_def checked_sub_def Let_def sub64_def invalid_input_def map_err_def
        ok_or_def split: if_splits)
  with replace_blocks [OF i run] run show ?thesis by auto
qed

section \<open>Formatting\<close>

text \<open>
  C27. Formatting any device with any accepted geometry succeeds, leaves every data block as it
  was, and leaves an empty filesystem on which the full consistency check passes.
\<close>

theorem format_consistent:
  assumes "disk_ok n v" and "n * BLOCK_SIZE < U64_LIMIT" and "with_all_metadata_blocks n journal inode directory = Inr sb"
  shows "\<exists>v' rep. format_device_with_metadata_blocks (mem_device n) journal inode directory v = (Inr sb, v') \<and>
    fs_ok sb v' (empty_allocator sb) [] [] \<and> check_device (mem_device n) v' = (Inr rep, v') \<and> (\<forall>b \<ge> reserved_blocks sb. v' b = v b)"
proof -
  have lim: "n < U64_LIMIT"
  proof -
    have "n \<le> n * BLOCK_SIZE" by (simp add: BLOCK_SIZE_def)
    then show ?thesis using assms(2) by (rule order.strict_trans1)
  qed
  note w = with_all_metadata_blocks_ok [OF assms(3) lim]
  have a: "addressable sb" using w(1,2) assms(2) by (simp add: addressable_def)
  obtain f ws where run: "\<And>u tr. format_with (trace_device n) sb (u, tr) = (Inr sb, f u, tr @ write_events ws @ [WriteEv 0 (superblock_encode sb), FlushEv])"
    and fresh: "\<And>u. fresh_filesystem sb (f u)" and ok: "\<And>u. disk_ok n u \<Longrightarrow> disk_ok n (f u)"
    and data: "\<And>u b. reserved_blocks sb \<le> b \<Longrightarrow> f u b = u b"
    using format_with_trace [OF a w(2) [symmetric]] by metis
  have m: "format_with (mem_device n) sb v = (Inr sb, f v)"
    using dev_simD(1) [OF tracing.to_mem.sim_format_with [of n n] _ run [of v "[]"]] assms(1) by simp
  have fs: "fs_ok sb (f v) (empty_allocator sb) [] []" by (rule fresh_fs_ok [OF w(1) fresh])
  have "consistent n (f v)" using fs fresh [of v] w(2) by (auto simp: consistent_fs_ok fresh_filesystem_def)
  moreover have "0 < n" using geometry_order [OF w(1)] w(2) by simp
  ultimately obtain rep where "check_device (mem_device n) (f v) = (Inr rep, f v)"
    using check_device_mem [OF ok [OF assms(1)] _ assms(2)] check_disk_iff [OF ok [OF assms(1)] assms(2)] by auto
  with m fs data show ?thesis
    by (intro exI [of _ "f v"] exI [of _ rep]) (simp add: format_device_with_metadata_blocks_def io_simps assms(3))
qed

theorem format_consistent_witness:
  "\<exists>v' rep. format_device_with_metadata_blocks (mem_device 64) 8 2 2 blank_disk = (Inr example_superblock, v') \<and>
     check_device (mem_device 64) v' = (Inr rep, v')"
proof -
  have "with_all_metadata_blocks 64 8 2 2 = Inr example_superblock"
    by (simp add: with_all_metadata_blocks_def required_allocation_blocks_def allocation_bitmap_bytes_def Let_def
        ALLOCATION_IMAGE_HEADER_LEN_def BLOCK_SIZE_U64_def BLOCK_SIZE_def checked_add_def SUPERBLOCK_BLOCK_def example_superblock_def)
  from format_consistent [OF blank_disk_ok _ this] show ?thesis by (auto simp: BLOCK_SIZE_def)
qed

text \<open>
  C29. Formatting writes the superblock last but flushes only once, after it. On a device that
  may reorder unflushed writes, a crash can leave the new superblock over a device none of whose
  other blocks has been written.
\<close>

theorem format_superblock_unordered:
  assumes "addressable sb" and "format_with (trace_device (sb_total_blocks sb)) sb (v, []) = (r, x, tr)"
  shows "r = Inr sb \<and> v(0 := superblock_encode sb) \<in> crash_disks v tr"
proof -
  obtain f ws where run: "\<And>u us. format_with (trace_device (sb_total_blocks sb)) sb (u, us)
      = (Inr sb, f u, us @ write_events ws @ [WriteEv 0 (superblock_encode sb), FlushEv])"
    by (rule format_with_trace [OF assms(1) refl]) blast
  let ?ws = "ws @ [(0, superblock_encode sb)]"
  have tr: "tr = write_events ?ws @ [FlushEv]" and r: "r = Inr sb" using run [of v "[]"] assms(2) by simp_all
  have "take (length (write_events ?ws)) tr = write_events ?ws" by (simp add: tr)
  then have "settle (v, ?ws) \<subseteq> crash_disks v tr"
    using run_trace_writes [of ?ws v "[]"] by (auto simp: crash_disks_def tr intro!: bexI [of _ "length (write_events ?ws)"])
  moreover have "[(0, superblock_encode sb)] \<in> set (subseqs ?ws)" by (induction ws) (simp_all add: Let_def)
  then have "write_all v [(0, superblock_encode sb)] \<in> settle (v, ?ws)" unfolding settle_def by (intro image_eqI) auto
  ultimately show ?thesis using r by auto
qed

theorem format_superblock_unordered_witness:
  "\<exists>r x tr. format_with (trace_device 64) example_superblock (blank_disk, []) = (r, x, tr) \<and>
     blank_disk(0 := superblock_encode example_superblock) \<in> crash_disks blank_disk tr"
proof -
  obtain r x tr where "format_with (trace_device 64) example_superblock (blank_disk, []) = (r, x, tr)" by (metis prod.exhaust)
  with format_superblock_unordered [OF example_addressable, of blank_disk r x tr] show ?thesis by auto
qed

text \<open>
  C28. The capacity-driven formatters reserve enough: a table of as many block-less inodes, or of as
  many entries with names of the announced length, as were planned for always encodes.
\<close>

theorem capacity_planned:
  assumes "addressable sb"
    and "inode_capacity_blocks inode_capacity = Inr (sb_inode_blocks sb)" and "directory_capacity_blocks entry_capacity name_bytes = Inr (sb_directory_blocks sb)"
    and "length inodes \<le> inode_capacity" and "length inodes < U32_LIMIT" and "length entries \<le> entry_capacity" and "length entries < U32_LIMIT"
    and "\<forall>i \<in> set inodes. inode_ok i \<and> pi_blocks i = []" and "distinct (map pi_id inodes)"
    and "\<forall>e \<in> set entries. dirent_ok e \<and> length (de_name e) \<le> name_bytes" and "distinct (map dirent_key entries)"
  shows "(\<exists>I. inode_encode_image sb inodes = Inr I) \<and> (\<exists>E. directory_encode_image sb entries = Inr E)"
proof
  note g = geometry_okD [OF addressable_geometry [OF assms(1)]] and o = geometry_order [OF addressable_geometry [OF assms(1)]]
  note r = geometry_ranges(5) [OF addressable_geometry [OF assms(1)]]
  have rl: "region_len (sb_inode_blocks sb) = Inr (sb_inode_blocks sb * BLOCK_SIZE)"
    "region_len (sb_directory_blocks sb) = Inr (sb_directory_blocks sb * BLOCK_SIZE)"
    using addressable_region_len(1) [OF assms(1)] g o r by auto
  show "\<exists>I. inode_encode_image sb inodes = Inr I" unfolding inode_encode_image_def
  proof (rule encode_table_total [where m = 40])
    show "\<forall>i \<in> set inodes. \<exists>bs. encode_inode i = Inr bs \<and> length bs \<le> 40"
      using assms(8) small_record by fastforce
    show "32 + length inodes * 40 \<le> sb_inode_blocks sb * BLOCK_SIZE"
      using inode_capacity_Inr [OF assms(2)] mult_le_mono1 [OF assms(4), of 40] by linarith
  qed (use assms rl in simp_all)
  show "\<exists>E. directory_encode_image sb entries = Inr E" unfolding directory_encode_image_def
  proof (rule encode_table_total [where m = "40 + name_bytes"])
    show "\<forall>e \<in> set entries. \<exists>bs. encode_directory_entry e = Inr bs \<and> length bs \<le> 40 + name_bytes"
      using assms(10) dirent_record by fastforce
    show "32 + length entries * (40 + name_bytes) \<le> sb_directory_blocks sb * BLOCK_SIZE"
      using directory_capacity_Inr [OF assms(3)] mult_le_mono1 [OF assms(6), of "40 + name_bytes"] by linarith
  qed (use assms rl in simp_all)
qed

theorem capacity_planned_witness:
  "inode_capacity_blocks 100 = Inr 1 \<and> directory_capacity_blocks 20 255 = Inr 2 \<and>
   (\<exists>E. directory_encode_image (example_superblock\<lparr>sb_inode_blocks := 1, sb_directory_start := 11\<rparr>) example_dirents = Inr E)"
proof -
  let ?sb = "example_superblock\<lparr>sb_inode_blocks := 1, sb_directory_start := 11\<rparr>"
  have c: "inode_capacity_blocks 100 = Inr 1" "directory_capacity_blocks 20 255 = Inr 2"
    by (simp_all add: inode_capacity_blocks_def directory_capacity_blocks_def blocks_for_bytes_def checked_mul_def checked_add_def
        RECORD_HEADER_LEN_def TABLE_HEADER_LEN_def DIRECTORY_ENTRY_HEADER_LEN_def DIRECTORY_NAME_MAX_BYTES_def BLOCK_SIZE_U64_def
        BLOCK_SIZE_def div_ceil_def Let_def)
  have a: "addressable ?sb"
    using example_addressable by (simp add: addressable_def geometry_ok_def example_superblock_def checked_add_def BLOCK_SIZE_def
      with_all_metadata_blocks_def required_allocation_blocks_def allocation_bitmap_bytes_def Let_def ALLOCATION_IMAGE_HEADER_LEN_def
      BLOCK_SIZE_U64_def SUPERBLOCK_BLOCK_def)
  have d: "distinct (map dirent_key example_dirents)" "\<forall>e \<in> set example_dirents. dirent_ok e \<and> length (de_name e) \<le> 255"
    "length example_dirents \<le> 20"
    using example_dirents_ok by (auto simp: example_dirents_def dirent_key_def)
  have "\<exists>E. directory_encode_image ?sb example_dirents = Inr E"
    using capacity_planned [OF a, of 100 20 255 "[]" example_dirents] c d by simp
  with c show ?thesis by simp
qed

section \<open>Editing the blocks of a file\<close>

text \<open>
  C30. Appending or inserting whole blocks, one or many, first-fit or contiguous, on a device
  whose I/O succeeds: a refusal has issued no write and no flush; a success adds exactly the given
  data at the given place of the file, keeps the unused bytes of the last block, changes no other
  file, and keeps the filesystem consistent; and from a crash at any point recovery brings back every
  table and data block as before the operation, or every one as after it.
\<close>

theorem file_blocks_added:
  assumes "addressable sb" and "fs_ok sb v al inodes entries" and "recovers sb v v" and "\<forall>d \<in> set datas. length d = BLOCK_SIZE"
    and "length d = BLOCK_SIZE" and "D = trace_device (sb_total_blocks sb)" and "t = (al, inodes, entries)"
  shows "atomic_op sb v t (append_file_blocks_journaled D sb ino datas)
      (\<lambda>(bs, rep). file_spliced v inodes entries ino (\<lambda>n. n) (\<lambda>n. n) bs [] datas) \<and>
    atomic_op sb v t (append_file_blocks_contiguous_journaled D sb ino datas)
      (\<lambda>(bs, rep). file_spliced v inodes entries ino (\<lambda>n. n) (\<lambda>n. n) bs [] datas) \<and>
    atomic_op sb v t (append_file_block_journaled D sb ino d)
      (\<lambda>(b, rep). file_spliced v inodes entries ino (\<lambda>n. n) (\<lambda>n. n) [b] [] [d]) \<and>
    atomic_op sb v t (insert_file_blocks_journaled D sb ino at datas)
      (\<lambda>(bs, rep). file_spliced v inodes entries ino (\<lambda>_. at) (\<lambda>_. at) bs [] datas) \<and>
    atomic_op sb v t (insert_file_blocks_contiguous_journaled D sb ino at datas)
      (\<lambda>(bs, rep). file_spliced v inodes entries ino (\<lambda>_. at) (\<lambda>_. at) bs [] datas) \<and>
    atomic_op sb v t (insert_file_block_journaled D sb ino at d)
      (\<lambda>(b, rep). file_spliced v inodes entries ino (\<lambda>_. at) (\<lambda>_. at) [b] [] [d])"
  unfolding assms(6,7) append_file_blocks_journaled_def append_file_blocks_contiguous_journaled_def
    insert_file_blocks_journaled_def insert_file_blocks_contiguous_journaled_def
  by (intro conjI first_fit.with_atomic(1,2) contiguous.with_atomic(1,2) single_atomic assms(1-5))

theorem file_blocks_added_witness:
  "completes example_superblock example_tree (example_allocator, example_inodes, example_dirents)
     (append_file_blocks_journaled (trace_device 64) example_superblock 4 [zeroes BLOCK_SIZE])
     (\<lambda>(bs, rep). file_spliced example_tree example_inodes example_dirents 4 (\<lambda>n. n) (\<lambda>n. n) bs [] [zeroes BLOCK_SIZE])"
proof -
  have d: "\<forall>d \<in> set [zeroes BLOCK_SIZE]. length d = BLOCK_SIZE" "length (zeroes BLOCK_SIZE) = BLOCK_SIZE" by simp_all
  obtain b rep x evs where run:
    "append_file_blocks_journaled (trace_device 64) example_superblock 4 [zeroes BLOCK_SIZE] (example_tree, []) = (Inr ([b], rep), x, evs)"
    by (rule example_append_run [OF d(2)])
  from file_blocks_added [OF example_addressable example_tree_state(1,2) d refl refl, of 4 0] show ?thesis
    using run by (intro completesI) (simp only: example_fields conj_assoc, blast)
qed

text \<open>
  C31. Replacing a range of blocks reports the displaced blocks, puts exactly the
  replacements in their place, and is atomic under crashes, tables and data together: every home
  block is recovered as before the replacement, or every one as after it.
\<close>

theorem file_blocks_replaced:
  assumes "addressable sb" and "fs_ok sb v al inodes entries" and "recovers sb v v" and "\<forall>d \<in> set datas. length d = BLOCK_SIZE"
    and "op \<in> {replace_file_blocks_journaled, replace_file_blocks_contiguous_journaled}"
  shows "atomic_op sb v (al, inodes, entries) (op (trace_device (sb_total_blocks sb)) sb ino lo n datas)
      (\<lambda>(bs, displaced, rep). file_spliced v inodes entries ino (\<lambda>_. lo) (\<lambda>_. lo + n) bs displaced datas)"
  using assms(5) first_fit.with_atomic(3) [OF assms(1-4)] contiguous.with_atomic(3) [OF assms(1-4)]
  by (auto simp: replace_file_blocks_journaled_def replace_file_blocks_contiguous_journaled_def)

theorem file_blocks_replaced_witness:
  "completes example_superblock example_tree (example_allocator, example_inodes, example_dirents)
     (replace_file_blocks_journaled (trace_device 64) example_superblock 4 0 1 [zeroes BLOCK_SIZE])
     (\<lambda>(bs, displaced, rep). file_spliced example_tree example_inodes example_dirents 4 (\<lambda>_. 0) (\<lambda>_. 0 + 1) bs displaced [zeroes BLOCK_SIZE])"
proof -
  have d: "\<forall>d \<in> set [zeroes BLOCK_SIZE]. length d = BLOCK_SIZE" "length (zeroes BLOCK_SIZE) = BLOCK_SIZE" by simp_all
  obtain b rep x evs where run:
    "replace_file_blocks_journaled (trace_device 64) example_superblock 4 0 1 [zeroes BLOCK_SIZE] (example_tree, []) = (Inr ([b], [14], rep), x, evs)"
    by (rule example_replace_run [OF d(2)])
  from file_blocks_replaced [OF example_addressable example_tree_state(1,2) d(1), of replace_file_blocks_journaled 4 0 1] show ?thesis
    using run by (intro completesI) (simp, blast)
qed

text \<open>
  C32. Copying blocks of one file into another, as an append, an insertion or a
  replacement: the new blocks of the destination hold what the source range held before the
  operation, and the source keeps its blocks and data. After a crash at any point every table and
  data block is recovered as before the clone, or every one as after it.
\<close>

theorem file_blocks_cloned:
  assumes "addressable sb" and "fs_ok sb v al inodes entries" and "recovers sb v v"
    and "D = trace_device (sb_total_blocks sb)" and "t = (al, inodes, entries)"
  shows "atomic_op sb v t (clone_file_blocks_append_journaled D sb source start n destination)
      (\<lambda>(bs, rep) x t'. \<exists>datas. cloned v inodes source start n datas \<and>
         file_spliced v inodes entries destination (\<lambda>n. n) (\<lambda>n. n) bs [] datas x t') \<and>
    atomic_op sb v t (clone_file_blocks_insert_journaled D sb source start n destination at)
      (\<lambda>(bs, rep) x t'. \<exists>datas. cloned v inodes source start n datas \<and>
         file_spliced v inodes entries destination (\<lambda>_. at) (\<lambda>_. at) bs [] datas x t') \<and>
    atomic_op sb v t (clone_file_blocks_replace_journaled D sb source start n destination at)
      (\<lambda>(bs, displaced, rep) x t'. \<exists>datas. cloned v inodes source start n datas \<and>
         file_spliced v inodes entries destination (\<lambda>_. at) (\<lambda>_. at + n) bs displaced datas x t') \<and>
    atomic_op sb v t (clone_file_blocks_splice_journaled D sb src dst)
      (\<lambda>(bs, displaced, rep) x t'. \<exists>datas. cloned v inodes (fbr_inode src) (fbr_start src) (fbr_block_count src) datas \<and>
         file_spliced v inodes entries (fbr_inode dst) (\<lambda>_. fbr_start dst) (\<lambda>_. fbr_start dst + fbr_block_count dst) bs displaced datas x t')"
  unfolding assms(4,5)
  by (intro conjI clone_append_atomic clone_insert_atomic clone_replace_atomic clone_splice_atomic assms(1-3))

theorem file_blocks_cloned_witness:
  "completes example_superblock example_tree (example_allocator, example_inodes, example_dirents)
     (clone_file_blocks_append_journaled (trace_device 64) example_superblock 4 0 1 5)
     (\<lambda>(bs, rep) x t'. \<exists>datas. cloned example_tree example_inodes 4 0 1 datas \<and>
         file_spliced example_tree example_inodes example_dirents 5 (\<lambda>n. n) (\<lambda>n. n) bs [] datas x t')"
proof -
  obtain b rep x evs where run:
    "clone_file_blocks_append_journaled (trace_device 64) example_superblock 4 0 1 5 (example_tree, []) = (Inr ([b], rep), x, evs)"
    by (rule example_clone_run)
  from file_blocks_cloned [OF example_addressable example_tree_state(1,2) refl refl, of 4 0 1 5] show ?thesis
    using run by (intro completesI) (simp only: example_fields conj_assoc, blast)
qed

text \<open>
  C33. Removing a block or a range of blocks and truncating to a number of blocks are
  atomic under crashes: exactly the named blocks leave the file and become free, and truncating a
  file to the length it has succeeds without a write.
\<close>

theorem file_blocks_released:
  assumes "addressable sb" and "fs_ok sb v al inodes entries" and "recovers sb v v"
    and "D = trace_device (sb_total_blocks sb)" and "t = (al, inodes, entries)"
  shows "atomic_op sb v t (remove_file_block_journaled D sb ino at)
      (\<lambda>(b, rep). file_spliced v inodes entries ino (\<lambda>_. at) (\<lambda>_. at + 1) [] [b] []) \<and>
    atomic_op sb v t (truncate_file_last_block_journaled D sb ino)
      (\<lambda>(b, rep). file_spliced v inodes entries ino (\<lambda>n. n - 1) (\<lambda>n. n - 1 + 1) [] [b] []) \<and>
    atomic_op sb v t (collapse_file_block_range_journaled D sb ino lo n)
      (\<lambda>(bs, rep). file_spliced v inodes entries ino (\<lambda>_. lo) (\<lambda>_. lo + n) [] bs []) \<and>
    atomic_op sb v t (truncate_file_to_blocks_journaled D sb ino target)
      (\<lambda>(bs, rep). file_truncated v al inodes entries ino target bs) \<and>
    atomic_op sb v t (truncate_file_to_zero_journaled D sb ino)
      (\<lambda>rep x t'. \<exists>bs. file_truncated v al inodes entries ino 0 bs x t')"
  unfolding assms(4,5) by (intro conjI release_atomic truncate_atomic assms(1-3))

theorem file_blocks_released_witness:
  "atomic_op example_superblock example_tree (example_allocator, example_inodes, example_dirents)
     (truncate_file_to_zero_journaled (trace_device 64) example_superblock 4)
     (\<lambda>rep x t'. \<exists>bs. file_truncated example_tree example_allocator example_inodes example_dirents 4 0 bs x t')"
  using file_blocks_released [OF example_addressable example_tree_state(1,2) refl refl, of 4] by (simp only: example_fields conj_assoc)

text \<open>
  C34. Reading a byte range of a file returns exactly the bytes the file has there when
  the range starts within its first block, is not empty and ends at or before the byte length, and
  is refused with \<open>InvalidInput\<close> otherwise; neither writes anything. A range that has just been
  written reads back as the data written.
\<close>

theorem file_range_read:
  assumes "addressable sb" and "fs_ok sb v al inodes entries" and "recovers sb v v" and "D = trace_device (sb_total_blocks sb)"
  shows "(range_in_file inodes ino first off len k \<longrightarrow>
        read_file_range D sb ino first off len (v, tr) = (Inr (get_bytes (first * BLOCK_SIZE + off) len (file_bytes v (inodes ! k))), v, tr)) \<and>
     ((\<forall>k. \<not> range_in_file inodes ino first off len k) \<longrightarrow> read_file_range D sb ino first off len (v, tr) = (Inl InvalidInput, v, tr)) \<and>
     (write_file_range_journaled D sb ino first off d (v, []) = (Inr rep, x, tr') \<longrightarrow>
        read_file_range D sb ino first off (length d) (x, tr') = (Inr d, x, tr'))"
  unfolding assms(4)
  using read_file_range_trace [OF assms(1-3)] read_file_range_refused [OF assms(1-3)] read_after_write [OF assms(1-3)] by blast

theorem file_range_read_witness:
  "read_file_range (trace_device 64) example_superblock 4 0 2 3 (example_tree, []) =
       (Inr (get_bytes 2 3 (file_bytes example_tree (example_inodes ! 3))), example_tree, [])"
proof -
  have "range_in_file example_inodes 4 0 2 3 3" by (simp add: range_in_file_def file_position_def example_inodes_def BLOCK_SIZE_def)
  then show ?thesis using file_range_read [OF example_addressable example_tree_state(1,2) refl, of 4 0 2 3 3 "[]"] by (simp add: numeral_2_eq_2)
qed

text \<open>
  C35. Overwriting a byte range of a file, zeroing one and copying one from a file:
  the file's bytes are updated exactly at the range, every other file keeps its bytes and no table
  changes. The copy writes what the source held before the operation, also when both ranges overlap.
  Overwriting whole blocks replaces exactly the named ones. Each is atomic under crashes in its data:
  recovery brings back all blocks of the old range or all blocks of the new one, never a mixture.
\<close>

theorem file_range_written:
  assumes "addressable sb" and "fs_ok sb v al inodes entries" and "recovers sb v v"
    and "D = trace_device (sb_total_blocks sb)" and "t = (al, inodes, entries)"
  shows "atomic_op sb v t (write_file_range_journaled D sb ino first off d)
       (\<lambda>_. range_written v al inodes entries ino (first * BLOCK_SIZE + off) d) \<and>
     atomic_op sb v t (write_file_block_range_journaled D sb ino first off d)
       (\<lambda>_. range_written v al inodes entries ino (first * BLOCK_SIZE + off) d) \<and>
     atomic_op sb v t (zero_file_range_journaled D sb ino first off n)
       (\<lambda>_. range_written v al inodes entries ino (first * BLOCK_SIZE + off) (zeroes n)) \<and>
     atomic_op sb v t (copy_file_range_journaled D sb src dst n)
       (\<lambda>_ x t'. \<exists>k. range_in_file inodes (fre_inode src) (fre_first_block src) (fre_offset src) n k \<and>
          range_written v al inodes entries (fre_inode dst) (fre_first_block dst * BLOCK_SIZE + fre_offset dst)
            (get_bytes (fre_first_block src * BLOCK_SIZE + fre_offset src) n (file_bytes v (inodes ! k))) x t') \<and>
     (list_all (\<lambda>(j, img). length img = BLOCK_SIZE) ws \<longrightarrow>
       atomic_op sb v t (write_file_blocks_journaled D sb ino ws) (\<lambda>_. overwritten v al inodes entries ino ws)) \<and>
     (length img = BLOCK_SIZE \<longrightarrow>
       atomic_op sb v t (write_file_block_journaled D sb ino j img) (\<lambda>_. overwritten v al inodes entries ino [(j, img)]))"
  unfolding assms(4,5) list_all_iff
  by (intro conjI impI write_file_range_atomic range_variants_atomic write_file_blocks_atomic block_writes_atomic assms(1-3))

theorem file_range_written_witness:
  "completes example_superblock example_tree (example_allocator, example_inodes, example_dirents)
     (write_file_block_journaled (trace_device 64) example_superblock 4 0 (replicate BLOCK_SIZE 7))
     (\<lambda>_. overwritten example_tree example_allocator example_inodes example_dirents 4 [(0, replicate BLOCK_SIZE 7)])"
proof -
  have d: "length (replicate BLOCK_SIZE (7 :: byte)) = BLOCK_SIZE" by simp
  obtain rep x evs where run:
    "write_file_block_journaled (trace_device 64) example_superblock 4 0 (replicate BLOCK_SIZE 7) (example_tree, []) = (Inr rep, x, evs)"
    by (rule example_overwrite_run [OF d])
  from file_range_written [OF example_addressable example_tree_state(1,2) refl refl, where ino = 4 and j = 0 and img = "replicate BLOCK_SIZE 7"] d
  have "atomic_op example_superblock example_tree (example_allocator, example_inodes, example_dirents)
      (write_file_block_journaled (trace_device 64) example_superblock 4 0 (replicate BLOCK_SIZE 7))
      (\<lambda>_. overwritten example_tree example_allocator example_inodes example_dirents 4 [(0, replicate BLOCK_SIZE 7)])"
    by (simp only: example_fields conj_assoc simp_thms)
  with run show ?thesis by (intro completesI) blast+
qed

text \<open>
  C36. Truncating a file to a byte length keeps its first bytes and releases exactly the blocks
  beyond them; growing it appends zeros; a write at any offset that reaches beyond the end keeps the
  bytes before the offset, fills the gap with zeros and ends the file with the data. In each case
  the rest of the last block is zero, every other file keeps its bytes, and the operation is atomic
  under crashes: length, block list and bytes are all recovered as before it or all as after it. A
  write within the file is an overwrite, and truncating to the present length does nothing.
\<close>

theorem file_resized:
  assumes "addressable sb" and "fs_ok sb v al inodes entries" and "recovers sb v v"
    and "D = trace_device (sb_total_blocks sb)" and "t = (al, inodes, entries)"
  shows "atomic_op sb v t (truncate_file_to_bytes_journaled D sb ino target)
       (\<lambda>(ds, rep) x t'. \<exists>k. file_position ino inodes = Inr k \<and> target \<le> pi_byte_len (inodes ! k) \<and>
          ds = drop (div_ceil target BLOCK_SIZE) (pi_blocks (inodes ! k)) \<and>
          (if target = pi_byte_len (inodes ! k) then x = v \<and> t' = (al, inodes, entries) else resized v inodes entries ino (take target) x t')) \<and>
     atomic_op sb v t (grow_file_to_bytes_journaled D sb ino target)
       (\<lambda>(rs, rep) x t'. (\<exists>k. file_position ino inodes = Inr k \<and> pi_byte_len (inodes ! k) < target) \<and>
          resized v inodes entries ino (\<lambda>bs. bs @ zeroes (target - length bs)) x t') \<and>
     atomic_op sb v t (write_file_range_extending_journaled D sb ino start d)
       (\<lambda>(rs, rep) x t'. \<exists>k. file_position ino inodes = Inr k \<and>
          (if start + length d \<le> pi_byte_len (inodes ! k) then rs = [] \<and> range_written v al inodes entries ino start d x t'
           else resized v inodes entries ino (\<lambda>bs. take start bs @ zeroes (start - length bs) @ d) x t'))"
  unfolding assms(4,5)
  by (intro conjI truncate_bytes_atomic grow_bytes_atomic extending_write_atomic assms(1-3))

theorem file_resized_witness:
  "completes example_superblock example_tree (example_allocator, example_inodes, example_dirents)
     (grow_file_to_bytes_journaled (trace_device 64) example_superblock 4 600)
     (\<lambda>(rs, rep) x t'. (\<exists>k. file_position 4 example_inodes = Inr k \<and> pi_byte_len (example_inodes ! k) < 600) \<and>
        resized example_tree example_inodes example_dirents 4 (\<lambda>bs. bs @ zeroes (600 - length bs)) x t')"
proof -
  obtain rep x evs where run:
    "grow_file_to_bytes_journaled (trace_device 64) example_superblock 4 600 (example_tree, []) = (Inr ([], rep), x, evs)"
    by (rule example_grow_run)
  from file_resized [OF example_addressable example_tree_state(1,2) refl refl, of 4 600] show ?thesis
    using run by (intro completesI) (simp only: example_fields conj_assoc, blast)
qed

text \<open>
  C37. Transferring a block range to another file, moving one within a file, exchanging two ranges of
  equal or of different lengths, exchanging two ranges of one file, exchanging two whole files, and
  replacing a file by another write no data block: exactly the named files get the named block lists,
  with a byte length that keeps the unused part of the last block, every block keeps its data, and the
  operation is atomic under crashes. Replacing a file empties the source and frees the displaced blocks.
\<close>

theorem file_blocks_moved:
  assumes "addressable sb" and "fs_ok sb v al inodes entries" and "recovers sb v v"
    and "D = trace_device (sb_total_blocks sb)" and "t = (al, inodes, entries)"
    and "A = inode_of inodes src" and "B = inode_of inodes dst" and "rest = take si (pi_blocks A) @ drop (si + n) (pi_blocks A)"
    and "L = inode_of inodes (fxr_inode p)" and "R = inode_of inodes (fxr_inode q)"
  shows "atomic_op sb v t (transfer_file_block_range_journaled D sb src si n dst di)
       (\<lambda>(moved, rep) x t'. moved = block_slice si (si + n) (pi_blocks A) \<and>
          relinked v inodes entries [src \<mapsto> same_slack A rest, dst \<mapsto> same_slack B (take di (pi_blocks B) @ moved @ drop di (pi_blocks B))] x t') \<and>
     atomic_op sb v t (move_file_block_range_journaled D sb src si n di)
       (\<lambda>(moved, rep) x t'. moved = block_slice si (si + n) (pi_blocks A) \<and>
          relinked v inodes entries [src \<mapsto> (take di rest @ moved @ drop di rest, pi_byte_len A)] x t') \<and>
     atomic_op sb v t (exchange_file_block_ranges_journaled D sb src si dst di n)
       (\<lambda>_. relinked v inodes entries
         [src \<mapsto> (take si (pi_blocks A) @ block_slice di (di + n) (pi_blocks B) @ drop (si + n) (pi_blocks A), pi_byte_len A),
          dst \<mapsto> (take di (pi_blocks B) @ block_slice si (si + n) (pi_blocks A) @ drop (di + n) (pi_blocks B), pi_byte_len B)]) \<and>
     atomic_op sb v t (exchange_variable_file_block_ranges_journaled D sb p q)
       (\<lambda>_. relinked v inodes entries
         [fxr_inode p \<mapsto> same_slack L (take (fxr_start p) (pi_blocks L) @
            block_slice (fxr_start q) (fxr_start q + fxr_block_count q) (pi_blocks R) @ drop (fxr_start p + fxr_block_count p) (pi_blocks L)),
          fxr_inode q \<mapsto> same_slack R (take (fxr_start q) (pi_blocks R) @
            block_slice (fxr_start p) (fxr_start p + fxr_block_count p) (pi_blocks L) @ drop (fxr_start q + fxr_block_count q) (pi_blocks R))]) \<and>
     atomic_op sb v t (exchange_same_file_block_ranges_journaled D sb p q)
       (\<lambda>_. relinked v inodes entries [fxr_inode p \<mapsto> (exchanged_in_file p q (pi_blocks L), pi_byte_len L)]) \<and>
     atomic_op sb v t (exchange_complete_file_blocks_journaled D sb src dst)
       (\<lambda>_. relinked v inodes entries [src \<mapsto> (pi_blocks B, pi_byte_len B), dst \<mapsto> (pi_blocks A, pi_byte_len A)]) \<and>
     atomic_op sb v t (transfer_replace_complete_file_blocks_journaled D sb src dst)
       (\<lambda>_ x t'. relinked v inodes entries [src \<mapsto> ([], 0), dst \<mapsto> (pi_blocks A, pi_byte_len A)] x t' \<and>
          owned_blocks (fst t') = owned_blocks al - set (pi_blocks B))"
  unfolding assms(4-10)
  by (intro conjI transfer_atomic move_atomic exchange_atomic exchange_variable_atomic exchange_same_atomic exchange_complete_atomic
      transfer_replace_atomic assms(1-3) refl)

theorem file_blocks_moved_witness:
  "completes example_superblock example_tree (example_allocator, example_inodes, example_dirents)
     (exchange_complete_file_blocks_journaled (trace_device 64) example_superblock 4 5)
     (\<lambda>_. relinked example_tree example_inodes example_dirents [4 \<mapsto> ([15], 7), 5 \<mapsto> ([14], 5)])"
proof -
  obtain rep x evs where run:
    "exchange_complete_file_blocks_journaled (trace_device 64) example_superblock 4 5 (example_tree, []) = (Inr rep, x, evs)"
    by (rule example_exchange_run)
  have "inode_of example_inodes 4 = \<lparr>pi_id = 4, pi_kind = File, pi_blocks = [14], pi_byte_len = 5\<rparr>"
    "inode_of example_inodes 5 = \<lparr>pi_id = 5, pi_kind = File, pi_blocks = [15], pi_byte_len = 7\<rparr>"
    by (simp_all add: inode_of_def example_inodes_def)
  note two = this [THEN arg_cong [of _ _ pi_blocks]] this [THEN arg_cong [of _ _ pi_byte_len]]
  from file_blocks_moved [OF example_addressable example_tree_state(1,2) refl refl refl refl refl refl refl, where src = 4 and dst = 5] show ?thesis
    using run by (intro completesI) (simp only: example_fields conj_assoc two persisted_inode.simps, blast)
qed

section \<open>Paths and checked recovery\<close>

text \<open>
  C38. Resolving a path always ends, whatever cycles the symbolic links form, and never writes. It
  returns an inode exactly when the path names it through at most \<open>MAX_SYMLINK_EXPANSIONS\<close> links, with the
  last link followed or not; every other path is an error.
\<close>

theorem path_resolved:
  assumes "addressable sb" and "fs_ok sb v al inodes entries" and "recovers sb v v"
    and "D = trace_device (sb_total_blocks sb)"
  shows "(\<exists>r. resolve_path_following_symlinks D sb path (v, tr) = (r, v, tr) \<and>
       (\<forall>ino. r = Inr ino \<longleftrightarrow> (\<exists>n \<le> MAX_SYMLINK_EXPANSIONS. names v inodes entries True path n ino))) \<and>
     (\<exists>r. resolve_path_without_following_final_symlink D sb path (v, tr) = (r, v, tr) \<and>
       (\<forall>ino. r = Inr ino \<longleftrightarrow> (\<exists>n \<le> MAX_SYMLINK_EXPANSIONS. names v inodes entries False path n ino)))"
proof -
  have "disk_ok (sb_total_blocks sb) v" using assms(3) by (simp add: recovers_def)
  then have "finds v tr (resolve_path D sb path f) (\<lambda>ino. \<exists>n \<le> MAX_SYMLINK_EXPANSIONS. names v inodes entries f path n ino)" for f
    unfolding assms(4) using resolve_path_finds assms(1,2) by blast
  then show ?thesis
    by (simp add: finds_def resolve_path_following_symlinks_def resolve_path_without_following_final_symlink_def)
qed

theorem path_resolved_witness:
  "resolve_path_following_symlinks (trace_device 64) example_superblock [47, 100, 47, 103] (example_tree, []) = (Inr 4, example_tree, [])"
proof -
  let ?w = "walks example_tree example_inodes example_dirents True False"
  have "?w [] 4 0 4" by (rule walks.arrive) (simp_all add: example_inodes_def)
  then have "?w [[103]] 2 0 4"
    by (rule walks.down [rotated -1]) (simp_all add: example_dirs is_link_def, simp_all add: DOT_def DOT_DOT_def example_dirents_def example_inodes_def)
  then have "?w [[100], [103]] 1 0 4"
    by (rule walks.down [rotated -1]) (simp_all add: example_dirs is_link_def, simp_all add: DOT_def DOT_DOT_def example_dirents_def example_inodes_def)
  moreover have "parse_components [47, 100, 47, 103] = Inr [[100], [103]]"
    by (simp add: parse_components_def parse_component_sequence_def strip_slashes_def starts_with_slash_def ends_with_slash_def SLASH_def)
  ultimately have "names example_tree example_inodes example_dirents True [47, 100, 47, 103] 0 4"
    by (simp add: names_def starts_with_slash_def ends_with_slash_def SLASH_def ROOT_INODE_ID_def)
  then show ?thesis
    using path_resolved [OF example_addressable example_tree_state(1,2) refl, of "[47, 100, 47, 103]" "[]"] by force
qed

text \<open>
  C39. Recovery with a check first projects the committed transactions of the journal and audits the
  result. When the projected filesystem is consistent, or the journal is empty, it succeeds with
  the disk that plain recovery leaves; otherwise it fails and has issued no write and no flush.
\<close>

theorem checked_recovery:
  assumes "addressable sb" and "disk_ok (sb_total_blocks sb) w" and "superblock_decode (w 0) = Inr sb" and "load_disk sb w = Inr fs"
    and "D = trace_device (sb_total_blocks sb)"
  shows "if fs = [] \<or> consistent (sb_total_blocks sb) (write_all w (committed_writes fs))
     then recover_journal_and_checkpoint_checked D sb (w, tr) = recover_journal_and_checkpoint D sb (w, tr) \<and>
       (\<exists>report evs. recover_journal_and_checkpoint D sb (w, tr) = (Inr report, recovered fs w, tr @ evs)) \<and>
       (fs \<noteq> [] \<longrightarrow> consistent (sb_total_blocks sb) (recovered fs w))
     else \<exists>e. recover_journal_and_checkpoint_checked D sb (w, tr) = (Inl e, w, tr)"
  unfolding assms(5)
  using checked_recovery_trace [OF assms(1-4), of tr] recover_trace [OF addressable_geometry [OF assms(1)] refl assms(2,4), of tr]
    recovered_consistent [OF addressable_geometry [OF assms(1)] assms(3,4)] by auto

theorem checked_recovery_witness:
  "\<exists>x report evs. load_disk example_superblock x = Inr example_entries \<and>
     recover_journal_and_checkpoint_checked (trace_device 64) example_superblock (x, []) = (Inr report, recovered example_entries x, evs) \<and>
     consistent 64 (recovered example_entries x)"
proof -
  obtain x where x: "load_disk example_superblock x = Inr example_entries" "disk_ok 64 x" "superblock_decode (x 0) = Inr example_superblock"
    "consistent 64 (write_all x (committed_writes example_entries))" by (rule example_pending)
  have "example_entries \<noteq> []" by (simp add: example_entries_def)
  with checked_recovery [OF example_addressable _ x(3,1) refl, of "[]"] x show ?thesis by auto
qed

end
